(* ===== verification/Prelude.thy ===== *)
theory Prelude
  imports Main "HOL-Library.Word" "HOL-Library.Sublist" "HOL-Library.Monad_Syntax"
begin

text \<open>
  The vocabulary every component shares: C strings, the signedness of \<open>char\<close>, decimal
  printing as \<open>printf\<close> does it for \<open>%d\<close> and \<open>%u\<close>, the option type as the result of a
  step that may have no defined result, and the generic list and map lemmas the components use.

  A C string is the list of its characters before the terminating NUL byte; \<^const>\<open>set\<close> of
  such a list does not hold the NUL character.  A function that may dereference a freed cell,
  or a NULL pointer, returns \<^typ>\<open>'a option\<close>: \<^const>\<open>None\<close> is undefined behaviour in C.
\<close>

named_theorems cstring_simps \<open>equations of the C string routines\<close>
named_theorems heap_simps \<open>reading and writing cells of a heap\<close>
named_theorems word_nat \<open>moving bounded word arithmetic to natural numbers\<close>

subsection \<open>Characters and strings\<close>

type_synonym cstring = string

abbreviation NUL :: char where "NUL \<equiv> CHR 0x00"

definition cstr :: "string \<Rightarrow> bool" where
  "cstr s \<longleftrightarrow> NUL \<notin> set s"

lemma cstr_simps [simp]:
  "cstr []"
  "cstr (c # s) \<longleftrightarrow> c \<noteq> NUL \<and> cstr s"
  "cstr (s @ t) \<longleftrightarrow> cstr s \<and> cstr t"
  by (auto simp: cstr_def)

lemma cstr_takeI [intro]: "cstr s \<Longrightarrow> cstr (take n s)"
  by (auto simp: cstr_def dest: in_set_takeD)

lemma cstr_dropI [intro]: "cstr s \<Longrightarrow> cstr (drop n s)"
  by (auto simp: cstr_def dest: in_set_dropD)

text \<open>The byte value of a character, and its value where plain \<open>char\<close> is signed.\<close>

definition byte :: "char \<Rightarrow> nat" where
  "byte c = of_char c"

lemma byte_char_of [simp]: "byte (char_of n) = n mod 256"
  by (simp add: byte_def)

lemma char_of_byte [simp]: "char_of (byte c) = c"
  by (simp add: byte_def)

lemma byte_less [simp]: "byte c < 256"
  by (simp add: byte_def)

lemma byte_inject: "byte c = byte d \<longleftrightarrow> c = d"
  by (metis char_of_byte)

lemma byte_NUL [simp]: "byte NUL = 0"
  by (simp add: byte_def)

lemma byte_eq_0 [simp]: "byte c = 0 \<longleftrightarrow> c = NUL"
  using byte_inject [of c NUL] by simp

definition schar :: "char \<Rightarrow> int" where
  "schar c = (if byte c < 128 then int (byte c) else int (byte c) - 256)"

text \<open>
  \<open>strcmp\<close>: the sign of its result is what C defines; the model returns \<open>-1\<close>, \<open>0\<close> or \<open>1\<close>.
\<close>

fun strcmp :: "string \<Rightarrow> string \<Rightarrow> int" where
  "strcmp [] [] = 0"
| "strcmp [] (y # ys) = -1"
| "strcmp (x # xs) [] = 1"
| "strcmp (x # xs) (y # ys) =
     (if byte x < byte y then -1 else if byte y < byte x then 1 else strcmp xs ys)"

lemma strcmp_Cons_eq_0:
  "strcmp (x # xs) (y # ys) = 0 \<longleftrightarrow> x = y \<and> strcmp xs ys = 0"
  using byte_inject [of x y] by auto

lemma strcmp_eq_0 [simp]: "strcmp a b = 0 \<longleftrightarrow> a = b"
proof (induction a b rule: strcmp.induct)
  case (4 x xs y ys)
  show ?case
  proof (cases "x = y")
    case True
    with 4 show ?thesis by simp
  next
    case False
    then show ?thesis by (simp only: strcmp_Cons_eq_0 list.inject) simp
  qed
qed simp_all

lemma strcmp_refl [simp]: "strcmp a a = 0"
  by simp

lemma strcmp_antisym: "strcmp b a = - strcmp a b"
  by (induction a b rule: strcmp.induct) auto

lemma strcmp_range: "strcmp a b \<in> {-1, 0, 1}"
  by (induction a b rule: strcmp.induct) auto

lemma strcmp_less_iff: "strcmp a b < 0 \<longleftrightarrow> strcmp a b = -1"
  using strcmp_range [of a b] by auto

lemma strcmp_Nil_less [simp]: "strcmp [] c = -1 \<longleftrightarrow> c \<noteq> []"
  by (cases c) auto

lemma strcmp_not_less_Nil [simp]: "strcmp c [] \<noteq> -1"
  by (cases c) auto

lemma strcmp_Cons_less:
  "strcmp (x # xs) (y # ys) = -1 \<longleftrightarrow> byte x < byte y \<or> x = y \<and> strcmp xs ys = -1"
  using byte_inject [of x y] by auto

lemma strcmp_trans: "strcmp a b = -1 \<Longrightarrow> strcmp b c = -1 \<Longrightarrow> strcmp a c = -1"
proof (induction a arbitrary: b c)
  case Nil
  then show ?case by (cases b; cases c) simp_all
next
  case (Cons x xs)
  then obtain y ys where b: "b = y # ys" by (cases b) simp_all
  with Cons.prems obtain z zs where c: "c = z # zs" by (cases c) simp_all
  from Cons.prems Cons.IH [of ys zs] show ?case
    unfolding b c strcmp_Cons_less by (metis order_less_trans)
qed

subsection \<open>Decimal printing\<close>

definition digit_char :: "nat \<Rightarrow> char" where
  "digit_char d = char_of (48 + d)"

fun dec_of :: "nat \<Rightarrow> string" where
  "dec_of n = (if n < 10 then [digit_char n] else dec_of (n div 10) @ [digit_char (n mod 10)])"

declare dec_of.simps [simp del]

definition is_digit :: "char \<Rightarrow> bool" where
  "is_digit c \<longleftrightarrow> 48 \<le> byte c \<and> byte c \<le> 57"

definition digit_val :: "char \<Rightarrow> nat" where
  "digit_val c = byte c - 48"

definition dec_val :: "string \<Rightarrow> nat" where
  "dec_val s = foldl (\<lambda>v c. v * 10 + digit_val c) 0 s"

lemma byte_digit_char: "d < 10 \<Longrightarrow> byte (digit_char d) = 48 + d"
  by (simp add: digit_char_def)

lemma digit_val_char [simp]: "d < 10 \<Longrightarrow> digit_val (digit_char d) = d"
  by (simp add: digit_val_def byte_digit_char)

lemma is_digit_char [simp]: "d < 10 \<Longrightarrow> is_digit (digit_char d)"
  by (simp add: is_digit_def byte_digit_char)

lemma dec_of_digits: "\<forall>c \<in> set (dec_of n). is_digit c"
proof (induction n rule: dec_of.induct)
  case (1 n)
  then show ?case by (subst dec_of.simps) auto
qed

lemma dec_of_not_Nil [simp]: "dec_of n \<noteq> []"
  by (subst dec_of.simps) simp

lemma dec_val_snoc [simp]: "dec_val (s @ [c]) = dec_val s * 10 + digit_val c"
  by (simp add: dec_val_def)

lemma dec_val_Nil [simp]: "dec_val [] = 0"
  by (simp add: dec_val_def)

lemma dec_val_dec_of [simp]: "dec_val (dec_of n) = n"
proof (induction n rule: dec_of.induct)
  case (1 n)
  show ?case
  proof (cases "n < 10")
    case True
    then show ?thesis
      using dec_val_snoc [of "[]"] by (subst dec_of.simps) simp
  next
    case False
    with 1 show ?thesis by (subst dec_of.simps) simp
  qed
qed

lemma dec_of_inject [simp]: "dec_of m = dec_of n \<longleftrightarrow> m = n"
  by (metis dec_val_dec_of)

subsection \<open>Lists and maps\<close>

lemma map_of_middle:
  "k \<notin> fst ` set xs \<Longrightarrow> map_of (xs @ (k, v) # ys) = (map_of (xs @ ys))(k \<mapsto> v)"
  by (induction xs) auto

lemma map_of_middle_removed:
  "k \<notin> fst ` set xs \<Longrightarrow> k \<notin> fst ` set ys \<Longrightarrow>
   map_of (xs @ ys) = (map_of (xs @ (k, v) # ys))(k := None)"
  using map_of_eq_None_iff [of "xs @ ys" k]
  by (auto simp: map_of_middle image_Un fun_eq_iff simp del: map_of_append)

text \<open>A separator that occurs in neither left part determines both parts.\<close>

lemma separator_inject:
  "x \<notin> set xs \<Longrightarrow> x \<notin> set xs' \<Longrightarrow> xs @ x # ys = xs' @ x # ys' \<Longrightarrow> xs = xs' \<and> ys = ys'"
proof (induction xs arbitrary: xs')
  case Nil
  then show ?case by (cases xs') auto
next
  case (Cons z zs)
  then show ?case by (cases xs') auto
qed

lemma image_eq_witness: "f ` A = g ` A \<Longrightarrow> b \<in> A \<Longrightarrow> \<exists>c \<in> A. f c = g b"
  by (metis imageE imageI)

lemma distinct_map_eqD:
  "distinct (map f xs) \<Longrightarrow> a \<in> set xs \<Longrightarrow> b \<in> set xs \<Longrightarrow> f a = f b \<Longrightarrow> a = b"
  by (auto simp: distinct_map dest: inj_onD)

lemma bind_eq_SomeE:
  assumes "Option.bind x f = Some y"
  obtains z where "x = Some z" "f z = Some y"
  using assms by (cases x) auto

lemma filter_all_False: "\<forall>x \<in> set xs. \<not> P x \<Longrightarrow> filter P xs = []"
  by (induction xs) auto

end
