(* ===== verification/String_Utils.thy ===== *)
theory String_Utils
  imports Prelude
begin

text \<open>
  The string routines of \<open>src/src/common/string-utils.c\<close>.  A routine that rewrites its
  argument in place returns the new string, with the C return value beside it where there is one.
  The character classes of \<open>ctype.h\<close> depend on the locale, so they are arguments.
\<close>

subsection \<open>Prefix and suffix tests\<close>

fun ends_with_loop :: "string \<Rightarrow> string \<Rightarrow> bool" where
  "ends_with_loop [] s = True"
| "ends_with_loop (e # es) [] = False"
| "ends_with_loop (e # es) (c # s) = (if e \<noteq> c then False else ends_with_loop es s)"

definition ends_with :: "string \<Rightarrow> string \<Rightarrow> bool" where
  "ends_with str en =
     (if length str < length en then False
      else ends_with_loop en (drop (length str - length en) str))"

fun starts_with :: "string \<Rightarrow> string \<Rightarrow> bool" where
  "starts_with [] start = (start = [])"
| "starts_with (c # s) [] = True"
| "starts_with (c # s) (d # start) = (if c \<noteq> d then False else starts_with s start)"

lemma ends_with_loop_prefix: "ends_with_loop en s = prefix en s"
  by (induction en s rule: ends_with_loop.induct) auto

lemma prefix_length_eq_iff: "length s = length en \<Longrightarrow> prefix en s \<longleftrightarrow> en = s"
  by (auto simp: prefix_def)

lemma ends_with_suffix [cstring_simps]: "ends_with str en \<longleftrightarrow> suffix en str"
proof (cases "length str < length en")
  case True
  then show ?thesis
    using suffix_length_le [of en str] by (auto simp: ends_with_def)
next
  case False
  then have "length (drop (length str - length en) str) = length en" by simp
  then have "prefix en (drop (length str - length en) str)
      \<longleftrightarrow> en = drop (length str - length en) str"
    by (metis prefix_length_eq_iff)
  also have "\<dots> \<longleftrightarrow> suffix en str"
    using False by (metis suffix_drop suffix_take append_eq_conv_conj suffix_def append_take_drop_id)
  finally show ?thesis
    using False by (simp add: ends_with_def ends_with_loop_prefix)
qed

lemma starts_with_prefix [cstring_simps]: "starts_with str start \<longleftrightarrow> prefix start str"
  by (induction str start rule: starts_with.induct) auto

subsection \<open>Searching and trimming\<close>

text \<open>\<open>strchr\<close> finds the terminating NUL when it is asked for it.\<close>

fun char_pos :: "string \<Rightarrow> char \<Rightarrow> nat option" where
  "char_pos [] ch = None"
| "char_pos (c # s) ch = (if c = ch then Some 0 else map_option Suc (char_pos s ch))"

definition strindex :: "string \<Rightarrow> char \<Rightarrow> int" where
  "strindex str ch =
     (if ch = NUL then int (length str)
      else (case char_pos str ch of None \<Rightarrow> -1 | Some i \<Rightarrow> int i))"

lemma char_pos_None: "char_pos s ch = None \<longleftrightarrow> ch \<notin> set s"
  by (induction s) auto

lemma char_pos_SomeD: "char_pos s ch = Some i \<Longrightarrow> i < length s \<and> s ! i = ch \<and> ch \<notin> set (take i s)"
  by (induction s arbitrary: i) (auto split: if_splits)

lemma strindex_eq_minus1: "ch \<noteq> NUL \<Longrightarrow> strindex s ch = -1 \<longleftrightarrow> ch \<notin> set s"
proof (cases "char_pos s ch")
  case None
  moreover assume "ch \<noteq> NUL"
  ultimately show ?thesis using char_pos_None [of s ch] by (simp add: strindex_def)
next
  case (Some i)
  moreover assume "ch \<noteq> NUL"
  ultimately show ?thesis using char_pos_None [of s ch] by (simp add: strindex_def)
qed

definition chomp :: "string \<Rightarrow> string" where
  "chomp str = (let len = length str in
     if 0 < len \<and> str ! (len - 1) = CHR 0x0A then take (len - 1) str else str)"

lemma chomp_snoc_newline [simp, cstring_simps]: "chomp (s @ [CHR 0x0A]) = s"
  by (simp add: chomp_def Let_def)

lemma chomp_id [cstring_simps]: "CHR 0x0A \<notin> set s \<Longrightarrow> chomp s = s"
proof (cases s rule: rev_cases)
  case (snoc t c)
  moreover assume "CHR 0x0A \<notin> set s"
  ultimately show ?thesis by (auto simp: chomp_def Let_def)
qed (simp add: chomp_def)

text \<open>
  \<open>string_strip_trailing\<close> walks an index down from the last character and cuts the string after
  the last character not listed; it returns how many characters it removed.
\<close>

fun strip_trailing_index :: "string \<Rightarrow> string \<Rightarrow> nat \<Rightarrow> nat" where
  "strip_trailing_index str stripchars 0 = 0"
| "strip_trailing_index str stripchars (Suc a) =
     (if strindex stripchars (str ! a) \<noteq> -1 then strip_trailing_index str stripchars a else Suc a)"

definition string_strip_trailing :: "string \<Rightarrow> string \<Rightarrow> string \<times> nat" where
  "string_strip_trailing str stripchars =
     (let n = strip_trailing_index str stripchars (length str)
      in (take n str, length str - n))"

lemma strip_trailing_index_le: "strip_trailing_index str cs n \<le> n"
  by (induction n) auto

lemma strip_trailing_index_append:
  "n \<le> length s \<Longrightarrow> strip_trailing_index (s @ t) cs n = strip_trailing_index s cs n"
  by (induction n) (auto simp: nth_append)

lemma strip_trailing_snoc_keep:
  "c \<noteq> NUL \<Longrightarrow> c \<notin> set cs \<Longrightarrow> string_strip_trailing (s @ [c]) cs = (s @ [c], 0)"
  by (simp add: string_strip_trailing_def Let_def strindex_eq_minus1)

lemma strip_trailing_snoc_drop:
  "c \<noteq> NUL \<Longrightarrow> c \<in> set cs \<Longrightarrow>
   fst (string_strip_trailing (s @ [c]) cs) = fst (string_strip_trailing s cs)"
  using strip_trailing_index_le [of s cs "length s"]
  by (simp add: string_strip_trailing_def Let_def strindex_eq_minus1 strip_trailing_index_append)

subsection \<open>Cutting a string in place\<close>

text \<open>The string that starts at \<open>line + i\<close> once a NUL has been written at \<open>line[n]\<close>.\<close>

definition string_from :: "string \<Rightarrow> nat \<Rightarrow> nat \<Rightarrow> string" where
  "string_from line n i = (if i \<le> n then drop i (take n line) else drop i line)"

subsection \<open>Joining file names\<close>

definition cat_files :: "string \<Rightarrow> string \<Rightarrow> string" where
  "cat_files file file2 =
     (if strcmp file ''.'' = 0 then file2
      else file @ (if ends_with file ''/'' then '''' else ''/'') @ file2)"

lemma cat_files_dot [simp]: "cat_files ''.'' f = f"
  by (simp add: cat_files_def)

lemma cat_files_inject [simp]: "cat_files d f = cat_files d g \<longleftrightarrow> f = g"
  by (simp add: cat_files_def)

subsection \<open>Character classes and conversions\<close>

definition strip_leading :: "(char \<Rightarrow> bool) \<Rightarrow> string \<Rightarrow> string" where
  "strip_leading check line =
     (case line of [] \<Rightarrow> [] | c # cs \<Rightarrow> if check c then dropWhile check cs else line)"

lemma strip_leading_dropWhile [cstring_simps]: "strip_leading check line = dropWhile check line"
  by (cases line) (simp_all add: strip_leading_def)

fun char_index_loop :: "string \<Rightarrow> (char \<Rightarrow> bool) \<Rightarrow> int \<Rightarrow> int" where
  "char_index_loop [] check c = -1"
| "char_index_loop (ch # line) check c = (if check ch then c else char_index_loop line check (c + 1))"

definition char_index :: "string \<Rightarrow> (char \<Rightarrow> bool) \<Rightarrow> int" where
  "char_index line check = char_index_loop line check 0"

fun ends_with_nocase_loop :: "(char \<Rightarrow> char) \<Rightarrow> string \<Rightarrow> string \<Rightarrow> bool" where
  "ends_with_nocase_loop tolower [] s = True"
| "ends_with_nocase_loop tolower (e # es) [] = False"
| "ends_with_nocase_loop tolower (e # es) (c # s) =
     (if tolower e \<noteq> tolower c then False else ends_with_nocase_loop tolower es s)"

definition ends_with_nocase :: "(char \<Rightarrow> char) \<Rightarrow> string \<Rightarrow> string \<Rightarrow> bool" where
  "ends_with_nocase tolower str en =
     (if length str < length en then False
      else ends_with_nocase_loop tolower en (drop (length str - length en) str))"

text \<open>\<open>tolower\<close> maps NUL, and nothing else, to NUL.\<close>

fun starts_with_nocase :: "(char \<Rightarrow> char) \<Rightarrow> string \<Rightarrow> string \<Rightarrow> bool" where
  "starts_with_nocase tolower [] start = (start = [])"
| "starts_with_nocase tolower (c # s) [] = True"
| "starts_with_nocase tolower (c # s) (d # start) =
     (if tolower c \<noteq> tolower d then False else starts_with_nocase tolower s start)"

fun translate_char :: "string \<Rightarrow> char \<Rightarrow> char \<Rightarrow> string \<times> nat" where
  "translate_char [] src dst = ([], 0)"
| "translate_char (c # str) src dst =
     (case translate_char str src dst of (s, changes) \<Rightarrow>
        if c = src then (dst # s, changes + 1) else (c # s, changes))"

definition str_convert :: "string \<Rightarrow> (char \<Rightarrow> char) \<Rightarrow> string" where
  "str_convert str convert = map convert str"

definition iswordchar :: "(char \<Rightarrow> bool) \<Rightarrow> char \<Rightarrow> bool" where
  "iswordchar isalnum ch \<longleftrightarrow> isalnum ch \<or> ch = CHR ''_''"

lemma ends_with_nocase_loop_map:
  "ends_with_nocase_loop f en s = ends_with_loop (map f en) (map f s)"
  by (induction f en s rule: ends_with_nocase_loop.induct) auto

lemma ends_with_nocase_map:
  "ends_with_nocase f str en = ends_with (str_convert str f) (str_convert en f)"
  by (simp add: ends_with_nocase_def ends_with_def str_convert_def ends_with_nocase_loop_map drop_map)

lemma starts_with_nocase_map:
  "starts_with_nocase f str start = starts_with (str_convert str f) (str_convert start f)"
  by (induction f str start rule: starts_with_nocase.induct) (auto simp: str_convert_def)

lemma translate_char_spec:
  "fst (translate_char s src dst) = map (\<lambda>c. if c = src then dst else c) s \<and>
   snd (translate_char s src dst) = count_list s src"
  by (induction s src dst rule: translate_char.induct) (auto split: prod.splits)

lemma char_index_loop_spec:
  "char_index_loop s check k =
     (if \<exists>c \<in> set s. check c then k + int (length (takeWhile (\<lambda>c. \<not> check c) s)) else -1)"
  by (induction s check k rule: char_index_loop.induct) auto

subsection \<open>Parts of strings\<close>

text \<open>
  \<open>substring\<close>: a start before the string, or behind its end, reads outside of it; a negative
  length is a huge \<open>size_t\<close>, for which \<open>strndup\<close> copies up to the end.
\<close>

definition substring :: "string \<Rightarrow> int \<Rightarrow> int \<Rightarrow> string option" where
  "substring buf start en =
     (let len = int (length buf);
          start = (if start < 0 then start + len else start);
          en = (if en < 0 then en + len else en)
      in if start < 0 \<or> len < start then None
         else if en < start then Some (drop (nat start) buf)
         else Some (take (nat (en - start)) (drop (nat start) buf)))"

lemma substring_simple:
  "start \<le> en \<Longrightarrow> start \<le> length buf \<Longrightarrow>
   substring buf (int start) (int en) = Some (take (en - start) (drop start buf))"
  by (auto simp: substring_def Let_def nat_diff_distrib')

fun strip_leading_count :: "string \<Rightarrow> string \<Rightarrow> nat" where
  "strip_leading_count [] stripchars = 0"
| "strip_leading_count (c # s) stripchars =
     (if strindex stripchars c \<noteq> -1 then Suc (strip_leading_count s stripchars) else 0)"

definition string_strip_leading :: "string \<Rightarrow> string \<Rightarrow> string \<times> nat" where
  "string_strip_leading str stripchars =
     (let a = strip_leading_count str stripchars in (drop a str, a))"

fun strip_leading_c_count :: "string \<Rightarrow> char \<Rightarrow> nat" where
  "strip_leading_c_count [] stripchar = 0"
| "strip_leading_c_count (c # s) stripchar =
     (if c = stripchar then Suc (strip_leading_c_count s stripchar) else 0)"

definition string_strip_leading_c :: "string \<Rightarrow> char \<Rightarrow> string \<times> nat" where
  "string_strip_leading_c str stripchar =
     (let a = strip_leading_c_count str stripchar in (drop a str, a))"

fun index_of_any_loop :: "string \<Rightarrow> string \<Rightarrow> int \<Rightarrow> int" where
  "index_of_any_loop [] findchars c = -1"
| "index_of_any_loop (ch # str) findchars c =
     (if strindex findchars ch \<noteq> -1 then c else index_of_any_loop str findchars (c + 1))"

definition string_index_of_any :: "string \<Rightarrow> string \<Rightarrow> int" where
  "string_index_of_any str findchars = index_of_any_loop str findchars 0"

lemma string_strip_leading_spec:
  "cstr s \<Longrightarrow> fst (string_strip_leading s cs) = dropWhile (\<lambda>c. c \<in> set cs) s"
  by (induction s) (auto simp: string_strip_leading_def Let_def strindex_eq_minus1)

lemma string_strip_leading_c_spec:
  "fst (string_strip_leading_c s c) = dropWhile (\<lambda>d. d = c) s"
  by (induction s) (auto simp: string_strip_leading_c_def Let_def)

lemma string_strip_trailing_spec:
  "cstr s \<Longrightarrow> fst (string_strip_trailing s cs) = rev (dropWhile (\<lambda>c. c \<in> set cs) (rev s))"
proof (induction s rule: rev_induct)
  case (snoc c s)
  then show ?case
    using strip_trailing_snoc_keep [of c cs s] strip_trailing_snoc_drop [of c cs s]
    by (cases "c \<in> set cs") simp_all
qed (simp add: string_strip_trailing_def)

text \<open>\<open>strrchr\<close>, and \<open>xdirname\<close>, which keeps the name up to the last slash.\<close>

fun last_slash :: "string \<Rightarrow> nat option" where
  "last_slash [] = None"
| "last_slash (c # s) =
     (case last_slash s of Some i \<Rightarrow> Some (Suc i) | None \<Rightarrow> if c = CHR ''/'' then Some 0 else None)"

definition xdirname :: "string \<Rightarrow> string option" where
  "xdirname path =
     (case last_slash path of
        None \<Rightarrow> Some ''.''
      | Some 0 \<Rightarrow> Some ''/''
      | Some pos \<Rightarrow> substring path 0 (int pos))"

lemma last_slash_None: "last_slash s = None \<longleftrightarrow> CHR ''/'' \<notin> set s"
  by (induction s) (auto split: option.splits)

lemma last_slash_Some:
  "last_slash s = Some i \<Longrightarrow>
   i < length s \<and> s = take i s @ CHR ''/'' # drop (Suc i) s \<and> CHR ''/'' \<notin> set (drop (Suc i) s)"
proof (induction s arbitrary: i)
  case (Cons c s)
  show ?case
  proof (cases "last_slash s")
    case None
    with Cons.prems show ?thesis using last_slash_None [of s] by (auto split: if_splits)
  next
    case (Some j)
    with Cons.prems Cons.IH [OF Some] show ?thesis by auto
  qed
qed simp

subsection \<open>Words\<close>

text \<open>
  \<open>word_get_index\<close>: how many words end before position \<open>pos\<close>; \<open>word_get\<close>: the word of an index.
\<close>

fun word_get_index_loop :: "(char \<Rightarrow> bool) \<Rightarrow> string \<Rightarrow> nat \<Rightarrow> nat \<Rightarrow> bool \<Rightarrow> nat \<Rightarrow> nat" where
  "word_get_index_loop isspace [] pos c in_word words = words"
| "word_get_index_loop isspace (ch # str) pos c in_word words =
     (if \<not> c < pos then words
      else
        let in_word = (if \<not> in_word \<and> \<not> isspace ch then True else in_word) in
        if in_word \<and> isspace ch
        then word_get_index_loop isspace str pos (Suc c) False (Suc words)
        else word_get_index_loop isspace str pos (Suc c) in_word words)"

definition word_get_index :: "(char \<Rightarrow> bool) \<Rightarrow> string \<Rightarrow> nat \<Rightarrow> nat" where
  "word_get_index isspace str pos = word_get_index_loop isspace str pos 0 False 0"

fun word_get_loop :: "(char \<Rightarrow> bool) \<Rightarrow> string \<Rightarrow> int \<Rightarrow> string \<Rightarrow> nat \<Rightarrow> bool \<Rightarrow> int \<Rightarrow> int
    \<Rightarrow> string option" where
  "word_get_loop isspace str idx [] c in_word words start =
     (if words - 1 = idx then substring str start (int c) else None)"
| "word_get_loop isspace str idx (ch # rest) c in_word words start =
     (let new_word = (\<not> in_word \<and> \<not> isspace ch);
          words = (if new_word then words + 1 else words);
          start = (if new_word then int c else start);
          in_word = (if new_word then True else in_word)
      in if in_word \<and> isspace ch
         then if words > idx then substring str start (int c)
              else word_get_loop isspace str idx rest (Suc c) False words start
         else word_get_loop isspace str idx rest (Suc c) in_word words start)"

definition word_get :: "(char \<Rightarrow> bool) \<Rightarrow> string \<Rightarrow> int \<Rightarrow> string option" where
  "word_get isspace str idx = word_get_loop isspace str idx str 0 False 0 (-1)"

text \<open>The words of a string: its maximal runs of characters that are no space.\<close>

function words_of :: "(char \<Rightarrow> bool) \<Rightarrow> string \<Rightarrow> string list" where
  "words_of isspace [] = []"
| "words_of isspace (c # s) =
     (if isspace c then words_of isspace s
      else (c # takeWhile (\<lambda>c. \<not> isspace c) s) # words_of isspace (dropWhile (\<lambda>c. \<not> isspace c) s))"
  by pat_completeness auto
termination
  by (relation "measure (\<lambda>(isspace, s). length s)") (auto simp: le_imp_less_Suc length_dropWhile_le)

lemma words_of_dropWhile:
  "words_of isspace (dropWhile isspace s) = words_of isspace s"
  by (induction s) auto

lemma substring_append:
  "substring (pre @ w @ rest) (int (length pre)) (int (length pre + length w)) = Some w"
  by (subst substring_simple) auto

lemma word_get_loop_spec:
  "str = pre @ w @ rest \<Longrightarrow> c = length pre + length w \<Longrightarrow> 0 \<le> idx \<Longrightarrow>
   (in_word \<longrightarrow> w \<noteq> [] \<and> (\<forall>x \<in> set w. \<not> isspace x) \<and> start = int (length pre)) \<Longrightarrow>
   (\<not> in_word \<longrightarrow> w = []) \<Longrightarrow> 0 \<le> words \<Longrightarrow> (if in_word then words \<le> idx + 1 \<and> 1 \<le> words else words \<le> idx) \<Longrightarrow>
   word_get_loop isspace str idx rest c in_word words start =
     (let ws = (if in_word then [w @ takeWhile (\<lambda>c. \<not> isspace c) rest] else []) @
               words_of isspace (if in_word then dropWhile (\<lambda>c. \<not> isspace c) rest else rest);
          i = nat (idx - words + (if in_word then 1 else 0))
      in if i < length ws then Some (ws ! i) else None)"
proof (induction rest arbitrary: pre w c in_word words start)
  case Nil
  show ?case
  proof (cases in_word)
    case True
    then have "words - 1 = idx \<longleftrightarrow> nat (idx - words + 1) = 0" using Nil by auto
    with True Nil show ?thesis
      using substring_append [of pre w "[]"] by (auto simp: Let_def)
  next
    case False
    with Nil show ?thesis by auto
  qed
next
  case (Cons ch rest)
  show ?case
  proof (cases "isspace ch")
    case space: True
    show ?thesis
    proof (cases in_word)
      case True
      show ?thesis
      proof (cases "words > idx")
        case gt: True
        then have "nat (idx - words + 1) = 0" using True Cons.prems by auto
        with True gt space Cons.prems show ?thesis
          using substring_append [of pre w "ch # rest"] by (simp add: Let_def)
      next
        case False
        have "word_get_loop isspace str idx rest (Suc c) False words start =
          (let ws = words_of isspace rest; i = nat (idx - words)
           in if i < length ws then Some (ws ! i) else None)"
          using Cons.IH [of "pre @ w @ [ch]" "[]" "Suc c" False start words] Cons.prems True False
          by (simp add: Let_def)
        moreover have "nat (idx - words + 1) = Suc (nat (idx - words))" using False by simp
        ultimately show ?thesis using True False space by (simp add: Let_def)
      qed
    next
      case False
      then show ?thesis
        using Cons.IH [of "pre @ [ch]" "[]" "Suc c" False start words] Cons.prems space
        by (simp add: Let_def)
    qed
  next
    case nospace: False
    show ?thesis
    proof (cases in_word)
      case True
      then show ?thesis
        using Cons.IH [of pre "w @ [ch]" "Suc c" True start words] Cons.prems nospace
        by (simp add: Let_def)
    next
      case False
      then show ?thesis
        using Cons.IH [of pre "[ch]" "Suc c" True "int c" "words + 1"] Cons.prems nospace
        by (simp add: Let_def)
    qed
  qed
qed

lemma word_get_words:
  "0 \<le> idx \<Longrightarrow> word_get isspace str idx =
     (if nat idx < length (words_of isspace str) then Some (words_of isspace str ! nat idx) else None)"
  using word_get_loop_spec [of str "[]" "[]" str 0 idx False isspace "-1" 0]
  by (simp add: word_get_def Let_def)

text \<open>The words from a position on, the one the position is in included.\<close>

definition words_left :: "(char \<Rightarrow> bool) \<Rightarrow> bool \<Rightarrow> string \<Rightarrow> nat" where
  "words_left isspace in_word str =
     (if in_word then 1 + length (words_of isspace (dropWhile (\<lambda>c. \<not> isspace c) str))
      else length (words_of isspace str))"

lemma words_left_simps:
  "isspace ch \<Longrightarrow> words_left isspace True (ch # str) = 1 + words_left isspace False str"
  "\<not> isspace ch \<Longrightarrow> words_left isspace True (ch # str) = words_left isspace True str"
  "isspace ch \<Longrightarrow> words_left isspace False (ch # str) = words_left isspace False str"
  "\<not> isspace ch \<Longrightarrow> words_left isspace False (ch # str) = words_left isspace True str"
  by (simp_all add: words_left_def)

lemma word_get_index_loop_le:
  "word_get_index_loop isspace str pos c in_word words \<le> words + words_left isspace in_word str"
proof (induction str arbitrary: c in_word words)
  case (Cons ch str)
  show ?case
  proof (cases "c < pos")
    case True
    then show ?thesis
      using Cons.IH [of "Suc c" False "Suc words"] Cons.IH [of "Suc c" True words] Cons.IH [of "Suc c" False words]
      by (cases in_word; cases "isspace ch") (simp_all add: words_left_simps)
  qed simp
qed simp

lemma word_get_index_le: "word_get_index isspace str pos \<le> length (words_of isspace str)"
  using word_get_index_loop_le [of isspace str pos 0 False 0] by (simp add: word_get_index_def words_left_def)

lemma word_get_before: "i < word_get_index isspace str pos \<Longrightarrow> word_get isspace str (int i) \<noteq> None"
  using word_get_index_le [of isspace str pos] word_get_words [of "int i" isspace str] by simp

subsection \<open>Digits\<close>

function uintlen_loop :: "64 word \<Rightarrow> nat \<Rightarrow> nat" where
  "uintlen_loop v len = (if 10 \<le> v then uintlen_loop (v div 10) (Suc len) else len)"
  by pat_completeness auto
termination
proof (relation "measure (\<lambda>(v, len). unat v)")
  fix v :: "64 word" and len :: nat
  assume "10 \<le> v"
  then have "10 \<le> unat v" by (simp add: word_le_nat_alt)
  then show "((v div 10, Suc len), (v, len)) \<in> measure (\<lambda>(v, len). unat v)"
    by (simp add: unat_div)
qed simp

declare uintlen_loop.simps [simp del]

definition uintlen :: "64 word \<Rightarrow> nat" where
  "uintlen v = uintlen_loop v 1"

lemma uintlen_loop_dec: "uintlen_loop v (Suc len) = len + length (dec_of (unat v))"
proof (induction v "Suc len" arbitrary: len rule: uintlen_loop.induct)
  case (1 v)
  show ?case
  proof (cases "10 \<le> v")
    case True
    then have "\<not> unat v < 10" by (simp add: word_le_nat_alt)
    then have "length (dec_of (unat v)) = Suc (length (dec_of (unat v div 10)))"
      by (subst dec_of.simps) simp
    with True 1 show ?thesis by (subst uintlen_loop.simps) (simp add: unat_div)
  next
    case False
    then have "unat v < 10" by (simp add: word_le_nat_alt)
    then have "length (dec_of (unat v)) = 1" by (subst dec_of.simps) simp
    with False show ?thesis by (subst uintlen_loop.simps) simp
  qed
qed

lemma uintlen_dec: "uintlen v = length (dec_of (unat v))"
  using uintlen_loop_dec [of v 0] by (simp add: uintlen_def)

end
