(* ===== verification/Word32.thy ===== *)
theory Word32
  imports Prelude
begin

text \<open>
  Natural numbers that fit a 32-bit word: below \<open>2^32\<close> the unsigned reading, and below \<open>2^31\<close> the
  signed one, gives the number back.
\<close>

type_synonym word32 = "32 word"

lemma sint_of_nat_small [simp]: "n < 2 ^ 31 \<Longrightarrow> sint (of_nat n :: word32) = int n"
  by (simp add: signed_of_nat signed_take_bit_int_eq_self)

lemma unat_of_nat_small [simp]: "n < 2 ^ 32 \<Longrightarrow> unat (of_nat n :: word32) = n"
  by (simp add: unat_of_nat take_bit_nat_eq_self)

lemma uint_of_nat_small [simp]: "n < 2 ^ 32 \<Longrightarrow> uint (of_nat n :: word32) = int n"
  by (simp add: uint_nat)

lemma of_nat_word_eq_iff [simp]:
  "m < 2 ^ 32 \<Longrightarrow> n < 2 ^ 32 \<Longrightarrow> (of_nat m :: word32) = of_nat n \<longleftrightarrow> m = n"
  by (metis unat_of_nat_small)

lemma of_nat_word_le_iff:
  "m < 2 ^ 32 \<Longrightarrow> n < 2 ^ 32 \<Longrightarrow> (of_nat m :: word32) \<le> of_nat n \<longleftrightarrow> m \<le> n"
  by (simp add: word_le_nat_alt)

lemma of_nat_word_less_iff:
  "m < 2 ^ 32 \<Longrightarrow> n < 2 ^ 32 \<Longrightarrow> (of_nat m :: word32) < of_nat n \<longleftrightarrow> m < n"
  by (simp add: word_less_nat_alt)

lemmas of_nat_word = of_nat_word_le_iff of_nat_word_less_iff

lemma sint_nonneg_uint: "0 \<le> sint (w :: word32) \<Longrightarrow> uint w = sint w"
  using uint_sint [of w] sint_lt [of w] by (simp add: take_bit_int_eq_self)

lemma of_nat_word_0: "n < 2 ^ 32 \<Longrightarrow> (of_nat n :: word32) = 0 \<longleftrightarrow> n = 0"
  using of_nat_word_eq_iff [of n 0] by simp

lemma of_nat_word_1: "n < 2 ^ 32 \<Longrightarrow> (of_nat n :: word32) = 1 \<longleftrightarrow> n = 1"
  using of_nat_word_eq_iff [of n 1] by simp

end
