(* ===== verification/Strbuf.thy ===== *)
theory Strbuf
  imports Word32
begin

text \<open>
  String buffers, \<open>src/src/common/strbuf.c\<close> and the macros of \<open>strbuf.h\<close>.  The allocated block is
  the list of its bytes, \<^const>\<open>None\<close> for a byte not written yet; lengths, capacities and positions
  are 32-bit words, read as signed where the code declares \<open>int32_t\<close>.  A copy that leaves the block
  has no result.  Allocation does not fail (\<open>xmalloc\<close> exits), and a formatted string is an argument.
\<close>

subsection \<open>Blocks of bytes\<close>

type_synonym block = "char option list"

definition mem_move :: "block \<Rightarrow> int \<Rightarrow> int \<Rightarrow> nat \<Rightarrow> block option" where
  "mem_move b dst src n =
     (if 0 \<le> dst \<and> 0 \<le> src \<and> nat dst + n \<le> length b \<and> nat src + n \<le> length b
      then Some (take (nat dst) b @ take n (drop (nat src) b) @ drop (nat dst + n) b) else None)"

definition mem_copy :: "block \<Rightarrow> int \<Rightarrow> string \<Rightarrow> nat \<Rightarrow> block option" where
  "mem_copy b dst mem n =
     (if 0 \<le> dst \<and> nat dst + n \<le> length b \<and> n \<le> length mem
      then Some (take (nat dst) b @ map Some (take n mem) @ drop (nat dst + n) b) else None)"

definition mem_set :: "block \<Rightarrow> int \<Rightarrow> char \<Rightarrow> block option" where
  "mem_set b i ch = (if 0 \<le> i \<and> nat i < length b then Some (b[nat i := Some ch]) else None)"

text \<open>Reading a string: up to the first NUL, which must come before the end of the block.\<close>

fun read_string :: "block \<Rightarrow> string option" where
  "read_string [] = None"
| "read_string (None # b) = None"
| "read_string (Some ch # b) = (if ch = NUL then Some [] else map_option ((#) ch) (read_string b))"

text \<open>\<open>strnlen\<close> and \<open>strlen\<close> of a block of known bytes; a block may lack the NUL.\<close>

definition strnlen :: "string \<Rightarrow> nat \<Rightarrow> nat option" where
  "strnlen mem n =
     (if n \<le> length mem \<or> NUL \<in> set mem then Some (length (takeWhile (\<lambda>c. c \<noteq> NUL) (take n mem))) else None)"

definition strlen :: "string \<Rightarrow> nat option" where
  "strlen mem = (if NUL \<in> set mem then Some (length (takeWhile (\<lambda>c. c \<noteq> NUL) mem)) else None)"

subsection \<open>The buffer\<close>

record strbuf =
  sb_buf :: block
  sb_len :: word32
  sb_capacity :: word32

text \<open>\<open>pos >= sb->len\<close> compares an \<open>int32_t\<close> with a \<open>uint32_t\<close>: as unsigned numbers.\<close>

definition normalize_strbuf_pos :: "strbuf \<Rightarrow> word32 \<Rightarrow> word32" where
  "normalize_strbuf_pos sb pos =
     (if sb_len sb \<le> pos then sb_len sb
      else if 0 \<le> sint pos then pos
      else let pos = pos + (1 + sb_len sb) in if 0 \<le> sint pos then pos else 0)"

definition normalize_str_pos :: "string option \<Rightarrow> word32 \<Rightarrow> word32 option" where
  "normalize_str_pos str pos =
     (case str of
        None \<Rightarrow> Some 0
      | Some s \<Rightarrow>
          if 0 \<le> sint pos then map_option of_nat (strnlen s (nat (sint pos)))
          else do { n \<leftarrow> strlen s;
                    let pos = pos + of_nat (1 + n);
                    Some (if 0 \<le> sint pos then pos else 0) })"

definition swap_positions :: "word32 \<Rightarrow> word32 \<Rightarrow> word32 \<times> word32" where
  "swap_positions sp ep = (if sint ep < sint sp then (ep, sp) else (sp, ep))"

definition strbuf_new_with_capacity :: "word32 \<Rightarrow> strbuf" where
  "strbuf_new_with_capacity capacity =
     \<lparr> sb_buf = (replicate (unat capacity) None)[0 := Some NUL], sb_len = 0, sb_capacity = capacity \<rparr>"

definition strbuf_new :: strbuf where
  "strbuf_new = strbuf_new_with_capacity 16"

definition strbuf_ensure_capacity :: "strbuf \<Rightarrow> word32 \<Rightarrow> strbuf" where
  "strbuf_ensure_capacity sb min_capacity =
     (if sb_capacity sb < min_capacity
      then let capacity = max min_capacity (sb_len sb * 2 + 2);
               buf = sb_buf sb @ replicate (unat capacity - length (sb_buf sb)) None
           in sb\<lparr>sb_capacity := capacity, sb_buf := (if sb_len sb = 0 then buf[0 := Some NUL] else buf)\<rparr>
      else sb)"

text \<open>\<open>for (; times > 0; times--) \<open>{\<close> memcpy(sb->buf+sp, mem, len); sp += len; \<open>}\<close>\<close>\<close>

fun copy_times :: "nat \<Rightarrow> block \<Rightarrow> word32 \<Rightarrow> string \<Rightarrow> word32 \<Rightarrow> block option" where
  "copy_times 0 b sp mem len = Some b"
| "copy_times (Suc n) b sp mem len =
     do { b \<leftarrow> mem_copy b (sint sp) mem (unat len); copy_times n b (sp + len) mem len }"

definition strbuf_replace_data_n ::
  "strbuf \<Rightarrow> word32 \<Rightarrow> word32 \<Rightarrow> word32 \<Rightarrow> string \<Rightarrow> word32 \<Rightarrow> strbuf option" where
  "strbuf_replace_data_n sb sp ep reps mem len =
     (case swap_positions (normalize_strbuf_pos sb sp) (normalize_strbuf_pos sb ep) of
        (sp, ep) \<Rightarrow>
          let addlen = len * reps; dellen = ep - sp in
          do {
            sb \<leftarrow> if addlen \<noteq> dellen
                 then do {
                   let sb = strbuf_ensure_capacity sb (sb_len sb + 1 - dellen + addlen);
                   b \<leftarrow> mem_move (sb_buf sb) (sint sp + uint addlen) (sint ep) (unat (sb_len sb + 1 - ep));
                   Some (sb\<lparr>sb_buf := b, sb_len := sb_len sb + (addlen - dellen)\<rparr>) }
                 else Some sb;
            if 0 < addlen
            then do { b \<leftarrow> copy_times (unat reps) (sb_buf sb) sp mem len; Some (sb\<lparr>sb_buf := b\<rparr>) }
            else Some sb })"

text \<open>A NULL string has no bytes; \<open>substr + subsp\<close> is then NULL again, as both positions are 0.\<close>

definition strbuf_replace_substring_n ::
  "strbuf \<Rightarrow> word32 \<Rightarrow> word32 \<Rightarrow> word32 \<Rightarrow> string option \<Rightarrow> word32 \<Rightarrow> word32 \<Rightarrow> strbuf option" where
  "strbuf_replace_substring_n sb sp ep reps substr subsp subep =
     do { subsp \<leftarrow> normalize_str_pos substr subsp;
          subep \<leftarrow> normalize_str_pos substr subep;
          let (subsp, subep) = swap_positions subsp subep;
          strbuf_replace_data_n sb sp ep reps
            (drop (unat subsp) (case substr of None \<Rightarrow> [] | Some s \<Rightarrow> s)) (subep - subsp) }"

definition strbuf_replace_char_n ::
  "strbuf \<Rightarrow> word32 \<Rightarrow> word32 \<Rightarrow> word32 \<Rightarrow> char \<Rightarrow> strbuf option" where
  "strbuf_replace_char_n sb sp ep reps ch = strbuf_replace_substring_n sb sp ep reps (Some [ch]) 0 1"

text \<open>\<open>str\<close> is the string \<open>vasprintf\<close> makes; the length is returned.\<close>

definition strbuf_vreplacef_n ::
  "strbuf \<Rightarrow> word32 \<Rightarrow> word32 \<Rightarrow> word32 \<Rightarrow> string \<Rightarrow> (strbuf \<times> word32) option" where
  "strbuf_vreplacef_n sb sp ep reps str =
     (case swap_positions (normalize_strbuf_pos sb sp) (normalize_strbuf_pos sb ep) of
        (sp, ep) \<Rightarrow>
          do { sb \<leftarrow> strbuf_replace_substring_n sb sp ep reps (Some (str @ [NUL])) 0 (of_nat (length str));
               Some (sb, of_nat (length str)) })"

definition strbuf_append_char :: "strbuf \<Rightarrow> char \<Rightarrow> strbuf option" where
  "strbuf_append_char sb ch = strbuf_replace_char_n sb (-1) (-1) 1 ch"

definition strbuf_append :: "strbuf \<Rightarrow> string \<Rightarrow> strbuf option" where
  "strbuf_append sb str = strbuf_replace_substring_n sb (-1) (-1) 1 (Some (str @ [NUL])) 0 (-1)"

definition strbuf_appendf :: "strbuf \<Rightarrow> string \<Rightarrow> strbuf option" where
  "strbuf_appendf sb str = map_option fst (strbuf_vreplacef_n sb (-1) (-1) 1 str)"

definition strbuf_set :: "strbuf \<Rightarrow> string \<Rightarrow> strbuf option" where
  "strbuf_set sb str = strbuf_replace_substring_n sb 0 (-1) 1 (Some (str @ [NUL])) 0 (-1)"

definition strbuf_clear :: "strbuf \<Rightarrow> strbuf option" where
  "strbuf_clear sb = strbuf_replace_substring_n sb 0 (-1) 1 None 0 (-1)"

text \<open>The block handed over to the caller; \<open>xrealloc\<close> cuts it to size.\<close>

definition strbuf_free_to_substring :: "strbuf \<Rightarrow> word32 \<Rightarrow> word32 \<Rightarrow> block option" where
  "strbuf_free_to_substring sb sp ep =
     (let sp = normalize_strbuf_pos sb sp; ep = normalize_strbuf_pos sb ep in
      do { b \<leftarrow> if sp \<noteq> 0 then mem_move (sb_buf sb) 0 (sint sp) (unat (ep - sp)) else Some (sb_buf sb);
           b \<leftarrow> mem_set b (sint (ep - sp)) NUL;
           Some (if sp = 0 \<and> ep = sb_len sb then b else take (unat (ep - sp + 1)) b) })"

definition strbuf_free_to_string :: "strbuf \<Rightarrow> block option" where
  "strbuf_free_to_string sb = strbuf_free_to_substring sb 0 (-1)"

definition strbuf_substring :: "strbuf \<Rightarrow> word32 \<Rightarrow> word32 \<Rightarrow> block option" where
  "strbuf_substring sb sp ep =
     (case swap_positions (normalize_strbuf_pos sb sp) (normalize_strbuf_pos sb ep) of
        (sp, ep) \<Rightarrow>
          let n = unat (ep - sp + 1) in
          if 0 \<le> sint sp \<and> nat (sint sp) + n \<le> length (sb_buf sb)
          then mem_set (take n (drop (nat (sint sp)) (sb_buf sb))) (sint (ep - sp)) NUL else None)"

definition strbuf_char_at :: "strbuf \<Rightarrow> word32 \<Rightarrow> char option" where
  "strbuf_char_at sb sp =
     (let i = sint (normalize_strbuf_pos sb sp) in
      if 0 \<le> i \<and> nat i < length (sb_buf sb) then sb_buf sb ! nat i else None)"

definition strbuf_set_length :: "strbuf \<Rightarrow> word32 \<Rightarrow> strbuf option" where
  "strbuf_set_length sb new_length =
     (let sb = strbuf_ensure_capacity sb (new_length + 1) in
      do { b \<leftarrow> mem_set (sb_buf sb) (uint new_length) NUL;
           Some (sb\<lparr>sb_buf := b, sb_len := new_length\<rparr>) })"

fun swap_bytes_loop :: "nat \<Rightarrow> block \<Rightarrow> int \<Rightarrow> int \<Rightarrow> block option" where
  "swap_bytes_loop 0 b sp ep = Some b"
| "swap_bytes_loop (Suc n) b sp ep =
     (if sp < ep
      then if 0 \<le> sp \<and> nat ep < length b
           then swap_bytes_loop n (b[nat sp := b ! nat ep, nat ep := b ! nat sp]) (sp + 1) (ep - 1)
           else None
      else Some b)"

definition strbuf_reverse_substring :: "strbuf \<Rightarrow> word32 \<Rightarrow> word32 \<Rightarrow> strbuf option" where
  "strbuf_reverse_substring sb sp ep =
     (let sp = sint (normalize_strbuf_pos sb sp); ep = sint (normalize_strbuf_pos sb ep) in
      map_option (\<lambda>b. sb\<lparr>sb_buf := b\<rparr>) (swap_bytes_loop (nat (ep - sp)) (sb_buf sb) sp ep))"

fun move_times :: "nat \<Rightarrow> block \<Rightarrow> word32 \<Rightarrow> word32 \<Rightarrow> word32 \<Rightarrow> block option" where
  "move_times 0 b p sp n = Some b"
| "move_times (Suc k) b p sp n =
     do { b \<leftarrow> mem_move b (uint p) (sint sp) (unat n); move_times k b (p + n) sp n }"

definition strbuf_repeat_substring :: "strbuf \<Rightarrow> word32 \<Rightarrow> word32 \<Rightarrow> word32 \<Rightarrow> strbuf option" where
  "strbuf_repeat_substring sb sp ep reps =
     (let sp = normalize_strbuf_pos sb sp; ep = normalize_strbuf_pos sb ep;
          addlen = (ep - sp) * (reps - 1) in
      if addlen \<noteq> 0
      then do {
        let sb = strbuf_ensure_capacity sb (sb_len sb + 1 + addlen);
        b \<leftarrow> mem_move (sb_buf sb) (sint sp + sint addlen) (sint ep) (unat (sb_len sb + 1 - ep));
        b \<leftarrow> move_times (unat reps) b ep sp (ep - sp);
        Some (sb\<lparr>sb_buf := b, sb_len := sb_len sb + addlen\<rparr>) }
      else Some sb)"

text \<open>The copies are laid down from the last to the first.\<close>

fun copy_back :: "nat \<Rightarrow> block \<Rightarrow> string \<Rightarrow> word32 \<Rightarrow> block option" where
  "copy_back 0 b mem len = Some b"
| "copy_back (Suc n) b mem len =
     do { b \<leftarrow> mem_copy b (uint (len * of_nat n)) mem (unat len); copy_back n b mem len }"

definition strbuf_new_from_data_n :: "word32 \<Rightarrow> string \<Rightarrow> word32 \<Rightarrow> strbuf option" where
  "strbuf_new_from_data_n reps mem len =
     (let sb = strbuf_new_with_capacity (len * reps + 1) in
      do { b \<leftarrow> copy_back (unat reps) (sb_buf sb) mem len;
           b \<leftarrow> mem_set b (uint (len * reps)) NUL;
           Some (sb\<lparr>sb_buf := b, sb_len := len * reps\<rparr>) })"

subsection \<open>What a buffer holds\<close>

text \<open>
  A buffer represents the string \<open>s\<close>: its block starts with \<open>s\<close> and a NUL, and the length and the
  capacity fields are right.  Lengths stay below \<open>2^31\<close>, so that \<open>int32_t\<close> positions reach all of it.
\<close>

definition sb_rep :: "strbuf \<Rightarrow> string \<Rightarrow> bool" where
  "sb_rep sb s \<longleftrightarrow>
     length s + 1 < 2 ^ 31 \<and> sb_len sb = of_nat (length s) \<and> unat (sb_capacity sb) = length (sb_buf sb) \<and>
     (\<exists>junk. sb_buf sb = map Some s @ Some NUL # junk)"

lemma sb_repE:
  assumes "sb_rep sb s"
  obtains junk where "length s + 1 < 2 ^ 31" "sb_len sb = of_nat (length s)"
    "unat (sb_capacity sb) = length s + 1 + length junk" "sb_buf sb = map Some s @ Some NUL # junk"
  using assms that by (auto simp: sb_rep_def)

text \<open>
  Where a position ends up.  Every negative position is the end of the buffer: the comparison with
  the unsigned length comes first.
\<close>

definition sb_pos :: "string \<Rightarrow> word32 \<Rightarrow> nat" where
  "sb_pos s pos = (if 0 \<le> sint pos \<and> sint pos \<le> int (length s) then nat (sint pos) else length s)"

lemma sb_pos_le: "sb_pos s pos \<le> length s"
  by (auto simp: sb_pos_def)

lemma normalize_strbuf_pos_rep:
  assumes "sb_rep sb s"
  shows "normalize_strbuf_pos sb pos = of_nat (sb_pos s pos)"
proof -
  have len: "length s + 1 < 2 ^ 31" "sb_len sb = of_nat (length s)" using assms by (auto simp: sb_rep_def)
  show ?thesis
  proof (cases "length s \<le> unat pos")
    case True
    then have "sb_len sb \<le> pos" using len by (simp add: word_le_nat_alt)
    then have "normalize_strbuf_pos sb pos = sb_len sb" by (simp add: normalize_strbuf_pos_def)
    moreover have "\<not> (0 \<le> sint pos \<and> sint pos < int (length s))"
    proof
      assume p: "0 \<le> sint pos \<and> sint pos < int (length s)"
      then have "int (unat pos) = sint pos" using sint_nonneg_uint [of pos] by (simp only: uint_nat simp_thms)
      then show False using p True by linarith
    qed
    then have "sb_pos s pos = length s" by (auto simp: sb_pos_def)
    ultimately show ?thesis using len(2) by simp
  next
    case False
    then have "\<not> sb_len sb \<le> pos" using len by (simp add: word_le_nat_alt)
    moreover have "sint pos = int (unat pos)"
      using False len sint_of_nat_small [of "unat pos"] by simp
    moreover have "int (unat pos) \<le> int (length s)" using False by linarith
    ultimately show ?thesis by (simp add: normalize_strbuf_pos_def sb_pos_def)
  qed
qed

lemma strbuf_new_rep [simp]: "sb_rep strbuf_new []"
proof -
  have "replicate 16 (None :: char option) = None # replicate 15 None" by code_simp
  then show ?thesis by (simp add: sb_rep_def strbuf_new_def strbuf_new_with_capacity_def)
qed

subsection \<open>Growing, moving and copying\<close>

lemma ensure_capacity_rep:
  assumes "sb_rep sb s" "n < 2 ^ 32"
  shows "sb_rep (strbuf_ensure_capacity sb (of_nat n)) s \<and>
    n \<le> length (sb_buf (strbuf_ensure_capacity sb (of_nat n)))"
proof (cases "sb_capacity sb < of_nat n")
  case True
  obtain junk where r: "length s + 1 < 2 ^ 31" "sb_len sb = of_nat (length s)"
      "unat (sb_capacity sb) = length s + 1 + length junk" "sb_buf sb = map Some s @ Some NUL # junk"
    using assms(1) by (rule sb_repE)
  let ?c = "max (of_nat n) (sb_len sb * 2 + 2)"
  have lt: "length s + 1 + length junk < n" using True r assms(2) by (simp add: word_less_nat_alt)
  have c: "n \<le> unat ?c"
    using assms(2) by (metis max.cobounded1 unat_of_nat_small word_le_nat_alt)
  have buf: "sb_buf sb @ replicate (unat ?c - length (sb_buf sb)) None =
      map Some s @ Some NUL # (junk @ replicate (unat ?c - length (sb_buf sb)) None)"
    using r(4) by simp
  have nil: "s = [] \<longleftrightarrow> sb_len sb = 0" using r of_nat_word_eq_iff [of "length s" 0] by simp
  show ?thesis
    using True r lt c nil
    by (auto simp: strbuf_ensure_capacity_def sb_rep_def Let_def buf)
next
  case False
  then have "n \<le> unat (sb_capacity sb)" using assms(2) by (simp add: word_less_nat_alt not_less)
  then show ?thesis using False assms by (auto simp: strbuf_ensure_capacity_def sb_rep_def)
qed

lemma mem_copy_middle:
  "length X = p \<Longrightarrow> length Y = n \<Longrightarrow> n \<le> length mem \<Longrightarrow>
   mem_copy (X @ Y @ Z) (int p) mem n = Some (X @ map Some (take n mem) @ Z)"
  by (simp add: mem_copy_def)

text \<open>The copies fill exactly the gap made for them.\<close>

lemma copy_times_gap:
  "length X = p \<Longrightarrow> length Y = k * len \<Longrightarrow> len \<le> length mem \<Longrightarrow> p + k * len < 2 ^ 31 \<Longrightarrow>
   copy_times k (X @ Y @ Z) (of_nat p) mem (of_nat len) =
     Some (X @ map Some (concat (replicate k (take len mem))) @ Z)"
proof (induction k arbitrary: X Y p)
  case (Suc k)
  let ?Y1 = "take len Y" and ?Y2 = "drop len Y"
  have "mem_copy (X @ ?Y1 @ (?Y2 @ Z)) (int p) mem len = Some (X @ map Some (take len mem) @ (?Y2 @ Z))"
    by (rule mem_copy_middle) (use Suc.prems in auto)
  then have copy: "mem_copy (X @ Y @ Z) (sint (of_nat p :: word32)) mem (unat (of_nat len :: word32)) =
      Some ((X @ map Some (take len mem)) @ ?Y2 @ Z)"
    using Suc.prems by (simp flip: append_assoc)
  have "copy_times k ((X @ map Some (take len mem)) @ ?Y2 @ Z) (of_nat (p + len)) mem (of_nat len) =
      Some ((X @ map Some (take len mem)) @ map Some (concat (replicate k (take len mem))) @ Z)"
    by (rule Suc.IH) (use Suc.prems in auto)
  then show ?case using copy by simp
qed simp

lemma mem_move_int:
  "mem_move b (int d) (int s) n =
    (if d + n \<le> length b \<and> s + n \<le> length b
     then Some (take d b @ take n (drop s b) @ drop (d + n) b) else None)"
  by (simp add: mem_move_def)

text \<open>The moved tail lands behind the gap; the bytes of the gap are those that were there.\<close>

lemma mem_move_tail:
  assumes "b = map Some (P @ M @ T) @ Some NUL # junk" "length P + g + length T + 1 \<le> length b"
  shows "\<exists>Y junk'. mem_move b (int (length P + g)) (int (length (P @ M))) (length T + 1) =
      Some (map Some P @ Y @ map Some T @ Some NUL # junk') \<and> length Y = g \<and>
      length (map Some P @ Y @ map Some T @ Some NUL # junk') = length b"
proof -
  let ?Y = "take g (drop (length P) b)"
  let ?Z = "drop (length P + g + (length T + 1)) b"
  have "take (length P + g) b = map Some P @ ?Y"
    unfolding take_add by (simp add: assms(1))
  moreover have "take (length T + 1) (drop (length (P @ M)) b) = map Some T @ [Some NUL]"
    by (simp add: assms(1))
  ultimately have "mem_move b (int (length P + g)) (int (length (P @ M))) (length T + 1) =
      Some (map Some P @ ?Y @ map Some T @ Some NUL # ?Z)"
    unfolding mem_move_int using assms(2) by (simp add: assms(1))
  moreover have "length ?Y = g" using assms(2) by simp
  ultimately show ?thesis using assms(2) by (intro exI [of _ ?Y] exI [of _ ?Z]) simp
qed

theorem replace_data_rep:
  assumes rep: "sb_rep sb s" and le: "p \<le> q" "q \<le> length s"
    and norm: "swap_positions (normalize_strbuf_pos sb sp) (normalize_strbuf_pos sb ep) = (of_nat p, of_nat q)"
    and small: "length s + k * len + 1 < 2 ^ 31" and mem: "len \<le> length mem" and kl: "k < 2 ^ 31" "len < 2 ^ 31"
  shows "\<exists>sb'. strbuf_replace_data_n sb sp ep (of_nat k) mem (of_nat len) = Some sb' \<and>
    sb_rep sb' (take p s @ concat (replicate k (take len mem)) @ drop q s)"
proof -
  define a d where "a = k * len" and "d = q - p"
  let ?P = "take p s" and ?M = "take (q - p) (drop p s)" and ?T = "drop q s"
  have add: "(of_nat len * of_nat k :: word32) = of_nat a" by (simp add: a_def mult.commute)
  have del: "(of_nat q - of_nat p :: word32) = of_nat d" using le by (simp add: d_def of_nat_diff)
  have s: "s = ?P @ ?M @ ?T" using le
    by (metis append.assoc append_take_drop_id le_add_diff_inverse take_add)
  have lens: "length ?P = p" "length ?T = length s - q" "length (?P @ ?M) = q"
    using le by auto
  have bound: "a < 2 ^ 31" "q < 2 ^ 31" "p < 2 ^ 31" "length s < 2 ^ 31" "d < 2 ^ 31"
    using small le by (auto simp: a_def d_def)
  have small': "length s + a + 1 < 2 ^ 31" using small by (simp add: a_def)
  obtain sb1 Y junk where step: "(if (of_nat a :: word32) \<noteq> of_nat d
        then do {
          let sb = strbuf_ensure_capacity sb (sb_len sb + 1 - of_nat d + of_nat a);
          b \<leftarrow> mem_move (sb_buf sb) (sint (of_nat p :: word32) + uint (of_nat a :: word32))
                (sint (of_nat q :: word32)) (unat (sb_len sb + 1 - of_nat q));
          Some (sb\<lparr>sb_buf := b, sb_len := sb_len sb + (of_nat a - of_nat d)\<rparr>) }
        else Some sb) = Some sb1"
    and buf1: "sb_buf sb1 = map Some ?P @ Y @ map Some ?T @ Some NUL # junk" "length Y = a"
    and sb1: "sb_len sb1 = of_nat (p + a + (length s - q))" "unat (sb_capacity sb1) = length (sb_buf sb1)"
  proof (cases "a = d")
    case True
    obtain junk where r: "sb_len sb = of_nat (length s)" "unat (sb_capacity sb) = length (sb_buf sb)"
        "sb_buf sb = map Some s @ Some NUL # junk"
      using rep by (auto simp: sb_rep_def)
    have "sb_buf sb = map Some ?P @ map Some ?M @ map Some ?T @ Some NUL # junk"
      using r(3) s by (metis append.assoc map_append)
    moreover have "p + a + (length s - q) = length s" using True le by (simp add: d_def)
    moreover have "length (map Some ?M) = a" using True le by (simp add: d_def)
    ultimately show ?thesis using r True by (intro that [of sb]) auto
  next
    case False
    define n where "n = length s + 1 - d + a"
    define sb2 where "sb2 = strbuf_ensure_capacity sb (of_nat n)"
    have rep2: "sb_rep sb2 s" "n \<le> length (sb_buf sb2)"
      using ensure_capacity_rep [OF rep, of n] small' by (auto simp: n_def sb2_def)
    obtain junk where r: "sb_len sb2 = of_nat (length s)" "unat (sb_capacity sb2) = length (sb_buf sb2)"
        "sb_buf sb2 = map Some s @ Some NUL # junk"
      using rep2(1) by (auto simp: sb_rep_def)
    have len0: "sb_len sb = of_nat (length s)" using rep by (simp add: sb_rep_def)
    have "d \<le> length s + 1" using le by (simp add: d_def)
    then have n: "strbuf_ensure_capacity sb (sb_len sb + 1 - of_nat d + of_nat a) = sb2"
      using len0 by (simp add: n_def sb2_def of_nat_diff algebra_simps)
    define m where "m = length s + 1 - q"
    have "sb_len sb2 + 1 - of_nat q = of_nat m" using le r(1) by (simp add: m_def of_nat_diff)
    then have src: "unat (sb_len sb2 + 1 - of_nat q) = length ?T + 1"
      using bound le by (simp add: m_def del: of_nat_diff)
    have room: "length ?P + a + length ?T + 1 \<le> length (sb_buf sb2)"
      using rep2(2) lens le by (simp add: n_def d_def)
    have buf: "sb_buf sb2 = map Some (?P @ ?M @ ?T) @ Some NUL # junk" using r(3) s by simp
    obtain Y junk' where mv: "mem_move (sb_buf sb2) (int (length ?P + a)) (int (length (?P @ ?M)))
          (length ?T + 1) = Some (map Some ?P @ Y @ map Some ?T @ Some NUL # junk')" "length Y = a"
        "length (map Some ?P @ Y @ map Some ?T @ Some NUL # junk') = length (sb_buf sb2)"
      using mem_move_tail [OF buf room] by blast
    have ne: "(of_nat a :: word32) \<noteq> of_nat d"
      using False bound le by (subst of_nat_word_eq_iff) auto
    have newlen: "sb_len sb2 + (of_nat a - of_nat d) = of_nat (p + a + (length s - q))"
      using le r(1) by (simp add: d_def of_nat_diff)
    have dst: "sint (of_nat p :: word32) + uint (of_nat a :: word32) = int (length ?P + a)"
      "sint (of_nat q :: word32) = int (length (?P @ ?M))" using bound lens by simp_all
    show ?thesis
      by (rule that [of "sb2\<lparr>sb_buf := map Some ?P @ Y @ map Some ?T @ Some NUL # junk',
              sb_len := sb_len sb2 + (of_nat a - of_nat d)\<rparr>" Y junk'])
        (use ne mv r(2) newlen in \<open>simp_all only: n src dst Let_def bind.bind_lunit if_True
            not_False_eq_True\<close>, simp_all)
  qed
  let ?new = "concat (replicate k (take len mem))"
  have new: "length ?new = a" using mem unfolding a_def by (induction k) auto
  let ?sb2 = "sb1\<lparr>sb_buf := map Some ?P @ map Some ?new @ map Some ?T @ Some NUL # junk\<rparr>"
  have copy: "(if 0 < (of_nat a :: word32)
      then do { b \<leftarrow> copy_times (unat (of_nat k :: word32)) (sb_buf sb1) (of_nat p) mem (of_nat len);
                Some (sb1\<lparr>sb_buf := b\<rparr>) }
      else Some sb1) = Some ?sb2"
  proof (cases "a = 0")
    case True
    then have "?new = []" "Y = []" using new buf1(2) by auto
    then show ?thesis using True buf1(1) by simp
  next
    case False
    have "copy_times k (map Some ?P @ Y @ map Some ?T @ Some NUL # junk) (of_nat p) mem (of_nat len) =
        Some (map Some ?P @ map Some ?new @ map Some ?T @ Some NUL # junk)"
      by (rule copy_times_gap) (use buf1(2) mem lens small le in \<open>auto simp: a_def\<close>)
    moreover have "0 < (of_nat a :: word32)" using False bound of_nat_word_less_iff [of 0 a] by simp
    moreover have "unat (of_nat k :: word32) = k" using kl by simp
    ultimately show ?thesis using buf1(1) by simp
  qed
  have "sb_rep ?sb2 (?P @ ?new @ ?T)"
    using sb1 buf1 new lens small' le by (auto simp: sb_rep_def)
  moreover have "strbuf_replace_data_n sb sp ep (of_nat k) mem (of_nat len) = Some ?sb2"
    unfolding strbuf_replace_data_n_def norm prod.case Let_def add del
    using step copy unfolding Let_def by (simp only: Option.bind.bind_lunit)
  ultimately show ?thesis by blast
qed

subsection \<open>The operations on whole strings\<close>

lemma takeWhile_cstr: "cstr s \<Longrightarrow> takeWhile (\<lambda>c. c \<noteq> NUL) (s @ [NUL]) = s"
  by (induction s) auto

lemma normalize_str_pos_0 [simp]: "normalize_str_pos (Some mem) 0 = Some 0"
  by (simp add: normalize_str_pos_def strnlen_def)

lemma normalize_str_pos_end:
  assumes "cstr s" "length s < 2 ^ 31"
  shows "normalize_str_pos (Some (s @ [NUL])) (-1) = Some (of_nat (length s))"
  using assms by (simp add: normalize_str_pos_def strlen_def takeWhile_cstr)

lemma normalize_str_pos_len:
  assumes "cstr s" "length s < 2 ^ 31"
  shows "normalize_str_pos (Some (s @ [NUL])) (of_nat (length s)) = Some (of_nat (length s))"
proof -
  have "length (takeWhile (\<lambda>c. c \<noteq> NUL) s) = length s"
    using assms(1) by (induction s) auto
  then show ?thesis using assms by (simp add: normalize_str_pos_def strnlen_def)
qed

lemma swap_positions_0: "n < 2 ^ 31 \<Longrightarrow> swap_positions 0 (of_nat n) = (0, of_nat n)"
  by (simp add: swap_positions_def)

lemma swap_positions_of_nat:
  "p \<le> q \<Longrightarrow> q < 2 ^ 31 \<Longrightarrow> swap_positions (of_nat p) (of_nat q) = (of_nat p, of_nat q)"
  by (simp add: swap_positions_def)

text \<open>Replacing a range by the whole of another string.\<close>

lemma replace_string_rep:
  assumes rep: "sb_rep sb s" and str: "cstr str" "length s + length str + 1 < 2 ^ 31"
    and le: "sb_pos s sp \<le> sb_pos s ep"
    and subep: "normalize_str_pos (Some (str @ [NUL])) subep = Some (of_nat (length str))"
  shows "\<exists>sb'. strbuf_replace_substring_n sb sp ep 1 (Some (str @ [NUL])) 0 subep = Some sb' \<and>
    sb_rep sb' (take (sb_pos s sp) s @ str @ drop (sb_pos s ep) s)"
proof -
  have q: "sb_pos s ep \<le> length s" by (rule sb_pos_le)
  then have "swap_positions (normalize_strbuf_pos sb sp) (normalize_strbuf_pos sb ep) =
      (of_nat (sb_pos s sp), of_nat (sb_pos s ep))"
    using swap_positions_of_nat [OF le] str(2) by (simp add: normalize_strbuf_pos_rep [OF rep])
  from replace_data_rep [OF rep le q this, of 1 "length str" "str @ [NUL]"]
  show ?thesis using str subep swap_positions_0 [of "length str"]
    by (simp add: strbuf_replace_substring_n_def)
qed

lemma sb_pos_minus1 [simp]: "sb_pos s (-1) = length s"
  by (simp add: sb_pos_def)

lemma sb_pos_0 [simp]: "sb_pos s 0 = 0"
  by (simp add: sb_pos_def)

lemma append_rep:
  assumes "sb_rep sb s" "cstr str" "length s + length str + 1 < 2 ^ 31"
  shows "\<exists>sb'. strbuf_append sb str = Some sb' \<and> sb_rep sb' (s @ str)"
  using replace_string_rep [OF assms, of "-1" "-1" "-1"] normalize_str_pos_end [OF assms(2)] assms(3)
  by (simp add: strbuf_append_def)

lemma set_rep:
  assumes "sb_rep sb s" "cstr str" "length s + length str + 1 < 2 ^ 31"
  shows "\<exists>sb'. strbuf_set sb str = Some sb' \<and> sb_rep sb' str"
  using replace_string_rep [OF assms, of "0" "-1" "-1"] normalize_str_pos_end [OF assms(2)] assms(3)
  by (simp add: strbuf_set_def)

text \<open>Appending NUL appends nothing: \<open>strnlen\<close> of the character is 0.\<close>

definition append_char :: "string \<Rightarrow> char \<Rightarrow> string" where
  "append_char s ch = (if ch = NUL then s else s @ [ch])"

lemma append_char_rep:
  assumes "sb_rep sb s" "length s + 2 < 2 ^ 31"
  shows "\<exists>sb'. strbuf_append_char sb ch = Some sb' \<and> sb_rep sb' (append_char s ch)"
proof -
  let ?n = "if ch = NUL then 0 else 1 :: nat"
  have pos: "normalize_str_pos (Some [ch]) 1 = Some (of_nat ?n)"
    by (simp add: normalize_str_pos_def strnlen_def)
  have norm: "swap_positions (normalize_strbuf_pos sb (-1)) (normalize_strbuf_pos sb (-1)) =
      (of_nat (length s), of_nat (length s))"
    by (simp add: normalize_strbuf_pos_rep [OF assms(1)] swap_positions_def)
  from replace_data_rep [OF assms(1) order_refl order_refl norm, of 1 ?n "[ch]"] pos assms(2)
    swap_positions_0 [of ?n]
  show ?thesis
    by (auto simp: strbuf_append_char_def strbuf_replace_char_n_def strbuf_replace_substring_n_def
        append_char_def split: if_splits)
qed

lemma appendf_rep:
  assumes "sb_rep sb s" "cstr str" "length s + length str + 1 < 2 ^ 31"
  shows "\<exists>sb'. strbuf_appendf sb str = Some sb' \<and> sb_rep sb' (s @ str)"
proof -
  let ?n = "of_nat (length s) :: word32"
  have norm: "swap_positions (normalize_strbuf_pos sb (-1)) (normalize_strbuf_pos sb (-1)) = (?n, ?n)"
    by (simp add: normalize_strbuf_pos_rep [OF assms(1)] swap_positions_def)
  have pos: "sb_pos s ?n = length s" using assms(3) by (simp add: sb_pos_def)
  show ?thesis
    using replace_string_rep [OF assms, of ?n ?n "of_nat (length str)"]
      normalize_str_pos_len [OF assms(2)] assms(3) norm pos
    by (auto simp: strbuf_appendf_def strbuf_vreplacef_n_def)
qed

lemma strbuf_clear_rep:
  assumes "sb_rep sb s"
  shows "\<exists>sb'. strbuf_clear sb = Some sb' \<and> sb_rep sb' []"
proof -
  have small: "length s + 1 < 2 ^ 31" using assms by (simp add: sb_rep_def)
  then have "swap_positions (normalize_strbuf_pos sb 0) (normalize_strbuf_pos sb (-1)) =
      (of_nat 0, of_nat (length s))"
    using swap_positions_0 [of "length s"] by (simp add: normalize_strbuf_pos_rep [OF assms])
  from replace_data_rep [OF assms _ order_refl this, of 1 0 "[]"] small show ?thesis
    by (simp add: strbuf_clear_def strbuf_replace_substring_n_def normalize_str_pos_def swap_positions_def)
qed

lemma read_string_block: "cstr s \<Longrightarrow> read_string (map Some s @ Some NUL # junk) = Some s"
  by (induction s) auto

lemma free_to_string_rep:
  assumes "sb_rep sb s" "cstr s"
  shows "Option.bind (strbuf_free_to_string sb) read_string = Some s"
proof -
  obtain junk where r: "length s + 1 < 2 ^ 31" "sb_len sb = of_nat (length s)"
      "sb_buf sb = map Some s @ Some NUL # junk"
    using assms(1) by (rule sb_repE)
  have "mem_set (sb_buf sb) (int (length s)) NUL = Some (sb_buf sb)"
    by (simp add: mem_set_def r list_update_append)
  then show ?thesis
    using r(1,2) assms
    by (simp add: strbuf_free_to_string_def strbuf_free_to_substring_def Let_def
        normalize_strbuf_pos_rep [OF assms(1)] read_string_block r(3))
qed

end
