(* ===== verification/Quote.thy ===== *)
theory Quote
  imports String_Utils Strbuf
begin

text \<open>
  Quoting of file names in the edit files, \<open>src/src/quote.c\<close>.  \<open>quote_output_file\<close> and
  \<open>dequote_output_file\<close> are written with the string buffers of the code; \<open>quote_text\<close> and
  \<open>dequote_text\<close> are the same loops over plain strings, and the buffers are shown to compute them.
  The locale's \<open>isprint\<close> is an argument.
\<close>

abbreviation BS :: char where "BS \<equiv> CHR 0x5C"

definition c_abbrevs :: string where
  "c_abbrevs = ''abtnvfr''"

definition is_octal_digit :: "char \<Rightarrow> bool" where
  "is_octal_digit ch \<longleftrightarrow> schar CHR ''0'' \<le> schar ch \<and> schar ch \<le> schar CHR ''7''"

definition octal_to_char :: "char \<Rightarrow> char \<Rightarrow> char \<Rightarrow> char" where
  "octal_to_char a b c = char_of ((schar a - 48) * 64 + (schar b - 48) * 8 + (schar c - 48))"

text \<open>\<open>printf("%03o", t[c] & 0xFF)\<close>\<close>

definition octal3 :: "char \<Rightarrow> string" where
  "octal3 ch = [digit_char (byte ch div 64), digit_char (byte ch div 8 mod 8), digit_char (byte ch mod 8)]"

subsection \<open>The loops on strings\<close>

definition quote_char :: "(char \<Rightarrow> bool) \<Rightarrow> char \<Rightarrow> string" where
  "quote_char isprint ch =
     (if ch = BS then [BS, BS]
      else if isprint ch then append_char [] ch
      else if 7 \<le> schar ch \<and> schar ch \<le> 13 then [BS, c_abbrevs ! nat (schar ch - 7)]
      else BS # octal3 ch)"

definition quote_text :: "(char \<Rightarrow> bool) \<Rightarrow> string \<Rightarrow> string" where
  "quote_text isprint t = concat (map (quote_char isprint) t)"

text \<open>\<^const>\<open>None\<close> is the NULL the code returns for a malformed escape.\<close>

fun dequote_loop :: "string \<Rightarrow> string \<Rightarrow> string option" where
  "dequote_loop [] res = Some res"
| "dequote_loop (ch # str) res =
     (if ch = BS then
        (case str of
           [] \<Rightarrow> None
         | d # str' \<Rightarrow>
             if is_octal_digit d then
               (case str' of
                  e # f # str'' \<Rightarrow>
                    if \<not> is_octal_digit e \<or> \<not> is_octal_digit f then None
                    else dequote_loop str'' (append_char res (octal_to_char d e f))
                | _ \<Rightarrow> None)
             else (case char_pos c_abbrevs d of
                     Some i \<Rightarrow> dequote_loop str' (append_char res (char_of (7 + i)))
                   | None \<Rightarrow> dequote_loop str' (append_char res d)))
      else dequote_loop str (append_char res ch))"

definition dequote_text :: "string \<Rightarrow> string option" where
  "dequote_text str = dequote_loop str []"

subsection \<open>The functions, with their buffers\<close>

definition quote_step :: "(char \<Rightarrow> bool) \<Rightarrow> char \<Rightarrow> strbuf \<Rightarrow> strbuf option" where
  "quote_step isprint ch res =
     (if ch = BS then strbuf_append res [BS, BS]
      else if isprint ch then strbuf_append_char res ch
      else if 7 \<le> schar ch \<and> schar ch \<le> 13 then strbuf_appendf res [BS, c_abbrevs ! nat (schar ch - 7)]
      else strbuf_appendf res (BS # octal3 ch))"

fun quote_buf_loop :: "(char \<Rightarrow> bool) \<Rightarrow> string \<Rightarrow> strbuf \<Rightarrow> strbuf option" where
  "quote_buf_loop isprint [] res = Some res"
| "quote_buf_loop isprint (ch # t) res =
     do { res \<leftarrow> quote_step isprint ch res; quote_buf_loop isprint t res }"

definition quote_output_file :: "(char \<Rightarrow> bool) \<Rightarrow> string \<Rightarrow> string option" where
  "quote_output_file isprint t =
     do { res \<leftarrow> quote_buf_loop isprint t strbuf_new;
          b \<leftarrow> strbuf_free_to_string res;
          read_string b }"

text \<open>The outer option is defined behaviour, the inner one NULL.\<close>

fun dequote_buf_loop :: "string \<Rightarrow> strbuf \<Rightarrow> strbuf option option" where
  "dequote_buf_loop [] res = Some (Some res)"
| "dequote_buf_loop (ch # str) res =
     (if ch = BS then
        (case str of
           [] \<Rightarrow> Some None
         | d # str' \<Rightarrow>
             if is_octal_digit d then
               (case str' of
                  e # f # str'' \<Rightarrow>
                    if \<not> is_octal_digit e \<or> \<not> is_octal_digit f then Some None
                    else do { res \<leftarrow> strbuf_append_char res (octal_to_char d e f);
                              dequote_buf_loop str'' res }
                | _ \<Rightarrow> Some None)
             else (case char_pos c_abbrevs d of
                     Some i \<Rightarrow> do { res \<leftarrow> strbuf_append_char res (char_of (7 + i));
                                  dequote_buf_loop str' res }
                   | None \<Rightarrow> do { res \<leftarrow> strbuf_append_char res d; dequote_buf_loop str' res }))
      else do { res \<leftarrow> strbuf_append_char res ch; dequote_buf_loop str res })"

definition dequote_output_file :: "string \<Rightarrow> string option option" where
  "dequote_output_file str =
     do { r \<leftarrow> dequote_buf_loop str strbuf_new;
          case r of
            None \<Rightarrow> Some None
          | Some res \<Rightarrow> do { b \<leftarrow> strbuf_free_to_string res; s \<leftarrow> read_string b; Some (Some s) } }"

subsection \<open>Round trip\<close>

lemma digit_char_octal: "d < 8 \<Longrightarrow> is_octal_digit (digit_char d) \<and> schar (digit_char d) = 48 + int d"
proof -
  assume "d < 8"
  then have "byte (digit_char d) = 48 + d" by (simp add: byte_digit_char)
  moreover have "schar CHR ''0'' = 48" "schar CHR ''7'' = 55" by code_simp+
  ultimately show ?thesis using \<open>d < 8\<close> by (simp add: is_octal_digit_def schar_def)
qed

lemma octal3_range: "byte ch div 64 < 8" "byte ch div 8 mod 8 < 8" "byte ch mod 8 < 8"
proof -
  have "byte ch < 8 * 64" using byte_less [of ch] by (rule less_trans) simp
  then show "byte ch div 64 < 8" by (rule less_mult_imp_div_less)
qed simp_all

lemma octal3_back:
  "octal_to_char (digit_char (byte ch div 64)) (digit_char (byte ch div 8 mod 8)) (digit_char (byte ch mod 8)) = ch"
proof -
  have d: "(48 + int k) - 48 = int k" for k by simp
  have "int (byte ch div 64) * 64 + int (byte ch div 8 mod 8) * 8 + int (byte ch mod 8) = int (byte ch)"
  proof -
    have "byte ch div 8 = byte ch div 64 * 8 + byte ch div 8 mod 8"
      using div_mult_mod_eq [of "byte ch div 8" 8] by (simp add: div_mult2_eq [of "byte ch" 8 8, symmetric])
    moreover have "byte ch = byte ch div 8 * 8 + byte ch mod 8" by simp
    ultimately have "byte ch div 64 * 64 + byte ch div 8 mod 8 * 8 + byte ch mod 8 = byte ch" by linarith
    then have "int (byte ch div 64 * 64 + byte ch div 8 mod 8 * 8 + byte ch mod 8) = int (byte ch)"
      by (rule arg_cong)
    then show ?thesis by simp
  qed
  moreover have "char_of (int (byte ch)) = ch"
    by (simp add: byte_def)
  ultimately show ?thesis
    unfolding octal_to_char_def digit_char_octal [OF octal3_range(1), THEN conjunct2]
      digit_char_octal [OF octal3_range(2), THEN conjunct2]
      digit_char_octal [OF octal3_range(3), THEN conjunct2] d by (simp only:)
qed

lemma abbrevs_back: "i < 7 \<Longrightarrow>
   \<not> is_octal_digit (c_abbrevs ! i) \<and> char_pos c_abbrevs (c_abbrevs ! i) = Some i"
proof -
  have "\<forall>i \<in> set [0..<7]. \<not> is_octal_digit (c_abbrevs ! i) \<and> char_pos c_abbrevs (c_abbrevs ! i) = Some i"
    by code_simp
  then show "i < 7 \<Longrightarrow> ?thesis" by simp
qed

lemma backslash_back: "\<not> is_octal_digit BS" "char_pos c_abbrevs BS = None"
  by code_simp+

text \<open>Whatever the locale prints, each quoted character reads back as itself.\<close>

lemma dequote_quote_char:
  assumes "ch \<noteq> NUL"
  shows "dequote_loop (quote_char isprint ch @ rest) res = dequote_loop rest (res @ [ch])"
proof -
  consider "ch = BS" | "ch \<noteq> BS" "isprint ch" | "ch \<noteq> BS" "\<not> isprint ch" "7 \<le> schar ch \<and> schar ch \<le> 13"
    | "ch \<noteq> BS" "\<not> isprint ch" "\<not> (7 \<le> schar ch \<and> schar ch \<le> 13)" by blast
  then show ?thesis
  proof cases
    case 3
    let ?i = "nat (schar ch - 7)"
    have "?i < 7" using 3(3) by auto
    note abbr = abbrevs_back [OF this]
    have "int (byte ch) \<le> 255" using byte_less [of ch] by linarith
    then have "byte ch = 7 + ?i" using 3(3) by (auto simp: schar_def split: if_splits)
    then have "char_of (7 + ?i) = ch" by (metis char_of_byte)
    with 3 abbr assms show ?thesis by (simp add: quote_char_def append_char_def)
  next
    case 4
    have "is_octal_digit d" if "d \<in> set (octal3 ch)" for d
      using that digit_char_octal octal3_range [of ch] by (auto simp: octal3_def)
    then show ?thesis
      using 4 assms by (auto simp: quote_char_def octal3_def octal3_back append_char_def)
  qed (use assms in \<open>simp_all add: quote_char_def append_char_def backslash_back\<close>)
qed

lemma dequote_quote_loop:
  "cstr t \<Longrightarrow> dequote_loop (quote_text isprint t @ rest) res = dequote_loop rest (res @ t)"
  by (induction t arbitrary: res) (simp_all add: quote_text_def dequote_quote_char)

lemma dequote_quote: "cstr t \<Longrightarrow> dequote_text (quote_text isprint t) = Some t"
  using dequote_quote_loop [of t isprint "[]" "[]"] by (simp add: dequote_text_def)

text \<open>What a quoted name may contain.\<close>

lemma digit_char_byte: "d < 8 \<Longrightarrow> 48 \<le> byte (digit_char d) \<and> byte (digit_char d) \<le> 55"
  by (simp add: byte_digit_char)

lemma quote_char_set:
  "set (quote_char isprint ch) \<subseteq> {c. isprint c \<and> c \<noteq> NUL} \<union> {BS} \<union> set c_abbrevs \<union> {c. 48 \<le> byte c \<and> byte c \<le> 55}"
proof -
  have o: "set (octal3 ch) \<subseteq> {c. 48 \<le> byte c \<and> byte c \<le> 55}"
    using digit_char_byte [OF octal3_range(1)] digit_char_byte [OF octal3_range(2)]
      digit_char_byte [OF octal3_range(3)] by (simp add: octal3_def)
  have a: "c_abbrevs ! nat (schar ch - 7) \<in> set c_abbrevs" if "7 \<le> schar ch \<and> schar ch \<le> 13"
  proof (rule nth_mem)
    have "length c_abbrevs = 7" by code_simp
    then show "nat (schar ch - 7) < length c_abbrevs" using that by linarith
  qed
  show ?thesis using o a by (auto simp: quote_char_def append_char_def)
qed

lemma quote_text_set:
  "set (quote_text isprint t) \<subseteq> {c. isprint c \<and> c \<noteq> NUL} \<union> {BS} \<union> set c_abbrevs \<union> {c. 48 \<le> byte c \<and> byte c \<le> 55}"
  using quote_char_set unfolding quote_text_def by fastforce

lemma quote_text_plain:
  assumes "\<not> isprint c" "c \<noteq> BS" "c \<notin> set c_abbrevs" "\<not> (48 \<le> byte c \<and> byte c \<le> 55)"
  shows "c \<notin> set (quote_text isprint t)"
  using quote_text_set assms by blast

lemma c_abbrevs_no_NUL: "NUL \<notin> set c_abbrevs"
  by code_simp

lemma quote_text_cstr: "cstr (quote_text isprint t)"
  using quote_text_set [of isprint t] c_abbrevs_no_NUL by (auto simp: cstr_def)

lemma quote_text_append: "quote_text isprint (s @ t) = quote_text isprint s @ quote_text isprint t"
  by (simp add: quote_text_def)

lemma quote_text_single: "quote_text isprint [c] = quote_char isprint c"
  by (simp add: quote_text_def)

lemma quote_text_Nil [simp]: "quote_text isprint [] = []"
  by (simp add: quote_text_def)

lemma quote_char_not_Nil: "ch \<noteq> NUL \<Longrightarrow> quote_char isprint ch \<noteq> []"
  by (simp add: quote_char_def append_char_def)

lemma quote_text_eq_Nil: "cstr t \<Longrightarrow> quote_text isprint t = [] \<longleftrightarrow> t = []"
  by (cases t) (simp_all add: quote_text_def quote_char_not_Nil)

subsection \<open>The buffers compute the same strings\<close>

lemma quote_char_length: "length (quote_char isprint ch) \<le> 4"
  by (simp add: quote_char_def append_char_def octal3_def)

lemma quote_step_rep:
  assumes "sb_rep res s" "length s + 5 < 2 ^ 31" "ch \<noteq> NUL"
  shows "\<exists>res'. quote_step isprint ch res = Some res' \<and> sb_rep res' (s @ quote_char isprint ch)"
proof -
  have cstr: "cstr (quote_char isprint ch)"
    using quote_text_cstr [of isprint "[ch]"] by (simp add: quote_text_def)
  have bound: "length s + length (quote_char isprint ch) + 1 < 2 ^ 31"
    using assms(2) quote_char_length [of isprint ch] by linarith
  consider "ch = BS" | "ch \<noteq> BS" "isprint ch" | "ch \<noteq> BS" "\<not> isprint ch" by blast
  then show ?thesis
  proof cases
    case 1
    then have "quote_char isprint ch = [BS, BS]" by (simp add: quote_char_def)
    then show ?thesis using append_rep [OF assms(1) cstr bound] 1 by (simp add: quote_step_def)
  next
    case 2
    then show ?thesis
      using append_char_rep [OF assms(1), of ch] assms(2,3)
      by (simp add: quote_step_def quote_char_def append_char_def)
  next
    case 3
    then show ?thesis
      using appendf_rep [OF assms(1) cstr bound] by (auto simp: quote_step_def quote_char_def)
  qed
qed

lemma quote_buf_loop_rep:
  "sb_rep res s \<Longrightarrow> cstr t \<Longrightarrow> length s + 4 * length t + 1 < 2 ^ 31 \<Longrightarrow>
   \<exists>res'. quote_buf_loop isprint t res = Some res' \<and> sb_rep res' (s @ quote_text isprint t)"
proof (induction t arbitrary: res s)
  case Nil
  then show ?case by simp
next
  case (Cons ch t)
  have "length s + 5 < 2 ^ 31" "ch \<noteq> NUL" using Cons.prems by auto
  from quote_step_rep [OF Cons.prems(1) this] obtain res1 where
    r1: "quote_step isprint ch res = Some res1" "sb_rep res1 (s @ quote_char isprint ch)" by blast
  have "length (s @ quote_char isprint ch) + 4 * length t + 1 < 2 ^ 31"
    using Cons.prems(3) quote_char_length [of isprint ch] by simp
  from Cons.IH [OF r1(2) _ this] Cons.prems(2) r1(1) show ?case by (auto simp: quote_text_def)
qed

lemma quote_output_file_text:
  assumes "cstr t" "4 * length t + 1 < 2 ^ 31"
  shows "quote_output_file isprint t = Some (quote_text isprint t)"
proof -
  obtain res where "quote_buf_loop isprint t strbuf_new = Some res" "sb_rep res (quote_text isprint t)"
    using quote_buf_loop_rep [OF strbuf_new_rep assms(1), of isprint] assms(2) by auto
  then show ?thesis
    using free_to_string_rep [OF _ quote_text_cstr [of isprint t], of res]
    by (simp add: quote_output_file_def)
qed

lemma append_char_cstr: "cstr s \<Longrightarrow> cstr (append_char s ch)"
  by (simp add: append_char_def)

lemma append_char_length: "length (append_char s ch) \<le> length s + 1"
  by (simp add: append_char_def)

text \<open>One character appended on both sides; the room shrinks by at least one input character.\<close>

lemma append_char_step:
  assumes "sb_rep res s" "cstr s" "length s + Suc n < 2 ^ 31" "1 \<le> n"
  obtains res' where "strbuf_append_char res c = Some res'" "sb_rep res' (append_char s c)"
    "cstr (append_char s c)" "length (append_char s c) + n < 2 ^ 31"
proof -
  have "length s + 2 < 2 ^ 31" using assms(3,4) by linarith
  from append_char_rep [OF assms(1) this, of c] obtain res' where
    "strbuf_append_char res c = Some res'" "sb_rep res' (append_char s c)" by blast
  moreover have "length (append_char s c) + n < 2 ^ 31"
    using append_char_length [of s c] assms(3) by linarith
  ultimately show thesis using that append_char_cstr [OF assms(2)] by blast
qed

definition same_result :: "string option \<Rightarrow> strbuf option option \<Rightarrow> bool" where
  "same_result t r \<longleftrightarrow>
     (case t of
        None \<Rightarrow> r = Some None
      | Some t \<Rightarrow> cstr t \<and> (\<exists>res'. r = Some (Some res') \<and> sb_rep res' t))"

lemma same_result_None [simp]: "same_result None (Some None)"
  by (simp add: same_result_def)

lemma dequote_buf_loop_rep:
  "sb_rep res s \<Longrightarrow> cstr s \<Longrightarrow> length s + Suc (length str) < 2 ^ 31 \<Longrightarrow>
   same_result (dequote_loop str s) (dequote_buf_loop str res)"
proof (induction str arbitrary: res s rule: length_induct)
  case (1 str)
  have step: "same_result (dequote_loop rest (append_char s c))
      (do { res \<leftarrow> strbuf_append_char res c; dequote_buf_loop rest res })"
    if "length rest < length str" for rest c
  proof -
    have "length s + Suc (Suc (length rest)) < 2 ^ 31" using 1(4) that by linarith
    from append_char_step [OF 1(2,3) this] obtain res' where r:
      "strbuf_append_char res c = Some res'" "sb_rep res' (append_char s c)"
      "cstr (append_char s c)" "length (append_char s c) + Suc (length rest) < 2 ^ 31" by auto
    have "same_result (dequote_loop rest (append_char s c)) (dequote_buf_loop rest res')"
      using 1(1) that r(2-4) by blast
    with r(1) show ?thesis by simp
  qed
  show ?case
  proof (cases str)
    case Nil
    then show ?thesis using 1(2,3) by (simp add: same_result_def)
  next
    case (Cons ch rest)
    show ?thesis
    proof (cases "ch = BS")
      case False
      then show ?thesis using step [of rest] Cons by simp
    next
      case BS: True
      show ?thesis
      proof (cases rest)
        case Nil
        then show ?thesis using BS Cons by simp
      next
        case rest: (Cons d rest1)
        have one: "same_result (dequote_loop rest1 (append_char s c))
            (do { res \<leftarrow> strbuf_append_char res c; dequote_buf_loop rest1 res })" for c
          by (rule step) (simp add: Cons rest)
        have three: "same_result (dequote_loop rest3 (append_char s c))
            (do { res \<leftarrow> strbuf_append_char res c; dequote_buf_loop rest3 res })"
          if "rest1 = e # f # rest3" for c e f rest3
          by (rule step) (simp add: Cons rest that)
        have strings: "str = BS # d # rest1" using BS Cons rest by simp
        show ?thesis
        proof (cases "is_octal_digit d")
          case True
          show ?thesis
          proof (cases "\<exists>e f rest3. rest1 = e # f # rest3")
            case False
            then have "rest1 = [] \<or> (\<exists>e. rest1 = [e])" by (metis neq_Nil_conv)
            then show ?thesis using True by (auto simp: strings)
          next
            case exists: True
            then obtain e f rest3 where r1: "rest1 = e # f # rest3" by blast
            show ?thesis
              using three [OF r1, of "octal_to_char d e f"] True
              by (cases "\<not> is_octal_digit e \<or> \<not> is_octal_digit f") (simp_all add: strings r1)
          qed
        next
          case False
          then show ?thesis
            using one [of d] one by (cases "char_pos c_abbrevs d") (simp_all add: strings)
        qed
      qed
    qed
  qed
qed

lemma dequote_output_file_text:
  assumes "length str + 1 < 2 ^ 31"
  shows "dequote_output_file str = Some (dequote_text str)"
proof -
  have "same_result (dequote_text str) (dequote_buf_loop str strbuf_new)"
    unfolding dequote_text_def by (rule dequote_buf_loop_rep) (use assms in auto)
  then show ?thesis
    using free_to_string_rep
    by (auto simp: same_result_def dequote_output_file_def Option.bind_eq_Some_conv split: option.splits)
qed

end
