(* ===== verification/Llist.thy ===== *)
theory Llist
  imports Prelude
begin

text \<open>
  The doubly linked list of \<open>src/src/common/llist.c\<close>, on a heap of nodes.  An operation takes the
  heap and the \<open>LList\<close> object and returns them updated; it has no result where the code would
  follow a NULL or dangling pointer, or walk a cyclic list for ever.  NULL as a returned element is
  \<^const>\<open>None\<close>.  The size is the 32-bit counter of the code.
\<close>

subsection \<open>Nodes and lists\<close>

type_synonym node_ptr = "nat option"

record 'a lnode =
  node_data :: 'a
  node_next :: node_ptr
  node_previous :: node_ptr

record 'a node_heap =
  nodes :: "nat \<rightharpoonup> 'a lnode"
  next_node :: nat

record llist =
  ll_first :: node_ptr
  ll_last :: node_ptr
  ll_size :: "32 word"

text \<open>\<open>*p\<close>, \<open>p->next = q\<close>, \<open>p->previous = q\<close>, \<open>p->data = x\<close>, \<open>xmalloc\<close> and \<open>free\<close>.\<close>

definition deref :: "'a node_heap \<Rightarrow> node_ptr \<Rightarrow> 'a lnode option" where
  "deref H p = Option.bind p (nodes H)"

definition modify_node :: "node_ptr \<Rightarrow> ('a lnode \<Rightarrow> 'a lnode) \<Rightarrow> 'a node_heap \<Rightarrow> 'a node_heap option" where
  "modify_node p f H =
     do { a \<leftarrow> p; n \<leftarrow> nodes H a; Some (H\<lparr>nodes := (nodes H)(a \<mapsto> f n)\<rparr>) }"

definition set_node_next :: "node_ptr \<Rightarrow> node_ptr \<Rightarrow> 'a node_heap \<Rightarrow> 'a node_heap option" where
  "set_node_next p q H = modify_node p (\<lambda>n. n\<lparr>node_next := q\<rparr>) H"

definition set_node_previous :: "node_ptr \<Rightarrow> node_ptr \<Rightarrow> 'a node_heap \<Rightarrow> 'a node_heap option" where
  "set_node_previous p q H = modify_node p (\<lambda>n. n\<lparr>node_previous := q\<rparr>) H"

definition set_node_data :: "node_ptr \<Rightarrow> 'a \<Rightarrow> 'a node_heap \<Rightarrow> 'a node_heap option" where
  "set_node_data p x H = modify_node p (\<lambda>n. n\<lparr>node_data := x\<rparr>) H"

definition new_node :: "'a \<Rightarrow> node_ptr \<Rightarrow> node_ptr \<Rightarrow> 'a node_heap \<Rightarrow> nat \<times> 'a node_heap" where
  "new_node x nx pv H =
     (next_node H, \<lparr>nodes = (nodes H)(next_node H \<mapsto> \<lparr>node_data = x, node_next = nx, node_previous = pv\<rparr>),
                    next_node = Suc (next_node H)\<rparr>)"

definition free_node :: "node_ptr \<Rightarrow> 'a node_heap \<Rightarrow> 'a node_heap option" where
  "free_node p H =
     do { a \<leftarrow> p; n \<leftarrow> nodes H a; Some (H\<lparr>nodes := (nodes H)(a := None)\<rparr>) }"

subsection \<open>The ends\<close>

definition llist_new :: llist where
  "llist_new = \<lparr>ll_first = None, ll_last = None, ll_size = 0\<rparr>"

definition llist_get_first :: "llist \<Rightarrow> 'a node_heap \<Rightarrow> 'a option option" where
  "llist_get_first L H =
     (if ll_size L = 0 then Some None else do { n \<leftarrow> deref H (ll_first L); Some (Some (node_data n)) })"

definition llist_get_last :: "llist \<Rightarrow> 'a node_heap \<Rightarrow> 'a option option" where
  "llist_get_last L H =
     (if ll_size L = 0 then Some None else do { n \<leftarrow> deref H (ll_last L); Some (Some (node_data n)) })"

definition llist_remove_first :: "llist \<Rightarrow> 'a node_heap \<Rightarrow> ('a option \<times> llist \<times> 'a node_heap) option" where
  "llist_remove_first L H =
     (if ll_size L = 0 then Some (None, L, H)
      else do {
        n \<leftarrow> deref H (ll_first L);
        (L1, H1) \<leftarrow> (if node_next n \<noteq> None
                    then do { H1 \<leftarrow> set_node_previous (node_next n) None H; Some (L, H1) }
                    else Some (L\<lparr>ll_last := None\<rparr>, H));
        H2 \<leftarrow> free_node (ll_first L) H1;
        Some (Some (node_data n), L1\<lparr>ll_first := node_next n, ll_size := ll_size L - 1\<rparr>, H2) })"

definition llist_remove_last :: "llist \<Rightarrow> 'a node_heap \<Rightarrow> ('a option \<times> llist \<times> 'a node_heap) option" where
  "llist_remove_last L H =
     (if ll_size L = 0 then Some (None, L, H)
      else do {
        n \<leftarrow> deref H (ll_last L);
        (L1, H1) \<leftarrow> (if node_previous n \<noteq> None
                    then do { H1 \<leftarrow> set_node_next (node_previous n) None H; Some (L, H1) }
                    else Some (L\<lparr>ll_first := None\<rparr>, H));
        H2 \<leftarrow> free_node (ll_last L) H1;
        Some (Some (node_data n), L1\<lparr>ll_last := node_previous n, ll_size := ll_size L - 1\<rparr>, H2) })"

definition llist_add_first :: "'a \<Rightarrow> llist \<Rightarrow> 'a node_heap \<Rightarrow> (llist \<times> 'a node_heap) option" where
  "llist_add_first x L H =
     (if ll_size L = 0 then
        (case new_node x None None H of (e, H1) \<Rightarrow>
           Some (L\<lparr>ll_first := Some e, ll_last := Some e, ll_size := ll_size L + 1\<rparr>, H1))
      else
        (case new_node x (ll_first L) None H of (e, H1) \<Rightarrow>
           do { H2 \<leftarrow> set_node_previous (ll_first L) (Some e) H1;
                Some (L\<lparr>ll_first := Some e, ll_size := ll_size L + 1\<rparr>, H2) }))"

definition llist_add_last :: "'a \<Rightarrow> llist \<Rightarrow> 'a node_heap \<Rightarrow> (llist \<times> 'a node_heap) option" where
  "llist_add_last x L H =
     (if ll_size L = 0 then
        (case new_node x None None H of (e, H1) \<Rightarrow>
           Some (L\<lparr>ll_first := Some e, ll_last := Some e, ll_size := ll_size L + 1\<rparr>, H1))
      else
        (case new_node x None (ll_last L) H of (e, H1) \<Rightarrow>
           do { H2 \<leftarrow> set_node_next (ll_last L) (Some e) H1;
                Some (L\<lparr>ll_last := Some e, ll_size := ll_size L + 1\<rparr>, H2) }))"

definition llist_size :: "llist \<Rightarrow> 32 word" where
  "llist_size L = ll_size L"

definition llist_is_empty :: "llist \<Rightarrow> bool" where
  "llist_is_empty L \<longleftrightarrow> ll_size L = 0"

subsection \<open>Walking the list\<close>

text \<open>The loop of \<open>llist_remove\<close> and \<open>llist_contains\<close>: the first node that holds the element.\<close>

partial_function (option) find_node :: "'a node_heap \<Rightarrow> 'a \<Rightarrow> node_ptr \<Rightarrow> node_ptr option" where
  "find_node H x entry =
     (case entry of
        None \<Rightarrow> Some None
      | Some a \<Rightarrow> do { n \<leftarrow> nodes H a; if node_data n = x then Some (Some a) else find_node H x (node_next n) })"

definition llist_remove_entry :: "node_ptr \<Rightarrow> llist \<Rightarrow> 'a node_heap \<Rightarrow> (llist \<times> 'a node_heap) option" where
  "llist_remove_entry entry L H =
     do { (L1, H1) \<leftarrow>
            (if ll_size L = 1 then Some (L\<lparr>ll_first := None, ll_last := None\<rparr>, H)
             else if entry = ll_first L then
               do { n \<leftarrow> deref H entry; H1 \<leftarrow> set_node_previous (node_next n) None H;
                    Some (L\<lparr>ll_first := node_next n\<rparr>, H1) }
             else if entry = ll_last L then
               do { n \<leftarrow> deref H entry; H1 \<leftarrow> set_node_next (node_previous n) None H;
                    Some (L\<lparr>ll_last := node_previous n\<rparr>, H1) }
             else
               do { n \<leftarrow> deref H entry;
                    H1 \<leftarrow> set_node_previous (node_next n) (node_previous n) H;
                    n \<leftarrow> deref H1 entry;
                    H2 \<leftarrow> set_node_next (node_previous n) (node_next n) H1;
                    Some (L, H2) });
          H2 \<leftarrow> free_node entry H1;
          Some (L1\<lparr>ll_size := ll_size L - 1\<rparr>, H2) }"

definition llist_remove :: "'a \<Rightarrow> llist \<Rightarrow> 'a node_heap \<Rightarrow> (bool \<times> llist \<times> 'a node_heap) option" where
  "llist_remove x L H =
     do { e \<leftarrow> find_node H x (ll_first L);
          if e = None then Some (False, L, H)
          else do { (L, H) \<leftarrow> llist_remove_entry e L H; Some (True, L, H) } }"

definition llist_contains :: "'a \<Rightarrow> llist \<Rightarrow> 'a node_heap \<Rightarrow> bool option" where
  "llist_contains x L H = do { e \<leftarrow> find_node H x (ll_first L); Some (e \<noteq> None) }"

text \<open>The two loops of \<open>llist_get_entry\<close>: \<open>n\<close> steps forward, or backward.\<close>

fun steps_next :: "nat \<Rightarrow> 'a node_heap \<Rightarrow> node_ptr \<Rightarrow> node_ptr option" where
  "steps_next 0 H p = Some p"
| "steps_next (Suc n) H p = do { e \<leftarrow> deref H p; steps_next n H (node_next e) }"

fun steps_previous :: "nat \<Rightarrow> 'a node_heap \<Rightarrow> node_ptr \<Rightarrow> node_ptr option" where
  "steps_previous 0 H p = Some p"
| "steps_previous (Suc n) H p = do { e \<leftarrow> deref H p; steps_previous n H (node_previous e) }"

definition llist_get_entry :: "llist \<Rightarrow> 32 word \<Rightarrow> 'a node_heap \<Rightarrow> node_ptr option" where
  "llist_get_entry L index H =
     (if index < ll_size L div 2 then steps_next (unat index) H (ll_first L)
      else steps_previous (unat (ll_size L) - unat index - 1) H (ll_last L))"

definition llist_get :: "llist \<Rightarrow> 32 word \<Rightarrow> 'a node_heap \<Rightarrow> 'a option option" where
  "llist_get L index H =
     (if ll_size L \<le> index then Some None
      else do { e \<leftarrow> llist_get_entry L index H; n \<leftarrow> deref H e; Some (Some (node_data n)) })"

text \<open>\<open>llist_set\<close> writes the old element back.\<close>

definition llist_set :: "llist \<Rightarrow> 32 word \<Rightarrow> 'a \<Rightarrow> 'a node_heap \<Rightarrow> ('a option \<times> 'a node_heap) option" where
  "llist_set L index x H =
     (if ll_size L \<le> index then Some (None, H)
      else do { e \<leftarrow> llist_get_entry L index H;
                n \<leftarrow> deref H e;
                H1 \<leftarrow> set_node_data e (node_data n) H;
                Some (Some (node_data n), H1) })"

text \<open>\<open>for (c = 0; c < list2->size; c++) llist_add(list, llist_get_entry(list2, c)->data);\<close>\<close>

function add_all_loop :: "nat \<Rightarrow> llist \<Rightarrow> llist \<Rightarrow> 'a node_heap \<Rightarrow> (llist \<times> 'a node_heap) option" where
  "add_all_loop c L2 L H =
     (if c < unat (ll_size L2)
      then do { e \<leftarrow> llist_get_entry L2 (of_nat c) H;
                n \<leftarrow> deref H e;
                (L, H) \<leftarrow> llist_add_last (node_data n) L H;
                add_all_loop (c + 1) L2 L H }
      else Some (L, H))"
  by pat_completeness auto
termination
  by (relation "measure (\<lambda>(c, L2, L, H). unat (ll_size L2) - c)") auto

declare add_all_loop.simps [simp del]

definition llist_add_all :: "llist \<Rightarrow> llist \<Rightarrow> 'a node_heap \<Rightarrow> (llist \<times> 'a node_heap) option" where
  "llist_add_all L L2 H = add_all_loop 0 L2 L H"

text \<open>The loop that frees every node, of \<open>llist_clear\<close> and \<open>llist_free\<close>.\<close>

partial_function (option) free_nodes :: "node_ptr \<Rightarrow> 'a node_heap \<Rightarrow> 'a node_heap option" where
  "free_nodes entry H =
     (case entry of
        None \<Rightarrow> Some H
      | Some a \<Rightarrow> do { n \<leftarrow> nodes H a; H1 \<leftarrow> free_node (Some a) H; free_nodes (node_next n) H1 })"

definition llist_clear :: "llist \<Rightarrow> 'a node_heap \<Rightarrow> (llist \<times> 'a node_heap) option" where
  "llist_clear L H =
     do { H1 \<leftarrow> free_nodes (ll_first L) H; Some (L\<lparr>ll_first := None, ll_last := None, ll_size := 0\<rparr>, H1) }"

definition llist_free :: "llist \<Rightarrow> 'a node_heap \<Rightarrow> 'a node_heap option" where
  "llist_free L H = free_nodes (ll_first L) H"

text \<open>\<open>llist_to_array\<close>; the bound of the array is the size field.\<close>

partial_function (option) node_values :: "'a node_heap \<Rightarrow> node_ptr \<Rightarrow> 'a list option" where
  "node_values H entry =
     (case entry of
        None \<Rightarrow> Some []
      | Some a \<Rightarrow> do { n \<leftarrow> nodes H a; xs \<leftarrow> node_values H (node_next n); Some (node_data n # xs) })"

definition llist_to_array :: "llist \<Rightarrow> 'a node_heap \<Rightarrow> 'a list option" where
  "llist_to_array L H =
     do { xs \<leftarrow> node_values H (ll_first L);
          if length xs \<le> unat (ll_size L) then Some xs else None }"

subsection \<open>Positions\<close>

definition llist_add_at :: "llist \<Rightarrow> 32 word \<Rightarrow> 'a \<Rightarrow> 'a node_heap \<Rightarrow> (llist \<times> 'a node_heap) option" where
  "llist_add_at L index x H =
     (if ll_size L < index then Some (L, H)
      else if index < ll_size L then
        do { after \<leftarrow> llist_get_entry L index H;
             n \<leftarrow> deref H after;
             case new_node x after (node_previous n) H of (e, H1) \<Rightarrow>
               do { (L1, H2) \<leftarrow> (if node_previous n = None then Some (L\<lparr>ll_first := Some e\<rparr>, H1)
                               else do { H2 \<leftarrow> set_node_next (node_previous n) (Some e) H1; Some (L, H2) });
                    H3 \<leftarrow> set_node_previous after (Some e) H2;
                    Some (L1\<lparr>ll_size := ll_size L + 1\<rparr>, H3) } }
      else llist_add_last x L H)"

definition llist_remove_at :: "llist \<Rightarrow> 32 word \<Rightarrow> 'a node_heap \<Rightarrow> ('a option \<times> llist \<times> 'a node_heap) option" where
  "llist_remove_at L index H =
     (if ll_size L \<le> index then Some (None, L, H)
      else do { e \<leftarrow> llist_get_entry L index H;
                n \<leftarrow> deref H e;
                (L, H) \<leftarrow> llist_remove_entry e L H;
                Some (Some (node_data n), L, H) })"

partial_function (option) index_loop :: "'a node_heap \<Rightarrow> 'a \<Rightarrow> node_ptr \<Rightarrow> 32 word \<Rightarrow> 32 word option" where
  "index_loop H x entry index =
     (case entry of
        None \<Rightarrow> Some (-1)
      | Some a \<Rightarrow> do { n \<leftarrow> nodes H a;
                      if node_data n = x then Some index else index_loop H x (node_next n) (index + 1) })"

definition llist_index_of :: "llist \<Rightarrow> 'a \<Rightarrow> 'a node_heap \<Rightarrow> 32 word option" where
  "llist_index_of L x H = index_loop H x (ll_first L) 0"

partial_function (option) last_index_loop ::
  "'a node_heap \<Rightarrow> 'a \<Rightarrow> node_ptr \<Rightarrow> 32 word \<Rightarrow> 32 word option" where
  "last_index_loop H x entry index =
     (case entry of
        None \<Rightarrow> Some (-1)
      | Some a \<Rightarrow> do { n \<leftarrow> nodes H a;
                      if node_data n = x then Some index
                      else last_index_loop H x (node_previous n) (index - 1) })"

definition llist_last_index_of :: "llist \<Rightarrow> 'a \<Rightarrow> 'a node_heap \<Rightarrow> 32 word option" where
  "llist_last_index_of L x H = last_index_loop H x (ll_last L) (ll_size L - 1)"

text \<open>
  \<open>llist_clone\<close>: \<open>copy\<close> is fresh memory, so its fields start as the argument \<open>garbage\<close>.  For an
  empty list the code resets \<open>list->first\<close> and leaves \<open>copy->first\<close> as it is.
\<close>

partial_function (option) clone_loop ::
  "node_ptr \<Rightarrow> node_ptr \<Rightarrow> llist \<Rightarrow> 'a node_heap \<Rightarrow> (node_ptr \<times> llist \<times> 'a node_heap) option" where
  "clone_loop entry previous copy H =
     (case entry of
        None \<Rightarrow> Some (previous, copy, H)
      | Some a \<Rightarrow>
          do { n \<leftarrow> nodes H a;
               case new_node (node_data n) None previous H of (e, H1) \<Rightarrow>
                 do { (copy, H2) \<leftarrow> (if previous = None then Some (copy\<lparr>ll_first := Some e\<rparr>, H1)
                                   else do { H2 \<leftarrow> set_node_next previous (Some e) H1; Some (copy, H2) });
                      clone_loop (node_next n) (Some e) copy H2 } })"

definition llist_clone :: "llist \<Rightarrow> llist \<Rightarrow> 'a node_heap \<Rightarrow> (llist \<times> llist \<times> 'a node_heap) option" where
  "llist_clone garbage L H =
     do { (previous, copy, H1) \<leftarrow> clone_loop (ll_first L) None (garbage\<lparr>ll_size := ll_size L\<rparr>) H;
          let copy = copy\<lparr>ll_last := previous\<rparr>;
          if previous = None then Some (copy, L\<lparr>ll_first := None\<rparr>, H1)
          else do { H2 \<leftarrow> set_node_next previous None H1; Some (copy, L, H2) } }"

partial_function (option) reverse_loop :: "node_ptr \<Rightarrow> node_ptr \<Rightarrow> 'a node_heap \<Rightarrow> 'a node_heap option" where
  "reverse_loop head tail H =
     (if head = tail then Some H
      else do {
        h \<leftarrow> deref H head;
        if node_previous h = tail then Some H
        else do {
          t \<leftarrow> deref H tail;
          H1 \<leftarrow> set_node_data head (node_data t) H;
          H2 \<leftarrow> set_node_data tail (node_data h) H1;
          h \<leftarrow> deref H2 head;
          t \<leftarrow> deref H2 tail;
          reverse_loop (node_next h) (node_previous t) H2 } })"

definition llist_reverse :: "llist \<Rightarrow> 'a node_heap \<Rightarrow> 'a node_heap option" where
  "llist_reverse L H = reverse_loop (ll_first L) (ll_last L) H"

subsection \<open>Iterators and nodes\<close>

text \<open>
  An iterator is the node it will return next.  \<open>remove\<close> takes out the node before it, and stops
  the program (no result) if that is called before the first \<open>next\<close>.
\<close>

definition llist_iterator :: "llist \<Rightarrow> node_ptr" where
  "llist_iterator L = ll_first L"

definition llist_iterator_has_next :: "node_ptr \<Rightarrow> bool" where
  "llist_iterator_has_next it \<longleftrightarrow> it \<noteq> None"

definition llist_iterator_next :: "node_ptr \<Rightarrow> 'a node_heap \<Rightarrow> ('a \<times> node_ptr) option" where
  "llist_iterator_next it H = do { n \<leftarrow> deref H it; Some (node_data n, node_next n) }"

definition llist_iterator_remove :: "node_ptr \<Rightarrow> llist \<Rightarrow> 'a node_heap \<Rightarrow> (llist \<times> 'a node_heap) option" where
  "llist_iterator_remove it L H =
     (if ll_first L = it then None
      else if it = None then llist_remove_entry (ll_last L) L H
      else do { n \<leftarrow> deref H it; llist_remove_entry (node_previous n) L H })"

definition lnode_add_after ::
  "llist \<Rightarrow> node_ptr \<Rightarrow> 'a \<Rightarrow> 'a node_heap \<Rightarrow> (node_ptr \<times> llist \<times> 'a node_heap) option" where
  "lnode_add_after L node x H =
     do { n \<leftarrow> deref H node;
          if node_next n = None
          then do { (L, H) \<leftarrow> llist_add_last x L H; Some (ll_last L, L, H) }
          else (case new_node x (node_next n) node H of (e, H1) \<Rightarrow>
            do { H2 \<leftarrow> set_node_previous (node_next n) (Some e) H1;
                 H3 \<leftarrow> set_node_next node (Some e) H2;
                 Some (Some e, L\<lparr>ll_size := ll_size L + 1\<rparr>, H3) }) }"

definition lnode_add_before ::
  "llist \<Rightarrow> node_ptr \<Rightarrow> 'a \<Rightarrow> 'a node_heap \<Rightarrow> (node_ptr \<times> llist \<times> 'a node_heap) option" where
  "lnode_add_before L node x H =
     do { n \<leftarrow> deref H node;
          if node_previous n = None
          then do { (L, H) \<leftarrow> llist_add_first x L H; Some (ll_first L, L, H) }
          else (case new_node x node (node_previous n) H of (e, H1) \<Rightarrow>
            do { H2 \<leftarrow> set_node_previous node (Some e) H1;
                 H3 \<leftarrow> set_node_next (node_previous n) (Some e) H2;
                 Some (Some e, L\<lparr>ll_size := ll_size L + 1\<rparr>, H3) }) }"

end
