(* ===== verification/Llist_Spec.thy ===== *)
theory Llist_Spec
  imports Llist Word32
begin

text \<open>
  What the linked list promises: a list object with the heap represents a HOL list, and every
  operation is the corresponding list operation.
\<close>

subsection \<open>The representation\<close>

definition head_ptr :: "nat list \<Rightarrow> node_ptr \<Rightarrow> node_ptr" where
  "head_ptr as n = (case as of [] \<Rightarrow> n | a # _ \<Rightarrow> Some a)"

definition last_ptr :: "node_ptr \<Rightarrow> nat list \<Rightarrow> node_ptr" where
  "last_ptr p as = (if as = [] then p else Some (last as))"

lemma ptr_simps [simp]:
  "head_ptr [] n = n" "head_ptr (a # as) n = Some a" "last_ptr p [] = p" "last_ptr p (as @ [a]) = Some a"
  "last_ptr p (a # as) = last_ptr (Some a) as"
  by (simp_all add: head_ptr_def last_ptr_def)

lemma head_ptr_append: "head_ptr (as @ bs) n = head_ptr as (head_ptr bs n)"
  by (cases as) simp_all

lemma last_ptr_append: "last_ptr p (as @ bs) = last_ptr (last_ptr p as) bs"
  by (simp add: last_ptr_def)

text \<open>A segment of nodes: the addresses, the elements, and the pointers at both ends.\<close>

fun dll :: "'a node_heap \<Rightarrow> node_ptr \<Rightarrow> nat list \<Rightarrow> 'a list \<Rightarrow> node_ptr \<Rightarrow> bool" where
  "dll H p [] [] n = True"
| "dll H p (a # as) (x # xs) n \<longleftrightarrow>
     nodes H a = Some \<lparr>node_data = x, node_next = head_ptr as n, node_previous = p\<rparr> \<and>
     dll H (Some a) as xs n"
| "dll H p as xs n = False"

lemma dll_length: "dll H p as xs n \<Longrightarrow> length as = length xs"
  by (induction H p as xs n rule: dll.induct) auto

lemma dll_append:
  "length as = length xs \<Longrightarrow>
   dll H p (as @ bs) (xs @ ys) n \<longleftrightarrow> dll H p as xs (head_ptr bs n) \<and> dll H (last_ptr p as) bs ys n"
proof (induction as xs arbitrary: p rule: list_induct2)
  case (Cons a as x xs)
  then show ?case by (simp add: head_ptr_append)
qed simp

lemma dll_frame: "\<forall>a \<in> set as. nodes H' a = nodes H a \<Longrightarrow> dll H' p as xs n = dll H p as xs n"
  by (induction H p as xs n rule: dll.induct) auto

lemma dll_frameI: "dll H p as xs n \<Longrightarrow> (\<And>a. a \<in> set as \<Longrightarrow> nodes H' a = nodes H a) \<Longrightarrow> dll H' p as xs n"
  using dll_frame [of as H' H p xs n] by blast

definition llist_rep :: "llist \<Rightarrow> 'a node_heap \<Rightarrow> nat list \<Rightarrow> 'a list \<Rightarrow> bool" where
  "llist_rep L H as xs \<longleftrightarrow>
     dll H None as xs None \<and> distinct as \<and> (\<forall>a \<in> set as. a < next_node H) \<and>
     length as < 2 ^ 32 \<and>
     ll_first L = head_ptr as None \<and> ll_last L = last_ptr None as \<and> ll_size L = of_nat (length as)"

lemma llist_rep_length: "llist_rep L H as xs \<Longrightarrow> length as = length xs"
  by (auto simp: llist_rep_def dest: dll_length)

lemma llist_rep_new [simp]: "llist_rep llist_new H [] []"
  by (simp add: llist_rep_def llist_new_def)

lemma rep_size_0: "llist_rep L H as xs \<Longrightarrow> ll_size L = 0 \<longleftrightarrow> xs = []"
  using of_nat_word_0 [of "length as"] by (auto simp: llist_rep_def dest: dll_length)

text \<open>An operation leaves every node alone that is not in the list or new.\<close>

definition only_changes :: "nat set \<Rightarrow> 'a node_heap \<Rightarrow> 'a node_heap \<Rightarrow> bool" where
  "only_changes S H H' \<longleftrightarrow> (\<forall>a. a \<notin> S \<longrightarrow> nodes H' a = nodes H a)"

lemma only_changes_refl [simp]: "only_changes S H H"
  by (simp add: only_changes_def)

lemma repE:
  assumes "llist_rep L H as xs"
  obtains "dll H None as xs None" "distinct as" "\<forall>a \<in> set as. a < next_node H" "length as < 2 ^ 32"
    "length as = length xs"
    "ll_first L = head_ptr as None" "ll_last L = last_ptr None as" "ll_size L = of_nat (length as)"
  using assms by (auto simp: llist_rep_def dest: dll_length)

subsection \<open>Adding and removing at the ends\<close>

lemma add_last_rep:
  assumes rep: "llist_rep L H as xs" and room: "length as + 1 < 2 ^ 32"
  shows "\<exists>L' H'. llist_add_last x L H = Some (L', H') \<and> llist_rep L' H' (as @ [next_node H]) (xs @ [x]) \<and>
    only_changes (set as \<union> {next_node H}) H H'"
proof -
  let ?e = "next_node H"
  from rep have r: "dll H None as xs None" "distinct as" "\<forall>a \<in> set as. a < ?e"
    "length as < 2 ^ 32" "length as = length xs"
    "ll_first L = head_ptr as None" "ll_last L = last_ptr None as" "ll_size L = of_nat (length as)"
    by (rule repE, blast)+
  show ?thesis
  proof (cases "as = []")
    case True
    then show ?thesis
      using r by (simp add: llist_add_last_def new_node_def llist_rep_def only_changes_def)
  next
    case False
    then obtain bs b where as: "as = bs @ [b]" by (metis rev_exhaust)
    then obtain ys y where xs: "xs = ys @ [y]" using r(5) by (metis length_0_conv rev_exhaust snoc_eq_iff_butlast)
    have len: "length bs = length ys" using r(5) as xs by simp
    have seg: "dll H None bs ys (Some b)" and b: "nodes H b = Some \<lparr>node_data = y, node_next = None, node_previous = last_ptr None bs\<rparr>"
      using r(1) by (simp_all add: as xs dll_append [OF len])
    have size: "ll_size L \<noteq> 0" using rep_size_0 [OF rep] xs by simp
    have be: "b \<noteq> ?e" "?e \<notin> set bs" "b \<notin> set bs" using r(2,3) as by auto
    let ?H1 = "\<lparr>nodes = (nodes H)(?e \<mapsto> \<lparr>node_data = x, node_next = None, node_previous = Some b\<rparr>), next_node = Suc ?e\<rparr>"
    let ?H2 = "?H1\<lparr>nodes := (nodes ?H1)(b \<mapsto> \<lparr>node_data = y, node_next = Some ?e, node_previous = last_ptr None bs\<rparr>)\<rparr>"
    have seg2: "dll ?H2 None bs ys (Some b)"
      by (rule dll_frameI [OF seg]) (use be in auto)
    have "llist_add_last x L H = Some (L\<lparr>ll_last := Some ?e, ll_size := ll_size L + 1\<rparr>, ?H2)"
      using size r(7) b be(1) by (simp add: llist_add_last_def new_node_def set_node_next_def modify_node_def as)
    moreover have "llist_rep (L\<lparr>ll_last := Some ?e, ll_size := ll_size L + 1\<rparr>) ?H2 (as @ [?e]) (xs @ [x])"
    proof -
      have "dll ?H2 None (bs @ [b, ?e]) (ys @ [y, x]) None"
        unfolding dll_append [OF len] using seg2 be(1) by simp
      then show ?thesis using r(2,3,6,8) room by (auto simp: llist_rep_def as xs head_ptr_append last_ptr_append)
    qed
    moreover have "only_changes (set as \<union> {?e}) H ?H2" by (simp add: only_changes_def as)
    ultimately show ?thesis by blast
  qed
qed

lemma add_first_rep:
  assumes rep: "llist_rep L H as xs" and room: "length as + 1 < 2 ^ 32"
  shows "\<exists>L' H'. llist_add_first x L H = Some (L', H') \<and> llist_rep L' H' (next_node H # as) (x # xs) \<and>
    only_changes (set as \<union> {next_node H}) H H'"
proof -
  let ?e = "next_node H"
  from rep have r: "dll H None as xs None" "distinct as" "\<forall>a \<in> set as. a < ?e"
    "length as < 2 ^ 32" "length as = length xs"
    "ll_first L = head_ptr as None" "ll_last L = last_ptr None as" "ll_size L = of_nat (length as)"
    by (rule repE, blast)+
  show ?thesis
  proof (cases as)
    case Nil
    then show ?thesis
      using r by (simp add: llist_add_first_def new_node_def llist_rep_def only_changes_def)
  next
    case (Cons b bs)
    then obtain y ys where xs: "xs = y # ys" using r(5) by (cases xs) auto
    have seg: "dll H (Some b) bs ys None" and b: "nodes H b = Some \<lparr>node_data = y, node_next = head_ptr bs None, node_previous = None\<rparr>"
      using r(1) by (simp_all add: Cons xs)
    have size: "ll_size L \<noteq> 0" using rep_size_0 [OF rep] xs by simp
    have be: "b \<noteq> ?e" "?e \<notin> set bs" "b \<notin> set bs" using r(2,3) Cons by auto
    let ?H1 = "\<lparr>nodes = (nodes H)(?e \<mapsto> \<lparr>node_data = x, node_next = Some b, node_previous = None\<rparr>), next_node = Suc ?e\<rparr>"
    let ?H2 = "?H1\<lparr>nodes := (nodes ?H1)(b \<mapsto> \<lparr>node_data = y, node_next = head_ptr bs None, node_previous = Some ?e\<rparr>)\<rparr>"
    have seg2: "dll ?H2 (Some b) bs ys None"
      by (rule dll_frameI [OF seg]) (use be in auto)
    have "llist_add_first x L H = Some (L\<lparr>ll_first := Some ?e, ll_size := ll_size L + 1\<rparr>, ?H2)"
      using size r(6) b be(1) by (simp add: llist_add_first_def new_node_def set_node_previous_def modify_node_def Cons)
    moreover have "llist_rep (L\<lparr>ll_first := Some ?e, ll_size := ll_size L + 1\<rparr>) ?H2 (?e # as) (x # xs)"
      using r be seg2 room by (auto simp: llist_rep_def Cons xs)
    moreover have "only_changes (set as \<union> {?e}) H ?H2" by (simp add: only_changes_def Cons)
    ultimately show ?thesis by blast
  qed
qed

subsection \<open>Unlinking a node\<close>

text \<open>Setting the pointer at either end of a segment.\<close>

lemma set_next_last:
  assumes "dll H p (bs @ [b]) xs n" "distinct (bs @ [b])"
  obtains H' where "set_node_next (Some b) q H = Some H'" "dll H' p (bs @ [b]) xs q"
    "only_changes {b} H H'" "next_node H' = next_node H"
proof -
  have "xs \<noteq> []" using dll_length [OF assms(1)] by auto
  then obtain ys y where xs: "xs = ys @ [y]" by (metis rev_exhaust)
  have len: "length bs = length ys" using dll_length [OF assms(1)] xs by simp
  have seg: "dll H p bs ys (Some b)" "nodes H b = Some \<lparr>node_data = y, node_next = n, node_previous = last_ptr p bs\<rparr>"
    using assms(1) by (simp_all add: xs dll_append [OF len])
  let ?H = "H\<lparr>nodes := (nodes H)(b \<mapsto> \<lparr>node_data = y, node_next = q, node_previous = last_ptr p bs\<rparr>)\<rparr>"
  have "dll ?H p bs ys (Some b)" by (rule dll_frameI [OF seg(1)]) (use assms(2) in auto)
  then have "dll ?H p (bs @ [b]) xs q" by (simp add: xs dll_append [OF len])
  moreover have "set_node_next (Some b) q H = Some ?H"
    using seg(2) by (simp add: set_node_next_def modify_node_def)
  ultimately show thesis by (intro that [of ?H]) (simp_all add: only_changes_def)
qed

lemma set_previous_head:
  assumes "dll H p (c # cs) xs n" "distinct (c # cs)"
  obtains H' where "set_node_previous (Some c) q H = Some H'" "dll H' q (c # cs) xs n"
    "only_changes {c} H H'" "next_node H' = next_node H"
proof -
  obtain z zs where xs: "xs = z # zs" using dll_length [OF assms(1)] by (cases xs) auto
  have seg: "dll H (Some c) cs zs n" "nodes H c = Some \<lparr>node_data = z, node_next = head_ptr cs n, node_previous = p\<rparr>"
    using assms(1) by (simp_all add: xs)
  let ?H = "H\<lparr>nodes := (nodes H)(c \<mapsto> \<lparr>node_data = z, node_next = head_ptr cs n, node_previous = q\<rparr>)\<rparr>"
  have "dll ?H (Some c) cs zs n" by (rule dll_frameI [OF seg(1)]) (use assms(2) in auto)
  then have "dll ?H q (c # cs) xs n" by (simp add: xs)
  moreover have "set_node_previous (Some c) q H = Some ?H"
    using seg(2) by (simp add: set_node_previous_def modify_node_def)
  ultimately show thesis by (intro that [of ?H]) (simp_all add: only_changes_def)
qed

lemma dll_only_changes: "dll H p as xs n \<Longrightarrow> only_changes S H H' \<Longrightarrow> set as \<inter> S = {} \<Longrightarrow> dll H' p as xs n"
  by (erule dll_frameI) (auto simp: only_changes_def)

lemma only_changes_trans:
  "only_changes S H H1 \<Longrightarrow> only_changes T H1 H2 \<Longrightarrow> S \<subseteq> U \<Longrightarrow> T \<subseteq> U \<Longrightarrow> only_changes U H H2"
  by (simp add: only_changes_def) (metis subsetD)

lemma only_changes_mono: "only_changes S H H' \<Longrightarrow> S \<subseteq> U \<Longrightarrow> only_changes U H H'"
  by (auto simp: only_changes_def)

lemma free_node_live:
  assumes "nodes H b = Some nd"
  obtains H' where "free_node (Some b) H = Some H'" "only_changes {b} H H'" "next_node H' = next_node H"
    "nodes H' b = None"
  using that [of "H\<lparr>nodes := (nodes H)(b := None)\<rparr>"] assms by (simp add: free_node_def only_changes_def)

text \<open>The two neighbours of a node take each other as neighbours.\<close>

lemma unlink:
  assumes d: "dll H None (bs @ b # cs) (ys @ y # zs) None" "distinct (bs @ b # cs)" "length bs = length ys"
  obtains H1 H2 where
    "(if cs = [] then Some H else set_node_previous (head_ptr cs None) (last_ptr None bs) H) = Some H1"
    "(if bs = [] then Some H1 else set_node_next (last_ptr None bs) (head_ptr cs None) H1) = Some H2"
    "dll H2 None (bs @ cs) (ys @ zs) None"
    "nodes H1 b = nodes H b" "nodes H2 b = nodes H b"
    "only_changes (set bs \<union> set cs) H H2" "next_node H2 = next_node H"
proof -
  have seg: "dll H None bs ys (Some b)" "dll H (Some b) cs zs None"
    using d(1) by (simp_all add: dll_append [OF d(3)])
  obtain H1 where H1: "(if cs = [] then Some H else set_node_previous (head_ptr cs None) (last_ptr None bs) H) = Some H1"
    "dll H1 (last_ptr None bs) cs zs None" "only_changes (set cs) H H1" "next_node H1 = next_node H"
  proof (cases cs)
    case Nil
    then show thesis using that [of H] seg(2) by (cases zs) simp_all
  next
    case (Cons c cs')
    have "distinct (c # cs')" using d(2) Cons by simp
    from set_previous_head [OF seg(2) [unfolded Cons] this, of "last_ptr None bs"] obtain H' where H':
      "set_node_previous (Some c) (last_ptr None bs) H = Some H'" "dll H' (last_ptr None bs) (c # cs') zs None"
      "only_changes {c} H H'" "next_node H' = next_node H" by blast
    have "only_changes (set cs) H H'" by (rule only_changes_mono [OF H'(3)]) (simp add: Cons)
    then show thesis using that [of H'] H' Cons by simp
  qed
  have seg1: "dll H1 None bs ys (Some b)" by (rule dll_only_changes [OF seg(1) H1(3)]) (use d(2) in auto)
  obtain H2 where H2: "(if bs = [] then Some H1 else set_node_next (last_ptr None bs) (head_ptr cs None) H1) = Some H2"
    "dll H2 None bs ys (head_ptr cs None)" "only_changes (set bs) H1 H2" "next_node H2 = next_node H1"
  proof (cases bs rule: rev_cases)
    case Nil
    then show thesis using that [of H1] seg1 by (cases ys) simp_all
  next
    case (snoc bs' b')
    have "distinct (bs' @ [b'])" using d(2) snoc by simp
    from set_next_last [OF seg1 [unfolded snoc] this, of "head_ptr cs None"] obtain H' where H':
      "set_node_next (Some b') (head_ptr cs None) H1 = Some H'" "dll H' None (bs' @ [b']) ys (head_ptr cs None)"
      "only_changes {b'} H1 H'" "next_node H' = next_node H1" by blast
    have "only_changes (set bs) H1 H'" by (rule only_changes_mono [OF H'(3)]) (simp add: snoc)
    then show thesis using that [of H'] H' snoc by simp
  qed
  have "dll H2 (last_ptr None bs) cs zs None"
    by (rule dll_only_changes [OF H1(2) H2(3)]) (use d(2) in auto)
  then have "dll H2 None (bs @ cs) (ys @ zs) None" using H2(2) by (simp add: dll_append [OF d(3)])
  moreover have "nodes H1 b = nodes H b" "nodes H2 b = nodes H b"
    using H1(3) H2(3) d(2) by (simp_all add: only_changes_def)
  moreover have "only_changes (set bs \<union> set cs) H H2"
    by (rule only_changes_trans [OF H1(3) H2(3)]) simp_all
  ultimately show thesis using that H1(1,4) H2(1,4) by simp
qed

lemma of_nat_Suc_minus_1: "(of_nat (Suc n) :: word32) - 1 = of_nat n"
  by simp

lemma rep_after_unlink:
  assumes rep: "llist_rep L H (bs @ b # cs) xs" and d: "dll H3 None (bs @ cs) zs None"
    and n: "next_node H3 = next_node H"
  shows "llist_rep \<lparr>ll_first = head_ptr bs (head_ptr cs None), ll_last = last_ptr (last_ptr None bs) cs,
      ll_size = ll_size L - 1\<rparr> H3 (bs @ cs) zs"
proof -
  have r: "distinct (bs @ b # cs)" "\<forall>a \<in> set (bs @ b # cs). a < next_node H" "length (bs @ b # cs) < 2 ^ 32"
    "ll_size L = of_nat (length (bs @ b # cs))" using rep by (auto simp: llist_rep_def)
  have "ll_size L - 1 = of_nat (length (bs @ cs))"
    using r(4) of_nat_Suc_minus_1 [of "length (bs @ cs)"] by simp
  then show ?thesis using r d n by (auto simp: llist_rep_def head_ptr_append last_ptr_append)
qed

lemma remove_entry_rep:
  assumes rep: "llist_rep L H (bs @ b # cs) (ys @ y # zs)" and len: "length bs = length ys"
  shows "\<exists>L' H'. llist_remove_entry (Some b) L H = Some (L', H') \<and> llist_rep L' H' (bs @ cs) (ys @ zs) \<and>
    only_changes (set (bs @ b # cs)) H H' \<and> next_node H' = next_node H"
proof -
  let ?as = "bs @ b # cs"
  have r: "dll H None ?as (ys @ y # zs) None" "distinct ?as" "length ?as < 2 ^ 32"
    "ll_first L = head_ptr ?as None" "ll_last L = last_ptr None ?as" "ll_size L = of_nat (length ?as)"
    using rep by (auto simp: llist_rep_def)
  have node: "nodes H b = Some \<lparr>node_data = y, node_next = head_ptr cs None, node_previous = last_ptr None bs\<rparr>"
    using r(1) by (simp add: dll_append [OF len])
  obtain H1 H2 where u:
    "(if cs = [] then Some H else set_node_previous (head_ptr cs None) (last_ptr None bs) H) = Some H1"
    "(if bs = [] then Some H1 else set_node_next (last_ptr None bs) (head_ptr cs None) H1) = Some H2"
    "dll H2 None (bs @ cs) (ys @ zs) None"
    "nodes H1 b = nodes H b" "nodes H2 b = nodes H b"
    "only_changes (set bs \<union> set cs) H H2" "next_node H2 = next_node H"
    by (rule unlink [OF r(1,2) len])
  obtain H3 where H3: "free_node (Some b) H2 = Some H3" "only_changes {b} H2 H3" "next_node H3 = next_node H2"
    using free_node_live [of H2 b] u(5) node by metis
  have d3: "dll H3 None (bs @ cs) (ys @ zs) None"
    by (rule dll_only_changes [OF u(3) H3(2)]) (use r(2) in auto)
  have changes: "only_changes (set ?as) H H3"
    by (rule only_changes_trans [OF u(6) H3(2)]) auto
  have size1: "ll_size L = 1 \<longleftrightarrow> bs = [] \<and> cs = []"
    using r(3,6) of_nat_word_1 [of "length ?as"] by auto
  have first: "Some b = ll_first L \<longleftrightarrow> bs = []" using r(2,4) by (cases bs) auto
  have last: "Some b = ll_last L \<longleftrightarrow> cs = []" using r(2,5) by (cases cs rule: rev_cases) (auto simp: last_ptr_append)
  let ?L = "\<lparr>ll_first = head_ptr bs (head_ptr cs None), ll_last = last_ptr (last_ptr None bs) cs, ll_size = ll_size L - 1\<rparr>"
  have deref: "deref H (Some b) = Some \<lparr>node_data = y, node_next = head_ptr cs None, node_previous = last_ptr None bs\<rparr>"
    "deref H1 (Some b) = Some \<lparr>node_data = y, node_next = head_ptr cs None, node_previous = last_ptr None bs\<rparr>"
    using node u(4) by (simp_all add: deref_def)
  have ends: "ll_first L = head_ptr bs (Some b)" "ll_last L = last_ptr (Some b) cs"
    using r(4,5) by (simp_all add: head_ptr_append last_ptr_append)
  have "llist_remove_entry (Some b) L H = Some (?L, H3)"
  proof (cases "bs = []"; cases "cs = []")
    assume e: "bs = []" "cs = []"
    then show ?thesis using u(1,2) H3(1) size1 by (simp add: llist_remove_entry_def)
  next
    assume e: "bs = []" "cs \<noteq> []"
    then show ?thesis
      using u(1,2) H3(1) size1 first ends deref by (cases cs) (simp_all add: llist_remove_entry_def)
  next
    assume e: "bs \<noteq> []" "cs = []"
    then show ?thesis
      using u(1,2) H3(1) size1 first last ends deref
      by (cases bs rule: rev_cases) (simp_all add: llist_remove_entry_def head_ptr_append)
  next
    assume e: "bs \<noteq> []" "cs \<noteq> []"
    obtain c cs' where c: "cs = c # cs'" using e(2) by (cases cs) auto
    have h: "head_ptr bs n = head_ptr bs m" for n m using e(1) by (cases bs) auto
    have l: "last_ptr p cs = last_ptr q cs" for p q using e(2) by (simp add: last_ptr_def)
    have L: "L\<lparr>ll_size := ll_size L - 1\<rparr> = ?L"
      using ends h [of "Some b" "head_ptr cs None"] l [of "Some b" "last_ptr None bs"] by (cases L) simp
    show ?thesis
      using u(1,2) H3(1) size1 first last e deref L by (simp add: llist_remove_entry_def)
  qed
  then show ?thesis
    using rep_after_unlink [OF rep d3] H3(3) u(7) changes by auto
qed

subsection \<open>The other operations\<close>

lemma walk_simps [simp]:
  "find_node H x None = Some None"
  "find_node H x (Some a) =
     do { n \<leftarrow> nodes H a; if node_data n = x then Some (Some a) else find_node H x (node_next n) }"
  "node_values H None = Some []"
  "node_values H (Some a) =
     do { n \<leftarrow> nodes H a; xs \<leftarrow> node_values H (node_next n); Some (node_data n # xs) }"
  "free_nodes None H = Some H"
  "free_nodes (Some a) H =
     do { n \<leftarrow> nodes H a; H1 \<leftarrow> free_node (Some a) H; free_nodes (node_next n) H1 }"
  by (subst find_node.simps node_values.simps free_nodes.simps, simp)+

lemma find_node_None: "dll H p as xs None \<Longrightarrow> x \<notin> set xs \<Longrightarrow> find_node H x (head_ptr as None) = Some None"
proof (induction as arbitrary: p xs)
  case (Cons a as)
  then obtain z zs where xs: "xs = z # zs" by (cases xs) auto
  with Cons.prems have "find_node H x (head_ptr as None) = Some None" by (intro Cons.IH) auto
  with Cons.prems xs show ?case by auto
qed simp

lemma find_node_Some:
  "dll H p as xs None \<Longrightarrow> x \<in> set xs \<Longrightarrow>
   \<exists>bs b cs ys zs. as = bs @ b # cs \<and> xs = ys @ x # zs \<and> length bs = length ys \<and> x \<notin> set ys \<and>
     find_node H x (head_ptr as None) = Some (Some b)"
proof (induction as arbitrary: p xs)
  case Nil
  then show ?case by (cases xs) auto
next
  case (Cons a as)
  then obtain z zs where xs: "xs = z # zs" by (cases xs) auto
  show ?case
  proof (cases "z = x")
    case True
    have "find_node H x (head_ptr (a # as) None) = Some (Some a)" using Cons.prems(1) xs True by simp
    then show ?thesis
      using xs True by (intro exI [of _ "[]"] exI [of _ a] exI [of _ as] exI [of _ zs]) simp
  next
    case False
    with Cons.prems xs have "dll H (Some a) as zs None" "x \<in> set zs" by auto
    from Cons.IH [OF this] obtain bs b cs ys ws where w: "as = bs @ b # cs" "zs = ys @ x # ws"
      "length bs = length ys" "x \<notin> set ys" "find_node H x (head_ptr as None) = Some (Some b)" by blast
    have "find_node H x (head_ptr (a # as) None) = Some (Some b)"
      using Cons.prems(1) xs False w(5) by simp
    then show ?thesis
      using w xs False
      by (intro exI [of _ "a # bs"] exI [of _ b] exI [of _ cs] exI [of _ "z # ys"] exI [of _ ws]) simp
  qed
qed

lemma contains_rep: "llist_rep L H as xs \<Longrightarrow> llist_contains x L H = Some (x \<in> set xs)"
proof -
  assume rep: "llist_rep L H as xs"
  then have d: "dll H None as xs None" "ll_first L = head_ptr as None" by (auto simp: llist_rep_def)
  show ?thesis
  proof (cases "x \<in> set xs")
    case True
    from find_node_Some [OF d(1) this] obtain b where "find_node H x (head_ptr as None) = Some (Some b)"
      by blast
    then show ?thesis using d(2) True by (simp add: llist_contains_def)
  next
    case False
    then show ?thesis using find_node_None [OF d(1)] d(2) by (simp add: llist_contains_def)
  qed
qed

lemma remove_rep:
  assumes rep: "llist_rep L H as xs"
  shows "\<exists>L' H' as'. llist_remove x L H = Some (x \<in> set xs, L', H') \<and> llist_rep L' H' as' (remove1 x xs) \<and>
    set as' \<subseteq> set as \<and> only_changes (set as) H H' \<and> next_node H' = next_node H"
proof -
  have d: "dll H None as xs None" "ll_first L = head_ptr as None" using rep by (auto simp: llist_rep_def)
  show ?thesis
  proof (cases "x \<in> set xs")
    case True
    from find_node_Some [OF d(1) this] obtain bs b cs ys zs where w: "as = bs @ b # cs" "xs = ys @ x # zs"
      "length bs = length ys" "x \<notin> set ys" "find_node H x (head_ptr as None) = Some (Some b)" by blast
    from remove_entry_rep [OF rep [unfolded w(1,2)] w(3)] obtain L' H' where e:
      "llist_remove_entry (Some b) L H = Some (L', H')" "llist_rep L' H' (bs @ cs) (ys @ zs)"
      "only_changes (set (bs @ b # cs)) H H'" "next_node H' = next_node H" by blast
    have "llist_remove x L H = Some (x \<in> set xs, L', H')"
      using w(5) e(1) d(2) True by (simp add: llist_remove_def)
    moreover have "remove1 x xs = ys @ zs" using w(2,4) by (simp add: remove1_append)
    ultimately show ?thesis
      using e w(1) by (intro exI [of _ L'] exI [of _ H'] exI [of _ "bs @ cs"]) auto
  next
    case False
    then show ?thesis
      using find_node_None [OF d(1) False] d(2) rep
      by (intro exI [of _ L] exI [of _ H] exI [of _ as]) (simp add: llist_remove_def remove1_idem)
  qed
qed

lemma remove_first_rep:
  assumes rep: "llist_rep L H as (x # xs)"
  shows "\<exists>L' H'. llist_remove_first L H = Some (Some x, L', H') \<and> llist_rep L' H' (tl as) xs \<and>
    only_changes (set as) H H' \<and> next_node H' = next_node H"
proof -
  obtain b cs where as: "as = b # cs" using llist_rep_length [OF rep] by (cases as) auto
  have r: "dll H None ([] @ b # cs) ([] @ x # xs) None" "distinct ([] @ b # cs)"
    "ll_first L = Some b" "ll_last L = last_ptr (Some b) cs"
    using rep by (auto simp: llist_rep_def as)
  obtain H1 H2 where u: "(if cs = [] then Some H else set_node_previous (head_ptr cs None) (last_ptr None []) H) = Some H1"
    "(if [] = ([] :: nat list) then Some H1 else set_node_next (last_ptr None []) (head_ptr cs None) H1) = Some H2"
    "dll H2 None ([] @ cs) ([] @ xs) None" "nodes H1 b = nodes H b" "nodes H2 b = nodes H b"
    "only_changes (set [] \<union> set cs) H H2" "next_node H2 = next_node H"
    by (rule unlink [OF r(1,2)]) simp
  have node: "nodes H b = Some \<lparr>node_data = x, node_next = head_ptr cs None, node_previous = None\<rparr>"
    using r(1) by simp
  obtain H3 where H3: "free_node (Some b) H2 = Some H3" "only_changes {b} H2 H3" "next_node H3 = next_node H2"
    using free_node_live [of H2 b] u(5) node by metis
  have d3: "dll H3 None ([] @ cs) xs None"
    by (rule dll_only_changes [OF _ H3(2)]) (use u(3) r(2) in auto)
  let ?L = "\<lparr>ll_first = head_ptr [] (head_ptr cs None), ll_last = last_ptr (last_ptr None []) cs, ll_size = ll_size L - 1\<rparr>"
  have size: "ll_size L \<noteq> 0" using rep_size_0 [OF rep] by simp
  have "llist_remove_first L H = Some (Some x, ?L, H3)"
  proof (cases cs)
    case Nil
    then show ?thesis
      using size r(3,4) node u(1,2) H3(1) by (simp add: llist_remove_first_def deref_def)
  next
    case (Cons c cs')
    then have "L\<lparr>ll_first := Some c, ll_size := ll_size L - 1\<rparr> = ?L" using r(4) by (cases L) simp
    then show ?thesis
      using size r(3) node u(1,2) H3(1) Cons by (simp add: llist_remove_first_def deref_def)
  qed
  moreover have "llist_rep ?L H3 ([] @ cs) xs"
    by (rule rep_after_unlink [of L H "[]" b cs "x # xs"]) (use rep as d3 H3(3) u(7) in simp_all)
  moreover have "only_changes (set as) H H3"
    by (rule only_changes_trans [OF u(6) H3(2)]) (auto simp: as)
  ultimately show ?thesis using H3(3) u(7) as by auto
qed

lemma remove_last_rep:
  assumes rep: "llist_rep L H as (xs @ [x])"
  shows "\<exists>L' H'. llist_remove_last L H = Some (Some x, L', H') \<and> llist_rep L' H' (butlast as) xs \<and>
    only_changes (set as) H H' \<and> next_node H' = next_node H"
proof -
  obtain b bs where as: "as = bs @ [b]" using llist_rep_length [OF rep] by (cases as rule: rev_cases) auto
  have len: "length bs = length xs" using llist_rep_length [OF rep] as by simp
  have r: "dll H None (bs @ b # []) (xs @ x # []) None" "distinct (bs @ b # [])"
    "ll_first L = head_ptr bs (Some b)" "ll_last L = Some b"
    using rep by (auto simp: llist_rep_def as head_ptr_append)
  obtain H1 H2 where u: "(if [] = ([] :: nat list) then Some H else set_node_previous (head_ptr [] None) (last_ptr None bs) H) = Some H1"
    "(if bs = [] then Some H1 else set_node_next (last_ptr None bs) (head_ptr [] None) H1) = Some H2"
    "dll H2 None (bs @ []) (xs @ []) None" "nodes H1 b = nodes H b" "nodes H2 b = nodes H b"
    "only_changes (set bs \<union> set []) H H2" "next_node H2 = next_node H"
    by (rule unlink [OF r(1,2) len])
  have node: "nodes H b = Some \<lparr>node_data = x, node_next = None, node_previous = last_ptr None bs\<rparr>"
    using r(1) by (simp add: dll_append [OF len])
  obtain H3 where H3: "free_node (Some b) H2 = Some H3" "only_changes {b} H2 H3" "next_node H3 = next_node H2"
    using free_node_live [of H2 b] u(5) node by metis
  have d3: "dll H3 None (bs @ []) xs None"
    by (rule dll_only_changes [OF _ H3(2)]) (use u(3) r(2) in auto)
  let ?L = "\<lparr>ll_first = head_ptr bs (head_ptr [] None), ll_last = last_ptr (last_ptr None bs) [], ll_size = ll_size L - 1\<rparr>"
  have size: "ll_size L \<noteq> 0" using rep_size_0 [OF rep] by simp
  have "llist_remove_last L H = Some (Some x, ?L, H3)"
  proof (cases bs rule: rev_cases)
    case Nil
    then show ?thesis
      using size r(3,4) node u(1,2) H3(1) by (simp add: llist_remove_last_def deref_def)
  next
    case (snoc bs' b')
    then have "L\<lparr>ll_last := Some b', ll_size := ll_size L - 1\<rparr> = ?L"
      using r(3) by (cases L) (simp add: head_ptr_append)
    then show ?thesis
      using size r(4) node u(1,2) H3(1) snoc by (simp add: llist_remove_last_def deref_def)
  qed
  moreover have "llist_rep ?L H3 (bs @ []) xs"
    by (rule rep_after_unlink [of L H bs b "[]" "xs @ [x]"]) (use rep as d3 H3(3) u(7) in simp_all)
  moreover have "only_changes (set as) H H3"
    by (rule only_changes_trans [OF u(6) H3(2)]) (auto simp: as)
  ultimately show ?thesis using H3(3) u(7) as by auto
qed

subsection \<open>Positions, arrays and iterators\<close>

lemma dll_nth:
  "dll H p as xs n \<Longrightarrow> i < length as \<Longrightarrow>
   \<exists>pv. nodes H (as ! i) = Some \<lparr>node_data = xs ! i, node_next = head_ptr (drop (Suc i) as) n, node_previous = pv\<rparr> \<and>
     pv = last_ptr p (take i as)"
proof (induction as arbitrary: p xs i)
  case (Cons a as)
  then obtain z zs where xs: "xs = z # zs" by (cases xs) auto
  show ?case
  proof (cases i)
    case (Suc j)
    then show ?thesis using Cons.IH [of "Some a" zs j] Cons.prems xs by simp
  qed (use Cons.prems xs in simp)
qed simp

lemma steps_next_dll:
  assumes "dll H None as xs None" "i + k < length as"
  shows "steps_next k H (Some (as ! i)) = Some (Some (as ! (i + k)))"
  using assms(2)
proof (induction k arbitrary: i)
  case (Suc k)
  then obtain pv where "nodes H (as ! i) = Some \<lparr>node_data = xs ! i, node_next = head_ptr (drop (Suc i) as) None, node_previous = pv\<rparr>"
    using dll_nth [OF assms(1), of i] by auto
  moreover have "head_ptr (drop (Suc i) as) None = Some (as ! Suc i)"
    using Suc.prems by (simp add: head_ptr_def Cons_nth_drop_Suc [symmetric])
  ultimately show ?case using Suc.IH [of "Suc i"] Suc.prems by (simp add: deref_def)
qed simp

lemma steps_previous_dll:
  assumes "dll H None as xs None" "k \<le> i" "i < length as"
  shows "steps_previous k H (Some (as ! i)) = Some (Some (as ! (i - k)))"
  using assms(2,3)
proof (induction k arbitrary: i)
  case (Suc k)
  then obtain j where j: "i = Suc j" by (cases i) auto
  obtain pv where "nodes H (as ! i) = Some \<lparr>node_data = xs ! i, node_next = head_ptr (drop (Suc i) as) None, node_previous = pv\<rparr>"
    "pv = last_ptr None (take i as)"
    using dll_nth [OF assms(1), of i] Suc.prems by auto
  moreover have "last_ptr None (take i as) = Some (as ! j)"
    using Suc.prems j by (simp add: take_Suc_conv_app_nth)
  ultimately show ?case using Suc.IH [of j] Suc.prems j by (simp add: deref_def)
qed simp

lemma get_entry_rep:
  assumes rep: "llist_rep L H as xs" and i: "i < length as"
  shows "llist_get_entry L (of_nat i) H = Some (Some (as ! i))"
proof -
  have r: "dll H None as xs None" "length as < 2 ^ 32" "ll_first L = head_ptr as None"
    "ll_last L = last_ptr None as" "ll_size L = of_nat (length as)"
    using rep by (auto simp: llist_rep_def)
  obtain n where n: "length as = Suc n" using i by (cases "length as") auto
  have ends: "ll_first L = Some (as ! 0)" "ll_last L = Some (as ! n)"
    using r(3,4) n by (cases as; auto simp: head_ptr_def last_ptr_def last_conv_nth)+
  have u: "unat (of_nat i :: word32) = i" "unat (ll_size L) = Suc n"
    using i r(2,5) n by (simp_all del: of_nat_Suc)
  show ?thesis
  proof (cases "of_nat i < ll_size L div 2")
    case True
    then show ?thesis using steps_next_dll [OF r(1), of 0 i] i ends(1) u(1) by (simp add: llist_get_entry_def)
  next
    case False
    have "Suc n - i - 1 = n - i" by simp
    moreover have "n - (n - i) = i" using i n by simp
    ultimately show ?thesis
      using steps_previous_dll [OF r(1), of "n - i" n] False ends(2) u n
      by (simp add: llist_get_entry_def)
  qed
qed

lemma index_word: "llist_rep L H as xs \<Longrightarrow> i < 2 ^ 32 \<Longrightarrow> ll_size L \<le> of_nat i \<longleftrightarrow> length xs \<le> i"
  using of_nat_word_le_iff [of "length as" i] by (auto simp: llist_rep_def dest: dll_length)

lemma deref_nth:
  assumes "llist_rep L H as xs" "i < length as"
  obtains nx pv where "deref H (Some (as ! i)) = Some \<lparr>node_data = xs ! i, node_next = nx, node_previous = pv\<rparr>"
  using assms dll_nth [of H None as xs None i] by (auto simp: llist_rep_def deref_def)

lemma get_rep:
  assumes rep: "llist_rep L H as xs" and i: "i < 2 ^ 32"
  shows "llist_get L (of_nat i) H = Some (if i < length xs then Some (xs ! i) else None)"
proof (cases "i < length xs")
  case True
  then have l: "i < length as" using llist_rep_length [OF rep] by simp
  obtain nx pv where "deref H (Some (as ! i)) = Some \<lparr>node_data = xs ! i, node_next = nx, node_previous = pv\<rparr>"
    by (rule deref_nth [OF rep l])
  then show ?thesis
    using True index_word [OF rep i] get_entry_rep [OF rep l] by (simp add: llist_get_def)
qed (use index_word [OF rep i] in \<open>simp add: llist_get_def\<close>)

text \<open>\<open>llist_set\<close> returns the element and changes nothing.\<close>

lemma set_rep_same:
  assumes rep: "llist_rep L H as xs" and i: "i < 2 ^ 32"
  shows "llist_set L (of_nat i) x H = Some (if i < length xs then Some (xs ! i) else None, H)"
proof (cases "i < length xs")
  case True
  then have l: "i < length as" using llist_rep_length [OF rep] by simp
  obtain nx pv where d: "deref H (Some (as ! i)) = Some \<lparr>node_data = xs ! i, node_next = nx, node_previous = pv\<rparr>"
    by (rule deref_nth [OF rep l])
  then have "nodes H (as ! i) = Some \<lparr>node_data = xs ! i, node_next = nx, node_previous = pv\<rparr>"
    by (simp add: deref_def)
  then have "set_node_data (Some (as ! i)) (xs ! i) H = Some H"
    by (simp add: set_node_data_def modify_node_def fun_upd_idem)
  then show ?thesis
    using True d index_word [OF rep i] get_entry_rep [OF rep l] by (simp add: llist_set_def)
qed (use index_word [OF rep i] in \<open>simp add: llist_set_def\<close>)

lemma node_values_dll: "dll H p as xs None \<Longrightarrow> node_values H (head_ptr as None) = Some xs"
proof (induction as arbitrary: p xs)
  case Nil
  then show ?case by (cases xs) auto
next
  case (Cons a as)
  then obtain z zs where xs: "xs = z # zs" by (cases xs) auto
  with Cons.prems have "node_values H (head_ptr as None) = Some zs" by (intro Cons.IH) auto
  with Cons.prems xs show ?case by auto
qed

lemma to_array_rep: "llist_rep L H as xs \<Longrightarrow> llist_to_array L H = Some xs"
  using node_values_dll [of H None as xs]
  by (auto simp: llist_rep_def llist_to_array_def dest: dll_length)

lemma free_nodes_dll:
  "dll H p as xs None \<Longrightarrow> distinct as \<Longrightarrow>
   \<exists>H'. free_nodes (head_ptr as None) H = Some H' \<and> only_changes (set as) H H' \<and>
     next_node H' = next_node H \<and> (\<forall>a \<in> set as. nodes H' a = None)"
proof (induction as arbitrary: p xs H)
  case (Cons a as)
  then obtain z zs where xs: "xs = z # zs" by (cases xs) auto
  have a: "nodes H a = Some \<lparr>node_data = z, node_next = head_ptr as None, node_previous = p\<rparr>"
    using Cons.prems xs by simp
  obtain H1 where H1: "free_node (Some a) H = Some H1" "only_changes {a} H H1" "next_node H1 = next_node H"
    "nodes H1 a = None" by (rule free_node_live [OF a])
  have "dll H (Some a) as zs None" using Cons.prems xs by simp
  then have "dll H1 (Some a) as zs None" by (rule dll_only_changes [OF _ H1(2)]) (use Cons.prems in auto)
  from Cons.IH [OF this] Cons.prems(2) obtain H2 where H2: "free_nodes (head_ptr as None) H1 = Some H2"
    "only_changes (set as) H1 H2" "next_node H2 = next_node H1" "\<forall>a \<in> set as. nodes H2 a = None" by auto
  have "nodes H2 a = nodes H1 a" using H2(2) Cons.prems(2) by (auto simp: only_changes_def)
  moreover have "only_changes (set (a # as)) H H2" by (rule only_changes_trans [OF H1(2) H2(2)]) auto
  ultimately show ?case using a H1 H2 by (intro exI [of _ H2]) auto
qed simp

lemma clear_rep:
  assumes "llist_rep L H as xs"
  shows "\<exists>H'. llist_clear L H = Some (llist_new, H') \<and> only_changes (set as) H H' \<and> (\<forall>a \<in> set as. nodes H' a = None)"
proof -
  have "dll H None as xs None" "distinct as" "ll_first L = head_ptr as None" using assms by (auto simp: llist_rep_def)
  then show ?thesis
    using free_nodes_dll [of H None as xs] by (auto simp: llist_clear_def llist_new_def)
qed

text \<open>
  An iterator in the middle: \<open>next\<close> steps to the next element, and \<open>remove\<close> takes out the element
  \<open>next\<close> returned last, without disturbing the iterator.
\<close>

lemma iterator_next_rep:
  assumes "llist_rep L H (as @ b # bs) (xs @ y # ys)" "length as = length xs"
  shows "llist_iterator_next (head_ptr (b # bs) None) H = Some (y, head_ptr bs None)"
  using assms by (auto simp: llist_rep_def dll_append llist_iterator_next_def deref_def)

lemma iterator_remove_rep:
  assumes rep: "llist_rep L H (as @ b # bs) (xs @ y # ys)" and len: "length as = length xs"
  shows "\<exists>L' H'. llist_iterator_remove (head_ptr bs None) L H = Some (L', H') \<and>
    llist_rep L' H' (as @ bs) (xs @ ys) \<and> only_changes (set (as @ b # bs)) H H' \<and> next_node H' = next_node H"
proof -
  have r: "dll H (Some b) bs ys None" "distinct (as @ b # bs)" "ll_first L = head_ptr as (Some b)"
    "ll_last L = last_ptr (Some b) bs"
    using rep by (auto simp: llist_rep_def dll_append [OF len] head_ptr_append last_ptr_append)
  have ne: "ll_first L \<noteq> head_ptr bs None"
    using r(2,3) by (cases as; cases bs) auto
  have "llist_iterator_remove (head_ptr bs None) L H = llist_remove_entry (Some b) L H"
  proof (cases bs)
    case Nil
    then show ?thesis using ne r(4) by (auto simp: llist_iterator_remove_def)
  next
    case (Cons c cs)
    then obtain z zs where "ys = z # zs" using r(1) by (cases ys) auto
    then show ?thesis using ne r(1) Cons by (simp add: llist_iterator_remove_def deref_def)
  qed
  then show ?thesis using remove_entry_rep [OF rep len] by simp
qed

subsection \<open>Appending another list\<close>

lemma add_all_loop_rep:
  assumes "llist_rep L2 H as2 ys" "llist_rep L H as xs" "set as \<inter> set as2 = {}" "c \<le> length ys"
    "length xs + (length ys - c) < 2 ^ 32"
  shows "\<exists>L' H' as'. add_all_loop c L2 L H = Some (L', H') \<and> llist_rep L' H' as' (xs @ drop c ys) \<and>
    llist_rep L2 H' as2 ys"
  using assms
proof (induction "length ys - c" arbitrary: c L H as xs)
  case 0
  then have "\<not> c < unat (ll_size L2)" using llist_rep_length [OF 0(2)] by (auto simp: llist_rep_def)
  then show ?case using 0 by (auto simp: add_all_loop.simps [of c])
next
  case (Suc k)
  have len2: "length as2 = length ys" by (rule llist_rep_length [OF Suc.prems(1)])
  have c: "c < length ys" using Suc.hyps(2) by simp
  have size: "unat (ll_size L2) = length ys" using Suc.prems(1) len2 by (simp add: llist_rep_def)
  have c2: "c < length as2" using c len2 by simp
  obtain nx pv where e: "deref H (Some (as2 ! c)) = Some \<lparr>node_data = ys ! c, node_next = nx, node_previous = pv\<rparr>"
    by (rule deref_nth [OF Suc.prems(1) c2])
  have "length as + 1 < 2 ^ 32" using Suc.prems(5) Suc.hyps(2) llist_rep_length [OF Suc.prems(2)] by linarith
  from add_last_rep [OF Suc.prems(2) this, of "ys ! c"] obtain L1 H1 where a:
    "llist_add_last (ys ! c) L H = Some (L1, H1)" "llist_rep L1 H1 (as @ [next_node H]) (xs @ [ys ! c])"
    "only_changes (set as \<union> {next_node H}) H H1" by blast
  have fresh: "next_node H \<notin> set as2" using Suc.prems(1) by (auto simp: llist_rep_def)
  have grow: "next_node H < next_node H1" using a(2) by (auto simp: llist_rep_def)
  have "dll H1 None as2 ys None"
    by (rule dll_only_changes [OF _ a(3)]) (use Suc.prems(1,3) fresh in \<open>auto simp: llist_rep_def\<close>)
  then have rep2: "llist_rep L2 H1 as2 ys" using Suc.prems(1) grow by (auto simp: llist_rep_def)
  have "\<exists>L' H' as'. add_all_loop (c + 1) L2 L1 H1 = Some (L', H') \<and>
      llist_rep L' H' as' ((xs @ [ys ! c]) @ drop (c + 1) ys) \<and> llist_rep L2 H' as2 ys"
  proof (rule Suc.hyps(1))
    show "k = length ys - (c + 1)" using Suc.hyps(2) by simp
    show "set (as @ [next_node H]) \<inter> set as2 = {}" using Suc.prems(3) fresh by auto
    show "length (xs @ [ys ! c]) + (length ys - (c + 1)) < 2 ^ 32" using Suc.prems(5) c by simp
  qed (use rep2 a(2) c in auto)
  moreover have "add_all_loop c L2 L H = add_all_loop (c + 1) L2 L1 H1"
    using c size get_entry_rep [OF Suc.prems(1) c2] e a(1) by (subst add_all_loop.simps) simp
  moreover have "(xs @ [ys ! c]) @ drop (c + 1) ys = xs @ drop c ys"
    using c by (simp add: Cons_nth_drop_Suc)
  ultimately show ?case by simp
qed

lemma add_all_rep:
  assumes "llist_rep L2 H as2 ys" "llist_rep L H as xs" "set as \<inter> set as2 = {}" "length xs + length ys < 2 ^ 32"
  shows "\<exists>L' H' as'. llist_add_all L L2 H = Some (L', H') \<and> llist_rep L' H' as' (xs @ ys) \<and> llist_rep L2 H' as2 ys"
  using add_all_loop_rep [OF assms(1-3), of 0] assms(4) by (simp add: llist_add_all_def)

subsection \<open>The list as a queue\<close>

text \<open>
  What a client of the list relies on when it fills a list at the end and empties it at the front,
  as \<open>output\<close> of the dual-column format does with its list of quoted names.
\<close>

locale queue =
  fixes rep :: "'s \<Rightarrow> 'a list \<Rightarrow> bool"
    and enq :: "'a \<Rightarrow> 's \<Rightarrow> 's option"
    and deq :: "'s \<Rightarrow> ('a option \<times> 's) option"
    and bound :: nat
  assumes enq_rep: "rep s xs \<Longrightarrow> length xs + 1 < bound \<Longrightarrow> \<exists>s'. enq x s = Some s' \<and> rep s' (xs @ [x])"
    and deq_rep: "rep s (x # xs) \<Longrightarrow> \<exists>s'. deq s = Some (Some x, s') \<and> rep s' xs"
    and deq_empty: "rep s [] \<Longrightarrow> deq s = Some (None, s)"
begin

fun enq_all :: "'a list \<Rightarrow> 's \<Rightarrow> 's option" where
  "enq_all [] s = Some s"
| "enq_all (x # xs) s = do { s \<leftarrow> enq x s; enq_all xs s }"

fun deq_n :: "nat \<Rightarrow> 's \<Rightarrow> ('a option list \<times> 's) option" where
  "deq_n 0 s = Some ([], s)"
| "deq_n (Suc n) s = do { (x, s) \<leftarrow> deq s; (xs, s) \<leftarrow> deq_n n s; Some (x # xs, s) }"

lemma enq_all_rep:
  "rep s xs \<Longrightarrow> length xs + length ys < bound \<Longrightarrow> \<exists>s'. enq_all ys s = Some s' \<and> rep s' (xs @ ys)"
proof (induction ys arbitrary: s xs)
  case (Cons y ys)
  have "length xs + 1 < bound \<or> ys = []" using Cons.prems(2) by (cases ys) auto
  then have "length xs + 1 < bound" using Cons.prems(2) by auto
  then obtain s1 where "enq y s = Some s1" "rep s1 (xs @ [y])" using enq_rep Cons.prems(1) by blast
  then show ?case using Cons.IH [of s1 "xs @ [y]"] Cons.prems(2) by simp
qed simp

lemma deq_n_rep:
  "rep s xs \<Longrightarrow> \<exists>s'. deq_n (Suc (length xs)) s = Some (map Some xs @ [None], s') \<and> rep s' []"
proof (induction xs arbitrary: s)
  case (Cons x xs)
  from deq_rep [OF Cons.prems] obtain s1 where "deq s = Some (Some x, s1)" "rep s1 xs" by blast
  with Cons.IH [of s1] obtain s2 where s2: "deq s = Some (Some x, s1)"
    "deq_n (Suc (length xs)) s1 = Some (map Some xs @ [None], s2)" "rep s2 []" by blast
  then have "deq_n (Suc (length (x # xs))) s = Some (map Some (x # xs) @ [None], s2)"
    by (subst deq_n.simps) (simp del: deq_n.simps)
  then show ?case using s2(3) by blast
qed (auto simp: deq_empty)

lemma fifo:
  assumes "rep s []" "length ys < bound"
  shows "\<exists>s1 s2. enq_all ys s = Some s1 \<and> deq_n (Suc (length ys)) s1 = Some (map Some ys @ [None], s2) \<and> rep s2 []"
  using enq_all_rep [OF assms(1), of ys] deq_n_rep assms(2) by fastforce

end

text \<open>The list object and its heap together are one state.\<close>

definition queue_rep :: "llist \<times> 'a node_heap \<Rightarrow> 'a list \<Rightarrow> bool" where
  "queue_rep s xs \<longleftrightarrow> (\<exists>as. llist_rep (fst s) (snd s) as xs)"

definition llist_enq :: "'a \<Rightarrow> llist \<times> 'a node_heap \<Rightarrow> (llist \<times> 'a node_heap) option" where
  "llist_enq x s = llist_add_last x (fst s) (snd s)"

definition llist_deq :: "llist \<times> 'a node_heap \<Rightarrow> ('a option \<times> llist \<times> 'a node_heap) option" where
  "llist_deq s = llist_remove_first (fst s) (snd s)"

interpretation lq: queue queue_rep llist_enq llist_deq "2 ^ 32"
proof unfold_locales
  fix s :: "llist \<times> 'a node_heap" and xs :: "'a list" and x :: 'a
  show "queue_rep s xs \<Longrightarrow> length xs + 1 < 2 ^ 32 \<Longrightarrow> \<exists>s'. llist_enq x s = Some s' \<and> queue_rep s' (xs @ [x])"
  proof -
    assume "queue_rep s xs" "length xs + 1 < 2 ^ 32"
    then obtain as where as: "llist_rep (fst s) (snd s) as xs" by (auto simp: queue_rep_def)
    then have "length as + 1 < 2 ^ 32" using llist_rep_length [OF as] \<open>length xs + 1 < 2 ^ 32\<close> by simp
    from add_last_rep [OF as this, of x] show ?thesis by (force simp: queue_rep_def llist_enq_def)
  qed
  show "queue_rep s (x # xs) \<Longrightarrow> \<exists>s'. llist_deq s = Some (Some x, s') \<and> queue_rep s' xs"
  proof -
    assume "queue_rep s (x # xs)"
    then obtain as where as: "llist_rep (fst s) (snd s) as (x # xs)" by (auto simp: queue_rep_def)
    from remove_first_rep [OF as] show ?thesis by (force simp: queue_rep_def llist_deq_def)
  qed
  show "queue_rep s [] \<Longrightarrow> llist_deq s = Some (None, s)"
    using rep_size_0 [of "fst s" "snd s" _ "[]"]
    by (auto simp: queue_rep_def llist_deq_def llist_remove_first_def)
qed

end
