(* ===== verification/Hmap.thy ===== *)
theory Hmap
  imports Prelude "HOL-Library.Multiset"
begin

text \<open>
  The chained hash table of \<open>src/src/common/hmap.c\<close>.  The bucket array is a list of chains, a
  chain a list of entries in the order of the \<open>next\<close> pointers.  Keys are pointers: \<^const>\<open>None\<close>
  is NULL, which hashes to bucket 0 and is compared by identity; any other key goes through the
  hash and comparison functions of the map.  \<open>string_map\<close> is the interface the
  clients rely on; the interpretation \<open>hm\<close> discharges it for the table with \<open>strhash\<close> and
  \<open>strcmp\<close>, whatever its size and load.
\<close>

subsection \<open>Data\<close>

record ('k, 'v) hmap_entry =
  entry_key :: "'k option"
  entry_value :: 'v

record ('k, 'v) hmap =
  buckets :: "('k, 'v) hmap_entry list list"
  buckets_length :: nat
  threshold :: nat
  hmap_count :: nat
  hash_fn :: "'k \<Rightarrow> 32 word"
  compare_fn :: "'k option \<Rightarrow> 'k option \<Rightarrow> int"

text \<open>
  \<open>strhash\<close>: \<open>hash = (hash << 5) - hash + *str\<close> on \<open>uint32_t\<close>, with \<open>*str\<close> a signed
  \<open>char\<close> converted to \<open>uint32_t\<close>.
\<close>

fun strhash_loop :: "32 word \<Rightarrow> string \<Rightarrow> 32 word" where
  "strhash_loop hash [] = hash"
| "strhash_loop hash (c # str) =
     strhash_loop (push_bit 5 hash - hash + word_of_int (schar c)) str"

definition strhash :: "string \<Rightarrow> 32 word" where
  "strhash str = strhash_loop 0 str"

text \<open>
  \<open>strcmp\<close> as a \<open>comparison_fn_t\<close>.  Its value on NULL is undefined in C; the model answers
  ``different'', and the contract below never compares a NULL key.
\<close>

fun strcmp_ptr :: "string option \<Rightarrow> string option \<Rightarrow> int" where
  "strcmp_ptr (Some a) (Some b) = strcmp a b"
| "strcmp_ptr _ _ = 1"

subsection \<open>Operations\<close>

text \<open>
  \<open>DEFAULT_CAPACITY\<close> is 11 and \<open>DEFAULT_LOAD_FACTOR\<close> is \<open>0.75F\<close>; the product with the
  load factor, truncated, is \<open>3 * n div 4\<close> (exact while \<open>3 * n < 2 ^ 24\<close>, the precision of
  a \<open>float\<close>; no lemma rests on the value of the threshold).
\<close>

definition load_threshold :: "nat \<Rightarrow> nat" where
  "load_threshold n = 3 * n div 4"

definition hmap_new :: "unit \<Rightarrow> (string, 'v) hmap" where
  "hmap_new _ = \<lparr>buckets = replicate 11 [], buckets_length = 11, threshold = load_threshold 11,
     hmap_count = 0, hash_fn = strhash, compare_fn = strcmp_ptr\<rparr>"

definition hmap_hash :: "('k, 'v) hmap \<Rightarrow> 'k option \<Rightarrow> nat" where
  "hmap_hash m key =
     (case key of None \<Rightarrow> 0 | Some k \<Rightarrow> unat (hash_fn m k) mod buckets_length m)"

text \<open>The remainder is taken on the integer, so that it evaluates in few steps.\<close>

lemma hmap_hash_code [code]:
  "hmap_hash m key =
     (case key of None \<Rightarrow> 0
      | Some k \<Rightarrow> nat (uint (hash_fn m k) mod int (buckets_length m)))"
proof (cases key)
  case (Some k)
  have "unat (hash_fn m k) mod buckets_length m =
      nat (uint (hash_fn m k) mod int (buckets_length m))"
    by (metis nat_int uint_nat zmod_int)
  with Some show ?thesis by (simp add: hmap_hash_def)
qed (simp add: hmap_hash_def)

text \<open>The test the chain walks use: identity for NULL, the comparison function otherwise.\<close>

definition entry_matches :: "('k, 'v) hmap \<Rightarrow> 'k option \<Rightarrow> ('k, 'v) hmap_entry \<Rightarrow> bool" where
  "entry_matches m key e =
     (case key of None \<Rightarrow> entry_key e = None
      | Some k \<Rightarrow> compare_fn m (Some k) (entry_key e) = 0)"

fun chain_find :: "(('k, 'v) hmap_entry \<Rightarrow> bool) \<Rightarrow> ('k, 'v) hmap_entry list
    \<Rightarrow> ('k, 'v) hmap_entry option" where
  "chain_find P [] = None"
| "chain_find P (e # es) = (if P e then Some e else chain_find P es)"

fun chain_replace :: "(('k, 'v) hmap_entry \<Rightarrow> bool) \<Rightarrow> 'v \<Rightarrow> ('k, 'v) hmap_entry list
    \<Rightarrow> ('k, 'v) hmap_entry list" where
  "chain_replace P v [] = []"
| "chain_replace P v (e # es) =
     (if P e then e\<lparr>entry_value := v\<rparr> # es else e # chain_replace P v es)"

fun chain_remove :: "(('k, 'v) hmap_entry \<Rightarrow> bool) \<Rightarrow> ('k, 'v) hmap_entry list
    \<Rightarrow> ('k, 'v) hmap_entry list" where
  "chain_remove P [] = []"
| "chain_remove P (e # es) = (if P e then es else e # chain_remove P es)"

definition hmap_get_entry :: "('k, 'v) hmap \<Rightarrow> 'k option \<Rightarrow> ('k, 'v) hmap_entry option" where
  "hmap_get_entry m key = chain_find (entry_matches m key) (buckets m ! hmap_hash m key)"

definition hmap_get :: "('k, 'v) hmap \<Rightarrow> 'k option \<Rightarrow> 'v option" where
  "hmap_get m key = map_option entry_value (hmap_get_entry m key)"

definition hmap_contains_key :: "('k, 'v) hmap \<Rightarrow> 'k option \<Rightarrow> bool" where
  "hmap_contains_key m key \<longleftrightarrow> hmap_get_entry m key \<noteq> None"

text \<open>
  \<open>hmap_rehash\<close> doubles the array and moves every entry, bucket by bucket and in chain order, to
  the end of its new chain.
\<close>

definition rehash_entry :: "('k, 'v) hmap \<Rightarrow> ('k, 'v) hmap_entry \<Rightarrow> ('k, 'v) hmap" where
  "rehash_entry m e =
     (let index = hmap_hash m (entry_key e)
      in m\<lparr>buckets := (buckets m)[index := buckets m ! index @ [e]]\<rparr>)"

definition hmap_rehash :: "('k, 'v) hmap \<Rightarrow> ('k, 'v) hmap" where
  "hmap_rehash m =
     (let old_buckets = buckets m;
          len = buckets_length m * 2 + 1;
          m' = m\<lparr>buckets_length := len, threshold := load_threshold len,
                 buckets := replicate len []\<rparr>
      in foldl rehash_entry m' (concat old_buckets))"

text \<open>
  \<open>hmap_put\<close> returns the old value of the key, if it had one.  The size is counted up before the
  table is grown, and the new entry goes to the front of its chain.
\<close>

definition hmap_put :: "('k, 'v) hmap \<Rightarrow> 'k option \<Rightarrow> 'v \<Rightarrow> ('k, 'v) hmap \<times> 'v option" where
  "hmap_put m key v =
     (let index = hmap_hash m key; chain = buckets m ! index in
      case chain_find (entry_matches m key) chain of
        Some e \<Rightarrow>
          (m\<lparr>buckets := (buckets m)[index := chain_replace (entry_matches m key) v chain]\<rparr>,
           Some (entry_value e))
      | None \<Rightarrow>
          let m1 = m\<lparr>hmap_count := hmap_count m + 1\<rparr>;
              m2 = (if hmap_count m1 > threshold m1 then hmap_rehash m1 else m1);
              index = hmap_hash m2 key;
              entry = \<lparr>entry_key = key, entry_value = v\<rparr>
          in (m2\<lparr>buckets := (buckets m2)[index := entry # buckets m2 ! index]\<rparr>, None))"

definition hmap_remove :: "('k, 'v) hmap \<Rightarrow> 'k option \<Rightarrow> ('k, 'v) hmap \<times> 'v option" where
  "hmap_remove m key =
     (let index = hmap_hash m key; chain = buckets m ! index in
      case chain_find (entry_matches m key) chain of
        Some e \<Rightarrow>
          (m\<lparr>buckets := (buckets m)[index := chain_remove (entry_matches m key) chain],
             hmap_count := hmap_count m - 1\<rparr>,
           Some (entry_value e))
      | None \<Rightarrow> (m, None))"

definition hmap_clear :: "('k, 'v) hmap \<Rightarrow> ('k, 'v) hmap" where
  "hmap_clear m = m\<lparr>buckets := replicate (buckets_length m) [], hmap_count := 0\<rparr>"

definition hmap_size :: "('k, 'v) hmap \<Rightarrow> nat" where
  "hmap_size m = hmap_count m"

text \<open>The order in which \<open>hmap_foreach_value\<close> and \<open>hmap_foreach_key\<close> visit the entries.\<close>

definition hmap_foreach_value :: "('k, 'v) hmap \<Rightarrow> 'v list" where
  "hmap_foreach_value m = concat (map (map entry_value) (buckets m))"

definition hmap_foreach_key :: "('k, 'v) hmap \<Rightarrow> 'k option list" where
  "hmap_foreach_key m = concat (map (map entry_key) (buckets m))"

subsection \<open>Chains\<close>

lemma chain_find_None: "chain_find P es = None \<longleftrightarrow> (\<forall>e \<in> set es. \<not> P e)"
  by (induction es) auto

lemma chain_find_split:
  "chain_find P es = Some e \<Longrightarrow>
   \<exists>xs ys. es = xs @ e # ys \<and> P e \<and> (\<forall>x \<in> set xs. \<not> P x) \<and>
     chain_replace P v es = xs @ e\<lparr>entry_value := v\<rparr> # ys \<and> chain_remove P es = xs @ ys"
proof (induction es)
  case (Cons a es)
  show ?case
  proof (cases "P a")
    case True
    with Cons.prems show ?thesis by (intro exI [of _ "[]"] exI [of _ es]) simp
  next
    case False
    with Cons obtain xs ys where "es = xs @ e # ys" "P e" "\<forall>x \<in> set xs. \<not> P x"
      "chain_replace P v es = xs @ e\<lparr>entry_value := v\<rparr> # ys" "chain_remove P es = xs @ ys"
      by auto
    with False show ?thesis by (intro exI [of _ "a # xs"] exI [of _ ys]) simp
  qed
qed simp

lemma concat_bucket:
  "i < length bs \<Longrightarrow> concat bs = concat (take i bs) @ bs ! i @ concat (drop (Suc i) bs)"
  by (metis concat.simps(2) concat_append id_take_nth_drop)

lemma concat_bucket_update:
  "i < length bs \<Longrightarrow>
   concat (bs[i := c]) = concat (take i bs) @ c @ concat (drop (Suc i) bs)"
  by (simp add: upd_conv_take_nth_drop)

subsection \<open>The invariant and the map a table stands for\<close>

definition entry_pair :: "('k, 'v) hmap_entry \<Rightarrow> 'k option \<times> 'v" where
  "entry_pair e = (entry_key e, entry_value e)"

definition hmap_alist :: "('k, 'v) hmap \<Rightarrow> ('k option \<times> 'v) list" where
  "hmap_alist m = map entry_pair (concat (buckets m))"

definition hmap_lookup :: "('k, 'v) hmap \<Rightarrow> 'k \<rightharpoonup> 'v" where
  "hmap_lookup m k = map_of (hmap_alist m) (Some k)"

text \<open>Every entry has a key and sits in the bucket of its hash.\<close>

definition hmap_placed :: "('k, 'v) hmap \<Rightarrow> bool" where
  "hmap_placed m \<longleftrightarrow> 0 < buckets_length m \<and> length (buckets m) = buckets_length m \<and>
     (\<forall>i < length (buckets m). \<forall>e \<in> set (buckets m ! i).
        entry_key e \<noteq> None \<and> hmap_hash m (entry_key e) = i) \<and>
     (\<forall>a b. compare_fn m (Some a) (Some b) = 0 \<longleftrightarrow> a = b)"

definition hmap_ok :: "('k, 'v) hmap \<Rightarrow> bool" where
  "hmap_ok m \<longleftrightarrow> hmap_placed m \<and> distinct (map fst (hmap_alist m)) \<and>
     hmap_count m = length (hmap_alist m)"

lemma hmap_hash_update [simp]:
  "hmap_hash (m\<lparr>buckets := b\<rparr>) key = hmap_hash m key"
  "hmap_hash (m\<lparr>hmap_count := n\<rparr>) key = hmap_hash m key"
  by (cases key; simp add: hmap_hash_def)+

lemma entry_matches_update [simp]:
  "entry_matches (m\<lparr>buckets := b\<rparr>) key = entry_matches m key"
  "entry_matches (m\<lparr>hmap_count := n\<rparr>) key = entry_matches m key"
  by (simp_all add: entry_matches_def fun_eq_iff split: option.splits)

lemma hmap_hash_less: "hmap_placed m \<Longrightarrow> hmap_hash m key < length (buckets m)"
  by (auto simp: hmap_placed_def hmap_hash_def split: option.splits)

lemma hmap_placedD:
  "hmap_placed m \<Longrightarrow> i < length (buckets m) \<Longrightarrow> e \<in> set (buckets m ! i) \<Longrightarrow>
   \<exists>k. entry_key e = Some k \<and> hmap_hash m (Some k) = i"
  by (cases "entry_key e") (force simp: hmap_placed_def)+

lemma hmap_compare: "hmap_placed m \<Longrightarrow> compare_fn m (Some a) (Some b) = 0 \<longleftrightarrow> a = b"
  by (simp add: hmap_placed_def)

lemma placed_bucket:
  assumes "hmap_placed m" "e \<in> set (concat (buckets m))"
  shows "e \<in> set (buckets m ! hmap_hash m (entry_key e))"
proof -
  from assms(2) obtain b where "b \<in> set (buckets m)" "e \<in> set b" by auto
  then obtain i where i: "i < length (buckets m)" "e \<in> set (buckets m ! i)"
    by (metis in_set_conv_nth)
  with hmap_placedD [OF assms(1) this] show ?thesis by auto
qed

lemma placed_matches:
  assumes "hmap_placed m" "i < length (buckets m)" "e \<in> set (buckets m ! i)"
  shows "entry_matches m (Some k) e \<longleftrightarrow> entry_key e = Some k"
  using hmap_placedD [OF assms] hmap_compare [OF assms(1)] by (auto simp: entry_matches_def)

lemma hmap_placed_update:
  assumes "hmap_placed m"
    and "\<And>e. e \<in> set c \<Longrightarrow> e \<in> set (buckets m ! i) \<or>
           (\<exists>k. entry_key e = Some k \<and> hmap_hash m (Some k) = i)"
  shows "hmap_placed (m\<lparr>buckets := (buckets m)[i := c]\<rparr>)"
proof -
  have "entry_key e \<noteq> None \<and> hmap_hash m (entry_key e) = j"
    if "j < length (buckets m)" "e \<in> set ((buckets m)[i := c] ! j)" for j e
    using that assms(2) [of e] hmap_placedD [OF assms(1) that(1), of e]
    by (cases "i = j") auto
  with assms(1) show ?thesis by (simp add: hmap_placed_def)
qed

lemma chain_find_placed:
  assumes "hmap_placed m"
  shows "chain_find (entry_matches m (Some k)) (buckets m ! hmap_hash m (Some k)) = None
           \<longleftrightarrow> Some k \<notin> fst ` set (hmap_alist m)"
proof -
  note less = hmap_hash_less [OF assms, of "Some k"]
  have "(\<forall>e \<in> set (buckets m ! hmap_hash m (Some k)). \<not> entry_matches m (Some k) e)
      \<longleftrightarrow> (\<forall>e \<in> set (concat (buckets m)). entry_key e \<noteq> Some k)"
    using placed_matches [OF assms less] placed_bucket [OF assms] less
    by (metis concat_bucket in_set_conv_decomp append_assoc set_append UnI1 UnI2)
  also have "\<dots> \<longleftrightarrow> Some k \<notin> fst ` set (hmap_alist m)"
    by (force simp: hmap_alist_def entry_pair_def)
  finally show ?thesis by (simp only: chain_find_None)
qed

lemma hmap_okD:
  assumes "hmap_ok m"
  shows "hmap_placed m" "distinct (map fst (hmap_alist m))" "hmap_count m = length (hmap_alist m)"
  using assms by (simp_all add: hmap_ok_def)

text \<open>The association list, cut at the bucket of a key.\<close>

lemma hmap_alist_bucket:
  assumes "hmap_placed m" and i: "i = hmap_hash m key"
  shows "hmap_alist m = map entry_pair (concat (take i (buckets m))) @
           map entry_pair (buckets m ! i) @ map entry_pair (concat (drop (Suc i) (buckets m)))"
    and "hmap_alist (m\<lparr>buckets := (buckets m)[i := c]\<rparr>) =
           map entry_pair (concat (take i (buckets m))) @
           map entry_pair c @ map entry_pair (concat (drop (Suc i) (buckets m)))"
  using hmap_hash_less [OF assms(1), of key]
  by (simp_all add: i hmap_alist_def concat_bucket [of "hmap_hash m key"] concat_bucket_update)

lemma alist_found:
  assumes "hmap_placed m" and i: "i = hmap_hash m (Some k)"
    and "chain_find (entry_matches m (Some k)) (buckets m ! i) = Some e"
  obtains xs ys where "hmap_alist m = xs @ (Some k, entry_value e) # ys"
    and "\<And>v. hmap_alist (m\<lparr>buckets := (buckets m)
            [i := chain_replace (entry_matches m (Some k)) v (buckets m ! i)]\<rparr>)
           = xs @ (Some k, v) # ys"
    and "hmap_alist (m\<lparr>buckets := (buckets m)
            [i := chain_remove (entry_matches m (Some k)) (buckets m ! i)]\<rparr>) = xs @ ys"
    and "\<And>v. set (chain_replace (entry_matches m (Some k)) v (buckets m ! i))
            \<subseteq> insert (e\<lparr>entry_value := v\<rparr>) (set (buckets m ! i))"
    and "set (chain_remove (entry_matches m (Some k)) (buckets m ! i)) \<subseteq> set (buckets m ! i)"
    and "entry_key e = Some k"
proof -
  let ?P = "entry_matches m (Some k)" and ?c = "buckets m ! i"
  from chain_find_split [OF assms(3)] obtain ps qs where sp: "?c = ps @ e # qs"
    and P: "?P e" "\<forall>x \<in> set ps. \<not> ?P x" by blast
  have repl: "chain_replace ?P v (ps @ e # qs) = ps @ e\<lparr>entry_value := v\<rparr> # qs"
    and rem: "chain_remove ?P (ps @ e # qs) = ps @ qs" for v
    using P by (induction ps) auto
  have key: "entry_key e = Some k"
    using placed_matches [OF assms(1) hmap_hash_less [OF assms(1)]] P(1) sp i
    by (metis in_set_conv_decomp)
  let ?l = "map entry_pair (concat (take i (buckets m)))"
    and ?r = "map entry_pair (concat (drop (Suc i) (buckets m)))"
  show thesis
    by (rule that [of "?l @ map entry_pair ps" "map entry_pair qs @ ?r"])
      (use key in \<open>auto simp: hmap_alist_bucket [OF assms(1) i] repl rem sp entry_pair_def\<close>)
qed

lemma hmap_get_lookup:
  assumes "hmap_ok m"
  shows "hmap_get m (Some k) = hmap_lookup m k"
proof (cases "chain_find (entry_matches m (Some k)) (buckets m ! hmap_hash m (Some k))")
  case None
  then have "Some k \<notin> fst ` set (hmap_alist m)"
    using chain_find_placed [OF hmap_okD(1) [OF assms]] by blast
  then have "map_of (hmap_alist m) (Some k) = None" by (simp add: map_of_eq_None_iff)
  with None show ?thesis
    unfolding hmap_get_def hmap_get_entry_def hmap_lookup_def by simp
next
  case (Some e)
  then obtain xs ys where al: "hmap_alist m = xs @ (Some k, entry_value e) # ys"
    using alist_found [OF hmap_okD(1) [OF assms] refl] by metis
  with hmap_okD(2) [OF assms] have "map_of (hmap_alist m) (Some k) = Some (entry_value e)"
    by (simp add: map_of_middle del: map_of_append)
  with Some show ?thesis by (simp add: hmap_get_def hmap_get_entry_def hmap_lookup_def)
qed

lemma hmap_contains_lookup:
  "hmap_ok m \<Longrightarrow> hmap_contains_key m (Some k) \<longleftrightarrow> hmap_lookup m k \<noteq> None"
  by (simp add: hmap_get_lookup [symmetric] hmap_contains_key_def hmap_get_def)

subsection \<open>Growing keeps the entries\<close>

lemma rehash_entry_placed:
  assumes "hmap_placed m" "entry_key e \<noteq> None"
  shows "hmap_placed (rehash_entry m e)"
    and "mset (concat (buckets (rehash_entry m e))) = add_mset e (mset (concat (buckets m)))"
proof -
  let ?i = "hmap_hash m (entry_key e)"
  show "hmap_placed (rehash_entry m e)"
    unfolding rehash_entry_def Let_def
    by (rule hmap_placed_update [OF assms(1)]) (use assms(2) in auto)
  show "mset (concat (buckets (rehash_entry m e))) = add_mset e (mset (concat (buckets m)))"
    using hmap_hash_less [OF assms(1), of "entry_key e"]
    by (simp add: rehash_entry_def Let_def concat_bucket [of ?i] concat_bucket_update)
qed

lemma rehash_entry_frame [simp]:
  "compare_fn (rehash_entry m e) = compare_fn m" "hash_fn (rehash_entry m e) = hash_fn m"
  "hmap_count (rehash_entry m e) = hmap_count m"
  by (simp_all add: rehash_entry_def Let_def)

lemma foldl_rehash:
  assumes "hmap_placed m" "\<forall>e \<in> set es. entry_key e \<noteq> None"
  shows "hmap_placed (foldl rehash_entry m es)"
    and "mset (concat (buckets (foldl rehash_entry m es))) = mset es + mset (concat (buckets m))"
    and "hmap_count (foldl rehash_entry m es) = hmap_count m"
  using assms by (induction es arbitrary: m) (simp_all add: rehash_entry_placed)

lemma hmap_rehash_placed:
  assumes "hmap_placed m"
  shows "hmap_placed (hmap_rehash m)"
    and "mset (hmap_alist (hmap_rehash m)) = mset (hmap_alist m)"
    and "hmap_count (hmap_rehash m) = hmap_count m"
proof -
  let ?n = "buckets_length m * 2 + 1"
  let ?m = "m\<lparr>buckets_length := ?n, threshold := load_threshold ?n, buckets := replicate ?n []\<rparr>"
  have placed: "hmap_placed ?m"
    using hmap_compare [OF assms] by (simp add: hmap_placed_def del: replicate_Suc)
  have keys: "\<forall>e \<in> set (concat (buckets m)). entry_key e \<noteq> None"
    using hmap_placedD [OF assms] by (auto simp: in_set_conv_nth) (metis nth_mem option.distinct(1))
  have empty: "concat (buckets ?m) = []" by (simp del: replicate_Suc)
  note fold = foldl_rehash [OF placed keys]
  show "hmap_placed (hmap_rehash m)" "hmap_count (hmap_rehash m) = hmap_count m"
    using fold(1,3) by (simp_all add: hmap_rehash_def Let_def)
  have "mset (concat (buckets (hmap_rehash m))) = mset (concat (buckets m))"
    using fold(2) empty unfolding hmap_rehash_def Let_def by (simp only: mset.simps(1) add_0_right)
  then show "mset (hmap_alist (hmap_rehash m)) = mset (hmap_alist m)"
    by (simp add: hmap_alist_def)
qed

lemma map_of_mset_eq:
  assumes "mset xs = mset ys" "distinct (map fst ys)"
  shows "map_of xs = map_of ys"
proof -
  have "distinct (map fst xs)"
    using assms by (metis mset_eq_imp_distinct_iff mset_map)
  with assms show ?thesis by (metis map_of_inject_set set_mset_mset)
qed

subsection \<open>The operations on the map\<close>

lemma hmap_remove_spec:
  assumes ok: "hmap_ok m"
  shows "hmap_ok (fst (hmap_remove m (Some k)))"
    and "hmap_lookup (fst (hmap_remove m (Some k))) = (hmap_lookup m)(k := None)"
    and "snd (hmap_remove m (Some k)) = hmap_lookup m k"
proof -
  note placed = hmap_okD(1) [OF ok]
  let ?i = "hmap_hash m (Some k)"
  let ?f = "chain_find (entry_matches m (Some k)) (buckets m ! ?i)"
  have ret: "snd (hmap_remove m (Some k)) = hmap_get m (Some k)"
    by (simp add: hmap_remove_def hmap_get_def hmap_get_entry_def Let_def split: option.split)
  then show "snd (hmap_remove m (Some k)) = hmap_lookup m k"
    by (simp add: hmap_get_lookup [OF ok])
  show "hmap_ok (fst (hmap_remove m (Some k)))"
    and "hmap_lookup (fst (hmap_remove m (Some k))) = (hmap_lookup m)(k := None)"
  proof (atomize (full), cases ?f)
    case None
    then have "hmap_lookup m k = None"
      by (simp add: hmap_get_lookup [OF ok, symmetric] hmap_get_def hmap_get_entry_def)
    with None ok show "hmap_ok (fst (hmap_remove m (Some k))) \<and>
        hmap_lookup (fst (hmap_remove m (Some k))) = (hmap_lookup m)(k := None)"
      by (auto simp: hmap_remove_def Let_def)
  next
    case (Some e)
    from alist_found [OF placed refl Some] obtain xs ys where
      al: "hmap_alist m = xs @ (Some k, entry_value e) # ys"
      and al': "hmap_alist (m\<lparr>buckets := (buckets m)
            [?i := chain_remove (entry_matches m (Some k)) (buckets m ! ?i)]\<rparr>) = xs @ ys"
      and sub: "set (chain_remove (entry_matches m (Some k)) (buckets m ! ?i))
            \<subseteq> set (buckets m ! ?i)" by metis
    let ?m = "m\<lparr>buckets := (buckets m)
            [?i := chain_remove (entry_matches m (Some k)) (buckets m ! ?i)]\<rparr>"
    have eq: "fst (hmap_remove m (Some k)) = ?m\<lparr>hmap_count := hmap_count m - 1\<rparr>"
      using Some by (simp add: hmap_remove_def Let_def)
    have "hmap_placed ?m"
      by (rule hmap_placed_update [OF placed]) (use sub in auto)
    then have "hmap_placed (fst (hmap_remove m (Some k)))"
      unfolding eq by (simp add: hmap_placed_def)
    moreover have al2: "hmap_alist (fst (hmap_remove m (Some k))) = xs @ ys"
      using al' unfolding eq by (simp add: hmap_alist_def)
    moreover have "hmap_count (fst (hmap_remove m (Some k))) = length (xs @ ys)"
      using hmap_okD(3) [OF ok] al by (simp add: eq)
    ultimately have "hmap_ok (fst (hmap_remove m (Some k)))"
      using hmap_okD(2) [OF ok] al by (simp add: hmap_ok_def)
    moreover have "hmap_lookup (fst (hmap_remove m (Some k))) = (hmap_lookup m)(k := None)"
    proof -
      have "Some k \<notin> fst ` set xs" "Some k \<notin> fst ` set ys"
        using hmap_okD(2) [OF ok] al by auto
      from map_of_middle_removed [OF this, of "entry_value e"] show ?thesis
        unfolding hmap_lookup_def al2 al by (simp add: fun_eq_iff)
    qed
    ultimately show "hmap_ok (fst (hmap_remove m (Some k))) \<and>
        hmap_lookup (fst (hmap_remove m (Some k))) = (hmap_lookup m)(k := None)" ..
  qed
qed

lemma hmap_put_found:
  assumes ok: "hmap_ok m"
    and found: "chain_find (entry_matches m (Some k)) (buckets m ! hmap_hash m (Some k)) = Some e"
  shows "hmap_ok (fst (hmap_put m (Some k) v)) \<and>
    hmap_lookup (fst (hmap_put m (Some k) v)) = (hmap_lookup m)(k \<mapsto> v)"
proof -
  note placed = hmap_okD(1) [OF ok]
  let ?i = "hmap_hash m (Some k)"
  let ?c = "chain_replace (entry_matches m (Some k)) v (buckets m ! ?i)"
  let ?m = "m\<lparr>buckets := (buckets m)[?i := ?c]\<rparr>"
  from alist_found [OF placed refl found] obtain xs ys where
    al: "hmap_alist m = xs @ (Some k, entry_value e) # ys"
    and al': "hmap_alist ?m = xs @ (Some k, v) # ys"
    and sub: "set ?c \<subseteq> insert (e\<lparr>entry_value := v\<rparr>) (set (buckets m ! ?i))"
    and key: "entry_key e = Some k" by metis
  have eq: "fst (hmap_put m (Some k) v) = ?m"
    using found by (simp add: hmap_put_def Let_def)
  have "hmap_placed ?m"
    by (rule hmap_placed_update [OF placed]) (use sub key in force)
  then have "hmap_ok ?m"
    using hmap_okD(2,3) [OF ok] al al' by (simp add: hmap_ok_def)
  moreover have "Some k \<notin> fst ` set xs"
    using hmap_okD(2) [OF ok] al by auto
  then have "hmap_lookup ?m = (hmap_lookup m)(k \<mapsto> v)"
    unfolding hmap_lookup_def al al' fun_eq_iff by (simp add: map_of_middle del: map_of_append)
  ultimately show ?thesis unfolding eq by blast
qed

lemma hmap_insert_front:
  assumes placed: "hmap_placed m" and dist: "distinct (map fst (hmap_alist m))"
    and new: "Some k \<notin> fst ` set (hmap_alist m)"
    and count: "hmap_count m = Suc (length (hmap_alist m))"
    and m': "m' = m\<lparr>buckets := (buckets m)[hmap_hash m (Some k) :=
        \<lparr>entry_key = Some k, entry_value = v\<rparr> # buckets m ! hmap_hash m (Some k)]\<rparr>"
  shows "hmap_ok m' \<and> hmap_lookup m' = (hmap_lookup m)(k \<mapsto> v)"
proof -
  note al = hmap_alist_bucket [OF placed refl, of "Some k"]
  obtain l r where al1: "hmap_alist m = l @ r" and al2: "hmap_alist m' = l @ (Some k, v) # r"
    using al(1) al(2) [of "_ # _"] unfolding m' by (simp add: entry_pair_def)
  have "hmap_placed m'"
    unfolding m' by (rule hmap_placed_update [OF placed]) auto
  moreover have "distinct (map fst (hmap_alist m'))" "hmap_count m' = length (hmap_alist m')"
    using dist new count unfolding al2 al1 by (auto simp: m')
  moreover have "hmap_lookup m' = (hmap_lookup m)(k \<mapsto> v)"
    using new unfolding al1 hmap_lookup_def al2 fun_eq_iff
    by (simp add: map_of_middle image_Un del: map_of_append)
  ultimately show ?thesis by (simp add: hmap_ok_def)
qed

lemma hmap_put_spec:
  assumes ok: "hmap_ok m"
  shows "hmap_ok (fst (hmap_put m (Some k) v))"
    and "hmap_lookup (fst (hmap_put m (Some k) v)) = (hmap_lookup m)(k \<mapsto> v)"
    and "snd (hmap_put m (Some k) v) = hmap_lookup m k"
proof -
  let ?f = "chain_find (entry_matches m (Some k)) (buckets m ! hmap_hash m (Some k))"
  have "snd (hmap_put m (Some k) v) = hmap_get m (Some k)"
    by (simp add: hmap_put_def hmap_get_def hmap_get_entry_def Let_def split: option.split)
  then show "snd (hmap_put m (Some k) v) = hmap_lookup m k"
    by (simp add: hmap_get_lookup [OF ok])
  have "hmap_ok (fst (hmap_put m (Some k) v)) \<and>
    hmap_lookup (fst (hmap_put m (Some k) v)) = (hmap_lookup m)(k \<mapsto> v)"
  proof (cases ?f)
    case None
    let ?m1 = "m\<lparr>hmap_count := hmap_count m + 1\<rparr>"
    define m2 where "m2 = (if hmap_count ?m1 > threshold ?m1 then hmap_rehash ?m1 else ?m1)"
    have p1: "hmap_placed ?m1" using hmap_okD(1) [OF ok] by (simp add: hmap_placed_def)
    have a1: "hmap_alist (m\<lparr>hmap_count := n\<rparr>) = hmap_alist m" for n
      by (simp add: hmap_alist_def)
    have p2: "hmap_placed m2" and a2: "mset (hmap_alist m2) = mset (hmap_alist m)"
      and c2: "hmap_count m2 = Suc (hmap_count m)"
      using p1 hmap_rehash_placed [OF p1] by (simp_all add: m2_def a1 split: if_splits)
    have dist: "distinct (map fst (hmap_alist m2))"
      using hmap_okD(2) [OF ok] a2 by (metis mset_eq_imp_distinct_iff mset_map)
    have look: "hmap_lookup m2 = hmap_lookup m"
      using map_of_mset_eq [OF a2 hmap_okD(2) [OF ok]] by (simp add: hmap_lookup_def fun_eq_iff)
    have "Some k \<notin> fst ` set (hmap_alist m)"
      using None chain_find_placed [OF hmap_okD(1) [OF ok]] by blast
    then have new: "Some k \<notin> fst ` set (hmap_alist m2)" by (metis a2 set_mset_mset)
    have count: "hmap_count m2 = Suc (length (hmap_alist m2))"
      using c2 hmap_okD(3) [OF ok] a2 by (metis size_mset)
    have put: "fst (hmap_put m (Some k) v) = m2\<lparr>buckets := (buckets m2)[hmap_hash m2 (Some k) :=
        \<lparr>entry_key = Some k, entry_value = v\<rparr> # buckets m2 ! hmap_hash m2 (Some k)]\<rparr>"
      using None by (simp add: hmap_put_def Let_def m2_def)
    from hmap_insert_front [OF p2 dist new count put] look show ?thesis by simp
  qed (rule hmap_put_found [OF ok])
  then show "hmap_ok (fst (hmap_put m (Some k) v))"
    and "hmap_lookup (fst (hmap_put m (Some k) v)) = (hmap_lookup m)(k \<mapsto> v)" by blast+
qed

lemma hmap_new_spec: "hmap_ok (hmap_new ())" "hmap_lookup (hmap_new ()) = Map.empty"
  by (auto simp: hmap_ok_def hmap_placed_def hmap_new_def hmap_alist_def hmap_lookup_def
      simp del: replicate_Suc)

lemma hmap_clear_spec:
  assumes "hmap_ok m"
  shows "hmap_ok (hmap_clear m)" "hmap_lookup (hmap_clear m) = Map.empty"
  using hmap_okD(1) [OF assms]
  by (auto simp: hmap_ok_def hmap_placed_def hmap_clear_def hmap_alist_def hmap_lookup_def
      simp del: replicate_Suc)

subsection \<open>The interface\<close>

text \<open>
  What the planner and the listing rely on: a finite map from names, whose \<open>put\<close> and
  \<open>remove\<close> return the value the key had.
\<close>

locale string_map =
  fixes empty :: 'm
    and put :: "'m \<Rightarrow> string \<Rightarrow> 'v \<Rightarrow> 'm \<times> 'v option"
    and get :: "'m \<Rightarrow> string \<Rightarrow> 'v option"
    and remove :: "'m \<Rightarrow> string \<Rightarrow> 'm \<times> 'v option"
    and contains :: "'m \<Rightarrow> string \<Rightarrow> bool"
    and size_of :: "'m \<Rightarrow> nat"
    and invar :: "'m \<Rightarrow> bool"
    and lookup :: "'m \<Rightarrow> string \<rightharpoonup> 'v"
  assumes empty_ok: "invar empty" "lookup empty = Map.empty"
    and put_ok: "invar m \<Longrightarrow> invar (fst (put m k v))"
    and put_lookup: "invar m \<Longrightarrow> lookup (fst (put m k v)) = (lookup m)(k \<mapsto> v)"
    and put_old: "invar m \<Longrightarrow> snd (put m k v) = lookup m k"
    and remove_ok: "invar m \<Longrightarrow> invar (fst (remove m k))"
    and remove_lookup: "invar m \<Longrightarrow> lookup (fst (remove m k)) = (lookup m)(k := None)"
    and remove_old: "invar m \<Longrightarrow> snd (remove m k) = lookup m k"
    and get_lookup: "invar m \<Longrightarrow> get m k = lookup m k"
    and contains_lookup: "invar m \<Longrightarrow> contains m k \<longleftrightarrow> lookup m k \<noteq> None"
    and size_lookup: "invar m \<Longrightarrow> size_of m = card (dom (lookup m))"
begin

lemma get_put:
  "invar m \<Longrightarrow> get (fst (put m k v)) j = (if j = k then Some v else get m j)"
  by (simp add: get_lookup put_ok put_lookup)

lemma get_remove:
  "invar m \<Longrightarrow> get (fst (remove m k)) j = (if j = k then None else get m j)"
  by (simp add: get_lookup remove_ok remove_lookup)

lemma put_fresh: "invar m \<Longrightarrow> snd (put m k v) = None \<longleftrightarrow> \<not> contains m k"
  by (simp add: put_old contains_lookup)

text \<open>The loop that enters a list of objects under a name each: later entries win.\<close>

lemma build_index:
  assumes "invar m"
  shows "invar (foldl (\<lambda>m a. fst (put m (key a) (val a))) m xs)"
    and "lookup (foldl (\<lambda>m a. fst (put m (key a) (val a))) m xs) =
           lookup m ++ map_of (rev (map (\<lambda>a. (key a, val a)) xs))"
  using assms by (induction xs arbitrary: m) (auto simp: put_ok put_lookup)

end

lemma hmap_size_lookup: "hmap_ok m \<Longrightarrow> hmap_size m = card (dom (hmap_lookup m))"
proof -
  assume ok: "hmap_ok m"
  have some: "\<forall>x \<in> set (hmap_alist m). fst x \<noteq> None"
    using hmap_placedD [OF hmap_okD(1) [OF ok]]
    by (force simp: hmap_alist_def entry_pair_def in_set_conv_nth)
  have "fst ` set (hmap_alist m) = Some ` dom (hmap_lookup m)"
    using some by (force simp: hmap_lookup_def dom_map_of_conv_image_fst map_of_eq_None_iff
        domIff image_iff dest: not_None_eq [THEN iffD1] map_of_SomeD)
  then have "card (dom (hmap_lookup m)) = card (fst ` set (hmap_alist m))"
    by (simp add: card_image)
  also have "\<dots> = length (hmap_alist m)"
    using hmap_okD(2) [OF ok] by (metis distinct_card length_map set_map)
  finally show ?thesis using hmap_okD(3) [OF ok] by (simp add: hmap_size_def)
qed

interpretation hm: string_map "hmap_new ()" "\<lambda>m k. hmap_put m (Some k)" "\<lambda>m k. hmap_get m (Some k)"
  "\<lambda>m k. hmap_remove m (Some k)" "\<lambda>m k. hmap_contains_key m (Some k)" hmap_size hmap_ok hmap_lookup
  by unfold_locales
    (simp_all add: hmap_new_spec hmap_put_spec hmap_remove_spec hmap_get_lookup
      hmap_contains_lookup hmap_size_lookup)

end
