(* ===== verification/Intutil.thy ===== *)
theory Intutil
  imports Prelude
begin

text \<open>
  Reading and printing integers of a fixed width, \<open>src/src/common/intutil.c\<close>.  The eight parsers
  are instances of two loops; the limits, the truncating divisions by ten and the narrowing of
  \<open>*instr - '0'\<close> to \<open>int8_t\<close> are those of the code.
\<close>

subsection \<open>The loops\<close>

text \<open>\<open>int8_t c = *instr - '0'\<close>\<close>

definition digit_diff :: "char \<Rightarrow> int" where
  "digit_diff ch = (let d = schar ch - 48 in if d < -128 then d + 256 else d)"

fun parse_unsigned :: "int \<Rightarrow> string \<Rightarrow> int \<Rightarrow> int option" where
  "parse_unsigned hi [] val = Some val"
| "parse_unsigned hi (ch # instr) val =
     (let c = digit_diff ch in
      if c < 0 \<or> c > 9 then None
      else if val > hi div 10 \<or> val = hi div 10 \<and> c > hi mod 10 then None
      else parse_unsigned hi instr (val * 10 + c))"

text \<open>\<open>lo / 10\<close> and \<open>lo % 10\<close> truncate towards zero: they are minus the division of \<open>- lo\<close>.\<close>

fun parse_negative :: "int \<Rightarrow> string \<Rightarrow> int \<Rightarrow> int option" where
  "parse_negative lo [] val = Some val"
| "parse_negative lo (ch # instr) val =
     (let c = digit_diff ch in
      if c < 0 \<or> c > 9 then None
      else if val < - (- lo div 10) \<or> val = - (- lo div 10) \<and> c > - lo mod 10 then None
      else parse_negative lo instr (val * 10 - c))"

definition parse_signed :: "int \<Rightarrow> int \<Rightarrow> string \<Rightarrow> int option" where
  "parse_signed lo hi instr =
     (case instr of
        [] \<Rightarrow> None
      | ch # rest \<Rightarrow>
          if ch = CHR ''-'' then if rest = [] then None else parse_negative lo rest 0
          else parse_unsigned hi instr 0)"

definition parse_int8 :: "string \<Rightarrow> 8 word option" where
  "parse_int8 instr = map_option word_of_int (parse_signed (-128) 127 instr)"

definition parse_int16 :: "string \<Rightarrow> 16 word option" where
  "parse_int16 instr = map_option word_of_int (parse_signed (-32768) 32767 instr)"

definition parse_int32 :: "string \<Rightarrow> 32 word option" where
  "parse_int32 instr = map_option word_of_int (parse_signed (-2147483648) 2147483647 instr)"

definition parse_int64 :: "string \<Rightarrow> 64 word option" where
  "parse_int64 instr =
     map_option word_of_int (parse_signed (-9223372036854775808) 9223372036854775807 instr)"

definition parse_uint8 :: "string \<Rightarrow> 8 word option" where
  "parse_uint8 instr = map_option word_of_int (parse_unsigned 255 instr 0)"

definition parse_uint16 :: "string \<Rightarrow> 16 word option" where
  "parse_uint16 instr = map_option word_of_int (parse_unsigned 65535 instr 0)"

definition parse_uint32 :: "string \<Rightarrow> 32 word option" where
  "parse_uint32 instr = map_option word_of_int (parse_unsigned 4294967295 instr 0)"

definition parse_uint64 :: "string \<Rightarrow> 64 word option" where
  "parse_uint64 instr = map_option word_of_int (parse_unsigned 18446744073709551615 instr 0)"

text \<open>\<open>sprintf\<close> with \<open>%u\<close> and \<open>%d\<close>.\<close>

definition uint_str :: "'a::len word \<Rightarrow> string" where
  "uint_str w = dec_of (unat w)"

definition int_str :: "'a::len word \<Rightarrow> string" where
  "int_str w = (let v = sint w in
     if v < 0 then CHR ''-'' # dec_of (nat (- v)) else dec_of (nat v))"

subsection \<open>Exact bounds\<close>

lemma digit_diff_range:
  "0 \<le> digit_diff ch \<and> digit_diff ch \<le> 9 \<longleftrightarrow> is_digit ch"
  "is_digit ch \<Longrightarrow> digit_diff ch = int (digit_val ch)"
proof -
  have "byte ch \<le> 255" using byte_less [of ch] by linarith
  then show "0 \<le> digit_diff ch \<and> digit_diff ch \<le> 9 \<longleftrightarrow> is_digit ch"
    "is_digit ch \<Longrightarrow> digit_diff ch = int (digit_val ch)"
    by (auto simp: digit_diff_def is_digit_def digit_val_def schar_def Let_def)
qed

definition val_from :: "nat \<Rightarrow> string \<Rightarrow> nat" where
  "val_from v s = foldl (\<lambda>v c. v * 10 + digit_val c) v s"

lemma val_from_simps [simp]:
  "val_from v [] = v" "val_from v (c # s) = val_from (v * 10 + digit_val c) s"
  by (simp_all add: val_from_def)

lemma val_from_0: "val_from 0 s = dec_val s"
  by (simp add: val_from_def dec_val_def)

lemma val_from_ge: "v \<le> val_from v s"
proof (induction s arbitrary: v)
  case (Cons c s)
  have "v \<le> v * 10 + digit_val c" by simp
  also have "\<dots> \<le> val_from (v * 10 + digit_val c) s" by (rule Cons.IH)
  finally show ?case by simp
qed simp

text \<open>The test before the multiplication is the test for an overflow after it.\<close>

lemma overflow_test:
  fixes val hi c :: int
  assumes "0 \<le> c" "c \<le> 9"
  shows "val > hi div 10 \<or> val = hi div 10 \<and> c > hi mod 10 \<longleftrightarrow> hi < val * 10 + c"
proof -
  define q r where "q = hi div 10" and "r = hi mod 10"
  have "hi = 10 * q + r" "0 \<le> r" "r < 10" by (simp_all add: q_def r_def)
  moreover have "hi div 10 = q" "hi mod 10 = r" by (simp_all add: q_def r_def)
  ultimately show ?thesis using assms by linarith
qed

lemma parse_unsigned_digit:
  assumes "is_digit ch"
  shows "parse_unsigned hi (ch # s) val =
    (if hi < val * 10 + int (digit_val ch) then None else parse_unsigned hi s (val * 10 + int (digit_val ch)))"
proof -
  have c: "0 \<le> digit_diff ch" "digit_diff ch \<le> 9" using digit_diff_range(1) [of ch] assms by auto
  then show ?thesis
    unfolding parse_unsigned.simps Let_def overflow_test [OF c, where val = val and hi = hi]
    by (simp add: digit_diff_range(2) [OF assms])
qed

lemma parse_unsigned_other: "\<not> is_digit ch \<Longrightarrow> parse_unsigned hi (ch # s) val = None"
  using digit_diff_range(1) [of ch] by (auto simp: Let_def)

lemma parse_negative_digit:
  assumes "is_digit ch"
  shows "parse_negative lo (ch # s) val =
    (if val * 10 - int (digit_val ch) < lo then None else parse_negative lo s (val * 10 - int (digit_val ch)))"
proof -
  have c: "0 \<le> digit_diff ch" "digit_diff ch \<le> 9" using digit_diff_range(1) [of ch] assms by auto
  have "val < - (- lo div 10) \<or> val = - (- lo div 10) \<and> digit_diff ch > - lo mod 10 \<longleftrightarrow>
      val * 10 - digit_diff ch < lo"
    using overflow_test [OF c, where val = "- val" and hi = "- lo"] by linarith
  then show ?thesis
    unfolding parse_negative.simps Let_def using c by (simp add: digit_diff_range(2) [OF assms])
qed

lemma parse_negative_other: "\<not> is_digit ch \<Longrightarrow> parse_negative lo (ch # s) val = None"
  using digit_diff_range(1) [of ch] by (auto simp: Let_def)

declare parse_unsigned.simps(2) [simp del] parse_negative.simps(2) [simp del]

lemma parse_unsigned_spec:
  "0 \<le> val \<Longrightarrow> val \<le> hi \<Longrightarrow> parse_unsigned hi s val =
     (if (\<forall>c \<in> set s. is_digit c) \<and> int (val_from (nat val) s) \<le> hi
      then Some (int (val_from (nat val) s)) else None)"
proof (induction s arbitrary: val)
  case (Cons ch s)
  show ?case
  proof (cases "is_digit ch")
    case True
    let ?v = "val * 10 + int (digit_val ch)"
    have nat: "nat ?v = nat val * 10 + digit_val ch"
      using Cons.prems by (simp add: nat_add_distrib nat_mult_distrib)
    show ?thesis
    proof (cases "?v \<le> hi")
      case le: True
      have "0 \<le> ?v" using Cons.prems by simp
      from Cons.IH [OF this le] show ?thesis using le True by (simp add: parse_unsigned_digit nat)
    next
      case False
      have "nat ?v \<le> val_from (nat ?v) s" by (rule val_from_ge)
      then have "\<not> int (val_from (nat ?v) s) \<le> hi" using False Cons.prems by linarith
      then show ?thesis using False True by (simp add: parse_unsigned_digit nat)
    qed
  qed (simp add: parse_unsigned_other)
qed simp

lemma parse_negative_spec:
  "parse_negative lo s val = map_option uminus (parse_unsigned (- lo) s (- val))"
proof (induction s arbitrary: val)
  case (Cons ch s)
  show ?case
  proof (cases "is_digit ch")
    case True
    have "- lo < - val * 10 + int (digit_val ch) \<longleftrightarrow> val * 10 - int (digit_val ch) < lo" by linarith
    moreover have "- val * 10 + int (digit_val ch) = - (val * 10 - int (digit_val ch))" by simp
    ultimately show ?thesis
      unfolding parse_unsigned_digit [OF True] parse_negative_digit [OF True]
      using Cons.IH [of "val * 10 - int (digit_val ch)"] by simp
  qed (simp add: parse_negative_other parse_unsigned_other)
qed simp

text \<open>The number a string denotes, with an optional minus sign.\<close>

definition decimal :: "string \<Rightarrow> int option" where
  "decimal s =
     (case s of [] \<Rightarrow> None
      | c # cs \<Rightarrow>
          if c = CHR ''-'' then
            if cs \<noteq> [] \<and> (\<forall>d \<in> set cs. is_digit d) then Some (- int (dec_val cs)) else None
          else if \<forall>d \<in> set s. is_digit d then Some (int (dec_val s)) else None)"

lemma parse_signed_exact:
  assumes "lo \<le> 0" "0 \<le> hi"
  shows "parse_signed lo hi s =
    (case decimal s of None \<Rightarrow> None | Some v \<Rightarrow> if lo \<le> v \<and> v \<le> hi then Some v else None)"
  using assms
proof (cases s)
  case (Cons c cs)
  then show ?thesis
    using assms parse_unsigned_spec [of 0 hi s] parse_unsigned_spec [of 0 "- lo" cs]
    by (cases "c = CHR ''-''")
      (simp_all add: parse_signed_def decimal_def parse_negative_spec val_from_0 del: val_from_simps)
qed (simp add: parse_signed_def decimal_def)

lemma parse_unsigned_exact:
  assumes "0 \<le> hi"
  shows "parse_unsigned hi s 0 =
    (if (\<forall>c \<in> set s. is_digit c) \<and> int (dec_val s) \<le> hi then Some (int (dec_val s)) else None)"
  using assms parse_unsigned_spec [of 0 hi s] by (simp add: val_from_0)

subsection \<open>Printing and reading back\<close>

lemma parse_uint_str:
  "parse_unsigned (2 ^ LENGTH('a) - 1) (uint_str (w :: 'a::len word)) 0 = Some (uint w)"
proof -
  have "int (unat w) \<le> 2 ^ LENGTH('a) - 1" using uint_lt2p [of w] by simp
  then show ?thesis
    using dec_of_digits [of "unat w"] parse_unsigned_exact [of "2 ^ LENGTH('a) - 1" "uint_str w"]
    by (simp add: uint_str_def)
qed

lemma decimal_int_str: "decimal (int_str w) = Some (sint w)"
proof -
  have head: "\<exists>c cs. dec_of n = c # cs \<and> c \<noteq> CHR ''-''" for n
  proof (cases "dec_of n")
    case (Cons c cs)
    then have "is_digit c" using dec_of_digits [of n] by auto
    moreover have "\<not> is_digit CHR ''-''" by code_simp
    ultimately show ?thesis using Cons by auto
  qed simp
  show ?thesis
  proof (cases "sint w < 0")
    case True
    then show ?thesis using dec_of_digits by (simp add: int_str_def decimal_def Let_def)
  next
    case False
    obtain c cs where "dec_of (nat (sint w)) = c # cs" "c \<noteq> CHR ''-''" using head by blast
    with False dec_of_digits [of "nat (sint w)"] dec_val_dec_of [of "nat (sint w)"] show ?thesis
      by (simp add: int_str_def decimal_def Let_def)
  qed
qed

lemma parse_int_str:
  "parse_signed (- (2 ^ (LENGTH('a) - 1))) (2 ^ (LENGTH('a) - 1) - 1) (int_str (w :: 'a::len word)) =
     Some (sint w)"
  using sint_greater_eq [of w] sint_lt [of w]
  by (simp add: parse_signed_exact decimal_int_str)

end
