(* ===== verification/Tab_Utils.thy ===== *)
theory Tab_Utils
  imports Prelude
begin

text \<open>
  Columns and tab characters, \<open>src/src/common/tab-utils.c\<close>.  Positions and tab sizes are natural
  numbers: the callers pass lengths and the parsed options, which are never negative.
\<close>

abbreviation TAB :: char where "TAB \<equiv> CHR 0x09"

definition next_tab :: "nat \<Rightarrow> nat \<Rightarrow> nat" where
  "next_tab col tabsize = (col div tabsize + 1) * tabsize"

lemma next_tab_greater: "0 < tabsize \<Longrightarrow> col < next_tab col tabsize"
  using dividend_less_div_times [of tabsize col] by (simp add: next_tab_def)

function tab_to_tabs :: "nat \<Rightarrow> nat \<Rightarrow> nat \<Rightarrow> string \<times> nat" where
  "tab_to_tabs col to_col tabsize =
     (if 0 < tabsize \<and> next_tab col tabsize \<le> to_col
      then (case tab_to_tabs (next_tab col tabsize) to_col tabsize of (s, c) \<Rightarrow> (TAB # s, c))
      else ([], col))"
  by pat_completeness auto
termination
  by (relation "measure (\<lambda>(col, to_col, tabsize). to_col - col)")
    (auto dest: next_tab_greater intro: diff_less_mono2 less_le_trans)

declare tab_to_tabs.simps [simp del]

definition tab_to :: "nat \<Rightarrow> nat \<Rightarrow> nat \<Rightarrow> string" where
  "tab_to col to_col tabsize =
     (case (if tabsize \<noteq> 0 then tab_to_tabs col to_col tabsize else ([], col)) of
        (s, c) \<Rightarrow> s @ replicate (to_col - c) CHR '' '')"

fun tab_len_loop :: "string \<Rightarrow> nat \<Rightarrow> nat \<Rightarrow> nat" where
  "tab_len_loop [] len tabsize = len"
| "tab_len_loop (c # s) len tabsize =
     (if c = TAB then tab_len_loop s ((len div tabsize + 1) * tabsize) tabsize
      else tab_len_loop s (len + 1) tabsize)"

definition tab_len :: "string \<Rightarrow> nat \<Rightarrow> nat" where
  "tab_len s tabsize = (if tabsize = 0 then length s else tab_len_loop s 0 tabsize)"

text \<open>The loop of \<open>tab_index\<close>: the column and the index when it stops.\<close>

fun tab_index_loop :: "string \<Rightarrow> nat \<Rightarrow> nat \<Rightarrow> nat \<Rightarrow> nat \<Rightarrow> nat \<times> nat" where
  "tab_index_loop [] pos tabsize c p = (c, p)"
| "tab_index_loop (ch # s) pos tabsize c p =
     (if c < pos
      then tab_index_loop s pos tabsize (if ch = TAB then (c div tabsize + 1) * tabsize else c + 1) (p + 1)
      else (c, p))"

definition tab_index :: "string \<Rightarrow> nat \<Rightarrow> nat \<Rightarrow> nat" where
  "tab_index s pos tabsize =
     (if tabsize = 0 then pos
      else case tab_index_loop s pos tabsize 0 0 of (c, p) \<Rightarrow> if c > pos then p - 1 else p)"

definition tab_char_at :: "string \<Rightarrow> nat \<Rightarrow> nat \<Rightarrow> char option" where
  "tab_char_at s pos tabsize =
     (let i = tab_index s pos tabsize in
      if i < length s then Some (s ! i) else if i = length s then Some NUL else None)"

subsection \<open>Lemmas\<close>

lemma tab_len_loop_append:
  "tab_len_loop (s @ t) len ts = tab_len_loop t (tab_len_loop s len ts) ts"
  by (induction s arbitrary: len) auto

lemma tab_len_loop_spaces: "tab_len_loop (replicate n CHR '' '') len ts = len + n"
  by (induction n arbitrary: len) auto

lemma tab_len_loop_plain: "TAB \<notin> set s \<Longrightarrow> tab_len_loop s len ts = len + length s"
  by (induction s arbitrary: len) auto

lemma tab_to_tabs_spec:
  "col \<le> to_col \<Longrightarrow>
   tab_len_loop (fst (tab_to_tabs col to_col ts)) col ts = snd (tab_to_tabs col to_col ts) \<and>
   snd (tab_to_tabs col to_col ts) \<le> to_col \<and> set (fst (tab_to_tabs col to_col ts)) \<subseteq> {TAB}"
proof (induction col to_col ts rule: tab_to_tabs.induct)
  case (1 col to_col ts)
  show ?case
  proof (cases "0 < ts \<and> next_tab col ts \<le> to_col")
    case True
    with 1 show ?thesis
      by (subst (1 2 3 4) tab_to_tabs.simps) (auto simp: next_tab_def split: prod.splits)
  next
    case False
    with 1 show ?thesis by (subst (1 2 3 4) tab_to_tabs.simps) auto
  qed
qed

lemma tab_to_reaches:
  "0 < ts \<Longrightarrow> col \<le> to_col \<Longrightarrow> tab_len_loop (tab_to col to_col ts) col ts = to_col"
  using tab_to_tabs_spec [of col to_col ts]
  by (auto simp: tab_to_def tab_len_loop_append tab_len_loop_spaces split: prod.splits)

lemma tab_to_blank: "col \<le> to_col \<Longrightarrow> set (tab_to col to_col ts) \<subseteq> {TAB, CHR '' ''}"
proof -
  assume "col \<le> to_col"
  obtain s c where sc: "tab_to_tabs col to_col ts = (s, c)" by (cases "tab_to_tabs col to_col ts")
  then have "set s \<subseteq> {TAB}" using tab_to_tabs_spec [OF \<open>col \<le> to_col\<close>, of ts] by simp
  then show ?thesis using sc by (cases "ts = 0") (auto simp: tab_to_def)
qed

lemma tab_to_0: "tab_to col to_col 0 = replicate (to_col - col) CHR '' ''"
  by (simp add: tab_to_def)

lemma tab_len_loop_mono: "0 < ts \<Longrightarrow> len + length s \<le> tab_len_loop s len ts"
proof (induction s arbitrary: len)
  case (Cons c s)
  have "len + 1 \<le> next_tab len ts" using next_tab_greater [OF Cons.prems, of len] by simp
  then show ?case
    using Cons.IH [OF Cons.prems, of "next_tab len ts"] Cons.IH [OF Cons.prems, of "len + 1"]
    by (auto simp: next_tab_def)
qed simp

text \<open>The loop goes over a prefix that ends at, or before, the column it looks for.\<close>

lemma tab_index_loop_prefix:
  "0 < ts \<Longrightarrow> tab_len_loop s c ts \<le> pos \<Longrightarrow>
   tab_index_loop (s @ t) pos ts c p = tab_index_loop t pos ts (tab_len_loop s c ts) (p + length s)"
proof (induction s arbitrary: c p)
  case (Cons ch s)
  have "c < tab_len_loop (ch # s) c ts"
    using tab_len_loop_mono [OF Cons.prems(1), of c "ch # s"] by simp
  with Cons show ?case by auto
qed simp

lemma tab_index_exact:
  assumes "0 < ts" "tab_len s ts = pos"
  shows "tab_index (s @ t) pos ts = length s"
proof -
  have len: "tab_len_loop s 0 ts = pos" using assms by (simp add: tab_len_def)
  have "tab_index_loop (s @ t) pos ts 0 0 = tab_index_loop t pos ts pos (length s)"
    using tab_index_loop_prefix [OF assms(1), of s 0 pos t 0] len by simp
  also have "\<dots> = (pos, length s)" by (cases t) simp_all
  finally show ?thesis using assms(1) by (simp add: tab_index_def)
qed

text \<open>A column inside a tab, or behind a character, belongs to that character.\<close>

lemma tab_index_covers:
  assumes "0 < ts" "tab_len s ts \<le> pos" "pos < tab_len (s @ [ch]) ts"
  shows "tab_index (s @ ch # t) pos ts = length s"
proof -
  let ?c = "tab_len_loop s 0 ts" and ?d = "tab_len_loop (s @ [ch]) 0 ts"
  have c: "?c \<le> pos" "pos < ?d" using assms by (simp_all add: tab_len_def)
  have "tab_index_loop (s @ ch # t) pos ts 0 0 = tab_index_loop (ch # t) pos ts ?c (length s)"
    using tab_index_loop_prefix [OF assms(1) c(1), of "ch # t" 0] by simp
  also have "\<dots> = (if ?c < pos then (?d, Suc (length s)) else (?c, length s))"
    using c(2) by (cases t) (auto simp: tab_len_loop_append)
  finally show ?thesis using assms(1) c by (auto simp: tab_index_def)
qed

end
