(* ===== verification/Io_Utils.thy ===== *)
theory Io_Utils
  imports Prelude
begin

text \<open>
  Streams as \<open>src/src/common/io-utils.c\<close> uses them.  An input stream is the text still to come,
  with a flag that says whether reading past it is an error or the end of the file.  An output
  stream is what it has taken so far and the room left in it.
\<close>

abbreviation NL :: char where "NL \<equiv> CHR 0x0A"

record instream =
  in_text :: string
  in_error :: bool

text \<open>The C string in a block of bytes ends at the first NUL.\<close>

definition c_string :: "string \<Rightarrow> string" where
  "c_string s = takeWhile (\<lambda>c. c \<noteq> NUL) s"

text \<open>\<open>getline\<close>: the line with its newline, if it has one, and the text after it.\<close>

fun split_line :: "string \<Rightarrow> string \<times> string" where
  "split_line [] = ([], [])"
| "split_line (c # s) =
     (if c = NL then ([NL], s) else case split_line s of (l, r) \<Rightarrow> (c # l, r))"

definition read_line :: "instream \<Rightarrow> string option \<times> instream" where
  "read_line ins =
     (if in_text ins = [] then (None, ins)
      else case split_line (in_text ins) of
        (l, r) \<Rightarrow> (Some (c_string l), ins\<lparr>in_text := r\<rparr>))"

text \<open>\<open>ferror\<close> after \<open>read_line\<close> returned NULL.\<close>

definition ferror :: "instream \<Rightarrow> bool" where
  "ferror ins \<longleftrightarrow> in_error ins"

text \<open>\<open>uint32_t bytes\<close> counts down; \<open>fgetc\<close> is EOF when the text is used up.\<close>

fun fskip_loop :: "nat \<Rightarrow> instream \<Rightarrow> int \<times> instream" where
  "fskip_loop 0 ins = (0, ins)"
| "fskip_loop (Suc n) ins =
     (case in_text ins of [] \<Rightarrow> (-1, ins) | c # s \<Rightarrow> fskip_loop n (ins\<lparr>in_text := s\<rparr>))"

definition fskip :: "instream \<Rightarrow> 32 word \<Rightarrow> int \<times> instream" where
  "fskip ins bytes = fskip_loop (unat bytes) ins"

record outstream =
  out_text :: string
  out_room :: nat

definition put_byte :: "char \<Rightarrow> outstream \<Rightarrow> outstream option" where
  "put_byte b out =
     (case out_room out of
        0 \<Rightarrow> None
      | Suc n \<Rightarrow> Some \<lparr>out_text = out_text out @ [b], out_room = n\<rparr>)"

fun fpad_loop :: "nat \<Rightarrow> char \<Rightarrow> outstream \<Rightarrow> int \<times> outstream" where
  "fpad_loop 0 b out = (0, out)"
| "fpad_loop (Suc n) b out =
     (case put_byte b out of None \<Rightarrow> (-1, out) | Some out' \<Rightarrow> fpad_loop n b out')"

definition fpad :: "outstream \<Rightarrow> char \<Rightarrow> 32 word \<Rightarrow> int \<times> outstream" where
  "fpad out b bytes = fpad_loop (unat bytes) b out"

text \<open>
  The template handed to \<open>mkstemp\<close>.  \<open>tmpdir_env\<close> is \<open>getenv("TMPDIR")\<close>, \<open>p_tmpdir\<close> the macro, and
  \<open>same_ids\<close> says that the program is neither set-user-id nor set-group-id.
\<close>

definition temporary_template :: "bool \<Rightarrow> string option \<Rightarrow> string option \<Rightarrow> string option \<Rightarrow> string" where
  "temporary_template same_ids tmpdir_env p_tmpdir base0 =
     (let base = (case base0 of None \<Rightarrow> ''file'' | Some b \<Rightarrow> b) in
      if base = [] \<or> hd base \<noteq> CHR ''/'' then
        let tmpdir = (if same_ids then tmpdir_env else None);
            tmpdir = (if tmpdir = None then p_tmpdir else tmpdir);
            tmpdir = (case tmpdir of None \<Rightarrow> ''/tmp'' | Some d \<Rightarrow> d)
        in tmpdir @ ''/'' @ base @ ''XXXXXX''
      else base @ ''XXXXXX'')"

subsection \<open>Lemmas\<close>

lemma c_string_id [simp]: "cstr s \<Longrightarrow> c_string s = s"
  by (induction s) (auto simp: c_string_def)

lemma split_line_NL: "NL \<notin> set l \<Longrightarrow> split_line (l @ NL # r) = (l @ [NL], r)"
  by (induction l) auto

lemma split_line_concat: "split_line s = (l, r) \<Longrightarrow> l @ r = s"
  by (induction s arbitrary: l r) (auto split: if_splits prod.splits)

text \<open>Reading a stream whose first line is known.\<close>

lemma read_line_line:
  assumes "in_text ins = l @ NL # r" "NL \<notin> set l" "cstr l"
  shows "read_line ins = (Some (l @ [NL]), ins\<lparr>in_text := r\<rparr>)"
  using assms split_line_NL [OF assms(2), of r] by (simp add: read_line_def)

lemma read_line_end: "in_text ins = [] \<Longrightarrow> read_line ins = (None, ins)"
  by (simp add: read_line_def)

lemma split_line_shorter: "split_line s = (l, r) \<Longrightarrow> s \<noteq> [] \<Longrightarrow> length r < length s"
proof (induction s arbitrary: l r)
  case (Cons c s)
  show ?case
  proof (cases "c = NL \<or> s = []")
    case False
    then obtain l' where "split_line s = (l', r)" using Cons.prems(1) by (auto split: prod.splits)
    from Cons.IH [OF this] False show ?thesis by simp
  qed (use Cons.prems(1) in \<open>auto split: if_splits\<close>)
qed simp

lemma read_line_shorter: "read_line ins = (Some l, ins') \<Longrightarrow> length (in_text ins') < length (in_text ins)"
  by (auto simp: read_line_def dest: split_line_shorter split: if_splits prod.splits)

lemma fskip_loop_spec:
  "fskip_loop n ins =
     (if n \<le> length (in_text ins) then (0, ins\<lparr>in_text := drop n (in_text ins)\<rparr>)
      else (-1, ins\<lparr>in_text := []\<rparr>))"
  by (induction n ins rule: fskip_loop.induct) (auto split: list.splits)

lemma fpad_loop_spec:
  "fpad_loop n b out =
     (if n \<le> out_room out
      then (0, \<lparr>out_text = out_text out @ replicate n b, out_room = out_room out - n\<rparr>)
      else (-1, \<lparr>out_text = out_text out @ replicate (out_room out) b, out_room = 0\<rparr>))"
proof (induction n arbitrary: out)
  case (Suc n)
  show ?case
    by (cases "out_room out") (simp_all add: put_byte_def Suc.IH)
qed simp

end
