(* ===== verification/Data_Properties.thy ===== *)
theory Data_Properties
  imports Quote Llist_Spec Hmap Intutil Tab_Utils Io_Utils
begin

text \<open>
  What the data structures and the text routines of \<open>src/src/common\<close> and \<open>src/src/quote.c\<close> promise
  their callers, on the C-level models.
\<close>

subsection \<open>The hash table\<close>



subsection \<open>Linked lists\<close>

text \<open>
  The doubly linked list of \<open>llist.c\<close> is a queue: elements added at the end of an empty list come
  out at the front in the order they went in, then NULL; no freed node is touched on the way.
\<close>

theorem llist_is_fifo:
  assumes "length ys < 2 ^ 32"
  shows "\<exists>s1 s2. lq.enq_all ys (llist_new, H) = Some s1 \<and>
    lq.deq_n (Suc (length ys)) s1 = Some (map Some ys @ [None], s2) \<and> queue_rep s2 []"
proof -
  have "queue_rep (llist_new, H) []" unfolding queue_rep_def by (rule exI [of _ "[]"]) simp
  then show ?thesis using assms by (rule lq.fifo)
qed

theorem llist_is_fifo_witness:
  "\<exists>s1 s2. lq.enq_all [1, 2, 3::nat] (llist_new, \<lparr>nodes = Map.empty, next_node = 0\<rparr>) = Some s1 \<and>
    lq.deq_n (Suc 3) s1 = Some ([Some 1, Some 2, Some 3, None], s2) \<and> queue_rep s2 []"
  using llist_is_fifo [of "[1, 2, 3::nat]" "\<lparr>nodes = Map.empty, next_node = 0\<rparr>"] by (simp add: numeral_3_eq_3)

text \<open>
  \<open>llist_remove\<close> takes out the first occurrence of the element and says whether there was one; the
  rest keeps its order, and no node of another list is written.
\<close>

theorem llist_remove_first_occurrence:
  assumes "llist_rep L H as xs"
  shows "\<exists>L' H' as'. llist_remove x L H = Some (x \<in> set xs, L', H') \<and>
    llist_rep L' H' as' (remove1 x xs) \<and> (\<forall>a. a \<notin> set as \<longrightarrow> nodes H' a = nodes H a)"
  using remove_rep [OF assms, of x] by (auto simp: only_changes_def)

theorem llist_remove_first_occurrence_witness:
  "\<exists>L' H' as'. llist_remove (5::nat) llist_new \<lparr>nodes = Map.empty, next_node = 0\<rparr> = Some (False, L', H') \<and>
    llist_rep L' H' as' []"
  using llist_remove_first_occurrence [OF llist_rep_new, of 5 "\<lparr>nodes = Map.empty, next_node = 0\<rparr>"] by auto

text \<open>
  Removing through an iterator takes out the element returned last and leaves the iterator where
  it is, so that a loop that removes as it goes sees every element once.
\<close>

theorem llist_iterator_removes_last:
  assumes "llist_rep L H (as @ b # bs) (xs @ y # ys)" "length as = length xs"
  shows "llist_iterator_next (head_ptr (b # bs) None) H = Some (y, head_ptr bs None) \<and>
    (\<exists>L' H'. llist_iterator_remove (head_ptr bs None) L H = Some (L', H') \<and>
       llist_rep L' H' (as @ bs) (xs @ ys))"
  using iterator_next_rep [OF assms] iterator_remove_rep [OF assms] by auto

theorem llist_iterator_removes_last_witness:
  "\<exists>L H L' H'. llist_rep L H [0] [True] \<and> llist_iterator_next (Some 0) H = Some (True, None) \<and>
    llist_iterator_remove None L H = Some (L', H') \<and> llist_rep L' H' [] []"
proof -
  let ?H = "\<lparr>nodes = Map.empty, next_node = 0\<rparr>"
  obtain L H where "llist_rep L H [0] [True]"
    using add_last_rep [OF llist_rep_new, where H = ?H and x = True] by auto
  then show ?thesis
    using llist_iterator_removes_last [of L H "[]" 0 "[]" "[]" True "[]"] by auto
qed

text \<open>
  \<open>llist_set\<close> sets nothing: it returns the element at the index and leaves the list as it was,
  because it stores the old data back.
\<close>

theorem llist_set_sets_nothing:
  assumes "llist_rep L H as xs" "i < 2 ^ 32"
  shows "llist_set L (of_nat i) x H = Some (if i < length xs then Some (xs ! i) else None, H)"
  using assms by (rule set_rep_same)

theorem llist_set_sets_nothing_witness:
  "llist_set llist_new (of_nat 3) True \<lparr>nodes = Map.empty, next_node = 0\<rparr> =
     Some (None, \<lparr>nodes = Map.empty, next_node = 0\<rparr>)"
  using llist_set_sets_nothing [OF llist_rep_new, of 3 True "\<lparr>nodes = Map.empty, next_node = 0\<rparr>"] by simp

subsection \<open>String buffers\<close>

text \<open>
  C32. Replacing a part of a string buffer, the one routine all the others of \<open>strbuf.c\<close> go through:
  within the range of \<open>int32_t\<close> it writes inside its block only and leaves the text in which the part
  between the two positions is replaced by \<open>k\<close> copies of the new bytes.
\<close>

theorem strbuf_replace_refines:
  assumes "sb_rep sb s" "p \<le> q" "q \<le> length s"
    and "swap_positions (normalize_strbuf_pos sb sp) (normalize_strbuf_pos sb ep) = (of_nat p, of_nat q)"
    and "length s + k * len + 1 < 2 ^ 31" "len \<le> length mem" "k < 2 ^ 31" "len < 2 ^ 31"
  shows "\<exists>sb'. strbuf_replace_data_n sb sp ep (of_nat k) mem (of_nat len) = Some sb' \<and>
    sb_rep sb' (take p s @ concat (replicate k (take len mem)) @ drop q s)"
  using assms by (rule replace_data_rep)

theorem strbuf_replace_refines_witness:
  "\<exists>sb'. strbuf_replace_data_n strbuf_new 0 0 (of_nat 1) ''ab'' (of_nat 2) = Some sb' \<and> sb_rep sb' ''ab''"
  using strbuf_replace_refines [OF strbuf_new_rep, of 0 0 0 0 1 2 "''ab''"] swap_positions_0 [of 0]
    normalize_strbuf_pos_rep [OF strbuf_new_rep, of 0] by simp

text \<open>
  Positions in a string buffer: one from 0 to the length is itself, and every other one, the
  negative ones that are meant to count from the end included, is the length; a position is never
  outside the text.
\<close>

theorem strbuf_position_is_clamped:
  assumes "sb_rep sb s"
  shows "normalize_strbuf_pos sb pos =
    (if 0 \<le> sint pos \<and> sint pos \<le> int (length s) then pos else of_nat (length s))"
proof (cases "0 \<le> sint pos \<and> sint pos \<le> int (length s)")
  case True
  then have "word_of_int (int (nat (sint pos))) = pos" by simp
  then have "(of_nat (nat (sint pos)) :: word32) = pos" by (simp only: of_int_of_nat_eq)
  then show ?thesis using normalize_strbuf_pos_rep [OF assms, of pos] True by (simp add: sb_pos_def)
next
  case False
  then have "sb_pos s pos = length s" unfolding sb_pos_def by (rule if_not_P)
  then show ?thesis using normalize_strbuf_pos_rep [OF assms, of pos] False by (simp only: if_False)
qed

theorem strbuf_position_is_clamped_witness:
  "normalize_strbuf_pos strbuf_new (-2) = 0"
  using strbuf_position_is_clamped [OF strbuf_new_rep, of "-2"] by simp

subsection \<open>Quoting\<close>

text \<open>
  C15. Every file name survives quoting: \<open>dequote_output_file\<close> reads what \<open>quote_output_file\<close> writes,
  both with their buffers, and gives the name back, whichever bytes it has and whichever of them the
  locale can print; the quoted text holds printable bytes only.
\<close>

theorem quoting_round_trip:
  assumes "cstr t" "8 * length t + 1 < 2 ^ 31"
  shows "\<exists>q. quote_output_file isprint t = Some q \<and> dequote_output_file q = Some (Some t) \<and>
    (\<forall>c \<in> set q. isprint c \<or> c = BS \<or> c \<in> set c_abbrevs \<or> 48 \<le> byte c \<and> byte c \<le> 55)"
proof -
  let ?q = "quote_text isprint t"
  have "length ?q \<le> 4 * length t"
    using quote_char_length by (induction t) (simp_all add: quote_text_def add_mono)
  then have "dequote_output_file ?q = Some (Some t)"
    using assms dequote_output_file_text [of ?q] dequote_quote [OF assms(1)] by simp
  then show ?thesis using quote_output_file_text [OF assms(1)] assms(2) quote_text_set by fastforce
qed

theorem quoting_round_trip_witness:
  "\<exists>q. quote_output_file (\<lambda>c. False) [CHR 0x0A, CHR 0xFF, CHR ''a''] = Some q \<and>
    dequote_output_file q = Some (Some [CHR 0x0A, CHR 0xFF, CHR ''a''])"
  using quoting_round_trip [of "[CHR 0x0A, CHR 0xFF, CHR ''a'']" "\<lambda>c. False"] by auto

subsection \<open>Numbers\<close>

text \<open>
  C33. \<open>parse_int32\<close> and \<open>parse_int64\<close> accept exactly the decimal numerals whose value fits the type,
  with no overflow on the way.
\<close>

theorem parse_int_exact:
  "parse_int32 s = (case decimal s of None \<Rightarrow> None
     | Some v \<Rightarrow> if - (2 ^ 31) \<le> v \<and> v < 2 ^ 31 then Some (word_of_int v) else None) \<and>
   parse_int64 s = (case decimal s of None \<Rightarrow> None
     | Some v \<Rightarrow> if - (2 ^ 63) \<le> v \<and> v < 2 ^ 63 then Some (word_of_int v) else None)"
  by (auto simp: parse_int32_def parse_int64_def parse_signed_exact split: option.splits)

text \<open>
  Printing a number and reading it back gives the number, for every width: \<open>parse_uint32\<close> after
  \<open>uint32_str\<close>, \<open>parse_int64\<close> after \<open>int64_str\<close>, and so on.
\<close>

theorem number_round_trip:
  "parse_uint8 (uint_str a) = Some a \<and> parse_uint16 (uint_str b) = Some b \<and>
   parse_uint32 (uint_str c) = Some c \<and> parse_uint64 (uint_str d) = Some d \<and>
   parse_int8 (int_str a) = Some a \<and> parse_int16 (int_str b) = Some b \<and>
   parse_int32 (int_str c) = Some c \<and> parse_int64 (int_str d) = Some d"
  using parse_uint_str [of a] parse_uint_str [of b] parse_uint_str [of c] parse_uint_str [of d]
    parse_int_str [of a] parse_int_str [of b] parse_int_str [of c] parse_int_str [of d]
  by (simp add: parse_uint8_def parse_uint16_def parse_uint32_def parse_uint64_def
      parse_int8_def parse_int16_def parse_int32_def parse_int64_def)

subsection \<open>Columns and words\<close>

text \<open>
  The blanks of \<open>tab_to\<close> lead from one column to the other exactly, whatever the tab size, and a
  tab size of 0 means spaces only.
\<close>

theorem tab_to_reaches_column:
  assumes "col \<le> to_col"
  shows "(0 < ts \<longrightarrow> tab_len_loop (tab_to col to_col ts) col ts = to_col) \<and>
    tab_to col to_col 0 = replicate (to_col - col) CHR '' '' \<and>
    set (tab_to col to_col ts) \<subseteq> {TAB, CHR '' ''}"
  using tab_to_reaches assms tab_to_0 tab_to_blank by blast

theorem tab_to_reaches_column_witness:
  "tab_len_loop (tab_to 3 20 8) 3 8 = 20"
  using tab_to_reaches_column [of 3 20 8] by simp

text \<open>
  \<open>word_get\<close> returns the word of that number, or NULL if there are not so many: the words being
  the maximal runs of characters that are no space.
\<close>

theorem word_get_is_nth_word:
  "word_get isspace str (int i) =
     (if i < length (words_of isspace str) then Some (words_of isspace str ! i) else None)"
  using word_get_words [of "int i" isspace str] by simp

end
