(* ===== verification/Suboptions.thy ===== *)
theory Suboptions
  imports String_Utils
begin

text \<open>
  What the edit formats share: the suboption syntax of \<open>getsubopt\<close>, the checks of the macros
  \<open>NO_ARGUMENT\<close> and \<open>REQUIRE_ARGUMENT\<close>, and the readline generators, which all have the same body.
\<close>

subsection \<open>Suboptions\<close>

text \<open>
  \<open>getsubopt\<close> of the C library: the text before the first comma, split at its first equals sign.
  The result is the index of the name in the table, the value, and the text after the comma.  For
  an unknown name the index is \<^const>\<open>None\<close> and the value is the whole suboption.
\<close>

definition before :: "char \<Rightarrow> string \<Rightarrow> string" where
  "before c s = takeWhile (\<lambda>x. x \<noteq> c) s"

definition behind :: "char \<Rightarrow> string \<Rightarrow> string option" where
  "behind c s = (case dropWhile (\<lambda>x. x \<noteq> c) s of [] \<Rightarrow> None | x # r \<Rightarrow> Some r)"

fun token_index :: "string list \<Rightarrow> string \<Rightarrow> nat option" where
  "token_index [] name = None"
| "token_index (t # ts) name = (if t = name then Some 0 else map_option Suc (token_index ts name))"

definition getsubopt :: "string \<Rightarrow> string list \<Rightarrow> nat option \<times> string option \<times> string" where
  "getsubopt options tokens =
     (let sub = before CHR '','' options;
          rest = (case behind CHR '','' options of None \<Rightarrow> [] | Some r \<Rightarrow> r)
      in case token_index tokens (before CHR ''='' sub) of
           None \<Rightarrow> (None, Some sub, rest)
         | Some c \<Rightarrow> (Some c, behind CHR ''='' sub, rest))"

lemma behind_length: "behind c s = Some r \<Longrightarrow> length r < length s"
proof -
  assume "behind c s = Some r"
  then obtain x where "dropWhile (\<lambda>x. x \<noteq> c) s = x # r" by (auto simp: behind_def split: list.splits)
  then have "Suc (length r) = length (dropWhile (\<lambda>x. x \<noteq> c) s)" by simp
  also have "\<dots> \<le> length s" by (rule length_dropWhile_le)
  finally show ?thesis by simp
qed

lemma getsubopt_shorter:
  "options \<noteq> [] \<Longrightarrow> length (snd (snd (getsubopt options tokens))) < length options"
  by (auto simp: getsubopt_def Let_def dest: behind_length split: option.splits)

lemma getsubopt_rest:
  "(c, v, rest) = getsubopt options tokens \<Longrightarrow> options \<noteq> [] \<Longrightarrow> length rest < length options"
  by (metis getsubopt_shorter snd_conv)

lemma before_append: "c \<notin> set s \<Longrightarrow> before c (s @ c # r) = s"
  by (induction s) (auto simp: before_def)

lemma before_id: "c \<notin> set s \<Longrightarrow> before c s = s"
  by (induction s) (auto simp: before_def)

lemma behind_append: "c \<notin> set s \<Longrightarrow> behind c (s @ c # r) = Some r"
  by (induction s) (auto simp: behind_def)

lemma behind_None: "c \<notin> set s \<Longrightarrow> behind c s = None"
  by (induction s) (auto simp: behind_def)

text \<open>What the parsers tell the user.\<close>

datatype option_notice =
    Unknown_Suboption string
  | Argument_Not_Taken string
  | Argument_Missing string
  | Invalid_Number string string
  | Help_Printed

subsection \<open>Generators\<close>

text \<open>
  The body of \<open>option_generator\<close>, \<open>edit_format_generator\<close> and their likes: the static counter
  \<open>c\<close> moves on until a name starts with the text.  \<open>state\<close> 0 resets the counter.
\<close>

function name_generator_loop :: "string list \<Rightarrow> string \<Rightarrow> nat \<Rightarrow> string option \<times> nat" where
  "name_generator_loop names str c =
     (if c < length names
      then let name = names ! c; c = c + 1 in
        if starts_with name str then (Some name, c) else name_generator_loop names str c
      else (None, c))"
  by pat_completeness auto
termination
  by (relation "measure (\<lambda>(names, str, c). length names - c)") auto

declare name_generator_loop.simps [simp del]

definition name_generator :: "string list \<Rightarrow> string \<Rightarrow> int \<Rightarrow> nat \<Rightarrow> string option \<times> nat" where
  "name_generator names str state c =
     name_generator_loop names str (if state = 0 then 0 else c)"

text \<open>How readline drives a generator: \<open>state\<close> is 0 at the first call only.\<close>

fun generator_calls :: "nat \<Rightarrow> string list \<Rightarrow> string \<Rightarrow> int \<Rightarrow> nat \<Rightarrow> string option list" where
  "generator_calls 0 names str state c = []"
| "generator_calls (Suc n) names str state c =
     (case name_generator names str state c of
        (r, c') \<Rightarrow> r # generator_calls n names str 1 c')"

lemma name_generator_loop_None:
  "filter (prefix str) (drop c names) = [] \<Longrightarrow> fst (name_generator_loop names str c) = None"
proof (induction names str c rule: name_generator_loop.induct)
  case (1 names str c)
  show ?case
  proof (cases "c < length names")
    case True
    then have "drop c names = names ! c # drop (Suc c) names" by (simp add: Cons_nth_drop_Suc)
    then show ?thesis
      using 1 True by (subst name_generator_loop.simps) (auto simp: cstring_simps Let_def split: if_splits)
  qed (simp add: name_generator_loop.simps)
qed

lemma name_generator_loop_Some:
  "filter (prefix str) (drop c names) = m # ms \<Longrightarrow>
   \<exists>c'. name_generator_loop names str c = (Some m, c') \<and> filter (prefix str) (drop c' names) = ms"
proof (induction names str c rule: name_generator_loop.induct)
  case (1 names str c)
  have c: "c < length names" using 1(2) by (rule contrapos_pp) simp
  then have "drop c names = names ! c # drop (Suc c) names" by (simp add: Cons_nth_drop_Suc)
  then show ?case
    using 1 c by (subst name_generator_loop.simps) (auto simp: cstring_simps Let_def split: if_splits)
qed

lemma generator_calls_from:
  "filter (prefix str) (drop c names) = ms \<Longrightarrow>
   generator_calls (Suc (length ms)) names str 1 c = map Some ms @ [None]"
proof (induction ms arbitrary: c)
  case Nil
  then show ?case
    using name_generator_loop_None [of str c names]
    by (cases "name_generator_loop names str c") (simp add: name_generator_def)
next
  case (Cons m ms)
  from name_generator_loop_Some [OF Cons.prems] obtain c' where
    "name_generator_loop names str c = (Some m, c')" "filter (prefix str) (drop c' names) = ms" by blast
  then show ?case using Cons.IH [of c'] by (simp add: name_generator_def del: generator_calls.simps)
      (simp add: name_generator_def)
qed

lemma generator_calls_all:
  "generator_calls (Suc (length (filter (prefix str) names))) names str 0 c =
   map Some (filter (prefix str) names) @ [None]"
proof -
  have "generator_calls (Suc n) names str 0 c = generator_calls (Suc n) names str 1 0" for n
    by (simp add: name_generator_def)
  then show ?thesis using generator_calls_from [of str 0 names] by simp
qed

end
