(* ===== verification/File_Spec.thy ===== *)
theory File_Spec
  imports Prelude
begin

text \<open>
  The objects the program passes around: \<open>FileSpec\<close>, its status and \<open>ApplyPlan\<close> of
  \<open>src/src/qcmd.h\<close>, and the allocation routines \<open>new_file_spec\<close> and
  \<open>free_file_spec\<close> of \<open>src/src/list.c\<close>.  A pointer to a \<open>FileSpec\<close> is an address of a
  heap; NULL is \<^const>\<open>None\<close>.  Reading or writing an address that is not allocated has no
  result, so every function that follows such a pointer returns an option.  Addresses are
  never handed out twice.
\<close>

datatype file_spec_status =
    STATUS_UNCHECKED
  | STATUS_OLD_MISSING
  | STATUS_DUPLICATE
  | STATUS_NO_CHANGE
  | STATUS_NEW_EXISTS
  | STATUS_APPLY
  | STATUS_CIRCULAR

type_synonym addr = nat

record file_spec =
  old_name :: string
  new_name :: string
  prev_spec :: "addr option"
  next_spec :: "addr option"
  status :: file_spec_status

record spec_heap =
  cells :: "addr \<rightharpoonup> file_spec"
  next_addr :: addr

record apply_plan =
  plan_ok :: "addr list"
  plan_error :: "addr list"
  plan_no_change :: "addr list"

definition empty_heap :: spec_heap where
  "empty_heap = \<lparr>cells = Map.empty, next_addr = 0\<rparr>"

subsection \<open>Access to the heap\<close>

definition spec_at :: "spec_heap \<Rightarrow> addr \<Rightarrow> file_spec option" where
  "spec_at h a = cells h a"

definition modify_spec :: "addr \<Rightarrow> (file_spec \<Rightarrow> file_spec) \<Rightarrow> spec_heap \<Rightarrow> spec_heap option" where
  "modify_spec a f h =
     (case cells h a of None \<Rightarrow> None | Some s \<Rightarrow> Some (h\<lparr>cells := (cells h)(a \<mapsto> f s)\<rparr>))"

abbreviation set_status :: "addr \<Rightarrow> file_spec_status \<Rightarrow> spec_heap \<Rightarrow> spec_heap option" where
  "set_status a st \<equiv> modify_spec a (\<lambda>s. s\<lparr>status := st\<rparr>)"

abbreviation set_prev :: "addr \<Rightarrow> addr option \<Rightarrow> spec_heap \<Rightarrow> spec_heap option" where
  "set_prev a p \<equiv> modify_spec a (\<lambda>s. s\<lparr>prev_spec := p\<rparr>)"

abbreviation set_next :: "addr \<Rightarrow> addr option \<Rightarrow> spec_heap \<Rightarrow> spec_heap option" where
  "set_next a n \<equiv> modify_spec a (\<lambda>s. s\<lparr>next_spec := n\<rparr>)"

abbreviation set_new_name :: "addr \<Rightarrow> string \<Rightarrow> spec_heap \<Rightarrow> spec_heap option" where
  "set_new_name a n \<equiv> modify_spec a (\<lambda>s. s\<lparr>new_name := n\<rparr>)"

text \<open>
  \<open>new_file_spec\<close> leaves both names NULL; every caller assigns them before anything reads them,
  and the model uses the empty string for the unassigned name.
\<close>

definition new_file_spec :: "spec_heap \<Rightarrow> addr \<times> spec_heap" where
  "new_file_spec h =
     (next_addr h,
      \<lparr>cells = (cells h)(next_addr h \<mapsto> \<lparr>old_name = [], new_name = [],
         prev_spec = None, next_spec = None, status = STATUS_UNCHECKED\<rparr>),
       next_addr = Suc (next_addr h)\<rparr>)"

definition free_file_spec :: "addr \<Rightarrow> spec_heap \<Rightarrow> spec_heap option" where
  "free_file_spec a h = do {
     spec \<leftarrow> spec_at h a;
     h1 \<leftarrow> (case prev_spec spec of None \<Rightarrow> Some h | Some p \<Rightarrow> set_next p (next_spec spec) h);
     h2 \<leftarrow> (case next_spec spec of None \<Rightarrow> Some h1 | Some n \<Rightarrow> set_prev n (prev_spec spec) h1);
     Some (h2\<lparr>cells := (cells h2)(a := None)\<rparr>)
   }"

fun free_files :: "addr list \<Rightarrow> spec_heap \<Rightarrow> spec_heap option" where
  "free_files [] h = Some h"
| "free_files (a # as) h = do { h1 \<leftarrow> free_file_spec a h; free_files as h1 }"

definition new_plan :: apply_plan where
  "new_plan = \<lparr>plan_ok = [], plan_error = [], plan_no_change = []\<rparr>"

text \<open>\<open>llist_add\<close> appends, \<open>llist_add_first\<close> prepends.\<close>

definition add_ok :: "addr \<Rightarrow> apply_plan \<Rightarrow> apply_plan" where
  "add_ok a p = p\<lparr>plan_ok := plan_ok p @ [a]\<rparr>"

definition add_first_ok :: "addr \<Rightarrow> apply_plan \<Rightarrow> apply_plan" where
  "add_first_ok a p = p\<lparr>plan_ok := a # plan_ok p\<rparr>"

definition add_error :: "addr \<Rightarrow> apply_plan \<Rightarrow> apply_plan" where
  "add_error a p = p\<lparr>plan_error := plan_error p @ [a]\<rparr>"

definition add_no_change :: "addr \<Rightarrow> apply_plan \<Rightarrow> apply_plan" where
  "add_no_change a p = p\<lparr>plan_no_change := plan_no_change p @ [a]\<rparr>"

subsection \<open>Lemmas on the heap\<close>

definition heap_ok :: "spec_heap \<Rightarrow> bool" where
  "heap_ok h \<longleftrightarrow> (\<forall>a \<in> dom (cells h). a < next_addr h)"

lemma modify_spec_Some [simp, heap_simps]:
  "cells h a = Some s \<Longrightarrow> modify_spec a f h = Some (h\<lparr>cells := (cells h)(a \<mapsto> f s)\<rparr>)"
  by (simp add: modify_spec_def)

lemma modify_spec_None [simp, heap_simps]: "cells h a = None \<Longrightarrow> modify_spec a f h = None"
  by (simp add: modify_spec_def)

lemma modify_spec_SomeE:
  assumes "modify_spec a f h = Some h'"
  obtains s where "cells h a = Some s" "h' = h\<lparr>cells := (cells h)(a \<mapsto> f s)\<rparr>"
  using assms by (auto simp: modify_spec_def split: option.splits)

text \<open>The contents of a live cell, and updating one; the lemmas on the planner speak of these.\<close>

definition live :: "spec_heap \<Rightarrow> addr \<Rightarrow> bool" where
  "live h a \<longleftrightarrow> cells h a \<noteq> None"

definition the_spec :: "spec_heap \<Rightarrow> addr \<Rightarrow> file_spec" where
  "the_spec h a = the (cells h a)"

definition upd :: "addr \<Rightarrow> (file_spec \<Rightarrow> file_spec) \<Rightarrow> spec_heap \<Rightarrow> spec_heap" where
  "upd a f h = h\<lparr>cells := (cells h)(a \<mapsto> f (the_spec h a))\<rparr>"

lemma spec_at_live [simp, heap_simps]: "live h a \<Longrightarrow> spec_at h a = Some (the_spec h a)"
  by (auto simp: spec_at_def live_def the_spec_def)

lemma modify_spec_live [simp, heap_simps]: "live h a \<Longrightarrow> modify_spec a f h = Some (upd a f h)"
  by (auto simp: modify_spec_def live_def the_spec_def upd_def)

lemma the_spec_upd [simp, heap_simps]:
  "the_spec (upd a f h) b = (if b = a then f (the_spec h a) else the_spec h b)"
  by (simp add: upd_def the_spec_def)

lemma live_upd [simp, heap_simps]: "live (upd a f h) b \<longleftrightarrow> b = a \<or> live h b"
  by (simp add: upd_def live_def)

lemma next_addr_upd [simp, heap_simps]: "next_addr (upd a f h) = next_addr h"
  by (simp add: upd_def)

lemma new_file_spec_fst [simp]: "fst (new_file_spec h) = next_addr h"
  by (simp add: new_file_spec_def)

lemma new_file_spec_snd [simp, heap_simps]:
  "live (snd (new_file_spec h)) b \<longleftrightarrow> b = next_addr h \<or> live h b"
  "the_spec (snd (new_file_spec h)) b =
     (if b = next_addr h then \<lparr>old_name = [], new_name = [], prev_spec = None, next_spec = None,
        status = STATUS_UNCHECKED\<rparr> else the_spec h b)"
  "next_addr (snd (new_file_spec h)) = Suc (next_addr h)"
  by (simp_all add: new_file_spec_def live_def the_spec_def)

lemma heap_ok_live: "heap_ok h \<Longrightarrow> live h a \<Longrightarrow> a < next_addr h"
  by (auto simp: heap_ok_def live_def)

lemma heap_okI: "(\<And>a. live h a \<Longrightarrow> a < next_addr h) \<Longrightarrow> heap_ok h"
  by (auto simp: heap_ok_def live_def)

lemma heap_ok_upd: "heap_ok h \<Longrightarrow> live h a \<Longrightarrow> heap_ok (upd a f h)"
  by (auto simp: heap_ok_def upd_def live_def)

lemma heap_ok_update: "heap_ok h \<Longrightarrow> cells h a \<noteq> None \<Longrightarrow> heap_ok (h\<lparr>cells := (cells h)(a \<mapsto> s)\<rparr>)"
  by (auto simp: heap_ok_def)

lemma heap_ok_fresh: "heap_ok h \<Longrightarrow> cells h (next_addr h) = None"
  by (auto simp: heap_ok_def domIff)

lemma heap_ok_new: "heap_ok h \<Longrightarrow> heap_ok (snd (new_file_spec h))"
  by (auto simp: heap_ok_def new_file_spec_def less_Suc_eq)

lemma modify_spec_heap_ok: "modify_spec a f h = Some h' \<Longrightarrow> heap_ok h \<Longrightarrow> heap_ok h'"
  by (auto elim!: modify_spec_SomeE intro: heap_ok_update)

lemma free_file_spec_heap_ok:
  assumes "free_file_spec a h = Some h'" "heap_ok h"
  shows "heap_ok h'"
proof -
  obtain spec where spec: "spec_at h a = Some spec"
    using assms(1) by (cases "spec_at h a") (simp_all add: free_file_spec_def)
  let ?prev = "case prev_spec spec of None \<Rightarrow> Some h | Some p \<Rightarrow> set_next p (next_spec spec) h"
  obtain h1 where h1: "?prev = Some h1"
    using assms(1) spec by (cases ?prev) (simp_all add: free_file_spec_def)
  let ?next = "case next_spec spec of None \<Rightarrow> Some h1 | Some n \<Rightarrow> set_prev n (prev_spec spec) h1"
  obtain h2 where h2: "?next = Some h2"
    using assms(1) spec h1 by (cases ?next) (simp_all add: free_file_spec_def)
  have h': "h' = h2\<lparr>cells := (cells h2)(a := None)\<rparr>"
    using assms(1) spec h1 h2 by (simp add: free_file_spec_def)
  have "heap_ok h1" using h1 assms(2) by (auto split: option.splits dest: modify_spec_heap_ok)
  then have "heap_ok h2" using h2 by (auto split: option.splits dest: modify_spec_heap_ok)
  then show ?thesis unfolding h' by (simp add: heap_ok_def)
qed

lemma free_files_heap_ok: "free_files as h = Some h' \<Longrightarrow> heap_ok h \<Longrightarrow> heap_ok h'"
  by (induction as arbitrary: h) (auto elim!: bind_eq_SomeE dest: free_file_spec_heap_ok)

lemma plan_lists [simp]:
  "plan_ok (add_ok a p) = plan_ok p @ [a]" "plan_error (add_ok a p) = plan_error p"
  "plan_no_change (add_ok a p) = plan_no_change p"
  "plan_ok (add_first_ok a p) = a # plan_ok p" "plan_error (add_first_ok a p) = plan_error p"
  "plan_no_change (add_first_ok a p) = plan_no_change p"
  "plan_ok (add_error a p) = plan_ok p" "plan_error (add_error a p) = plan_error p @ [a]"
  "plan_no_change (add_error a p) = plan_no_change p"
  "plan_ok (add_no_change a p) = plan_ok p" "plan_error (add_no_change a p) = plan_error p"
  "plan_no_change (add_no_change a p) = plan_no_change p @ [a]"
  "plan_ok new_plan = []" "plan_error new_plan = []" "plan_no_change new_plan = []"
  by (simp_all add: add_ok_def add_first_ok_def add_error_def add_no_change_def new_plan_def)

end
