(* ===== verification/Edit_Common.thy ===== *)
theory Edit_Common
  imports Quote Suboptions Io_Utils File_Spec
begin

text \<open>
  What the three edit formats share: the warnings their readers print, the state of a reader, and
  the assignment of the names that were read.  A reader has no result where the code would follow
  a dangling pointer or the NULL of a name that does not dequote.
\<close>

datatype edit_warning =
    Cannot_Read
  | Premature_End
  | Expected_Empty_Line string
  | New_Name_Empty string
  | No_Indicator_First string
  | No_Indicator_Second string
  | Old_Name_Changed string
  | Destination_Missing string
  | Expected_Whitespace
  | Unrecognized_Character string
  | Expected_End string

record reader =
  rd_heap :: spec_heap
  rd_in :: instream
  rd_warnings :: "edit_warning list"

definition warn :: "edit_warning \<Rightarrow> reader \<Rightarrow> reader" where
  "warn w r = r\<lparr>rd_warnings := rd_warnings r @ [w]\<rparr>"

text \<open>\<open>if (ferror(in)) warn_errno(...); else warn("premature end ...")\<close>\<close>

definition warn_end :: "reader \<Rightarrow> reader" where
  "warn_end r = warn (if ferror (rd_in r) then Cannot_Read else Premature_End) r"

definition next_line :: "reader \<Rightarrow> string option \<times> reader" where
  "next_line r = (case read_line (rd_in r) of (l, ins) \<Rightarrow> (l, r\<lparr>rd_in := ins\<rparr>))"

definition assign_new_name :: "addr \<Rightarrow> string \<Rightarrow> reader \<Rightarrow> reader option" where
  "assign_new_name a name r =
     do { h \<leftarrow> set_new_name a name (rd_heap r); Some (r\<lparr>rd_heap := h\<rparr>) }"

text \<open>The dequoted text, which the code reads without testing for NULL.\<close>

definition dequoted :: "string \<Rightarrow> string option" where
  "dequoted str = do { r \<leftarrow> dequote_output_file str; r }"

subsection \<open>Lemmas\<close>

text \<open>
  Names the formats can carry: C strings short enough for the 32-bit buffers, not empty.
\<close>

definition name_ok :: "string \<Rightarrow> bool" where
  "name_ok s \<longleftrightarrow> cstr s \<and> s \<noteq> [] \<and> 4 * length s + 1 < 2 ^ 31"

lemma quote_text_length: "length (quote_text isprint t) \<le> 4 * length t"
proof (induction t)
  case (Cons c t)
  then show ?case using quote_char_length [of isprint c] by (simp add: quote_text_def)
qed simp

lemma quote_file_ok [simp]: "name_ok s \<Longrightarrow> quote_output_file isprint s = Some (quote_text isprint s)"
  by (simp add: name_ok_def quote_output_file_text)

lemma dequoted_quote [simp]: "name_ok s \<Longrightarrow> dequoted (quote_text isprint s) = Some s"
  using quote_text_length [of isprint s]
  by (simp add: name_ok_def dequoted_def dequote_output_file_text dequote_quote)

lemma control_not_quoted:
  "NL \<notin> set c_abbrevs \<and> \<not> (48 \<le> byte NL \<and> byte NL \<le> 55)"
  "CHR 0x09 \<notin> set c_abbrevs \<and> \<not> (48 \<le> byte CHR 0x09 \<and> byte CHR 0x09 \<le> 55)"
  by code_simp+

lemma quote_text_no_NL [simp]: "\<not> isprint NL \<Longrightarrow> NL \<notin> set (quote_text isprint t)"
  by (rule quote_text_plain) (use control_not_quoted in simp_all)

lemma quote_text_no_TAB: "\<not> isprint CHR 0x09 \<Longrightarrow> CHR 0x09 \<notin> set (quote_text isprint t)"
  by (rule quote_text_plain) (use control_not_quoted in simp_all)

declare quote_text_cstr [simp]

lemma quote_text_not_Nil [simp]: "name_ok s \<Longrightarrow> quote_text isprint s \<noteq> []"
  by (simp add: name_ok_def quote_text_eq_Nil)

lemma next_line_line:
  assumes "in_text (rd_in r) = l @ NL # rest" "NL \<notin> set l" "cstr l"
  shows "next_line r = (Some (l @ [NL]), r\<lparr>rd_in := (rd_in r)\<lparr>in_text := rest\<rparr>\<rparr>)"
  using read_line_line [OF assms] by (simp add: next_line_def)

lemma next_line_end: "in_text (rd_in r) = [] \<Longrightarrow> next_line r = (None, r)"
  by (simp add: next_line_def read_line_end)

lemma chomp_newline [simp]: "chomp [NL] = []"
  using chomp_snoc_newline [of "[]"] by simp

definition name_pairs :: "spec_heap \<Rightarrow> addr list \<Rightarrow> (string \<times> string) list" where
  "name_pairs h as = map (\<lambda>a. (old_name (the_spec h a), new_name (the_spec h a))) as"

text \<open>Assigning a list of names to a list of specs.\<close>

fun rename_all :: "addr list \<Rightarrow> string list \<Rightarrow> spec_heap \<Rightarrow> spec_heap" where
  "rename_all (a # as) (n # ns) h = rename_all as ns (upd a (\<lambda>s. s\<lparr>new_name := n\<rparr>) h)"
| "rename_all as ns h = h"

lemma assign_new_name_live [simp]:
  "live (rd_heap r) a \<Longrightarrow>
   assign_new_name a name r = Some (r\<lparr>rd_heap := upd a (\<lambda>s. s\<lparr>new_name := name\<rparr>) (rd_heap r)\<rparr>)"
  by (simp add: assign_new_name_def)

lemma old_name_upd_new [simp]:
  "old_name (the_spec (upd a (\<lambda>s. s\<lparr>new_name := n\<rparr>) h) b) = old_name (the_spec h b)"
  by simp

lemma rename_all_other: "a \<notin> set as \<Longrightarrow> the_spec (rename_all as ns h) a = the_spec h a"
  by (induction as ns h rule: rename_all.induct) auto

lemma rename_all_old_name: "old_name (the_spec (rename_all as ns h) a) = old_name (the_spec h a)"
  by (induction as ns h rule: rename_all.induct) auto

lemma rename_all_live: "\<forall>a \<in> set as. live h a \<Longrightarrow> live (rename_all as ns h) b = live h b"
  by (induction as ns h rule: rename_all.induct) auto

lemma rename_all_new_names:
  "distinct as \<Longrightarrow> length ns = length as \<Longrightarrow>
   map (\<lambda>a. new_name (the_spec (rename_all as ns h) a)) as = ns"
proof (induction as ns h rule: rename_all.induct)
  case (1 a as n ns h)
  then show ?case using rename_all_other [of a as ns] by simp
qed auto

lemma upd_same_name: "live h a \<Longrightarrow> upd a (\<lambda>s. s\<lparr>new_name := new_name (the_spec h a)\<rparr>) h = h"
  by (auto simp: upd_def the_spec_def live_def fun_upd_idem)

lemma rename_all_same:
  "\<forall>a \<in> set as. live h a \<Longrightarrow> rename_all as (map (\<lambda>a. new_name (the_spec h a)) as) h = h"
  by (induction as) (simp_all add: upd_same_name)

end
