(* ===== verification/Destination_Only.thy ===== *)
theory Destination_Only
  imports Edit_Common
begin

text \<open>
  The edit format that lists only the destination names, \<open>src/src/editformats/destination-only.c\<close>.
  Its static variable \<open>separate\<close> is an argument of the reader and the writer.
\<close>

record do_options =
  do_separate :: bool

definition do_option_array :: "string list" where
  "do_option_array = [''help'', ''separate'']"

definition do_reset_options :: do_options where
  "do_reset_options = \<lparr>do_separate = False\<rparr>"

subsection \<open>Options\<close>

function do_parse_loop :: "string \<Rightarrow> do_options \<Rightarrow> bool \<times> do_options \<times> option_notice list" where
  "do_parse_loop options opts =
     (if options = [] then (True, opts, [])
      else case getsubopt options do_option_array of
        (None, value, rest) \<Rightarrow>
          (False, do_reset_options, [Unknown_Suboption (case value of None \<Rightarrow> [] | Some v \<Rightarrow> v)])
      | (Some c, value, rest) \<Rightarrow>
          if c = 0 then (False, opts, [Help_Printed])
          else if c = 1 then
            if value \<noteq> None then (False, do_reset_options, [Argument_Not_Taken ''separate''])
            else do_parse_loop rest (opts\<lparr>do_separate := True\<rparr>)
          else do_parse_loop rest opts)"
  by pat_completeness auto
termination
  by (relation "measure (\<lambda>(options, opts). length options)") (auto dest!: getsubopt_rest)

declare do_parse_loop.simps [simp del]

definition do_parse_options :: "string \<Rightarrow> bool \<times> do_options \<times> option_notice list" where
  "do_parse_options options = do_parse_loop options do_reset_options"

definition do_option_generator :: "string \<Rightarrow> int \<Rightarrow> nat \<Rightarrow> string option \<times> nat" where
  "do_option_generator str state c = name_generator do_option_array str state c"

subsection \<open>Writing and reading\<close>

fun do_output :: "(char \<Rightarrow> bool) \<Rightarrow> do_options \<Rightarrow> spec_heap \<Rightarrow> addr list \<Rightarrow> string option" where
  "do_output isprint opts h [] = Some []"
| "do_output isprint opts h (a # as) =
     do { spec \<leftarrow> spec_at h a;
          file \<leftarrow> quote_output_file isprint (new_name spec);
          rest \<leftarrow> do_output isprint opts h as;
          Some (file @ [NL] @ (if do_separate opts \<and> as \<noteq> [] then [NL] else []) @ rest) }"

text \<open>One round of the loop: the result \<^const>\<open>False\<close> stops it.\<close>

definition do_read_separator :: "reader \<Rightarrow> bool \<times> reader" where
  "do_read_separator r =
     (case next_line r of
        (None, r) \<Rightarrow> (False, warn_end r)
      | (Some empty_line, r) \<Rightarrow>
          let empty_line = chomp empty_line in
          if empty_line \<noteq> [] then (False, warn (Expected_Empty_Line empty_line) r) else (True, r))"

fun do_input_loop :: "do_options \<Rightarrow> addr list \<Rightarrow> reader \<Rightarrow> (bool \<times> reader) option" where
  "do_input_loop opts [] r = Some (True, r)"
| "do_input_loop opts (a # as) r =
     (case next_line r of
        (None, r) \<Rightarrow> Some (False, warn_end r)
      | (Some file_new, r) \<Rightarrow>
          (case (if do_separate opts \<and> as \<noteq> [] then do_read_separator r else (True, r)) of
             (False, r) \<Rightarrow> Some (False, r)
           | (True, r) \<Rightarrow>
               do { file_new \<leftarrow> dequoted (chomp file_new);
                    r \<leftarrow> (if file_new = []
                          then do { spec \<leftarrow> spec_at (rd_heap r) a;
                                    Some (warn (New_Name_Empty (old_name spec)) r) }
                          else assign_new_name a file_new r);
                    do_input_loop opts as r }))"

definition do_input :: "do_options \<Rightarrow> spec_heap \<Rightarrow> instream \<Rightarrow> addr list \<Rightarrow> (bool \<times> reader) option" where
  "do_input opts h ins as = do_input_loop opts as \<lparr>rd_heap = h, rd_in = ins, rd_warnings = []\<rparr>"

subsection \<open>What the writer writes the reader reads\<close>

text \<open>The file for a list of names.\<close>

fun do_file :: "(char \<Rightarrow> bool) \<Rightarrow> bool \<Rightarrow> string list \<Rightarrow> string" where
  "do_file isprint sep [] = []"
| "do_file isprint sep (n # ns) =
     quote_text isprint n @ NL # (if sep \<and> ns \<noteq> [] then [NL] else []) @ do_file isprint sep ns"

lemma do_output_file:
  "\<forall>a \<in> set as. live h a \<and> name_ok (new_name (the_spec h a)) \<Longrightarrow>
   do_output isprint opts h as =
     Some (do_file isprint (do_separate opts) (map (\<lambda>a. new_name (the_spec h a)) as))"
  by (induction as) auto

lemma do_read_separator_empty:
  "in_text (rd_in r) = NL # rest \<Longrightarrow>
   do_read_separator r = (True, r\<lparr>rd_in := (rd_in r)\<lparr>in_text := rest\<rparr>\<rparr>)"
  using next_line_line [of r "[]" rest] by (simp add: do_read_separator_def)

lemma do_input_loop_file:
  assumes "\<not> isprint NL"
  shows "\<forall>a \<in> set as. live (rd_heap r) a \<Longrightarrow> \<forall>n \<in> set ns. name_ok n \<Longrightarrow> length ns = length as \<Longrightarrow>
   in_text (rd_in r) = do_file isprint (do_separate opts) ns \<Longrightarrow>
   do_input_loop opts as r = Some (True, r\<lparr>rd_heap := rename_all as ns (rd_heap r),
     rd_in := (rd_in r)\<lparr>in_text := []\<rparr>\<rparr>)"
proof (induction as arbitrary: ns r)
  case (Cons a as)
  then obtain n ns' where ns: "ns = n # ns'" by (cases ns) auto
  let ?sep = "do_separate opts \<and> as \<noteq> []"
  let ?rest = "do_file isprint (do_separate opts) ns'"
  let ?r1 = "r\<lparr>rd_in := (rd_in r)\<lparr>in_text := (if ?sep then [NL] else []) @ ?rest\<rparr>\<rparr>"
  let ?r2 = "r\<lparr>rd_in := (rd_in r)\<lparr>in_text := ?rest\<rparr>\<rparr>"
  have empty: "as \<noteq> [] \<longleftrightarrow> ns' \<noteq> []" using Cons.prems(3) ns by auto
  have line: "next_line r = (Some (quote_text isprint n @ [NL]), ?r1)"
    by (rule next_line_line) (use Cons.prems(4) ns empty assms in auto)
  have sep: "(if ?sep then do_read_separator ?r1 else (True, ?r1)) = (True, ?r2)"
    using do_read_separator_empty [of ?r1 ?rest] by (cases "do_separate opts"; cases "as = []") simp_all
  let ?r3 = "?r2\<lparr>rd_heap := upd a (\<lambda>s. s\<lparr>new_name := n\<rparr>) (rd_heap r)\<rparr>"
  have n: "name_ok n" "n \<noteq> []" using Cons.prems(2) ns by (auto simp: name_ok_def)
  have "do_input_loop opts (a # as) r = do_input_loop opts as ?r3"
    using line sep n Cons.prems(1) by simp
  also have "\<dots> = Some (True, ?r3\<lparr>rd_heap := rename_all as ns' (rd_heap ?r3),
      rd_in := (rd_in ?r3)\<lparr>in_text := []\<rparr>\<rparr>)"
    by (rule Cons.IH) (use Cons.prems ns in auto)
  finally show ?case by (simp add: ns)
qed simp

end
