(* ===== verification/Single_Column.thy ===== *)
theory Single_Column
  imports Edit_Common
begin

text \<open>
  The edit format that lists the old and the new name of each file on lines of their own,
  \<open>src/src/editformats/single-column.c\<close>.
\<close>

record sc_options =
  sc_swap :: bool
  sc_separate :: bool
  sc_indicator1 :: string
  sc_indicator2 :: string

definition sc_option_array :: "string list" where
  "sc_option_array = [''help'', ''swap'', ''separate'', ''indicator1'', ''indicator2'']"

definition sc_reset_options :: sc_options where
  "sc_reset_options =
     \<lparr>sc_swap = False, sc_separate = False, sc_indicator1 = [], sc_indicator2 = []\<rparr>"

subsection \<open>Options\<close>

text \<open>One suboption; \<open>Inl\<close> stops the parser with the notice it prints.\<close>

definition sc_option :: "nat \<Rightarrow> string option \<Rightarrow> sc_options \<Rightarrow> option_notice + sc_options" where
  "sc_option c value opts =
     (if c = 0 then Inl Help_Printed
      else if c = 1 then
        if value \<noteq> None then Inl (Argument_Not_Taken ''swap'') else Inr (opts\<lparr>sc_swap := True\<rparr>)
      else if c = 2 then
        if value \<noteq> None then Inl (Argument_Not_Taken ''separate'') else Inr (opts\<lparr>sc_separate := True\<rparr>)
      else if c = 3 then
        (case value of None \<Rightarrow> Inl (Argument_Missing ''indicator1'') | Some v \<Rightarrow> Inr (opts\<lparr>sc_indicator1 := v\<rparr>))
      else if c = 4 then
        (case value of None \<Rightarrow> Inl (Argument_Missing ''indicator2'') | Some v \<Rightarrow> Inr (opts\<lparr>sc_indicator2 := v\<rparr>))
      else Inr opts)"

function sc_parse_loop :: "string \<Rightarrow> sc_options \<Rightarrow> bool \<times> sc_options \<times> option_notice list" where
  "sc_parse_loop options opts =
     (if options = [] then (True, opts, [])
      else case getsubopt options sc_option_array of
        (None, value, rest) \<Rightarrow>
          (False, sc_reset_options, [Unknown_Suboption (case value of None \<Rightarrow> [] | Some v \<Rightarrow> v)])
      | (Some c, value, rest) \<Rightarrow>
          (case sc_option c value opts of
             Inl notice \<Rightarrow> (False, if notice = Help_Printed then opts else sc_reset_options, [notice])
           | Inr opts \<Rightarrow> sc_parse_loop rest opts))"
  by pat_completeness auto
termination
  by (relation "measure (\<lambda>(options, opts). length options)") (auto dest!: getsubopt_rest)

declare sc_parse_loop.simps [simp del]

definition sc_parse_options :: "string \<Rightarrow> bool \<times> sc_options \<times> option_notice list" where
  "sc_parse_options options = sc_parse_loop options sc_reset_options"

definition sc_option_generator :: "string \<Rightarrow> int \<Rightarrow> nat \<Rightarrow> string option \<times> nat" where
  "sc_option_generator str state c = name_generator sc_option_array str state c"

subsection \<open>Writing and reading\<close>

fun sc_output :: "(char \<Rightarrow> bool) \<Rightarrow> sc_options \<Rightarrow> spec_heap \<Rightarrow> addr list \<Rightarrow> string option" where
  "sc_output isprint opts h [] = Some []"
| "sc_output isprint opts h (a # as) =
     do { spec \<leftarrow> spec_at h a;
          file1 \<leftarrow> quote_output_file isprint (old_name spec);
          file2 \<leftarrow> quote_output_file isprint (new_name spec);
          rest \<leftarrow> sc_output isprint opts h as;
          Some (sc_indicator1 opts @ file1 @ [NL] @ sc_indicator2 opts @ file2 @ [NL] @
                (if sc_separate opts \<and> as \<noteq> [] then [NL] else []) @ rest) }"

text \<open>The second half of the loop body: the two lines have been read and chomped.\<close>

definition sc_process :: "sc_options \<Rightarrow> addr \<Rightarrow> string \<Rightarrow> string \<Rightarrow> reader \<Rightarrow> (bool \<times> reader) option" where
  "sc_process opts a file_old file_new r =
     do { spec \<leftarrow> spec_at (rd_heap r) a;
          if \<not> starts_with file_old (sc_indicator1 opts)
          then Some (False, warn (No_Indicator_First (old_name spec)) r)
          else do {
            file_old \<leftarrow> dequoted (drop (length (sc_indicator1 opts)) file_old);
            if \<not> starts_with file_new (sc_indicator2 opts)
            then Some (False, warn (No_Indicator_Second (old_name spec)) r)
            else do {
              file_new \<leftarrow> dequoted (drop (length (sc_indicator2 opts)) file_new);
              let (file_old, file_new) = (if sc_swap opts then (file_new, file_old) else (file_old, file_new));
              if strcmp file_old (old_name spec) \<noteq> 0
              then Some (True, warn (Old_Name_Changed (old_name spec)) r)
              else if file_new = []
              then Some (True, warn (New_Name_Empty (old_name spec)) r)
              else do { r \<leftarrow> assign_new_name a file_new r; Some (True, r) } } } }"

definition sc_read_separator :: "reader \<Rightarrow> bool \<times> reader" where
  "sc_read_separator r =
     (case next_line r of
        (None, r) \<Rightarrow> (False, warn_end r)
      | (Some empty_line, r) \<Rightarrow>
          let empty_line = chomp empty_line in
          if empty_line \<noteq> [] then (False, warn (Expected_Empty_Line empty_line) r) else (True, r))"

fun sc_input_loop :: "sc_options \<Rightarrow> addr list \<Rightarrow> reader \<Rightarrow> (bool \<times> reader) option" where
  "sc_input_loop opts [] r = Some (True, r)"
| "sc_input_loop opts (a # as) r =
     (case next_line r of (file_old, r) \<Rightarrow>
      case next_line r of (file_new, r) \<Rightarrow>
      case (file_old, file_new) of
        (Some file_old, Some file_new) \<Rightarrow>
          (case (if sc_separate opts \<and> as \<noteq> [] then sc_read_separator r else (True, r)) of
             (False, r) \<Rightarrow> Some (False, r)
           | (True, r) \<Rightarrow>
               do { (go, r) \<leftarrow> sc_process opts a (chomp file_old) (chomp file_new) r;
                    if go then sc_input_loop opts as r else Some (False, r) })
      | _ \<Rightarrow> Some (False, warn_end r))"

definition sc_input :: "sc_options \<Rightarrow> spec_heap \<Rightarrow> instream \<Rightarrow> addr list \<Rightarrow> (bool \<times> reader) option" where
  "sc_input opts h ins as = sc_input_loop opts as \<lparr>rd_heap = h, rd_in = ins, rd_warnings = []\<rparr>"

subsection \<open>What the writer writes the reader reads\<close>

text \<open>The file for a list of pairs of an old and a new name.\<close>

fun sc_file :: "(char \<Rightarrow> bool) \<Rightarrow> sc_options \<Rightarrow> (string \<times> string) list \<Rightarrow> string" where
  "sc_file isprint opts [] = []"
| "sc_file isprint opts ((old, new) # ns) =
     sc_indicator1 opts @ quote_text isprint old @ NL # sc_indicator2 opts @ quote_text isprint new @ NL #
     (if sc_separate opts \<and> ns \<noteq> [] then [NL] else []) @ sc_file isprint opts ns"

lemma sc_output_file:
  "\<forall>a \<in> set as. live h a \<and> name_ok (old_name (the_spec h a)) \<and> name_ok (new_name (the_spec h a)) \<Longrightarrow>
   sc_output isprint opts h as = Some (sc_file isprint opts (name_pairs h as))"
  by (induction as) (auto simp: name_pairs_def)

lemma sc_read_separator_empty:
  "in_text (rd_in r) = NL # rest \<Longrightarrow>
   sc_read_separator r = (True, r\<lparr>rd_in := (rd_in r)\<lparr>in_text := rest\<rparr>\<rparr>)"
  using next_line_line [of r "[]" rest] by (simp add: sc_read_separator_def)

definition indicator_ok :: "string \<Rightarrow> bool" where
  "indicator_ok s \<longleftrightarrow> cstr s \<and> NL \<notin> set s"

lemma starts_with_append [simp]: "starts_with (s @ t) s"
  by (simp add: starts_with_prefix)

lemma sc_process_file:
  assumes "live (rd_heap r) a" "name_ok old" "name_ok new" "old_name (the_spec (rd_heap r) a) = old"
    "\<not> sc_swap opts"
  shows "sc_process opts a (sc_indicator1 opts @ quote_text isprint old)
      (sc_indicator2 opts @ quote_text isprint new) r =
    Some (True, r\<lparr>rd_heap := upd a (\<lambda>s. s\<lparr>new_name := new\<rparr>) (rd_heap r)\<rparr>)"
  using assms by (simp add: sc_process_def name_ok_def)

lemma sc_input_loop_file:
  assumes "\<not> isprint NL" "indicator_ok (sc_indicator1 opts)" "indicator_ok (sc_indicator2 opts)" "\<not> sc_swap opts"
  shows "\<forall>a \<in> set as. live (rd_heap r) a \<Longrightarrow> \<forall>(old, new) \<in> set ns. name_ok old \<and> name_ok new \<Longrightarrow>
   map fst ns = map (\<lambda>a. old_name (the_spec (rd_heap r) a)) as \<Longrightarrow>
   in_text (rd_in r) = sc_file isprint opts ns \<Longrightarrow>
   sc_input_loop opts as r = Some (True, r\<lparr>rd_heap := rename_all as (map snd ns) (rd_heap r),
     rd_in := (rd_in r)\<lparr>in_text := []\<rparr>\<rparr>)"
proof (induction as arbitrary: ns r)
  case (Cons a as)
  then obtain old new ns' where ns: "ns = (old, new) # ns'" by (cases ns) auto
  let ?sep = "sc_separate opts \<and> as \<noteq> []"
  let ?rest = "sc_file isprint opts ns'"
  let ?l1 = "sc_indicator1 opts @ quote_text isprint old" and ?l2 = "sc_indicator2 opts @ quote_text isprint new"
  let ?at = "\<lambda>t. r\<lparr>rd_in := (rd_in r)\<lparr>in_text := t\<rparr>\<rparr>"
  let ?t1 = "(if ?sep then [NL] else []) @ ?rest"
  have empty: "as \<noteq> [] \<longleftrightarrow> ns' \<noteq> []" using Cons.prems(3) ns by auto
  have line1: "next_line r = (Some (?l1 @ [NL]), ?at (?l2 @ NL # ?t1))"
    by (rule next_line_line) (use Cons.prems(4) ns empty assms in \<open>auto simp: indicator_ok_def\<close>)
  have line2: "next_line (?at (?l2 @ NL # ?t1)) = (Some (?l2 @ [NL]), ?at ?t1)"
    using next_line_line [of "?at (?l2 @ NL # ?t1)" ?l2 ?t1] assms by (simp add: indicator_ok_def)
  have sep: "(if ?sep then sc_read_separator (?at ?t1) else (True, ?at ?t1)) = (True, ?at ?rest)"
    using sc_read_separator_empty [of "?at ?t1" ?rest] by (cases "sc_separate opts"; cases "as = []") simp_all
  let ?r3 = "(?at ?rest)\<lparr>rd_heap := upd a (\<lambda>s. s\<lparr>new_name := new\<rparr>) (rd_heap r)\<rparr>"
  have chomps: "chomp (?l1 @ [NL]) = ?l1" "chomp (?l2 @ [NL]) = ?l2" by (rule chomp_snoc_newline)+
  have proc: "sc_process opts a ?l1 ?l2 (?at ?rest) = Some (True, ?r3)"
  proof -
    have "live (rd_heap r) a" "name_ok old" "name_ok new" "old_name (the_spec (rd_heap r) a) = old"
      using Cons.prems(1-3) ns by simp_all
    then show ?thesis using sc_process_file [of "?at ?rest" a old new opts isprint] assms(4) by simp
  qed
  have "sc_input_loop opts (a # as) r = sc_input_loop opts as ?r3"
    unfolding sc_input_loop.simps line1 line2 prod.case option.case sep chomps proc by simp
  also have "\<dots> = Some (True, ?r3\<lparr>rd_heap := rename_all as (map snd ns') (rd_heap ?r3),
      rd_in := (rd_in ?r3)\<lparr>in_text := []\<rparr>\<rparr>)"
  proof (rule Cons.IH)
    show "\<forall>b \<in> set as. live (rd_heap ?r3) b" using Cons.prems(1) by simp
    show "\<forall>(old, new) \<in> set ns'. name_ok old \<and> name_ok new" using Cons.prems(2) ns by simp
    show "map fst ns' = map (\<lambda>b. old_name (the_spec (rd_heap ?r3) b)) as"
      unfolding reader.simps old_name_upd_new using Cons.prems(3) ns by simp
  qed simp
  finally show ?case by (simp add: ns)
qed simp

end
