(* ===== verification/Dual_Column.thy ===== *)
theory Dual_Column
  imports Edit_Common Tab_Utils Intutil
begin

text \<open>
  The default edit format, with the old and the new name side by side,
  \<open>src/src/editformats/dual-column.c\<close>.  The static variables that hold the options are a record;
  \<open>real_width\<close>, which the writer sets and the reader uses, is a result and an argument.
\<close>

record dc_options =
  dc_width :: "16 word"
  dc_tabsize :: "16 word"
  dc_swap :: bool
  dc_use_spaces :: bool
  dc_separate :: bool
  dc_autowidth :: bool
  dc_indicator1 :: string
  dc_indicator2 :: string

definition dc_option_array :: "string list" where
  "dc_option_array = [''help'', ''swap'', ''separate'', ''spaces'', ''tabsize'', ''width'', ''autowidth'',
     ''indicator1'', ''indicator2'']"

definition dc_reset_options :: dc_options where
  "dc_reset_options = \<lparr>dc_width = 40, dc_tabsize = 8, dc_swap = False, dc_use_spaces = False,
     dc_separate = False, dc_autowidth = True, dc_indicator1 = [], dc_indicator2 = []\<rparr>"

subsection \<open>Options\<close>

definition no_argument :: "nat \<Rightarrow> string option \<Rightarrow> dc_options \<Rightarrow> option_notice + dc_options" where
  "no_argument c value opts =
     (if value \<noteq> None then Inl (Argument_Not_Taken (dc_option_array ! c)) else Inr opts)"

definition require_argument ::
  "nat \<Rightarrow> string option \<Rightarrow> (string \<Rightarrow> option_notice + dc_options) \<Rightarrow> option_notice + dc_options" where
  "require_argument c value f =
     (case value of None \<Rightarrow> Inl (Argument_Missing (dc_option_array ! c)) | Some v \<Rightarrow> f v)"

definition dc_option :: "nat \<Rightarrow> string option \<Rightarrow> dc_options \<Rightarrow> option_notice + dc_options" where
  "dc_option c value opts =
     (if c = 0 then Inl Help_Printed
      else if c = 1 then no_argument c value (opts\<lparr>dc_swap := True\<rparr>)
      else if c = 2 then no_argument c value (opts\<lparr>dc_separate := True\<rparr>)
      else if c = 3 then no_argument c value (opts\<lparr>dc_use_spaces := True\<rparr>)
      else if c = 4 then require_argument c value (\<lambda>v.
        case parse_uint16 v of
          None \<Rightarrow> Inl (Invalid_Number ''tabsize'' v) | Some n \<Rightarrow> Inr (opts\<lparr>dc_tabsize := n\<rparr>))
      else if c = 5 then require_argument c value (\<lambda>v.
        case parse_uint16 v of
          None \<Rightarrow> Inl (Invalid_Number ''width'' v)
        | Some n \<Rightarrow> Inr (opts\<lparr>dc_width := n, dc_autowidth := False\<rparr>))
      else if c = 6 then no_argument c value (opts\<lparr>dc_autowidth := True\<rparr>)
      else if c = 7 then require_argument c value (\<lambda>v. Inr (opts\<lparr>dc_indicator1 := v\<rparr>))
      else if c = 8 then require_argument c value (\<lambda>v. Inr (opts\<lparr>dc_indicator2 := v\<rparr>))
      else Inr opts)"

function dc_parse_loop :: "string \<Rightarrow> dc_options \<Rightarrow> bool \<times> dc_options \<times> option_notice list" where
  "dc_parse_loop options opts =
     (if options = [] then (True, opts, [])
      else case getsubopt options dc_option_array of
        (None, value, rest) \<Rightarrow>
          (False, dc_reset_options, [Unknown_Suboption (case value of None \<Rightarrow> [] | Some v \<Rightarrow> v)])
      | (Some c, value, rest) \<Rightarrow>
          (case dc_option c value opts of
             Inl notice \<Rightarrow> (False, if notice = Help_Printed then opts else dc_reset_options, [notice])
           | Inr opts \<Rightarrow> dc_parse_loop rest opts))"
  by pat_completeness auto
termination
  by (relation "measure (\<lambda>(options, opts). length options)") (auto dest!: getsubopt_rest)

declare dc_parse_loop.simps [simp del]

definition dc_parse_options :: "string \<Rightarrow> bool \<times> dc_options \<times> option_notice list" where
  "dc_parse_options options = dc_parse_loop options dc_reset_options"

definition dc_option_generator :: "string \<Rightarrow> int \<Rightarrow> nat \<Rightarrow> string option \<times> nat" where
  "dc_option_generator str state c = name_generator dc_option_array str state c"

subsection \<open>Writing\<close>

definition blank :: "char \<Rightarrow> bool" where
  "blank ch \<longleftrightarrow> ch = CHR '' '' \<or> ch = TAB"

text \<open>\<open>for (c = 0; c < d; c++) if (s[c] != ' ' && s[c] != '\t') break;\<close>  The NUL stops it too.\<close>

fun blanks_loop :: "string \<Rightarrow> nat \<Rightarrow> nat \<Rightarrow> nat" where
  "blanks_loop [] d c = c"
| "blanks_loop (ch # s) d c = (if c < d then if \<not> blank ch then c else blanks_loop s d (c + 1) else c)"

text \<open>The last character of an empty name would be read before its start.\<close>

definition quote_first_last :: "dc_options \<Rightarrow> nat \<Rightarrow> string \<Rightarrow> string option" where
  "quote_first_last opts real_width name =
     (let d = tab_index name real_width (unat (dc_tabsize opts));
          c = blanks_loop name d 0;
          new_name = (if real_width \<noteq> 0 \<and> c = d then [BS] else []) @ name
      in if real_width \<noteq> 0 then
           if name = [] then None
           else if last name = CHR '' '' then Some (butlast new_name @ [BS, last new_name])
           else Some new_name
         else Some new_name)"

fun dc_prepare :: "(char \<Rightarrow> bool) \<Rightarrow> dc_options \<Rightarrow> spec_heap \<Rightarrow> addr list \<Rightarrow> nat
    \<Rightarrow> ((string \<times> string) list \<times> nat) option" where
  "dc_prepare isprint opts h [] real_width = Some ([], real_width)"
| "dc_prepare isprint opts h (a # as) real_width =
     do { spec \<leftarrow> spec_at h a;
          old \<leftarrow> quote_output_file isprint (old_name spec);
          old \<leftarrow> quote_first_last opts real_width old;
          new \<leftarrow> quote_output_file isprint (new_name spec);
          let real_width = (if dc_autowidth opts
                            then max real_width (length (if dc_swap opts then new else old) + 1)
                            else real_width);
          (tmp, real_width) \<leftarrow> dc_prepare isprint opts h as real_width;
          Some ((old, new) # tmp, real_width) }"

definition dc_pad :: "dc_options \<Rightarrow> nat" where
  "dc_pad opts = (if dc_use_spaces opts then 0 else unat (dc_tabsize opts))"

definition dc_write_pair :: "dc_options \<Rightarrow> nat \<Rightarrow> string \<Rightarrow> string \<Rightarrow> string" where
  "dc_write_pair opts real_width old new =
     (let ilen = length (dc_indicator1 opts) in
      if real_width + ilen \<le> length old then
        dc_indicator1 opts @ old @ [NL] @ tab_to 0 real_width (dc_pad opts) @ dc_indicator2 opts @ new @ [NL]
      else
        dc_indicator1 opts @ old @ tab_to (length old + ilen) real_width (dc_pad opts) @
        dc_indicator2 opts @ new @ [NL])"

fun dc_write :: "dc_options \<Rightarrow> nat \<Rightarrow> (string \<times> string) list \<Rightarrow> string" where
  "dc_write opts real_width [] = []"
| "dc_write opts real_width ((old, new) # tmp) =
     dc_write_pair opts real_width old new @
     (if dc_separate opts \<and> tmp \<noteq> [] then [NL] else []) @ dc_write opts real_width tmp"

text \<open>The text written and the width the reader needs.\<close>

definition dc_output ::
  "(char \<Rightarrow> bool) \<Rightarrow> dc_options \<Rightarrow> spec_heap \<Rightarrow> addr list \<Rightarrow> (string \<times> nat) option" where
  "dc_output isprint opts h files =
     do { (tmp, real_width) \<leftarrow> dc_prepare isprint opts h files (unat (dc_width opts));
          Some (dc_write opts real_width tmp, real_width) }"

subsection \<open>Reading\<close>

text \<open>The lines put back come first.\<close>

definition unread_line :: "string option \<Rightarrow> string list \<Rightarrow> string list" where
  "unread_line line unread = (case line of None \<Rightarrow> unread | Some l \<Rightarrow> l # unread)"

definition read_unread_line :: "reader \<times> string list \<Rightarrow> string option \<times> reader \<times> string list" where
  "read_unread_line st =
     (case st of (r, unread) \<Rightarrow>
        (case unread of
           l # ls \<Rightarrow> (Some l, r, ls)
         | [] \<Rightarrow> (case next_line r of (l, r) \<Rightarrow> (l, r, []))))"

definition swap_if_swap :: "dc_options \<Rightarrow> string \<times> string \<Rightarrow> string \<times> string" where
  "swap_if_swap opts p = (if dc_swap opts then (snd p, fst p) else p)"

definition check_and_assign ::
  "dc_options \<Rightarrow> addr \<Rightarrow> file_spec \<Rightarrow> string \<Rightarrow> string \<Rightarrow> reader \<Rightarrow> (bool \<times> reader) option" where
  "check_and_assign opts a spec old new r =
     (case swap_if_swap opts (old, new) of (old, new) \<Rightarrow>
        if strcmp (old_name spec) old \<noteq> 0
        then Some (False, warn (Old_Name_Changed (old_name spec)) r)
        else do { r \<leftarrow> assign_new_name a new r; Some (True, r) })"

definition process_dual_line ::
  "dc_options \<Rightarrow> nat \<Rightarrow> addr \<Rightarrow> string \<Rightarrow> string \<Rightarrow> reader \<Rightarrow> (bool \<times> reader) option" where
  "process_dual_line opts real_width a line1 line2 r =
     do { spec \<leftarrow> spec_at (rd_heap r) a;
          if \<not> starts_with line1 (dc_indicator1 opts)
          then Some (False, warn (No_Indicator_First (old_name spec)) r)
          else do {
            let line1 = chomp line1;
            let line2 = chomp line2;
            old \<leftarrow> dequoted (drop (length (dc_indicator1 opts)) line1);
            let old = fst (string_strip_trailing old [CHR '' '', TAB]);
            let d = tab_index line2 real_width (unat (dc_tabsize opts));
            if blanks_loop line2 d 0 < d
            then Some (False, warn (Unrecognized_Character (old_name spec)) r)
            else if \<not> starts_with (drop d line2) (dc_indicator2 opts)
            then Some (False, warn (No_Indicator_Second (old_name spec)) r)
            else do {
              new \<leftarrow> dequoted (drop (d + length (dc_indicator2 opts)) line2);
              check_and_assign opts a spec old new r } } }"

text \<open>
  \<open>for (c = d-1; line[c] == ' ' || line[c] == '\t'; c--);\<close> with the number of characters up to
  and with \<open>line[c]\<close> as the counter; at 0 the code reads before the line.
\<close>

fun skip_back :: "string \<Rightarrow> nat \<Rightarrow> nat option" where
  "skip_back line 0 = None"
| "skip_back line (Suc c) = (if blank (line ! c) then skip_back line c else Some (Suc c))"

definition process_single_line ::
  "dc_options \<Rightarrow> nat \<Rightarrow> addr \<Rightarrow> string \<Rightarrow> reader \<Rightarrow> (bool \<times> reader) option" where
  "process_single_line opts real_width a line r =
     do { spec \<leftarrow> spec_at (rd_heap r) a;
          if \<not> starts_with line (dc_indicator1 opts)
          then Some (False, warn (No_Indicator_First (old_name spec)) r)
          else do {
            let line = chomp line;
            let d = tab_index line real_width (unat (dc_tabsize opts));
            if length line < d then None
            else if d = length line
            then Some (False, warn (Destination_Missing (old_name spec)) r)
            else do {
              c \<leftarrow> skip_back line d;
              if c = d then Some (False, warn Expected_Whitespace r)
              else do {
                let n = (if line ! (c - 1) = BS then c + 1 else c);
                old \<leftarrow> dequoted (string_from line n (length (dc_indicator1 opts)));
                if \<not> starts_with (string_from line n d) (dc_indicator2 opts)
                then Some (False, warn (No_Indicator_Second (old_name spec)) r)
                else do {
                  new \<leftarrow> dequoted (string_from line n (d + length (dc_indicator2 opts)));
                  check_and_assign opts a spec old new r } } } } }"

text \<open>
  One file: the lines are read, the kind of entry is told by the blanks of the second line, and the
  entry is processed.  \<open>has_next\<close> says that more files follow.
\<close>

type_synonym dc_state = "reader \<times> string list"

definition dc_single ::
  "dc_options \<Rightarrow> nat \<Rightarrow> addr \<Rightarrow> string \<Rightarrow> dc_state \<Rightarrow> (bool \<times> dc_state) option" where
  "dc_single opts real_width a line1 st =
     (case st of (r, unread) \<Rightarrow>
        do { (ok, r) \<leftarrow> process_single_line opts real_width a line1 r; Some (ok, r, unread) })"

definition dc_read_file ::
  "dc_options \<Rightarrow> nat \<Rightarrow> bool \<Rightarrow> addr \<Rightarrow> dc_state \<Rightarrow> (bool \<times> dc_state) option" where
  "dc_read_file opts real_width has_next a st =
     (case read_unread_line st of
        (None, r, unread) \<Rightarrow> Some (False, warn_end r, unread)
      | (Some line1, st) \<Rightarrow>
          (case read_unread_line st of
             (None, r, unread) \<Rightarrow>
               if ferror (rd_in r) then Some (False, warn Cannot_Read r, unread)
               else if has_next then Some (False, warn Premature_End r, unread)
               else dc_single opts real_width a line1 (r, unread_line None unread)
           | (Some line2, r, unread) \<Rightarrow>
               let d = tab_index line2 real_width (unat (dc_tabsize opts));
                   c = blanks_loop line2 d 0
               in if c \<noteq> d then dc_single opts real_width a line1 (r, unread_line (Some line2) unread)
                  else do { (ok, r) \<leftarrow> process_dual_line opts real_width a line1 line2 r;
                            Some (ok, r, unread) }))"

text \<open>The separator line is chomped without a test for NULL.\<close>

definition dc_read_separator :: "dc_state \<Rightarrow> (bool \<times> dc_state) option" where
  "dc_read_separator st =
     (case read_unread_line st of
        (None, st) \<Rightarrow> None
      | (Some line, r, unread) \<Rightarrow>
          let line = chomp line in
          if length line \<noteq> 0 then Some (False, warn (Expected_Empty_Line line) r, unread)
          else Some (True, r, unread))"

fun dc_input_loop :: "dc_options \<Rightarrow> nat \<Rightarrow> addr list \<Rightarrow> dc_state \<Rightarrow> (bool \<times> dc_state) option" where
  "dc_input_loop opts real_width [] st = Some (True, st)"
| "dc_input_loop opts real_width (a # as) st =
     do { (ok, st) \<leftarrow> dc_read_file opts real_width (as \<noteq> []) a st;
          if \<not> ok then Some (False, st)
          else do {
            (ok, st) \<leftarrow> (if dc_separate opts \<and> as \<noteq> [] then dc_read_separator st else Some (True, st));
            if \<not> ok then Some (False, st) else dc_input_loop opts real_width as st } }"

definition dc_input ::
  "dc_options \<Rightarrow> nat \<Rightarrow> spec_heap \<Rightarrow> instream \<Rightarrow> addr list \<Rightarrow> (bool \<times> reader) option" where
  "dc_input opts real_width h ins as =
     do { (ok, st) \<leftarrow> dc_input_loop opts real_width as (\<lparr>rd_heap = h, rd_in = ins, rd_warnings = []\<rparr>, []);
          if \<not> ok then Some (False, fst st)
          else (case read_unread_line st of
                  (Some line1, r, unread) \<Rightarrow> Some (False, warn (Expected_End (chomp line1)) r)
                | (None, r, unread) \<Rightarrow>
                    if ferror (rd_in r) then Some (False, warn Cannot_Read r) else Some (True, r)) }"

subsection \<open>Columns and blanks\<close>

lemma blanks_loop_spec: "c \<le> d \<Longrightarrow> blanks_loop s d c = min d (c + length (takeWhile blank s))"
  by (induction s arbitrary: c) auto

lemma blanks_loop_first: "\<not> blank ch \<Longrightarrow> blanks_loop (ch # s) d 0 = 0"
  by simp

lemma blanks_loop_pad:
  "list_all blank pad \<Longrightarrow> blanks_loop (pad @ s) (length pad) 0 = length pad"
proof -
  assume "list_all blank pad"
  then have "takeWhile blank (pad @ s) = pad @ takeWhile blank s"
    by (simp add: list_all_iff)
  then show ?thesis by (simp add: blanks_loop_spec)
qed

lemma tab_index_loop_mono:
  "tab_index_loop s pos ts c p = (c', p') \<Longrightarrow> p \<le> p' \<and> (p' = p \<longrightarrow> c' = c)"
  by (induction s arbitrary: c p) (fastforce split: if_splits)+

text \<open>A line that does not start with a tab has its first character left of every column but 0.\<close>

lemma tab_index_positive:
  assumes "0 < ts" "0 < pos" "ch \<noteq> TAB"
  shows "0 < tab_index (ch # s) pos ts"
proof -
  obtain c p where cp: "tab_index_loop s pos ts 1 1 = (c, p)" by (cases "tab_index_loop s pos ts 1 1")
  with tab_index_loop_mono [OF cp] have "1 \<le> p" "p = 1 \<longrightarrow> c = 1" by auto
  then show ?thesis using assms cp by (auto simp: tab_index_def)
qed

lemma tab_to_blanks: "list_all blank (tab_to col to_col ts)"
proof (cases "col \<le> to_col")
  case True
  then show ?thesis using tab_to_blank [OF True, of ts] by (auto simp: list_all_iff blank_def)
next
  case False
  then have "tab_to col to_col ts = []"
  proof (cases "ts = 0")
    case ts: False
    then have "\<not> next_tab col ts \<le> to_col" using False next_tab_greater [of ts col] by simp
    then show ?thesis using False ts by (simp add: tab_to_def tab_to_tabs.simps)
  qed (simp add: tab_to_def)
  then show ?thesis by simp
qed

lemma tab_to_plain: "NL \<notin> set (tab_to col to_col ts)" "cstr (tab_to col to_col ts)"
proof -
  have b: "blank c" if "c \<in> set (tab_to col to_col ts)" for c
    using that tab_to_blanks [of col to_col ts] unfolding list_all_iff by blast
  have "\<not> blank NL" "\<not> blank NUL" by code_simp+
  then show "NL \<notin> set (tab_to col to_col ts)" "cstr (tab_to col to_col ts)"
    unfolding cstr_def using b by blast+
qed

lemma tab_to_column:
  assumes "0 < ts" "ts' = 0 \<or> ts' = ts" "col \<le> to_col"
  shows "tab_len_loop (tab_to col to_col ts') col ts = to_col"
  using assms(2)
proof
  assume "ts' = 0"
  then show ?thesis using assms(3) by (simp add: tab_to_0 tab_len_loop_spaces)
qed (use assms tab_to_reaches in simp)

lemma skip_back_pad:
  assumes "list_all blank pad" "old \<noteq> []" "\<not> blank (last old)"
  shows "skip_back (old @ pad @ s) (length old + length pad) = Some (length old)"
  using assms
proof (induction pad arbitrary: s rule: rev_induct)
  case Nil
  then obtain n where n: "length old = Suc n" by (cases old) auto
  then show ?case using Nil.prems(2,3) by (simp add: nth_append last_conv_nth)
next
  case (snoc b pad)
  then have "skip_back (old @ pad @ (b # s)) (length old + length pad) = Some (length old)" by simp
  moreover have "(old @ pad @ b # s) ! (length old + length pad) = b"
    by (metis append_assoc length_append nth_append_length)
  ultimately show ?case using snoc.prems(1) by simp
qed

subsection \<open>What the writer writes the reader reads\<close>

text \<open>
  The names the format carries without loss: no blank at either end and no backslash at the end.
  Names that end in a backslash, or in a tab, are read back as something else in one of the layouts.
\<close>

definition dc_name_ok :: "string \<Rightarrow> bool" where
  "dc_name_ok s \<longleftrightarrow> name_ok s \<and> \<not> blank (hd s) \<and> \<not> blank (last s) \<and> last s \<noteq> BS"

definition quoted_ok :: "string \<Rightarrow> bool" where
  "quoted_ok q \<longleftrightarrow> q \<noteq> [] \<and> \<not> blank (hd q) \<and> \<not> blank (last q) \<and> last q \<noteq> BS \<and> TAB \<notin> set q"

lemma quote_char_first:
  assumes "\<not> isprint TAB" "ch \<noteq> NUL" "\<not> blank ch"
  shows "\<not> blank (hd (quote_char isprint ch))"
  using assms by (auto simp: quote_char_def append_char_def blank_def)

lemma quote_char_last:
  assumes "ch \<noteq> NUL" "\<not> blank ch" "ch \<noteq> BS"
  shows "\<not> blank (last (quote_char isprint ch)) \<and> last (quote_char isprint ch) \<noteq> BS"
proof -
  let ?c = "last (quote_char isprint ch)"
  consider "isprint ch" | "?c \<in> set c_abbrevs" | "is_octal_digit ?c"
  proof (cases "isprint ch")
    case print: False
    show thesis
    proof (cases "7 \<le> schar ch \<and> schar ch \<le> 13")
      case True
      have "length c_abbrevs = 7" by code_simp
      then have "c_abbrevs ! nat (schar ch - 7) \<in> set c_abbrevs"
        using True by (intro nth_mem) linarith
      then have "?c \<in> set c_abbrevs" using True print assms by (simp add: quote_char_def)
      then show thesis by (rule that(2))
    next
      case False
      have "is_octal_digit (digit_char (byte ch mod 8))" using digit_char_octal [of "byte ch mod 8"] by simp
      then have "is_octal_digit ?c" using False print assms(3) by (auto simp: quote_char_def octal3_def)
      then show thesis by (rule that(3))
    qed
  qed (rule that(1))
  then show ?thesis
  proof cases
    case 2
    have "\<forall>c \<in> set c_abbrevs. \<not> blank c \<and> c \<noteq> BS" by code_simp
    then show ?thesis using 2 by blast
  next
    case 3
    have "\<not> is_octal_digit CHR '' ''" "\<not> is_octal_digit TAB" "\<not> is_octal_digit BS" by code_simp+
    then show ?thesis using 3 by (auto simp: blank_def)
  qed (use assms in \<open>simp add: quote_char_def append_char_def\<close>)
qed

lemma quoted_ok_quote:
  assumes "\<not> isprint TAB" "dc_name_ok s"
  shows "quoted_ok (quote_text isprint s)"
proof -
  have s: "name_ok s" "s \<noteq> []" "cstr s" "\<not> blank (hd s)" "\<not> blank (last s)" "last s \<noteq> BS"
    using assms(2) by (auto simp: dc_name_ok_def name_ok_def)
  then obtain t c u d where td: "s = c # t" "s = u @ [d]" by (metis list.exhaust rev_exhaust)
  have nul: "c \<noteq> NUL" "d \<noteq> NUL" using s(3) td by (metis cstr_simps(2), metis cstr_simps(2,3))
  have first: "quote_text isprint s = quote_char isprint c @ quote_text isprint t"
    using quote_text_append [of isprint "[c]" t] td(1) by (simp add: quote_text_single)
  have last: "quote_text isprint s = quote_text isprint u @ quote_char isprint d"
    using quote_text_append [of isprint u "[d]"] td(2) by (simp add: quote_text_single)
  have "hd (quote_text isprint s) = hd (quote_char isprint c)" "quote_text isprint s \<noteq> []"
    unfolding first using quote_char_not_Nil [OF nul(1)] by simp_all
  moreover have "last (quote_text isprint s) = last (quote_char isprint d)"
    unfolding last using quote_char_not_Nil [OF nul(2)] by simp
  moreover have "\<not> blank c" using s(4) by (simp add: td(1))
  moreover have "\<not> blank d" "d \<noteq> BS" using s(5,6) by (simp_all add: td(2))
  ultimately show ?thesis
    using quote_char_first [of isprint c] quote_char_last [of d isprint] quote_text_no_TAB [of isprint s]
      assms(1) nul
    by (simp add: quoted_ok_def)
qed

lemma quote_first_last_id:
  assumes "quoted_ok q" "0 < unat (dc_tabsize opts)"
  shows "quote_first_last opts real_width q = Some q"
proof (cases "real_width = 0")
  case False
  obtain ch s where q: "q = ch # s" using assms(1) by (cases q) (auto simp: quoted_ok_def)
  then have ch: "\<not> blank ch" "ch \<noteq> TAB" using assms(1) by (auto simp: quoted_ok_def blank_def)
  have "0 < tab_index q real_width (unat (dc_tabsize opts))"
    unfolding q by (rule tab_index_positive) (use assms(2) False ch in auto)
  moreover have "blanks_loop q d 0 = 0" for d using ch by (simp add: q)
  moreover have "last q \<noteq> CHR '' ''" using assms(1) by (auto simp: quoted_ok_def blank_def)
  ultimately show ?thesis using False q by (simp add: quote_first_last_def Let_def)
qed (simp add: quote_first_last_def)

text \<open>What is still to be read: a line put back, then the text of the stream.\<close>

definition pending :: "string list \<Rightarrow> string \<Rightarrow> string \<Rightarrow> bool" where
  "pending unread t all \<longleftrightarrow>
     unread = [] \<and> t = all \<or> (\<exists>l. unread = [l @ [NL]] \<and> NL \<notin> set l \<and> cstr l \<and> all = l @ NL # t)"

definition at_text :: "string \<Rightarrow> reader \<Rightarrow> reader" where
  "at_text t r = r\<lparr>rd_in := (rd_in r)\<lparr>in_text := t\<rparr>\<rparr>"

lemma at_text_simps [simp]:
  "rd_heap (at_text t r) = rd_heap r" "rd_warnings (at_text t r) = rd_warnings r"
  "in_text (rd_in (at_text t r)) = t" "in_error (rd_in (at_text t r)) = in_error (rd_in r)"
  "at_text t (at_text t' r) = at_text t r"
  by (simp_all add: at_text_def)

lemma read_unread_line_pending:
  assumes "pending unread (in_text (rd_in r)) (l @ NL # rest)" "NL \<notin> set l" "cstr l"
  shows "read_unread_line (r, unread) = (Some (l @ [NL]), at_text rest r, [])"
proof (cases "unread = []")
  case True
  then have "in_text (rd_in r) = l @ NL # rest" using assms(1) by (auto simp: pending_def)
  from next_line_line [OF this assms(2,3)] True show ?thesis by (simp add: read_unread_line_def at_text_def)
next
  case False
  then obtain l' where u: "unread = [l' @ [NL]]" "NL \<notin> set l'" "l @ NL # rest = l' @ NL # in_text (rd_in r)"
    using assms(1) by (auto simp: pending_def)
  then have "l = l' \<and> rest = in_text (rd_in r)" using separator_inject assms(2) by metis
  then show ?thesis using u by (simp add: read_unread_line_def at_text_def)
qed

lemma read_unread_line_pending_end:
  "pending unread (in_text (rd_in r)) [] \<Longrightarrow> read_unread_line (r, unread) = (None, r, [])"
  by (auto simp: pending_def read_unread_line_def next_line_end)

text \<open>The options the round trip is shown for: any width and separator, no indicators, no swap.\<close>

definition dc_plain_options :: "dc_options \<Rightarrow> bool" where
  "dc_plain_options opts \<longleftrightarrow>
     0 < unat (dc_tabsize opts) \<and> \<not> dc_swap opts \<and> dc_indicator1 opts = [] \<and> dc_indicator2 opts = []"

lemma starts_with_Nil [simp]: "starts_with s []"
  by (cases s) simp_all

lemma dc_pad_column:
  assumes "dc_plain_options opts" "col \<le> to_col"
  shows "tab_len_loop (tab_to col to_col (dc_pad opts)) col (unat (dc_tabsize opts)) = to_col"
  by (rule tab_to_column) (use assms in \<open>auto simp: dc_plain_options_def dc_pad_def\<close>)

lemma check_and_assign_same:
  assumes "live (rd_heap r) a" "old = old_name spec" "\<not> dc_swap opts"
  shows "check_and_assign opts a spec old new r =
    Some (True, r\<lparr>rd_heap := upd a (\<lambda>s. s\<lparr>new_name := new\<rparr>) (rd_heap r)\<rparr>)"
  using assms by (simp add: check_and_assign_def swap_if_swap_def)

lemma strip_blanks_id: "dc_name_ok s \<Longrightarrow> string_strip_trailing s [CHR '' '', TAB] = (s, 0)"
proof -
  assume "dc_name_ok s"
  then have s: "s \<noteq> []" "cstr s" "\<not> blank (last s)" by (auto simp: dc_name_ok_def name_ok_def)
  have "last s \<noteq> NUL" using s(1,2) by (metis cstr_def last_in_set)
  then have "string_strip_trailing (butlast s @ [last s]) [CHR '' '', TAB] = (butlast s @ [last s], 0)"
    using s(3) by (intro strip_trailing_snoc_keep) (auto simp: blank_def)
  then show ?thesis using s(1) by simp
qed

lemma process_dual_line_file:
  fixes isprint :: "char \<Rightarrow> bool" and old new :: string
  defines "qo \<equiv> quote_text isprint old" and "qn \<equiv> quote_text isprint new"
  assumes opts: "dc_plain_options opts" and iso: "\<not> isprint NL" "\<not> isprint TAB"
    and live: "live (rd_heap r) a" "old_name (the_spec (rd_heap r) a) = old"
    and ok: "dc_name_ok old" "name_ok new"
  shows "process_dual_line opts real_width a (qo @ [NL]) (tab_to 0 real_width (dc_pad opts) @ qn @ [NL]) r =
    Some (True, r\<lparr>rd_heap := upd a (\<lambda>s. s\<lparr>new_name := new\<rparr>) (rd_heap r)\<rparr>)"
proof -
  let ?pad = "tab_to 0 real_width (dc_pad opts)" and ?ts = "unat (dc_tabsize opts)"
  have o: "0 < ?ts" "\<not> dc_swap opts" "dc_indicator1 opts = []" "dc_indicator2 opts = []"
    using opts by (auto simp: dc_plain_options_def)
  have "tab_len ?pad ?ts = real_width" using dc_pad_column [OF opts, of 0 real_width] o(1) by (simp add: tab_len_def)
  then have d: "tab_index (?pad @ qn) real_width ?ts = length ?pad" by (rule tab_index_exact [OF o(1)])
  have c: "blanks_loop (?pad @ qn) (length ?pad) 0 = length ?pad" by (rule blanks_loop_pad) (rule tab_to_blanks)
  have chomps: "chomp (qo @ [NL]) = qo" "chomp (?pad @ qn @ [NL]) = ?pad @ qn"
    using chomp_snoc_newline [of "?pad @ qn"] by simp_all
  have deq: "dequoted qo = Some old" "dequoted qn = Some new"
    using ok by (simp_all add: qo_def qn_def dc_name_ok_def)
  show ?thesis
    using o live check_and_assign_same [OF live(1), of old "the_spec (rd_heap r) a" opts new]
    by (simp add: process_dual_line_def chomps Let_def deq strip_blanks_id [OF ok(1)] d c)
qed

lemma process_single_line_file:
  fixes isprint :: "char \<Rightarrow> bool" and old new :: string
  defines "qo \<equiv> quote_text isprint old" and "qn \<equiv> quote_text isprint new"
  assumes opts: "dc_plain_options opts" and iso: "\<not> isprint NL" "\<not> isprint TAB"
    and live: "live (rd_heap r) a" "old_name (the_spec (rd_heap r) a) = old"
    and ok: "dc_name_ok old" "name_ok new" and short: "length qo < real_width"
  shows "process_single_line opts real_width a (qo @ tab_to (length qo) real_width (dc_pad opts) @ qn @ [NL]) r =
    Some (True, r\<lparr>rd_heap := upd a (\<lambda>s. s\<lparr>new_name := new\<rparr>) (rd_heap r)\<rparr>)"
proof -
  let ?pad = "tab_to (length qo) real_width (dc_pad opts)" and ?ts = "unat (dc_tabsize opts)"
  let ?line = "qo @ ?pad @ qn"
  have o: "0 < ?ts" "\<not> dc_swap opts" "dc_indicator1 opts = []" "dc_indicator2 opts = []"
    using opts by (auto simp: dc_plain_options_def)
  have q: "quoted_ok qo" unfolding qo_def by (rule quoted_ok_quote) (use iso ok in auto)
  have col: "tab_len_loop ?pad (length qo) ?ts = real_width" using dc_pad_column [OF opts, of "length qo" real_width] short by simp
  then have pad: "?pad \<noteq> []" using short by auto
  have "tab_len_loop qo 0 ?ts = length qo" using tab_len_loop_plain [of qo 0] q by (simp add: quoted_ok_def)
  then have "tab_len (qo @ ?pad) ?ts = real_width" using col o(1) by (simp add: tab_len_def tab_len_loop_append)
  then have d: "tab_index ?line real_width ?ts = length qo + length ?pad"
    using tab_index_exact [OF o(1), of "qo @ ?pad" real_width qn] by simp
  have c: "skip_back ?line (length qo + length ?pad) = Some (length qo)"
    by (rule skip_back_pad [OF tab_to_blanks]) (use q in \<open>auto simp: quoted_ok_def\<close>)
  have last: "?line ! (length qo - 1) \<noteq> BS"
  proof -
    have "qo \<noteq> []" "last qo \<noteq> BS" using q by (auto simp: quoted_ok_def)
    then show ?thesis by (cases qo rule: rev_cases) (simp_all add: nth_append)
  qed
  have chomps: "chomp (qo @ ?pad @ qn @ [NL]) = ?line" using chomp_snoc_newline [of ?line] by simp
  have strings: "string_from ?line (length qo) 0 = qo" "string_from ?line (length qo) (length qo + length ?pad) = qn"
    using pad by (simp_all add: string_from_def)
  have deq: "dequoted qo = Some old" "dequoted qn = Some new" "qn \<noteq> []"
    using ok by (simp_all add: qo_def qn_def dc_name_ok_def)
  show ?thesis
    using o live pad last deq(3) check_and_assign_same [OF live(1), of old "the_spec (rd_heap r) a" opts new]
    by (simp add: process_single_line_def chomps Let_def deq strings d c)
qed

text \<open>What follows an entry: nothing, or a line that does not start with a blank.\<close>

definition tail_ok :: "string \<Rightarrow> bool" where
  "tail_ok t \<longleftrightarrow> t = [] \<or> (\<exists>l rest. t = l @ NL # rest \<and> NL \<notin> set l \<and> cstr l \<and> \<not> blank (hd (l @ [NL])))"

lemma tail_starts_line:
  assumes "\<not> blank (hd (l @ [NL]))" "0 < ts" "0 < w"
  shows "blanks_loop (l @ [NL]) (tab_index (l @ [NL]) w ts) 0 \<noteq> tab_index (l @ [NL]) w ts"
proof -
  obtain ch s where l: "l @ [NL] = ch # s" by (cases "l @ [NL]") auto
  then have "\<not> blank ch" "ch \<noteq> TAB" using assms(1) by (auto simp: blank_def)
  then show ?thesis using tab_index_positive [OF assms(2,3), of ch s] by (simp add: l)
qed

definition renamed :: "addr \<Rightarrow> string \<Rightarrow> reader \<Rightarrow> reader" where
  "renamed a new r = r\<lparr>rd_heap := upd a (\<lambda>s. s\<lparr>new_name := new\<rparr>) (rd_heap r)\<rparr>"

lemma at_text_renamed [simp]:
  "rd_heap (renamed a new r) = upd a (\<lambda>s. s\<lparr>new_name := new\<rparr>) (rd_heap r)"
  "rd_warnings (renamed a new r) = rd_warnings r" "rd_in (renamed a new r) = rd_in r"
  "renamed a new (at_text t r) = at_text t (renamed a new r)"
  by (simp_all add: renamed_def at_text_def)

lemma dc_read_file_entry:
  fixes isprint :: "char \<Rightarrow> bool" and old new :: string
  defines "qo \<equiv> quote_text isprint old" and "qn \<equiv> quote_text isprint new"
  assumes opts: "dc_plain_options opts" and iso: "\<not> isprint NL" "\<not> isprint TAB"
    and live: "live (rd_heap r) a" "old_name (the_spec (rd_heap r) a) = old"
    and ok: "dc_name_ok old" "name_ok new"
    and pend: "pending unread (in_text (rd_in r)) (dc_write_pair opts w qo qn @ tail)"
    and tail: "tail_ok tail" "has_next \<longrightarrow> tail \<noteq> []" and err: "\<not> in_error (rd_in r)"
  shows "\<exists>t u. dc_read_file opts w has_next a (r, unread) = Some (True, at_text t (renamed a new r), u) \<and>
    pending u t tail"
proof (cases "w \<le> length qo")
  case True
  let ?pad = "tab_to 0 w (dc_pad opts)" and ?ts = "unat (dc_tabsize opts)"
  have o: "0 < ?ts" "dc_indicator1 opts = []" "dc_indicator2 opts = []"
    using opts by (auto simp: dc_plain_options_def)
  have pad: "NL \<notin> set ?pad" "cstr ?pad"
    by (rule tab_to_plain)+
  have q: "NL \<notin> set qo" "cstr qo" "NL \<notin> set (?pad @ qn)" "cstr (?pad @ qn)"
    using iso pad by (simp_all add: qo_def qn_def)
  have "pending unread (in_text (rd_in r)) (qo @ NL # (?pad @ qn) @ NL # tail)"
    using pend o True by (simp add: dc_write_pair_def)
  note line1 = read_unread_line_pending [OF this q(1,2)]
  have "pending [] (in_text (rd_in (at_text ((?pad @ qn) @ NL # tail) r))) ((?pad @ qn) @ NL # tail)"
    by (simp add: pending_def)
  note line2 = read_unread_line_pending [OF this q(3,4)]
  have "tab_len ?pad ?ts = w" using dc_pad_column [OF opts, of 0 w] o(1) by (simp add: tab_len_def)
  then have d: "tab_index (?pad @ qn @ [NL]) w ?ts = length ?pad" by (rule tab_index_exact [OF o(1)])
  have c: "blanks_loop (?pad @ qn @ [NL]) (length ?pad) 0 = length ?pad"
    by (rule blanks_loop_pad) (rule tab_to_blanks)
  have proc: "process_dual_line opts w a (qo @ [NL]) (?pad @ qn @ [NL]) (at_text tail r) =
      Some (True, at_text tail (renamed a new r))"
    using process_dual_line_file [OF opts iso, of "at_text tail r" a old new w] live ok
    by (simp add: qo_def qn_def renamed_def at_text_def)
  have "dc_read_file opts w has_next a (r, unread) = Some (True, at_text tail (renamed a new r), [])"
    using line2 by (simp add: dc_read_file_def line1 d c proc Let_def)
  then show ?thesis by (auto simp: pending_def)
next
  case False
  then have short: "length qo < w" by simp
  let ?pad = "tab_to (length qo) w (dc_pad opts)" and ?ts = "unat (dc_tabsize opts)"
  have o: "0 < ?ts" "dc_indicator1 opts = []" "dc_indicator2 opts = []"
    using opts by (auto simp: dc_plain_options_def)
  have pad: "NL \<notin> set ?pad" "cstr ?pad"
    by (rule tab_to_plain)+
  have q: "NL \<notin> set (qo @ ?pad @ qn)" "cstr (qo @ ?pad @ qn)"
    using iso pad by (simp_all add: qo_def qn_def)
  have "pending unread (in_text (rd_in r)) ((qo @ ?pad @ qn) @ NL # tail)"
    using pend o False by (simp add: dc_write_pair_def)
  note line1 = read_unread_line_pending [OF this q]
  have proc: "process_single_line opts w a (qo @ ?pad @ qn @ [NL]) (at_text t r) =
      Some (True, at_text t (renamed a new r))" for t
    using process_single_line_file [OF opts iso, of "at_text t r" a old new w] live ok short
    by (simp add: qo_def qn_def renamed_def at_text_def)
  show ?thesis
  proof (cases "tail = []")
    case True
    then have "read_unread_line (at_text tail r, []) = (None, at_text tail r, [])"
      by (intro read_unread_line_pending_end) (simp add: pending_def)
    then have "dc_read_file opts w has_next a (r, unread) = Some (True, at_text tail (renamed a new r), [])"
      using line1 tail(2) err True
      by (simp add: dc_read_file_def dc_single_def proc ferror_def unread_line_def)
    then show ?thesis by (auto simp: pending_def)
  next
    case False
    then obtain l rest where l: "tail = l @ NL # rest" "NL \<notin> set l" "cstr l" "\<not> blank (hd (l @ [NL]))"
      using tail(1) by (auto simp: tail_ok_def)
    have "pending [] (in_text (rd_in (at_text tail r))) (l @ NL # rest)" by (simp add: pending_def l(1))
    note line2 = read_unread_line_pending [OF this l(2,3)]
    have "0 < w" using short by simp
    note first = tail_starts_line [OF l(4) o(1) this]
    have "dc_read_file opts w has_next a (r, unread) =
        Some (True, at_text rest (renamed a new r), [l @ [NL]])"
      using line1 line2 first by (simp add: dc_read_file_def dc_single_def proc unread_line_def Let_def)
    moreover have "pending [l @ [NL]] rest tail" using l by (auto simp: pending_def)
    ultimately show ?thesis by blast
  qed
qed

lemma dc_read_separator_empty:
  assumes "pending unread (in_text (rd_in r)) (NL # rest)"
  shows "dc_read_separator (r, unread) = Some (True, at_text rest r, [])"
  using read_unread_line_pending [of unread r "[]" rest] assms by (simp add: dc_read_separator_def)

definition quote_pair :: "(char \<Rightarrow> bool) \<Rightarrow> string \<times> string \<Rightarrow> string \<times> string" where
  "quote_pair isprint p = (quote_text isprint (fst p), quote_text isprint (snd p))"

lemma quote_pair_pair: "quote_pair isprint (old, new) = (quote_text isprint old, quote_text isprint new)"
  by (simp add: quote_pair_def)

lemma dc_prepare_pairs:
  assumes "\<not> isprint TAB" "dc_plain_options opts"
  shows "\<forall>a \<in> set as. live h a \<and> dc_name_ok (old_name (the_spec h a)) \<and> name_ok (new_name (the_spec h a)) \<Longrightarrow>
   \<exists>w'. dc_prepare isprint opts h as w = Some (map (quote_pair isprint) (name_pairs h as), w')"
proof (induction as arbitrary: w)
  case Nil
  then show ?case by (simp add: name_pairs_def)
next
  case (Cons a as)
  let ?qo = "quote_text isprint (old_name (the_spec h a))"
  have ok: "name_ok (old_name (the_spec h a))" "name_ok (new_name (the_spec h a))" "live h a"
    "dc_name_ok (old_name (the_spec h a))"
    using Cons.prems by (auto simp: dc_name_ok_def)
  have q: "quote_first_last opts w ?qo = Some ?qo"
    by (rule quote_first_last_id [OF quoted_ok_quote]) (use assms ok in \<open>auto simp: dc_plain_options_def\<close>)
  have "\<forall>a \<in> set as. live h a \<and> dc_name_ok (old_name (the_spec h a)) \<and> name_ok (new_name (the_spec h a))"
    using Cons.prems by simp
  note ih = Cons.IH [OF this]
  let ?w = "if dc_autowidth opts
    then max w (length (if dc_swap opts then quote_text isprint (new_name (the_spec h a)) else ?qo) + 1) else w"
  obtain w' where "dc_prepare isprint opts h as ?w = Some (map (quote_pair isprint) (name_pairs h as), w')"
    using ih by blast
  then show ?case
    using ok q by (simp add: name_pairs_def quote_pair_pair Let_def)
qed

lemma dc_write_tail_ok:
  assumes "dc_plain_options opts" "\<not> isprint NL" "\<not> isprint TAB" "\<forall>(old, new) \<in> set ns. dc_name_ok old"
  shows "tail_ok (dc_write opts w (map (quote_pair isprint) ns))"
proof (cases ns)
  case (Cons p ns')
  obtain old new where p: "p = (old, new)" by (cases p)
  let ?qo = "quote_text isprint old" and ?qn = "quote_text isprint new"
  let ?pad = "tab_to (length ?qo) w (dc_pad opts)"
  let ?rest = "(if dc_separate opts \<and> ns' \<noteq> [] then [NL] else []) @ dc_write opts w (map (quote_pair isprint) ns')"
  have ind: "dc_indicator1 opts = []" "dc_indicator2 opts = []" using assms(1) by (auto simp: dc_plain_options_def)
  have "quoted_ok ?qo" by (rule quoted_ok_quote) (use assms Cons p in auto)
  then have hd: "?qo \<noteq> []" "\<not> blank (hd ?qo)" by (auto simp: quoted_ok_def)
  show ?thesis
  proof (cases "w \<le> length ?qo")
    case True
    then have "dc_write opts w (map (quote_pair isprint) ns) =
        ?qo @ NL # (tab_to 0 w (dc_pad opts) @ ?qn @ NL # ?rest)"
      using ind by (simp add: Cons p quote_pair_pair dc_write_pair_def)
    then show ?thesis
      unfolding tail_ok_def using hd assms(2) by (intro disjI2 exI [of _ ?qo] exI conjI) simp_all
  next
    case False
    then have "dc_write opts w (map (quote_pair isprint) ns) = (?qo @ ?pad @ ?qn) @ NL # ?rest"
      using ind by (simp add: Cons p quote_pair_pair dc_write_pair_def)
    then show ?thesis
      unfolding tail_ok_def using hd assms(2) tab_to_plain
      by (intro disjI2 exI [of _ "?qo @ ?pad @ ?qn"] exI [of _ ?rest] conjI) simp_all
  qed
qed (simp add: tail_ok_def)

lemma tail_ok_NL: "tail_ok (NL # rest)"
proof -
  have "\<not> blank NL" by code_simp
  then show ?thesis unfolding tail_ok_def by (intro disjI2 exI [of _ "[]"] exI [of _ rest]) simp
qed

lemma dc_write_pair_not_Nil: "dc_write_pair opts w old new \<noteq> []"
  by (simp add: dc_write_pair_def Let_def)

lemma dc_input_loop_file:
  assumes opts: "dc_plain_options opts" and iso: "\<not> isprint NL" "\<not> isprint TAB"
  shows "\<forall>a \<in> set as. live (rd_heap r) a \<Longrightarrow> \<forall>(old, new) \<in> set ns. dc_name_ok old \<and> name_ok new \<Longrightarrow>
   map fst ns = map (\<lambda>a. old_name (the_spec (rd_heap r) a)) as \<Longrightarrow> \<not> in_error (rd_in r) \<Longrightarrow>
   pending unread (in_text (rd_in r)) (dc_write opts w (map (quote_pair isprint) ns)) \<Longrightarrow>
   dc_input_loop opts w as (r, unread) =
     Some (True, at_text [] (r\<lparr>rd_heap := rename_all as (map snd ns) (rd_heap r)\<rparr>), [])"
proof (induction as arbitrary: ns r unread)
  case Nil
  then show ?case by (auto simp: pending_def at_text_def)
next
  case (Cons a as)
  then obtain old new ns' where ns: "ns = (old, new) # ns'" by (cases ns) auto
  let ?sep = "dc_separate opts \<and> as \<noteq> []"
  let ?rest = "dc_write opts w (map (quote_pair isprint) ns')"
  let ?tail = "(if ?sep then [NL] else []) @ ?rest"
  have empty: "as \<noteq> [] \<longleftrightarrow> ns' \<noteq> []" using Cons.prems(3) ns by auto
  have names: "\<forall>(old, new) \<in> set ns'. dc_name_ok old \<and> name_ok new" "dc_name_ok old" "name_ok new"
    "live (rd_heap r) a" "old_name (the_spec (rd_heap r) a) = old"
    using Cons.prems(1-3) ns by auto
  have tail: "tail_ok ?tail"
    using dc_write_tail_ok [OF opts iso, of ns' w] tail_ok_NL names(1) by (auto simp: case_prod_beta)
  have more: "as \<noteq> [] \<longrightarrow> ?tail \<noteq> []" using empty by (cases ns') (auto simp: dc_write_pair_not_Nil quote_pair_pair)
  have "pending unread (in_text (rd_in r)) (dc_write_pair opts w (quote_text isprint old) (quote_text isprint new) @ ?tail)"
    using Cons.prems(5) empty by (simp add: ns quote_pair_pair)
  from dc_read_file_entry [OF opts iso names(4,5,2,3) this tail more Cons.prems(4)] obtain t u where
    entry: "dc_read_file opts w (as \<noteq> []) a (r, unread) = Some (True, at_text t (renamed a new r), u)"
    and pend: "pending u t ?tail" by blast
  obtain t' u' where sep: "(if ?sep then dc_read_separator (at_text t (renamed a new r), u)
      else Some (True, at_text t (renamed a new r), u)) = Some (True, at_text t' (renamed a new r), u')"
    and pend': "pending u' t' ?rest"
  proof (cases ?sep)
    case True
    then have "dc_read_separator (at_text t (renamed a new r), u) = Some (True, at_text ?rest (renamed a new r), [])"
      using dc_read_separator_empty [of u "at_text t (renamed a new r)" ?rest] pend by simp
    then show thesis using True that [of ?rest "[]"] by (simp add: pending_def)
  qed (use pend that in auto)
  have "dc_input_loop opts w as (at_text t' (renamed a new r), u') =
      Some (True, at_text [] ((at_text t' (renamed a new r))\<lparr>rd_heap :=
        rename_all as (map snd ns') (rd_heap (at_text t' (renamed a new r)))\<rparr>), [])"
  proof (rule Cons.IH)
    show "\<forall>b \<in> set as. live (rd_heap (at_text t' (renamed a new r))) b" using Cons.prems(1) by simp
    show "map fst ns' = map (\<lambda>b. old_name (the_spec (rd_heap (at_text t' (renamed a new r))) b)) as"
      unfolding at_text_simps at_text_renamed old_name_upd_new using Cons.prems(3) ns by simp
  qed (use names(1) Cons.prems(4) pend' in simp_all)
  then show ?case using entry sep by (simp add: ns)
qed

lemma dc_roundtrip_lemma:
  assumes "dc_plain_options opts" "\<not> isprint NL" "\<not> isprint TAB"
    and "\<forall>a \<in> set as. live h a \<and> dc_name_ok (old_name (the_spec h a)) \<and> name_ok (new_name (the_spec h a))"
    and "\<forall>a \<in> set as. live h' a \<and> old_name (the_spec h' a) = old_name (the_spec h a)"
  obtains written w where "dc_output isprint opts h as = Some (written, w)"
    "dc_input opts w h' \<lparr>in_text = written, in_error = False\<rparr> as =
      Some (True, \<lparr>rd_heap = rename_all as (map (\<lambda>a. new_name (the_spec h a)) as) h',
        rd_in = \<lparr>in_text = [], in_error = False\<rparr>, rd_warnings = []\<rparr>)"
proof -
  obtain w where prep: "dc_prepare isprint opts h as (unat (dc_width opts)) =
      Some (map (quote_pair isprint) (name_pairs h as), w)"
    using dc_prepare_pairs [of isprint opts as h "unat (dc_width opts)"] assms(1,3,4) by blast
  let ?txt = "dc_write opts w (map (quote_pair isprint) (name_pairs h as))"
  let ?r = "\<lparr>rd_heap = h', rd_in = \<lparr>in_text = ?txt, in_error = False\<rparr>, rd_warnings = []\<rparr>"
  have "dc_input_loop opts w as (?r, []) =
      Some (True, at_text [] (?r\<lparr>rd_heap := rename_all as (map snd (name_pairs h as)) (rd_heap ?r)\<rparr>), [])"
  proof (rule dc_input_loop_file [OF assms(1-3)])
    show "map fst (name_pairs h as) = map (\<lambda>a. old_name (the_spec (rd_heap ?r) a)) as"
      using assms(5) by (simp add: name_pairs_def)
  qed (use assms(4,5) in \<open>auto simp: name_pairs_def pending_def\<close>)
  moreover have "map snd (name_pairs h as) = map (\<lambda>a. new_name (the_spec h a)) as"
    by (simp add: name_pairs_def)
  ultimately have "dc_input opts w h' \<lparr>in_text = ?txt, in_error = False\<rparr> as =
      Some (True, \<lparr>rd_heap = rename_all as (map (\<lambda>a. new_name (the_spec h a)) as) h',
        rd_in = \<lparr>in_text = [], in_error = False\<rparr>, rd_warnings = []\<rparr>)"
    by (simp add: dc_input_def at_text_def read_unread_line_def next_line_end ferror_def)
  then show thesis using that prep by (simp add: dc_output_def)
qed

end
