(* ===== verification/Listing.thy ===== *)
theory Listing
  imports Edit_Common Hmap
begin

text \<open>
  How the list of files comes about, \<open>src/src/list.c\<close>: the options handed on to \<open>ls\<close>, its argument
  vector, the parsing of its output, the import of a list of names from a file, and the changes of
  directory.  What the operating system does is a record of functions on a world \<open>'w\<close>.
\<close>

subsection \<open>Options for ls\<close>

record option_entry =
  opt_name :: "string option"
  opt_argument :: bool
  opt_val :: nat

definition SORT_OPT :: nat where "SORT_OPT = 2000"
definition TIME_OPT :: nat where "TIME_OPT = 2001"

definition ls_option_table :: "option_entry list" where
  "ls_option_table =
     [\<lparr>opt_name = Some ''all'', opt_argument = False, opt_val = byte CHR ''a''\<rparr>,
      \<lparr>opt_name = Some ''almost-all'', opt_argument = False, opt_val = byte CHR ''A''\<rparr>,
      \<lparr>opt_name = Some ''ignore-backups'', opt_argument = False, opt_val = byte CHR ''B''\<rparr>,
      \<lparr>opt_name = Some ''directory'', opt_argument = False, opt_val = byte CHR ''d''\<rparr>,
      \<lparr>opt_name = Some ''reverse'', opt_argument = False, opt_val = byte CHR ''r''\<rparr>,
      \<lparr>opt_name = Some ''recursive'', opt_argument = False, opt_val = byte CHR ''R''\<rparr>,
      \<lparr>opt_name = Some ''sort'', opt_argument = True, opt_val = SORT_OPT\<rparr>,
      \<lparr>opt_name = Some ''time'', opt_argument = True, opt_val = TIME_OPT\<rparr>,
      \<lparr>opt_name = None, opt_argument = False, opt_val = 0\<rparr>]"

text \<open>The entries before the nameless one, then the table with its own end.\<close>

definition append_ls_options :: "option_entry list \<Rightarrow> option_entry list" where
  "append_ls_options options = takeWhile (\<lambda>e. opt_name e \<noteq> None) options @ ls_option_table"

text \<open>
  The words collected for \<open>ls\<close> are pointers, and \<open>llist_contains\<close> compares pointers: a literal of
  \<open>list.c\<close> is told from an option argument with the same text.
\<close>

datatype ls_word = Literal string | Argument string

fun word_text :: "ls_word \<Rightarrow> string" where
  "word_text (Literal s) = s"
| "word_text (Argument s) = s"

definition process_ls_option :: "nat \<Rightarrow> string \<Rightarrow> ls_word list \<Rightarrow> ls_word list" where
  "process_ls_option c optarg ls_options =
     (if c = byte CHR ''a'' then ls_options @ [Literal ''--all'']
      else if c = byte CHR ''A'' then ls_options @ [Literal ''--almost-all'']
      else if c = byte CHR ''B'' then ls_options @ [Literal ''--ignore-backups'']
      else if c = byte CHR ''c'' then ls_options @ [Literal ''--time=ctime'']
      else if c = byte CHR ''d'' then ls_options @ [Literal ''--directory'']
      else if c = byte CHR ''r'' then ls_options @ [Literal ''--reverse'']
      else if c = byte CHR ''R'' then ls_options @ [Literal ''--recursive'']
      else if c = byte CHR ''S'' then ls_options @ [Literal ''--sort=size'']
      else if c = SORT_OPT then ls_options @ [Literal ''--sort'', Argument optarg]
      else if c = byte CHR ''t'' then ls_options @ [Literal ''--sort=time'']
      else if c = TIME_OPT then ls_options @ [Literal ''--time'', Argument optarg]
      else if c = byte CHR ''u'' then ls_options @ [Literal ''--time=atime'']
      else if c = byte CHR ''U'' then ls_options @ [Literal ''--sort=none'']
      else if c = byte CHR ''X'' then ls_options @ [Literal ''--sort=extension'']
      else ls_options)"

subsection \<open>Collecting the names\<close>

record listing =
  li_heap :: spec_heap
  li_files :: "addr list"
  li_map :: "(string, addr) hmap"
  li_already :: "string list"

text \<open>
  The loop body of both readers: a name that is already listed gets a warning, and its object stays
  allocated without being in the list.
\<close>

definition list_name :: "string \<Rightarrow> listing \<Rightarrow> listing option" where
  "list_name name l =
     (case new_file_spec (li_heap l) of (a, h) \<Rightarrow>
       do { h \<leftarrow> modify_spec a (\<lambda>s. s\<lparr>old_name := name, new_name := name\<rparr>) h;
            if hmap_contains_key (li_map l) (Some name)
            then Some (l\<lparr>li_heap := h, li_already := li_already l @ [name]\<rparr>)
            else Some (l\<lparr>li_heap := h, li_map := fst (hmap_put (li_map l) (Some name) a),
                         li_files := li_files l @ [a]\<rparr>) })"

definition dot_name :: "string \<Rightarrow> bool" where
  "dot_name name \<longleftrightarrow> strcmp name ''.'' = 0 \<or> strcmp name ''..'' = 0"

subsection \<open>Importing\<close>

text \<open>
  \<open>getline\<close> returns the number of bytes, and \<open>buf[rc-1] = '\0'\<close> cuts the last one off, newline or not.
\<close>

function import_loop :: "string \<Rightarrow> listing \<Rightarrow> listing option" where
  "import_loop s l =
     (if s = [] then Some l
      else case split_line s of
        (line, rest) \<Rightarrow>
          (let buf = c_string (butlast line) in
           do { l \<leftarrow> (if \<not> dot_name buf then list_name buf l else Some l);
                import_loop rest l }))"
  by pat_completeness auto
termination
  by (relation "measure (\<lambda>(s, l). length s)") (auto dest!: sym [THEN split_line_shorter])

declare import_loop.simps [simp del]

datatype import_notice =
    Missing_File_Argument
  | Cannot_Open string
  | Cannot_Read_File string
  | Already_Listed string

text \<open>
  The command: the new work files and what it printed.  \<open>open_file\<close> is \<open>fopen(..., "r")\<close>.
\<close>

definition import_command ::
  "(string \<Rightarrow> instream option) \<Rightarrow> string list \<Rightarrow> spec_heap \<Rightarrow> addr list
     \<Rightarrow> (import_notice list \<times> spec_heap \<times> addr list) option" where
  "import_command open_file args h work_files =
     (if length args \<le> 1 then Some ([Missing_File_Argument], h, work_files)
      else case open_file (args ! 1) of
        None \<Rightarrow> Some ([Cannot_Open (args ! 1)], h, work_files)
      | Some fh \<Rightarrow>
          do { l \<leftarrow> import_loop (in_text fh) \<lparr>li_heap = h, li_files = [], li_map = hmap_new (), li_already = []\<rparr>;
               let notices = map Already_Listed (li_already l);
               if ferror fh
               then do { h \<leftarrow> free_files (li_files l) (li_heap l);
                         Some (notices @ [Cannot_Read_File (args ! 1)], h, work_files) }
               else do { h \<leftarrow> free_files work_files (li_heap l);
                         Some (notices, h, li_files l) } })"

subsection \<open>The output of ls\<close>

text \<open>
  How the program ends early: a failed \<open>ls_assert\<close> or another internal error, \<open>die\<close>, and \<open>exit\<close>
  with a status; \<open>Undefined\<close> is undefined behaviour.
\<close>

datatype stop = Internal_Error | Died | Exit_Status nat | Undefined

definition defined :: "'a option \<Rightarrow> stop + 'a" where
  "defined x = (case x of None \<Rightarrow> Inl Undefined | Some y \<Rightarrow> Inr y)"

text \<open>A directory name gets a slash behind it, unless it ends in one.\<close>

definition with_slash :: "string \<Rightarrow> string" where
  "with_slash dir = (if dir = [] \<or> last dir \<noteq> CHR ''/'' then dir @ ''/'' else dir)"

text \<open>\<open>dequote_output_file\<close> under \<open>ls_assert\<close>.\<close>

definition ls_dequote :: "string \<Rightarrow> stop + string" where
  "ls_dequote str =
     (case dequote_output_file str of
        None \<Rightarrow> Inl Undefined | Some None \<Rightarrow> Inl Internal_Error | Some (Some tmp) \<Rightarrow> Inr tmp)"

abbreviation DQ :: char where "DQ \<equiv> CHR 0x22"

definition process_ls_line :: "string \<Rightarrow> string \<times> listing \<Rightarrow> stop + (string \<times> listing)" where
  "process_ls_line line0 st =
     (case st of (dir, l) \<Rightarrow>
        let line = chomp line0; len = length line in
        if len = 0 then Inr (dir, l)
        else if line ! 0 \<noteq> DQ then Inl Internal_Error
        else if line ! (len - 1) = CHR '':'' then
          if line ! (len - 2) \<noteq> DQ then Inl Internal_Error
          else (case ls_dequote (string_from line (len - 2) 1) of
                  Inl e \<Rightarrow> Inl e
                | Inr tmp \<Rightarrow> Inr (with_slash tmp, l))
        else if line ! (len - 1) \<noteq> DQ then Inl Internal_Error
        else (case ls_dequote (string_from line (len - 1) 1) of
                Inl e \<Rightarrow> Inl e
              | Inr tmp \<Rightarrow>
                  if \<not> dot_name tmp
                  then (case defined (list_name (dir @ tmp) l) of Inl e \<Rightarrow> Inl e | Inr l \<Rightarrow> Inr (dir, l))
                  else Inr (dir, l)))"

function process_ls_loop :: "instream \<Rightarrow> string \<times> listing \<Rightarrow> stop + (instream \<times> listing)" where
  "process_ls_loop ins st =
     (case read_line ins of
        (None, ins') \<Rightarrow> Inr (ins', snd st)
      | (Some line, ins') \<Rightarrow>
          (case process_ls_line line st of
             Inl e \<Rightarrow> Inl e
           | Inr st \<Rightarrow> process_ls_loop ins' st))"
  by pat_completeness auto
termination
proof (relation "measure (\<lambda>(ins, st). length (in_text ins))", goal_cases)
  case (2 ins st p q line st')
  then show ?case using read_line_shorter [of ins line q] by simp
qed simp

declare process_ls_loop.simps [simp del]

text \<open>
  \<open>lsout\<close> is the result of \<open>fdopen\<close>.  The boolean is the one returned, with the files appended to
  \<open>files\<close> and the names listed twice.
\<close>

definition process_ls_output ::
  "(string \<Rightarrow> bool) \<Rightarrow> string option \<Rightarrow> instream option \<Rightarrow> spec_heap \<Rightarrow> addr list
     \<Rightarrow> stop + (bool \<times> spec_heap \<times> addr list \<times> string list)" where
  "process_ls_output is_directory firstdir lsout h files =
     (case lsout of
        None \<Rightarrow> Inr (False, h, files, [])
      | Some ins \<Rightarrow>
          (case (case firstdir of
                   None \<Rightarrow> Inr []
                 | Some d \<Rightarrow>
                     if strcmp d ''.'' \<noteq> 0 \<and> is_directory d
                     then if d = [] then Inl Undefined
                          else Inr (if last d \<noteq> CHR ''/'' then d @ ''/'' else d)
                     else Inr []) of
             Inl e \<Rightarrow> Inl e
           | Inr dir \<Rightarrow>
               (case process_ls_loop ins
                   (dir, \<lparr>li_heap = h, li_files = files, li_map = hmap_new (), li_already = []\<rparr>) of
                  Inl e \<Rightarrow> Inl e
                | Inr (ins', l) \<Rightarrow>
                    Inr (\<not> ferror ins', li_heap l, li_files l, li_already l))))"

subsection \<open>What a listing holds\<close>

text \<open>
  The listed objects are live, as \<open>new_file_spec\<close> made them but for their name, and no two have the
  same name; the map holds exactly their names.
\<close>

definition listed :: "spec_heap \<Rightarrow> addr \<Rightarrow> bool" where
  "listed h a \<longleftrightarrow> live h a \<and> status (the_spec h a) = STATUS_UNCHECKED \<and>
     prev_spec (the_spec h a) = None \<and> next_spec (the_spec h a) = None \<and>
     new_name (the_spec h a) = old_name (the_spec h a)"

definition list_ok :: "spec_heap \<Rightarrow> addr list \<Rightarrow> bool" where
  "list_ok h files \<longleftrightarrow> heap_ok h \<and> (\<forall>a \<in> set files. listed h a) \<and>
     distinct (map (\<lambda>a. old_name (the_spec h a)) files)"

definition listing_ok :: "listing \<Rightarrow> bool" where
  "listing_ok l \<longleftrightarrow> list_ok (li_heap l) (li_files l) \<and> hmap_ok (li_map l) \<and>
     dom (hmap_lookup (li_map l)) = (\<lambda>a. old_name (the_spec (li_heap l) a)) ` set (li_files l)"

lemma listing_ok_empty:
  "heap_ok h \<Longrightarrow> listing_ok \<lparr>li_heap = h, li_files = [], li_map = hmap_new (), li_already = al\<rparr>"
  by (simp add: listing_ok_def list_ok_def hmap_new_spec)

text \<open>The names in a listing, in their order.\<close>

definition listed_names :: "listing \<Rightarrow> string list" where
  "listed_names l = map (\<lambda>a. old_name (the_spec (li_heap l) a)) (li_files l)"

lemma list_name_spec:
  assumes ok: "listing_ok l"
  shows "\<exists>l'. list_name name l = Some l' \<and> listing_ok l' \<and>
    listed_names l' = (if name \<in> set (listed_names l) then listed_names l else listed_names l @ [name]) \<and>
    li_already l' = (if name \<in> set (listed_names l) then li_already l @ [name] else li_already l) \<and>
    (\<forall>a. live (li_heap l) a \<longrightarrow> live (li_heap l') a \<and> the_spec (li_heap l') a = the_spec (li_heap l) a)"
proof -
  let ?h = "li_heap l" and ?a = "next_addr (li_heap l)"
  let ?h1 = "upd ?a (\<lambda>s. s\<lparr>old_name := name, new_name := name\<rparr>) (snd (new_file_spec ?h))"
  have heap: "heap_ok ?h" and files: "\<And>b. b \<in> set (li_files l) \<Longrightarrow> listed ?h b"
    and dist: "distinct (map (\<lambda>a. old_name (the_spec ?h a)) (li_files l))"
    and map: "hmap_ok (li_map l)" "dom (hmap_lookup (li_map l)) = (\<lambda>a. old_name (the_spec ?h a)) ` set (li_files l)"
    using ok by (auto simp: listing_ok_def list_ok_def)
  have old: "b \<noteq> ?a" if "live ?h b" for b using heap_ok_live [OF heap that] by simp
  have same: "live ?h1 b \<and> the_spec ?h1 b = the_spec ?h b" if "live ?h b" for b
    using that old [OF that] by simp
  have live: "live ?h b" if "b \<in> set (li_files l)" for b using files [OF that] by (simp add: listed_def)
  have heap1: "heap_ok ?h1" using heap_ok_new [OF heap] by (intro heap_ok_upd) simp_all
  have names: "map (\<lambda>a. old_name (the_spec ?h1 a)) (li_files l) = map (\<lambda>a. old_name (the_spec ?h a)) (li_files l)"
    using same live by (intro map_cong refl arg_cong [where f = old_name]) blast
  have keep: "listed ?h1 b" if "b \<in> set (li_files l)" for b
    using files [OF that] same [OF live [OF that]] unfolding listed_def by metis
  have contains: "hmap_contains_key (li_map l) (Some name) \<longleftrightarrow> name \<in> set (listed_names l)"
    using map(2) by (auto simp: hm.contains_lookup [OF map(1)] listed_names_def domIff)
  have step: "list_name name l = (if name \<in> set (listed_names l)
      then Some (l\<lparr>li_heap := ?h1, li_already := li_already l @ [name]\<rparr>)
      else Some (l\<lparr>li_heap := ?h1, li_map := fst (hmap_put (li_map l) (Some name) ?a), li_files := li_files l @ [?a]\<rparr>))"
    using contains by (simp add: list_name_def case_prod_beta)
  show ?thesis
  proof (cases "name \<in> set (listed_names l)")
    case True
    let ?l = "l\<lparr>li_heap := ?h1, li_already := li_already l @ [name]\<rparr>"
    have "list_ok ?h1 (li_files l)" unfolding list_ok_def names using heap1 keep dist by blast
    moreover have "(\<lambda>a. old_name (the_spec ?h1 a)) ` set (li_files l) = (\<lambda>a. old_name (the_spec ?h a)) ` set (li_files l)"
      using names by (metis set_map)
    ultimately have "listing_ok ?l" using map by (simp add: listing_ok_def)
    moreover have "listed_names ?l = listed_names l" using names by (simp add: listed_names_def)
    ultimately show ?thesis using step True same by (intro exI [of _ ?l]) simp
  next
    case False
    let ?l = "l\<lparr>li_heap := ?h1, li_map := fst (hmap_put (li_map l) (Some name) ?a), li_files := li_files l @ [?a]\<rparr>"
    have new: "listed ?h1 ?a" "old_name (the_spec ?h1 ?a) = name" by (simp_all add: listed_def)
    have names': "map (\<lambda>a. old_name (the_spec ?h1 a)) (li_files l @ [?a]) = listed_names l @ [name]"
      using names new(2) by (simp add: listed_names_def del: the_spec_upd)
    have "list_ok ?h1 (li_files l @ [?a])"
      unfolding list_ok_def names' using heap1 keep dist new(1) False by (auto simp: listed_names_def)
    moreover have "dom (hmap_lookup (fst (hmap_put (li_map l) (Some name) ?a))) = set (listed_names l @ [name])"
      using map by (simp add: hm.put_lookup listed_names_def)
    moreover have "hmap_ok (fst (hmap_put (li_map l) (Some name) ?a))" by (rule hm.put_ok [OF map(1)])
    moreover have "(\<lambda>a. old_name (the_spec ?h1 a)) ` set (li_files l @ [?a]) = set (listed_names l @ [name])"
      using names' by (metis set_map)
    ultimately have "listing_ok ?l" by (simp add: listing_ok_def)
    moreover have "listed_names ?l = listed_names l @ [name]" using names' by (simp add: listed_names_def)
    ultimately show ?thesis using step False same by (intro exI [of _ ?l]) simp
  qed
qed

text \<open>Whatever \<open>ls\<close> prints, what was listed before stays and the listing is in order.\<close>

lemma list_name_ok: "listing_ok l \<Longrightarrow> list_name name l = Some l' \<Longrightarrow> listing_ok l'"
  using list_name_spec [of l name] by auto

lemma process_ls_line_ok:
  assumes "listing_ok l" "process_ls_line line (dir, l) = Inr (dir', l')"
  shows "listing_ok l'"
  using assms list_name_ok [OF assms(1)]
  by (auto simp: process_ls_line_def Let_def defined_def split: if_splits sum.splits option.splits)

lemma process_ls_loop_ok:
  "process_ls_loop ins st = Inr (ins', l') \<Longrightarrow> listing_ok (snd st) \<Longrightarrow> listing_ok l'"
proof (induction ins st rule: process_ls_loop.induct)
  case (1 ins st)
  obtain dir l where st: "st = (dir, l)" by (cases st)
  show ?case
  proof (cases "read_line ins")
    case (Pair line ins1)
    show ?thesis
    proof (cases line)
      case None
      then show ?thesis using 1(2,3) Pair by (subst (asm) process_ls_loop.simps) simp
    next
      case (Some ln)
      then obtain st1 where s1: "process_ls_line ln st = Inr st1" "process_ls_loop ins1 st1 = Inr (ins', l')"
        using 1(2) Pair by (subst (asm) process_ls_loop.simps) (auto split: sum.splits)
      have "listing_ok (snd st1)"
        using process_ls_line_ok [of l ln dir "fst st1" "snd st1"] 1(3) s1(1) st by simp
      then show ?thesis using 1(1) [OF Pair [symmetric] Some s1(1) s1(2)] by simp
    qed
  qed
qed

lemma process_ls_output_ok:
  assumes "process_ls_output is_dir firstdir lsout h [] = Inr (ok, h', files, already)" "heap_ok h"
  shows "list_ok h' files"
proof (cases lsout)
  case None
  then show ?thesis using assms by (simp add: process_ls_output_def list_ok_def)
next
  case (Some ins)
  then obtain dir ins' l where l: "process_ls_loop ins
      (dir, \<lparr>li_heap = h, li_files = [], li_map = hmap_new (), li_already = []\<rparr>) = Inr (ins', l)"
    "h' = li_heap l" "files = li_files l"
    using assms(1) by (auto simp: process_ls_output_def split: sum.splits)
  from process_ls_loop_ok [OF l(1)] listing_ok_empty [OF assms(2)] have "listing_ok l" by simp
  then show ?thesis using l(2,3) by (simp add: listing_ok_def)
qed

text \<open>The names in the order of their first occurrence.\<close>

definition add_name :: "string list \<Rightarrow> string \<Rightarrow> string list" where
  "add_name ns n = (if n \<in> set ns then ns else ns @ [n])"

definition first_names :: "string list \<Rightarrow> string list" where
  "first_names ns = rev (remdups (rev ns))"

lemma foldl_add_name: "foldl add_name [] ns = first_names ns"
  by (induction ns rule: rev_induct) (auto simp: add_name_def first_names_def)

lemma list_name_add:
  "listing_ok l \<Longrightarrow> \<exists>l'. list_name name l = Some l' \<and> listing_ok l' \<and>
     listed_names l' = add_name (listed_names l) name \<and>
     (\<forall>a. live (li_heap l) a \<longrightarrow> live (li_heap l') a \<and> the_spec (li_heap l') a = the_spec (li_heap l) a)"
  using list_name_spec [of l name] by (fastforce simp: add_name_def)

text \<open>A file with one name on each line.\<close>

definition name_lines :: "string list \<Rightarrow> string" where
  "name_lines ns = concat (map (\<lambda>n. n @ [NL]) ns)"

lemma import_loop_names:
  "listing_ok l \<Longrightarrow> \<forall>n \<in> set ns. cstr n \<and> NL \<notin> set n \<Longrightarrow>
   \<exists>l'. import_loop (name_lines ns) l = Some l' \<and> listing_ok l' \<and>
     listed_names l' = foldl add_name (listed_names l) (filter (\<lambda>n. \<not> dot_name n) ns) \<and>
     (\<forall>a. live (li_heap l) a \<longrightarrow> live (li_heap l') a \<and> the_spec (li_heap l') a = the_spec (li_heap l) a)"
proof (induction ns arbitrary: l)
  case Nil
  then show ?case by (simp add: name_lines_def import_loop.simps)
next
  case (Cons n ns)
  have n: "cstr n" "NL \<notin> set n" "\<forall>n \<in> set ns. cstr n \<and> NL \<notin> set n" using Cons.prems(2) by auto
  have first: "name_lines (n # ns) = n @ NL # name_lines ns" by (simp add: name_lines_def)
  obtain l1 where l1: "(if \<not> dot_name n then list_name n l else Some l) = Some l1" "listing_ok l1"
    "listed_names l1 = (if \<not> dot_name n then add_name (listed_names l) n else listed_names l)"
    "\<And>a. live (li_heap l) a \<Longrightarrow> live (li_heap l1) a \<and> the_spec (li_heap l1) a = the_spec (li_heap l) a"
  proof (cases "dot_name n")
    case False
    from list_name_add [OF Cons.prems(1), of n] obtain l' where
      "list_name n l = Some l'" "listing_ok l'" "listed_names l' = add_name (listed_names l) n"
      "\<forall>a. live (li_heap l) a \<longrightarrow> live (li_heap l') a \<and> the_spec (li_heap l') a = the_spec (li_heap l) a"
      by blast
    then show thesis using False that [of l'] by simp
  qed (use that [of l] Cons.prems(1) in simp)
  have "import_loop (name_lines (n # ns)) l = import_loop (name_lines ns) l1"
    unfolding first using split_line_NL [OF n(2), of "name_lines ns"] l1(1) n(1)
    by (subst import_loop.simps) (simp add: butlast_append)
  moreover from Cons.IH [OF l1(2) n(3)] obtain l2 where "import_loop (name_lines ns) l1 = Some l2" "listing_ok l2"
    "listed_names l2 = foldl add_name (listed_names l1) (filter (\<lambda>n. \<not> dot_name n) ns)"
    "\<forall>a. live (li_heap l1) a \<longrightarrow> live (li_heap l2) a \<and> the_spec (li_heap l2) a = the_spec (li_heap l1) a" by blast
  ultimately show ?case using l1(3,4) by (intro exI [of _ l2]) auto
qed

text \<open>Lines of quoted names, whoever quotes them: each name that the reader makes of a line is listed.\<close>

definition quoted_lines :: "string list \<Rightarrow> string" where
  "quoted_lines qs = concat (map (\<lambda>q. DQ # q @ [DQ, NL]) qs)"

lemma process_ls_line_quoted:
  assumes "listing_ok l" "ls_dequote q = Inr n"
  shows "\<exists>l'. process_ls_line (DQ # q @ [DQ, NL]) (dir, l) = Inr (dir, l') \<and> listing_ok l' \<and>
    listed_names l' = (if dot_name n then listed_names l else add_name (listed_names l) (dir @ n))"
proof -
  have chomp: "chomp (DQ # q @ [DQ, NL]) = DQ # q @ [DQ]"
    using chomp_snoc_newline [of "DQ # q @ [DQ]"] by simp
  have inner: "string_from (DQ # q @ [DQ]) (Suc (length q)) 1 = q" by (simp add: string_from_def)
  from list_name_add [OF assms(1), of "dir @ n"] obtain l' where
    l': "list_name (dir @ n) l = Some l'" "listing_ok l'"
    "listed_names l' = add_name (listed_names l) (dir @ n)" by blast
  show ?thesis
    using l' assms inner by (auto simp: process_ls_line_def chomp Let_def nth_append defined_def)
qed

lemma process_ls_loop_quoted:
  "listing_ok l \<Longrightarrow> list_all2 (\<lambda>q n. ls_dequote q = Inr n \<and> NL \<notin> set q \<and> cstr q) qs ns \<Longrightarrow> in_text ins = quoted_lines qs \<Longrightarrow>
   \<exists>l'. process_ls_loop ins (dir, l) = Inr (ins\<lparr>in_text := []\<rparr>, l') \<and> listing_ok l' \<and>
     listed_names l' = foldl add_name (listed_names l) (map ((@) dir) (filter (\<lambda>n. \<not> dot_name n) ns))"
proof (induction qs arbitrary: l ins ns)
  case Nil
  then show ?case by (subst process_ls_loop.simps) (simp add: quoted_lines_def read_line_end)
next
  case (Cons q qs)
  then obtain n ns' where ns: "ns = n # ns'" "ls_dequote q = Inr n" "NL \<notin> set q" "cstr q"
    "list_all2 (\<lambda>q n. ls_dequote q = Inr n \<and> NL \<notin> set q \<and> cstr q) qs ns'" by (auto simp: list_all2_Cons1)
  let ?line = "DQ # q @ [DQ]" and ?ins = "ins\<lparr>in_text := quoted_lines qs\<rparr>"
  have "in_text ins = ?line @ NL # quoted_lines qs" using Cons.prems(3) by (simp add: quoted_lines_def)
  then have read: "read_line ins = (Some (?line @ [NL]), ?ins)"
    by (rule read_line_line) (use ns(3,4) in simp_all)
  from process_ls_line_quoted [OF Cons.prems(1) ns(2), of dir] obtain l1 where
    l1: "process_ls_line (?line @ [NL]) (dir, l) = Inr (dir, l1)" "listing_ok l1"
    "listed_names l1 = (if dot_name n then listed_names l else add_name (listed_names l) (dir @ n))" by auto
  from Cons.IH [OF l1(2) ns(5), of ?ins] obtain l2 where
    l2: "process_ls_loop ?ins (dir, l1) = Inr (?ins\<lparr>in_text := []\<rparr>, l2)" "listing_ok l2"
    "listed_names l2 = foldl add_name (listed_names l1) (map ((@) dir) (filter (\<lambda>n. \<not> dot_name n) ns'))" by auto
  have "process_ls_loop ins (dir, l) = Inr (ins\<lparr>in_text := []\<rparr>, l2)"
    using read l1(1) l2(1) by (subst process_ls_loop.simps) simp
  then show ?case using l1(3) l2(2,3) ns(1) by auto
qed

text \<open>The whole output, for a directory that was named.\<close>

lemma process_ls_output_quoted:
  assumes "heap_ok h" "list_all2 (\<lambda>q n. ls_dequote q = Inr n \<and> NL \<notin> set q \<and> cstr q) qs ns" "d \<noteq> []" "is_directory d" "d \<noteq> ''.''"
  shows "\<exists>h' files already. process_ls_output is_directory (Some d)
      (Some \<lparr>in_text = quoted_lines qs, in_error = False\<rparr>) h [] = Inr (True, h', files, already) \<and>
    list_ok h' files \<and>
    map (\<lambda>a. old_name (the_spec h' a)) files =
      first_names (map ((@) (with_slash d)) (filter (\<lambda>n. \<not> dot_name n) ns))"
proof -
  let ?l = "\<lparr>li_heap = h, li_files = [], li_map = hmap_new (), li_already = []\<rparr>"
  let ?ins = "\<lparr>in_text = quoted_lines qs, in_error = False\<rparr>"
  have d: "strcmp d ''.'' \<noteq> 0" using assms(5) by simp
  have "(if last d \<noteq> CHR ''/'' then d @ ''/'' else d) = with_slash d" using assms(3) by (simp add: with_slash_def)
  then have out: "process_ls_output is_directory (Some d) (Some ?ins) h [] =
      (case process_ls_loop ?ins (with_slash d, ?l) of Inl e \<Rightarrow> Inl e
       | Inr (ins', l) \<Rightarrow> Inr (\<not> ferror ins', li_heap l, li_files l, li_already l))"
    using d assms(3,4) by (simp add: process_ls_output_def)
  have "listing_ok ?l" by (rule listing_ok_empty [OF assms(1)])
  from process_ls_loop_quoted [OF this assms(2), of ?ins "with_slash d"]
  obtain l where l: "process_ls_loop ?ins (with_slash d, ?l) = Inr (?ins\<lparr>in_text := []\<rparr>, l)" "listing_ok l"
    "listed_names l = foldl add_name [] (map ((@) (with_slash d)) (filter (\<lambda>n. \<not> dot_name n) ns))"
    by (auto simp: listed_names_def)
  then show ?thesis
    unfolding out by (auto simp: listing_ok_def listed_names_def foldl_add_name ferror_def)
qed

text \<open>With the quoting of the program's own edit files.\<close>

definition ls_lines :: "(char \<Rightarrow> bool) \<Rightarrow> string list \<Rightarrow> string" where
  "ls_lines isprint ns = quoted_lines (map (quote_text isprint) ns)"

end
