(* ===== verification/Apply.thy ===== *)
theory Apply
  imports File_Spec
begin

text \<open>
  Carrying a plan out, \<open>src/src/apply.c\<close>.  The world the commands act on is the type variable
  \<open>'w\<close>; the three system services the code uses are the fields of \<open>system\<close>: running a command
  with an argument vector in a child process, and the two directory changes of
  \<open>src/src/list.c\<close>.  The messages are kept as a list, in the order they are printed.
\<close>

subsection \<open>Child processes\<close>

text \<open>What \<open>wait\<close> reports, by the macros the code tests in turn.\<close>

datatype child_status =
    Wait_Failed
  | Signaled nat
  | Stopped nat
  | Exited nat

record 'w system =
  exec_command :: "string \<Rightarrow> string list \<Rightarrow> 'w \<Rightarrow> child_status option \<times> 'w"
  to_work_directory :: "'w \<Rightarrow> bool \<times> 'w"
  from_work_directory :: "'w \<Rightarrow> bool \<times> 'w"

record options =
  program :: string
  force_command :: "string option"
  simulate :: bool

fun wait_child_and_check_status :: "child_status \<Rightarrow> bool" where
  "wait_child_and_check_status Wait_Failed = False"
| "wait_child_and_check_status (Signaled sig) = False"
| "wait_child_and_check_status (Stopped sig) = False"
| "wait_child_and_check_status (Exited code) = (if code \<noteq> 0 then False else True)"

definition command_name :: "options \<Rightarrow> string" where
  "command_name opts =
     (case force_command opts of
        Some c \<Rightarrow> c
      | None \<Rightarrow> if strcmp (program opts) ''qmv'' = 0 then ''mv'' else ''cp'')"

text \<open>\<^const>\<open>None\<close> from \<open>exec_command\<close> is a \<open>fork\<close> that failed.\<close>

definition perform_command :: "'w system \<Rightarrow> options \<Rightarrow> file_spec \<Rightarrow> 'w \<Rightarrow> bool \<times> 'w" where
  "perform_command sys opts spec w =
     (let command = command_name opts in
      case exec_command sys command [command, ''--'', old_name spec, new_name spec] w of
        (None, w') \<Rightarrow> (False, w')
      | (Some st, w') \<Rightarrow> (wait_child_and_check_status st, w'))"

subsection \<open>The loop\<close>

datatype message =
    Msg_Contains_Errors
  | Msg_Plan_Empty
  | Msg_Names string string
  | Msg_Skipping
  | Msg_Some_Failed

text \<open>
  \<open>kept\<close> is the part of \<open>plan->ok\<close> before the iterator; the rest of the list is the
  argument the loop runs over.
\<close>

record 'w run =
  heap :: spec_heap
  kept :: "addr list"
  work_files :: "addr list"
  world :: 'w
  failed :: bool
  printed :: "message list"

definition say :: "message \<Rightarrow> 'w run \<Rightarrow> 'w run" where
  "say m s = s\<lparr>printed := printed s @ [m]\<rparr>"

definition keep :: "addr \<Rightarrow> 'w run \<Rightarrow> 'w run" where
  "keep a s = s\<lparr>kept := kept s @ [a]\<rparr>"

text \<open>\<open>simulate || perform_command(spec)\<close>\<close>

definition run_spec :: "'w system \<Rightarrow> options \<Rightarrow> file_spec \<Rightarrow> 'w \<Rightarrow> bool \<times> 'w" where
  "run_spec sys opts spec w =
     (if simulate opts then (True, w) else perform_command sys opts spec w)"

text \<open>A rename that went well leaves the plan and the work files, and its object is freed.\<close>

definition finish_spec :: "addr \<Rightarrow> 'w run \<Rightarrow> 'w run option" where
  "finish_spec a s = do {
     h \<leftarrow> free_file_spec a (heap s);
     Some (s\<lparr>heap := h, work_files := remove1 a (work_files s)\<rparr>)
   }"

fun apply_loop :: "'w system \<Rightarrow> options \<Rightarrow> addr list \<Rightarrow> 'w run \<Rightarrow> 'w run option" where
  "apply_loop sys opts [] s = Some s"
| "apply_loop sys opts (a # as) s = do {
     spec \<leftarrow> spec_at (heap s) a;
     if status spec \<noteq> STATUS_APPLY \<and> status spec \<noteq> STATUS_CIRCULAR
     then apply_loop sys opts as (keep a s)
     else
       let s1 = say (Msg_Names (old_name spec) (new_name spec)) s in
       if prev_spec spec \<noteq> None
       then apply_loop sys opts as (keep a (say Msg_Skipping s1))
       else (case run_spec sys opts spec (world s1) of
           (True, w) \<Rightarrow> do {
             s2 \<leftarrow> finish_spec a (s1\<lparr>world := w\<rparr>);
             apply_loop sys opts as s2
           }
         | (False, w) \<Rightarrow> apply_loop sys opts as (keep a (s1\<lparr>world := w, failed := True\<rparr>)))
   }"

record 'w outcome =
  out_heap :: spec_heap
  out_plan :: apply_plan
  out_work :: "addr list"
  out_world :: 'w
  out_messages :: "message list"

definition outcome_of :: "apply_plan \<Rightarrow> 'w run \<Rightarrow> 'w outcome" where
  "outcome_of plan s = \<lparr>out_heap = heap s, out_plan = plan\<lparr>plan_ok := kept s\<rparr>,
     out_work = work_files s, out_world = world s, out_messages = printed s\<rparr>"

definition apply_plan :: "'w system \<Rightarrow> options \<Rightarrow> spec_heap \<Rightarrow> apply_plan \<Rightarrow> addr list \<Rightarrow> 'w
    \<Rightarrow> (bool \<times> 'w outcome) option" where
  "apply_plan sys opts h plan work w =
     (let s = \<lparr>heap = h, kept = [], work_files = work, world = w, failed = False,
                printed = if plan_error plan \<noteq> [] then [Msg_Contains_Errors] else []\<rparr> in
      if plan_ok plan = [] then Some (True, outcome_of plan (say Msg_Plan_Empty s))
      else case to_work_directory sys w of
        (False, w1) \<Rightarrow> Some (False, outcome_of plan (s\<lparr>kept := plan_ok plan, world := w1\<rparr>))
      | (True, w1) \<Rightarrow> do {
          s1 \<leftarrow> apply_loop sys opts (plan_ok plan) (s\<lparr>world := w1\<rparr>);
          let s2 = (if failed s1 then say Msg_Some_Failed s1 else s1);
          let (left, w2) = from_work_directory sys (world s2);
          Some (left \<and> \<not> failed s2, outcome_of plan (s2\<lparr>world := w2\<rparr>))
        })"

end
