(* ===== verification/Plan.thy ===== *)
theory Plan
  imports File_Spec Hmap String_Utils
begin

text \<open>
  The planner, \<open>src/src/plan.c\<close>: checking the renames and bringing them in an order in which
  every destination is free when its turn comes.  The state of a scan is the heap of the
  \<open>FileSpec\<close> objects and the plan being built; \<open>renames\<close> is the list of the objects'
  addresses.  \<open>file_exists\<close> is the predicate the file system answers, \<open>work_directory\<close>
  and \<open>program\<close> are the globals of \<open>src/src/qcmd.c\<close>.
\<close>

type_synonym pstate = "spec_heap \<times> apply_plan"
type_synonym name_map = "(string, addr) hmap"

abbreviation map_put :: "name_map \<Rightarrow> string \<Rightarrow> addr \<Rightarrow> name_map" where
  "map_put m k a \<equiv> fst (hmap_put m (Some k) a)"

abbreviation map_remove :: "name_map \<Rightarrow> string \<Rightarrow> name_map" where
  "map_remove m k \<equiv> fst (hmap_remove m (Some k))"

subsection \<open>The scans\<close>

text \<open>
  The loop four of the scans share: an unchecked rename that meets the condition gets a status
  and is added to a list of the plan.
\<close>

fun mark_where :: "(file_spec \<Rightarrow> bool) \<Rightarrow> file_spec_status \<Rightarrow> (addr \<Rightarrow> apply_plan \<Rightarrow> apply_plan)
    \<Rightarrow> addr list \<Rightarrow> pstate \<Rightarrow> pstate option" where
  "mark_where cond st add [] (h, p) = Some (h, p)"
| "mark_where cond st add (a # as) (h, p) = do {
     spec \<leftarrow> spec_at h a;
     if status spec = STATUS_UNCHECKED \<and> cond spec then do {
       h1 \<leftarrow> set_status a st h;
       mark_where cond st add as (h1, add a p)
     } else mark_where cond st add as (h, p)
   }"

fun duplicate_scan_loop :: "addr list \<Rightarrow> name_map \<Rightarrow> pstate \<Rightarrow> pstate option" where
  "duplicate_scan_loop [] seen (h, p) = Some (h, p)"
| "duplicate_scan_loop (a # as) seen (h, p) = do {
     spec \<leftarrow> spec_at h a;
     if status spec = STATUS_UNCHECKED then
       (case hmap_put seen (Some (new_name spec)) a of
          (seen', None) \<Rightarrow> duplicate_scan_loop as seen' (h, p)
        | (seen', Some b) \<Rightarrow> do {
            spec2 \<leftarrow> spec_at h b;
            (h1, p1) \<leftarrow> (if status spec2 = STATUS_UNCHECKED
              then do { h1 \<leftarrow> set_status b STATUS_DUPLICATE h; Some (h1, add_error b p) }
              else Some (h, p));
            h2 \<leftarrow> set_status a STATUS_DUPLICATE h1;
            duplicate_scan_loop as seen' (h2, add_error a p1)
          })
     else duplicate_scan_loop as seen (h, p)
   }"

definition duplicate_scan :: "addr list \<Rightarrow> pstate \<Rightarrow> pstate option" where
  "duplicate_scan renames st = duplicate_scan_loop renames (hmap_new ()) st"

definition old_missing_scan :: "(string \<Rightarrow> bool) \<Rightarrow> string \<Rightarrow> addr list \<Rightarrow> pstate \<Rightarrow> pstate option" where
  "old_missing_scan file_exists work_directory =
     mark_where (\<lambda>spec. \<not> file_exists (cat_files work_directory (old_name spec)))
       STATUS_OLD_MISSING add_error"

definition no_change_scan :: "addr list \<Rightarrow> pstate \<Rightarrow> pstate option" where
  "no_change_scan =
     mark_where (\<lambda>spec. strcmp (old_name spec) (new_name spec) = 0) STATUS_NO_CHANGE add_no_change"

definition apply_unchecked :: "addr list \<Rightarrow> pstate \<Rightarrow> pstate option" where
  "apply_unchecked = mark_where (\<lambda>spec. True) STATUS_APPLY add_ok"

fun unchecked_olds :: "addr list \<Rightarrow> spec_heap \<Rightarrow> name_map \<Rightarrow> name_map option" where
  "unchecked_olds [] h olds = Some olds"
| "unchecked_olds (a # as) h olds = do {
     spec \<leftarrow> spec_at h a;
     unchecked_olds as h
       (if status spec = STATUS_UNCHECKED then map_put olds (old_name spec) a else olds)
   }"

definition new_exists_scan :: "(string \<Rightarrow> bool) \<Rightarrow> string \<Rightarrow> addr list \<Rightarrow> pstate \<Rightarrow> pstate option" where
  "new_exists_scan file_exists work_directory renames st = do {
     olds \<leftarrow> unchecked_olds renames (fst st) (hmap_new ());
     st1 \<leftarrow> mark_where (\<lambda>spec. hmap_get olds (Some (new_name spec)) \<noteq> None)
              STATUS_NEW_EXISTS add_error renames st;
     mark_where (\<lambda>spec. file_exists (cat_files work_directory (new_name spec)))
       STATUS_NEW_EXISTS add_error renames st1
   }"

fun previous_scan :: "addr list \<Rightarrow> pstate \<Rightarrow> pstate option" where
  "previous_scan [] (h, p) = Some (h, p)"
| "previous_scan (a # as) (h, p) = do {
     spec \<leftarrow> spec_at h a;
     previous_scan as (h,
       if status spec = STATUS_APPLY \<or> status spec = STATUS_CIRCULAR then add_ok a p
       else if status spec = STATUS_NO_CHANGE then add_no_change a p
       else if status spec \<noteq> STATUS_UNCHECKED then add_error a p
       else p)
   }"

subsection \<open>Topological sorting\<close>

fun free_destinations :: "(string \<Rightarrow> bool) \<Rightarrow> string \<Rightarrow> addr list \<Rightarrow> addr list \<Rightarrow> name_map \<Rightarrow> pstate
    \<Rightarrow> (addr list \<times> name_map \<times> pstate) option" where
  "free_destinations file_exists wd [] pending available (h, p) = Some (pending, available, (h, p))"
| "free_destinations file_exists wd (a # as) pending available (h, p) = do {
     spec \<leftarrow> spec_at h a;
     if status spec = STATUS_UNCHECKED then
       if \<not> file_exists (cat_files wd (new_name spec)) then do {
         h1 \<leftarrow> set_status a STATUS_APPLY h;
         free_destinations file_exists wd as pending
           (map_put available (old_name spec) a) (h1, add_ok a p)
       } else free_destinations file_exists wd as (pending @ [a]) available (h, p)
     else free_destinations file_exists wd as pending available (h, p)
   }"

text \<open>
  One round over the pending renames: the list that is left, the names that have become
  available, the state, and whether anything changed.
\<close>

fun topo_pass :: "addr list \<Rightarrow> name_map \<Rightarrow> pstate
    \<Rightarrow> (addr list \<times> name_map \<times> pstate \<times> bool) option" where
  "topo_pass [] available (h, p) = Some ([], available, (h, p), False)"
| "topo_pass (a # as) available (h, p) = do {
     spec \<leftarrow> spec_at h a;
     case hmap_get available (Some (new_name spec)) of
       None \<Rightarrow> do {
         (rest, available', st, changed) \<leftarrow> topo_pass as available (h, p);
         Some (a # rest, available', st, changed)
       }
     | Some depend \<Rightarrow> do {
         h1 \<leftarrow> set_prev a (Some depend) h;
         h2 \<leftarrow> set_next depend (Some a) h1;
         h3 \<leftarrow> set_status a STATUS_APPLY h2;
         (rest, available', st, changed) \<leftarrow>
           topo_pass as (map_remove (map_put available (old_name spec) a) (new_name spec))
             (h3, add_ok a p);
         Some (rest, available', st, True)
       }
   }"

lemma topo_pass_length:
  "topo_pass pending available st = Some (rest, available', st', changed) \<Longrightarrow>
   length rest \<le> length pending \<and> (changed \<longrightarrow> length rest < length pending)"
proof (induction pending available st arbitrary: rest available' st' changed rule: topo_pass.induct)
  case (2 a as available h p)
  then show ?case
    by (fastforce split: option.splits prod.splits elim!: bind_eq_SomeE simp: less_Suc_eq_le)
qed simp

function topo_loop :: "addr list \<Rightarrow> name_map \<Rightarrow> pstate \<Rightarrow> pstate option" where
  "topo_loop pending available st =
     (case topo_pass pending available st of
        None \<Rightarrow> None
      | Some (rest, available', st', changed) \<Rightarrow>
          if changed then topo_loop rest available' st' else Some st')"
  by pat_completeness auto
termination
  by (relation "measure (\<lambda>(pending, available, st). length pending)")
    (auto dest: topo_pass_length)

declare topo_loop.simps [simp del]

definition topologic_sort :: "(string \<Rightarrow> bool) \<Rightarrow> string \<Rightarrow> addr list \<Rightarrow> pstate \<Rightarrow> pstate option" where
  "topologic_sort file_exists work_directory renames st = do {
     (pending, available, st1) \<leftarrow>
       free_destinations file_exists work_directory renames [] (hmap_new ()) st;
     topo_loop pending available st1
   }"

subsection \<open>Circular renames\<close>

fun index_names :: "addr list \<Rightarrow> spec_heap \<Rightarrow> name_map \<Rightarrow> name_map \<Rightarrow> (name_map \<times> name_map) option" where
  "index_names [] h map_old map_new = Some (map_old, map_new)"
| "index_names (a # as) h map_old map_new = do {
     spec \<leftarrow> spec_at h a;
     if status spec = STATUS_UNCHECKED then
       index_names as h (map_put map_old (old_name spec) a) (map_put map_new (new_name spec) a)
     else if status spec = STATUS_APPLY then
       index_names as h map_old (map_put map_new (new_name spec) a)
     else index_names as h map_old map_new
   }"

text \<open>
  The endless \<open>for (;;)\<close> that follows the renames from new to old, as \<open>s2\<close> and
  \<open>prev_circular\<close> move; the loop is given a bound on its rounds, and running out of it is
  \<^const>\<open>None\<close>.
\<close>

fun follow_renames :: "nat \<Rightarrow> name_map \<Rightarrow> addr \<Rightarrow> addr \<Rightarrow> addr \<Rightarrow> spec_heap \<Rightarrow> spec_heap option" where
  "follow_renames 0 map_old s1 s2 prev_circular h = None"
| "follow_renames (Suc fuel) map_old s1 s2 prev_circular h = do {
     spec2 \<leftarrow> spec_at h s2;
     case hmap_get map_old (Some (new_name spec2)) of
       None \<Rightarrow> set_next s1 None h
     | Some t \<Rightarrow> do {
         spect \<leftarrow> spec_at h t;
         if status spect \<noteq> STATUS_UNCHECKED then set_next s1 None h
         else if t = s1 then set_next prev_circular None h
         else do {
           h1 \<leftarrow> set_next prev_circular (Some t) h;
           follow_renames fuel map_old s1 t t h1
         }
       }
   }"

text \<open>
  The first name \<open>old-1\<close>, \<open>old-2\<close>, \<dots> that no file and no destination has; \<^const>\<open>None\<close> if
  there is none (the \<open>int\<close> counter of the code would overflow).
\<close>

definition tmp_name :: "string \<Rightarrow> nat \<Rightarrow> string" where
  "tmp_name old n = old @ ''-'' @ dec_of n"

partial_function (option) find_tmp_name ::
  "(string \<Rightarrow> bool) \<Rightarrow> string \<Rightarrow> name_map \<Rightarrow> string \<Rightarrow> nat \<Rightarrow> string option" where
  "find_tmp_name file_exists wd map_new old tmp_count =
     (let tmp = tmp_name old tmp_count
      in if file_exists (cat_files wd tmp) \<or> hmap_contains_key map_new (Some tmp)
         then find_tmp_name file_exists wd map_new old (tmp_count + 1)
         else Some tmp)"

text \<open>An equation that evaluates: the test is decided before the next round is unfolded.\<close>

fun find_tmp_step :: "(string \<Rightarrow> bool) \<Rightarrow> string \<Rightarrow> name_map \<Rightarrow> string \<Rightarrow> nat \<Rightarrow> bool \<Rightarrow> string option" where
  "find_tmp_step file_exists wd map_new old n True = find_tmp_name file_exists wd map_new old (n + 1)"
| "find_tmp_step file_exists wd map_new old n False = Some (tmp_name old n)"

lemma find_tmp_name_code [code]:
  "find_tmp_name file_exists wd map_new old n =
     find_tmp_step file_exists wd map_new old n
       (file_exists (cat_files wd (tmp_name old n)) \<or>
        hmap_contains_key map_new (Some (tmp_name old n)))"
  by (subst find_tmp_name.simps) (simp add: Let_def)

fun mark_circular :: "nat \<Rightarrow> addr option \<Rightarrow> pstate \<Rightarrow> pstate option" where
  "mark_circular fuel None (h, p) = Some (h, p)"
| "mark_circular 0 (Some a) (h, p) = None"
| "mark_circular (Suc fuel) (Some a) (h, p) = do {
     h1 \<leftarrow> set_status a STATUS_CIRCULAR h;
     spec \<leftarrow> spec_at h1 a;
     mark_circular fuel (next_spec spec) (h1, add_first_ok a p)
   }"

text \<open>The last loop: chain the objects at the front of the list, up to and with \<open>s1\<close>.\<close>

fun relink :: "addr \<Rightarrow> addr \<Rightarrow> addr list \<Rightarrow> spec_heap \<Rightarrow> spec_heap option" where
  "relink s2 s1 [] h = Some h"
| "relink s2 s1 (a # as) h = do {
     h1 \<leftarrow> set_next s2 (Some a) h;
     h2 \<leftarrow> set_prev a (Some s2) h1;
     if a = s1 then Some h2 else relink a s1 as h2
   }"

text \<open>
  A rename that starts a cycle: its object gets the status APPLY and leaves the chain, a copy
  takes its place, and a new object renames the file to the temporary name first.
\<close>

definition break_cycle :: "nat \<Rightarrow> addr \<Rightarrow> string \<Rightarrow> pstate \<Rightarrow> pstate option" where
  "break_cycle fuel s1 tmp = (\<lambda>(h, p). do {
     spec1 \<leftarrow> spec_at h s1;
     let (copy, h1) = new_file_spec h;
     h2 \<leftarrow> modify_spec copy (\<lambda>s. s\<lparr>status := STATUS_CIRCULAR, old_name := old_name spec1,
             new_name := new_name spec1, next_spec := next_spec spec1,
             prev_spec := prev_spec spec1\<rparr>) h1;
     h3 \<leftarrow> modify_spec s1 (\<lambda>s. s\<lparr>status := STATUS_APPLY, next_spec := None, prev_spec := None\<rparr>) h2;
     (h4, p1) \<leftarrow> mark_circular fuel (next_spec spec1) (h3, add_first_ok copy p);
     let (extra, h5) = new_file_spec h4;
     h6 \<leftarrow> modify_spec extra (\<lambda>s. s\<lparr>status := STATUS_CIRCULAR, old_name := old_name spec1,
             new_name := tmp\<rparr>) h5;
     h7 \<leftarrow> modify_spec copy (\<lambda>s. s\<lparr>old_name := tmp\<rparr>) h6;
     h8 \<leftarrow> relink extra copy (plan_ok p1) h7;
     h9 \<leftarrow> set_next copy None h8;
     Some (h9, add_first_ok extra p1)
   })"

fun resolve_loop :: "(string \<Rightarrow> bool) \<Rightarrow> string \<Rightarrow> nat \<Rightarrow> name_map \<Rightarrow> name_map \<Rightarrow> addr list \<Rightarrow> pstate
    \<Rightarrow> pstate option" where
  "resolve_loop file_exists wd fuel map_old map_new [] (h, p) = Some (h, p)"
| "resolve_loop file_exists wd fuel map_old map_new (a # as) (h, p) = do {
     spec \<leftarrow> spec_at h a;
     if status spec \<noteq> STATUS_UNCHECKED
     then resolve_loop file_exists wd fuel map_old map_new as (h, p)
     else do {
       h1 \<leftarrow> follow_renames fuel map_old a a a h;
       spec1 \<leftarrow> spec_at h1 a;
       st \<leftarrow> (case next_spec spec1 of
         None \<Rightarrow> do {
           h2 \<leftarrow> set_status a STATUS_NEW_EXISTS h1;
           Some (h2, add_error a p)
         }
       | Some _ \<Rightarrow> do {
           tmp \<leftarrow> find_tmp_name file_exists wd map_new (old_name spec1) 1;
           break_cycle fuel a tmp (h1, p)
         });
       resolve_loop file_exists wd fuel map_old map_new as st
     }
   }"

definition cross_reference_resolve :: "(string \<Rightarrow> bool) \<Rightarrow> string \<Rightarrow> addr list \<Rightarrow> pstate
    \<Rightarrow> pstate option" where
  "cross_reference_resolve file_exists work_directory renames st = do {
     (map_old, map_new) \<leftarrow> index_names renames (fst st) (hmap_new ()) (hmap_new ());
     resolve_loop file_exists work_directory (Suc (length renames)) map_old map_new renames st
   }"

subsection \<open>The whole plan\<close>

definition make_plan :: "string \<Rightarrow> (string \<Rightarrow> bool) \<Rightarrow> string \<Rightarrow> addr list \<Rightarrow> spec_heap
    \<Rightarrow> pstate option" where
  "make_plan program file_exists work_directory renames h = do {
     st \<leftarrow> previous_scan renames (h, new_plan);
     st \<leftarrow> duplicate_scan renames st;
     st \<leftarrow> old_missing_scan file_exists work_directory renames st;
     st \<leftarrow> no_change_scan renames st;
     st \<leftarrow> (if strcmp program ''qmv'' = 0 then do {
         st \<leftarrow> topologic_sort file_exists work_directory renames st;
         cross_reference_resolve file_exists work_directory renames st
       } else if strcmp program ''qcp'' = 0 then
         new_exists_scan file_exists work_directory renames st
       else Some st);
     apply_unchecked renames st
   }"

end
