(* ===== verification/Scans.thy ===== *)
theory Scans
  imports Plan
begin

text \<open>
  What each scan of \<open>plan.c\<close> does, as one equation or one lemma per scan: the shared loop marks
  exactly the unchecked renames that meet its condition, in the order of the list, and the
  duplicate scan exactly the unchecked renames that share their destination with another one.
\<close>

abbreviation is_unchecked :: "spec_heap \<Rightarrow> addr \<Rightarrow> bool" where
  "is_unchecked h a \<equiv> status (the_spec h a) = STATUS_UNCHECKED"

abbreviation oldn :: "spec_heap \<Rightarrow> addr \<Rightarrow> string" where
  "oldn h a \<equiv> old_name (the_spec h a)"

abbreviation newn :: "spec_heap \<Rightarrow> addr \<Rightarrow> string" where
  "newn h a \<equiv> new_name (the_spec h a)"

definition mark_all :: "file_spec_status \<Rightarrow> addr list \<Rightarrow> spec_heap \<Rightarrow> spec_heap" where
  "mark_all st as h = fold (\<lambda>a. upd a (\<lambda>s. s\<lparr>status := st\<rparr>)) as h"

lemma mark_all_simps [simp]:
  "mark_all st [] h = h"
  "mark_all st (a # as) h = mark_all st as (upd a (\<lambda>s. s\<lparr>status := st\<rparr>) h)"
  by (simp_all add: mark_all_def)

lemma the_spec_mark_all [simp, heap_simps]:
  "the_spec (mark_all st as h) b =
     (if b \<in> set as then (the_spec h b)\<lparr>status := st\<rparr> else the_spec h b)"
  by (induction as arbitrary: h) auto

lemma live_mark_all [heap_simps]: "live (mark_all st as h) b \<longleftrightarrow> b \<in> set as \<or> live h b"
  by (induction as arbitrary: h) auto

lemma next_addr_mark_all [simp, heap_simps]: "next_addr (mark_all st as h) = next_addr h"
  by (induction as arbitrary: h) auto

lemma fold_add [simp]:
  "fold add_ok xs p = p\<lparr>plan_ok := plan_ok p @ xs\<rparr>"
  "fold add_error xs p = p\<lparr>plan_error := plan_error p @ xs\<rparr>"
  "fold add_no_change xs p = p\<lparr>plan_no_change := plan_no_change p @ xs\<rparr>"
  by (induction xs arbitrary: p) (simp_all add: add_ok_def add_error_def add_no_change_def)

subsection \<open>The shared loop\<close>

definition hits :: "(file_spec \<Rightarrow> bool) \<Rightarrow> spec_heap \<Rightarrow> addr list \<Rightarrow> addr list" where
  "hits cond h as = filter (\<lambda>a. is_unchecked h a \<and> cond (the_spec h a)) as"

lemma hits_Cons:
  "hits cond h (a # as) =
     (if is_unchecked h a \<and> cond (the_spec h a) then a # hits cond h as else hits cond h as)"
  by (simp add: hits_def)

lemma hits_upd [simp]: "a \<notin> set as \<Longrightarrow> hits cond (upd a f h) as = hits cond h as"
  unfolding hits_def by (rule filter_cong) auto

lemma mark_where_eq:
  assumes "distinct as" "\<forall>a \<in> set as. live h a"
  shows "mark_where cond st add as (h, p) =
           Some (mark_all st (hits cond h as) h, fold add (hits cond h as) p)"
  using assms
proof (induction as arbitrary: h p)
  case Nil
  then show ?case by (simp add: hits_def)
next
  case (Cons a as)
  then show ?case by (simp add: hits_Cons)
qed

subsection \<open>Duplicates\<close>

definition dup_set :: "spec_heap \<Rightarrow> addr set \<Rightarrow> addr set" where
  "dup_set h A = {a \<in> A. is_unchecked h a \<and> (\<exists>b \<in> A. b \<noteq> a \<and> is_unchecked h b \<and> newn h b = newn h a)}"

text \<open>The state after the renames \<open>A\<close> have been scanned, starting from \<open>h0\<close> and \<open>p0\<close>.\<close>

definition dup_state :: "spec_heap \<Rightarrow> apply_plan \<Rightarrow> addr set \<Rightarrow> name_map \<Rightarrow> pstate \<Rightarrow> bool" where
  "dup_state h0 p0 A seen st \<longleftrightarrow> (case st of (h, p) \<Rightarrow>
     hmap_ok seen \<and>
     (\<forall>k b. hmap_lookup seen k = Some b \<longrightarrow> b \<in> A \<and> is_unchecked h0 b \<and> newn h0 b = k) \<and>
     (\<forall>b \<in> A. is_unchecked h0 b \<longrightarrow> hmap_lookup seen (newn h0 b) \<noteq> None) \<and>
     (\<forall>b. the_spec h b = (if b \<in> dup_set h0 A then (the_spec h0 b)\<lparr>status := STATUS_DUPLICATE\<rparr>
        else the_spec h0 b)) \<and>
     (\<forall>b. live h b \<longleftrightarrow> live h0 b) \<and> next_addr h = next_addr h0 \<and>
     (\<exists>es. p = p0\<lparr>plan_error := plan_error p0 @ es\<rparr> \<and> distinct es \<and> set es = dup_set h0 A))"

lemma dup_set_insert_new:
  "\<forall>b \<in> A. is_unchecked h b \<longrightarrow> newn h b \<noteq> newn h a \<Longrightarrow> dup_set h (insert a A) = dup_set h A"
  by (auto simp: dup_set_def)

lemma dup_set_insert_checked: "\<not> is_unchecked h a \<Longrightarrow> dup_set h (insert a A) = dup_set h A"
  by (auto simp: dup_set_def)

lemma dup_set_insert_old:
  assumes "is_unchecked h a" "a \<notin> A" "b \<in> A" "is_unchecked h b" "newn h b = newn h a"
  shows "dup_set h (insert a A) = insert a (insert b (dup_set h A))"
proof -
  have "a \<noteq> b" using assms by auto
  then show ?thesis
    using assms by (auto simp: dup_set_def; metis)
qed

lemma dup_state_skip:
  assumes "dup_state h0 p0 A seen (h, p)" "\<not> is_unchecked h0 a"
  shows "dup_state h0 p0 (insert a A) seen (h, p)"
  using assms unfolding dup_state_def by (simp add: dup_set_insert_checked)

lemma dup_state_fresh:
  assumes st: "dup_state h0 p0 A seen (h, p)" and a: "is_unchecked h0 a"
    and fresh: "hmap_lookup seen (newn h0 a) = None"
  shows "dup_state h0 p0 (insert a A) (map_put seen (newn h0 a) a) (h, p)"
proof -
  have "\<forall>b \<in> A. is_unchecked h0 b \<longrightarrow> newn h0 b \<noteq> newn h0 a"
    using st fresh unfolding dup_state_def by fastforce
  then have "dup_set h0 (insert a A) = dup_set h0 A" by (rule dup_set_insert_new)
  moreover have "hmap_ok seen" using st by (simp add: dup_state_def)
  ultimately show ?thesis
    using st a by (auto simp: dup_state_def hm.put_ok hm.put_lookup)
qed

lemma dup_set_sub: "dup_set h A \<subseteq> A"
  by (auto simp: dup_set_def)

lemma dup_state_mark:
  assumes st: "dup_state h0 p0 A seen (h, p)" and a: "is_unchecked h0 a" "a \<notin> A" "live h0 a"
    and b: "hmap_lookup seen (newn h0 a) = Some b" and live: "\<forall>c \<in> A. live h0 c"
  shows "dup_state h0 p0 (insert a A) (map_put seen (newn h0 a) a)
    (if is_unchecked h b
     then (mark_all STATUS_DUPLICATE [b, a] h, p\<lparr>plan_error := plan_error p @ [b, a]\<rparr>)
     else (mark_all STATUS_DUPLICATE [a] h, p\<lparr>plan_error := plan_error p @ [a]\<rparr>))"
proof -
  from st b have bA: "b \<in> A" "is_unchecked h0 b" "newn h0 b = newn h0 a" and ok: "hmap_ok seen"
    by (auto simp: dup_state_def)
  note ins = dup_set_insert_old [OF a(1,2) bA]
  have ub: "is_unchecked h b \<longleftrightarrow> b \<notin> dup_set h0 A"
    using st bA by (auto simp: dup_state_def)
  have na: "a \<notin> dup_set h0 A" "a \<noteq> b" "live h0 b"
    using a(2) bA live dup_set_sub by auto
  obtain es where es: "p = p0\<lparr>plan_error := plan_error p0 @ es\<rparr>" "distinct es" "set es = dup_set h0 A"
    using st by (auto simp: dup_state_def)
  show ?thesis
  proof (cases "is_unchecked h b")
    case True
    have "\<exists>es'. p\<lparr>plan_error := plan_error p @ [b, a]\<rparr> = p0\<lparr>plan_error := plan_error p0 @ es'\<rparr> \<and>
        distinct es' \<and> set es' = dup_set h0 (insert a A)"
      by (rule exI [of _ "es @ [b, a]"]) (use es na True ub in \<open>auto simp: ins\<close>)
    with True st a na ub ok show ?thesis
      unfolding dup_state_def by (auto simp: hm.put_ok hm.put_lookup ins)
  next
    case False
    have "\<exists>es'. p\<lparr>plan_error := plan_error p @ [a]\<rparr> = p0\<lparr>plan_error := plan_error p0 @ es'\<rparr> \<and>
        distinct es' \<and> set es' = dup_set h0 (insert a A)"
      by (rule exI [of _ "es @ [a]"]) (use es na False ub in \<open>auto simp: ins\<close>)
    moreover have "dup_set h0 (insert a A) = insert a (dup_set h0 A)"
      using False ub ins by auto
    ultimately show ?thesis
      using False st a na ok unfolding dup_state_def by (auto simp: hm.put_ok hm.put_lookup)
  qed
qed

lemma duplicate_scan_loop_state:
  assumes "dup_state h0 p0 A seen (h, p)" "distinct as" "set as \<inter> A = {}"
    "\<forall>a \<in> A \<union> set as. live h0 a"
  shows "\<exists>st seen'. duplicate_scan_loop as seen (h, p) = Some st \<and>
           dup_state h0 p0 (A \<union> set as) seen' st"
  using assms
proof (induction as arbitrary: A seen h p)
  case Nil
  then show ?case by auto
next
  case (Cons a as)
  note st = Cons.prems(1)
  have ok: "hmap_ok seen" using st by (simp add: dup_state_def)
  have a: "a \<notin> A" "live h a" "live h0 a" using Cons.prems by (auto simp: dup_state_def)
  have spec: "the_spec h a = the_spec h0 a"
    using st a(1) dup_set_sub by (auto simp: dup_state_def)
  have next_st: "\<exists>st seen'. duplicate_scan_loop as seen1 (h1, p1) = Some st \<and>
      dup_state h0 p0 (A \<union> set (a # as)) seen' st"
    if "dup_state h0 p0 (insert a A) seen1 (h1, p1)" for seen1 h1 p1
    using Cons.IH [OF that] Cons.prems by auto
  show ?case
  proof (cases "is_unchecked h0 a")
    case False
    with next_st [OF dup_state_skip [OF st False]] a show ?thesis by (simp add: spec)
  next
    case True
    show ?thesis
    proof (cases "hmap_lookup seen (newn h0 a)")
      case None
      then obtain seen1 where put: "hmap_put seen (Some (newn h0 a)) a = (seen1, None)"
        using hm.put_old [OF ok, of "newn h0 a" a] by (metis prod.collapse)
      from dup_state_fresh [OF st True None] have "dup_state h0 p0 (insert a A) seen1 (h, p)"
        by (simp add: put)
      from next_st [OF this] put True a show ?thesis by (simp add: spec)
    next
      case (Some b)
      then obtain seen1 where put: "hmap_put seen (Some (newn h0 a)) a = (seen1, Some b)"
        using hm.put_old [OF ok, of "newn h0 a" a] by (metis prod.collapse)
      have "\<forall>c \<in> A. live h0 c" using Cons.prems by auto
      note mark = dup_state_mark [OF st True a(1,3) Some this, unfolded put fst_conv]
      have "live h b" using st Some Cons.prems(4) by (auto simp: dup_state_def)
      with next_st mark put True a show ?thesis
        by (cases "is_unchecked h b") (simp_all add: spec add_error_def)
    qed
  qed
qed

lemma duplicate_scan_state:
  assumes "distinct as" "\<forall>a \<in> set as. live h a"
  shows "\<exists>h1 es. duplicate_scan as (h, p) = Some (h1, p\<lparr>plan_error := plan_error p @ es\<rparr>) \<and>
    distinct es \<and> set es = dup_set h (set as) \<and> next_addr h1 = next_addr h \<and>
    (\<forall>b. live h1 b \<longleftrightarrow> live h b) \<and>
    (\<forall>b. the_spec h1 b = (if b \<in> dup_set h (set as)
       then (the_spec h b)\<lparr>status := STATUS_DUPLICATE\<rparr> else the_spec h b))"
proof -
  have "dup_state h p {} (hmap_new ()) (h, p)"
    by (auto simp: dup_state_def dup_set_def hm.empty_ok)
  from duplicate_scan_loop_state [OF this assms(1)] assms(2) obtain st seen where
    "duplicate_scan_loop as (hmap_new ()) (h, p) = Some st" "dup_state h p (set as) seen st"
    by auto
  then show ?thesis
    by (cases st) (auto simp: dup_state_def duplicate_scan_def)
qed

end
