(* ===== verification/Moves.thy ===== *)
theory Moves
  imports Prelude
begin

text \<open>
  The abstract specification of a plan: what a list of single moves does to the files, and what
  renaming many files at once means.  A file system is a partial function from names to
  contents; a move is the pair of the old and the new name, and it is defined only when the file
  exists and the destination is free, so that a sequence with a result overwrites nothing.
\<close>

type_synonym 'f files = "string \<rightharpoonup> 'f"
type_synonym move = "string \<times> string"

definition do_move :: "move \<Rightarrow> 'f files \<Rightarrow> 'f files option" where
  "do_move m fs =
     (if fs (fst m) \<noteq> None \<and> fs (snd m) = None
      then Some (fs(snd m := fs (fst m), fst m := None)) else None)"

fun do_moves :: "move list \<Rightarrow> 'f files \<Rightarrow> 'f files option" where
  "do_moves [] fs = Some fs"
| "do_moves (m # ms) fs = do { fs1 \<leftarrow> do_move m fs; do_moves ms fs1 }"

text \<open>
  All renames of \<open>S\<close> at the same moment: every destination holds the old content of its source,
  a source that is no destination is gone, and every other name is as before.
\<close>

definition simultaneous :: "move set \<Rightarrow> 'f files \<Rightarrow> 'f files \<Rightarrow> bool" where
  "simultaneous S fs fs' \<longleftrightarrow>
     (\<forall>(old, new) \<in> S. fs' new = fs old) \<and>
     (\<forall>n. n \<notin> snd ` S \<longrightarrow> fs' n = (if n \<in> fst ` S then None else fs n))"

text \<open>A list of moves carries out the set of renames on every file system with these names.\<close>

definition realises :: "'f itself \<Rightarrow> move list \<Rightarrow> move set \<Rightarrow> string set \<Rightarrow> bool" where
  "realises ty ms S F \<longleftrightarrow>
     (\<forall>fs :: 'f files. dom fs = F \<longrightarrow> (\<exists>fs'. do_moves ms fs = Some fs' \<and> simultaneous S fs fs'))"

lemma simultaneousD:
  assumes "simultaneous S fs fs'"
  shows "(old, new) \<in> S \<Longrightarrow> fs' new = fs old"
    and "n \<notin> snd ` S \<Longrightarrow> n \<in> fst ` S \<Longrightarrow> fs' n = None"
    and "n \<notin> snd ` S \<Longrightarrow> n \<notin> fst ` S \<Longrightarrow> fs' n = fs n"
  using assms by (auto simp: simultaneous_def)

lemma simultaneous_empty [simp]: "simultaneous {} fs fs' \<longleftrightarrow> fs' = fs"
  by (auto simp: simultaneous_def)

lemma do_moves_append:
  "do_moves (xs @ ys) fs = do { fs1 \<leftarrow> do_moves xs fs; do_moves ys fs1 }"
  by (induction xs arbitrary: fs) (auto split: bind_splits)

lemma do_move_simultaneous:
  "fst m \<noteq> snd m \<Longrightarrow> do_move m fs = Some fs' \<Longrightarrow> simultaneous {m} fs fs'"
  by (cases m) (auto simp: do_move_def simultaneous_def split: if_splits)

lemma simultaneous_compose:
  assumes S: "simultaneous S fs fs1" and T: "simultaneous T fs1 fs2"
    and "snd ` S \<inter> fst ` T = {}" "fst ` S \<inter> fst ` T = {}" "snd ` S \<inter> snd ` T = {}"
  shows "simultaneous (S \<union> T) fs fs2"
  unfolding simultaneous_def
proof (intro conjI ballI allI impI)
  fix m
  assume "m \<in> S \<union> T"
  then obtain old new where m: "m = (old, new)" "(old, new) \<in> S \<or> (old, new) \<in> T"
    by (cases m) auto
  from m(2) have "fs2 new = fs old"
  proof
    assume new: "(old, new) \<in> S"
    then have "new \<notin> snd ` T" "new \<notin> fst ` T"
      using assms(3,5) by force+
    with simultaneousD(3) [OF T] simultaneousD(1) [OF S new] show ?thesis by simp
  next
    assume new: "(old, new) \<in> T"
    then have "old \<notin> snd ` S" "old \<notin> fst ` S"
      using assms(3,4) by force+
    with simultaneousD(3) [OF S] simultaneousD(1) [OF T new] show ?thesis by simp
  qed
  with m show "case m of (old, new) \<Rightarrow> fs2 new = fs old" by simp
next
  fix n
  assume "n \<notin> snd ` (S \<union> T)"
  then have n: "n \<notin> snd ` S" "n \<notin> snd ` T" by auto
  then show "fs2 n = (if n \<in> fst ` (S \<union> T) then None else fs n)"
    using simultaneousD(2,3) [OF S n(1)] simultaneousD(2,3) [OF T n(2)]
    by (cases "n \<in> fst ` S"; cases "n \<in> fst ` T") (simp_all add: image_Un)
qed

subsection \<open>Growing a list of moves\<close>

lemma realises_empty: "realises ty [] {} F"
  by (simp add: realises_def)

text \<open>A move at the end whose source is untouched and whose destination is free by then.\<close>

lemma realises_snoc:
  assumes "realises (ty :: 'f itself) ms S F" and old: "old \<in> F" "old \<notin> fst ` S" "old \<notin> snd ` S"
    and new: "new \<notin> F \<or> new \<in> fst ` S" "new \<notin> snd ` S" "old \<noteq> new"
  shows "realises ty (ms @ [(old, new)]) (insert (old, new) S) F"
  unfolding realises_def
proof (intro allI impI)
  fix fs :: "'f files"
  assume dom: "dom fs = F"
  with assms(1) obtain fs1 where fs1: "do_moves ms fs = Some fs1" "simultaneous S fs fs1"
    by (auto simp: realises_def)
  have "fs1 old = fs old" by (rule simultaneousD(3) [OF fs1(2) old(3,2)])
  then have "fs1 old \<noteq> None" using old(1) dom by auto
  moreover have "fs1 new = None"
    using new(1) simultaneousD(2,3) [OF fs1(2) new(2)] dom by (cases "new \<in> fst ` S") auto
  ultimately obtain fs2 where fs2: "do_move (old, new) fs1 = Some fs2"
    by (auto simp: do_move_def)
  then have "simultaneous {(old, new)} fs1 fs2"
    using do_move_simultaneous [of "(old, new)"] new(3) by simp
  then have "simultaneous (S \<union> {(old, new)}) fs fs2"
    by (rule simultaneous_compose [OF fs1(2)]) (use old new in auto)
  then show "\<exists>fs'. do_moves (ms @ [(old, new)]) fs = Some fs' \<and>
      simultaneous (insert (old, new) S) fs fs'"
    using fs1 fs2 by (simp add: do_moves_append)
qed

text \<open>Every move of the list goes to the name that has just become free.\<close>

fun hole_chain :: "string \<Rightarrow> move list \<Rightarrow> string \<Rightarrow> bool" where
  "hole_chain x [] y = (x = y)"
| "hole_chain x (m # ms) y = (snd m = x \<and> hole_chain (fst m) ms y)"

lemma hole_chain_append:
  "hole_chain x (xs @ ys) z \<longleftrightarrow> (\<exists>y. hole_chain x xs y \<and> hole_chain y ys z)"
  by (induction xs arbitrary: x) auto

lemma hole_chain_names:
  "hole_chain x ms y \<Longrightarrow> insert y (snd ` set ms) = insert x (fst ` set ms)"
  by (induction ms arbitrary: x) auto

lemma hole_chain_moves:
  assumes "hole_chain x ms y" "fs x = None" "x \<notin> fst ` set ms" "distinct (map fst ms)"
    "\<forall>m \<in> set ms. fs (fst m) \<noteq> None"
  shows "\<exists>fs'. do_moves ms fs = Some fs' \<and> simultaneous (set ms) fs fs' \<and> fs' y = None"
  using assms
proof (induction ms arbitrary: x fs)
  case (Cons m ms)
  obtain old where m: "m = (old, x)" using Cons.prems(1) by (cases m) auto
  let ?fs = "fs(x := fs old, old := None)"
  have one: "do_move m fs = Some ?fs" using Cons.prems by (auto simp: m do_move_def)
  have hole: "hole_chain old ms y" using Cons.prems(1) by (simp add: m)
  have old: "old \<noteq> x" "old \<notin> fst ` set ms" "x \<notin> fst ` set ms"
    using Cons.prems(3,4) by (auto simp: m)
  have "\<exists>fs'. do_moves ms ?fs = Some fs' \<and> simultaneous (set ms) ?fs fs' \<and> fs' y = None"
  proof (rule Cons.IH [OF hole])
    show "\<forall>m \<in> set ms. ?fs (fst m) \<noteq> None" using Cons.prems(5) old by auto
  qed (use Cons.prems(4) old in \<open>auto simp: m\<close>)
  then obtain fs' where fs': "do_moves ms ?fs = Some fs'" "simultaneous (set ms) ?fs fs'"
    "fs' y = None" by blast
  have "x \<notin> snd ` set ms"
    using hole_chain_names [OF hole] old by auto
  then have "simultaneous ({m} \<union> set ms) fs fs'"
    using do_move_simultaneous [OF _ one] fs'(2) old
    by (intro simultaneous_compose [of _ fs ?fs]) (auto simp: m)
  with fs' one show ?case by simp
qed simp

text \<open>
  A cycle, broken by a move to a temporary name: the first file steps aside, the others move up,
  and the first one takes the place that is left.
\<close>

lemma cycle_moves:
  assumes chain: "hole_chain old ms new" and dist: "distinct (old # map fst ms)"
    and dom: "fs old \<noteq> None" "\<forall>m \<in> set ms. fs (fst m) \<noteq> None"
    and tmp: "fs tmp = None" "tmp \<noteq> new" "tmp \<notin> snd ` set ms"
  shows "\<exists>fs'. do_moves ((old, tmp) # ms @ [(tmp, new)]) fs = Some fs' \<and>
           simultaneous (insert (old, new) (set ms)) fs fs'"
proof -
  let ?fs = "fs(tmp := fs old, old := None)"
  have ne: "tmp \<noteq> old" "tmp \<notin> fst ` set ms" using dom tmp(1) by auto
  have first: "do_move (old, tmp) fs = Some ?fs" using dom tmp by (auto simp: do_move_def)
  have "\<exists>fs'. do_moves ms ?fs = Some fs' \<and> simultaneous (set ms) ?fs fs' \<and> fs' new = None"
    by (rule hole_chain_moves [OF chain]) (use dist dom ne in auto)
  then obtain fs1 where fs1: "do_moves ms ?fs = Some fs1" "simultaneous (set ms) ?fs fs1"
    "fs1 new = None" by blast
  have t: "fs1 tmp = fs old"
    using simultaneousD(3) [OF fs1(2) tmp(3) ne(2)] ne(1) by simp
  let ?fs' = "fs1(new := fs1 tmp, tmp := None)"
  have last: "do_move (tmp, new) fs1 = Some ?fs'"
    using t dom fs1(3) by (simp add: do_move_def)
  have names: "insert new (snd ` set ms) = insert old (fst ` set ms)"
    by (rule hole_chain_names [OF chain])
  have new: "new \<notin> snd ` set ms"
  proof
    assume "new \<in> snd ` set ms"
    then have "snd ` set ms = insert old (fst ` set ms)" using names by auto
    then have "card (set (map snd ms)) = card (set (old # map fst ms))" by simp
    then show False
      using dist card_length [of "map snd ms"] distinct_card [of "map fst ms"] by simp
  qed
  have "simultaneous (insert (old, new) (set ms)) fs ?fs'"
    unfolding simultaneous_def
  proof (intro conjI ballI allI impI)
    fix m
    assume "m \<in> insert (old, new) (set ms)"
    then show "case m of (o', n') \<Rightarrow> ?fs' n' = fs o'"
    proof
      assume "m = (old, new)"
      then show ?thesis using t tmp(2) by auto
    next
      assume m: "m \<in> set ms"
      then have "fs1 (snd m) = ?fs (fst m)"
        using simultaneousD(1) [OF fs1(2), of "fst m" "snd m"] by simp
      moreover have "fst m \<noteq> old" "fst m \<noteq> tmp" "snd m \<noteq> new" "snd m \<noteq> tmp"
        using m dist ne tmp new by force+
      ultimately show ?thesis by (auto split: prod.split)
    qed
  next
    fix n
    assume "n \<notin> snd ` insert (old, new) (set ms)"
    then have n: "n \<noteq> new" "n \<notin> snd ` set ms" by auto
    have "n \<noteq> old" "n \<notin> fst ` set ms" using names n by auto
    then show "?fs' n = (if n \<in> fst ` insert (old, new) (set ms) then None else fs n)"
      using simultaneousD(3) [OF fs1(2) n(2)] n tmp by auto
  qed
  with first fs1 last show ?thesis by (simp add: do_moves_append)
qed

lemma realises_cycle:
  assumes rest: "realises (ty :: 'f itself) rest S F"
    and chain: "hole_chain old ms new" "distinct (old # map fst ms)"
    and src: "old \<in> F" "fst ` set ms \<subseteq> F"
    and tmp: "tmp \<notin> F" "tmp \<noteq> new" "tmp \<notin> snd ` set ms"
    and disj: "(insert old (fst ` set ms)) \<inter> fst ` S = {}"
      "(insert old (fst ` set ms)) \<inter> snd ` S = {}"
  shows "realises ty (((old, tmp) # ms @ [(tmp, new)]) @ rest) (insert (old, new) (set ms) \<union> S) F"
  unfolding realises_def
proof (intro allI impI)
  fix fs :: "'f files"
  assume dom: "dom fs = F"
  let ?C = "insert (old, new) (set ms)"
  have names: "insert new (snd ` set ms) = insert old (fst ` set ms)"
    by (rule hole_chain_names [OF chain(1)])
  have "\<exists>fs'. do_moves ((old, tmp) # ms @ [(tmp, new)]) fs = Some fs' \<and> simultaneous ?C fs fs'"
    by (rule cycle_moves [OF chain]) (use src tmp dom in \<open>auto simp: domIff\<close>)
  then obtain fs1 where fs1: "do_moves ((old, tmp) # ms @ [(tmp, new)]) fs = Some fs1"
    "simultaneous ?C fs fs1" by blast
  have snds: "snd ` ?C = insert old (fst ` set ms)" and fsts: "fst ` ?C = insert old (fst ` set ms)"
    using names by auto
  have "dom fs1 = F"
  proof (intro set_eqI)
    fix n
    show "n \<in> dom fs1 \<longleftrightarrow> n \<in> F"
    proof (cases "n \<in> snd ` ?C")
      case True
      then obtain o' where o': "(o', n) \<in> ?C" by force
      then have "fs1 n = fs o'" "o' \<in> F"
        using simultaneousD(1) [OF fs1(2) o'] src by auto
      moreover have "n \<in> F" using True src unfolding snds by auto
      ultimately have "fs1 n = fs o'" "o' \<in> F" "n \<in> F" by simp_all
      with dom show ?thesis by (auto simp: domIff)
    next
      case False
      then have "n \<notin> fst ` ?C" unfolding fsts snds .
      then have "fs1 n = fs n" by (rule simultaneousD(3) [OF fs1(2) False])
      with dom show ?thesis by (auto simp: domIff)
    qed
  qed
  with rest obtain fs2 where fs2: "do_moves rest fs1 = Some fs2" "simultaneous S fs1 fs2"
    by (auto simp: realises_def)
  have "simultaneous (?C \<union> S) fs fs2"
    by (rule simultaneous_compose [OF fs1(2) fs2(2)]) (use disj snds fsts in auto)
  with fs1(1) fs2(1)
  show "\<exists>fs'. do_moves (((old, tmp) # ms @ [(tmp, new)]) @ rest) fs = Some fs' \<and>
      simultaneous (?C \<union> S) fs fs'"
    by (simp only: do_moves_append [of _ rest]) simp
qed

end
