(* ===== verification/Topo.thy ===== *)
theory Topo
  imports Scans Moves
begin

text \<open>
  The topological sort of \<open>plan.c\<close>.  \<open>ready\<close> is what the scans before it leave; \<open>topo_inv\<close> is
  the invariant of its loops: the plan built so far carries out its renames on every file system
  with the names that exist, each rename of the plan has a free destination or is linked to the
  earlier rename that frees it, and \<open>available\<close> holds the names that are free and not yet taken.
\<close>

abbreviation nextp :: "spec_heap \<Rightarrow> addr \<Rightarrow> addr option" where
  "nextp h a \<equiv> next_spec (the_spec h a)"

abbreviation prevp :: "spec_heap \<Rightarrow> addr \<Rightarrow> addr option" where
  "prevp h a \<equiv> prev_spec (the_spec h a)"

definition move_of :: "spec_heap \<Rightarrow> addr \<Rightarrow> move" where
  "move_of h a = (oldn h a, newn h a)"

lemma move_of_simps [simp]: "fst (move_of h a) = oldn h a" "snd (move_of h a) = newn h a"
  by (simp_all add: move_of_def)

subsection \<open>The two properties of the list \<open>ok\<close>\<close>

text \<open>
  \<open>linked\<close>: a rename without \<open>prev_spec\<close> has a destination that does not exist; any other one
  comes after its \<open>prev_spec\<close>, whose old name is its destination.
\<close>

fun linked :: "(string \<Rightarrow> bool) \<Rightarrow> spec_heap \<Rightarrow> addr set \<Rightarrow> addr list \<Rightarrow> bool" where
  "linked E h seen [] = True"
| "linked E h seen (a # as) =
     ((case prevp h a of None \<Rightarrow> \<not> E (newn h a) | Some b \<Rightarrow> b \<in> seen \<and> oldn h b = newn h a) \<and>
      linked E h (insert a seen) as)"

text \<open>\<open>twins\<close>: \<open>next_spec\<close> and \<open>prev_spec\<close> are inverse to each other within the list.\<close>

definition twins :: "spec_heap \<Rightarrow> addr set \<Rightarrow> bool" where
  "twins h A \<longleftrightarrow> (\<forall>x \<in> A. \<forall>y. nextp h x = Some y \<longleftrightarrow> y \<in> A \<and> prevp h y = Some x)"

lemma linked_append:
  "linked E h seen (xs @ ys) \<longleftrightarrow> linked E h seen xs \<and> linked E h (seen \<union> set xs) ys"
  by (induction xs arbitrary: seen) (auto simp: insert_commute)

lemma linked_mono: "linked E h seen xs \<Longrightarrow> seen \<subseteq> seen' \<Longrightarrow> linked E h seen' xs"
proof (induction xs arbitrary: seen seen')
  case (Cons a as)
  from Cons.IH [of "insert a seen" "insert a seen'"] Cons.prems show ?case
    by (auto split: option.splits)
qed simp

lemma linked_cong:
  assumes "linked E h seen xs"
    and "\<And>a. a \<in> set xs \<Longrightarrow> prevp h' a = prevp h a \<and> newn h' a = newn h a"
    and "\<And>a. a \<in> seen \<union> set xs \<Longrightarrow> oldn h' a = oldn h a"
  shows "linked E h' seen xs"
  using assms
proof (induction xs arbitrary: seen)
  case (Cons a as)
  have "linked E h' (insert a seen) as" by (rule Cons.IH) (use Cons.prems in auto)
  moreover have "prevp h' a = prevp h a" "newn h' a = newn h a" using Cons.prems(2) by auto
  ultimately show ?case using Cons.prems(1,3) by (auto split: option.splits)
qed simp

lemma linkedD:
  "linked E h seen xs \<Longrightarrow> a \<in> set xs \<Longrightarrow>
   (prevp h a = None \<and> \<not> E (newn h a)) \<or>
   (\<exists>b \<in> seen \<union> set xs. prevp h a = Some b \<and> oldn h b = newn h a)"
proof (induction xs arbitrary: seen)
  case (Cons c as)
  from Cons.IH [of "insert c seen"] Cons.prems show ?case
    by (auto split: option.splits)
qed simp

subsection \<open>The invariant\<close>

definition ready :: "(string \<Rightarrow> bool) \<Rightarrow> spec_heap \<Rightarrow> addr set \<Rightarrow> bool" where
  "ready E h0 U \<longleftrightarrow> inj_on (oldn h0) U \<and> inj_on (newn h0) U \<and>
     (\<forall>a \<in> U. live h0 a \<and> is_unchecked h0 a \<and> prevp h0 a = None \<and> nextp h0 a = None \<and>
        E (oldn h0 a) \<and> oldn h0 a \<noteq> newn h0 a)"

definition topo_frame :: "spec_heap \<Rightarrow> addr set \<Rightarrow> spec_heap \<Rightarrow> bool" where
  "topo_frame h0 U h \<longleftrightarrow> (\<forall>b. live h b \<longleftrightarrow> live h0 b) \<and> next_addr h = next_addr h0 \<and>
     (\<forall>b. b \<notin> U \<longrightarrow> the_spec h b = the_spec h0 b) \<and>
     (\<forall>b. oldn h b = oldn h0 b \<and> newn h b = newn h0 b)"

definition topo_inv :: "'f itself \<Rightarrow> (string \<Rightarrow> bool) \<Rightarrow> spec_heap \<Rightarrow> addr set \<Rightarrow>
    addr list \<Rightarrow> name_map \<Rightarrow> spec_heap \<Rightarrow> addr list \<Rightarrow> bool" where
  "topo_inv ty E h0 U pend av h L \<longleftrightarrow>
     topo_frame h0 U h \<and> hmap_ok av \<and>
     set L \<union> set pend = U \<and> distinct (L @ pend) \<and>
     (\<forall>b \<in> set pend. the_spec h b = the_spec h0 b) \<and>
     (\<forall>b \<in> set L. status (the_spec h b) = STATUS_APPLY) \<and>
     (\<forall>k b. hmap_lookup av k = Some b \<longleftrightarrow> b \<in> set L \<and> oldn h0 b = k \<and> nextp h b = None) \<and>
     twins h (set L) \<and> linked E h {} L \<and>
     realises ty (map (move_of h0) L) (move_of h0 ` set L) {n. E n}"

lemma topo_invD:
  assumes "topo_inv ty E h0 U pend av h L"
  shows "topo_frame h0 U h" "hmap_ok av" "set L \<union> set pend = U" "distinct (L @ pend)"
    "b \<in> set pend \<Longrightarrow> the_spec h b = the_spec h0 b"
    "b \<in> set L \<Longrightarrow> status (the_spec h b) = STATUS_APPLY"
    "hmap_lookup av k = Some b \<longleftrightarrow> b \<in> set L \<and> oldn h0 b = k \<and> nextp h b = None"
    "twins h (set L)" "linked E h {} L"
    "realises ty (map (move_of h0) L) (move_of h0 ` set L) {n. E n}"
  using assms by (auto simp: topo_inv_def)

lemma topo_invI:
  assumes "topo_frame h0 U h" "hmap_ok av" "set L \<union> set pend = U" "distinct (L @ pend)"
    "\<And>b. b \<in> set pend \<Longrightarrow> the_spec h b = the_spec h0 b"
    "\<And>b. b \<in> set L \<Longrightarrow> status (the_spec h b) = STATUS_APPLY"
    "\<And>k b. hmap_lookup av k = Some b \<longleftrightarrow> b \<in> set L \<and> oldn h0 b = k \<and> nextp h b = None"
    "twins h (set L)" "linked E h {} L"
    "realises ty (map (move_of h0) L) (move_of h0 ` set L) {n. E n}"
  shows "topo_inv ty E h0 U pend av h L"
  using assms unfolding topo_inv_def by blast

lemma topo_frame_upd:
  assumes "topo_frame h0 U h" "a \<in> U" "live h0 a"
    "\<And>s. old_name (f s) = old_name s \<and> new_name (f s) = new_name s"
  shows "topo_frame h0 U (upd a f h)"
  using assms by (auto simp: topo_frame_def)

lemma topo_frameD:
  assumes "topo_frame h0 U h"
  shows "live h b \<longleftrightarrow> live h0 b" "next_addr h = next_addr h0"
    "b \<notin> U \<Longrightarrow> the_spec h b = the_spec h0 b" "oldn h b = oldn h0 b" "newn h b = newn h0 b"
  using assms by (auto simp: topo_frame_def)

lemma readyD:
  assumes "ready E h0 U"
  shows "inj_on (oldn h0) U" "inj_on (newn h0) U"
    "a \<in> U \<Longrightarrow> live h0 a" "a \<in> U \<Longrightarrow> is_unchecked h0 a" "a \<in> U \<Longrightarrow> prevp h0 a = None"
    "a \<in> U \<Longrightarrow> nextp h0 a = None" "a \<in> U \<Longrightarrow> E (oldn h0 a)" "a \<in> U \<Longrightarrow> oldn h0 a \<noteq> newn h0 a"
  using assms by (auto simp: ready_def)

text \<open>The destination of a planned rename is not the source of a pending one.\<close>

lemma topo_not_dest:
  assumes ready: "ready E h0 U" and inv: "topo_inv ty E h0 U pend av h L"
    and a: "a \<in> set pend" and b: "b \<in> set L"
  shows "newn h0 b \<noteq> oldn h0 a"
proof
  assume eq: "newn h0 b = oldn h0 a"
  note frame = topo_frameD [OF topo_invD(1) [OF inv]]
  have aU: "a \<in> U" using topo_invD(3) [OF inv] a by auto
  from linkedD [OF topo_invD(9) [OF inv] b] show False
  proof
    assume "prevp h b = None \<and> \<not> E (newn h b)"
    then show False using readyD(7) [OF ready aU] eq by (simp add: frame)
  next
    assume "\<exists>c \<in> {} \<union> set L. prevp h b = Some c \<and> oldn h c = newn h b"
    then obtain c where c: "c \<in> set L" "oldn h0 c = oldn h0 a"
      using eq by (auto simp: frame)
    moreover have "c \<in> U" using c topo_invD(3) [OF inv] by auto
    ultimately have "c = a" using inj_onD [OF readyD(1) [OF ready]] aU by blast
    with c(1) a topo_invD(4) [OF inv] show False by auto
  qed
qed

lemma topo_realises_snoc:
  assumes ready: "ready E h0 U" and inv: "topo_inv ty E h0 U (xs @ a # ys) av h L"
    and new: "\<not> E (newn h0 a) \<or> newn h0 a \<in> oldn h0 ` set L"
  shows "realises ty (map (move_of h0) (L @ [a])) (move_of h0 ` set (L @ [a])) {n. E n}"
proof -
  have U: "set L \<union> (set xs \<union> {a} \<union> set ys) = U" "a \<notin> set L"
    using topo_invD(3,4) [OF inv] by auto
  then have aU: "a \<in> U" "set L \<subseteq> U" by auto
  have "realises ty (map (move_of h0) L @ [(oldn h0 a, newn h0 a)])
      (insert (oldn h0 a, newn h0 a) (move_of h0 ` set L)) {n. E n}"
  proof (rule realises_snoc [OF topo_invD(10) [OF inv]])
    show "oldn h0 a \<in> {n. E n}" "oldn h0 a \<noteq> newn h0 a"
      using readyD(7,8) [OF ready aU(1)] by simp_all
    show "oldn h0 a \<notin> fst ` move_of h0 ` set L"
      using inj_onD [OF readyD(1) [OF ready], of a] aU U(2) by (auto simp: image_image)
    show "oldn h0 a \<notin> snd ` move_of h0 ` set L"
      using topo_not_dest [OF ready inv, of a] by (force simp: image_image)
    show "newn h0 a \<notin> {n. E n} \<or> newn h0 a \<in> fst ` move_of h0 ` set L"
      using new by (auto simp: image_image)
    show "newn h0 a \<notin> snd ` move_of h0 ` set L"
      using inj_onD [OF readyD(2) [OF ready], of a] aU U(2) by (auto simp: image_image)
  qed
  then show ?thesis by (simp add: move_of_def)
qed

subsection \<open>The two steps\<close>

lemma topo_free_step:
  assumes ready: "ready E h0 U" and inv: "topo_inv ty E h0 U (xs @ a # ys) av h L"
    and new: "\<not> E (newn h0 a)"
  shows "topo_inv ty E h0 U (xs @ ys) (map_put av (oldn h0 a) a)
           (upd a (\<lambda>s. s\<lparr>status := STATUS_APPLY\<rparr>) h) (L @ [a])"
proof -
  note frame = topo_frameD [OF topo_invD(1) [OF inv]] and ok = topo_invD(2) [OF inv]
  let ?h = "upd a (\<lambda>s. s\<lparr>status := STATUS_APPLY\<rparr>) h"
  have a: "a \<notin> set L" "a \<in> U" "set L \<subseteq> U" "a \<notin> set xs" "a \<notin> set ys"
    using topo_invD(3,4) [OF inv] by auto
  have spec: "the_spec h a = the_spec h0 a" using topo_invD(5) [OF inv, of a] by simp
  have links: "prevp h a = None" "nextp h a = None"
    using readyD(5,6) [OF ready a(2)] by (simp_all add: spec)
  have old: "\<And>b. b \<in> set L \<Longrightarrow> oldn h0 b \<noteq> oldn h0 a"
    using inj_onD [OF readyD(1) [OF ready], of _ a] a by auto
  have av: "hmap_lookup (map_put av (oldn h0 a) a) k = Some b \<longleftrightarrow>
      b \<in> set (L @ [a]) \<and> oldn h0 b = k \<and> nextp ?h b = None" for k b
    using topo_invD(7) [OF inv, of k b] links old [of b] a(1)
    by (auto simp: hm.put_lookup [OF ok])
  have prev_a: "prevp h y \<noteq> Some a" if "y \<in> set L" for y
    using linkedD [OF topo_invD(9) [OF inv] that] a(1) by auto
  have tw: "twins ?h (set (L @ [a]))"
    unfolding twins_def
  proof (intro ballI allI)
    fix x y assume "x \<in> set (L @ [a])"
    then show "nextp ?h x = Some y \<longleftrightarrow> y \<in> set (L @ [a]) \<and> prevp ?h y = Some x"
      using topo_invD(8) [OF inv] links prev_a a(1)
      unfolding twins_def by (cases "x = a") auto
  qed
  have "linked E ?h {} L"
    by (rule linked_cong [OF topo_invD(9) [OF inv]]) auto
  then have li: "linked E ?h {} (L @ [a])"
    using new links by (simp add: linked_append frame)
  note re = topo_realises_snoc [OF ready inv disjI1 [OF new]]
  show ?thesis
  proof (rule topo_invI [OF _ hm.put_ok [OF ok] _ _ _ _ av tw li re])
    show "topo_frame h0 U ?h"
      by (rule topo_frame_upd [OF topo_invD(1) [OF inv] a(2) readyD(3) [OF ready a(2)]]) simp
    show "set (L @ [a]) \<union> set (xs @ ys) = U" "distinct ((L @ [a]) @ xs @ ys)"
      using topo_invD(3,4) [OF inv] by auto
  qed (use topo_invD(5,6) [OF inv] a in auto)
qed

lemma topo_depend_step:
  assumes ready: "ready E h0 U" and inv: "topo_inv ty E h0 U (xs @ a # ys) av h L"
    and depend: "hmap_lookup av (newn h0 a) = Some d"
  shows "topo_inv ty E h0 U (xs @ ys)
           (map_remove (map_put av (oldn h0 a) a) (newn h0 a))
           (upd a (\<lambda>s. s\<lparr>status := STATUS_APPLY\<rparr>)
             (upd d (\<lambda>s. s\<lparr>next_spec := Some a\<rparr>) (upd a (\<lambda>s. s\<lparr>prev_spec := Some d\<rparr>) h)))
           (L @ [a])"
proof -
  note frame = topo_frameD [OF topo_invD(1) [OF inv]] and ok = topo_invD(2) [OF inv]
  let ?h = "upd a (\<lambda>s. s\<lparr>status := STATUS_APPLY\<rparr>)
             (upd d (\<lambda>s. s\<lparr>next_spec := Some a\<rparr>) (upd a (\<lambda>s. s\<lparr>prev_spec := Some d\<rparr>) h))"
  have a: "a \<notin> set L" "a \<in> U" "set L \<subseteq> U" "a \<notin> set xs" "a \<notin> set ys"
    using topo_invD(3,4) [OF inv] by auto
  have d: "d \<in> set L" "oldn h0 d = newn h0 a" "nextp h d = None"
    using topo_invD(7) [OF inv] depend by auto
  have da: "d \<noteq> a" "d \<notin> set xs" "d \<notin> set ys"
    using d(1) a topo_invD(4) [OF inv] by auto
  have spec: "the_spec h a = the_spec h0 a" using topo_invD(5) [OF inv, of a] by simp
  have next_a: "nextp h a = None"
    using readyD(6) [OF ready a(2)] by (simp add: spec)
  have old: "\<And>b. b \<in> set L \<Longrightarrow> oldn h0 b \<noteq> oldn h0 a"
    using inj_onD [OF readyD(1) [OF ready], of _ a] a by auto
  have old_d: "\<And>b. b \<in> set L \<Longrightarrow> oldn h0 b = newn h0 a \<Longrightarrow> b = d"
    using inj_onD [OF readyD(1) [OF ready], of _ d] a d by auto
  have ne: "oldn h0 a \<noteq> newn h0 a" by (rule readyD(8) [OF ready a(2)])
  have av: "hmap_lookup (map_remove (map_put av (oldn h0 a) a) (newn h0 a)) k = Some b \<longleftrightarrow>
      b \<in> set (L @ [a]) \<and> oldn h0 b = k \<and> nextp ?h b = None" for k b
  proof (cases "b = a \<or> b = d")
    case True
    then show ?thesis
      using topo_invD(7) [OF inv, of k b] next_a a(1) d da(1) ne
      by (elim disjE) (auto simp: hm.put_lookup [OF ok] hm.remove_lookup [OF hm.put_ok [OF ok]])
  next
    case False
    then show ?thesis
      using topo_invD(7) [OF inv, of k b] old [of b] old_d [of b]
      by (auto simp: hm.put_lookup [OF ok] hm.remove_lookup [OF hm.put_ok [OF ok]])
  qed
  have prev_a: "prevp h y \<noteq> Some a" if "y \<in> set L" for y
    using linkedD [OF topo_invD(9) [OF inv] that] a(1) by auto
  have prev_d: "prevp h y \<noteq> Some d" if "y \<in> set L" for y
    using topo_invD(8) [OF inv] d(1,3) that unfolding twins_def by force
  have tw: "twins ?h (set (L @ [a]))"
    unfolding twins_def
  proof (intro ballI allI)
    fix x y assume "x \<in> set (L @ [a])"
    then show "nextp ?h x = Some y \<longleftrightarrow> y \<in> set (L @ [a]) \<and> prevp ?h y = Some x"
      using topo_invD(8) [OF inv] next_a prev_a prev_d d(1) da a(1)
      unfolding twins_def by (cases "x = a"; cases "x = d") auto
  qed
  have "linked E ?h {} L"
    by (rule linked_cong [OF topo_invD(9) [OF inv]]) (use a(1) in auto)
  then have li: "linked E ?h {} (L @ [a])"
    using d da(1) by (simp add: linked_append frame)
  have "newn h0 a \<in> oldn h0 ` set L" using d by force
  note re = topo_realises_snoc [OF ready inv disjI2 [OF this]]
  have dU: "d \<in> U" using d a by auto
  show ?thesis
  proof (rule topo_invI [OF _ hm.remove_ok [OF hm.put_ok [OF ok]] _ _ _ _ av tw li re])
    show "topo_frame h0 U ?h"
      using topo_invD(1) [OF inv] readyD(3) [OF ready] a(2) dU
      by (intro topo_frame_upd) auto
    show "set (L @ [a]) \<union> set (xs @ ys) = U" "distinct ((L @ [a]) @ xs @ ys)"
      using topo_invD(3,4) [OF inv] by auto
  qed (use topo_invD(5,6) [OF inv] a d da in auto)
qed

subsection \<open>The loops\<close>

lemma topo_available:
  assumes "ready E h0 U" "topo_inv ty E h0 U pend av h L" "a \<in> set pend"
  shows "live h a" "the_spec h a = the_spec h0 a"
    "hmap_get av (Some (newn h0 a)) = hmap_lookup av (newn h0 a)"
    "hmap_lookup av (newn h0 a) = Some d \<Longrightarrow> live h d"
proof -
  note inv = topo_invD [OF assms(2)]
  show "live h a" "the_spec h a = the_spec h0 a"
    using readyD(3) [OF assms(1), of a] inv(3,5) assms(3) topo_frameD(1) [OF inv(1)] by auto
  show "hmap_get av (Some (newn h0 a)) = hmap_lookup av (newn h0 a)"
    by (rule hm.get_lookup [OF inv(2)])
  show "live h d" if "hmap_lookup av (newn h0 a) = Some d"
    using that inv(3,7) readyD(3) [OF assms(1), of d] topo_frameD(1) [OF inv(1)] by auto
qed

lemma free_destinations_inv:
  assumes "ready E h0 U" "topo_inv ty E h0 U (pend @ filter (is_unchecked h) as) av h (plan_ok p)"
    and "distinct as" "\<forall>a \<in> set as. live h a" "\<forall>b \<in> set pend. E (newn h0 b)"
    and "set pend \<inter> set as = {}" and E: "E = (\<lambda>n. fe (cat_files wd n))"
  shows "\<exists>pend' av' h' L. free_destinations fe wd as pend av (h, p) =
             Some (pend', av', (h', p\<lparr>plan_ok := L\<rparr>)) \<and>
           topo_inv ty E h0 U pend' av' h' L \<and> (\<forall>b \<in> set pend'. E (newn h0 b))"
  using assms(2-6)
proof (induction as arbitrary: pend av h p)
  case Nil
  then show ?case by (intro exI [of _ pend] exI [of _ av] exI [of _ h] exI [of _ "plan_ok p"]) simp
next
  case (Cons a as)
  have live: "live h a" using Cons.prems(3) by simp
  show ?case
  proof (cases "is_unchecked h a")
    case False
    then show ?thesis using Cons.IH [of pend h av p] Cons.prems live by simp
  next
    case True
    then have inv: "topo_inv ty E h0 U (pend @ a # filter (is_unchecked h) as) av h (plan_ok p)"
      using Cons.prems(1) by simp
    note spec = topo_available(2) [OF assms(1) inv, of a, simplified]
    show ?thesis
    proof (cases "E (newn h0 a)")
      case False
      let ?h = "upd a (\<lambda>s. s\<lparr>status := STATUS_APPLY\<rparr>) h"
      have f: "filter (is_unchecked ?h) as = filter (is_unchecked h) as"
        using Cons.prems(2) by (intro filter_cong) auto
      have inv2: "topo_inv ty E h0 U (pend @ filter (is_unchecked ?h) as)
          (map_put av (oldn h0 a) a) ?h (plan_ok (add_ok a p))"
        unfolding f plan_lists by (rule topo_free_step [OF assms(1) inv False])
      have "\<exists>pend' av' h' L. free_destinations fe wd as pend (map_put av (oldn h0 a) a)
          (?h, add_ok a p) = Some (pend', av', (h', (add_ok a p)\<lparr>plan_ok := L\<rparr>)) \<and>
          topo_inv ty E h0 U pend' av' h' L \<and> (\<forall>b \<in> set pend'. E (newn h0 b))"
        by (rule Cons.IH [OF inv2]) (use Cons.prems in simp_all)
      with False True live spec show ?thesis by (simp add: E add_ok_def)
    next
      case e: True
      have "\<exists>pend' av' h' L. free_destinations fe wd as (pend @ [a]) av (h, p) =
          Some (pend', av', (h', p\<lparr>plan_ok := L\<rparr>)) \<and>
          topo_inv ty E h0 U pend' av' h' L \<and> (\<forall>b \<in> set pend'. E (newn h0 b))"
        by (rule Cons.IH) (use inv Cons.prems e in auto)
      with e True live spec show ?thesis by (simp add: E)
    qed
  qed
qed

lemma topo_pass_inv:
  assumes "ready E h0 U" "topo_inv ty E h0 U (kept @ as) av h (plan_ok p)"
  shows "\<exists>rest av' h' L changed. topo_pass as av (h, p) =
             Some (rest, av', (h', p\<lparr>plan_ok := L\<rparr>), changed) \<and>
           topo_inv ty E h0 U (kept @ rest) av' h' L \<and> set rest \<subseteq> set as \<and>
           (\<not> changed \<longrightarrow> rest = as \<and> av' = av \<and>
              (\<forall>a \<in> set as. hmap_lookup av (newn h0 a) = None))"
  using assms(2)
proof (induction as arbitrary: kept av h p)
  case Nil
  then show ?case by (intro exI [of _ "[]"] exI [of _ av] exI [of _ h] exI [of _ "plan_ok p"]
        exI [of _ False]) simp
next
  case (Cons a as)
  note inv = Cons.prems
  note get = topo_available [OF assms(1) inv, of a, simplified]
  show ?case
  proof (cases "hmap_lookup av (newn h0 a)")
    case None
    have "topo_inv ty E h0 U ((kept @ [a]) @ as) av h (plan_ok p)" using inv by simp
    from Cons.IH [OF this] obtain rest av' h' L changed where
      "topo_pass as av (h, p) = Some (rest, av', (h', p\<lparr>plan_ok := L\<rparr>), changed)"
      "topo_inv ty E h0 U (kept @ a # rest) av' h' L" "set rest \<subseteq> set as"
      "\<not> changed \<longrightarrow> rest = as \<and> av' = av \<and>
         (\<forall>a \<in> set as. hmap_lookup av (newn h0 a) = None)" by (simp only: append_assoc append.simps) blast
    with None get show ?thesis
      by (intro exI [of _ "a # rest"] exI [of _ av'] exI [of _ h'] exI [of _ L]
          exI [of _ changed]) auto
  next
    case (Some d)
    note step = topo_depend_step [OF assms(1) inv Some]
    have d: "d \<noteq> a" "live h d"
      using get(4) [OF Some] Some topo_invD(4,7) [OF inv] by auto
    let ?av = "map_remove (map_put av (oldn h0 a) a) (newn h0 a)"
    let ?h = "upd a (\<lambda>s. s\<lparr>status := STATUS_APPLY\<rparr>)
      (upd d (\<lambda>s. s\<lparr>next_spec := Some a\<rparr>) (upd a (\<lambda>s. s\<lparr>prev_spec := Some d\<rparr>) h))"
    from Cons.IH [of kept ?av ?h "add_ok a p"] step obtain rest av' h' L changed where
      pass: "topo_pass as ?av (?h, add_ok a p) =
        Some (rest, av', (h', (add_ok a p)\<lparr>plan_ok := L\<rparr>), changed)"
      and rest: "topo_inv ty E h0 U (kept @ rest) av' h' L" "set rest \<subseteq> set as"
      by (simp only: plan_lists) blast
    have "topo_pass (a # as) av (h, p) = Some (rest, av', (h', p\<lparr>plan_ok := L\<rparr>), True)"
      using Some get(1-3) d pass by (simp add: add_ok_def)
    with rest show ?thesis
      by (intro exI [of _ rest] exI [of _ av'] exI [of _ h'] exI [of _ L] exI [of _ True]) auto
  qed
qed

lemma topo_loop_inv:
  assumes "ready E h0 U" "topo_inv ty E h0 U pend av h (plan_ok p)"
  shows "\<exists>pend' av' h' L. topo_loop pend av (h, p) = Some (h', p\<lparr>plan_ok := L\<rparr>) \<and>
           topo_inv ty E h0 U pend' av' h' L \<and> set pend' \<subseteq> set pend \<and>
           (\<forall>a \<in> set pend'. hmap_lookup av' (newn h0 a) = None)"
  using assms(2)
proof (induction "length pend" arbitrary: pend av h p rule: less_induct)
  case less
  from topo_pass_inv [OF assms(1), of ty "[]" pend av h p] less.prems obtain rest av' h' L changed where
    pass: "topo_pass pend av (h, p) = Some (rest, av', (h', p\<lparr>plan_ok := L\<rparr>), changed)"
    and inv: "topo_inv ty E h0 U rest av' h' L" "set rest \<subseteq> set pend"
    and stop: "\<not> changed \<longrightarrow> rest = pend \<and> av' = av \<and>
              (\<forall>a \<in> set pend. hmap_lookup av (newn h0 a) = None)"
    by (simp only: append_Nil) blast
  show ?case
  proof (cases changed)
    case True
    have "length rest < length pend" using topo_pass_length [OF pass] True by simp
    have sel: "plan_ok (p\<lparr>plan_ok := L\<rparr>) = L" by simp
    have upd2: "p\<lparr>plan_ok := L\<rparr>\<lparr>plan_ok := M\<rparr> = p\<lparr>plan_ok := M\<rparr>" for M by simp
    from less.hyps [OF \<open>length rest < length pend\<close>, of av' h' "p\<lparr>plan_ok := L\<rparr>",
        unfolded sel upd2] inv(1) obtain pend2 av2 h2 L2 where
      loop: "topo_loop rest av' (h', p\<lparr>plan_ok := L\<rparr>) = Some (h2, p\<lparr>plan_ok := L2\<rparr>)"
      and fin: "topo_inv ty E h0 U pend2 av2 h2 L2" "set pend2 \<subseteq> set rest"
        "\<forall>a \<in> set pend2. hmap_lookup av2 (newn h0 a) = None"
      by blast
    have "topo_loop pend av (h, p) = Some (h2, p\<lparr>plan_ok := L2\<rparr>)"
      using pass True loop by (subst topo_loop.simps) simp
    with fin inv(2) show ?thesis by blast
  next
    case False
    then have "topo_loop pend av (h, p) = Some (h', p\<lparr>plan_ok := L\<rparr>)"
      using pass by (subst topo_loop.simps) simp
    with False inv stop show ?thesis by blast
  qed
qed

text \<open>
  What the sort leaves: the plan, and the pending renames, whose destinations exist and are not
  the source of any planned rename.
\<close>

lemma topologic_sort_inv:
  assumes ready: "ready E h0 (set (filter (is_unchecked h0) as))"
    and as: "distinct as" "\<forall>a \<in> set as. live h0 a"
    and E: "E = (\<lambda>n. fe (cat_files wd n))" and p: "plan_ok p = []"
  shows "\<exists>pend av h L. topologic_sort fe wd as (h0, p) = Some (h, p\<lparr>plan_ok := L\<rparr>) \<and>
    topo_inv (ty :: 'f itself) E h0 (set (filter (is_unchecked h0) as)) pend av h L \<and>
    (\<forall>a \<in> set pend. E (newn h0 a) \<and> newn h0 a \<notin> oldn h0 ` set L)"
proof -
  let ?U = "set (filter (is_unchecked h0) as)"
  have "topo_inv ty E h0 ?U ([] @ filter (is_unchecked h0) as) (hmap_new ()) h0 (plan_ok p)"
    by (rule topo_invI) (auto simp: p as topo_frame_def hm.empty_ok twins_def realises_empty)
  from free_destinations_inv [OF ready this as _ _ E] obtain pend av h L where
    free: "free_destinations fe wd as [] (hmap_new ()) (h0, p) =
      Some (pend, av, (h, p\<lparr>plan_ok := L\<rparr>))"
    and inv: "topo_inv ty E h0 ?U pend av h L" and ex: "\<forall>b \<in> set pend. E (newn h0 b)"
    by auto
  from topo_loop_inv [OF ready, of ty pend av h "p\<lparr>plan_ok := L\<rparr>"] inv obtain pend' av' h' L' where
    loop: "topo_loop pend av (h, p\<lparr>plan_ok := L\<rparr>) = Some (h', p\<lparr>plan_ok := L'\<rparr>)"
    and inv': "topo_inv ty E h0 ?U pend' av' h' L'" and sub: "set pend' \<subseteq> set pend"
    and none: "\<forall>a \<in> set pend'. hmap_lookup av' (newn h0 a) = None"
    by auto
  have "newn h0 a \<notin> oldn h0 ` set L'" if a: "a \<in> set pend'" for a
  proof
    assume "newn h0 a \<in> oldn h0 ` set L'"
    then obtain d where d: "d \<in> set L'" "oldn h0 d = newn h0 a" by auto
    with none a topo_invD(7) [OF inv', of "newn h0 a" d] have "nextp h' d \<noteq> None" by auto
    then obtain y where y: "nextp h' d = Some y" by auto
    then have yL: "y \<in> set L'" "prevp h' y = Some d"
      using topo_invD(8) [OF inv'] d(1) by (auto simp: twins_def)
    with linkedD [OF topo_invD(9) [OF inv'] yL(1)] have "oldn h' d = newn h' y" by auto
    then have "newn h0 y = newn h0 a"
      using d(2) by (simp add: topo_frameD [OF topo_invD(1) [OF inv']])
    moreover have "y \<in> ?U" "a \<in> ?U" using topo_invD(3) [OF inv'] yL(1) a by auto
    ultimately have "y = a" using inj_onD [OF readyD(2) [OF ready]] by blast
    with yL(1) a topo_invD(4) [OF inv'] show False by auto
  qed
  moreover have "topologic_sort fe wd as (h0, p) = Some (h', p\<lparr>plan_ok := L'\<rparr>)"
    using free loop by (simp add: topologic_sort_def)
  ultimately show ?thesis using inv' sub ex by blast
qed

end
