(* ===== verification/Cycles.thy ===== *)
theory Cycles
  imports Topo
begin

text \<open>
  The circular renames of \<open>cross_reference_resolve\<close>: following the destinations from a rename
  comes back to it or ends, the new addresses and the chain of \<open>next_spec\<close> and
  \<open>prev_spec\<close> pointers that breaking a cycle leaves, and the temporary name.
\<close>

subsection \<open>Paths through the renames\<close>

text \<open>Each destination is the next one's source; each \<open>next_spec\<close> is the next one.\<close>

fun name_path :: "spec_heap \<Rightarrow> addr list \<Rightarrow> bool" where
  "name_path h (a # b # cs) = (newn h a = oldn h b \<and> name_path h (b # cs))"
| "name_path h cs = True"

fun next_path :: "spec_heap \<Rightarrow> addr list \<Rightarrow> bool" where
  "next_path h (a # b # cs) = (nextp h a = Some b \<and> next_path h (b # cs))"
| "next_path h cs = True"

fun prev_path :: "spec_heap \<Rightarrow> addr list \<Rightarrow> bool" where
  "prev_path h (a # b # cs) = (prevp h b = Some a \<and> prev_path h (b # cs))"
| "prev_path h cs = True"

lemma name_path_snoc:
  "cs \<noteq> [] \<Longrightarrow> name_path h (cs @ [c]) \<longleftrightarrow> name_path h cs \<and> newn h (last cs) = oldn h c"
  by (induction h cs rule: name_path.induct) auto

lemma next_path_snoc:
  "cs \<noteq> [] \<Longrightarrow> next_path h (cs @ [c]) \<longleftrightarrow> next_path h cs \<and> nextp h (last cs) = Some c"
  by (induction h cs rule: next_path.induct) auto

lemma name_path_cong:
  assumes "\<And>a. a \<in> set cs \<Longrightarrow> oldn h' a = oldn h a \<and> newn h' a = newn h a"
  shows "name_path h' cs \<longleftrightarrow> name_path h cs"
  using assms by (induction h cs rule: name_path.induct) auto

lemma next_path_cong:
  assumes "\<And>a. a \<in> set (butlast cs) \<Longrightarrow> nextp h' a = nextp h a"
  shows "next_path h' cs \<longleftrightarrow> next_path h cs"
  using assms by (induction h cs rule: next_path.induct) auto

lemma prev_path_cong:
  assumes "\<And>a. a \<in> set (tl cs) \<Longrightarrow> prevp h' a = prevp h a"
  shows "prev_path h' cs \<longleftrightarrow> prev_path h cs"
  using assms by (induction h cs rule: prev_path.induct) auto

lemma name_path_pred:
  "name_path h cs \<Longrightarrow> t \<in> set (tl cs) \<Longrightarrow> \<exists>c \<in> set (butlast cs). newn h c = oldn h t"
  by (induction h cs rule: name_path.induct) auto

lemma prev_path_pred:
  "prev_path h cs \<Longrightarrow> t \<in> set (tl cs) \<Longrightarrow> \<exists>c \<in> set cs. prevp h t = Some c"
  by (induction h cs rule: prev_path.induct) auto

lemma last_not_butlast: "distinct cs \<Longrightarrow> cs \<noteq> [] \<Longrightarrow> last cs \<notin> set (butlast cs)"
  by (cases cs rule: rev_cases) auto

text \<open>The renames of a path, backwards: each one moves to the name the one before it has left.\<close>

lemma name_path_hole:
  "name_path h (a # cs) \<Longrightarrow>
   hole_chain (newn h (last (a # cs))) (map (move_of h) (rev cs)) (newn h a)"
proof (induction cs rule: rev_induct)
  case (snoc c cs)
  then show ?case
    using name_path_snoc [of "a # cs" h c] by (auto split: if_splits)
qed simp

lemma path_linked:
  "hole_chain (oldn h x) (map (move_of h) xs) y \<Longrightarrow> prev_path h (x # xs) \<Longrightarrow> x \<in> seen \<Longrightarrow>
   linked E h seen xs"
  by (induction xs arbitrary: x seen) auto

lemma path_twins_tl:
  assumes "distinct B" "next_path h B" "prev_path h B" "B \<noteq> []" "nextp h (last B) = None"
    and "x \<in> set B"
  shows "nextp h x = Some y \<longleftrightarrow> y \<in> set (tl B) \<and> prevp h y = Some x"
  using assms
proof (induction h B arbitrary: x rule: next_path.induct)
  case (1 h a b cs)
  have prev: "\<exists>c \<in> set (b # cs). prevp h t = Some c" if "t \<in> set cs" for t
    using prev_path_pred [of h "b # cs" t] that 1(4) by simp
  show ?case
  proof (cases "x = a")
    case True
    have "prevp h t \<noteq> Some a" if "t \<in> set cs" for t
      using prev [OF that] 1(2) by auto
    then show ?thesis using True 1(3,4) by auto
  next
    case False
    with 1 show ?thesis by auto
  qed
qed auto

lemma path_twins:
  assumes "distinct B" "next_path h B" "prev_path h B" "B \<noteq> []" "nextp h (last B) = None"
    and "prevp h (hd B) = None"
  shows "twins h (set B)"
  unfolding twins_def
proof (intro ballI allI)
  fix x y assume "x \<in> set B"
  from path_twins_tl [OF assms(1-5) this, of y] assms(4,6)
  show "nextp h x = Some y \<longleftrightarrow> y \<in> set B \<and> prevp h y = Some x"
    by (cases B) auto
qed

lemma twins_union:
  assumes "twins h A" "twins h B" "A \<inter> B = {}"
    and "\<And>y c. y \<in> A \<Longrightarrow> prevp h y = Some c \<Longrightarrow> c \<in> A"
    and "\<And>y c. y \<in> B \<Longrightarrow> prevp h y = Some c \<Longrightarrow> c \<in> B"
  shows "twins h (A \<union> B)"
  using assms unfolding twins_def by blast

subsection \<open>Following the destinations\<close>

text \<open>Two heaps that differ in the \<open>next_spec\<close> of some renames only.\<close>

definition next_frame :: "addr set \<Rightarrow> spec_heap \<Rightarrow> spec_heap \<Rightarrow> bool" where
  "next_frame W h h' \<longleftrightarrow> next_addr h' = next_addr h \<and> (\<forall>b. live h' b \<longleftrightarrow> live h b) \<and>
     (\<forall>b. b \<notin> W \<longrightarrow> the_spec h' b = the_spec h b) \<and>
     (\<forall>b. oldn h' b = oldn h b \<and> newn h' b = newn h b \<and> prevp h' b = prevp h b \<and>
        status (the_spec h' b) = status (the_spec h b))"

lemma next_frame_refl: "next_frame W h h"
  by (simp add: next_frame_def)

lemma next_frame_set:
  "next_frame W h h' \<Longrightarrow> a \<in> W \<Longrightarrow> live h a \<Longrightarrow>
   next_frame W h (upd a (\<lambda>s. s\<lparr>next_spec := n\<rparr>) h')"
  by (auto simp: next_frame_def)

definition a_cycle :: "spec_heap \<Rightarrow> addr set \<Rightarrow> spec_heap \<Rightarrow> addr \<Rightarrow> addr list \<Rightarrow> bool" where
  "a_cycle h0 W h a cs \<longleftrightarrow> cs \<noteq> [] \<and> distinct (a # cs) \<and> set (a # cs) \<subseteq> W \<and>
     name_path h0 (a # cs) \<and> newn h0 (last cs) = oldn h0 a \<and>
     next_path h (a # cs) \<and> nextp h (last cs) = None"

lemma follow_renames_spec:
  assumes mo: "hmap_ok mo" "\<And>k b. hmap_lookup mo k = Some b \<longleftrightarrow> b \<in> P \<and> oldn h0 b = k"
    and inj: "inj_on (newn h0) P" and W: "W \<subseteq> P" "finite W"
    and heap: "\<And>b. b \<in> P \<Longrightarrow> live h1 b \<and> oldn h1 b = oldn h0 b \<and> newn h1 b = newn h0 b \<and>
        (is_unchecked h1 b \<longleftrightarrow> b \<in> W)"
    and frame: "next_frame W h1 h"
    and cs: "distinct cs" "set cs \<subseteq> W" "name_path h0 cs" "next_path h cs"
      "cs \<noteq> []" "hd cs = s1" "last cs = s2"
    and ne: "newn h0 s1 \<noteq> oldn h0 s1"
    and fuel: "card W < fuel + length cs"
  shows "\<exists>h'. follow_renames fuel mo s1 s2 s2 h = Some h' \<and> next_frame W h1 h' \<and>
           (nextp h' s1 = None \<or> (\<exists>cs'. a_cycle h0 W h' s1 cs' \<and> nextp h' s1 = Some (hd cs')))"
  using frame cs fuel
proof (induction fuel arbitrary: cs s2 h)
  case 0
  have "length cs \<le> card W"
    using 0(2,3) W(2) by (metis card_mono distinct_card)
  with 0 show ?case by simp
next
  case (Suc fuel)
  have s: "s1 \<in> W" "s2 \<in> W" using Suc.prems(3,6,7,8) by auto
  have h: "live h b" "oldn h b = oldn h0 b" "newn h b = newn h0 b" "is_unchecked h b \<longleftrightarrow> b \<in> W"
    if "b \<in> P" for b
    using heap [OF that] Suc.prems(1) by (auto simp: next_frame_def)
  have sP: "s1 \<in> P" "s2 \<in> P" using s W by auto
  have get: "hmap_get mo (Some k) = hmap_lookup mo k" for k by (rule hm.get_lookup [OF mo(1)])
  have dead: "\<exists>h'. Some (upd s1 (\<lambda>s. s\<lparr>next_spec := None\<rparr>) h) = Some h' \<and> next_frame W h1 h' \<and>
      (nextp h' s1 = None \<or> (\<exists>cs'. a_cycle h0 W h' s1 cs' \<and> nextp h' s1 = Some (hd cs')))"
    using next_frame_set [OF Suc.prems(1) s(1)] heap [OF sP(1)] by auto
  show ?case
  proof (cases "hmap_lookup mo (newn h0 s2)")
    case None
    with dead show ?thesis by (simp add: h sP get)
  next
    case (Some t)
    then have t: "t \<in> P" "oldn h0 t = newn h0 s2" using mo(2) by auto
    consider "t \<notin> W" | "t \<in> W" "t = s1" | "t \<in> W" "t \<noteq> s1" by blast
    then show ?thesis
    proof cases
      case 1
      with dead Some t show ?thesis by (simp add: h sP get)
    next
      case 2
      then have ne2: "s2 \<noteq> s1" using ne t by auto
      obtain cs' where cs': "cs = s1 # cs'" "cs' \<noteq> []" "last cs' = s2"
        using Suc.prems(6-8) ne2 by (cases cs) (auto split: if_splits)
      let ?h = "upd s2 (\<lambda>s. s\<lparr>next_spec := None\<rparr>) h"
      have "s2 \<notin> set (butlast cs)" using last_not_butlast Suc.prems(2,6,8) by blast
      then have np: "next_path ?h cs"
        using Suc.prems(5) by (subst next_path_cong [of _ _ h]) auto
      then have cyc: "a_cycle h0 W ?h s1 cs'"
        using Suc.prems cs' t 2 by (auto simp: a_cycle_def)
      have "nextp ?h s1 = Some (hd cs')"
        using np cs' ne2 by (cases cs') auto
      with cyc next_frame_set [OF Suc.prems(1) s(2)] heap [OF sP(2)] Some t 2 ne2 show ?thesis
        by (simp add: h sP get) blast
    next
      case 3
      let ?h = "upd s2 (\<lambda>s. s\<lparr>next_spec := Some t\<rparr>) h"
      have tn: "t \<notin> set cs"
      proof
        assume "t \<in> set cs"
        with 3 Suc.prems(6,7) have "t \<in> set (tl cs)" by (cases cs) auto
        with name_path_pred [OF Suc.prems(4)] obtain c where
          c: "c \<in> set (butlast cs)" "newn h0 c = oldn h0 t" by blast
        then have "c \<in> P" using Suc.prems(3) W(1) by (auto dest: in_set_butlastD)
        then have "c = s2" using inj_onD [OF inj, of c s2] c(2) t(2) sP(2) by simp
        with c(1) last_not_butlast Suc.prems(2,6,8) show False by blast
      qed
      have "s2 \<notin> set (butlast cs)" using last_not_butlast Suc.prems(2,6,8) by blast
      then have "next_path ?h cs" using Suc.prems(5) by (subst next_path_cong [of _ _ h]) auto
      then have np: "next_path ?h (cs @ [t])"
        using Suc.prems(6,8) by (simp add: next_path_snoc)
      have "\<exists>h'. follow_renames fuel mo s1 t t ?h = Some h' \<and> next_frame W h1 h' \<and>
          (nextp h' s1 = None \<or> (\<exists>cs'. a_cycle h0 W h' s1 cs' \<and> nextp h' s1 = Some (hd cs')))"
      proof (rule Suc.IH [of _ "cs @ [t]"])
        show "next_frame W h1 ?h"
          using next_frame_set [OF Suc.prems(1) s(2)] heap [OF sP(2)] by simp
        show "name_path h0 (cs @ [t])"
          using Suc.prems(4,6,8) t(2) by (simp add: name_path_snoc)
        show "next_path ?h (cs @ [t])" by (rule np)
      qed (use Suc.prems 3 tn in auto)
      with 3 Some t show ?thesis by (simp add: h sP get)
    qed
  qed
qed

subsection \<open>Breaking a cycle\<close>

lemma fold_add_first [simp]:
  "fold add_first_ok xs p = p\<lparr>plan_ok := rev xs @ plan_ok p\<rparr>"
  by (induction xs arbitrary: p) (simp_all add: add_first_ok_def)

lemma mark_circular_eq:
  assumes "distinct (c # cs)" "\<forall>b \<in> set (c # cs). live h b" "next_path h (c # cs)"
    and "nextp h (last (c # cs)) = None" "length (c # cs) \<le> fuel"
  shows "mark_circular fuel (Some c) (h, p) =
    Some (mark_all STATUS_CIRCULAR (c # cs) h, p\<lparr>plan_ok := rev (c # cs) @ plan_ok p\<rparr>)"
  using assms
proof (induction cs arbitrary: c h p fuel)
  case Nil
  then show ?case by (cases fuel) (simp_all add: add_first_ok_def)
next
  case (Cons d cs)
  obtain f where f: "fuel = Suc f" using Cons.prems(5) by (cases fuel) auto
  let ?h = "upd c (\<lambda>s. s\<lparr>status := STATUS_CIRCULAR\<rparr>) h"
  have "mark_circular f (Some d) (?h, add_first_ok c p) =
      Some (mark_all STATUS_CIRCULAR (d # cs) ?h,
        (add_first_ok c p)\<lparr>plan_ok := rev (d # cs) @ plan_ok (add_first_ok c p)\<rparr>)"
  proof (rule Cons.IH)
    show "next_path ?h (d # cs)"
      using Cons.prems(3) by (subst next_path_cong [of _ _ h]) auto
  qed (use Cons.prems f in \<open>auto split: if_splits\<close>)
  with Cons.prems f show ?case by (simp add: add_first_ok_def)
qed

fun link_all :: "addr list \<Rightarrow> spec_heap \<Rightarrow> spec_heap" where
  "link_all (a # b # cs) h =
     link_all (b # cs) (upd b (\<lambda>s. s\<lparr>prev_spec := Some a\<rparr>) (upd a (\<lambda>s. s\<lparr>next_spec := Some b\<rparr>) h))"
| "link_all cs h = h"

lemma relink_eq:
  assumes "s1 \<notin> set zs" "\<forall>b \<in> set (s2 # zs @ [s1]). live h b"
  shows "relink s2 s1 (zs @ s1 # rest) h = Some (link_all (s2 # zs @ [s1]) h)"
  using assms by (induction zs arbitrary: s2 h) auto

lemma link_all_frame:
  "(\<forall>b \<in> set cs. live h b) \<Longrightarrow> live (link_all cs h) b \<longleftrightarrow> live h b"
  "next_addr (link_all cs h) = next_addr h"
  "b \<notin> set cs \<Longrightarrow> the_spec (link_all cs h) b = the_spec h b"
  "oldn (link_all cs h) b = oldn h b" "newn (link_all cs h) b = newn h b"
  "status (the_spec (link_all cs h) b) = status (the_spec h b)"
  by (induction cs h rule: link_all.induct) auto

lemma link_all_ends:
  "distinct cs \<Longrightarrow> cs \<noteq> [] \<Longrightarrow> prevp (link_all cs h) (hd cs) = prevp h (hd cs)"
  "distinct cs \<Longrightarrow> cs \<noteq> [] \<Longrightarrow> nextp (link_all cs h) (last cs) = nextp h (last cs)"
proof -
  show "distinct cs \<Longrightarrow> cs \<noteq> [] \<Longrightarrow> prevp (link_all cs h) (hd cs) = prevp h (hd cs)"
  proof (induction cs h rule: link_all.induct)
    case (1 a b cs h)
    then show ?case by (simp add: link_all_frame(3))
  qed auto
  show "distinct cs \<Longrightarrow> cs \<noteq> [] \<Longrightarrow> nextp (link_all cs h) (last cs) = nextp h (last cs)"
    by (induction cs h rule: link_all.induct) auto
qed

lemma link_all_paths:
  "distinct cs \<Longrightarrow> next_path (link_all cs h) cs \<and> prev_path (link_all cs h) cs"
proof (induction cs h rule: link_all.induct)
  case (1 a b cs h)
  then show ?case
    using link_all_ends(1) [of "b # cs"] by (simp add: link_all_frame(3))
qed auto

text \<open>The heap and the plan after a cycle \<open>a # cs\<close> has been broken.\<close>

definition broken :: "spec_heap \<Rightarrow> addr \<Rightarrow> addr list \<Rightarrow> string \<Rightarrow> spec_heap \<Rightarrow> addr list \<Rightarrow> bool" where
  "broken h a cs tmp h' B \<longleftrightarrow>
     (\<exists>co ex. co = next_addr h \<and> ex = Suc (next_addr h) \<and> B = ex # rev cs @ [co] \<and>
       next_addr h' = Suc (Suc (next_addr h)) \<and>
       (\<forall>b. live h' b \<longleftrightarrow> live h b \<or> b = co \<or> b = ex) \<and>
       (\<forall>b. b \<notin> {a, co, ex} \<union> set cs \<longrightarrow> the_spec h' b = the_spec h b) \<and>
       the_spec h' a = (the_spec h a)\<lparr>status := STATUS_APPLY, next_spec := None,
         prev_spec := None\<rparr> \<and>
       (\<forall>b \<in> set cs. oldn h' b = oldn h b \<and> newn h' b = newn h b) \<and>
       (\<forall>b \<in> set B. status (the_spec h' b) = STATUS_CIRCULAR) \<and>
       oldn h' ex = oldn h a \<and> newn h' ex = tmp \<and> oldn h' co = tmp \<and> newn h' co = newn h a \<and>
       next_path h' B \<and> prev_path h' B \<and> prevp h' ex = None \<and> nextp h' co = None)"

lemma break_cycle_spec:
  assumes ok: "heap_ok h" and cs: "distinct (a # cs)" "cs \<noteq> []" "\<forall>b \<in> set (a # cs). live h b"
    "next_path h (a # cs)" "nextp h (last cs) = None" and fuel: "length cs \<le> fuel"
  shows "\<exists>h' B. break_cycle fuel a tmp (h, p) = Some (h', p\<lparr>plan_ok := B @ plan_ok p\<rparr>) \<and>
           broken h a cs tmp h' B \<and> heap_ok h'"
proof -
  define co where "co = next_addr h"
  define ex where "ex = Suc (next_addr h)"
  have fresh: "co \<notin> set (a # cs)" "ex \<notin> set (a # cs)" "co \<noteq> ex"
    using cs(3) heap_ok_live [OF ok] by (force simp: co_def ex_def)+
  obtain c cs' where c: "cs = c # cs'" using cs(2) by (cases cs) auto
  have next_a: "nextp h a = Some c" using cs(4) by (simp add: c)
  define h1 where "h1 = snd (new_file_spec h)"
  have new1: "new_file_spec h = (co, h1)" by (simp add: h1_def co_def prod_eq_iff)
  define h2 where "h2 = upd co (\<lambda>s. s\<lparr>status := STATUS_CIRCULAR, old_name := oldn h a,
      new_name := newn h a, next_spec := Some c, prev_spec := prevp h a\<rparr>) h1"
  define h3 where "h3 = upd a (\<lambda>s. s\<lparr>status := STATUS_APPLY, next_spec := None,
      prev_spec := None\<rparr>) h2"
  define h4 where "h4 = mark_all STATUS_CIRCULAR cs h3"
  define p1 where "p1 = p\<lparr>plan_ok := rev cs @ co # plan_ok p\<rparr>"
  define h5 where "h5 = snd (new_file_spec h4)"
  define h6 where "h6 = upd ex (\<lambda>s. s\<lparr>status := STATUS_CIRCULAR, old_name := oldn h a,
      new_name := tmp\<rparr>) h5"
  define h7 where "h7 = upd co (\<lambda>s. s\<lparr>old_name := tmp\<rparr>) h6"
  define B where "B = ex # rev cs @ [co]"
  define h8 where "h8 = link_all B h7"
  define h9 where "h9 = upd co (\<lambda>s. s\<lparr>next_spec := None\<rparr>) h8"
  have live1: "live h1 b \<longleftrightarrow> live h b \<or> b = co" for b by (auto simp: h1_def co_def)
  have spec1: "b \<noteq> co \<Longrightarrow> the_spec h1 b = the_spec h b" for b by (simp add: h1_def co_def)
  have live3: "live h3 b \<longleftrightarrow> live h b \<or> b = co" for b
    using cs(3) by (auto simp: h3_def h2_def live1)
  have spec3: "b \<noteq> co \<Longrightarrow> b \<noteq> a \<Longrightarrow> the_spec h3 b = the_spec h b"
    "the_spec h3 a = (the_spec h a)\<lparr>status := STATUS_APPLY, next_spec := None,
       prev_spec := None\<rparr>"
    "the_spec h3 co = \<lparr>old_name = oldn h a, new_name = newn h a, prev_spec = prevp h a,
       next_spec = Some c, status = STATUS_CIRCULAR\<rparr>" for b
    using fresh(1) by (auto simp: h3_def h2_def spec1)
  have spec3cs: "the_spec h3 b = the_spec h b" if "b \<in> set cs" for b
    using that fresh(1) cs(1) by (subst spec3(1)) auto
  have live4: "live h4 b \<longleftrightarrow> live h b \<or> b = co" for b
    using cs(3) by (auto simp: h4_def live_mark_all live3)
  have na4: "next_addr h4 = ex" by (simp add: h4_def h3_def h2_def h1_def ex_def)
  have mark: "mark_circular fuel (Some c) (h3, add_first_ok co p) = Some (h4, p1)"
  proof -
    have "nextp h3 b = nextp h b" if "b \<in> set cs" for b
      using that by (simp add: spec3cs)
    then have "next_path h3 (c # cs') \<longleftrightarrow> next_path h (c # cs')"
      unfolding c [symmetric] by (intro next_path_cong) (blast dest: in_set_butlastD)
    then have "next_path h3 (c # cs')" using cs(4) c by simp
    moreover have "nextp h3 (last (c # cs')) = None"
    proof -
      have "last cs \<in> set cs" using cs(2) by simp
      then have "last cs \<noteq> co" "last cs \<noteq> a" using fresh cs(1) by auto
      then show ?thesis using cs(5) by (simp add: spec3 c [symmetric] del: last.simps)
    qed
    moreover have "\<forall>b \<in> set (c # cs'). live h3 b" using cs(3) live3 c by auto
    ultimately show ?thesis
      using mark_circular_eq [of c cs' h3 fuel "add_first_ok co p"] cs(1) fuel c
      by (simp add: h4_def p1_def add_first_ok_def del: mark_circular.simps)
  qed
  have new5: "new_file_spec h4 = (ex, h5)" by (simp add: h5_def na4 prod_eq_iff)
  have live5: "live h5 b \<longleftrightarrow> live h b \<or> b = co \<or> b = ex" for b
    by (auto simp: h5_def na4 live4)
  have spec5: "the_spec h5 b = (if b = ex then \<lparr>old_name = [], new_name = [], prev_spec = None,
      next_spec = None, status = STATUS_UNCHECKED\<rparr> else the_spec h4 b)" for b
    by (simp add: h5_def na4)
  have live7: "live h7 b \<longleftrightarrow> live h b \<or> b = co \<or> b = ex" for b
    by (auto simp: h7_def h6_def live5)
  have spec7: "b \<notin> {a, co, ex} \<union> set cs \<Longrightarrow> the_spec h7 b = the_spec h b"
    "the_spec h7 a = (the_spec h a)\<lparr>status := STATUS_APPLY, next_spec := None,
       prev_spec := None\<rparr>"
    "b \<in> set cs \<Longrightarrow> the_spec h7 b = (the_spec h b)\<lparr>status := STATUS_CIRCULAR\<rparr>"
    "the_spec h7 co = \<lparr>old_name = tmp, new_name = newn h a, prev_spec = prevp h a,
       next_spec = Some c, status = STATUS_CIRCULAR\<rparr>"
    "the_spec h7 ex = \<lparr>old_name = oldn h a, new_name = tmp, prev_spec = None, next_spec = None,
       status = STATUS_CIRCULAR\<rparr>" for b
    using fresh cs(1) spec3cs by (auto simp: h7_def h6_def spec5 h4_def spec3)
  have dist: "distinct B" using fresh cs(1) by (auto simp: B_def)
  have liveB: "\<forall>b \<in> set B. live h7 b" using cs(3) live7 by (auto simp: B_def)
  have relink: "relink ex co (plan_ok p1) h7 = Some h8"
    using relink_eq [of co "rev cs" ex h7 "plan_ok p"] fresh liveB
    by (simp add: p1_def h8_def B_def)
  have live8: "live h8 b \<longleftrightarrow> live h b \<or> b = co \<or> b = ex" for b
    using link_all_frame(1) [OF liveB] live7 by (simp add: h8_def)
  have live9: "live h9 b \<longleftrightarrow> live h b \<or> b = co \<or> b = ex" for b
    by (auto simp: h9_def live8)
  have "break_cycle fuel a tmp (h, p) = Some (h9, p\<lparr>plan_ok := B @ plan_ok p\<rparr>)"
  proof -
    have l: "live h a" "live h1 co" "live h2 a" "live h5 ex" "live h6 co" "live h8 co"
      using cs(3) live1 live5 live8 by (auto simp: h2_def h6_def)
    have "break_cycle fuel a tmp (h, p) = Some (h9, add_first_ok ex p1)"
      unfolding break_cycle_def
      using mark relink l
      by (simp add: new1 h2_def [symmetric] h3_def [symmetric] new5 h6_def [symmetric]
          h7_def [symmetric] h9_def [symmetric] next_a)
    then show ?thesis by (simp add: p1_def add_first_ok_def B_def)
  qed
  moreover have "broken h a cs tmp h9 B"
    unfolding broken_def
  proof (intro exI conjI)
    show "co = next_addr h" "ex = Suc (next_addr h)" "B = ex # rev cs @ [co]"
      by (simp_all add: co_def ex_def B_def)
    show "next_addr h9 = Suc (Suc (next_addr h))"
      by (simp add: h9_def h8_def link_all_frame(2) h7_def h6_def h5_def na4 ex_def)
    show "\<forall>b. live h9 b \<longleftrightarrow> live h b \<or> b = co \<or> b = ex" using live9 by blast
    show "\<forall>b. b \<notin> {a, co, ex} \<union> set cs \<longrightarrow> the_spec h9 b = the_spec h b"
      using spec7(1) by (auto simp: h9_def h8_def link_all_frame(3) B_def)
    show "the_spec h9 a = (the_spec h a)\<lparr>status := STATUS_APPLY, next_spec := None,
        prev_spec := None\<rparr>"
      using spec7(2) fresh cs(1) by (auto simp: h9_def h8_def link_all_frame(3) B_def)
    show "\<forall>b \<in> set cs. oldn h9 b = oldn h b \<and> newn h9 b = newn h b"
      using spec7(3) fresh by (auto simp: h9_def h8_def link_all_frame(4,5))
    show "\<forall>b \<in> set B. status (the_spec h9 b) = STATUS_CIRCULAR"
      using spec7(3-5) by (auto simp: h9_def h8_def link_all_frame(6) B_def)
    show "oldn h9 ex = oldn h a" "newn h9 ex = tmp" "oldn h9 co = tmp" "newn h9 co = newn h a"
      using spec7(4,5) fresh(3) by (auto simp: h9_def h8_def link_all_frame(4,5))
    have "last B = co" by (simp add: B_def)
    then have "co \<notin> set (butlast B)" using last_not_butlast [OF dist] by (auto simp: B_def)
    then show "next_path h9 B"
      using link_all_paths [OF dist, of h7]
      by (subst next_path_cong [of _ _ h8]) (auto simp: h9_def h8_def)
    show "prev_path h9 B"
      using link_all_paths [OF dist, of h7]
      by (subst prev_path_cong [of _ _ h8]) (auto simp: h9_def h8_def)
    have "prevp h8 ex = prevp h7 ex"
      using link_all_ends(1) [OF dist, of h7] by (simp add: h8_def B_def)
    then show "prevp h9 ex = None" using spec7(5) fresh(3) by (simp add: h9_def)
    show "nextp h9 co = None" by (simp add: h9_def)
  qed
  moreover have "heap_ok h9"
  proof -
    have "next_addr h9 = Suc (Suc (next_addr h))"
      by (simp add: h9_def h8_def link_all_frame(2) h7_def h6_def h5_def na4 ex_def)
    moreover have "b < Suc (Suc (next_addr h))" if "live h9 b" for b
      using that live9 [of b] heap_ok_live [OF ok, of b] by (auto simp: co_def ex_def)
    ultimately show ?thesis by (intro heap_okI) simp
  qed
  ultimately show ?thesis by blast
qed

end
