(* ===== verification/Resolve.thy ===== *)
theory Resolve
  imports Cycles
begin

text \<open>
  The invariant of the last loop of \<open>cross_reference_resolve\<close>: a pending rename is refused,
  planned as part of a cycle, or still unchecked; the plan built so far carries out exactly the
  planned renames; and the planned ones of the pending renames are closed under following the
  destinations, in both directions.
\<close>

subsection \<open>Temporary names\<close>

lemma not_digit_dash: "\<not> is_digit CHR ''-''"
  by code_simp

lemma tmp_name_inject [simp]: "tmp_name o1 n1 = tmp_name o2 n2 \<longleftrightarrow> o1 = o2 \<and> n1 = n2"
proof
  have nd: "CHR ''-'' \<notin> set (rev (dec_of n))" for n
    using dec_of_digits [of n] not_digit_dash by auto
  assume "tmp_name o1 n1 = tmp_name o2 n2"
  then have "rev (tmp_name o1 n1) = rev (tmp_name o2 n2)" by (rule arg_cong)
  then have "rev (dec_of n1) @ CHR ''-'' # rev o1 = rev (dec_of n2) @ CHR ''-'' # rev o2"
    unfolding tmp_name_def by (simp only: rev_append rev.simps append_assoc append.simps)
  from separator_inject [OF nd nd this]
  have "rev (dec_of n1) = rev (dec_of n2) \<and> rev o1 = rev o2" .
  then show "o1 = o2 \<and> n1 = n2" by simp
qed simp

lemma find_tmp_name_returns:
  assumes fin: "finite {n. fe (cat_files wd n)}" and ok: "hmap_ok mn"
  shows "\<exists>n \<ge> k. find_tmp_name fe wd mn old k = Some (tmp_name old n) \<and>
           \<not> fe (cat_files wd (tmp_name old n)) \<and> hmap_lookup mn (tmp_name old n) = None"
proof -
  let ?bad = "{n. fe (cat_files wd n)} \<union> dom (hmap_lookup mn)"
  have "finite (dom (hmap_lookup mn))"
  proof -
    have "Some ` dom (hmap_lookup mn) \<subseteq> fst ` set (hmap_alist mn)"
      by (force simp: hmap_lookup_def dest: map_of_SomeD)
    then show ?thesis by (metis finite_imageD finite_set finite_subset inj_Some finite_imageI)
  qed
  then have finb: "finite ?bad" using fin by simp
  have "\<exists>m \<ge> k. tmp_name old m \<notin> ?bad"
  proof (rule ccontr)
    assume "\<not> ?thesis"
    then have "tmp_name old ` {k..} \<subseteq> ?bad" by auto
    then have "finite (tmp_name old ` {k..})" using finb by (rule finite_subset)
    then have "finite {k..}" by (rule finite_imageD) (auto simp: inj_on_def)
    then show False by (simp add: infinite_Ici)
  qed
  then obtain m where "k \<le> m" "tmp_name old m \<notin> ?bad" by blast
  then show ?thesis
  proof (induction "m - k" arbitrary: k rule: less_induct)
    case less
    show ?case
    proof (cases "tmp_name old k \<in> ?bad")
      case True
      then have "k \<noteq> m" using less.prems by auto
      then have "m - Suc k < m - k" "Suc k \<le> m" using less.prems(1) by simp_all
      from less.hyps [OF this less.prems(2)] obtain n where "Suc k \<le> n" "find_tmp_name fe wd mn old (Suc k) = Some (tmp_name old n)"
        "\<not> fe (cat_files wd (tmp_name old n))" "hmap_lookup mn (tmp_name old n) = None"
        by blast
      with True show ?thesis
        by (intro exI [of _ n]) (subst find_tmp_name.simps,
          auto simp: Let_def hm.contains_lookup [OF ok])
    next
      case False
      then show ?thesis
        by (intro exI [of _ k]) (subst find_tmp_name.simps,
          auto simp: Let_def hm.contains_lookup [OF ok])
    qed
  qed
qed

subsection \<open>The two indices\<close>

definition planned :: "spec_heap \<Rightarrow> addr \<Rightarrow> bool" where
  "planned h a \<longleftrightarrow> status (the_spec h a) = STATUS_APPLY \<or> status (the_spec h a) = STATUS_CIRCULAR"

lemma index_names_spec:
  assumes "hmap_ok mo" "hmap_ok mn" "\<forall>a \<in> set as. live h a"
    and "inj_on (oldn h) (A \<union> {a \<in> set as. is_unchecked h a})"
    and "\<And>k b. hmap_lookup mo k = Some b \<longleftrightarrow> b \<in> A \<and> oldn h b = k"
  shows "\<exists>mo' mn'. index_names as h mo mn = Some (mo', mn') \<and> hmap_ok mo' \<and> hmap_ok mn' \<and>
    (\<forall>k b. hmap_lookup mo' k = Some b \<longleftrightarrow>
       b \<in> A \<union> {a \<in> set as. is_unchecked h a} \<and> oldn h b = k) \<and>
    dom (hmap_lookup mn') = dom (hmap_lookup mn) \<union>
      newn h ` {a \<in> set as. is_unchecked h a \<or> status (the_spec h a) = STATUS_APPLY}"
  using assms
proof (induction as arbitrary: A mo mn)
  case Nil
  then show ?case by simp
next
  case (Cons a as)
  note prems = Cons.prems
  have live: "live h a" using prems(3) by simp
  consider "is_unchecked h a" | "status (the_spec h a) = STATUS_APPLY"
    | "\<not> is_unchecked h a" "status (the_spec h a) \<noteq> STATUS_APPLY" by blast
  then show ?case
  proof cases
    case 1
    have "oldn h b \<noteq> oldn h a" if "b \<in> A" "b \<noteq> a" for b
      using inj_onD [OF prems(4), of b a] that 1 by auto
    then have lk: "hmap_lookup (map_put mo (oldn h a) a) k = Some b \<longleftrightarrow>
        b \<in> insert a A \<and> oldn h b = k" for k b
      using prems(5) [of k b] by (auto simp: hm.put_lookup [OF prems(1)])
    have eq: "insert a A \<union> {x \<in> set as. is_unchecked h x} =
        A \<union> {x \<in> set (a # as). is_unchecked h x}" using 1 by auto
    have inj: "inj_on (oldn h) (insert a A \<union> {x \<in> set as. is_unchecked h x})"
      using prems(4) unfolding eq .
    have "\<forall>x \<in> set as. live h x" using prems(3) by simp
    note IH = Cons.IH [OF hm.put_ok [OF prems(1)] hm.put_ok [OF prems(2), of "newn h a" a]
      this inj lk, unfolded eq]
    from IH obtain mo' mn' where "index_names as h (map_put mo (oldn h a) a) (map_put mn (newn h a) a)
        = Some (mo', mn')" "hmap_ok mo'" "hmap_ok mn'"
      "\<forall>k b. hmap_lookup mo' k = Some b \<longleftrightarrow>
         b \<in> A \<union> {x \<in> set (a # as). is_unchecked h x} \<and> oldn h b = k"
      "dom (hmap_lookup mn') = dom (hmap_lookup (map_put mn (newn h a) a)) \<union>
        newn h ` {x \<in> set as. is_unchecked h x \<or> status (the_spec h x) = STATUS_APPLY}"
      by (elim exE conjE) (rule that, assumption+)
    moreover have "{x \<in> set (a # as). is_unchecked h x \<or> status (the_spec h x) = STATUS_APPLY} =
        insert a {x \<in> set as. is_unchecked h x \<or> status (the_spec h x) = STATUS_APPLY}"
      using 1 by auto
    ultimately show ?thesis
      using 1 live by (simp add: hm.put_lookup [OF prems(2)] del: list.set)
  next
    case 2
    have eq: "{x \<in> set (a # as). is_unchecked h x} = {x \<in> set as. is_unchecked h x}"
      using 2 by auto
    have "\<forall>x \<in> set as. live h x" using prems(3) by simp
    from Cons.IH [OF prems(1) hm.put_ok [OF prems(2), of "newn h a" a] this
      prems(4) [unfolded eq] prems(5)]
    obtain mo' mn' where "index_names as h mo (map_put mn (newn h a) a)
        = Some (mo', mn')" "hmap_ok mo'" "hmap_ok mn'"
      "\<forall>k b. hmap_lookup mo' k = Some b \<longleftrightarrow>
         b \<in> A \<union> {x \<in> set as. is_unchecked h x} \<and> oldn h b = k"
      "dom (hmap_lookup mn') = dom (hmap_lookup (map_put mn (newn h a) a)) \<union>
        newn h ` {x \<in> set as. is_unchecked h x \<or> status (the_spec h x) = STATUS_APPLY}"
      by (elim exE conjE) (rule that, assumption+)
    moreover have "{x \<in> set (a # as). is_unchecked h x \<or> status (the_spec h x) = STATUS_APPLY} =
        insert a {x \<in> set as. is_unchecked h x \<or> status (the_spec h x) = STATUS_APPLY}"
      using 2 by auto
    ultimately show ?thesis
      unfolding eq using 2 live by (simp add: hm.put_lookup [OF prems(2)] del: list.set)
  next
    case 3
    have eq: "{x \<in> set (a # as). is_unchecked h x} = {x \<in> set as. is_unchecked h x}"
      "{x \<in> set (a # as). is_unchecked h x \<or> status (the_spec h x) = STATUS_APPLY} =
       {x \<in> set as. is_unchecked h x \<or> status (the_spec h x) = STATUS_APPLY}"
      using 3 by auto
    have "\<forall>x \<in> set as. live h x" using prems(3) by simp
    from Cons.IH [OF prems(1,2) this prems(4) [unfolded eq] prems(5)] 3 live
    show ?thesis unfolding eq by simp
  qed
qed

subsection \<open>The invariant\<close>

text \<open>
  \<open>h0\<close> is the heap before the topological sort, \<open>U\<close> the renames that were unchecked then and
  \<open>P\<close> those that were pending after it.
\<close>

definition res_heap :: "spec_heap \<Rightarrow> addr set \<Rightarrow> addr set \<Rightarrow> spec_heap \<Rightarrow> bool" where
  "res_heap h0 U P h \<longleftrightarrow> heap_ok h \<and>
     (\<forall>b. live h0 b \<longrightarrow> live h b \<and> oldn h b = oldn h0 b \<and> newn h b = newn h0 b \<and>
        (b \<notin> U \<longrightarrow> the_spec h b = the_spec h0 b)) \<and>
     (\<forall>b \<in> P. is_unchecked h b \<longrightarrow> prevp h b = None) \<and>
     (\<forall>b \<in> P. is_unchecked h b \<or> status (the_spec h b) = STATUS_NEW_EXISTS \<or> planned h b) \<and>
     (\<forall>b \<in> U - P. status (the_spec h b) = STATUS_APPLY)"

definition res_closed :: "spec_heap \<Rightarrow> addr set \<Rightarrow> spec_heap \<Rightarrow> bool" where
  "res_closed h0 P h \<longleftrightarrow>
     (\<forall>b \<in> P. planned h b \<longrightarrow> (\<exists>c \<in> P. planned h c \<and> newn h0 c = oldn h0 b) \<and>
        (\<exists>c \<in> P. planned h c \<and> oldn h0 c = newn h0 b))"

text \<open>Where the destinations of the plan come from: the planned renames and temporary names.\<close>

definition res_dest :: "spec_heap \<Rightarrow> addr set \<Rightarrow> addr set \<Rightarrow> spec_heap \<Rightarrow> string \<Rightarrow> bool" where
  "res_dest h0 U P h n \<longleftrightarrow>
     (\<exists>b \<in> U. planned h b \<and> n = newn h0 b) \<or>
     (\<exists>s \<in> P. \<exists>k. planned h s \<and> n = tmp_name (oldn h0 s) k) \<and> n \<notin> newn h0 ` U"

definition res_plan :: "'f itself \<Rightarrow> (string \<Rightarrow> bool) \<Rightarrow> spec_heap \<Rightarrow> addr set \<Rightarrow> addr set \<Rightarrow>
    spec_heap \<Rightarrow> addr list \<Rightarrow> bool" where
  "res_plan ty E h0 U P h L \<longleftrightarrow>
     (\<forall>x \<in> set L. live h x \<and> planned h x \<and> res_dest h0 U P h (newn h x)) \<and>
     distinct L \<and> distinct (map (newn h) L) \<and> twins h (set L) \<and> linked E h {} L \<and>
     realises ty (map (move_of h) L) (move_of h0 ` {b \<in> U. planned h b}) {n. E n}"

definition res_error :: "addr set \<Rightarrow> apply_plan \<Rightarrow> spec_heap \<Rightarrow> apply_plan \<Rightarrow> bool" where
  "res_error P p0 h p \<longleftrightarrow> plan_no_change p = plan_no_change p0 \<and>
     (\<exists>es. plan_error p = plan_error p0 @ es \<and> distinct es \<and>
        set es = {b \<in> P. status (the_spec h b) = STATUS_NEW_EXISTS})"

definition res_inv :: "'f itself \<Rightarrow> (string \<Rightarrow> bool) \<Rightarrow> spec_heap \<Rightarrow> addr set \<Rightarrow> addr set \<Rightarrow>
    apply_plan \<Rightarrow> spec_heap \<Rightarrow> apply_plan \<Rightarrow> bool" where
  "res_inv ty E h0 U P p0 h p \<longleftrightarrow> res_heap h0 U P h \<and> res_closed h0 P h \<and>
     res_plan ty E h0 U P h (plan_ok p) \<and> res_error P p0 h p"

definition waiting :: "addr set \<Rightarrow> spec_heap \<Rightarrow> addr set" where
  "waiting P h = {b \<in> P. is_unchecked h b}"

lemma waitingD: "b \<in> waiting P h \<Longrightarrow> b \<in> P" "b \<in> waiting P h \<Longrightarrow> is_unchecked h b"
  "b \<in> waiting P h \<Longrightarrow> \<not> planned h b"
  by (auto simp: waiting_def planned_def)

lemma waiting_sub: "waiting P h \<subseteq> P"
  by (auto simp: waiting_def)

lemma res_heapD:
  assumes "res_heap h0 U P h"
  shows "heap_ok h" "live h0 b \<Longrightarrow> live h b" "live h0 b \<Longrightarrow> oldn h b = oldn h0 b"
    "live h0 b \<Longrightarrow> newn h b = newn h0 b" "live h0 b \<Longrightarrow> b \<notin> U \<Longrightarrow> the_spec h b = the_spec h0 b"
    "b \<in> waiting P h \<Longrightarrow> prevp h b = None"
    "b \<in> P \<Longrightarrow> is_unchecked h b \<or> status (the_spec h b) = STATUS_NEW_EXISTS \<or> planned h b"
    "b \<in> U - P \<Longrightarrow> status (the_spec h b) = STATUS_APPLY"
  using assms by (auto simp: res_heap_def waiting_def)

lemma res_planD:
  assumes "res_plan ty E h0 U P h L"
  shows "x \<in> set L \<Longrightarrow> live h x" "x \<in> set L \<Longrightarrow> planned h x"
    "x \<in> set L \<Longrightarrow> res_dest h0 U P h (newn h x)" "distinct L" "distinct (map (newn h) L)"
    "twins h (set L)" "linked E h {} L"
    "realises ty (map (move_of h) L) (move_of h0 ` {b \<in> U. planned h b}) {n. E n}"
  using assms by (auto simp: res_plan_def)

lemma res_invD:
  assumes "res_inv ty E h0 U P p0 h p"
  shows "res_heap h0 U P h" "res_closed h0 P h" "res_plan ty E h0 U P h (plan_ok p)"
    "res_error P p0 h p"
  using assms by (auto simp: res_inv_def)

lemma twins_cong:
  "twins h A \<Longrightarrow> (\<And>x. x \<in> A \<Longrightarrow> the_spec h' x = the_spec h x) \<Longrightarrow> twins h' A"
  unfolding twins_def by (metis (no_types, opaque_lifting))

text \<open>A change of the heap that keeps the cells of the plan and which renames are planned.\<close>

lemma res_plan_frame:
  assumes "res_plan ty E h0 U P h L" "P \<subseteq> U"
    and "\<And>x. x \<in> set L \<Longrightarrow> live h' x \<and> the_spec h' x = the_spec h x"
    and "\<And>b. b \<in> U \<Longrightarrow> planned h' b \<longleftrightarrow> planned h b"
  shows "res_plan ty E h0 U P h' L"
proof -
  note plan = res_planD [OF assms(1)]
  have dest: "res_dest h0 U P h' n \<longleftrightarrow> res_dest h0 U P h n" for n
    using assms(2,4) unfolding res_dest_def by blast
  have "{b \<in> U. planned h' b} = {b \<in> U. planned h b}" using assms(4) by auto
  moreover have "map (newn h') L = map (newn h) L" "map (move_of h') L = map (move_of h) L"
    using assms(3) by (auto simp: move_of_def)
  moreover have "linked E h' {} L"
    by (rule linked_cong [OF plan(7)]) (use assms(3) in auto)
  moreover have "twins h' (set L)" by (rule twins_cong [OF plan(6)]) (use assms(3) in auto)
  moreover have "\<forall>x \<in> set L. live h' x \<and> planned h' x \<and> res_dest h0 U P h (newn h' x)"
    using plan(1-3) assms(3) by (simp add: planned_def)
  ultimately show ?thesis
    using plan(4,5,8) unfolding res_plan_def dest by (simp only: simp_thms)
qed

lemma res_inv_next:
  assumes inv: "res_inv ty E h0 U P p0 h p" and frame: "next_frame (waiting P h) h h'"
    and P: "P \<subseteq> U"
  shows "res_inv ty E h0 U P p0 h' p" "waiting P h' = waiting P h"
proof -
  note heap = res_invD(1) [OF inv]
  have f: "next_addr h' = next_addr h" "live h' b \<longleftrightarrow> live h b"
    "b \<notin> waiting P h \<Longrightarrow> the_spec h' b = the_spec h b" "oldn h' b = oldn h b"
    "newn h' b = newn h b" "prevp h' b = prevp h b"
    "status (the_spec h' b) = status (the_spec h b)" for b
    using frame by (auto simp: next_frame_def)
  have pl: "planned h' b \<longleftrightarrow> planned h b" for b by (simp add: planned_def f)
  show w: "waiting P h' = waiting P h" by (simp add: waiting_def f)
  have "heap_ok h'"
    using heap_ok_live [OF res_heapD(1) [OF heap]] by (intro heap_okI) (simp add: f)
  moreover have "b \<notin> U \<Longrightarrow> b \<notin> waiting P h" for b using P by (auto simp: waiting_def)
  ultimately have "res_heap h0 U P h'"
    using heap unfolding res_heap_def by (simp add: f pl)
  moreover have "res_plan ty E h0 U P h' (plan_ok p)"
    by (rule res_plan_frame [OF res_invD(3) [OF inv] P])
      (use res_planD(1,2) [OF res_invD(3) [OF inv]] f pl waitingD(3) in blast)+
  ultimately show "res_inv ty E h0 U P p0 h' p"
    using res_invD(2,4) [OF inv] by (simp add: res_inv_def res_closed_def res_error_def pl f)
qed

lemma res_inv_error:
  assumes inv: "res_inv ty E h0 U P p0 h p" and a: "a \<in> waiting P h"
    and P: "P \<subseteq> U" "\<forall>b \<in> U. live h0 b"
  shows "res_inv ty E h0 U P p0 (upd a (\<lambda>s. s\<lparr>status := STATUS_NEW_EXISTS\<rparr>) h) (add_error a p)"
    "waiting P (upd a (\<lambda>s. s\<lparr>status := STATUS_NEW_EXISTS\<rparr>) h) = waiting P h - {a}"
proof -
  let ?h = "upd a (\<lambda>s. s\<lparr>status := STATUS_NEW_EXISTS\<rparr>) h"
  note heap = res_invD(1) [OF inv]
  have aP: "a \<in> P" "a \<in> U" "\<not> planned h a" using waitingD [OF a] P by auto
  have live: "live h a" using aP P res_heapD(2) [OF heap] by auto
  have pl: "planned ?h b \<longleftrightarrow> planned h b" for b using aP(3) by (simp add: planned_def)
  show "waiting P ?h = waiting P h - {a}" by (auto simp: waiting_def)
  have "heap_ok ?h" by (rule heap_ok_upd [OF res_heapD(1) [OF heap] live])
  then have "res_heap h0 U P ?h"
    using heap aP unfolding res_heap_def pl by auto
  moreover have "res_plan ty E h0 U P ?h (plan_ok p)"
  proof (rule res_plan_frame [OF res_invD(3) [OF inv] P(1)])
    fix x assume "x \<in> set (plan_ok p)"
    then show "live ?h x \<and> the_spec ?h x = the_spec h x"
      using res_planD(1,2) [OF res_invD(3) [OF inv]] aP(3) by auto
  qed (rule pl)
  moreover have "res_error P p0 ?h (add_error a p)"
  proof -
    obtain es where es: "plan_error p = plan_error p0 @ es" "distinct es"
      "set es = {b \<in> P. status (the_spec h b) = STATUS_NEW_EXISTS}"
      using res_invD(4) [OF inv] by (auto simp: res_error_def)
    then have "distinct (es @ [a])" using waitingD(2) [OF a] by auto
    moreover have "set (es @ [a]) = {b \<in> P. status (the_spec ?h b) = STATUS_NEW_EXISTS}"
      using es(3) aP(1) by auto
    moreover have "plan_error (add_error a p) = plan_error p0 @ (es @ [a])" using es(1) by simp
    ultimately show ?thesis
      using res_invD(4) [OF inv] unfolding res_error_def by auto
  qed
  ultimately show "res_inv ty E h0 U P p0 ?h (add_error a p)"
    using res_invD(2) [OF inv] by (simp add: res_inv_def res_closed_def pl)
qed

subsection \<open>A cycle\<close>

text \<open>What holds when the loop has found and broken the cycle \<open>a # cs\<close>.\<close>

definition cycle_step :: "'f itself \<Rightarrow> (string \<Rightarrow> bool) \<Rightarrow> spec_heap \<Rightarrow> addr set \<Rightarrow> addr set \<Rightarrow>
    apply_plan \<Rightarrow> spec_heap \<Rightarrow> apply_plan \<Rightarrow> addr \<Rightarrow> addr list \<Rightarrow> string \<Rightarrow> spec_heap \<Rightarrow>
    addr list \<Rightarrow> bool" where
  "cycle_step ty E h0 U P p0 h p a cs tmp h' B \<longleftrightarrow>
     res_inv ty E h0 U P p0 h p \<and> P \<subseteq> U \<and> ready E h0 U \<and>
     (\<forall>b \<in> U - P. \<forall>c \<in> P. newn h0 b \<noteq> oldn h0 c) \<and>
     a_cycle h0 (waiting P h) h a cs \<and> broken h a cs tmp h' B \<and> heap_ok h' \<and>
     (\<exists>n. tmp = tmp_name (oldn h0 a) n) \<and> \<not> E tmp \<and> tmp \<notin> newn h0 ` U"

lemma cycle_stepD:
  assumes "cycle_step ty E h0 U P p0 h p a cs tmp h' B"
  shows "res_heap h0 U P h" "res_closed h0 P h" "res_plan ty E h0 U P h (plan_ok p)"
    "res_error P p0 h p" "P \<subseteq> U" "ready E h0 U"
    "b \<in> U - P \<Longrightarrow> c \<in> P \<Longrightarrow> newn h0 b \<noteq> oldn h0 c"
    "a_cycle h0 (waiting P h) h a cs" "broken h a cs tmp h' B" "heap_ok h'"
    "\<exists>n. tmp = tmp_name (oldn h0 a) n" "\<not> E tmp" "tmp \<notin> newn h0 ` U"
  using assms by (auto simp: cycle_step_def res_inv_def)

lemma cycle_members:
  assumes "cycle_step ty E h0 U P p0 h p a cs tmp h' B"
  shows "cs \<noteq> []" "distinct (a # cs)" "name_path h0 (a # cs)" "newn h0 (last cs) = oldn h0 a"
    "c \<in> set (a # cs) \<Longrightarrow> c \<in> P" "c \<in> set (a # cs) \<Longrightarrow> c \<in> U"
    "c \<in> set (a # cs) \<Longrightarrow> \<not> planned h c" "c \<in> set (a # cs) \<Longrightarrow> is_unchecked h c"
    "b \<in> U \<Longrightarrow> live h0 b" "b \<in> U \<Longrightarrow> live h b"
    "b \<in> U \<Longrightarrow> oldn h b = oldn h0 b" "b \<in> U \<Longrightarrow> newn h b = newn h0 b"
proof -
  note D = cycle_stepD [OF assms]
  from D(8) show "cs \<noteq> []" "distinct (a # cs)" "name_path h0 (a # cs)"
    "newn h0 (last cs) = oldn h0 a" by (auto simp: a_cycle_def)
  have "set (a # cs) \<subseteq> waiting P h" using D(8) by (simp add: a_cycle_def)
  then show "c \<in> set (a # cs) \<Longrightarrow> c \<in> P" "c \<in> set (a # cs) \<Longrightarrow> c \<in> U"
    "c \<in> set (a # cs) \<Longrightarrow> \<not> planned h c" "c \<in> set (a # cs) \<Longrightarrow> is_unchecked h c"
    using waitingD D(5) by blast+
  show live0: "b \<in> U \<Longrightarrow> live h0 b" for b by (rule readyD(3) [OF D(6)])
  show "b \<in> U \<Longrightarrow> live h b" "b \<in> U \<Longrightarrow> oldn h b = oldn h0 b" "b \<in> U \<Longrightarrow> newn h b = newn h0 b"
    using res_heapD(2-4) [OF D(1) live0] by auto
qed

abbreviation copy_of :: "spec_heap \<Rightarrow> addr" where "copy_of h \<equiv> next_addr h"
abbreviation extra_of :: "spec_heap \<Rightarrow> addr" where "extra_of h \<equiv> Suc (next_addr h)"

lemma cycle_fresh:
  assumes "cycle_step ty E h0 U P p0 h p a cs tmp h' B" "live h b"
  shows "b \<noteq> copy_of h" "b \<noteq> extra_of h"
  using heap_ok_live [OF res_heapD(1) [OF cycle_stepD(1) [OF assms(1)]] assms(2)] by auto

lemma cycle_block:
  assumes "cycle_step ty E h0 U P p0 h p a cs tmp h' B"
  shows "B = extra_of h # rev cs @ [copy_of h]" "distinct B"
    "live h' b \<longleftrightarrow> live h b \<or> b = copy_of h \<or> b = extra_of h"
    "live h b \<Longrightarrow> b \<notin> set (a # cs) \<Longrightarrow> the_spec h' b = the_spec h b"
    "b \<in> U \<Longrightarrow> oldn h' b = oldn h0 b" "b \<in> U \<Longrightarrow> newn h' b = newn h0 b"
    "status (the_spec h' a) = STATUS_APPLY" "x \<in> set B \<Longrightarrow> status (the_spec h' x) = STATUS_CIRCULAR"
    "oldn h' (extra_of h) = oldn h0 a" "newn h' (extra_of h) = tmp"
    "oldn h' (copy_of h) = tmp" "newn h' (copy_of h) = newn h0 a"
    "next_path h' B" "prev_path h' B" "prevp h' (extra_of h) = None" "nextp h' (copy_of h) = None"
proof -
  note mem = cycle_members [OF assms] and fresh = cycle_fresh [OF assms]
  let ?co = "copy_of h" and ?ex = "extra_of h"
  from cycle_stepD(9) [OF assms] have B: "B = ?ex # rev cs @ [?co]"
    and liv: "live h' b \<longleftrightarrow> live h b \<or> b = ?co \<or> b = ?ex"
    and spec: "b \<notin> {a, ?co, ?ex} \<union> set cs \<Longrightarrow> the_spec h' b = the_spec h b"
    and spec_a: "the_spec h' a = (the_spec h a)\<lparr>status := STATUS_APPLY, next_spec := None,
         prev_spec := None\<rparr>"
    and spec_c: "b \<in> set cs \<Longrightarrow> oldn h' b = oldn h b \<and> newn h' b = newn h b"
    and stB: "b \<in> set B \<Longrightarrow> status (the_spec h' b) = STATUS_CIRCULAR"
    and extra: "oldn h' ?ex = oldn h a" "newn h' ?ex = tmp" "oldn h' ?co = tmp"
      "newn h' ?co = newn h a"
    and paths: "next_path h' B" "prev_path h' B" "prevp h' ?ex = None" "nextp h' ?co = None" for b
    unfolding broken_def by auto
  show "B = ?ex # rev cs @ [?co]" by (rule B)
  show "live h' b \<longleftrightarrow> live h b \<or> b = ?co \<or> b = ?ex" by (rule liv)
  show "next_path h' B" "prev_path h' B" "prevp h' ?ex = None" "nextp h' ?co = None" by (fact paths)+
  show "x \<in> set B \<Longrightarrow> status (the_spec h' x) = STATUS_CIRCULAR" by (rule stB)
  show "status (the_spec h' a) = STATUS_APPLY" by (simp add: spec_a)
  show "oldn h' ?ex = oldn h0 a" "newn h' ?ex = tmp" "oldn h' ?co = tmp" "newn h' ?co = newn h0 a"
    using extra mem(6,11,12) by simp_all
  have out: "?co \<notin> set (a # cs)" "?ex \<notin> set (a # cs)" using fresh mem(6,10) by blast+
  then show "distinct B" using mem(2) by (auto simp: B)
  show keep: "the_spec h' b = the_spec h b" if "live h b" "b \<notin> set (a # cs)" for b
    by (rule spec) (use fresh [OF that(1)] that(2) in auto)
  have "oldn h' b = oldn h b \<and> newn h' b = newn h b" if "live h b" for b
    using keep [OF that] spec_a spec_c [of b] by (cases "b \<in> set (a # cs)") auto
  then show "b \<in> U \<Longrightarrow> oldn h' b = oldn h0 b" "b \<in> U \<Longrightarrow> newn h' b = newn h0 b"
    using mem(10-12) by auto
qed

lemma cycle_plan_cells:
  assumes "cycle_step ty E h0 U P p0 h p a cs tmp h' B" "x \<in> set (plan_ok p)"
  shows "the_spec h' x = the_spec h x" "live h x" "x \<notin> set B"
proof -
  note plan = res_planD [OF cycle_stepD(3) [OF assms(1)]] and mem = cycle_members [OF assms(1)]
  show live: "live h x" by (rule plan(1) [OF assms(2)])
  have "x \<notin> set (a # cs)" using plan(2) [OF assms(2)] mem(7) by blast
  then show "the_spec h' x = the_spec h x" by (rule cycle_block(4) [OF assms(1) live])
  from \<open>x \<notin> set (a # cs)\<close> show "x \<notin> set B"
    using cycle_fresh [OF assms(1) live] by (auto simp: cycle_block(1) [OF assms(1)])
qed

lemma cycle_planned:
  assumes "cycle_step ty E h0 U P p0 h p a cs tmp h' B" "live h b"
  shows "planned h' b \<longleftrightarrow> planned h b \<or> b \<in> set (a # cs)"
    "b \<notin> set (a # cs) \<Longrightarrow> status (the_spec h' b) = status (the_spec h b)"
    "b \<in> set (a # cs) \<Longrightarrow> planned h' b"
proof -
  show keep: "b \<notin> set (a # cs) \<Longrightarrow> status (the_spec h' b) = status (the_spec h b)"
    using cycle_block(4) [OF assms] by simp
  show pl: "b \<in> set (a # cs) \<Longrightarrow> planned h' b"
    using cycle_block(7) [OF assms(1)] cycle_block(8) [OF assms(1), of b]
    by (auto simp: planned_def cycle_block(1) [OF assms(1)])
  show "planned h' b \<longleftrightarrow> planned h b \<or> b \<in> set (a # cs)"
  proof (cases "b \<in> set (a # cs)")
    case False
    with keep [OF False] show ?thesis unfolding planned_def by simp
  qed (use pl in blast)
qed

lemma cycle_unchecked:
  assumes "cycle_step ty E h0 U P p0 h p a cs tmp h' B"
  shows "waiting P h' = waiting P h - set (a # cs)"
proof (intro set_eqI)
  fix b
  show "b \<in> waiting P h' \<longleftrightarrow> b \<in> waiting P h - set (a # cs)"
  proof (cases "b \<in> P")
    case True
    then have live: "live h b" using cycle_members(10) [OF assms] cycle_stepD(5) [OF assms] by blast
    note pl = cycle_planned(2,3) [OF assms live]
    show ?thesis
    proof (cases "b \<in> set (a # cs)")
      case True
      then show ?thesis using pl(2) [OF True] waitingD(3) [of b P h'] by blast
    next
      case False
      with pl(1) [OF False] show ?thesis unfolding waiting_def by simp
    qed
  qed (simp add: waiting_def)
qed

lemma cycle_heap:
  assumes "cycle_step ty E h0 U P p0 h p a cs tmp h' B"
  shows "res_heap h0 U P h'"
proof -
  note D = cycle_stepD [OF assms] and mem = cycle_members [OF assms]
  note heap = res_heapD [OF D(1)] and pl = cycle_planned [OF assms]
  have PU: "b \<in> P \<Longrightarrow> b \<in> U" for b using D(5) by blast
  have out: "b \<notin> U \<Longrightarrow> b \<notin> set (a # cs)" for b using mem(6) by blast
  have "live h' b \<and> oldn h' b = oldn h0 b \<and> newn h' b = newn h0 b \<and>
      (b \<notin> U \<longrightarrow> the_spec h' b = the_spec h0 b)" if "live h0 b" for b
    using cycle_block(3,5,6) [OF assms] cycle_block(4) [OF assms heap(2) [OF that] out]
      heap(2,5) [OF that] by (cases "b \<in> U") auto
  moreover have "prevp h' b = None" if "b \<in> P" "is_unchecked h' b" for b
  proof -
    have "b \<in> waiting P h'" using that by (simp add: waiting_def)
    then have w: "b \<in> waiting P h" "b \<notin> set (a # cs)" unfolding cycle_unchecked [OF assms] by auto
    show ?thesis
      using cycle_block(4) [OF assms mem(10) [OF PU [OF that(1)]] w(2)] heap(6) [OF w(1)] by simp
  qed
  moreover have "is_unchecked h' b \<or> status (the_spec h' b) = STATUS_NEW_EXISTS \<or> planned h' b"
    if "b \<in> P" for b
  proof (cases "b \<in> set (a # cs)")
    case True
    then show ?thesis using pl(3) [OF mem(10) [OF PU [OF that]]] by blast
  next
    case False
    with pl(2) [OF mem(10) [OF PU [OF that]] False] heap(7) [OF that] show ?thesis
      unfolding planned_def by simp
  qed
  moreover have "status (the_spec h' b) = STATUS_APPLY" if b: "b \<in> U - P" for b
  proof -
    have "b \<in> U" "b \<notin> set (a # cs)" using mem(5) b by blast+
    then show ?thesis using heap(8) [OF b] pl(2) [OF mem(10)] by simp
  qed
  ultimately show ?thesis using D(10) unfolding res_heap_def by blast
qed

lemma cycle_hole:
  assumes "cycle_step ty E h0 U P p0 h p a cs tmp h' B"
  shows "hole_chain (oldn h0 a) (map (move_of h0) (rev cs)) (newn h0 a)"
    "newn h0 ` set (a # cs) = oldn h0 ` set (a # cs)"
proof -
  note mem = cycle_members [OF assms]
  show hole: "hole_chain (oldn h0 a) (map (move_of h0) (rev cs)) (newn h0 a)"
    using name_path_hole [OF mem(3)] mem(1,4) by simp
  show "newn h0 ` set (a # cs) = oldn h0 ` set (a # cs)"
    using hole_chain_names [OF hole] by (simp add: image_image)
qed

lemma cycle_closed:
  assumes "cycle_step ty E h0 U P p0 h p a cs tmp h' B"
  shows "res_closed h0 P h'"
  unfolding res_closed_def
proof (intro ballI impI)
  note D = cycle_stepD [OF assms] and mem = cycle_members [OF assms]
  have live: "live h b" if "b \<in> P" for b using that D(5) mem(10) by blast
  note pl = cycle_planned [OF assms live]
  fix b assume b: "b \<in> P" "planned h' b"
  show "(\<exists>c \<in> P. planned h' c \<and> newn h0 c = oldn h0 b) \<and>
      (\<exists>c \<in> P. planned h' c \<and> oldn h0 c = newn h0 b)"
  proof (cases "b \<in> set (a # cs)")
    case True
    then obtain c d where "c \<in> set (a # cs)" "newn h0 c = oldn h0 b" "d \<in> set (a # cs)"
      "oldn h0 d = newn h0 b"
      using image_eq_witness [OF cycle_hole(2) [OF assms] True]
        image_eq_witness [OF cycle_hole(2) [OF assms, symmetric] True] that by metis
    then show ?thesis using mem(5) pl(3) by blast
  next
    case False
    with b pl(1) have "planned h b" by blast
    then obtain c d where "c \<in> P" "planned h c" "newn h0 c = oldn h0 b"
      "d \<in> P" "planned h d" "oldn h0 d = newn h0 b"
      using D(2) b(1) unfolding res_closed_def by blast
    then show ?thesis using pl(1) by blast
  qed
qed

text \<open>A planned rename touches no name of the cycle.\<close>

lemma cycle_apart:
  assumes "cycle_step ty E h0 U P p0 h p a cs tmp h' B"
    and "b \<in> U" "planned h b" "c \<in> set (a # cs)"
  shows "oldn h0 b \<noteq> oldn h0 c" "newn h0 b \<noteq> newn h0 c" "newn h0 b \<noteq> oldn h0 c"
proof -
  note D = cycle_stepD [OF assms(1)] and mem = cycle_members [OF assms(1)]
  note inj = readyD(1,2) [OF D(6)]
  have c: "c \<in> P" "c \<in> U" "\<not> planned h c" using mem(5-7) assms(4) by blast+
  show "oldn h0 b \<noteq> oldn h0 c" using inj_onD [OF inj(1) _ assms(2) c(2)] c(3) assms(3) by blast
  show "newn h0 b \<noteq> newn h0 c" using inj_onD [OF inj(2) _ assms(2) c(2)] c(3) assms(3) by blast
  show "newn h0 b \<noteq> oldn h0 c"
  proof (cases "b \<in> P")
    case True
    with D(2) assms(3) obtain d where d: "d \<in> P" "planned h d" "oldn h0 d = newn h0 b"
      unfolding res_closed_def by blast
    have "d \<in> U" using d(1) D(5) by blast
    show ?thesis
    proof
      assume "newn h0 b = oldn h0 c"
      with d(3) have "oldn h0 d = oldn h0 c" by simp
      then have "d = c" using inj_onD [OF inj(1) _ \<open>d \<in> U\<close> c(2)] by blast
      with c(3) d(2) show False by simp
    qed
  qed (use D(7) assms(2) c(1) in blast)
qed

lemma cycle_realises:
  assumes "cycle_step ty E h0 U P p0 h p a cs tmp h' B"
  shows "realises ty (map (move_of h') (B @ plan_ok p)) (move_of h0 ` {b \<in> U. planned h' b}) {n. E n}"
proof -
  note D = cycle_stepD [OF assms] and mem = cycle_members [OF assms]
    and blk = cycle_block [OF assms]
  let ?ms = "map (move_of h0) (rev cs)" and ?S = "move_of h0 ` {b \<in> U. planned h b}"
  have olds: "insert (oldn h0 a) (fst ` set ?ms) = oldn h0 ` set (a # cs)"
    by (simp add: image_image)
  have inj: "inj_on (oldn h0) (set (a # cs))"
    by (rule inj_on_subset [OF readyD(1) [OF D(6)]]) (use mem(6) in blast)
  have "realises ty (((oldn h0 a, tmp) # ?ms @ [(tmp, newn h0 a)]) @ map (move_of h) (plan_ok p))
      (insert (oldn h0 a, newn h0 a) (set ?ms) \<union> ?S) {n. E n}"
  proof (rule realises_cycle [OF res_planD(8) [OF D(3)] cycle_hole(1) [OF assms]])
    have "map fst ?ms = rev (map (oldn h0) cs)" by (simp add: rev_map)
    then show "distinct (oldn h0 a # map fst ?ms)"
      using inj mem(2) by (auto simp: distinct_map)
    show "oldn h0 a \<in> {n. E n}" "fst ` set ?ms \<subseteq> {n. E n}"
      using readyD(7) [OF D(6)] mem(6) by auto
    show "tmp \<notin> {n. E n}" "tmp \<noteq> newn h0 a" "tmp \<notin> snd ` set ?ms"
      using D(12,13) mem(6) by auto
    show "insert (oldn h0 a) (fst ` set ?ms) \<inter> fst ` ?S = {}"
      "insert (oldn h0 a) (fst ` set ?ms) \<inter> snd ` ?S = {}"
      unfolding olds using cycle_apart(1,3) [OF assms] by (fastforce simp del: list.set)+
  qed
  moreover have "map (move_of h') (plan_ok p) = map (move_of h) (plan_ok p)"
    using cycle_plan_cells(1) [OF assms] by (simp add: move_of_def)
  moreover have "map (move_of h') B = (oldn h0 a, tmp) # ?ms @ [(tmp, newn h0 a)]"
  proof -
    have "move_of h' b = move_of h0 b" if "b \<in> set cs" for b
      using blk(5,6) mem(6) that by (simp add: move_of_def)
    then show ?thesis using blk(9-12) by (simp add: blk(1) move_of_def)
  qed
  moreover have "move_of h0 ` {b \<in> U. planned h' b} =
      insert (oldn h0 a, newn h0 a) (set ?ms) \<union> ?S"
  proof -
    have "{b \<in> U. planned h' b} = set (a # cs) \<union> {b \<in> U. planned h b}"
      using cycle_planned(1) [OF assms mem(10)] mem(6) by blast
    then show ?thesis by (simp add: image_Un move_of_def)
  qed
  ultimately show ?thesis by (simp only: map_append)
qed

lemma cycle_linked:
  assumes "cycle_step ty E h0 U P p0 h p a cs tmp h' B"
  shows "linked E h' {} (B @ plan_ok p)" "twins h' (set (B @ plan_ok p))"
proof -
  note D = cycle_stepD [OF assms] and mem = cycle_members [OF assms]
    and blk = cycle_block [OF assms] and cells = cycle_plan_cells [OF assms]
  note plan = res_planD [OF D(3)]
  have "map (move_of h') (rev cs) = map (move_of h0) (rev cs)"
    using blk(5,6) mem(6) by (simp add: move_of_def)
  then have "hole_chain (oldn h' (extra_of h)) (map (move_of h') (rev cs @ [copy_of h])) tmp"
    using cycle_hole(1) [OF assms] blk(9-12) by (simp only: map_append hole_chain_append) auto
  then have "linked E h' {extra_of h} (rev cs @ [copy_of h])"
    by (rule path_linked) (use blk(1,14) in simp_all)
  then have "linked E h' {} B" using blk(10,15) D(12) by (simp add: blk(1))
  moreover have "linked E h' {} (plan_ok p)" by (rule linked_cong [OF plan(7)]) (use cells in auto)
  then have "linked E h' (set B) (plan_ok p)" by (rule linked_mono) simp
  ultimately show "linked E h' {} (B @ plan_ok p)" by (simp add: linked_append)
  have "twins h' (set B \<union> set (plan_ok p))"
  proof (rule twins_union)
    show "twins h' (set B)"
      by (rule path_twins [OF blk(2,13,14)]) (use blk(15,16) in \<open>simp_all add: blk(1)\<close>)
    show "twins h' (set (plan_ok p))" by (rule twins_cong [OF plan(6)]) (rule cells(1))
    show "set B \<inter> set (plan_ok p) = {}" using cells(3) by blast
  next
    fix y c assume y: "y \<in> set B" "prevp h' y = Some c"
    then have "y \<noteq> extra_of h" using blk(15) by auto
    then have "y \<in> set (tl B)" using y(1) by (simp add: blk(1))
    from prev_path_pred [OF blk(14) this] y(2) show "c \<in> set B" by auto
  next
    fix y c assume y: "y \<in> set (plan_ok p)" "prevp h' y = Some c"
    with linkedD [OF plan(7) y(1)] cells(1) [OF y(1)] show "c \<in> set (plan_ok p)" by auto
  qed
  then show "twins h' (set (B @ plan_ok p))" by simp
qed

lemma cycle_dest:
  assumes "cycle_step ty E h0 U P p0 h p a cs tmp h' B" "x \<in> set (B @ plan_ok p)"
  shows "live h' x" "planned h' x" "res_dest h0 U P h' (newn h' x)"
proof -
  note D = cycle_stepD [OF assms(1)] and mem = cycle_members [OF assms(1)]
    and blk = cycle_block [OF assms(1)] and cells = cycle_plan_cells [OF assms(1)]
  note plan = res_planD [OF D(3)] and pl = cycle_planned [OF assms(1) mem(10)]
  consider "x \<in> set (plan_ok p)" | "x = extra_of h" | "x \<in> set cs" | "x = copy_of h"
    using assms(2) by (auto simp: blk(1))
  then have "live h' x \<and> planned h' x \<and> res_dest h0 U P h' (newn h' x)"
  proof cases
    case 1
    have "res_dest h0 U P h' (newn h x)"
      using plan(3) [OF 1] pl(1) D(5) unfolding res_dest_def by blast
    then show ?thesis using plan(1,2) [OF 1] cells(1) [OF 1] blk(3) by (simp add: planned_def)
  next
    case 2
    have "planned h' a" "a \<in> P" using pl(3) [of a] mem(5,6) by auto
    then have "res_dest h0 U P h' tmp" using D(11,13) unfolding res_dest_def by blast
    then show ?thesis using 2 blk(3,8,10) by (simp add: planned_def blk(1))
  next
    case 3
    then have "planned h' x" "x \<in> U" using pl(3) [of x] mem(6) by auto
    then show ?thesis using blk(3,6) mem(10) unfolding res_dest_def by blast
  next
    case 4
    have "planned h' a" "a \<in> U" using pl(3) [of a] mem(6) by auto
    then have "res_dest h0 U P h' (newn h0 a)" unfolding res_dest_def by blast
    then show ?thesis using 4 blk(3,8,12) by (simp add: planned_def blk(1))
  qed
  then show "live h' x" "planned h' x" "res_dest h0 U P h' (newn h' x)" by auto
qed

lemma cycle_distinct:
  assumes "cycle_step ty E h0 U P p0 h p a cs tmp h' B"
  shows "distinct (map (newn h') (B @ plan_ok p))"
proof -
  note D = cycle_stepD [OF assms] and mem = cycle_members [OF assms]
    and blk = cycle_block [OF assms] and cells = cycle_plan_cells [OF assms]
  note plan = res_planD [OF D(3)]
  have m: "map (newn h') B = tmp # map (newn h0) (rev cs @ [a])"
    using blk(6,10,12) mem(6) by (simp add: blk(1))
  have inj: "inj_on (newn h0) (set (a # cs))"
    by (rule inj_on_subset [OF readyD(2) [OF D(6)]]) (use mem(6) in blast)
  have "tmp \<notin> newn h0 ` set (a # cs)" using D(13) mem(6) by blast
  then have "distinct (map (newn h') B)"
    unfolding m using inj mem(2) by (auto simp: distinct_map)
  have apart: "newn h x \<noteq> tmp \<and> newn h x \<notin> newn h0 ` set (a # cs)" if x: "x \<in> set (plan_ok p)" for x
  proof -
    from plan(3) [OF x] consider b where "b \<in> U" "planned h b" "newn h x = newn h0 b"
      | s k where "s \<in> P" "planned h s" "newn h x = tmp_name (oldn h0 s) k" "newn h x \<notin> newn h0 ` U"
      unfolding res_dest_def by blast
    then show ?thesis
    proof cases
      case 1
      then show ?thesis using cycle_apart(2) [OF assms 1(1,2)] D(13) by (auto simp del: list.set)
    next
      case 2
      have "oldn h0 s \<noteq> oldn h0 a"
        using cycle_apart(1) [OF assms _ 2(2), of a] 2(1) D(5) by auto
      then show ?thesis using 2(3,4) D(11) mem(6) by auto
    qed
  qed
  have old: "map (newn h') (plan_ok p) = map (newn h) (plan_ok p)" using cells(1) by simp
  have setB: "set (map (newn h') B) = insert tmp (newn h0 ` set (a # cs))"
    unfolding m by auto
  have "set (map (newn h') B) \<inter> set (map (newn h) (plan_ok p)) = {}"
  proof (intro equals0I, elim IntE)
    fix n assume n: "n \<in> set (map (newn h') B)" "n \<in> set (map (newn h) (plan_ok p))"
    from n(2) obtain x where "x \<in> set (plan_ok p)" "n = newn h x" by auto
    with apart [of x] n(1) [unfolded setB] show False by (simp del: list.set)
  qed
  with plan(5) \<open>distinct (map (newn h') B)\<close> show ?thesis
    unfolding map_append distinct_append old by (intro conjI)
qed

lemma res_inv_cycle:
  assumes "cycle_step ty E h0 U P p0 h p a cs tmp h' B"
  shows "res_inv ty E h0 U P p0 h' (p\<lparr>plan_ok := B @ plan_ok p\<rparr>)"
proof -
  note D = cycle_stepD [OF assms] and mem = cycle_members [OF assms]
  have "status (the_spec h' b) = STATUS_NEW_EXISTS \<longleftrightarrow>
      status (the_spec h b) = STATUS_NEW_EXISTS" if "b \<in> P" for b
  proof -
    have live: "live h b" using that D(5) mem(10) by blast
    show ?thesis
      using cycle_planned(2,3) [OF assms live] mem(8)
      by (cases "b \<in> set (a # cs)") (auto simp: planned_def simp del: list.set)
  qed
  then have "{b \<in> P. status (the_spec h' b) = STATUS_NEW_EXISTS} =
      {b \<in> P. status (the_spec h b) = STATUS_NEW_EXISTS}" by blast
  then have "res_error P p0 h' (p\<lparr>plan_ok := B @ plan_ok p\<rparr>)"
    using D(4) by (simp add: res_error_def)
  moreover have "distinct (B @ plan_ok p)"
    using cycle_block(2) [OF assms] res_planD(4) [OF D(3)] cycle_plan_cells(3) [OF assms] by auto
  then have "res_plan ty E h0 U P h' (B @ plan_ok p)"
    using cycle_dest [OF assms] cycle_distinct [OF assms] cycle_linked [OF assms]
      cycle_realises [OF assms] unfolding res_plan_def by blast
  ultimately show ?thesis
    using cycle_heap [OF assms] cycle_closed [OF assms] by (simp add: res_inv_def)
qed

subsection \<open>The loop\<close>

text \<open>What does not change during the loop.\<close>

definition res_setting :: "(string \<Rightarrow> bool) \<Rightarrow> (string \<Rightarrow> bool) \<Rightarrow> string \<Rightarrow> spec_heap \<Rightarrow> addr set \<Rightarrow>
    addr set \<Rightarrow> nat \<Rightarrow> name_map \<Rightarrow> name_map \<Rightarrow> bool" where
  "res_setting E fe wd h0 U P fuel mo mn \<longleftrightarrow>
     E = (\<lambda>n. fe (cat_files wd n)) \<and> finite {n. E n} \<and> ready E h0 U \<and> P \<subseteq> U \<and> finite P \<and>
     card P < fuel \<and> (\<forall>b \<in> U - P. \<forall>c \<in> P. newn h0 b \<noteq> oldn h0 c) \<and>
     hmap_ok mo \<and> hmap_ok mn \<and> newn h0 ` U \<subseteq> dom (hmap_lookup mn) \<and>
     (\<forall>k b. hmap_lookup mo k = Some b \<longleftrightarrow> b \<in> P \<and> oldn h0 b = k)"

lemma res_settingD:
  assumes "res_setting E fe wd h0 U P fuel mo mn"
  shows "E = (\<lambda>n. fe (cat_files wd n))" "finite {n. fe (cat_files wd n)}" "ready E h0 U" "P \<subseteq> U"
    "finite P" "card P < fuel" "\<forall>b \<in> U - P. \<forall>c \<in> P. newn h0 b \<noteq> oldn h0 c"
    "hmap_ok mo" "hmap_ok mn" "newn h0 ` U \<subseteq> dom (hmap_lookup mn)"
    "hmap_lookup mo k = Some b \<longleftrightarrow> b \<in> P \<and> oldn h0 b = k"
  using assms by (auto simp: res_setting_def)

lemma res_follow:
  assumes set: "res_setting E fe wd h0 U P fuel mo mn" and inv: "res_inv ty E h0 U P p0 h p"
    and a: "a \<in> waiting P h"
  shows "\<exists>h2. follow_renames fuel mo a a a h = Some h2 \<and> res_inv ty E h0 U P p0 h2 p \<and>
    waiting P h2 = waiting P h \<and>
    (nextp h2 a = None \<or>
     (\<exists>cs. a_cycle h0 (waiting P h2) h2 a cs \<and> nextp h2 a = Some (hd cs)))"
proof -
  note S = res_settingD [OF set]
  have PU: "b \<in> U" if "b \<in> P" for b using that S(4) by blast
  have live0: "live h0 b" if "b \<in> P" for b using readyD(3) [OF S(3) PU [OF that]] .
  note heap = res_heapD [OF res_invD(1) [OF inv]]
  have sub: "waiting P h \<subseteq> P" by (rule waiting_sub)
  have fin: "finite (waiting P h)" using sub S(5) by (rule finite_subset)
  have card: "card (waiting P h) < fuel" using card_mono [OF S(5) sub] S(6) by simp
  have aP: "a \<in> P" using a sub by blast
  have "\<exists>h2. follow_renames fuel mo a a a h = Some h2 \<and> next_frame (waiting P h) h h2 \<and>
      (nextp h2 a = None \<or>
       (\<exists>cs. a_cycle h0 (waiting P h) h2 a cs \<and> nextp h2 a = Some (hd cs)))"
  proof (rule follow_renames_spec [where cs = "[a]" and ?h1.0 = h and P = P])
    show "inj_on (newn h0) P" by (rule inj_on_subset [OF readyD(2) [OF S(3)] S(4)])
    show "live h b \<and> oldn h b = oldn h0 b \<and> newn h b = newn h0 b \<and>
        (is_unchecked h b \<longleftrightarrow> b \<in> waiting P h)" if "b \<in> P" for b
      using heap(2-4) [OF live0 [OF that]] that by (simp add: waiting_def)
    show "newn h0 a \<noteq> oldn h0 a" using readyD(8) [OF S(3) PU [OF aP]] by simp
  qed (use S(8,11) sub fin a card next_frame_refl in auto)
  then obtain h2 where h2: "follow_renames fuel mo a a a h = Some h2"
    "next_frame (waiting P h) h h2"
    "nextp h2 a = None \<or> (\<exists>cs. a_cycle h0 (waiting P h) h2 a cs \<and> nextp h2 a = Some (hd cs))"
    by blast
  from res_inv_next [OF inv h2(2) S(4)] h2(1,3) show ?thesis by auto
qed

lemma res_break:
  assumes set: "res_setting E fe wd h0 U P fuel mo mn" and inv: "res_inv ty E h0 U P p0 h p"
    and cyc: "a_cycle h0 (waiting P h) h a cs"
  shows "\<exists>tmp h' p'. find_tmp_name fe wd mn (oldn h a) 1 = Some tmp \<and>
    break_cycle fuel a tmp (h, p) = Some (h', p') \<and> res_inv ty E h0 U P p0 h' p' \<and>
    waiting P h' = waiting P h - set (a # cs)"
proof -
  note S = res_settingD [OF set] and heap = res_heapD [OF res_invD(1) [OF inv]]
  from cyc have cs: "cs \<noteq> []" "distinct (a # cs)" "set (a # cs) \<subseteq> waiting P h"
    "next_path h (a # cs)" "nextp h (last cs) = None" by (auto simp: a_cycle_def)
  have csP: "set (a # cs) \<subseteq> P" using cs(3) waiting_sub by blast
  have live0: "live h0 b" if "b \<in> set (a # cs)" for b
    using readyD(3) [OF S(3)] that csP S(4) by blast
  have "length (a # cs) \<le> card P" using card_mono [OF S(5) csP] cs(2) distinct_card by metis
  then have len: "length cs \<le> fuel" using S(6) by simp
  have old: "oldn h a = oldn h0 a" using heap(3) [OF live0] by simp
  from find_tmp_name_returns [OF S(2,9), of 1 "oldn h0 a"] obtain n where
    tmp: "find_tmp_name fe wd mn (oldn h0 a) 1 = Some (tmp_name (oldn h0 a) n)"
    "\<not> fe (cat_files wd (tmp_name (oldn h0 a) n))"
    "hmap_lookup mn (tmp_name (oldn h0 a) n) = None" by blast
  have "\<forall>b \<in> set (a # cs). live h b" using heap(2) [OF live0] by blast
  from break_cycle_spec [OF heap(1) cs(2,1) this cs(4,5) len] obtain h' B where
    br: "break_cycle fuel a (tmp_name (oldn h0 a) n) (h, p) = Some (h', p\<lparr>plan_ok := B @ plan_ok p\<rparr>)"
    "broken h a cs (tmp_name (oldn h0 a) n) h' B" "heap_ok h'" by blast
  have "tmp_name (oldn h0 a) n \<notin> newn h0 ` U" using tmp(3) S(10) by auto
  then have "cycle_step ty E h0 U P p0 h p a cs (tmp_name (oldn h0 a) n) h' B"
    using inv S cyc br tmp(2) unfolding cycle_step_def by auto
  from res_inv_cycle [OF this] cycle_unchecked [OF this] br(1) tmp(1) show ?thesis
    unfolding old by blast
qed

lemma resolve_loop_inv:
  assumes set: "res_setting E fe wd h0 U P fuel mo mn" and inv: "res_inv ty E h0 U P p0 h p"
    and as: "waiting P h \<subseteq> set as" "\<forall>b \<in> set as. live h0 b \<and> (is_unchecked h0 b \<longrightarrow> b \<in> U)"
  shows "\<exists>h' p'. resolve_loop fe wd fuel mo mn as (h, p) = Some (h', p') \<and>
    res_inv ty E h0 U P p0 h' p' \<and> waiting P h' = {}"
  using inv as
proof (induction as arbitrary: h p)
  case Nil
  then show ?case by simp
next
  case (Cons a as)
  note S = res_settingD [OF set] and inv = Cons.prems(1)
  note heap = res_heapD [OF res_invD(1) [OF inv]]
  have live0: "live h0 a" using Cons.prems(3) by simp
  have as: "\<forall>b \<in> set as. live h0 b \<and> (is_unchecked h0 b \<longrightarrow> b \<in> U)" using Cons.prems(3) by simp
  show ?case
  proof (cases "a \<in> waiting P h")
    case False
    have "a \<in> P" if u: "is_unchecked h a"
    proof (cases "a \<in> U")
      case True
      then show ?thesis using heap(8) [of a] u by (cases "a \<in> P") auto
    next
      case False
      then have "is_unchecked h0 a" using heap(5) [OF live0 False] u by simp
      with False Cons.prems(3) show ?thesis by simp
    qed
    with False have "\<not> is_unchecked h a" by (auto simp: waiting_def)
    moreover have "waiting P h \<subseteq> set as" using False Cons.prems(2) by auto
    ultimately show ?thesis using Cons.IH [OF inv _ as] heap(2) [OF live0] by simp
  next
    case True
    from res_follow [OF set inv True] obtain h2 where
      h2: "follow_renames fuel mo a a a h = Some h2" "res_inv ty E h0 U P p0 h2 p"
      "waiting P h2 = waiting P h"
      "nextp h2 a = None \<or> (\<exists>cs. a_cycle h0 (waiting P h2) h2 a cs \<and> nextp h2 a = Some (hd cs))"
      by blast
    have u: "is_unchecked h a" "live h a" "live h2 a"
      using waitingD(2) [OF True] heap(2) [OF live0] res_heapD(2) [OF res_invD(1) [OF h2(2)] live0]
      by simp_all
    show ?thesis
    proof (cases "nextp h2 a")
      case None
      let ?h = "upd a (\<lambda>s. s\<lparr>status := STATUS_NEW_EXISTS\<rparr>) h2"
      have "\<forall>b \<in> U. live h0 b" using readyD(3) [OF S(3)] by blast
      from res_inv_error [OF h2(2) _ S(4) this, of a] True h2(3)
      have e: "res_inv ty E h0 U P p0 ?h (add_error a p)" "waiting P ?h \<subseteq> set as"
        using Cons.prems(2) by auto
      from Cons.IH [OF e as] None u h2(1) show ?thesis by simp
    next
      case (Some c)
      then obtain cs where cyc: "a_cycle h0 (waiting P h2) h2 a cs" using h2(4) by auto
      from res_break [OF set h2(2) this] obtain tmp h' p' where
        br: "find_tmp_name fe wd mn (oldn h2 a) 1 = Some tmp"
        "break_cycle fuel a tmp (h2, p) = Some (h', p')" "res_inv ty E h0 U P p0 h' p'"
        "waiting P h' = waiting P h2 - set (a # cs)" by blast
      have "waiting P h' \<subseteq> set as" using br(4) h2(3) Cons.prems(2) by auto
      from Cons.IH [OF br(3) this as] Some u h2(1) br(1,2) show ?thesis by simp
    qed
  qed
qed

end
