(* ===== verification/Planner.thy ===== *)
theory Planner
  imports Resolve
begin

text \<open>
  \<open>make_plan\<close> as a whole, for a list of renames that has just been edited: the verdict of the
  scans, and for \<open>qmv\<close> the plan that the topological sort and the resolution of the cycles make
  of the rest.
\<close>

subsection \<open>A fresh list\<close>

text \<open>
  The list as \<open>list_files\<close> and the editing leave it: the objects are distinct and unchecked, in
  no chain, and no two of them are about the same file.
\<close>

definition fresh_renames :: "spec_heap \<Rightarrow> addr list \<Rightarrow> bool" where
  "fresh_renames h R \<longleftrightarrow> heap_ok h \<and> distinct R \<and> inj_on (oldn h) (set R) \<and>
     (\<forall>a \<in> set R. live h a \<and> is_unchecked h a \<and> prevp h a = None \<and> nextp h a = None)"

lemma fresh_renamesD:
  assumes "fresh_renames h R"
  shows "heap_ok h" "distinct R" "inj_on (oldn h) (set R)" "a \<in> set R \<Longrightarrow> live h a"
    "a \<in> set R \<Longrightarrow> is_unchecked h a" "a \<in> set R \<Longrightarrow> prevp h a = None" "a \<in> set R \<Longrightarrow> nextp h a = None"
  using assms by (auto simp: fresh_renames_def)

text \<open>What the three scans before the sort decide about a rename.\<close>

definition verdict :: "(string \<Rightarrow> bool) \<Rightarrow> spec_heap \<Rightarrow> addr list \<Rightarrow> addr \<Rightarrow> file_spec_status" where
  "verdict E h R a =
     (if \<exists>b \<in> set R. b \<noteq> a \<and> newn h b = newn h a then STATUS_DUPLICATE
      else if \<not> E (oldn h a) then STATUS_OLD_MISSING
      else if oldn h a = newn h a then STATUS_NO_CHANGE
      else STATUS_UNCHECKED)"

lemma verdict_not [simp]:
  "verdict E h R a \<noteq> STATUS_APPLY" "verdict E h R a \<noteq> STATUS_CIRCULAR"
  "verdict E h R a \<noteq> STATUS_NEW_EXISTS"
  by (simp_all add: verdict_def)

lemma verdict_cases:
  "verdict E h R a = STATUS_DUPLICATE \<or> verdict E h R a = STATUS_OLD_MISSING \<or>
   verdict E h R a = STATUS_NO_CHANGE \<or> verdict E h R a = STATUS_UNCHECKED"
  by (simp add: verdict_def)

lemma verdict_dup:
  assumes "fresh_renames h R" "a \<in> set R"
  shows "a \<in> dup_set h (set R) \<longleftrightarrow> verdict E h R a = STATUS_DUPLICATE"
  using fresh_renamesD(5) [OF assms(1)] assms(2) by (auto simp: dup_set_def verdict_def)

lemma previous_scan_fresh:
  "\<forall>a \<in> set as. live h a \<and> is_unchecked h a \<Longrightarrow> previous_scan as (h, p) = Some (h, p)"
  by (induction as) auto

lemma dup_set_sub_fresh: "dup_set h A \<subseteq> A"
  by (auto simp: dup_set_def)

text \<open>The scans, one after the other.\<close>

lemma fresh_scans:
  assumes fresh: "fresh_renames h R" and E: "E = (\<lambda>n. fe (cat_files wd n))"
  shows "\<exists>h3 p3. (do { st \<leftarrow> previous_scan R (h, new_plan); st \<leftarrow> duplicate_scan R st;
       st \<leftarrow> old_missing_scan fe wd R st; no_change_scan R st }) = Some (h3, p3) \<and>
    (\<forall>b. live h3 b \<longleftrightarrow> live h b) \<and> next_addr h3 = next_addr h \<and>
    (\<forall>b. b \<notin> set R \<longrightarrow> the_spec h3 b = the_spec h b) \<and>
    (\<forall>b \<in> set R. the_spec h3 b = (the_spec h b)\<lparr>status := verdict E h R b\<rparr>) \<and>
    plan_ok p3 = [] \<and> plan_no_change p3 = filter (\<lambda>a. verdict E h R a = STATUS_NO_CHANGE) R \<and>
    distinct (plan_error p3) \<and> set (plan_error p3) =
      {a \<in> set R. verdict E h R a = STATUS_DUPLICATE \<or> verdict E h R a = STATUS_OLD_MISSING}"
proof -
  note F = fresh_renamesD [OF fresh]
  let ?D = "dup_set h (set R)" and ?v = "verdict E h R"
  have prev: "previous_scan R (h, new_plan) = Some (h, new_plan)"
    using F(4,5) by (intro previous_scan_fresh) blast
  have "\<forall>a \<in> set R. live h a" using F(4) by blast
  from duplicate_scan_state [OF F(2) this, of new_plan] obtain h1 es where
    dup: "duplicate_scan R (h, new_plan) = Some (h1, new_plan\<lparr>plan_error := es\<rparr>)"
    and es: "distinct es" "set es = ?D" and na: "next_addr h1 = next_addr h"
    and live1: "\<And>b. live h1 b \<longleftrightarrow> live h b"
    and spec1: "\<And>b. the_spec h1 b =
      (if b \<in> ?D then (the_spec h b)\<lparr>status := STATUS_DUPLICATE\<rparr> else the_spec h b)"
    by auto
  have vD: "a \<in> ?D \<longleftrightarrow> ?v a = STATUS_DUPLICATE" if "a \<in> set R" for a
    by (rule verdict_dup [OF fresh that])
  have DR: "?D \<subseteq> set R" by (rule dup_set_sub_fresh)
  define M where "M = hits (\<lambda>spec. \<not> fe (cat_files wd (old_name spec))) h1 R"
  define h2 where "h2 = mark_all STATUS_OLD_MISSING M h1"
  have M: "M = filter (\<lambda>a. ?v a = STATUS_OLD_MISSING) R"
    unfolding M_def hits_def using F(5) vD by (intro filter_cong) (auto simp: spec1 verdict_def E)
  have "\<forall>a \<in> set R. live h1 a" using F(4) live1 by blast
  then have miss: "old_missing_scan fe wd R (h1, new_plan\<lparr>plan_error := es\<rparr>) =
      Some (h2, new_plan\<lparr>plan_error := es @ M\<rparr>)"
    by (simp add: old_missing_scan_def mark_where_eq [OF F(2)] M_def h2_def)
  have live2: "live h2 b \<longleftrightarrow> live h b" for b
    using F(4) live1 by (auto simp: h2_def live_mark_all M)
  have spec2: "the_spec h2 b = (if b \<in> set R \<and> (?v b = STATUS_DUPLICATE \<or> ?v b = STATUS_OLD_MISSING)
      then (the_spec h b)\<lparr>status := ?v b\<rparr> else the_spec h b)" for b
    using vD [of b] DR by (auto simp: h2_def M spec1)
  define N where "N = hits (\<lambda>spec. strcmp (old_name spec) (new_name spec) = 0) h2 R"
  define h3 where "h3 = mark_all STATUS_NO_CHANGE N h2"
  have N: "N = filter (\<lambda>a. ?v a = STATUS_NO_CHANGE) R"
    unfolding N_def hits_def using F(5)
    by (intro filter_cong) (auto simp: spec2 verdict_def split: if_splits)
  have "\<forall>a \<in> set R. live h2 a" using F(4) live2 by blast
  then have same: "no_change_scan R (h2, new_plan\<lparr>plan_error := es @ M\<rparr>) =
      Some (h3, new_plan\<lparr>plan_error := es @ M, plan_no_change := N\<rparr>)"
    by (simp add: no_change_scan_def mark_where_eq [OF F(2)] N_def h3_def)
  have v: "?v b = STATUS_DUPLICATE \<or> ?v b = STATUS_OLD_MISSING \<or> ?v b = STATUS_NO_CHANGE \<or>
      ?v b = STATUS_UNCHECKED" for b by (simp add: verdict_def)
  have spec3: "the_spec h3 b = (the_spec h b)\<lparr>status := ?v b\<rparr>" if b: "b \<in> set R" for b
    using v [of b] F(5) [OF b] b by (auto simp: h3_def N spec2)
  show ?thesis
  proof (intro exI conjI)
    show "(do { st \<leftarrow> previous_scan R (h, new_plan); st \<leftarrow> duplicate_scan R st;
       st \<leftarrow> old_missing_scan fe wd R st; no_change_scan R st }) =
       Some (h3, new_plan\<lparr>plan_error := es @ M, plan_no_change := N\<rparr>)"
      by (simp add: prev dup miss same)
    show "\<forall>b. live h3 b \<longleftrightarrow> live h b" using F(4) live2 by (auto simp: h3_def live_mark_all N)
    show "next_addr h3 = next_addr h" by (simp add: h3_def h2_def na)
    show "\<forall>b. b \<notin> set R \<longrightarrow> the_spec h3 b = the_spec h b" by (auto simp: h3_def N spec2)
    show "\<forall>b \<in> set R. the_spec h3 b = (the_spec h b)\<lparr>status := ?v b\<rparr>" using spec3 by blast
    show "distinct (plan_error (new_plan\<lparr>plan_error := es @ M, plan_no_change := N\<rparr>))"
      using es F(2) vD by (auto simp: M)
    show "set (plan_error (new_plan\<lparr>plan_error := es @ M, plan_no_change := N\<rparr>)) =
        {a \<in> set R. ?v a = STATUS_DUPLICATE \<or> ?v a = STATUS_OLD_MISSING}"
      using es vD DR by (auto simp: M)
  qed (simp_all add: N)
qed

subsection \<open>The plan of \<open>qmv\<close>\<close>

text \<open>The renames the scans let through, as the sort needs them.\<close>

lemma fresh_ready:
  assumes fresh: "fresh_renames h R"
    and spec: "\<forall>b \<in> set R. the_spec h3 b = (the_spec h b)\<lparr>status := verdict E h R b\<rparr>"
    and live: "\<forall>b. live h3 b \<longleftrightarrow> live h b"
  shows "ready E h3 (set (filter (is_unchecked h3) R))"
proof -
  note F = fresh_renamesD [OF fresh]
  have U: "b \<in> set (filter (is_unchecked h3) R) \<longleftrightarrow> b \<in> set R \<and> verdict E h R b = STATUS_UNCHECKED"
    for b using spec by auto
  have names: "oldn h3 b = oldn h b" "newn h3 b = newn h b" if "b \<in> set R" for b
    using spec that by auto
  have ok: "E (oldn h b) \<and> oldn h b \<noteq> newn h b \<and> (\<forall>c \<in> set R. newn h c = newn h b \<longrightarrow> c = b)"
    if "verdict E h R b = STATUS_UNCHECKED" for b
    using that by (auto simp: verdict_def split: if_splits)
  show ?thesis
    unfolding ready_def
  proof (intro conjI ballI)
    show "inj_on (oldn h3) (set (filter (is_unchecked h3) R))"
      using F(3) names U unfolding inj_on_def by metis
    show "inj_on (newn h3) (set (filter (is_unchecked h3) R))"
      using names U ok unfolding inj_on_def by metis
  next
    fix b assume "b \<in> set (filter (is_unchecked h3) R)"
    then have b: "b \<in> set R" "verdict E h R b = STATUS_UNCHECKED" using U by blast+
    have "the_spec h3 b = (the_spec h b)\<lparr>status := STATUS_UNCHECKED\<rparr>" using spec b by simp
    then show "live h3 b" "is_unchecked h3 b" "prevp h3 b = None" "nextp h3 b = None"
      "E (oldn h3 b)" "oldn h3 b \<noteq> newn h3 b"
      using F(4,6,7) [OF b(1)] live ok [OF b(2)] by simp_all
  qed
qed

lemma res_inv_start:
  assumes topo: "topo_inv ty E h3 U pend av h4 L" and ready: "ready E h3 U" and ok: "heap_ok h3"
    and p: "plan_ok p3 = []"
  shows "res_inv ty E h3 U (set pend) p3 h4 (p3\<lparr>plan_ok := L\<rparr>)"
proof -
  note T = topo_invD [OF topo]
  note frame = topo_frameD [OF T(1)]
  have U: "b \<in> set L \<or> b \<in> set pend \<longleftrightarrow> b \<in> U" for b using T(3) by auto
  have disj: "b \<in> set L \<Longrightarrow> b \<notin> set pend" for b using T(4) by auto
  have pend: "the_spec h4 b = the_spec h3 b" "is_unchecked h4 b" "prevp h4 b = None" "\<not> planned h4 b"
    if "b \<in> set pend" for b
    using T(5) [OF that] readyD(4,5) [OF ready, of b] U [of b] that by (auto simp: planned_def)
  have pl: "planned h4 b" if "b \<in> set L" for b using T(6) [OF that] by (simp add: planned_def)
  have plU: "{b \<in> U. planned h4 b} = set L" using U pend(4) pl by blast
  have "heap_ok h4"
    using heap_ok_live [OF ok] by (intro heap_okI) (simp add: frame)
  moreover have "status (the_spec h4 b) = STATUS_APPLY" if "b \<in> U" "b \<notin> set pend" for b
    using that U T(6) by blast
  ultimately have "res_heap h3 U (set pend) h4"
    using pend unfolding res_heap_def by (auto simp: frame)
  moreover have "res_closed h3 (set pend) h4" using pend(4) by (auto simp: res_closed_def)
  moreover have "res_plan ty E h3 U (set pend) h4 L"
    unfolding res_plan_def plU
  proof (intro conjI ballI)
    fix x assume x: "x \<in> set L"
    then have xU: "x \<in> U" using U by blast
    show "live h4 x" using readyD(3) [OF ready xU] by (simp add: frame)
    show "planned h4 x" by (rule pl [OF x])
    then show "res_dest h3 U (set pend) h4 (newn h4 x)" using xU by (auto simp: res_dest_def frame)
  next
    show "distinct L" using T(4) by simp
    have "inj_on (newn h3) (set L)" by (rule inj_on_subset [OF readyD(2) [OF ready]]) (use U in blast)
    then show "distinct (map (newn h4) L)" using \<open>distinct L\<close> by (simp add: distinct_map frame)
    show "twins h4 (set L)" "linked E h4 {} L" by (fact T(8,9))+
    have m: "map (move_of h4) L = map (move_of h3) L" by (simp add: move_of_def frame)
    show "realises ty (map (move_of h4) L) (move_of h3 ` set L) {n. E n}" unfolding m by (rule T(10))
  qed
  moreover have "res_error (set pend) p3 h4 (p3\<lparr>plan_ok := L\<rparr>)"
    using pend(2) by (auto simp: res_error_def)
  ultimately show ?thesis by (simp add: res_inv_def)
qed

lemma cross_reference_inv:
  assumes E: "E = (\<lambda>n. fe (cat_files wd n))" and fin: "finite {n. E n}" and ok: "heap_ok h3"
    and R: "distinct R" "\<forall>a \<in> set R. live h3 a" and p: "plan_ok p3 = []"
    and U: "U = set (filter (is_unchecked h3) R)" and ready: "ready E h3 U"
    and applies: "\<forall>a \<in> set R. status (the_spec h3 a) \<noteq> STATUS_APPLY"
    and topo: "topo_inv (ty :: 'f itself) E h3 U pend av h4 L"
  shows "\<exists>h' p'. cross_reference_resolve fe wd R (h4, p3\<lparr>plan_ok := L\<rparr>) = Some (h', p') \<and>
    res_inv ty E h3 U (set pend) p3 h' p' \<and> waiting (set pend) h' = {}"
proof -
  note T = topo_invD [OF topo] and frame = topo_frameD [OF topo_invD(1) [OF topo]]
  have PU: "set pend \<subseteq> U" using T(3) by auto
  have UR: "U \<subseteq> set R" unfolding U by auto
  have unch: "{a \<in> set R. is_unchecked h4 a} = set pend"
  proof (intro set_eqI iffI)
    fix b assume "b \<in> {a \<in> set R. is_unchecked h4 a}"
    then have b: "b \<in> set R" "is_unchecked h4 b" by auto
    have "b \<in> U"
    proof (rule ccontr)
      assume n: "b \<notin> U"
      then have "is_unchecked h3 b" using frame(3) [OF n] b(2) by simp
      with n b(1) show False unfolding U by simp
    qed
    with T(3) T(6) [of b] b(2) show "b \<in> set pend" by auto
  next
    fix b assume b: "b \<in> set pend"
    with PU UR have "b \<in> set R" "b \<in> U" by auto
    with T(5) [OF b] readyD(4) [OF ready] show "b \<in> {a \<in> set R. is_unchecked h4 a}" by auto
  qed
  have applied: "U \<subseteq> {a \<in> set R. is_unchecked h4 a \<or> status (the_spec h4 a) = STATUS_APPLY}"
    using T(3,6) unch UR by auto
  have inj: "inj_on (oldn h4) ({} \<union> {a \<in> set R. is_unchecked h4 a})"
    unfolding unch using inj_on_subset [OF readyD(1) [OF ready] PU] by (simp add: inj_on_def frame)
  have "\<forall>a \<in> set R. live h4 a" using R(2) by (simp add: frame)
  from index_names_spec [OF hm.empty_ok(1) hm.empty_ok(1) this inj] obtain mo mn where
    idx: "index_names R h4 (hmap_new ()) (hmap_new ()) = Some (mo, mn)" "hmap_ok mo" "hmap_ok mn"
    "\<forall>k b. hmap_lookup mo k = Some b \<longleftrightarrow> b \<in> set pend \<and> oldn h3 b = k"
    "dom (hmap_lookup mn) =
       newn h4 ` {a \<in> set R. is_unchecked h4 a \<or> status (the_spec h4 a) = STATUS_APPLY}"
    unfolding unch by (auto simp: hm.empty_ok(2) frame)
  have "card (set pend) < Suc (length R)"
    using card_mono [OF finite_set subset_trans [OF PU UR]] card_length [of R] by simp
  moreover have "newn h3 ` U \<subseteq> dom (hmap_lookup mn)"
    unfolding idx(5) using applied by (auto simp: frame)
  moreover have "newn h3 b \<noteq> oldn h3 c" if "b \<in> U - set pend" "c \<in> set pend" for b c
    using topo_not_dest [OF ready topo that(2)] that(1) T(3) by auto
  ultimately have set: "res_setting E fe wd h3 U (set pend) (Suc (length R)) mo mn"
    using E fin ready PU idx unfolding res_setting_def by auto
  have "waiting (set pend) h4 \<subseteq> set R" using PU UR by (auto simp: waiting_def)
  moreover have "\<forall>b \<in> set R. live h3 b \<and> (is_unchecked h3 b \<longrightarrow> b \<in> U)" using R(2) unfolding U by auto
  ultimately show ?thesis
    using resolve_loop_inv [OF set res_inv_start [OF topo ready ok p]] idx(1)
    by (simp add: cross_reference_resolve_def)
qed

text \<open>
  The facts about the result of \<open>make_plan\<close> that the properties rest on; \<open>h\<close> is the heap it
  was given.
\<close>

definition qmv_plan :: "'f itself \<Rightarrow> (string \<Rightarrow> bool) \<Rightarrow> spec_heap \<Rightarrow> addr list \<Rightarrow> spec_heap \<Rightarrow>
    apply_plan \<Rightarrow> bool" where
  "qmv_plan ty E h R h' p \<longleftrightarrow>
     heap_ok h' \<and>
     (\<forall>a \<in> set R. live h' a \<and> oldn h' a = oldn h a \<and> newn h' a = newn h a \<and>
        (if verdict E h R a = STATUS_UNCHECKED
         then status (the_spec h' a) = STATUS_NEW_EXISTS \<or> planned h' a
         else status (the_spec h' a) = verdict E h R a)) \<and>
     (\<forall>x \<in> set (plan_ok p). live h' x \<and> planned h' x) \<and>
     distinct (plan_ok p) \<and> distinct (map (newn h') (plan_ok p)) \<and>
     twins h' (set (plan_ok p)) \<and> linked E h' {} (plan_ok p) \<and>
     realises ty (map (move_of h') (plan_ok p)) (move_of h' ` {a \<in> set R. planned h' a}) {n. E n} \<and>
     plan_no_change p = filter (\<lambda>a. verdict E h R a = STATUS_NO_CHANGE) R \<and>
     distinct (plan_error p) \<and>
     set (plan_error p) = {a \<in> set R. status (the_spec h' a) \<in>
       {STATUS_DUPLICATE, STATUS_OLD_MISSING, STATUS_NEW_EXISTS}} \<and>
     (\<forall>a \<in> set R. status (the_spec h' a) = STATUS_NEW_EXISTS \<longrightarrow>
        E (newn h a) \<and> (\<forall>b \<in> set R. oldn h b = newn h a \<longrightarrow> \<not> planned h' b))"

lemma refused_in_pend:
  assumes "res_inv ty E h3 U (set pend) p3 h' p'" "topo_inv ty E h3 U pend av h4 L"
    and "a \<in> U" "status (the_spec h' a) = STATUS_NEW_EXISTS"
  shows "a \<in> set pend"
  using res_heapD(8) [OF res_invD(1) [OF assms(1)], of a] assms(3,4) by (cases "a \<in> set pend") auto

lemma refused_stays:
  assumes inv: "res_inv ty E h3 U (set pend) p3 h' p'" and ready: "ready E h3 U"
    and topo: "topo_inv ty E h3 U pend av h4 L"
    and stuck: "\<forall>a \<in> set pend. E (newn h3 a) \<and> newn h3 a \<notin> oldn h3 ` set L"
    and a: "a \<in> U" "status (the_spec h' a) = STATUS_NEW_EXISTS"
  shows "E (newn h3 a)" "b \<in> U \<Longrightarrow> oldn h3 b = newn h3 a \<Longrightarrow> \<not> planned h' b"
proof -
  note T = topo_invD [OF topo]
  have pend: "a \<in> set pend" by (rule refused_in_pend [OF inv topo a])
  then show "E (newn h3 a)" using stuck by blast
  assume b: "b \<in> U" "oldn h3 b = newn h3 a"
  show "\<not> planned h' b"
  proof
    assume p: "planned h' b"
    have "b \<notin> set L" using stuck pend b(2) by (metis imageI)
    then have "b \<in> set pend" using T(3) b(1) by blast
    then obtain c where c: "c \<in> set pend" "planned h' c" "newn h3 c = newn h3 a"
      using res_invD(2) [OF inv] p b(2) unfolding res_closed_def by metis
    have "c \<in> U" using c(1) T(3) by blast
    then have "c = a" using inj_onD [OF readyD(2) [OF ready] c(3)] a(1) by blast
    with c(2) a(2) show False by (simp add: planned_def)
  qed
qed

lemma apply_unchecked_none:
  assumes "distinct as" "\<forall>a \<in> set as. live h a" "\<forall>a \<in> set as. \<not> is_unchecked h a"
  shows "apply_unchecked as (h, p) = Some (h, p)"
proof -
  have none: "hits (\<lambda>spec. True) h as = []"
    using assms(3) by (simp add: hits_def filter_all_False)
  show ?thesis by (simp add: apply_unchecked_def mark_where_eq [OF assms(1,2)] none)
qed

text \<open>The state between the scans and the end: what the scans left, and the two invariants.\<close>

definition qmv_run :: "'f itself \<Rightarrow> (string \<Rightarrow> bool) \<Rightarrow> spec_heap \<Rightarrow> addr list \<Rightarrow> spec_heap \<Rightarrow>
    apply_plan \<Rightarrow> addr list \<Rightarrow> spec_heap \<Rightarrow> apply_plan \<Rightarrow> bool" where
  "qmv_run ty E h R h3 p3 pend h' p \<longleftrightarrow>
     fresh_renames h R \<and> (\<forall>b. live h3 b \<longleftrightarrow> live h b) \<and>
     (\<forall>b \<in> set R. the_spec h3 b = (the_spec h b)\<lparr>status := verdict E h R b\<rparr>) \<and>
     plan_no_change p3 = filter (\<lambda>a. verdict E h R a = STATUS_NO_CHANGE) R \<and>
     distinct (plan_error p3) \<and> set (plan_error p3) =
       {a \<in> set R. verdict E h R a = STATUS_DUPLICATE \<or> verdict E h R a = STATUS_OLD_MISSING} \<and>
     (\<exists>av h4 L. topo_inv ty E h3 (set (filter (is_unchecked h3) R)) pend av h4 L \<and>
        (\<forall>a \<in> set pend. E (newn h3 a) \<and> newn h3 a \<notin> oldn h3 ` set L)) \<and>
     res_inv ty E h3 (set (filter (is_unchecked h3) R)) (set pend) p3 h' p \<and>
     waiting (set pend) h' = {}"

lemma qmv_runD:
  assumes "qmv_run ty E h R h3 p3 pend h' p"
  shows "fresh_renames h R" "live h3 b \<longleftrightarrow> live h b"
    "b \<in> set R \<Longrightarrow> the_spec h3 b = (the_spec h b)\<lparr>status := verdict E h R b\<rparr>"
    "plan_no_change p3 = filter (\<lambda>a. verdict E h R a = STATUS_NO_CHANGE) R"
    "distinct (plan_error p3)" "set (plan_error p3) =
       {a \<in> set R. verdict E h R a = STATUS_DUPLICATE \<or> verdict E h R a = STATUS_OLD_MISSING}"
    "\<exists>av h4 L. topo_inv ty E h3 (set (filter (is_unchecked h3) R)) pend av h4 L \<and>
        (\<forall>a \<in> set pend. E (newn h3 a) \<and> newn h3 a \<notin> oldn h3 ` set L)"
    "res_inv ty E h3 (set (filter (is_unchecked h3) R)) (set pend) p3 h' p"
    "waiting (set pend) h' = {}"
  using assms by (auto simp: qmv_run_def)

lemma qmv_run_status:
  assumes run: "qmv_run ty E h R h3 p3 pend h' p" and a: "a \<in> set R"
  shows "live h' a" "oldn h' a = oldn h a" "newn h' a = newn h a"
    "verdict E h R a \<noteq> STATUS_UNCHECKED \<Longrightarrow> status (the_spec h' a) = verdict E h R a"
    "verdict E h R a = STATUS_UNCHECKED \<Longrightarrow>
       status (the_spec h' a) = STATUS_NEW_EXISTS \<and> a \<in> set pend \<or> planned h' a"
proof -
  note D = qmv_runD [OF run]
  note heap = res_heapD [OF res_invD(1) [OF D(8)]]
  have live3: "live h3 a" using D(2) fresh_renamesD(4) [OF D(1) a] by blast
  show "live h' a" "oldn h' a = oldn h a" "newn h' a = newn h a"
    using heap(2-4) [OF live3] D(3) [OF a] by simp_all
  show "verdict E h R a \<noteq> STATUS_UNCHECKED \<Longrightarrow> status (the_spec h' a) = verdict E h R a"
    using heap(5) [OF live3] D(3) [OF a] by auto
  assume "verdict E h R a = STATUS_UNCHECKED"
  then have U: "a \<in> set (filter (is_unchecked h3) R)" using D(3) [OF a] a by simp
  show "status (the_spec h' a) = STATUS_NEW_EXISTS \<and> a \<in> set pend \<or> planned h' a"
  proof (cases "a \<in> set pend")
    case True
    then show ?thesis using heap(7) [OF True] D(9) by (auto simp: waiting_def)
  next
    case False
    then have "status (the_spec h' a) = STATUS_APPLY" using U heap(8) [of a] by blast
    then show ?thesis by (simp add: planned_def)
  qed
qed

lemma qmv_run_planned:
  assumes run: "qmv_run ty E h R h3 p3 pend h' p" and a: "a \<in> set R" "planned h' a"
  shows "a \<in> set (filter (is_unchecked h3) R)"
  using qmv_run_status(4) [OF run a(1)] qmv_runD(3) [OF run a(1)] a
  by (cases "verdict E h R a = STATUS_UNCHECKED") (auto simp: planned_def)

lemma qmv_run_errors:
  assumes run: "qmv_run ty E h R h3 p3 pend h' p"
  shows "distinct (plan_error p)" "set (plan_error p) = {a \<in> set R. status (the_spec h' a) \<in>
       {STATUS_DUPLICATE, STATUS_OLD_MISSING, STATUS_NEW_EXISTS}}"
    "plan_no_change p = filter (\<lambda>a. verdict E h R a = STATUS_NO_CHANGE) R"
proof -
  note D = qmv_runD [OF run] and st = qmv_run_status(4,5) [OF run]
  obtain es where es: "plan_error p = plan_error p3 @ es" "distinct es"
    "set es = {b \<in> set pend. status (the_spec h' b) = STATUS_NEW_EXISTS}"
    "plan_no_change p = plan_no_change p3"
    using res_invD(4) [OF D(8)] by (auto simp: res_error_def)
  show "plan_no_change p = filter (\<lambda>a. verdict E h R a = STATUS_NO_CHANGE) R" by (simp add: es D(4))
  have pend: "b \<in> set R \<and> verdict E h R b = STATUS_UNCHECKED" if b: "b \<in> set pend" for b
  proof -
    have "b \<in> set (filter (is_unchecked h3) R)" using D(7) b topo_invD(3) by blast
    then show ?thesis using D(3) by auto
  qed
  have iff: "status (the_spec h' a) = STATUS_NEW_EXISTS \<longleftrightarrow> a \<in> set es"
    "status (the_spec h' a) = STATUS_DUPLICATE \<or> status (the_spec h' a) = STATUS_OLD_MISSING \<longleftrightarrow>
      a \<in> set (plan_error p3)" if "a \<in> set R" for a
    using st [OF that] D(6) es(3) that
    by (cases "verdict E h R a = STATUS_UNCHECKED"; auto simp: planned_def)+
  have "set es \<subseteq> set R" "set (plan_error p3) \<subseteq> set R" using es(3) pend D(6) by auto
  then show "set (plan_error p) = {a \<in> set R. status (the_spec h' a) \<in>
       {STATUS_DUPLICATE, STATUS_OLD_MISSING, STATUS_NEW_EXISTS}}"
    using iff es(1) by auto
  have "set es \<inter> set (plan_error p3) = {}" using es(3) pend D(6) by auto
  then show "distinct (plan_error p)" using es(1,2) D(5) by auto
qed

lemma qmv_run_refused:
  assumes run: "qmv_run ty E h R h3 p3 pend h' p"
    and a: "a \<in> set R" "status (the_spec h' a) = STATUS_NEW_EXISTS"
  shows "E (newn h a)" "b \<in> set R \<Longrightarrow> oldn h b = newn h a \<Longrightarrow> \<not> planned h' b"
proof -
  note D = qmv_runD [OF run]
  have live: "\<forall>b. live h3 b \<longleftrightarrow> live h b" using D(2) by blast
  have spec: "\<forall>b \<in> set R. the_spec h3 b = (the_spec h b)\<lparr>status := verdict E h R b\<rparr>" using D(3) by blast
  note ready = fresh_ready [OF D(1) spec live]
  obtain av h4 L where topo: "topo_inv ty E h3 (set (filter (is_unchecked h3) R)) pend av h4 L"
    "\<forall>a \<in> set pend. E (newn h3 a) \<and> newn h3 a \<notin> oldn h3 ` set L" using D(7) by blast
  have "verdict E h R a = STATUS_UNCHECKED"
    using qmv_run_status(4) [OF run a(1)] a(2) by (metis verdict_not(3))
  then have aU: "a \<in> set (filter (is_unchecked h3) R)" using D(3) [OF a(1)] a(1) by simp
  note refused = refused_stays [OF D(8) ready topo aU a(2)]
  show "E (newn h a)" using refused(1) D(3) [OF a(1)] by simp
  show "\<not> planned h' b" if b: "b \<in> set R" "oldn h b = newn h a"
  proof
    assume p: "planned h' b"
    have "oldn h3 b = newn h3 a" using D(3) [OF a(1)] D(3) [OF b(1)] b(2) by simp
    from refused(2) [OF qmv_run_planned [OF run b(1) p] this] p show False by blast
  qed
qed

lemma qmv_run_plan:
  assumes run: "qmv_run ty E h R h3 p3 pend h' p"
  shows "qmv_plan ty E h R h' p"
proof -
  note D = qmv_runD [OF run]
  let ?U = "set (filter (is_unchecked h3) R)"
  have "{a \<in> set R. planned h' a} = {a \<in> ?U. planned h' a}"
    using qmv_run_planned [OF run] by auto
  then have mv: "move_of h' ` {a \<in> set R. planned h' a} = move_of h3 ` {a \<in> ?U. planned h' a}"
    using qmv_run_status(2,3) [OF run] D(3) by (auto simp: move_of_def image_iff)
  note plan = res_planD [OF res_invD(3) [OF D(8)]]
  have "live h' a \<and> oldn h' a = oldn h a \<and> newn h' a = newn h a \<and>
      (if verdict E h R a = STATUS_UNCHECKED
       then status (the_spec h' a) = STATUS_NEW_EXISTS \<or> planned h' a
       else status (the_spec h' a) = verdict E h R a)" if "a \<in> set R" for a
    using qmv_run_status [OF run that] by (cases "verdict E h R a = STATUS_UNCHECKED") auto
  then show ?thesis
    unfolding qmv_plan_def mv
    using res_heapD(1) [OF res_invD(1) [OF D(8)]] plan(1,2,4-8)
      qmv_run_errors [OF run] qmv_run_refused [OF run] by blast
qed

lemma make_plan_qmv:
  assumes fresh: "fresh_renames h R" and fin: "finite {n. fe (cat_files wd n)}"
  shows "\<exists>h' p. make_plan ''qmv'' fe wd R h = Some (h', p) \<and>
           qmv_plan (ty :: 'f itself) (\<lambda>n. fe (cat_files wd n)) h R h' p"
proof -
  define E where "E = (\<lambda>n. fe (cat_files wd n))"
  note F = fresh_renamesD [OF fresh]
  from fresh_scans [OF fresh E_def] obtain h3 p3 where
    scans: "(do { st \<leftarrow> previous_scan R (h, new_plan); st \<leftarrow> duplicate_scan R st;
       st \<leftarrow> old_missing_scan fe wd R st; no_change_scan R st }) = Some (h3, p3)"
    and live3: "\<forall>b. live h3 b \<longleftrightarrow> live h b" and na: "next_addr h3 = next_addr h"
    and spec3: "\<forall>b \<in> set R. the_spec h3 b = (the_spec h b)\<lparr>status := verdict E h R b\<rparr>"
    and p3: "plan_ok p3 = []" "plan_no_change p3 = filter (\<lambda>a. verdict E h R a = STATUS_NO_CHANGE) R"
      "distinct (plan_error p3)" "set (plan_error p3) =
        {a \<in> set R. verdict E h R a = STATUS_DUPLICATE \<or> verdict E h R a = STATUS_OLD_MISSING}"
    by blast
  note ready = fresh_ready [OF fresh spec3 live3]
  have liveR: "\<forall>a \<in> set R. live h3 a" using F(4) live3 by blast
  have ok3: "heap_ok h3" using heap_ok_live [OF F(1)] live3 na by (intro heap_okI) simp
  from topologic_sort_inv [OF ready F(2) liveR E_def p3(1)] obtain pend av h4 L where
    sort: "topologic_sort fe wd R (h3, p3) = Some (h4, p3\<lparr>plan_ok := L\<rparr>)"
    and topo: "topo_inv ty E h3 (set (filter (is_unchecked h3) R)) pend av h4 L"
    and stuck: "\<forall>a \<in> set pend. E (newn h3 a) \<and> newn h3 a \<notin> oldn h3 ` set L"
    by blast
  have finE: "finite {n. E n}" using fin by (simp add: E_def)
  have noapply: "\<forall>a \<in> set R. status (the_spec h3 a) \<noteq> STATUS_APPLY" using spec3 by simp
  from cross_reference_inv [OF E_def finE ok3 F(2) liveR p3(1) refl ready noapply topo] obtain h' p
    where cross: "cross_reference_resolve fe wd R (h4, p3\<lparr>plan_ok := L\<rparr>) = Some (h', p)"
    and inv: "res_inv ty E h3 (set (filter (is_unchecked h3) R)) (set pend) p3 h' p"
    and wait: "waiting (set pend) h' = {}" by blast
  have run: "qmv_run ty E h R h3 p3 pend h' p"
    using fresh live3 spec3 p3(2-4) topo stuck inv wait unfolding qmv_run_def by blast
  have "live h' a \<and> \<not> is_unchecked h' a" if "a \<in> set R" for a
    using qmv_run_status(1,4,5) [OF run that]
    by (cases "verdict E h R a = STATUS_UNCHECKED") (auto simp: planned_def)
  then have app: "apply_unchecked R (h', p) = Some (h', p)"
    using F(2) by (intro apply_unchecked_none) auto
  have "make_plan ''qmv'' fe wd R h =
      (do { st \<leftarrow> (do { st \<leftarrow> previous_scan R (h, new_plan); st \<leftarrow> duplicate_scan R st;
         st \<leftarrow> old_missing_scan fe wd R st; no_change_scan R st });
       st \<leftarrow> topologic_sort fe wd R st; st \<leftarrow> cross_reference_resolve fe wd R st;
       apply_unchecked R st })"
    by (simp add: make_plan_def Option.bind_assoc)
  also have "\<dots> = Some (h', p)" by (simp add: scans sort cross app)
  finally show ?thesis using qmv_run_plan [OF run] unfolding E_def by blast
qed

subsection \<open>The plan of qcp\<close>

lemma unchecked_olds_spec:
  "hmap_ok m \<Longrightarrow> \<forall>a \<in> set as. live h a \<Longrightarrow>
   \<exists>m'. unchecked_olds as h m = Some m' \<and> hmap_ok m' \<and>
     dom (hmap_lookup m') = dom (hmap_lookup m) \<union> oldn h ` {a \<in> set as. is_unchecked h a}"
proof (induction as arbitrary: m)
  case (Cons a as)
  let ?m = "if is_unchecked h a then map_put m (oldn h a) a else m"
  have "hmap_ok ?m" using hm.put_ok [OF Cons.prems(1)] Cons.prems(1) by simp
  moreover have "dom (hmap_lookup ?m) = dom (hmap_lookup m) \<union> (if is_unchecked h a then {oldn h a} else {})"
    using hm.put_lookup [OF Cons.prems(1), of "oldn h a" a] by auto
  ultimately show ?case
    using Cons.IH [of ?m] Cons.prems(2) by (cases "is_unchecked h a") (fastforce simp del: hm.put_lookup)+
qed simp

lemma make_plan_qcp:
  assumes fresh: "fresh_renames h R" and E: "E = (\<lambda>n. fe (cat_files wd n))"
  shows "\<exists>h' p. make_plan ''qcp'' fe wd R h = Some (h', p) \<and>
    plan_ok p = filter (\<lambda>a. verdict E h R a = STATUS_UNCHECKED \<and> \<not> E (newn h a)) R \<and>
    (\<forall>a \<in> set R. live h' a \<and> oldn h' a = oldn h a \<and> newn h' a = newn h a \<and> prevp h' a = None)"
proof -
  note F = fresh_renamesD [OF fresh]
  from fresh_scans [OF fresh E] obtain h3 p3 where
    scans: "(do { st \<leftarrow> previous_scan R (h, new_plan); st \<leftarrow> duplicate_scan R st;
       st \<leftarrow> old_missing_scan fe wd R st; no_change_scan R st }) = Some (h3, p3)"
    and live3: "\<forall>b. live h3 b \<longleftrightarrow> live h b"
    and spec3: "\<forall>b \<in> set R. the_spec h3 b = (the_spec h b)\<lparr>status := verdict E h R b\<rparr>"
    and p3: "plan_ok p3 = []" by blast
  have live: "\<forall>a \<in> set R. live h3 a" using live3 F(4) by blast
  have un: "is_unchecked h3 a \<longleftrightarrow> verdict E h R a = STATUS_UNCHECKED" if "a \<in> set R" for a using spec3 that by simp
  have names: "oldn h3 a = oldn h a" "newn h3 a = newn h a" "prevp h3 a = None" if "a \<in> set R" for a
    using spec3 that F(6) by simp_all
  from unchecked_olds_spec [OF hm.empty_ok(1) live] obtain olds where
    olds: "unchecked_olds R h3 (hmap_new ()) = Some olds" "hmap_ok olds"
      "dom (hmap_lookup olds) = oldn h3 ` {a \<in> set R. is_unchecked h3 a}"
    by (auto simp: hm.empty_ok(2))
  define taken where "taken = hits (\<lambda>spec. hmap_get olds (Some (new_name spec)) \<noteq> None) h3 R"
  define h4 where "h4 = mark_all STATUS_NEW_EXISTS taken h3"
  define blocked where "blocked = hits (\<lambda>spec. fe (cat_files wd (new_name spec))) h4 R"
  define h5 where "h5 = mark_all STATUS_NEW_EXISTS blocked h4"
  define oks where "oks = hits (\<lambda>spec. True) h5 R"
  have taken_exists: "E (newn h a)" if "a \<in> set taken" for a
  proof -
    have "hmap_lookup olds (newn h3 a) \<noteq> None" "a \<in> set R"
      using that hm.get_lookup [OF olds(2)] by (simp_all add: taken_def hits_def)
    then obtain b where "b \<in> set R" "is_unchecked h3 b" "oldn h3 b = newn h3 a" using olds(3) by force
    then have "E (newn h3 a)" using un spec3 names by (auto simp: verdict_def split: if_splits)
    then show ?thesis using names \<open>a \<in> set R\<close> by simp
  qed
  have live4: "\<forall>a \<in> set R. live h4 a" and live5: "\<forall>a \<in> set R. live h5 a"
    using live by (simp_all add: h4_def h5_def live_mark_all)
  have st4: "the_spec h4 a = (if a \<in> set taken then (the_spec h3 a)\<lparr>status := STATUS_NEW_EXISTS\<rparr> else the_spec h3 a)" for a
    by (simp add: h4_def)
  have st5: "the_spec h5 a = (if a \<in> set blocked then (the_spec h4 a)\<lparr>status := STATUS_NEW_EXISTS\<rparr> else the_spec h4 a)" for a
    by (simp add: h5_def)
  have blocked: "a \<in> set blocked \<longleftrightarrow> is_unchecked h4 a \<and> E (newn h a)" if "a \<in> set R" for a
    using that names(2) [OF that] by (auto simp: blocked_def hits_def E st4)
  have "is_unchecked h5 a \<longleftrightarrow> verdict E h R a = STATUS_UNCHECKED \<and> \<not> E (newn h a)" if a: "a \<in> set R" for a
    using un [OF a] blocked [OF a] taken_exists [of a] by (auto simp: st5 st4)
  then have oks: "oks = filter (\<lambda>a. verdict E h R a = STATUS_UNCHECKED \<and> \<not> E (newn h a)) R"
    unfolding oks_def hits_def by (intro filter_cong) auto
  let ?p = "fold add_ok oks (fold add_error blocked (fold add_error taken p3))"
  have "new_exists_scan fe wd R (h3, p3) = Some (h5, fold add_error blocked (fold add_error taken p3))"
  proof -
    have "mark_where (\<lambda>spec. hmap_get olds (Some (new_name spec)) \<noteq> None) STATUS_NEW_EXISTS add_error R (h3, p3) =
        Some (h4, fold add_error taken p3)"
      by (simp only: mark_where_eq [OF F(2) live] taken_def h4_def)
    moreover have "mark_where (\<lambda>spec. fe (cat_files wd (new_name spec))) STATUS_NEW_EXISTS add_error R
        (h4, fold add_error taken p3) = Some (h5, fold add_error blocked (fold add_error taken p3))"
      by (simp only: mark_where_eq [OF F(2) live4] blocked_def h5_def)
    ultimately show ?thesis using olds(1) by (simp add: new_exists_scan_def del: not_None_eq fold_add)
  qed
  moreover have "apply_unchecked R (h5, q) = Some (mark_all STATUS_APPLY oks h5, fold add_ok oks q)" for q
    using mark_where_eq [OF F(2) live5] by (simp add: apply_unchecked_def oks_def)
  ultimately have "make_plan ''qcp'' fe wd R h = Some (mark_all STATUS_APPLY oks h5, ?p)"
    using scans by (auto simp: make_plan_def bind_eq_Some_conv simp del: strcmp.simps fold_add)
  moreover have "plan_ok ?p = oks" using p3 by simp
  moreover have "live (mark_all STATUS_APPLY oks h5) a \<and> oldn (mark_all STATUS_APPLY oks h5) a = oldn h a \<and>
      newn (mark_all STATUS_APPLY oks h5) a = newn h a \<and> prevp (mark_all STATUS_APPLY oks h5) a = None"
    if a: "a \<in> set R" for a
    using live5 names [OF a] a by (auto simp: live_mark_all st5 st4)
  ultimately show ?thesis using oks by blast
qed


end
