(* ===== verification/Safety.thy ===== *)
theory Safety
  imports Apply Planner
begin

text \<open>
  What a plan guarantees while it is carried out, whichever commands fail: no command ever finds
  its destination occupied, no freed object is touched, and the plan that is left is again valid
  for the files as they are then, so that \<open>apply\<close> can be repeated.
\<close>

subsection \<open>Valid plans\<close>

definition plan_valid :: "(string \<Rightarrow> bool) \<Rightarrow> spec_heap \<Rightarrow> addr list \<Rightarrow> bool" where
  "plan_valid E h L \<longleftrightarrow> distinct L \<and> (\<forall>x \<in> set L. live h x \<and> planned h x) \<and>
     distinct (map (newn h) L) \<and> twins h (set L) \<and> linked E h {} L"

lemma plan_validD:
  assumes "plan_valid E h L"
  shows "distinct L" "x \<in> set L \<Longrightarrow> live h x" "x \<in> set L \<Longrightarrow> planned h x"
    "distinct (map (newn h) L)" "twins h (set L)" "linked E h {} L"
  using assms by (auto simp: plan_valid_def)

text \<open>Freeing an object that has no predecessor.\<close>

lemma free_file_spec_head:
  assumes "live h a" "prevp h a = None" "\<And>c. nextp h a = Some c \<Longrightarrow> live h c \<and> c \<noteq> a"
  shows "\<exists>h'. free_file_spec a h = Some h' \<and> next_addr h' = next_addr h \<and>
    (\<forall>b. live h' b \<longleftrightarrow> live h b \<and> b \<noteq> a) \<and>
    (\<forall>b. b \<noteq> a \<longrightarrow> the_spec h' b =
       (if nextp h a = Some b then (the_spec h b)\<lparr>prev_spec := None\<rparr> else the_spec h b))"
proof (cases "nextp h a")
  case None
  let ?h = "h\<lparr>cells := (cells h)(a := None)\<rparr>"
  have "free_file_spec a h = Some ?h" using assms(1,2) None by (simp add: free_file_spec_def)
  moreover have "live ?h b \<longleftrightarrow> live h b \<and> b \<noteq> a" "b \<noteq> a \<Longrightarrow> the_spec ?h b = the_spec h b" for b
    by (auto simp: live_def the_spec_def)
  ultimately show ?thesis using None by auto
next
  case (Some c)
  with assms(3) have c: "live h c" "c \<noteq> a" by auto
  let ?u = "upd c (\<lambda>s. s\<lparr>prev_spec := None\<rparr>) h"
  let ?h = "?u\<lparr>cells := (cells ?u)(a := None)\<rparr>"
  have "free_file_spec a h = Some ?h" using assms(1,2) Some c by (simp add: free_file_spec_def)
  moreover have "live ?h b \<longleftrightarrow> live ?u b \<and> b \<noteq> a" "b \<noteq> a \<Longrightarrow> the_spec ?h b = the_spec ?u b" for b
    by (auto simp: live_def the_spec_def)
  ultimately show ?thesis using Some c by auto
qed

lemma linked_remove:
  assumes "linked E h seen xs" "a \<notin> set xs"
    and "\<And>x. x \<in> set xs \<Longrightarrow> newn h' x = newn h x \<and> newn h x \<noteq> newn h a \<and>
           prevp h' x = (if prevp h x = Some a then None else prevp h x)"
    and "\<And>x. x \<in> seen \<union> set xs \<Longrightarrow> x \<noteq> a \<Longrightarrow> oldn h' x = oldn h x"
    and "\<And>n. E' n \<Longrightarrow> n \<noteq> oldn h a \<and> (n = newn h a \<or> E n)"
  shows "linked E' h' (seen - {a}) xs"
  using assms(1-4)
proof (induction xs arbitrary: seen)
  case (Cons x xs)
  have rest: "linked E' h' (insert x seen - {a}) xs"
    by (rule Cons.IH) (use Cons.prems in auto)
  have "insert x seen - {a} = insert x (seen - {a})" using Cons.prems(2) by auto
  moreover have "case prevp h' x of None \<Rightarrow> \<not> E' (newn h' x)
      | Some b \<Rightarrow> b \<in> seen - {a} \<and> oldn h' b = newn h' x"
    using Cons.prems(1) Cons.prems(3) [of x] Cons.prems(4) assms(5) [of "newn h x"]
    by (auto split: option.splits if_splits)
  ultimately show ?case using rest by simp
qed simp

lemma plan_valid_free:
  assumes valid: "plan_valid E h (ks @ a # as)" and prev: "prevp h a = None"
    and E': "\<forall>n. E' n \<longrightarrow> n \<noteq> oldn h a \<and> (n = newn h a \<or> E n)"
  shows "\<exists>h'. free_file_spec a h = Some h' \<and> plan_valid E' h' (ks @ as) \<and>
    (\<forall>b. b \<noteq> a \<longrightarrow> oldn h' b = oldn h b \<and> newn h' b = newn h b)"
proof -
  note V = plan_validD [OF valid]
  have tw: "nextp h x = Some y \<longleftrightarrow> y \<in> set (ks @ a # as) \<and> prevp h y = Some x"
    if "x \<in> set (ks @ a # as)" for x y using V(5) that unfolding twins_def by blast
  have a: "a \<notin> set ks" "a \<notin> set as" "live h a" using V(1,2) by auto
  have "live h c \<and> c \<noteq> a" if "nextp h a = Some c" for c
    using tw [of a c] that prev V(2) [of c] by auto
  from free_file_spec_head [OF a(3) prev this] obtain h' where
    h': "free_file_spec a h = Some h'" "\<And>b. live h' b \<longleftrightarrow> live h b \<and> b \<noteq> a"
      "\<And>b. b \<noteq> a \<Longrightarrow> the_spec h' b =
         (if nextp h a = Some b then (the_spec h b)\<lparr>prev_spec := None\<rparr> else the_spec h b)"
    by blast
  have same: "oldn h' b = oldn h b" "newn h' b = newn h b" "nextp h' b = nextp h b"
    "status (the_spec h' b) = status (the_spec h b)" if "b \<noteq> a" for b
    using h'(3) [OF that] by simp_all
  have ne: "b \<noteq> a" if "b \<in> set (ks @ as)" for b using that a by auto
  have prev': "prevp h' b = (if prevp h b = Some a then None else prevp h b)"
    if "b \<in> set (ks @ as)" for b
  proof -
    have ba: "b \<noteq> a" using that a by auto
    have "nextp h a = Some b \<longleftrightarrow> prevp h b = Some a" using tw [of a b] that by auto
    then show ?thesis using h'(3) [OF ba] by simp
  qed
  have "distinct (map (newn h') (ks @ as))"
  proof -
    have m: "map (newn h') (ks @ as) = map (newn h) (ks @ as)"
      by (rule map_cong [OF refl]) (rule same(2) [OF ne])
    show ?thesis unfolding m using V(4) by auto
  qed
  moreover have "twins h' (set (ks @ as))"
    unfolding twins_def
  proof (intro ballI allI)
    fix x y assume x: "x \<in> set (ks @ as)"
    then have xa: "x \<noteq> a" "x \<in> set (ks @ a # as)" using a by auto
    show "nextp h' x = Some y \<longleftrightarrow> y \<in> set (ks @ as) \<and> prevp h' y = Some x"
    proof (cases "y \<in> set (ks @ as)")
      case True
      have "prevp h' y = Some x \<longleftrightarrow> prevp h y = Some x" unfolding prev' [OF True] using xa(1) by simp
      with True tw [OF xa(2), of y] same(3) [OF xa(1)] show ?thesis by simp
    next
      case False
      with tw [OF xa(2), of y] same(3) [OF xa(1)] prev show ?thesis by auto
    qed
  qed
  moreover have "linked E' h' {} (ks @ as)"
  proof -
    have new: "newn h x \<noteq> newn h a" if "x \<in> set (ks @ as)" for x
    proof -
      have "newn h a \<notin> newn h ` set (ks @ as)" using V(4) by auto
      then show ?thesis using imageI [OF that, of "newn h"] by metis
    qed
    have l: "linked E h {} ks" "linked E h (insert a (set ks)) as"
      using V(6) by (auto simp: linked_append)
    have pr: "newn h' x = newn h x \<and> newn h x \<noteq> newn h a \<and>
        prevp h' x = (if prevp h x = Some a then None else prevp h x)" if "x \<in> set (ks @ as)" for x
      using same(2) [OF ne [OF that]] new [OF that] prev' [OF that] by blast
    have "linked E' h' ({} - {a}) ks"
      by (rule linked_remove [OF l(1) a(1) pr same(1) E' [rule_format]]) simp_all
    moreover have "linked E' h' (insert a (set ks) - {a}) as"
      by (rule linked_remove [OF l(2) a(2) pr same(1) E' [rule_format]]) simp_all
    ultimately show ?thesis using a(1) by (simp add: linked_append)
  qed
  moreover have "live h' x \<and> planned h' x" if "x \<in> set (ks @ as)" for x
    using V(2,3) [of x] h'(2) [of x] same(4) [OF ne [OF that]] ne [OF that] that
    by (auto simp: planned_def)
  ultimately have "plan_valid E' h' (ks @ as)" using V(1) unfolding plan_valid_def by auto
  with h'(1) same show ?thesis by blast
qed

subsection \<open>The commands\<close>

text \<open>
  The world is the files of the work directory and the list of the moves \<open>mv\<close> was called for,
  each with whether its destination existed at that moment.  \<open>mv_behaves\<close> states what the
  program relies on: \<open>mv -- old new\<close> with a free \<open>new\<close> moves the file if it reports success and
  changes nothing otherwise.  Of a call with an occupied destination it only says that it is
  recorded.  \<open>mv_works\<close> says in addition that it does succeed where it can.
\<close>

type_synonym 'f watched = "'f files \<times> (move \<times> bool) list"

definition mv_behaves :: "'f watched system \<Rightarrow> bool" where
  "mv_behaves sys \<longleftrightarrow>
     (\<forall>old new fs calls.
        case exec_command sys ''mv'' [''mv'', ''--'', old, new] (fs, calls) of (st, fs', calls') \<Rightarrow>
          calls' = calls @ [((old, new), fs new \<noteq> None)] \<and>
          (fs new = None \<longrightarrow>
             fs' = (if st = Some (Exited 0) then fs(new := fs old, old := None) else fs))) \<and>
     (\<forall>w. snd (to_work_directory sys w) = w \<and> snd (from_work_directory sys w) = w)"

definition mv_works :: "'f watched system \<Rightarrow> bool" where
  "mv_works sys \<longleftrightarrow> mv_behaves sys \<and>
     (\<forall>old new fs calls. fs old \<noteq> None \<and> fs new = None \<longrightarrow>
        fst (exec_command sys ''mv'' [''mv'', ''--'', old, new] (fs, calls)) = Some (Exited 0)) \<and>
     (\<forall>w. fst (to_work_directory sys w) \<and> fst (from_work_directory sys w))"

definition runs_mv :: "options \<Rightarrow> bool" where
  "runs_mv opts \<longleftrightarrow> command_name opts = ''mv'' \<and> \<not> simulate opts"

lemma run_spec_mv:
  assumes "runs_mv opts" "mv_behaves sys" "fs (new_name spec) = None"
  shows "\<exists>ok fs'. run_spec sys opts spec (fs, calls) =
    (ok, fs', calls @ [((old_name spec, new_name spec), False)]) \<and>
    fs' = (if ok then fs(new_name spec := fs (old_name spec), old_name spec := None) else fs)"
proof -
  obtain st fs' calls' where ex: "exec_command sys ''mv''
      [''mv'', ''--'', old_name spec, new_name spec] (fs, calls) = (st, fs', calls')"
    by (metis surj_pair)
  have "case exec_command sys ''mv'' [''mv'', ''--'', old_name spec, new_name spec] (fs, calls) of
      (st, fs', calls') \<Rightarrow>
        calls' = calls @ [((old_name spec, new_name spec), fs (new_name spec) \<noteq> None)] \<and>
        (fs (new_name spec) = None \<longrightarrow> fs' = (if st = Some (Exited 0)
           then fs(new_name spec := fs (old_name spec), old_name spec := None) else fs))"
    using assms(2) [unfolded mv_behaves_def, THEN conjunct1, THEN spec [of _ "old_name spec"],
      THEN spec [of _ "new_name spec"], THEN spec [of _ fs], THEN spec [of _ calls]] .
  then have "calls' = calls @ [((old_name spec, new_name spec), False)]"
    "fs' = (if st = Some (Exited 0) then fs(new_name spec := fs (old_name spec), old_name spec := None)
            else fs)"
    unfolding ex using assms(3) by auto
  moreover have "run_spec sys opts spec (fs, calls) = (st = Some (Exited 0), fs', calls')"
  proof -
    have "run_spec sys opts spec (fs, calls) = perform_command sys opts spec (fs, calls)"
      "command_name opts = ''mv''" using assms(1) by (simp_all add: run_spec_def runs_mv_def)
    moreover have "wait_child_and_check_status c \<longleftrightarrow> c = Exited 0" for c by (cases c) auto
    ultimately show ?thesis by (simp add: perform_command_def Let_def ex split: option.split)
  qed
  ultimately show ?thesis by simp
qed

lemma run_spec_works:
  assumes "runs_mv opts" "mv_works sys" "do_move (old_name spec, new_name spec) fs = Some fs'"
  shows "run_spec sys opts spec (fs, calls) =
    (True, fs', calls @ [((old_name spec, new_name spec), False)])"
proof -
  from assms(3) have fs: "fs (old_name spec) \<noteq> None" "fs (new_name spec) = None"
    "fs' = fs(new_name spec := fs (old_name spec), old_name spec := None)"
    by (auto simp: do_move_def split: if_splits)
  have beh: "mv_behaves sys" using assms(2) by (simp add: mv_works_def)
  from run_spec_mv [where spec = spec and fs = fs and calls = calls, OF assms(1) beh fs(2)] obtain ok fs'' where
    run: "run_spec sys opts spec (fs, calls) =
      (ok, fs'', calls @ [((old_name spec, new_name spec), False)])"
    "fs'' = (if ok then fs(new_name spec := fs (old_name spec), old_name spec := None) else fs)"
    by blast
  have "fst (exec_command sys ''mv'' [''mv'', ''--'', old_name spec, new_name spec] (fs, calls)) =
      Some (Exited 0)" using assms(2) fs unfolding mv_works_def by blast
  then have "fst (run_spec sys opts spec (fs, calls))"
    using assms(1) unfolding run_spec_def perform_command_def runs_mv_def Let_def
    by (auto split: prod.splits option.splits)
  with run fs(3) show ?thesis by simp
qed

subsection \<open>The loop\<close>

abbreviation occupied :: "'f files \<Rightarrow> string \<Rightarrow> bool" where
  "occupied fs n \<equiv> fs n \<noteq> None"

definition no_overwrite :: "(move \<times> bool) list \<Rightarrow> bool" where
  "no_overwrite calls \<longleftrightarrow> (\<forall>c \<in> set calls. \<not> snd c)"

text \<open>The rounds of the loop on a planned object.\<close>

abbreviation named :: "addr \<Rightarrow> 'w run \<Rightarrow> 'w run" where
  "named a s \<equiv> say (Msg_Names (oldn (heap s) a) (newn (heap s) a)) s"

lemma say_simps [simp]:
  "heap (say m s) = heap s" "kept (say m s) = kept s" "work_files (say m s) = work_files s"
  "world (say m s) = world s" "failed (say m s) = failed s"
  by (simp_all add: say_def)

lemma keep_simps [simp]:
  "heap (keep a s) = heap s" "kept (keep a s) = kept s @ [a]"
  "work_files (keep a s) = work_files s" "world (keep a s) = world s" "failed (keep a s) = failed s"
  by (simp_all add: keep_def)

lemma apply_loop_planned:
  assumes "live (heap s) a" "planned (heap s) a"
  shows "prevp (heap s) a = Some b \<Longrightarrow>
      apply_loop sys opts (a # as) s = apply_loop sys opts as (keep a (say Msg_Skipping (named a s)))"
    and "prevp (heap s) a = None \<Longrightarrow> run_spec sys opts (the_spec (heap s) a) (world s) = (False, w) \<Longrightarrow>
      apply_loop sys opts (a # as) s =
      apply_loop sys opts as (keep a ((named a s)\<lparr>world := w, failed := True\<rparr>))"
    and "prevp (heap s) a = None \<Longrightarrow> run_spec sys opts (the_spec (heap s) a) (world s) = (True, w) \<Longrightarrow>
      free_file_spec a (heap s) = Some h' \<Longrightarrow>
      apply_loop sys opts (a # as) s = apply_loop sys opts as
        ((named a s)\<lparr>world := w, heap := h', work_files := remove1 a (work_files s)\<rparr>)"
  using assms by (auto simp: planned_def finish_spec_def Let_def)

lemma apply_loop_safe:
  assumes "runs_mv opts" "mv_behaves sys"
    and "plan_valid (occupied (fst (world s))) (heap s) (kept s @ as)" "no_overwrite (snd (world s))"
  shows "\<exists>s'. apply_loop sys opts as s = Some s' \<and>
    plan_valid (occupied (fst (world s'))) (heap s') (kept s') \<and> no_overwrite (snd (world s')) \<and>
    (\<exists>gone. set gone \<subseteq> set as \<and> work_files s' = fold remove1 gone (work_files s) \<and>
       set (kept s') = set (kept s) \<union> (set as - set gone))"
  using assms(3,4)
proof (induction as arbitrary: s)
  case Nil
  then show ?case by (intro exI [of _ s]) (auto intro: exI [of _ "[]"])
next
  case (Cons a as)
  note V = plan_validD [OF Cons.prems(1)]
  have a: "live (heap s) a" "planned (heap s) a" using V(2,3) by auto
  let ?spec = "the_spec (heap s) a"
  let ?s1 = "named a s"
  have keep: ?case
    if run: "apply_loop sys opts (a # as) s = apply_loop sys opts as (keep a s2)"
      and s2: "heap s2 = heap s" "kept s2 = kept s" "work_files s2 = work_files s"
        "fst (world s2) = fst (world s)" "no_overwrite (snd (world s2))" for s2
  proof -
    have "plan_valid (occupied (fst (world (keep a s2)))) (heap (keep a s2)) (kept (keep a s2) @ as)"
      using Cons.prems(1) s2 by (simp add: keep_def)
    from Cons.IH [OF this] s2 obtain s' gone where "apply_loop sys opts as (keep a s2) = Some s'"
      "plan_valid (occupied (fst (world s'))) (heap s') (kept s')" "no_overwrite (snd (world s'))"
      "set gone \<subseteq> set as" "work_files s' = fold remove1 gone (work_files s)"
      "set (kept s') = set (kept s) \<union> {a} \<union> (set as - set gone)"
      by (auto simp: keep_def)
    moreover have "a \<notin> set as" using V(1) by simp
    ultimately show ?thesis using run by (intro exI [of _ s'] conjI exI [of _ gone]) auto
  qed
  show ?case
  proof (cases "prevp (heap s) a")
    case (Some b)
    show ?thesis
      by (rule keep [OF apply_loop_planned(1) [OF a Some]]) (simp_all add: Cons.prems(2))
  next
    case None
    have free: "fst (world s) (new_name ?spec) = None"
      using linkedD [OF V(6), of a] None by auto
    obtain fs calls where w: "world s = (fs, calls)" by (cases "world s")
    from run_spec_mv [where spec = ?spec and fs = fs and calls = calls, OF assms(1,2)] free obtain ok fs' where
      run: "run_spec sys opts ?spec (fs, calls) =
        (ok, fs', calls @ [((old_name ?spec, new_name ?spec), False)])"
      "fs' = (if ok then fs(new_name ?spec := fs (old_name ?spec), old_name ?spec := None) else fs)"
      using w by auto
    let ?calls = "calls @ [((old_name ?spec, new_name ?spec), False)]"
    have safe: "no_overwrite ?calls" using Cons.prems(2) w by (simp add: no_overwrite_def)
    show ?thesis
    proof (cases ok)
      case False
      with run w have r: "run_spec sys opts ?spec (world s) = (False, fs, ?calls)" by simp
      show ?thesis
        by (rule keep [OF apply_loop_planned(2) [OF a None r]]) (use safe w in simp_all)
    next
      case True
      have "\<forall>n. occupied fs' n \<longrightarrow>
          n \<noteq> oldn (heap s) a \<and> (n = newn (heap s) a \<or> occupied (fst (world s)) n)"
        using run(2) True w by (auto split: if_splits)
      from plan_valid_free [where E' = "occupied fs'", OF Cons.prems(1) None this] obtain h' where
        h': "free_file_spec a (heap s) = Some h'" "plan_valid (occupied fs') h' (kept s @ as)"
        by (elim exE conjE) (rule that, assumption+)
      let ?s2 = "?s1\<lparr>world := (fs', ?calls), heap := h', work_files := remove1 a (work_files s)\<rparr>"
      have r: "run_spec sys opts ?spec (world s) = (True, fs', ?calls)" using run(1) w True by simp
      note step = apply_loop_planned(3) [OF a None r h'(1)]
      have "plan_valid (occupied (fst (world ?s2))) (heap ?s2) (kept ?s2 @ as)"
        "no_overwrite (snd (world ?s2))" using h'(2) safe by (simp_all add: say_def)
      from Cons.IH [OF this] obtain s' gone where "apply_loop sys opts as ?s2 = Some s'"
        "plan_valid (occupied (fst (world s'))) (heap s') (kept s')" "no_overwrite (snd (world s'))"
        "set gone \<subseteq> set as" "work_files s' = fold remove1 gone (remove1 a (work_files s))"
        "set (kept s') = set (kept s) \<union> (set as - set gone)" by auto
      moreover have "a \<notin> set as" using V(1) by simp
      ultimately show ?thesis
        unfolding step by (intro exI [of _ s'] conjI exI [of _ "a # gone"]) auto
    qed
  qed
qed

lemma apply_loop_complete:
  assumes "runs_mv opts" "mv_works sys"
    and "plan_valid (occupied (fst (world s))) (heap s) as" "kept s = []" "\<not> failed s"
    and "do_moves (map (move_of (heap s)) as) (fst (world s)) = Some fs'"
  shows "\<exists>s'. apply_loop sys opts as s = Some s' \<and> kept s' = [] \<and> \<not> failed s' \<and>
    world s' = (fs', snd (world s) @ map (\<lambda>a. (move_of (heap s) a, False)) as) \<and>
    work_files s' = fold remove1 as (work_files s)"
  using assms(3-6)
proof (induction as arbitrary: s)
  case Nil
  then show ?case by (intro exI [of _ s]) (auto simp: prod_eq_iff)
next
  case (Cons a as)
  note V = plan_validD [OF Cons.prems(1)]
  have a: "live (heap s) a" "planned (heap s) a" "prevp (heap s) a = None" "a \<notin> set as"
    using V(1-3,6) by (auto split: option.splits)
  let ?spec = "the_spec (heap s) a"
  let ?s1 = "named a s"
  obtain fs calls where w: "world s = (fs, calls)" by (cases "world s")
  obtain fs1 where fs1: "do_move (old_name ?spec, new_name ?spec) fs = Some fs1"
    "do_moves (map (move_of (heap s)) as) fs1 = Some fs'"
    using Cons.prems(4) w move_of_def [of "heap s" a] by (auto split: bind_splits)
  note run = run_spec_works [OF assms(1,2) fs1(1), of calls]
  let ?calls = "calls @ [((old_name ?spec, new_name ?spec), False)]"
  have "\<forall>n. occupied fs1 n \<longrightarrow>
      n \<noteq> oldn (heap s) a \<and> (n = newn (heap s) a \<or> occupied (fst (world s)) n)"
    using fs1(1) w by (auto simp: do_move_def split: if_splits)
  from plan_valid_free [where E' = "occupied fs1" and ks = "[]", unfolded append_Nil,
      OF Cons.prems(1) a(3) this] obtain h' where
    h': "free_file_spec a (heap s) = Some h'" "plan_valid (occupied fs1) h' as"
      "\<forall>b. b \<noteq> a \<longrightarrow> oldn h' b = oldn (heap s) b \<and> newn h' b = newn (heap s) b"
    by (elim exE conjE) (rule that, assumption+)
  let ?s2 = "?s1\<lparr>world := (fs1, ?calls), heap := h', work_files := remove1 a (work_files s)\<rparr>"
  have r: "run_spec sys opts ?spec (world s) = (True, fs1, ?calls)" using run w by simp
  note step = apply_loop_planned(3) [OF a(1-3) r h'(1)]
  have moves: "move_of h' b = move_of (heap s) b" if "b \<in> set as" for b
    using h'(3) that a(4) by (auto simp: move_of_def)
  then have map: "map (move_of h') as = map (move_of (heap s)) as" by simp
  have calls: "map (\<lambda>a. (move_of h' a, False)) as = map (\<lambda>a. (move_of (heap s) a, False)) as"
    using moves by simp
  have "\<exists>s'. apply_loop sys opts as ?s2 = Some s' \<and> kept s' = [] \<and> \<not> failed s' \<and>
      world s' = (fs', snd (world ?s2) @ map (\<lambda>a. (move_of (heap ?s2) a, False)) as) \<and>
      work_files s' = fold remove1 as (work_files ?s2)"
    by (rule Cons.IH) (use h'(2) Cons.prems fs1(2) in \<open>simp_all add: say_def map\<close>)
  then show ?case
    unfolding step by (rule ex_forward) (simp add: calls w move_of_def [of "heap s" a])
qed

subsection \<open>The whole command\<close>

lemma mv_dirs:
  assumes "mv_behaves sys"
  shows "to_work_directory sys w = (fst (to_work_directory sys w), w)"
    "from_work_directory sys w = (fst (from_work_directory sys w), w)"
  using assms unfolding mv_behaves_def by (metis prod.collapse)+

lemma apply_plan_safe:
  assumes mv: "runs_mv opts" "mv_behaves sys"
    and valid: "plan_valid (occupied fs) h (plan_ok plan)" and calls: "no_overwrite calls"
  shows "\<exists>ok out. apply_plan sys opts h plan work (fs, calls) = Some (ok, out) \<and>
    no_overwrite (snd (out_world out)) \<and>
    plan_valid (occupied (fst (out_world out))) (out_heap out) (plan_ok (out_plan out)) \<and>
    plan_error (out_plan out) = plan_error plan \<and>
    (\<exists>gone. set gone \<subseteq> set (plan_ok plan) \<and> out_work out = fold remove1 gone work \<and>
       set (plan_ok (out_plan out)) = set (plan_ok plan) - set gone)"
proof -
  define s where "s = \<lparr>heap = h, kept = [], work_files = work, world = (fs, calls), failed = False,
      printed = if plan_error plan \<noteq> [] then [Msg_Contains_Errors] else []\<rparr>"
  have s: "heap s = h" "kept s = []" "work_files s = work" "world s = (fs, calls)" "s\<lparr>world := (fs, calls)\<rparr> = s"
    by (simp_all add: s_def)
  show ?thesis
  proof (cases "plan_ok plan = [] \<or> \<not> fst (to_work_directory sys (fs, calls))")
    case True
    then show ?thesis
      using valid calls mv_dirs(1) [OF mv(2), of "(fs, calls)"]
      by (auto simp: apply_plan_def s_def [symmetric] outcome_of_def s intro!: exI [of _ "[]"]
          split: prod.splits bool.splits)
  next
    case False
    then have enter: "to_work_directory sys (fs, calls) = (True, (fs, calls))"
      using mv_dirs(1) [OF mv(2), of "(fs, calls)"] by simp
    from apply_loop_safe [OF mv, of s "plan_ok plan"] valid calls s obtain s' gone where
      loop: "apply_loop sys opts (plan_ok plan) s = Some s'"
      "plan_valid (occupied (fst (world s'))) (heap s') (kept s')" "no_overwrite (snd (world s'))"
      "set gone \<subseteq> set (plan_ok plan)" "work_files s' = fold remove1 gone work"
      "set (kept s') = set (plan_ok plan) - set gone" by auto
    let ?s2 = "if failed s' then say Msg_Some_Failed s' else s'"
    have s2: "heap ?s2 = heap s'" "kept ?s2 = kept s'" "work_files ?s2 = work_files s'"
      "world ?s2 = world s'" by simp_all
    obtain left where left: "from_work_directory sys (world s') = (left, world s')"
      using mv_dirs(2) [OF mv(2)] by blast
    have "apply_plan sys opts h plan work (fs, calls) =
        Some (left \<and> \<not> failed ?s2, outcome_of plan (?s2\<lparr>world := world s'\<rparr>))"
      using False enter loop(1) left s2
      by (simp add: apply_plan_def s_def [symmetric] s Let_def)
    then show ?thesis using loop s2 by (auto simp: outcome_of_def)
  qed
qed

lemma apply_plan_complete:
  assumes mv: "runs_mv opts" "mv_works sys"
    and valid: "plan_valid (occupied fs) h (plan_ok plan)"
    and moves: "do_moves (map (move_of h) (plan_ok plan)) fs = Some fs'"
  shows "\<exists>out. apply_plan sys opts h plan work (fs, calls) = Some (True, out) \<and>
    plan_ok (out_plan out) = [] \<and> plan_error (out_plan out) = plan_error plan \<and>
    out_world out = (fs', calls @ map (\<lambda>a. (move_of h a, False)) (plan_ok plan)) \<and>
    out_work out = fold remove1 (plan_ok plan) work"
proof -
  define s where "s = \<lparr>heap = h, kept = [], work_files = work, world = (fs, calls), failed = False,
      printed = if plan_error plan \<noteq> [] then [Msg_Contains_Errors] else []\<rparr>"
  have s: "heap s = h" "kept s = []" "work_files s = work" "world s = (fs, calls)" "\<not> failed s"
    "s\<lparr>world := (fs, calls)\<rparr> = s" by (simp_all add: s_def)
  have beh: "mv_behaves sys" using mv(2) by (simp add: mv_works_def)
  have dirs: "to_work_directory sys w = (True, w)" "from_work_directory sys w = (True, w)" for w
    using mv(2) mv_dirs [OF beh, of w] unfolding mv_works_def by metis+
  show ?thesis
  proof (cases "plan_ok plan = []")
    case True
    then show ?thesis using moves by (auto simp: apply_plan_def outcome_of_def Let_def)
  next
    case False
    from apply_loop_complete [OF mv, of s "plan_ok plan" fs'] valid moves s obtain s' where
      "apply_loop sys opts (plan_ok plan) s = Some s'" "kept s' = []" "\<not> failed s'"
      "world s' = (fs', calls @ map (\<lambda>a. (move_of h a, False)) (plan_ok plan))"
      "work_files s' = fold remove1 (plan_ok plan) work" by auto
    with False dirs show ?thesis
      by (simp add: apply_plan_def s_def [symmetric] s outcome_of_def Let_def)
  qed
qed

text \<open>The plan \<open>make_plan\<close> makes is valid, and its moves do what was asked for.\<close>

lemma qmv_plan_valid: "qmv_plan ty E h R h' p \<Longrightarrow> plan_valid E h' (plan_ok p)"
  by (simp add: qmv_plan_def plan_valid_def)

lemma qmv_plan_moves:
  assumes "qmv_plan (ty :: 'f itself) E h R h' p" "dom (fs :: 'f files) = {n. E n}"
  shows "\<exists>fs'. do_moves (map (move_of h') (plan_ok p)) fs = Some fs' \<and>
    simultaneous (move_of h ` {a \<in> set R. planned h' a}) fs fs'"
proof -
  have "move_of h' ` {a \<in> set R. planned h' a} = move_of h ` {a \<in> set R. planned h' a}"
    using assms(1) by (intro image_cong) (auto simp: qmv_plan_def move_of_def)
  then show ?thesis using assms by (auto simp: qmv_plan_def realises_def)
qed

end
