(* ===== verification/Demo.thy ===== *)
theory Demo
  imports Safety
begin

text \<open>
  Concrete inputs for the witnesses: the heap of a list of renames as \<open>list_files\<close> and the
  editing build it, and an \<open>mv\<close> that moves a file to a free name and refuses everything else.
\<close>

definition heap_of :: "(string \<times> string) list \<Rightarrow> spec_heap" where
  "heap_of xs = \<lparr>cells = (\<lambda>a. if a < length xs
       then Some \<lparr>old_name = fst (xs ! a), new_name = snd (xs ! a), prev_spec = None,
         next_spec = None, status = STATUS_UNCHECKED\<rparr> else None),
     next_addr = length xs\<rparr>"

lemma heap_of_simps [simp]:
  "live (heap_of xs) a \<longleftrightarrow> a < length xs"
  "a < length xs \<Longrightarrow> the_spec (heap_of xs) a = \<lparr>old_name = fst (xs ! a), new_name = snd (xs ! a),
     prev_spec = None, next_spec = None, status = STATUS_UNCHECKED\<rparr>"
  "next_addr (heap_of xs) = length xs"
  by (simp_all add: heap_of_def live_def the_spec_def)

lemma fresh_heap_of: "distinct (map fst xs) \<Longrightarrow> fresh_renames (heap_of xs) [0..<length xs]"
  unfolding fresh_renames_def
  by (auto intro!: heap_okI inj_onI simp: distinct_conv_nth) (metis)

definition demo_mv :: "nat watched system" where
  "demo_mv = \<lparr>exec_command = (\<lambda>command args (fs, calls).
       let old = args ! 2; new = args ! 3; calls' = calls @ [((old, new), fs new \<noteq> None)] in
       if fs old \<noteq> None \<and> fs new = None
       then (Some (Exited 0), fs(new := fs old, old := None), calls')
       else (Some (Exited 1), fs, calls')),
     to_work_directory = (\<lambda>w. (True, w)), from_work_directory = (\<lambda>w. (True, w))\<rparr>"

lemma demo_mv_works: "mv_works demo_mv"
  by (auto simp: mv_works_def mv_behaves_def demo_mv_def Let_def)

text \<open>An \<open>mv\<close> that never succeeds, as when the directory is not writable.\<close>

definition failing_mv :: "nat watched system" where
  "failing_mv = demo_mv\<lparr>exec_command := (\<lambda>command args (fs, calls).
     (Some (Exited 1), fs, calls @ [((args ! 2, args ! 3), fs (args ! 3) \<noteq> None)]))\<rparr>"

lemma failing_mv_behaves: "mv_behaves failing_mv"
  by (auto simp: mv_behaves_def failing_mv_def demo_mv_def)

definition qmv_options :: options where
  "qmv_options = \<lparr>program = ''qmv'', force_command = None, simulate = False\<rparr>"

lemma qmv_options_runs: "runs_mv qmv_options"
  by (simp add: runs_mv_def qmv_options_def command_name_def)

text \<open>Two files that change places, and a file that moves to a free name.\<close>

definition demo_files :: "nat files" where
  "demo_files = [''a'' \<mapsto> 1, ''b'' \<mapsto> 2, ''c'' \<mapsto> 3]"

definition demo_exists :: "string \<Rightarrow> bool" where
  "demo_exists f \<longleftrightarrow> f \<in> {''a'', ''b'', ''c''}"

definition demo_renames :: "(string \<times> string) list" where
  "demo_renames = [(''a'', ''b''), (''b'', ''a''), (''c'', ''d'')]"

lemma demo_exists_files: "demo_exists n \<longleftrightarrow> demo_files n \<noteq> None"
  by (simp add: demo_exists_def demo_files_def)

lemma demo_finite: "finite {n. demo_exists (cat_files ''.'' n)}"
  by (simp add: demo_exists_def)

lemma demo_finite_dom: "finite (dom demo_files)"
  by (simp add: demo_files_def)

lemma demo_fresh: "fresh_renames (heap_of demo_renames) [0, 1, 2]"
proof -
  have "distinct (map fst demo_renames)" by (simp add: demo_renames_def)
  moreover have "[0..<length demo_renames] = [0, 1, 2]" by (simp add: demo_renames_def upt_rec)
  ultimately show ?thesis using fresh_heap_of by metis
qed

text \<open>A rename onto a file that stays.\<close>

definition stuck_renames :: "(string \<times> string) list" where
  "stuck_renames = [(''a'', ''c''), (''b'', ''b'')]"

lemma stuck_fresh: "fresh_renames (heap_of stuck_renames) [0, 1]"
proof -
  have "distinct (map fst stuck_renames)" by (simp add: stuck_renames_def)
  moreover have "[0..<length stuck_renames] = [0, 1]" by (simp add: stuck_renames_def upt_rec)
  ultimately show ?thesis using fresh_heap_of by metis
qed

text \<open>A heap with one planned rename.\<close>

definition one_planned :: spec_heap where
  "one_planned = upd 0 (\<lambda>s. s\<lparr>status := STATUS_APPLY\<rparr>) (heap_of [(''c'', ''d'')])"

lemma one_planned_valid: "plan_valid (occupied demo_files) one_planned [0]"
  by (simp add: plan_valid_def one_planned_def planned_def twins_def demo_files_def)

end
