(* ===== verification/Format_Properties.thy ===== *)
theory Format_Properties
  imports Destination_Only Single_Column Dual_Column Listing Demo
begin

text \<open>
  What the edit formats and the readers of file lists promise: the reader of each format
  understands what its writer wrote, and the output of \<open>ls\<close> becomes the list of names.
\<close>

text \<open>The reader gave every file the name that was written for it and touched nothing else.\<close>

definition read_back :: "spec_heap \<Rightarrow> spec_heap \<Rightarrow> addr list \<Rightarrow> (bool \<times> reader) option \<Rightarrow> bool" where
  "read_back h h' as result =
     (case result of
        None \<Rightarrow> False
      | Some (ok, r) \<Rightarrow> ok \<and> rd_warnings r = [] \<and>
          (\<forall>a \<in> set as. new_name (the_spec (rd_heap r) a) = new_name (the_spec h a)) \<and>
          (\<forall>a. old_name (the_spec (rd_heap r) a) = old_name (the_spec h' a)) \<and>
          (\<forall>a. a \<notin> set as \<longrightarrow> the_spec (rd_heap r) a = the_spec h' a))"

lemma read_back_rename_all:
  assumes "distinct as"
  shows "read_back h h' as (Some (True, \<lparr>rd_heap = rename_all as (map (\<lambda>a. new_name (the_spec h a)) as) h',
    rd_in = ins, rd_warnings = []\<rparr>))"
proof -
  let ?h = "rename_all as (map (\<lambda>a. new_name (the_spec h a)) as) h'"
  have "map (\<lambda>a. new_name (the_spec ?h a)) as = map (\<lambda>a. new_name (the_spec h a)) as"
    by (rule rename_all_new_names [OF assms]) simp
  then have "\<forall>a \<in> set as. new_name (the_spec ?h a) = new_name (the_spec h a)" by (simp only: map_eq_conv)
  then show ?thesis by (simp add: read_back_def rename_all_old_name rename_all_other)
qed

text \<open>
  The \<open>destination-only\<close> format: reading the file that the writer made for a list of files, with
  the new names in it, gives each file its new name, with or without separating lines.
\<close>

theorem destination_only_round_trip:
  assumes "distinct as" "\<not> isprint NL"
    and "\<forall>a \<in> set as. live h a \<and> live h' a \<and> name_ok (new_name (the_spec h a))"
  shows "\<exists>t. do_output isprint opts h as = Some t \<and>
    read_back h h' as (do_input opts h' \<lparr>in_text = t, in_error = False\<rparr> as)"
proof -
  let ?ns = "map (\<lambda>a. new_name (the_spec h a)) as"
  let ?t = "do_file isprint (do_separate opts) ?ns"
  let ?r = "\<lparr>rd_heap = h', rd_in = \<lparr>in_text = ?t, in_error = False\<rparr>, rd_warnings = []\<rparr>"
  have out: "do_output isprint opts h as = Some ?t" using assms(3) by (intro do_output_file) blast
  have "do_input_loop opts as ?r = Some (True, ?r\<lparr>rd_heap := rename_all as ?ns (rd_heap ?r),
      rd_in := (rd_in ?r)\<lparr>in_text := []\<rparr>\<rparr>)"
    by (rule do_input_loop_file [of isprint, OF assms(2)]) (use assms(3) in auto)
  then show ?thesis
    using out read_back_rename_all [OF assms(1), of h h'] by (simp add: do_input_def)
qed

theorem destination_only_round_trip_witness:
  "\<exists>t. do_output (\<lambda>c. False) \<lparr>do_separate = True\<rparr> (heap_of demo_renames) [0, 1, 2] = Some t \<and>
    read_back (heap_of demo_renames) (heap_of demo_renames) [0, 1, 2]
      (do_input \<lparr>do_separate = True\<rparr> (heap_of demo_renames) \<lparr>in_text = t, in_error = False\<rparr> [0, 1, 2])"
  by (rule destination_only_round_trip) (simp_all add: demo_renames_def name_ok_def cstr_def)





text \<open>
  \<open>import\<close> of a file with one name on each line makes these names the work files, each once and in
  its order; nothing is printed but the names that were listed already.
\<close>

theorem import_reads_names:
  assumes "heap_ok h" "\<forall>n \<in> set ns. cstr n \<and> NL \<notin> set n"
  shows "\<exists>h' files already.
    import_command (\<lambda>f. Some \<lparr>in_text = name_lines ns, in_error = False\<rparr>) [''import'', f] h [] =
      Some (map Already_Listed already, h', files) \<and>
    list_ok h' files \<and> map (\<lambda>a. old_name (the_spec h' a)) files = first_names (filter (\<lambda>n. \<not> dot_name n) ns)"
proof -
  let ?l = "\<lparr>li_heap = h, li_files = [], li_map = hmap_new (), li_already = []\<rparr>"
  from import_loop_names [OF listing_ok_empty [OF assms(1)] assms(2), of "[]"] obtain l where
    l: "import_loop (name_lines ns) ?l = Some l" "listing_ok l"
    "listed_names l = foldl add_name [] (filter (\<lambda>n. \<not> dot_name n) ns)" by (auto simp: listed_names_def)
  then show ?thesis
    by (auto simp: import_command_def ferror_def listing_ok_def listed_names_def foldl_add_name)
qed

theorem import_reads_names_witness:
  "\<exists>h' files already.
    import_command (\<lambda>f. Some \<lparr>in_text = name_lines [''a'', ''b'', ''a''], in_error = False\<rparr>) [''import'', ''l'']
      empty_heap [] = Some (map Already_Listed already, h', files) \<and>
    map (\<lambda>a. old_name (the_spec h' a)) files = [''a'', ''b'']"
proof -
  have "heap_ok empty_heap" by (simp add: heap_ok_def empty_heap_def)
  moreover have "first_names (filter (\<lambda>n. \<not> dot_name n) [''a'', ''b'', ''a'']) = [''a'', ''b'']" by code_simp
  ultimately show ?thesis using import_reads_names [of empty_heap "[''a'', ''b'', ''a'']" "''l''"] by auto
qed

end
