(* ===== verification/Session.thy ===== *)
theory Session
  imports Listing Apply Plan Destination_Only Single_Column Dual_Column
begin

text \<open>
  The global variables of the program, \<open>src/src/qcmd.h\<close> and the statics of \<open>edit.c\<close>, \<open>list.c\<close>,
  \<open>interactive.c\<close> and the edit formats, as one record; the system calls the rest of the program
  makes, as a record of functions on a world \<open>'w\<close>; and the changes of directory of
  \<open>src/src/list.c\<close>.
\<close>

subsection \<open>The operating system\<close>

text \<open>What a forked child does before it runs another program; a failing call ends the child.\<close>

datatype child_action =
    Close_Fd int
  | Dup_To int int
  | Exec string "string list"
  | Exec_If_Missing string "string list"

text \<open>
  \<open>os_fork\<close> returns the process id, or -1; \<open>os_open_dot\<close> is \<open>open(".", O_RDONLY)\<close> and returns a
  descriptor, or a negative number; \<open>os_fclose_write\<close> gets the whole text that was written to the
  file; \<open>os_mkstemp\<close> returns the name it made from the template and the descriptor.  \<open>os_run\<close> runs a command in a child process, as \<open>perform_command\<close> does.
\<close>

record 'w os =
  os_isprint :: "char \<Rightarrow> bool"
  os_is_directory :: "'w \<Rightarrow> string \<Rightarrow> bool"
  os_file_exists :: "'w \<Rightarrow> string \<Rightarrow> bool"
  os_open_dot :: "'w \<Rightarrow> int \<times> 'w"
  os_chdir :: "string \<Rightarrow> 'w \<Rightarrow> bool \<times> 'w"
  os_fchdir :: "int \<Rightarrow> 'w \<Rightarrow> bool \<times> 'w"
  os_close :: "int \<Rightarrow> 'w \<Rightarrow> bool \<times> 'w"
  os_pipe :: "'w \<Rightarrow> (int \<times> int) option \<times> 'w"
  os_fork :: "child_action list \<Rightarrow> 'w \<Rightarrow> int \<times> 'w"
  os_waitpid :: "int \<Rightarrow> 'w \<Rightarrow> (int \<times> child_status) \<times> 'w"
  os_fdopen :: "int \<Rightarrow> 'w \<Rightarrow> instream option \<times> 'w"
  os_fdopen_write :: "int \<Rightarrow> 'w \<Rightarrow> bool \<times> 'w"
  os_fopen_read :: "string \<Rightarrow> 'w \<Rightarrow> instream option \<times> 'w"
  os_fopen_write :: "string \<Rightarrow> 'w \<Rightarrow> bool \<times> 'w"
  os_fclose_write :: "string \<Rightarrow> string \<Rightarrow> 'w \<Rightarrow> bool \<times> 'w"
  os_fclose_read :: "string \<Rightarrow> 'w \<Rightarrow> bool \<times> 'w"
  os_system :: "string \<Rightarrow> 'w \<Rightarrow> int \<times> 'w"
  os_mkstemp :: "string \<Rightarrow> 'w \<Rightarrow> (string \<times> int) option \<times> 'w"
  os_fchmod :: "int \<Rightarrow> nat \<Rightarrow> 'w \<Rightarrow> bool \<times> 'w"
  os_unlink :: "string \<Rightarrow> 'w \<Rightarrow> bool \<times> 'w"
  os_run :: "string \<Rightarrow> string list \<Rightarrow> 'w \<Rightarrow> child_status option \<times> 'w"

subsection \<open>What the program says\<close>

text \<open>The messages of \<open>list.c\<close>, \<open>edit.c\<close>, \<open>display.c\<close>, \<open>variables.c\<close>, the command mode of \<open>interactive.c\<close>, the help of \<open>interactive.c\<close>, and \<open>qcmd.c\<close>, in this order.\<close>

datatype list_notice =
    Cannot_Get_Directory
  | Cannot_Change_Directory string
  | Cannot_Change_Back
  | Skipping_Directory string
  | Cannot_Execute string
  | Cannot_Read_Output string
  | Listed_Already string
  | Abnormal_Exit
  | Files_Listed nat

datatype edit_notice =
    No_Previous_Files
  | Cannot_Create string
  | Cannot_Close string
  | Cannot_Start_Editor string
  | Editor_Failed
  | Cannot_Open_Reading string

datatype plan_notice =
    Plan_Contains_Errors
  | Plan_Is_Empty
  | Plan_Is_Valid
  | Names string string
  | Source_Missing
  | Destinations_Same
  | Destination_Exists
  | Created_For_Circular
  | Regular_Rename
  | Regular_Copy
  | Empty_Line

datatype variable_notice =
    Invalid_Boolean string
  | Missing_Value
  | No_Such_Format string
  | Read_Only
  | Write_Only
  | Variable string string

datatype command_notice =
    Word_Bad_Character
  | Word_Bad_Variable
  | Word_Command_Substitution
  | Word_Syntax
  | Undefined_Command string
  | No_Plan
  | No_Files
  | Exit_Line
  | Unapplied_Changes
  | Blank_Line

datatype main_notice =
    Cannot_Start_Pager
  | Cannot_Terminate_Pager
  | General_Help
  | Ls_Help
  | Usage_Help
  | Help_Usage
  | Version_Text
  | Bug_Address
  | Header_Text
  | No_Files_Matched
  | Entering_Interactive
  | Cannot_Delete string

datatype notice =
    Ls_Says list_notice
  | Edit_Says edit_notice
  | Plan_Says plan_notice
  | Variable_Says variable_notice
  | Command_Says command_notice
  | Main_Says main_notice
  | Import_Notice import_notice
  | Edit_Notice edit_warning
  | Apply_Notice message
  | Option_Notice option_notice

subsection \<open>The global variables\<close>

datatype edit_format = Destination_Only_Format | Dual_Column_Format | Single_Column_Format

text \<open>
  The option variables of the three formats are static in their files, and so is the column width
  \<open>real_width\<close> that the writer of \<open>dual-column.c\<close> leaves for the reader.  The indicators are not
  copied: they point into the text of the options, and \<open>g_indicator\<close> says whose memory that is,
  memory that lasts (literals and the program's own arguments), the words of the command that is
  being run, or words that have been freed.
\<close>

datatype storage = Lasting | In_Words | Freed

record 'w session =
  g_options :: options
  g_heap :: spec_heap
  g_work_files :: "addr list"
  g_work_directory :: string
  g_editor_program :: string
  g_ls_program :: string
  g_edit_filename :: string
  g_format :: edit_format
  g_plan :: "File_Spec.apply_plan option"
  g_edit_file_list :: "addr list"
  g_accept_reedit :: bool
  g_ls_options :: "ls_word list"
  g_old_dir :: int
  g_running :: bool
  g_exit_warned :: bool
  g_destination_only :: do_options
  g_single_column :: sc_options
  g_dual_column :: dc_options
  g_real_width :: nat
  g_indicator :: "edit_format \<Rightarrow> storage"
  g_world :: 'w
  g_said :: "notice list"

definition notify :: "notice \<Rightarrow> 'w session \<Rightarrow> 'w session" where
  "notify n s = s\<lparr>g_said := g_said s @ [n]\<rparr>"

definition notify_all :: "notice list \<Rightarrow> 'w session \<Rightarrow> 'w session" where
  "notify_all ns s = s\<lparr>g_said := g_said s @ ns\<rparr>"

text \<open>A system call on the world inside the session.\<close>

definition on_world :: "('w \<Rightarrow> 'a \<times> 'w) \<Rightarrow> 'w session \<Rightarrow> 'a \<times> 'w session" where
  "on_world f s = (case f (g_world s) of (r, w) \<Rightarrow> (r, s\<lparr>g_world := w\<rparr>))"

text \<open>The rest of the program after a part that may have ended it.\<close>

definition after :: "'e + 'a \<Rightarrow> ('a \<Rightarrow> 'e + 'b) \<Rightarrow> 'e + 'b" where
  "after x f = (case x of Inl e \<Rightarrow> Inl e | Inr y \<Rightarrow> f y)"

lemma after_simps [simp]: "after (Inl e) f = Inl e" "after (Inr y) f = f y"
  by (simp_all add: after_def)

lemma after_Inr: "after x f = Inr z \<longleftrightarrow> (\<exists>y. x = Inr y \<and> f y = Inr z)"
  by (cases x) simp_all

lemma defined_Some [simp]: "defined (Some x) = Inr x" "defined None = Inl Undefined"
  by (simp_all add: defined_def)

lemma on_world_pair: "f (g_world s) = (r, w) \<Longrightarrow> on_world f s = (r, s\<lparr>g_world := w\<rparr>)"
  by (simp add: on_world_def)

lemma on_world_fst_snd: "on_world f s = (fst (f (g_world s)), s\<lparr>g_world := snd (f (g_world s))\<rparr>)"
  by (simp add: on_world_def case_prod_beta)

lemma notify_fields [simp]:
  "g_world (notify n s) = g_world s" "g_old_dir (notify n s) = g_old_dir s"
  "g_said (notify n s) = g_said s @ [n]" "g_heap (notify n s) = g_heap s"
  "g_work_files (notify n s) = g_work_files s" "g_plan (notify n s) = g_plan s"
  "g_work_directory (notify n s) = g_work_directory s" "g_ls_options (notify n s) = g_ls_options s"
  "g_options (notify n s) = g_options s"
  "g_world (notify_all ns s) = g_world s" "g_old_dir (notify_all ns s) = g_old_dir s"
  "g_said (notify_all ns s) = g_said s @ ns" "g_heap (notify_all ns s) = g_heap s"
  "g_work_files (notify_all ns s) = g_work_files s" "g_plan (notify_all ns s) = g_plan s"
  by (simp_all add: notify_def notify_all_def)

subsection \<open>Changes of directory\<close>

definition cwd_from_work_directory :: "'w os \<Rightarrow> 'w session \<Rightarrow> bool \<times> 'w session" where
  "cwd_from_work_directory os s =
     (if g_old_dir s \<noteq> -1 then
        (case on_world (os_fchdir os (g_old_dir s)) s of
           (False, s) \<Rightarrow>
             (case on_world (os_close os (g_old_dir s)) (notify (Ls_Says Cannot_Change_Back) s) of
                (_, s) \<Rightarrow> (False, s))
         | (True, s) \<Rightarrow>
             (case on_world (os_close os (g_old_dir s)) s of (_, s) \<Rightarrow> (True, s\<lparr>g_old_dir := -1\<rparr>)))
      else (True, s))"

definition cwd_to_work_directory :: "'w os \<Rightarrow> 'w session \<Rightarrow> bool \<times> 'w session" where
  "cwd_to_work_directory os s =
     (if strcmp (g_work_directory s) ''.'' = 0 then (True, s\<lparr>g_old_dir := -1\<rparr>)
      else case on_world (os_open_dot os) s of
        (fd, s) \<Rightarrow>
          let s = s\<lparr>g_old_dir := fd\<rparr> in
          if fd < 0 then (False, notify (Ls_Says Cannot_Get_Directory) s)
          else (case on_world (os_chdir os (g_work_directory s)) s of
            (False, s) \<Rightarrow>
              (case on_world (os_close os (g_old_dir s))
                  (notify (Ls_Says (Cannot_Change_Directory (g_work_directory s))) s) of
                 (_, s) \<Rightarrow> (False, s))
          | (True, s) \<Rightarrow> (True, s)))"

text \<open>The system services of \<open>apply_plan\<close>, on the session.\<close>

definition session_system :: "'w os \<Rightarrow> 'w session system" where
  "session_system os =
     \<lparr>exec_command = (\<lambda>command args. on_world (os_run os command args)),
      to_work_directory = cwd_to_work_directory os,
      from_work_directory = cwd_from_work_directory os\<rparr>"

end
