(* ===== verification/Edit.thy ===== *)
theory Edit
  imports Session
begin

text \<open>
  Editing the names, \<open>src/src/edit.c\<close>: the table of edit formats, and \<open>edit_files\<close>, which writes the
  list of names, runs the editor and reads the list again.
\<close>

subsection \<open>Edit formats\<close>

text \<open>The members of \<open>struct _EditFormat\<close>, for each of the three formats.\<close>

fun format_name :: "edit_format \<Rightarrow> string" where
  "format_name Destination_Only_Format = ''destination-only''"
| "format_name Dual_Column_Format = ''dual-column''"
| "format_name Single_Column_Format = ''single-column''"

fun format_short_name :: "edit_format \<Rightarrow> string" where
  "format_short_name Destination_Only_Format = ''do''"
| "format_short_name Dual_Column_Format = ''dc''"
| "format_short_name Single_Column_Format = ''sc''"

text \<open>
  \<open>place\<close> is the storage of the option text.  An indicator points into it if the option that sets it
  was read before the parsing ended, and was not reset because of an error.
\<close>

function suboptions :: "string \<Rightarrow> string list" where
  "suboptions s =
     (if s = [] then []
      else before CHR '','' s # suboptions (case behind CHR '','' s of None \<Rightarrow> [] | Some r \<Rightarrow> r))"
  by pat_completeness auto
termination
  by (relation "measure length") (auto dest: behind_length split: option.splits)

declare suboptions.simps [simp del]

definition points_into :: "string \<Rightarrow> bool \<Rightarrow> option_notice list \<Rightarrow> bool" where
  "points_into opts ok ns \<longleftrightarrow> (ok \<or> ns = [Help_Printed]) \<and>
     list_ex (\<lambda>sub. before CHR ''='' sub \<in> {''indicator1'', ''indicator2''})
       (takeWhile (\<lambda>sub. before CHR ''='' sub \<noteq> ''help'') (suboptions opts))"

definition parsed_options ::
  "edit_format \<Rightarrow> string \<Rightarrow> storage \<Rightarrow> bool \<Rightarrow> option_notice list \<Rightarrow> 'w session \<Rightarrow> bool \<times> 'w session" where
  "parsed_options fmt opts place ok ns s =
     (ok, notify_all (map Option_Notice ns)
        (s\<lparr>g_indicator := (g_indicator s)(fmt := if points_into opts ok ns then place else Lasting)\<rparr>))"

fun format_parse_options :: "edit_format \<Rightarrow> string \<Rightarrow> storage \<Rightarrow> 'w session \<Rightarrow> bool \<times> 'w session" where
  "format_parse_options Destination_Only_Format opts place s =
     (case do_parse_options opts of
        (ok, o', ns) \<Rightarrow> parsed_options Destination_Only_Format opts place ok ns (s\<lparr>g_destination_only := o'\<rparr>))"
| "format_parse_options Dual_Column_Format opts place s =
     (case dc_parse_options opts of
        (ok, o', ns) \<Rightarrow> parsed_options Dual_Column_Format opts place ok ns (s\<lparr>g_dual_column := o'\<rparr>))"
| "format_parse_options Single_Column_Format opts place s =
     (case sc_parse_options opts of
        (ok, o', ns) \<Rightarrow> parsed_options Single_Column_Format opts place ok ns (s\<lparr>g_single_column := o'\<rparr>))"

fun format_option_generator :: "edit_format \<Rightarrow> string \<Rightarrow> int \<Rightarrow> nat \<Rightarrow> string option \<times> nat" where
  "format_option_generator Destination_Only_Format = do_option_generator"
| "format_option_generator Dual_Column_Format = dc_option_generator"
| "format_option_generator Single_Column_Format = sc_option_generator"

text \<open>What the format writes for the list of files; an indicator in freed memory is no text.\<close>

fun format_write ::
  "edit_format \<Rightarrow> (char \<Rightarrow> bool) \<Rightarrow> addr list \<Rightarrow> 'w session \<Rightarrow> (string \<times> 'w session) option" where
  "format_write Destination_Only_Format isprint files s =
     do { t \<leftarrow> do_output isprint (g_destination_only s) (g_heap s) files; Some (t, s) }"
| "format_write Dual_Column_Format isprint files s =
     do { (t, width) \<leftarrow> dc_output isprint (g_dual_column s) (g_heap s) files;
          Some (t, s\<lparr>g_real_width := width\<rparr>) }"
| "format_write Single_Column_Format isprint files s =
     do { t \<leftarrow> sc_output isprint (g_single_column s) (g_heap s) files; Some (t, s) }"

definition format_output ::
  "edit_format \<Rightarrow> (char \<Rightarrow> bool) \<Rightarrow> addr list \<Rightarrow> 'w session \<Rightarrow> (string \<times> 'w session) option" where
  "format_output fmt isprint files s =
     (if g_indicator s fmt = Freed then None else format_write fmt isprint files s)"

fun format_read ::
  "edit_format \<Rightarrow> instream \<Rightarrow> addr list \<Rightarrow> 'w session \<Rightarrow> (bool \<times> reader) option" where
  "format_read Destination_Only_Format ins files s = do_input (g_destination_only s) (g_heap s) ins files"
| "format_read Dual_Column_Format ins files s =
     dc_input (g_dual_column s) (g_real_width s) (g_heap s) ins files"
| "format_read Single_Column_Format ins files s = sc_input (g_single_column s) (g_heap s) ins files"

definition format_input :: "edit_format \<Rightarrow> instream \<Rightarrow> addr list \<Rightarrow> 'w session \<Rightarrow> (bool \<times> 'w session) option" where
  "format_input fmt ins files s =
     do { (ok, r) \<leftarrow> (if g_indicator s fmt = Freed then None else format_read fmt ins files s);
          Some (ok, notify_all (map Edit_Notice (rd_warnings r)) (s\<lparr>g_heap := rd_heap r\<rparr>)) }"

definition formats :: "edit_format list" where
  "formats = [Destination_Only_Format, Dual_Column_Format, Single_Column_Format]"

fun find_format :: "edit_format list \<Rightarrow> string \<Rightarrow> edit_format option" where
  "find_format [] name = None"
| "find_format (f # fs) name =
     (if strcmp name (format_name f) = 0 \<or> strcmp name (format_short_name f) = 0 then Some f
      else find_format fs name)"

definition find_edit_format_by_name :: "string \<Rightarrow> edit_format option" where
  "find_edit_format_by_name name = find_format formats name"

definition edit_format_generator :: "string \<Rightarrow> int \<Rightarrow> nat \<Rightarrow> string option \<times> nat" where
  "edit_format_generator str state c = name_generator (map format_name formats) str state c"

subsection \<open>Editing\<close>

text \<open>The files the user is to edit.\<close>

definition files_to_edit :: "bool \<Rightarrow> 'w session \<Rightarrow> addr list" where
  "files_to_edit all s =
     (if \<not> all then (case g_plan s of None \<Rightarrow> [] | Some p \<Rightarrow> plan_error p) else g_work_files s)"

text \<open>Writing the edit file, from \<open>fopen\<close> to \<open>accept_reedit = true\<close>.\<close>

definition write_edit_file :: "'w os \<Rightarrow> 'w session \<Rightarrow> (bool \<times> 'w session) option" where
  "write_edit_file os s =
     (case on_world (os_fopen_write os (g_edit_filename s)) s of
        (False, s) \<Rightarrow> Some (False, (notify (Edit_Says (Cannot_Create (g_edit_filename s))) s)\<lparr>g_edit_file_list := []\<rparr>)
      | (True, s) \<Rightarrow>
          do { (t, s) \<leftarrow> format_output (g_format s) (os_isprint os) (g_edit_file_list s) s;
               case on_world (os_fclose_write os (g_edit_filename s) t) s of
                 (False, s) \<Rightarrow> Some (False, (notify (Edit_Says (Cannot_Close (g_edit_filename s))) s)\<lparr>g_edit_file_list := []\<rparr>)
               | (True, s) \<Rightarrow> Some (True, s\<lparr>g_accept_reedit := True\<rparr>) })"

definition prepare_edit :: "'w os \<Rightarrow> bool \<Rightarrow> 'w session \<Rightarrow> (bool \<times> 'w session) option" where
  "prepare_edit os all s0 =
     (let s = s0\<lparr>g_accept_reedit := False, g_edit_file_list := files_to_edit all s0\<rparr> in
      if g_edit_file_list s = [] then Some (False, notify (Edit_Says No_Previous_Files) s)
      else write_edit_file os s)"

fun reset_status :: "addr list \<Rightarrow> spec_heap \<Rightarrow> spec_heap option" where
  "reset_status [] h = Some h"
| "reset_status (a # as) h = do { h \<leftarrow> set_status a STATUS_UNCHECKED h; reset_status as h }"

text \<open>
  From the start of the editor on, and the reading of the file.  The warning about the exit status prints the quoted name of the
  editor with \<open>%d\<close>, so no number is kept for it.
\<close>

definition read_edit_file :: "'w os \<Rightarrow> 'w session \<Rightarrow> (bool \<times> 'w session) option" where
  "read_edit_file os s =
     (case on_world (os_fopen_read os (g_edit_filename s)) s of
        (None, s) \<Rightarrow> Some (False, notify (Edit_Says (Cannot_Open_Reading (g_edit_filename s))) s)
      | (Some ins, s) \<Rightarrow>
          do { (ok, s) \<leftarrow> format_input (g_format s) ins (g_edit_file_list s) s;
               if \<not> ok then Some (False, s)
               else case on_world (os_fclose_read os (g_edit_filename s)) s of
                 (closed, s) \<Rightarrow>
                   let s = (if \<not> closed then notify (Edit_Says (Cannot_Close (g_edit_filename s))) s else s);
                       s = s\<lparr>g_accept_reedit := False\<rparr> in
                   do { h \<leftarrow> reset_status (g_edit_file_list s) (g_heap s);
                        Some (True, s\<lparr>g_heap := h, g_edit_file_list := []\<rparr>) } })"

definition run_editor :: "'w os \<Rightarrow> 'w session \<Rightarrow> (bool \<times> 'w session) option" where
  "run_editor os s =
     (case on_world (os_system os (g_editor_program s @ '' '' @ g_edit_filename s)) s of
        (rc, s) \<Rightarrow>
          if rc = -1 then Some (False, notify (Edit_Says (Cannot_Start_Editor (g_editor_program s))) s)
          else if rc \<noteq> 0 then Some (False, notify (Edit_Says Editor_Failed) s)
          else read_edit_file os s)"

definition edit_files :: "'w os \<Rightarrow> bool \<Rightarrow> bool \<Rightarrow> 'w session \<Rightarrow> (bool \<times> 'w session) option" where
  "edit_files os all force s =
     do { (ok, s) \<leftarrow> (if \<not> g_accept_reedit s \<or> force then prepare_edit os all s else Some (True, s));
          if ok then run_editor os s else Some (False, s) }"

end
