(* ===== verification/Variables.thy ===== *)
theory Variables
  imports Edit
begin

text \<open>The variables the user can set and show, \<open>src/src/variables.c\<close>.\<close>

text \<open>\<open>strcasecmp\<close> in the locale's \<open>tolower\<close>, as a test for equality.\<close>

definition same_nocase :: "(char \<Rightarrow> char) \<Rightarrow> string \<Rightarrow> string \<Rightarrow> bool" where
  "same_nocase tolower s t \<longleftrightarrow> map tolower s = map tolower t"

definition parse_boolean :: "(char \<Rightarrow> char) \<Rightarrow> string \<Rightarrow> bool option" where
  "parse_boolean tolower v =
     (if strcmp v ''0'' = 0 \<or> same_nocase tolower v ''false'' \<or> same_nocase tolower v ''no'' \<or>
         same_nocase tolower v ''off'' then Some False
      else if strcmp v ''1'' = 0 \<or> same_nocase tolower v ''true'' \<or> same_nocase tolower v ''yes'' \<or>
         same_nocase tolower v ''on'' then Some True
      else None)"

definition show_variable :: "string \<Rightarrow> 'w session \<Rightarrow> 'w session" where
  "show_variable name s =
     (if strcmp name ''simulate'' = 0
      then notify (Variable_Says (Variable name (if simulate (g_options s) then ''true'' else ''false''))) s
      else if strcmp name ''editor'' = 0 then notify (Variable_Says (Variable name (g_editor_program s))) s
      else if strcmp name ''tempfile'' = 0 then notify (Variable_Says (Variable name (g_edit_filename s))) s
      else if strcmp name ''options'' = 0 then notify (Variable_Says Write_Only) s
      else if strcmp name ''ls'' = 0 then notify (Variable_Says (Variable name (g_ls_program s))) s
      else s)"

text \<open>\<open>args\<close> is the argument vector up to its NULL.\<close>

definition show_command :: "string list \<Rightarrow> 'w session \<Rightarrow> 'w session" where
  "show_command args s =
     (if length args \<le> 1
      then show_variable ''tempfile'' (show_variable ''editor'' (show_variable ''simulate'' s))
      else show_variable (args ! 1) s)"

definition set_command :: "(char \<Rightarrow> char) \<Rightarrow> string list \<Rightarrow> 'w session \<Rightarrow> 'w session" where
  "set_command tolower args s =
     (if length args \<le> 1 then show_command args s
      else if length args \<le> 2 then notify (Variable_Says Missing_Value) s
      else let name = args ! 1; v = args ! 2 in
        if strcmp name ''simulate'' = 0 then
          (case parse_boolean tolower v of
             None \<Rightarrow> notify (Variable_Says (Invalid_Boolean v)) s
           | Some b \<Rightarrow> s\<lparr>g_options := g_options s\<lparr>simulate := b\<rparr>\<rparr>)
        else if strcmp name ''editor'' = 0 then s\<lparr>g_editor_program := v\<rparr>
        else if strcmp name ''format'' = 0 then
          (case find_edit_format_by_name v of
             None \<Rightarrow> notify (Variable_Says (No_Such_Format v)) s
           | Some f \<Rightarrow> s\<lparr>g_format := f\<rparr>)
        else if strcmp name ''tempfile'' = 0 then notify (Variable_Says Read_Only) s
        else if strcmp name ''options'' = 0 then snd (format_parse_options (g_format s) v In_Words s)
        else if strcmp name ''ls'' = 0 then s\<lparr>g_ls_program := v\<rparr>
        else s)"

definition variables :: "string list" where
  "variables = [''simulate'', ''editor'', ''format'', ''tempfile'', ''options'']"

definition variable_generator :: "string \<Rightarrow> int \<Rightarrow> nat \<Rightarrow> string option \<times> nat" where
  "variable_generator str state c = name_generator variables str state c"

end
