(* ===== verification/Display.thy ===== *)
theory Display
  imports Session
begin

text \<open>
  Showing a plan, \<open>src/src/display.c\<close>: what \<open>display_plan\<close> prints, as a list of messages.  Renames of
  the same status in a row share one line about it.
\<close>

definition display_names :: "file_spec \<Rightarrow> plan_notice" where
  "display_names spec = Names (old_name spec) (new_name spec)"

fun print_error_status :: "file_spec_status \<Rightarrow> stop + plan_notice" where
  "print_error_status STATUS_OLD_MISSING = Inr Source_Missing"
| "print_error_status STATUS_DUPLICATE = Inr Destinations_Same"
| "print_error_status STATUS_NEW_EXISTS = Inr Destination_Exists"
| "print_error_status st = Inl Internal_Error"

definition print_ok_status :: "string \<Rightarrow> file_spec_status \<Rightarrow> stop + plan_notice" where
  "print_ok_status prog st =
     (case st of
        STATUS_CIRCULAR \<Rightarrow> Inr Created_For_Circular
      | STATUS_APPLY \<Rightarrow> Inr (if strcmp prog ''qmv'' = 0 then Regular_Rename else Regular_Copy)
      | _ \<Rightarrow> Inl Internal_Error)"

text \<open>
  Both loops have the same body.  \<open>last_status\<close> is the status of \<open>last_spec\<close>.  Where the
  status changes the line that is printed is about the rename to come, not about those above it;
  the line at the end is about the last rename.
\<close>

fun display_list ::
  "(file_spec_status \<Rightarrow> stop + plan_notice) \<Rightarrow> spec_heap \<Rightarrow> file_spec option \<Rightarrow> addr list \<Rightarrow> stop + plan_notice list" where
  "display_list print_status h None [] = Inr []"
| "display_list print_status h (Some prev) [] =
     after (print_status (status prev)) (\<lambda>n. Inr [n])"
| "display_list print_status h last_spec (a # as) =
     after (defined (spec_at h a)) (\<lambda>spec.
       after (case last_spec of
                None \<Rightarrow> Inr []
              | Some l \<Rightarrow> if status l \<noteq> status spec
                           then after (print_status (status spec)) (\<lambda>n. Inr [n]) else Inr [])
         (\<lambda>line. after (display_list print_status h (Some spec) as)
            (\<lambda>rest. Inr (line @ [display_names spec] @ rest))))"

definition display_plan :: "string \<Rightarrow> spec_heap \<Rightarrow> File_Spec.apply_plan \<Rightarrow> stop + plan_notice list" where
  "display_plan prog h plan =
     after (display_list print_error_status h None (plan_error plan)) (\<lambda>errors.
       after (display_list (print_ok_status prog) h None (plan_ok plan)) (\<lambda>oks.
         Inr ([if plan_error plan \<noteq> [] then Plan_Contains_Errors
               else if plan_ok plan = [] then Plan_Is_Empty else Plan_Is_Valid]
              @ errors
              @ (if plan_error plan \<noteq> [] \<and> plan_ok plan \<noteq> [] then [Empty_Line] else [])
              @ oks @ [Empty_Line])))"

end
