(* ===== verification/List_Files.thy ===== *)
theory List_Files
  imports Session
begin

text \<open>
  Listing files, \<open>list_files\<close> and \<open>list_command\<close> of \<open>src/src/list.c\<close>: the argument vector for \<open>ls\<close>,
  the child process, the change to the directory that is listed and back, and the new list of work
  files.
\<close>

subsection \<open>The child process\<close>

text \<open>The result, \<open>*ls_pid\<close> and \<open>*ls_fd\<close>.\<close>

definition run_ls :: "'w os \<Rightarrow> string list \<Rightarrow> 'w session \<Rightarrow> (bool \<times> int \<times> int) \<times> 'w session" where
  "run_ls os args s =
     (case on_world (os_pipe os) s of
        (None, s) \<Rightarrow> ((False, -1, -1), s)
      | (Some (p0, p1), s) \<Rightarrow>
          (case on_world (os_fork os [Close_Fd p0, Dup_To p1 1, Exec (g_ls_program s) args]) s of
             (child_pid, s) \<Rightarrow>
               if child_pid = -1
               then (case on_world (os_close os p1) s of (_, s) \<Rightarrow> ((False, -1, p0), s))
               else (case on_world (os_close os p1) s of (closed, s) \<Rightarrow> ((closed, child_pid, p0), s))))"

text \<open>The status is \<^const>\<open>None\<close> where \<open>*status\<close> is not written.\<close>

definition clean_ls :: "'w os \<Rightarrow> int \<Rightarrow> int \<Rightarrow> 'w session \<Rightarrow> (bool \<times> child_status option) \<times> 'w session" where
  "clean_ls os ls_pid ls_fd s =
     (case (if ls_fd \<noteq> -1 then on_world (os_close os ls_fd) s else (True, s)) of
        (False, s) \<Rightarrow> ((False, None), s)
      | (True, s) \<Rightarrow>
          if ls_pid \<noteq> -1
          then (case on_world (os_waitpid os ls_pid) s of
                  ((pid, st), s) \<Rightarrow> ((pid = ls_pid, Some st), s))
          else ((True, None), s))"

subsection \<open>The argument vector\<close>

text \<open>
  \<open>firstdir\<close> is a pointer: to the first argument, to the literal \<open>"."\<close>, or NULL.
\<close>

datatype first_dir = First_Argument | Dot | No_Directory

definition directory_option :: "'w session \<Rightarrow> bool" where
  "directory_option s \<longleftrightarrow> Literal ''--directory'' \<in> set (g_ls_options s)"

text \<open>The loop over the arguments; \<open>c\<close> counts them.  The boolean is \<^const>\<open>False\<close> if listing failed.\<close>

fun collect_arguments ::
  "'w os \<Rightarrow> first_dir \<Rightarrow> nat \<Rightarrow> string list \<Rightarrow> string list \<Rightarrow> 'w session
     \<Rightarrow> bool \<times> first_dir \<times> string list \<times> 'w session" where
  "collect_arguments os firstdir c [] ls_args s = (True, firstdir, ls_args, s)"
| "collect_arguments os firstdir c (arg # args) ls_args s =
     (let is_first = (firstdir = First_Argument \<and> c = 0) in
      if is_first \<and> args = [] then
        if os_is_directory os (g_world s) arg then
          (case cwd_to_work_directory os (s\<lparr>g_work_directory := arg\<rparr>) of
             (False, s') \<Rightarrow> (False, firstdir, ls_args, s'\<lparr>g_work_directory := g_work_directory s\<rparr>)
           | (True, s') \<Rightarrow> collect_arguments os Dot (c + 1) args (ls_args @ [''.'']) s')
        else collect_arguments os firstdir (c + 1) args (ls_args @ [arg]) s
      else if os_is_directory os (g_world s) arg \<and> \<not> directory_option s then
        collect_arguments os (if is_first then Dot else firstdir) (c + 1) args ls_args
          (notify (Ls_Says (Skipping_Directory arg)) s)
      else collect_arguments os firstdir (c + 1) args (ls_args @ [arg]) s)"

definition first_directory :: "string list \<Rightarrow> 'w session \<Rightarrow> first_dir" where
  "first_directory args s =
     (if directory_option s then Dot else if args = [] then No_Directory else First_Argument)"

definition ls_command_line :: "'w session \<Rightarrow> string list" where
  "ls_command_line s =
     [g_ls_program s, ''--quoting-style=c''] @ map word_text (g_ls_options s) @ [''--'']"

fun first_dir_text :: "string list \<Rightarrow> first_dir \<Rightarrow> string option" where
  "first_dir_text args First_Argument = Some (hd args)"
| "first_dir_text args Dot = Some ''.''"
| "first_dir_text args No_Directory = None"

subsection \<open>The listing\<close>

text \<open>The end of \<open>list_files\<close>, after the output was read with the result \<open>ok\<close>.\<close>

definition end_listing :: "'w os \<Rightarrow> int \<Rightarrow> int \<Rightarrow> bool \<Rightarrow> 'w session \<Rightarrow> stop + (bool \<times> 'w session)" where
  "end_listing os ls_pid ls_fd ok s =
     (if \<not> ok then
        (case clean_ls os ls_pid ls_fd (notify (Ls_Says (Cannot_Read_Output (g_ls_program s))) s) of
           (_, s) \<Rightarrow> Inr (False, s))
      else
        (case clean_ls os ls_pid ls_fd s of
           ((False, _), s) \<Rightarrow> Inr (False, s)
         | ((True, None), s) \<Rightarrow> Inl Undefined
         | ((True, Some st), s) \<Rightarrow>
             (case st of Exited code \<Rightarrow> Inr (True, s) | _ \<Rightarrow> Inr (False, notify (Ls_Says Abnormal_Exit) s))))"

text \<open>From \<open>llist_clear(edit_file_list)\<close> on: the old state is dropped and the output is read.\<close>

definition read_listing ::
  "'w os \<Rightarrow> string option \<Rightarrow> int \<Rightarrow> int \<Rightarrow> 'w session \<Rightarrow> stop + (bool \<times> 'w session)" where
  "read_listing os firstdir ls_pid ls_fd s =
     after (defined (free_files (g_work_files s) (g_heap s))) (\<lambda>h.
       let s = s\<lparr>g_edit_file_list := [], g_plan := None, g_heap := h, g_work_files := []\<rparr> in
       case on_world (os_fdopen os ls_fd) s of
         (lsout, s) \<Rightarrow>
           after (process_ls_output (os_is_directory os (g_world s)) firstdir lsout h []) (\<lambda>(ok, h, files, already).
             end_listing os ls_pid ls_fd ok
               (notify_all (map (Ls_Says \<circ> Listed_Already) already) (s\<lparr>g_heap := h, g_work_files := files\<rparr>))))"

definition list_files :: "'w os \<Rightarrow> string list \<Rightarrow> 'w session \<Rightarrow> stop + (bool \<times> 'w session)" where
  "list_files os args s0 =
     (let s = s0\<lparr>g_work_directory := ''.''\<rparr> in
      case collect_arguments os (first_directory args s) 0 args (ls_command_line s) s of
        (False, _, _, s) \<Rightarrow> Inr (False, s)
      | (True, firstdir, ls_args, s) \<Rightarrow>
          (case run_ls os ls_args s of
             ((False, ls_pid, ls_fd), s) \<Rightarrow>
               let s = notify (Ls_Says (Cannot_Execute (g_ls_program s))) s;
                   s = (if g_old_dir s \<noteq> -1
                        then snd (on_world (os_close os (-1)) (s\<lparr>g_old_dir := -1\<rparr>)) else s)
               in (case clean_ls os ls_pid ls_fd s of (_, s) \<Rightarrow> Inr (False, s))
           | ((True, ls_pid, ls_fd), s) \<Rightarrow>
               (case cwd_from_work_directory os s of
                  (False, s) \<Rightarrow> (case clean_ls os ls_pid ls_fd s of (_, s) \<Rightarrow> Inr (False, s))
                | (True, s) \<Rightarrow> read_listing os (first_dir_text args firstdir) ls_pid ls_fd s)))"

subsection \<open>The command\<close>

text \<open>
  \<open>getopt_long\<close> permutes the arguments: its results are given as the options in order, with their
  arguments, a flag for a \<open>'?'\<close> after them, and the operands.
\<close>

record parsed_args =
  pa_options :: "(nat \<times> string) list"
  pa_error :: bool
  pa_operands :: "string list"

definition add_ls_options :: "(nat \<times> string) list \<Rightarrow> 'w session \<Rightarrow> 'w session" where
  "add_ls_options opts s =
     s\<lparr>g_ls_options := fold (\<lambda>(c, optarg). process_ls_option c optarg) opts (g_ls_options s)\<rparr>"

definition list_command ::
  "(string list \<Rightarrow> parsed_args) \<Rightarrow> 'w os \<Rightarrow> string list \<Rightarrow> 'w session \<Rightarrow> stop + 'w session" where
  "list_command getopt os args s =
     (let parsed = getopt args;
          s = add_ls_options (pa_options parsed) (s\<lparr>g_ls_options := []\<rparr>)
      in if pa_error parsed then Inr s
         else after (list_files os (pa_operands parsed) s) (\<lambda>(ok, s).
                Inr (if ok then notify (Ls_Says (Files_Listed (length (g_work_files s)))) s else s)))"

subsection \<open>The way back\<close>

text \<open>
  What the calls on directories and descriptors do: \<open>cwd\<close> is the working directory of a world and
  \<open>fd_dir\<close> the directory a descriptor is open on.  A call that fails leaves the working directory.
\<close>

definition directories_behave :: "'w os \<Rightarrow> ('w \<Rightarrow> 'd) \<Rightarrow> ('w \<Rightarrow> int \<Rightarrow> 'd option) \<Rightarrow> bool" where
  "directories_behave os cwd fd_dir \<longleftrightarrow>
     (\<forall>w. cwd (snd (os_open_dot os w)) = cwd w) \<and>
     (\<forall>w. 0 \<le> fst (os_open_dot os w) \<longrightarrow> fd_dir (snd (os_open_dot os w)) (fst (os_open_dot os w)) = Some (cwd w)) \<and>
     (\<forall>d w. fd_dir (snd (os_chdir os d w)) = fd_dir w) \<and>
     (\<forall>d w. \<not> fst (os_chdir os d w) \<longrightarrow> cwd (snd (os_chdir os d w)) = cwd w) \<and>
     (\<forall>fd w d. fst (os_fchdir os fd w) \<longrightarrow> fd_dir w fd = Some d \<longrightarrow> cwd (snd (os_fchdir os fd w)) = d) \<and>
     (\<forall>fd w. cwd (snd (os_close os fd w)) = cwd w) \<and>
     (\<forall>fd w fd'. fd' \<noteq> fd \<longrightarrow> fd_dir (snd (os_close os fd w)) fd' = fd_dir w fd') \<and>
     (\<forall>w. cwd (snd (os_pipe os w)) = cwd w) \<and> (\<forall>w. fd_dir (snd (os_pipe os w)) = fd_dir w) \<and>
     (\<forall>w p0 p1. fst (os_pipe os w) = Some (p0, p1) \<longrightarrow> fd_dir w p0 = None \<and> fd_dir w p1 = None) \<and>
     (\<forall>acts w. cwd (snd (os_fork os acts w)) = cwd w) \<and> (\<forall>acts w. fd_dir (snd (os_fork os acts w)) = fd_dir w) \<and>
     (\<forall>pid w. cwd (snd (os_waitpid os pid w)) = cwd w) \<and>
     (\<forall>fd w. cwd (snd (os_fdopen os fd w)) = cwd w)"

lemma directoriesD:
  assumes "directories_behave os cwd fd_dir"
  shows "cwd (snd (os_open_dot os w)) = cwd w"
    and "0 \<le> fst (os_open_dot os w) \<Longrightarrow> fd_dir (snd (os_open_dot os w)) (fst (os_open_dot os w)) = Some (cwd w)"
    and "fd_dir (snd (os_chdir os d w)) = fd_dir w"
    and "\<not> fst (os_chdir os d w) \<Longrightarrow> cwd (snd (os_chdir os d w)) = cwd w"
    and "fst (os_fchdir os fd w) \<Longrightarrow> fd_dir w fd = Some e \<Longrightarrow> cwd (snd (os_fchdir os fd w)) = e"
    and "cwd (snd (os_close os fd w)) = cwd w"
    and "fd' \<noteq> fd \<Longrightarrow> fd_dir (snd (os_close os fd w)) fd' = fd_dir w fd'"
    and "cwd (snd (os_pipe os w)) = cwd w" "fd_dir (snd (os_pipe os w)) = fd_dir w"
    and "fst (os_pipe os w) = Some (p0, p1) \<Longrightarrow> fd_dir w p0 = None"
    and "fst (os_pipe os w) = Some (p0, p1) \<Longrightarrow> fd_dir w p1 = None"
    and "cwd (snd (os_fork os acts w)) = cwd w" "fd_dir (snd (os_fork os acts w)) = fd_dir w"
    and "cwd (snd (os_waitpid os pid w)) = cwd w" "cwd (snd (os_fdopen os fd w)) = cwd w"
  using assms by (simp_all add: directories_behave_def)

text \<open>At home, or away with a descriptor that leads back.\<close>

definition way_back :: "('w \<Rightarrow> 'd) \<Rightarrow> ('w \<Rightarrow> int \<Rightarrow> 'd option) \<Rightarrow> 'd \<Rightarrow> 'w session \<Rightarrow> bool" where
  "way_back cwd fd_dir home s \<longleftrightarrow>
     (if g_old_dir s = -1 then cwd (g_world s) = home
      else fd_dir (g_world s) (g_old_dir s) = Some home)"

lemma cwd_to_way_back:
  assumes D: "directories_behave os cwd fd_dir" and home: "cwd (g_world s) = home"
  shows "cwd_to_work_directory os s = (True, s') \<Longrightarrow> way_back cwd fd_dir home s'"
    and "cwd_to_work_directory os s = (False, s') \<Longrightarrow> cwd (g_world s') = home"
proof -
  assume "cwd_to_work_directory os s = (True, s')"
  then show "way_back cwd fd_dir home s'"
    using home directoriesD(2,3) [OF D]
    by (auto simp: cwd_to_work_directory_def on_world_fst_snd way_back_def Let_def case_prod_beta
        split: if_splits bool.splits prod.splits)
next
  assume "cwd_to_work_directory os s = (False, s')"
  then show "cwd (g_world s') = home"
    using home directoriesD(1,4,6) [OF D]
    by (auto simp: cwd_to_work_directory_def on_world_fst_snd Let_def split: if_splits bool.splits)
qed

lemma cwd_from_home:
  assumes D: "directories_behave os cwd fd_dir" and way: "way_back cwd fd_dir home s"
    and left: "cwd_from_work_directory os s = (True, s')"
  shows "cwd (g_world s') = home" "g_old_dir s' = -1"
  using left way directoriesD(5,6) [OF D]
  by (auto simp: cwd_from_work_directory_def on_world_fst_snd way_back_def split: if_splits bool.splits)

lemma run_ls_way_back:
  assumes D: "directories_behave os cwd fd_dir" and way: "way_back cwd fd_dir home s"
    and run: "run_ls os args s = ((True, pid, fd), s')"
  shows "way_back cwd fd_dir home s'"
proof -
  obtain p0 p1 where p: "fst (os_pipe os (g_world s)) = Some (p0, p1)"
    using run by (auto simp: run_ls_def on_world_fst_snd split: option.splits)
  have "fd_dir (g_world s) (g_old_dir s) = Some home \<Longrightarrow> g_old_dir s \<noteq> p1"
    using directoriesD(11) [OF D p] by auto
  then show ?thesis
    using run way p directoriesD(6-9,12,13) [OF D]
    by (auto simp: run_ls_def on_world_fst_snd way_back_def split: if_splits)
qed

lemma clean_ls_cwd:
  assumes D: "directories_behave os cwd fd_dir"
  shows "cwd (g_world (snd (clean_ls os pid fd s))) = cwd (g_world s)"
    and "g_old_dir (snd (clean_ls os pid fd s)) = g_old_dir s"
  using directoriesD(6,14) [OF D]
  by (auto simp: clean_ls_def on_world_fst_snd split: bool.splits prod.splits)

lemma collect_way_back:
  assumes D: "directories_behave os cwd fd_dir"
  shows "collect_arguments os fd c args la s = (ok, fd', la', s') \<Longrightarrow> g_old_dir s = -1 \<Longrightarrow>
    cwd (g_world s) = home \<Longrightarrow> (if ok then way_back cwd fd_dir home s' else cwd (g_world s') = home)"
proof (induction args arbitrary: fd c la s)
  case (Cons arg args)
  show ?case
  proof (cases "fd = First_Argument \<and> c = 0 \<and> args = [] \<and> os_is_directory os (g_world s) arg")
    case True
    let ?s = "s\<lparr>g_work_directory := arg\<rparr>"
    have home: "cwd (g_world ?s) = home" using Cons.prems(3) by simp
    note steps = cwd_to_way_back [OF D home]
    obtain went s1 where went: "cwd_to_work_directory os ?s = (went, s1)" by (cases "cwd_to_work_directory os ?s")
    show ?thesis
      using Cons.prems(1) True went steps [of s1] by (cases went) auto
  next
    case False
    define step where "step = (if os_is_directory os (g_world s) arg \<and> \<not> directory_option s
      \<and> \<not> (fd = First_Argument \<and> c = 0 \<and> args = []) then notify (Ls_Says (Skipping_Directory arg)) s else s)"
    have "\<exists>fd1 la1. collect_arguments os fd1 (c + 1) args la1 step = (ok, fd', la', s')"
      using Cons.prems(1) False by (auto simp: Let_def step_def split: if_splits)
    then obtain fd1 la1 where "collect_arguments os fd1 (c + 1) args la1 step = (ok, fd', la', s')" by blast
    moreover have "g_old_dir step = -1" "cwd (g_world step) = home" using Cons.prems by (simp_all add: step_def)
    ultimately show ?thesis by (rule Cons.IH)
  qed
qed (simp add: way_back_def)

lemma end_listing_steps:
  assumes "end_listing os pid ls_fd ok0 s1 = Inr (ok, s')"
  shows "\<exists>s2 s3. s2 = snd (clean_ls os pid ls_fd s3) \<and> (s3 = s1 \<or> (\<exists>n. s3 = notify n s1)) \<and>
       (s' = s2 \<or> (\<exists>n. s' = notify n s2)) \<and> (ok \<longrightarrow> ok0 \<and> s3 = s1 \<and> s' = s2)"
proof (cases ok0)
  case True
  obtain cleaned st s2 where c: "clean_ls os pid ls_fd s1 = ((cleaned, st), s2)" by (metis prod.exhaust)
  then show ?thesis
    using assms True
    by (intro exI [of _ s2] exI [of _ s1])
      (auto simp: end_listing_def split: bool.splits option.splits child_status.splits)
next
  case False
  let ?s3 = "notify (Ls_Says (Cannot_Read_Output (g_ls_program s1))) s1"
  have "s' = snd (clean_ls os pid ls_fd ?s3) \<and> \<not> ok" using assms False by (simp add: end_listing_def case_prod_beta)
  then show ?thesis by blast
qed

lemma read_listing_steps:
  assumes "read_listing os fd pid ls_fd s = Inr (ok, s')"
  obtains h ok0 h' files already where "free_files (g_work_files s) (g_heap s) = Some h"
    "process_ls_output (os_is_directory os (snd (os_fdopen os ls_fd (g_world s)))) fd
       (fst (os_fdopen os ls_fd (g_world s))) h [] = Inr (ok0, h', files, already)"
    "end_listing os pid ls_fd ok0 (notify_all (map (Ls_Says \<circ> Listed_Already) already)
       (s\<lparr>g_edit_file_list := [], g_plan := None, g_world := snd (os_fdopen os ls_fd (g_world s)),
          g_heap := h', g_work_files := files\<rparr>)) = Inr (ok, s')"
proof -
  from assms obtain h where h: "free_files (g_work_files s) (g_heap s) = Some h"
    by (cases "free_files (g_work_files s) (g_heap s)") (auto simp: read_listing_def)
  let ?w = "os_fdopen os ls_fd (g_world s)"
  obtain ok0 h' files already where out: "process_ls_output (os_is_directory os (snd ?w)) fd (fst ?w) h [] =
      Inr (ok0, h', files, already)"
    using assms h by (auto simp: read_listing_def after_Inr Let_def on_world_fst_snd)
  show thesis
    by (rule that [OF h out]) (use assms in \<open>simp add: read_listing_def h on_world_fst_snd out Let_def\<close>)
qed

lemma end_listing_cwd:
  assumes D: "directories_behave os cwd fd_dir" and "end_listing os pid ls_fd ok0 s1 = Inr (ok, s')"
  shows "cwd (g_world s') = cwd (g_world s1) \<and> g_old_dir s' = g_old_dir s1"
  using end_listing_steps [OF assms(2)] clean_ls_cwd [OF D] by (metis notify_fields(1,2))

lemma read_listing_cwd:
  assumes D: "directories_behave os cwd fd_dir" and read: "read_listing os fd pid ls_fd s = Inr (ok, s')"
  shows "cwd (g_world s') = cwd (g_world s) \<and> g_old_dir s' = g_old_dir s"
  using read
proof (rule read_listing_steps, goal_cases)
  case (1 h ok0 h' files already)
  from end_listing_cwd [OF D 1(3)] directoriesD(15) [OF D] show ?case by simp
qed

text \<open>
  A listing that succeeds is read in the directory the program was in before.
\<close>

lemma list_files_steps:
  assumes "list_files os args s = Inr (True, s')"
  obtains fd la s1 pid ls_fd s2 s3 where
    "collect_arguments os (first_directory args (s\<lparr>g_work_directory := ''.''\<rparr>)) 0 args
       (ls_command_line (s\<lparr>g_work_directory := ''.''\<rparr>)) (s\<lparr>g_work_directory := ''.''\<rparr>) = (True, fd, la, s1)"
    "run_ls os la s1 = ((True, pid, ls_fd), s2)" "cwd_from_work_directory os s2 = (True, s3)"
    "read_listing os (first_dir_text args fd) pid ls_fd s3 = Inr (True, s')"
proof -
  let ?s = "s\<lparr>g_work_directory := ''.''\<rparr>"
  obtain ok fd la s1 where c: "collect_arguments os (first_directory args ?s) 0 args (ls_command_line ?s) ?s = (ok, fd, la, s1)"
    by (metis prod.exhaust)
  have ok: ok using assms c by (cases ok) (simp_all add: list_files_def)
  obtain r pid ls_fd s2 where ls: "run_ls os la s1 = ((r, pid, ls_fd), s2)" by (metis prod.exhaust)
  have r: r using assms c ok ls by (cases r) (simp_all add: list_files_def Let_def case_prod_beta)
  obtain b s3 where home: "cwd_from_work_directory os s2 = (b, s3)" by (metis prod.exhaust)
  have b: b using assms c ok ls r home by (cases b) (simp_all add: list_files_def case_prod_beta)
  show thesis
    by (rule that [of fd la s1 pid ls_fd s2 s3]) (use assms c ok ls r home b in \<open>simp_all add: list_files_def\<close>)
qed

lemma list_files_home:
  assumes D: "directories_behave os cwd fd_dir" and run: "list_files os args s = Inr (True, s')"
    and old: "g_old_dir s = -1"
  shows "cwd (g_world s') = cwd (g_world s) \<and> g_old_dir s' = -1"
  using run
proof (rule list_files_steps, goal_cases)
  case (1 fd la s1 pid ls_fd s2 s3)
  have "way_back cwd fd_dir (cwd (g_world s)) s1"
    using collect_way_back [OF D 1(1), of "cwd (g_world s)"] old by simp
  from run_ls_way_back [OF D this 1(2)] have "cwd (g_world s3) = cwd (g_world s)" "g_old_dir s3 = -1"
    using cwd_from_home [OF D _ 1(3)] by auto
  then show ?case using read_listing_cwd [OF D 1(4)] by simp
qed


subsection \<open>The new list\<close>

text \<open>Up to the reading of the output, the files and their objects stay.\<close>

definition same_lists :: "'w session \<Rightarrow> 'w session \<Rightarrow> bool" where
  "same_lists s s' \<longleftrightarrow> g_heap s' = g_heap s \<and> g_work_files s' = g_work_files s \<and> g_options s' = g_options s"

lemma same_lists_simps [simp]:
  "same_lists s s" "same_lists s (notify n s') \<longleftrightarrow> same_lists s s'"
  "same_lists s (s'\<lparr>g_world := w\<rparr>) \<longleftrightarrow> same_lists s s'" "same_lists s (s'\<lparr>g_old_dir := d\<rparr>) \<longleftrightarrow> same_lists s s'"
  "same_lists s (s'\<lparr>g_work_directory := wd\<rparr>) \<longleftrightarrow> same_lists s s'"
  "same_lists (s\<lparr>g_work_directory := wd\<rparr>) s' \<longleftrightarrow> same_lists s s'"
  by (simp_all add: same_lists_def notify_def)

lemma same_lists_trans: "same_lists s s' \<Longrightarrow> same_lists s' s'' \<Longrightarrow> same_lists s s''"
  by (simp add: same_lists_def)

lemma cwd_lists:
  "cwd_to_work_directory os s = (ok, s') \<Longrightarrow> same_lists s s'"
  "cwd_from_work_directory os s = (ok, s') \<Longrightarrow> same_lists s s'"
  by (auto simp: cwd_to_work_directory_def cwd_from_work_directory_def on_world_fst_snd Let_def
      split: if_splits bool.splits)

lemma run_ls_lists: "run_ls os args s = (r, s') \<Longrightarrow> same_lists s s'"
  by (auto simp: run_ls_def on_world_fst_snd split: option.splits if_splits)

lemma clean_ls_lists: "clean_ls os pid fd s = (r, s') \<Longrightarrow> same_lists s s'"
  by (auto simp: clean_ls_def on_world_fst_snd split: bool.splits prod.splits if_splits)

lemma collect_lists:
  "collect_arguments os fd c args la s = (ok, fd', la', s') \<Longrightarrow> same_lists s s'"
proof (induction args arbitrary: fd c la s)
  case (Cons arg args)
  show ?case
  proof (cases "fd = First_Argument \<and> c = 0 \<and> args = [] \<and> os_is_directory os (g_world s) arg")
    case True
    obtain went s1 where "cwd_to_work_directory os (s\<lparr>g_work_directory := arg\<rparr>) = (went, s1)"
      by (cases "cwd_to_work_directory os (s\<lparr>g_work_directory := arg\<rparr>)")
    with cwd_lists(1) [OF this] show ?thesis using Cons.prems True by (cases went) auto
  next
    case False
    define step where "step = (if os_is_directory os (g_world s) arg \<and> \<not> directory_option s
      \<and> \<not> (fd = First_Argument \<and> c = 0 \<and> args = []) then notify (Ls_Says (Skipping_Directory arg)) s else s)"
    have "\<exists>fd1 la1. collect_arguments os fd1 (c + 1) args la1 step = (ok, fd', la', s')"
      using Cons.prems False by (auto simp: Let_def step_def split: if_splits)
    then have "same_lists step s'" using Cons.IH by blast
    then show ?thesis by (auto simp: step_def same_lists_def split: if_splits)
  qed
qed simp

lemma end_listing_lists:
  assumes "end_listing os pid ls_fd ok0 s = Inr (ok, s')"
  shows "same_lists s s'"
proof -
  from end_listing_steps [OF assms] obtain s2 s3 where s: "s2 = snd (clean_ls os pid ls_fd s3)"
    "s3 = s \<or> (\<exists>n. s3 = notify n s)" "s' = s2 \<or> (\<exists>n. s' = notify n s2)" by blast
  from clean_ls_lists have "same_lists s3 s2" unfolding s(1) by (metis prod.collapse)
  then have "same_lists s3 s'" using s(3) by auto
  moreover have "same_lists s s3" using s(2) by auto
  ultimately show ?thesis using same_lists_trans by blast
qed

text \<open>A listing leaves a list of files in order, whatever \<open>ls\<close> prints.\<close>

lemma list_files_list_ok:
  assumes "list_files os args s = Inr (True, s')" "heap_ok (g_heap s)"
  shows "list_ok (g_heap s') (g_work_files s') \<and> g_options s' = g_options s"
  using assms(1)
proof (rule list_files_steps, goal_cases)
  case (1 fd la s1 pid ls_fd s2 s3)
  have s3: "same_lists s s3"
    using collect_lists [OF 1(1)] run_ls_lists [OF 1(2)] cwd_lists(2) [OF 1(3)] by (simp add: same_lists_def)
  show ?case using 1(4)
  proof (rule read_listing_steps, goal_cases)
    case (1 h ok0 h' files already)
    have "heap_ok h" using free_files_heap_ok [OF 1(1)] s3 assms(2) by (simp add: same_lists_def)
    then have "list_ok h' files" using process_ls_output_ok [OF 1(2)] by blast
    then show ?case using end_listing_lists [OF 1(3)] s3 by (simp add: same_lists_def notify_all_def)
  qed
qed

subsection \<open>The arguments of ls\<close>

text \<open>The operands that are handed on.\<close>

definition ls_operands :: "'w os \<Rightarrow> string list \<Rightarrow> 'w session \<Rightarrow> string list" where
  "ls_operands os args s =
     (if directory_option s then args
      else if length args = 1 \<and> os_is_directory os (g_world s) (hd args) then [''.'']
      else filter (\<lambda>a. \<not> os_is_directory os (g_world s) a) args)"

lemma collect_rest:
  assumes "fd \<noteq> First_Argument \<or> c \<noteq> 0 \<or> length args \<noteq> 1 \<or> \<not> os_is_directory os (g_world s) (hd args)"
  shows "\<exists>fd' s'. collect_arguments os fd c args la s = (True, fd', la @
      filter (\<lambda>a. directory_option s \<or> \<not> os_is_directory os (g_world s) a) args, s')"
  using assms
proof (induction args arbitrary: fd c la s)
  case (Cons arg args)
  have dir: "directory_option (notify n s) = directory_option s" for n by (simp add: directory_option_def)
  have rest: "\<exists>fd' s'. collect_arguments os fd1 (c + 1) args la1 s1 = (True, fd', la1 @
      filter (\<lambda>a. directory_option s1 \<or> \<not> os_is_directory os (g_world s1) a) args, s')" for fd1 la1 s1
    using Cons.IH [of fd1 "c + 1" s1 la1] by simp
  show ?case
    using Cons.prems rest [of _ "la @ [arg]" s] rest [of _ la "notify (Ls_Says (Skipping_Directory arg)) s"]
    by (auto simp: Let_def dir)
qed simp

lemma collect_operands:
  assumes "collect_arguments os (first_directory args s) 0 args la s = (True, fd, la', s')"
  shows "la' = la @ ls_operands os args s"
proof (cases "\<not> directory_option s \<and> length args = 1 \<and> os_is_directory os (g_world s) (hd args)")
  case True
  then obtain arg where "args = [arg]" by (cases args) auto
  then show ?thesis
    using assms True by (auto simp: first_directory_def ls_operands_def split: prod.splits bool.splits)
next
  case False
  then have "first_directory args s \<noteq> First_Argument \<or> length args \<noteq> 1 \<or> \<not> os_is_directory os (g_world s) (hd args)"
    by (auto simp: first_directory_def)
  then have "la' = la @ filter (\<lambda>a. directory_option s \<or> \<not> os_is_directory os (g_world s) a) args"
    using collect_rest [of "first_directory args s" 0 args os s la] assms by auto
  then show ?thesis using False by (auto simp: ls_operands_def)
qed


end
