(* ===== verification/Interactive.thy ===== *)
theory Interactive
  imports Variables Display List_Files
begin

text \<open>
  The command mode, \<open>src/src/interactive.c\<close>: the table of commands and the search in it, the
  completion, the commands and the main loop.  \<open>readline\<close> and \<open>wordexp\<close> are parameters: the lines
  the user enters are a list, with \<^const>\<open>None\<close> for an end of file.
\<close>

subsection \<open>The table of commands\<close>

datatype command =
    Apply_Command | Edit_Command | Quit_Command | Help_Command | Import_Command | List_Command
  | Plan_Command | Set_Command | Show_Command | Version_Command

definition commands :: "(string \<times> command) list" where
  "commands =
     [(''apply'', Apply_Command), (''ed'', Edit_Command), (''edit'', Edit_Command),
      (''exit'', Quit_Command), (''help'', Help_Command), (''import'', Import_Command),
      (''list'', List_Command), (''ls'', List_Command), (''plan'', Plan_Command),
      (''quit'', Quit_Command), (''set'', Set_Command), (''show'', Show_Command),
      (''version'', Version_Command)]"

definition command_compare :: "string \<times> command \<Rightarrow> string \<times> command \<Rightarrow> int" where
  "command_compare c1 c2 = strcmp (fst c1) (fst c2)"

text \<open>\<open>bsearch\<close> of the C library, by halving the range.\<close>

function bsearch_range :: "('a \<Rightarrow> int) \<Rightarrow> 'a list \<Rightarrow> nat \<Rightarrow> nat \<Rightarrow> 'a option" where
  "bsearch_range compare base l u =
     (if l < u then
        let idx = (l + u) div 2; c = compare (base ! idx) in
        if c < 0 then bsearch_range compare base l idx
        else if c > 0 then bsearch_range compare base (idx + 1) u
        else Some (base ! idx)
      else None)"
  by pat_completeness auto
termination
  by (relation "measure (\<lambda>(compare, base, l, u). u - l)") auto

declare bsearch_range.simps [simp del]

definition bsearch :: "('a \<Rightarrow> int) \<Rightarrow> 'a list \<Rightarrow> 'a option" where
  "bsearch compare base = bsearch_range compare base 0 (length base)"

definition find_command :: "string \<Rightarrow> (string \<times> command) option" where
  "find_command word = bsearch (\<lambda>c. command_compare (word, Apply_Command) c) commands"

subsection \<open>Completion\<close>

definition command_generator :: "string \<Rightarrow> int \<Rightarrow> nat \<Rightarrow> string option \<times> nat" where
  "command_generator str state c = name_generator (map fst commands) str state c"

text \<open>
  The generator the completion hands to \<open>rl_completion_matches\<close>, if any.  No result: \<open>strcmp\<close> of a
  NULL that \<open>word_get\<close> returned.
\<close>

definition completion ::
  "(char \<Rightarrow> bool) \<Rightarrow> edit_format \<Rightarrow> string \<Rightarrow> nat
     \<Rightarrow> (string \<Rightarrow> int \<Rightarrow> nat \<Rightarrow> string option \<times> nat) option option" where
  "completion isspace fmt rl_line_buffer start =
     (let idx = word_get_index isspace rl_line_buffer start in
      if idx = 0 then Some (Some command_generator)
      else if idx = 1 then
        do { command \<leftarrow> word_get isspace rl_line_buffer 0;
             Some (if strcmp command ''set'' = 0 \<or> strcmp command ''show'' = 0
                   then Some variable_generator else None) }
      else if idx = 2 then
        do { command \<leftarrow> word_get isspace rl_line_buffer 0;
             if strcmp command ''set'' = 0 then
               do { variable \<leftarrow> word_get isspace rl_line_buffer 1;
                    Some (if strcmp variable ''format'' = 0 then Some edit_format_generator
                          else if strcmp variable ''options'' = 0 then Some (format_option_generator fmt)
                          else None) }
             else Some None }
      else Some None)"

subsection \<open>Leaving\<close>

definition terminate_program :: "'w session \<Rightarrow> 'w session" where
  "terminate_program s =
     (let valid = (case g_plan s of None \<Rightarrow> False | Some p \<Rightarrow> plan_error p = [] \<and> plan_ok p = []) in
      if valid \<or> g_plan s = None \<or> g_exit_warned s
      then notify (Command_Says Blank_Line) (s\<lparr>g_running := False\<rparr>)
      else (notify_all [Command_Says Exit_Line, Command_Says Unapplied_Changes] s)\<lparr>g_exit_warned := True\<rparr>)"

subsection \<open>Planning and applying\<close>

text \<open>\<open>make_plan\<close> and \<open>apply_plan\<close> on the global variables.\<close>

definition session_make_plan :: "'w os \<Rightarrow> 'w session \<Rightarrow> 'w session option" where
  "session_make_plan os s =
     do { (h, p) \<leftarrow> make_plan (program (g_options s)) (os_file_exists os (g_world s))
                      (g_work_directory s) (g_work_files s) (g_heap s);
          Some (s\<lparr>g_heap := h, g_plan := Some p\<rparr>) }"

definition session_apply_plan :: "'w os \<Rightarrow> File_Spec.apply_plan \<Rightarrow> 'w session \<Rightarrow> (bool \<times> 'w session) option" where
  "session_apply_plan os p s =
     do { (ok, out) \<leftarrow> Apply.apply_plan (session_system os) (g_options s) (g_heap s) p (g_work_files s) s;
          Some (ok, notify_all (map Apply_Notice (out_messages out))
            ((out_world out)\<lparr>g_heap := out_heap out, g_plan := Some (out_plan out),
                             g_work_files := out_work out\<rparr>)) }"

definition session_display_plan :: "File_Spec.apply_plan \<Rightarrow> 'w session \<Rightarrow> stop + 'w session" where
  "session_display_plan p s =
     after (display_plan (program (g_options s)) (g_heap s) p) (\<lambda>ns. Inr (notify_all (map Plan_Says ns) s))"

subsection \<open>The commands\<close>

definition apply_command :: "'w os \<Rightarrow> 'w session \<Rightarrow> stop + 'w session" where
  "apply_command os s =
     (case g_plan s of
        None \<Rightarrow> Inr (notify (Command_Says No_Plan) s)
      | Some p \<Rightarrow> after (defined (session_apply_plan os p s)) (\<lambda>(ok, s). Inr s))"

definition plan_command :: "'w session \<Rightarrow> stop + 'w session" where
  "plan_command s =
     (case g_plan s of None \<Rightarrow> Inr (notify (Command_Says No_Plan) s) | Some p \<Rightarrow> session_display_plan p s)"

text \<open>The new plan replaces the old one, and is shown.\<close>

definition replan :: "'w os \<Rightarrow> 'w session \<Rightarrow> stop + (File_Spec.apply_plan \<times> 'w session)" where
  "replan os s =
     after (defined (session_make_plan os s)) (\<lambda>s.
       case g_plan s of
         None \<Rightarrow> Inl Undefined
       | Some p \<Rightarrow> after (session_display_plan p s) (\<lambda>s. Inr (p, s)))"

definition edit_command :: "'w os \<Rightarrow> string list \<Rightarrow> 'w session \<Rightarrow> stop + 'w session" where
  "edit_command os args s =
     (if g_work_files s = [] then Inr (notify (Command_Says No_Files) s)
      else let all = (1 < length args \<and> strcmp (args ! 1) ''all'' = 0) in
        after (defined (edit_files os all False s)) (\<lambda>(ok, s).
          if ok then after (replan os s) (\<lambda>(p, s). Inr s) else Inr s))"

definition quit_command :: "'w session \<Rightarrow> 'w session" where
  "quit_command s = s\<lparr>g_running := False\<rparr>"

text \<open>The pager: its descriptor, or \<^const>\<open>None\<close> for the standard output, and the process id.\<close>

definition launch_pager :: "'w os \<Rightarrow> 'w session \<Rightarrow> (int option \<times> int) \<times> 'w session" where
  "launch_pager os s =
     (case on_world (os_pipe os) s of
        (None, s) \<Rightarrow> ((None, -1), notify (Main_Says Cannot_Start_Pager) s)
      | (Some (p0, p1), s) \<Rightarrow>
          (case on_world (os_fork os [Close_Fd p1, Dup_To p0 0, Exec ''pager'' [''pager''],
                Exec_If_Missing ''more'' [''more''], Exec_If_Missing ''cat'' [''cat'']]) s of
             (pid, s) \<Rightarrow>
               if pid < 0 then ((None, -1), notify (Main_Says Cannot_Start_Pager) s)
               else (case on_world (os_close os p0) s of
                 (False, s) \<Rightarrow> ((None, pid), notify (Main_Says Cannot_Start_Pager) s)
               | (True, s) \<Rightarrow>
                   (case on_world (os_fdopen_write os p1) s of
                      (False, s) \<Rightarrow> ((None, pid), notify (Main_Says Cannot_Start_Pager) s)
                    | (True, s) \<Rightarrow> ((Some p1, pid), s)))))"

definition close_pager :: "'w os \<Rightarrow> int option \<Rightarrow> int \<Rightarrow> 'w session \<Rightarrow> bool \<times> 'w session" where
  "close_pager os pager child_pid s =
     (case (case pager of None \<Rightarrow> (True, s) | Some fd \<Rightarrow> on_world (os_close os fd) s) of
        (False, s) \<Rightarrow> (False, notify (Main_Says Cannot_Terminate_Pager) s)
      | (True, s) \<Rightarrow>
          if child_pid \<noteq> -1 then
            (case on_world (os_waitpid os child_pid) s of
               ((pid, _), s) \<Rightarrow>
                 if pid \<noteq> child_pid then (False, notify (Main_Says Cannot_Terminate_Pager) s) else (True, s))
          else (True, s))"

definition page :: "'w os \<Rightarrow> notice \<Rightarrow> 'w session \<Rightarrow> 'w session" where
  "page os n s =
     (case launch_pager os s of
        ((pager, child), s) \<Rightarrow> snd (close_pager os pager child (notify n s)))"

definition help_command :: "'w os \<Rightarrow> string list \<Rightarrow> 'w session \<Rightarrow> 'w session" where
  "help_command os args s =
     (if length args \<le> 1 then page os (Main_Says General_Help) s
      else if strcmp (args ! 1) ''ls'' = 0 then page os (Main_Says Ls_Help) s
      else if strcmp (args ! 1) ''usage'' = 0 then page os (Main_Says Usage_Help) s
      else notify (Main_Says Help_Usage) s)"

definition version_command :: "'w session \<Rightarrow> 'w session" where
  "version_command s = notify_all [Main_Says Version_Text, Main_Says Bug_Address] s"

text \<open>\<open>import_command\<close> of \<open>list.c\<close> on the global variables.\<close>

definition session_import :: "'w os \<Rightarrow> string list \<Rightarrow> 'w session \<Rightarrow> stop + 'w session" where
  "session_import os args s =
     after (defined (import_command (\<lambda>f. fst (os_fopen_read os f (g_world s))) args (g_heap s) (g_work_files s)))
       (\<lambda>(ns, h, files).
          let s = (if 1 < length args then snd (on_world (os_fopen_read os (args ! 1)) s) else s)
          in Inr (notify_all (map Import_Notice ns) (s\<lparr>g_heap := h, g_work_files := files\<rparr>)))"

subsection \<open>The main loop\<close>

text \<open>What the loop is given from outside: the C library's tables, \<open>getopt_long\<close> and \<open>wordexp\<close>.\<close>

datatype word_error = WRDE_BADCHAR | WRDE_BADVAL | WRDE_CMDSUB | WRDE_NOSPACE | WRDE_SYNTAX

record library =
  lib_tolower :: "char \<Rightarrow> char"
  lib_getopt :: "option_entry list \<Rightarrow> string list \<Rightarrow> parsed_args"
  lib_wordexp :: "string \<Rightarrow> word_error + string list"

fun handler :: "library \<Rightarrow> 'w os \<Rightarrow> command \<Rightarrow> string list \<Rightarrow> 'w session \<Rightarrow> stop + 'w session" where
  "handler lib os Apply_Command args s = apply_command os s"
| "handler lib os Edit_Command args s = edit_command os args s"
| "handler lib os Quit_Command args s = Inr (quit_command s)"
| "handler lib os Help_Command args s = Inr (help_command os args s)"
| "handler lib os Import_Command args s = session_import os args s"
| "handler lib os List_Command args s = list_command (lib_getopt lib ls_option_table) os args s"
| "handler lib os Plan_Command args s = plan_command s"
| "handler lib os Set_Command args s = Inr (set_command (lib_tolower lib) args s)"
| "handler lib os Show_Command args s = Inr (show_command args s)"
| "handler lib os Version_Command args s = Inr (version_command s)"

text \<open>\<open>wordfree\<close>\<close>

definition free_words :: "'w session \<Rightarrow> 'w session" where
  "free_words s = s\<lparr>g_indicator := (\<lambda>f. if g_indicator s f = In_Words then Freed else g_indicator s f)\<rparr>"

definition run_words :: "library \<Rightarrow> 'w os \<Rightarrow> string list \<Rightarrow> 'w session \<Rightarrow> stop + 'w session" where
  "run_words lib os words s =
     (case words of
        [] \<Rightarrow> Inr s
      | word # _ \<Rightarrow>
          (case find_command word of
             None \<Rightarrow> Inr (notify (Command_Says (Undefined_Command word)) s)
           | Some (_, c) \<Rightarrow> handler lib os c words s))"

definition run_line :: "library \<Rightarrow> 'w os \<Rightarrow> string \<Rightarrow> 'w session \<Rightarrow> stop + 'w session" where
  "run_line lib os line s =
     (case lib_wordexp lib line of
        Inl WRDE_BADCHAR \<Rightarrow> Inr (notify (Command_Says Word_Bad_Character) s)
      | Inl WRDE_BADVAL \<Rightarrow> Inr (notify (Command_Says Word_Bad_Variable) s)
      | Inl WRDE_CMDSUB \<Rightarrow> Inr (notify (Command_Says Word_Command_Substitution) s)
      | Inl WRDE_NOSPACE \<Rightarrow> Inl Died
      | Inl WRDE_SYNTAX \<Rightarrow> Inr (notify (Command_Says Word_Syntax) s)
      | Inr words \<Rightarrow> after (run_words lib os words s) (\<lambda>s. Inr (free_words s)))"

text \<open>
  The loop ends when \<open>running\<close> is false, or waits for the next line when the lines given are used up.
\<close>

fun commandmode_loop :: "library \<Rightarrow> 'w os \<Rightarrow> string option list \<Rightarrow> 'w session \<Rightarrow> stop + 'w session" where
  "commandmode_loop lib os [] s = Inr s"
| "commandmode_loop lib os (line # lines) s =
     (if \<not> g_running s then Inr s
      else after (case line of None \<Rightarrow> Inr (terminate_program s) | Some l \<Rightarrow> run_line lib os l s)
             (commandmode_loop lib os lines))"

subsection \<open>Search and completion\<close>

lemma bsearch_range_finds:
  assumes "\<And>i j. i < j \<Longrightarrow> j < length base \<Longrightarrow> cmp (base ! i) \<le> 0 \<Longrightarrow> cmp (base ! j) < 0"
    and "\<And>i j. i < j \<Longrightarrow> j < length base \<Longrightarrow> 0 \<le> cmp (base ! j) \<Longrightarrow> 0 < cmp (base ! i)"
  shows "u \<le> length base \<Longrightarrow>
    bsearch_range cmp base l u = Some x \<longleftrightarrow> (\<exists>i. l \<le> i \<and> i < u \<and> cmp (base ! i) = 0 \<and> base ! i = x)"
proof (induction "u - l" arbitrary: l u rule: less_induct)
  case less
  show ?case
  proof (cases "l < u")
    case False
    then show ?thesis by (subst bsearch_range.simps) auto
  next
    case True
    let ?m = "(l + u) div 2"
    have m: "l \<le> ?m" "?m < u" using True by auto
    then have len: "?m < length base" using less.prems by simp
    consider "cmp (base ! ?m) < 0" | "0 < cmp (base ! ?m)" | "cmp (base ! ?m) = 0" by linarith
    then show ?thesis
    proof cases
      case 1
      have out: "cmp (base ! i) \<noteq> 0" if "?m \<le> i" "i < u" for i
        using assms(1) [of ?m i] that 1 less.prems by (cases "i = ?m") auto
      have "bsearch_range cmp base l u = bsearch_range cmp base l ?m"
        using True 1 by (subst bsearch_range.simps) (simp add: Let_def)
      then show ?thesis
        using less.hyps [of ?m l] m less.prems out by (auto dest: leI) (metis leI order.strict_trans2 less_imp_le)
    next
      case 2
      have out: "cmp (base ! i) \<noteq> 0" if "i \<le> ?m" for i
        using assms(2) [of i ?m] that 2 len by (cases "i = ?m") auto
      have "bsearch_range cmp base l u = bsearch_range cmp base (?m + 1) u"
        using True 2 by (subst bsearch_range.simps) (simp add: Let_def)
      moreover have "l \<le> i \<and> i < u \<and> cmp (base ! i) = 0 \<and> base ! i = x \<longleftrightarrow>
          ?m + 1 \<le> i \<and> i < u \<and> cmp (base ! i) = 0 \<and> base ! i = x" for i
        using out [of i] m(1) by (cases "i \<le> ?m") auto
      moreover have "u - (?m + 1) < u - l" using m by simp
      ultimately show ?thesis using less.hyps [of u "?m + 1"] less.prems by simp
    next
      case 3
      have unique: "i = ?m" if "i < u" "cmp (base ! i) = 0" for i
      proof (cases i ?m rule: linorder_cases)
        case less
        then show ?thesis using assms(1) [of i ?m] that 3 len by simp
      next
        case greater
        then show ?thesis using assms(1) [of ?m i] that 3 less.prems by simp
      qed
      have "bsearch_range cmp base l u = Some (base ! ?m)"
        using True 3 by (subst bsearch_range.simps) (simp add: Let_def)
      moreover have "(\<exists>i. l \<le> i \<and> i < u \<and> cmp (base ! i) = 0 \<and> base ! i = x) \<longleftrightarrow> base ! ?m = x"
        using unique m 3 by blast
      ultimately show ?thesis by simp
    qed
  qed
qed

lemma strcmp_less_trans: "strcmp a b < 0 \<Longrightarrow> strcmp b c < 0 \<Longrightarrow> strcmp a c < 0"
  using strcmp_trans by (simp add: strcmp_less_iff)

lemma strcmp_le_less_trans: "strcmp a b \<le> 0 \<Longrightarrow> strcmp b c < 0 \<Longrightarrow> strcmp a c < 0"
  using strcmp_less_trans [of a b c] by (cases "strcmp a b = 0") auto

lemma commands_sorted: "i < j \<Longrightarrow> j < length commands \<Longrightarrow> strcmp (fst (commands ! i)) (fst (commands ! j)) < 0"
proof -
  have "sorted_wrt (\<lambda>c d. strcmp (fst c) (fst d) < 0) commands" by code_simp
  then show "i < j \<Longrightarrow> j < length commands \<Longrightarrow> strcmp (fst (commands ! i)) (fst (commands ! j)) < 0"
    by (simp add: sorted_wrt_iff_nth_less)
qed

lemma find_command_Some: "find_command word = Some c \<longleftrightarrow> c \<in> set commands \<and> fst c = word"
proof -
  let ?cmp = "\<lambda>c. command_compare (word, Apply_Command) c"
  have "bsearch_range ?cmp commands 0 (length commands) = Some c \<longleftrightarrow>
      (\<exists>i. 0 \<le> i \<and> i < length commands \<and> ?cmp (commands ! i) = 0 \<and> commands ! i = c)"
  proof (rule bsearch_range_finds)
    fix i j assume ij: "i < j" "j < length commands"
    show "?cmp (commands ! i) \<le> 0 \<Longrightarrow> ?cmp (commands ! j) < 0"
      using strcmp_le_less_trans commands_sorted [OF ij] by (simp add: command_compare_def)
    show "0 \<le> ?cmp (commands ! j) \<Longrightarrow> 0 < ?cmp (commands ! i)"
    proof -
      assume "0 \<le> ?cmp (commands ! j)"
      then have "strcmp (fst (commands ! j)) word \<le> 0"
        using strcmp_antisym [of word "fst (commands ! j)"] by (simp add: command_compare_def)
      then have "strcmp (fst (commands ! i)) word < 0"
        using commands_sorted [OF ij] strcmp_less_trans [of _ "fst (commands ! j)" word]
        by (cases "strcmp (fst (commands ! j)) word = 0") auto
      then show ?thesis using strcmp_antisym [of word "fst (commands ! i)"] by (simp add: command_compare_def)
    qed
  qed simp
  then show ?thesis
    by (auto simp: find_command_def bsearch_def command_compare_def in_set_conv_nth)
qed


lemma completion_not_None: "completion isspace fmt line start \<noteq> None"
proof -
  have "word_get isspace line 0 \<noteq> None" if "0 < word_get_index isspace line start"
    using word_get_before [OF that] by simp
  moreover have "word_get isspace line 1 \<noteq> None" if "1 < word_get_index isspace line start"
    using word_get_before [OF that] by simp
  ultimately show ?thesis by (auto simp: completion_def Let_def)
qed

end
