(* ===== verification/Qcmd.thy ===== *)
theory Qcmd
  imports Interactive
begin

text \<open>
  The program, \<open>src/src/qcmd.c\<close>: the option table and the parsing of the command line, the choice of
  the mode and the editor, and \<open>main\<close>.
\<close>

subsection \<open>Options\<close>

definition SIMULATE_OPT :: nat where "SIMULATE_OPT = 1000"
definition COMMAND_OPT :: nat where "COMMAND_OPT = 1001"
definition LS_OPT :: nat where "LS_OPT = 1002"
definition VERSION_OPT :: nat where "VERSION_OPT = 1003"
definition HELP_OPT :: nat where "HELP_OPT = 1004"

definition option_table :: "option_entry list" where
  "option_table =
     [\<lparr>opt_name = Some ''command'', opt_argument = True, opt_val = COMMAND_OPT\<rparr>,
      \<lparr>opt_name = Some ''format'', opt_argument = True, opt_val = byte CHR ''f''\<rparr>,
      \<lparr>opt_name = Some ''options'', opt_argument = True, opt_val = byte CHR ''o''\<rparr>,
      \<lparr>opt_name = Some ''editor'', opt_argument = True, opt_val = byte CHR ''e''\<rparr>,
      \<lparr>opt_name = Some ''ls'', opt_argument = True, opt_val = LS_OPT\<rparr>,
      \<lparr>opt_name = Some ''verbose'', opt_argument = False, opt_val = byte CHR ''v''\<rparr>,
      \<lparr>opt_name = Some ''dummy'', opt_argument = False, opt_val = SIMULATE_OPT\<rparr>,
      \<lparr>opt_name = Some ''simulate'', opt_argument = False, opt_val = SIMULATE_OPT\<rparr>,
      \<lparr>opt_name = Some ''interactive'', opt_argument = False, opt_val = byte CHR ''i''\<rparr>,
      \<lparr>opt_name = Some ''version'', opt_argument = False, opt_val = VERSION_OPT\<rparr>,
      \<lparr>opt_name = Some ''help'', opt_argument = False, opt_val = HELP_OPT\<rparr>,
      \<lparr>opt_name = None, opt_argument = False, opt_val = 0\<rparr>]"

text \<open>What \<open>main\<close> has before the files are listed.\<close>

record settings =
  set_options :: options
  set_verbose :: bool
  set_interactive :: bool
  set_format :: edit_format
  set_format_options :: "string option"
  set_editor :: "string option"
  set_ls :: "string option"
  set_ls_options :: "ls_word list"

definition initial_settings :: "string \<Rightarrow> settings" where
  "initial_settings prog =
     \<lparr>set_options = \<lparr>program = prog, force_command = None, simulate = False\<rparr>, set_verbose = False,
      set_interactive = False, set_format = Dual_Column_Format, set_format_options = None,
      set_editor = None, set_ls = None, set_ls_options = []\<rparr>"

text \<open>The cases of the switch, but for \<open>'?'\<close>.\<close>

definition main_option :: "nat \<times> string \<Rightarrow> settings \<Rightarrow> stop + settings" where
  "main_option opt st =
     (case opt of (c, optarg) \<Rightarrow>
        if c = byte CHR ''i'' then Inr (st\<lparr>set_interactive := True\<rparr>)
        else if c = byte CHR ''v'' then Inr (st\<lparr>set_verbose := True\<rparr>)
        else if c = byte CHR ''f'' then
          (case find_edit_format_by_name optarg of
             None \<Rightarrow> Inl Died
           | Some f \<Rightarrow> Inr (st\<lparr>set_format := f\<rparr>))
        else if c = byte CHR ''o'' then Inr (st\<lparr>set_format_options := Some optarg\<rparr>)
        else if c = byte CHR ''e'' then Inr (st\<lparr>set_editor := Some optarg\<rparr>)
        else if c = LS_OPT then Inr (st\<lparr>set_ls := Some optarg\<rparr>)
        else if c = COMMAND_OPT then Inr (st\<lparr>set_options := set_options st\<lparr>force_command := Some optarg\<rparr>\<rparr>)
        else if c = SIMULATE_OPT then Inr (st\<lparr>set_options := set_options st\<lparr>simulate := True\<rparr>\<rparr>)
        else if c = VERSION_OPT then Inl (Exit_Status 0)
        else if c = HELP_OPT then Inl (Exit_Status 0)
        else Inr (st\<lparr>set_ls_options := process_ls_option c optarg (set_ls_options st)\<rparr>))"

fun main_options :: "(nat \<times> string) list \<Rightarrow> bool \<Rightarrow> settings \<Rightarrow> stop + settings" where
  "main_options [] err st = (if err then Inl (Exit_Status 1) else Inr st)"
| "main_options (opt # opts) err st = after (main_option opt st) (main_options opts err)"

text \<open>The program has to be called \<open>qmv\<close> or \<open>qcp\<close>, unless a command is given.\<close>

definition mode_known :: "options \<Rightarrow> bool" where
  "mode_known opts \<longleftrightarrow> \<not> (force_command opts = None \<and> strcmp (program opts) ''qmv'' \<noteq> 0 \<and>
     strcmp (program opts) ''qcp'' \<noteq> 0)"

text \<open>\<open>getenv\<close> is a function; the names are those the code asks for, in its order.\<close>

definition choose_editor :: "(string \<Rightarrow> string option) \<Rightarrow> string option \<Rightarrow> string" where
  "choose_editor getenv editor =
     (case editor of
        Some e \<Rightarrow> e
      | None \<Rightarrow>
          (case getenv ''VISUAL'' of
             Some e \<Rightarrow> e
           | None \<Rightarrow> (case getenv ''EDITOR'' of Some e \<Rightarrow> e | None \<Rightarrow> ''editor'')))"

text \<open>\<open>create_temporary_file\<close> of \<open>src/src/common/io-utils.c\<close>.\<close>

definition create_temporary_file ::
  "'w os \<Rightarrow> bool \<Rightarrow> string option \<Rightarrow> string option \<Rightarrow> string option \<Rightarrow> 'w \<Rightarrow> string option \<times> 'w" where
  "create_temporary_file os same_ids tmpdir_env p_tmpdir base w =
     (case os_mkstemp os (temporary_template same_ids tmpdir_env p_tmpdir base) w of
        (None, w) \<Rightarrow> (None, w)
      | (Some (name, fd), w) \<Rightarrow>
          (case os_fchmod os fd 384 w of
             (False, w) \<Rightarrow> (None, w)
           | (True, w) \<Rightarrow>
               (case os_close os fd w of
                  (False, w) \<Rightarrow> (None, w)
                | (True, w) \<Rightarrow> (Some name, w))))"

subsection \<open>Running without commands\<close>

definition noncommandmode_run :: "'w os \<Rightarrow> string list \<Rightarrow> 'w session \<Rightarrow> stop + (bool \<times> 'w session)" where
  "noncommandmode_run os args s =
     after (list_files os args s) (\<lambda>(listed, s).
       if \<not> listed then Inr (True, s)
       else if g_work_files s = [] then Inr (True, notify (Main_Says No_Files_Matched) s)
       else after (defined (edit_files os True False s)) (\<lambda>(edited, s).
         if \<not> edited then Inr (False, s)
         else after (replan os s) (\<lambda>(p, s).
           if plan_error p \<noteq> [] then Inr (False, s)
           else if plan_ok p \<noteq> [] then defined (session_apply_plan os p s)
           else Inr (True, s))))"

subsection \<open>The main function\<close>

text \<open>The environment of the process, and the lines the user enters in command mode.\<close>

record process =
  pr_base_name :: string
  pr_getenv :: "string \<Rightarrow> string option"
  pr_same_ids :: bool
  pr_p_tmpdir :: "string option"
  pr_arguments :: "string list"
  pr_lines :: "string option list"

definition initial_session :: "settings \<Rightarrow> string \<Rightarrow> string \<Rightarrow> 'w \<Rightarrow> 'w session" where
  "initial_session st editor temporary w =
     \<lparr>g_options = set_options st, g_heap = empty_heap, g_work_files = [], g_work_directory = ''.'',
      g_editor_program = editor,
      g_ls_program = (case set_ls st of None \<Rightarrow> ''ls'' | Some l \<Rightarrow> l),
      g_edit_filename = temporary, g_format = set_format st, g_plan = None, g_edit_file_list = [],
      g_accept_reedit = False, g_ls_options = set_ls_options st, g_old_dir = -1, g_running = True,
      g_exit_warned = False, g_destination_only = do_reset_options,
      g_single_column = sc_reset_options, g_dual_column = dc_reset_options, g_real_width = 0,
      g_indicator = (\<lambda>_. Lasting), g_world = w, g_said = []\<rparr>"

text \<open>The session part of \<open>main\<close>, up to the cleaning.\<close>

definition run_session :: "library \<Rightarrow> 'w os \<Rightarrow> bool \<Rightarrow> string list \<Rightarrow> string option list \<Rightarrow> 'w session
    \<Rightarrow> stop + 'w session" where
  "run_session lib os interactive args lines s =
     (if interactive then
        after (if args \<noteq> [] then list_files os args (notify (Main_Says Header_Text) s)
               else Inr (True, notify (Main_Says Header_Text) s))
          (\<lambda>(_, s). commandmode_loop lib os lines s)
      else
        after (noncommandmode_run os args s) (\<lambda>(ok, s).
          if \<not> ok then commandmode_loop lib os lines (notify (Main_Says Entering_Interactive) s) else Inr s))"

text \<open>
  The end of \<open>main\<close>: the objects are freed and the temporary file is deleted.  The status returned
  is always 0.
\<close>

definition finish_main :: "'w os \<Rightarrow> 'w session \<Rightarrow> stop + 'w session" where
  "finish_main os s =
     after (defined (free_files (g_work_files s) (g_heap s))) (\<lambda>h.
       case on_world (os_unlink os (g_edit_filename s))
              (s\<lparr>g_heap := h, g_work_files := [], g_plan := None, g_edit_file_list := []\<rparr>) of
         (False, s) \<Rightarrow> Inr (notify (Main_Says (Cannot_Delete (g_edit_filename s))) s)
       | (True, s) \<Rightarrow> Inr s)"

text \<open>
  The whole of \<open>main\<close>.  The table handed to \<open>getopt_long\<close> is \<open>option_table\<close>, not \<open>all_options\<close>.
\<close>

definition main :: "library \<Rightarrow> 'w os \<Rightarrow> process \<Rightarrow> 'w \<Rightarrow> stop + 'w session" where
  "main lib os pr w =
     (let prog = pr_base_name pr;
          all_options = append_ls_options option_table;
          parsed = lib_getopt lib option_table (pr_arguments pr) in
      after (main_options (pa_options parsed) (pa_error parsed) (initial_settings prog)) (\<lambda>st.
        if \<not> mode_known (set_options st) then Inl Died
        else case create_temporary_file os (pr_same_ids pr) (pr_getenv pr ''TMPDIR'') (pr_p_tmpdir pr) (Some prog) w of
          (None, w) \<Rightarrow> Inl Died
        | (Some temporary, w) \<Rightarrow>
            let s = initial_session st (choose_editor (pr_getenv pr) (set_editor st)) temporary w in
            case (case set_format_options st of
                    None \<Rightarrow> (True, s)
                  | Some o' \<Rightarrow> format_parse_options (g_format s) o' Lasting s) of
              (False, s) \<Rightarrow> Inl (Exit_Status 0)
            | (True, s) \<Rightarrow>
                after (run_session lib os (set_interactive st) (pa_operands parsed) (pr_lines pr) s)
                  (finish_main os)))"

end
