(* ===== verification/Format_Laws.thy ===== *)
theory Format_Laws
  imports Edit
begin

text \<open>
  The contract between \<open>edit_files\<close> and an edit format, \<open>struct _EditFormat\<close>: what the reader makes of
  the text the writer wrote, after the names in it were changed.  The three formats fulfil it, each for
  the names and options it can carry.
\<close>

text \<open>What a reader looks at besides the text.\<close>

definition layout :: "'w session \<Rightarrow> spec_heap \<times> nat \<times> do_options \<times> sc_options \<times> dc_options" where
  "layout s = (g_heap s, g_real_width s, g_destination_only s, g_single_column s, g_dual_column s)"

text \<open>The session with the names \<open>ns\<close>, whose text is what a user leaves who wants these names.\<close>

definition with_names :: "addr list \<Rightarrow> string list \<Rightarrow> 'w session \<Rightarrow> 'w session" where
  "with_names files ns s = s\<lparr>g_heap := rename_all files ns (g_heap s)\<rparr>"

locale edit_format_laws =
  fixes put :: "addr list \<Rightarrow> 'w session \<Rightarrow> (string \<times> 'w session) option"
    and get :: "instream \<Rightarrow> addr list \<Rightarrow> 'w session \<Rightarrow> (bool \<times> reader) option"
    and ready :: "'w session \<Rightarrow> addr list \<Rightarrow> string list \<Rightarrow> bool"
  assumes ready_layout: "layout s' = layout s \<Longrightarrow> ready s' files ns = ready s files ns"
    and put_layout: "layout s' = layout s \<Longrightarrow> map_option fst (put files s') = map_option fst (put files s)"
    and put_writes: "ready s files ns \<Longrightarrow> \<exists>t w. put files s = Some (t, s\<lparr>g_real_width := w\<rparr>)"
    and put_names: "ready s files ns \<Longrightarrow> \<exists>t s'. put files (with_names files ns s) = Some (t, s')"
    and get_put: "ready s files ns \<Longrightarrow> put files s = Some (t, s1) \<Longrightarrow> put files (with_names files ns s) = Some (t', s2) \<Longrightarrow>
      layout s' = layout s1 \<Longrightarrow>
      get \<lparr>in_text = t', in_error = False\<rparr> files s' =
        Some (True, \<lparr>rd_heap = rename_all files ns (g_heap s), rd_in = \<lparr>in_text = [], in_error = False\<rparr>, rd_warnings = []\<rparr>)"

text \<open>The names and options a format can carry.\<close>

definition names_ready :: "(char \<Rightarrow> bool) \<Rightarrow> 'w session \<Rightarrow> addr list \<Rightarrow> string list \<Rightarrow> bool" where
  "names_ready isprint s files ns \<longleftrightarrow> \<not> isprint NL \<and> distinct files \<and> length ns = length files \<and>
     (\<forall>n \<in> set ns. name_ok n) \<and>
     (\<forall>a \<in> set files. live (g_heap s) a \<and> name_ok (old_name (the_spec (g_heap s) a)) \<and>
        name_ok (new_name (the_spec (g_heap s) a)))"

fun format_ready :: "edit_format \<Rightarrow> (char \<Rightarrow> bool) \<Rightarrow> 'w session \<Rightarrow> addr list \<Rightarrow> string list \<Rightarrow> bool" where
  "format_ready Destination_Only_Format isprint s files ns \<longleftrightarrow> names_ready isprint s files ns"
| "format_ready Single_Column_Format isprint s files ns \<longleftrightarrow> names_ready isprint s files ns \<and>
     indicator_ok (sc_indicator1 (g_single_column s)) \<and> indicator_ok (sc_indicator2 (g_single_column s)) \<and>
     \<not> sc_swap (g_single_column s)"
| "format_ready Dual_Column_Format isprint s files ns \<longleftrightarrow> names_ready isprint s files ns \<and>
     dc_plain_options (g_dual_column s) \<and> \<not> isprint TAB \<and>
     (\<forall>a \<in> set files. dc_name_ok (old_name (the_spec (g_heap s) a)))"

lemma names_ready_renamed:
  assumes "names_ready isprint s files ns"
  shows "\<forall>a \<in> set files. live (rename_all files ns (g_heap s)) a"
    and "old_name (the_spec (rename_all files ns (g_heap s)) a) = old_name (the_spec (g_heap s) a)"
    and "map (\<lambda>a. new_name (the_spec (rename_all files ns (g_heap s)) a)) files = ns"
    and "\<forall>a \<in> set files. name_ok (new_name (the_spec (rename_all files ns (g_heap s)) a))"
proof -
  show live: "\<forall>a \<in> set files. live (rename_all files ns (g_heap s)) a"
    using assms by (simp add: names_ready_def rename_all_live)
  show "old_name (the_spec (rename_all files ns (g_heap s)) a) = old_name (the_spec (g_heap s) a)"
    by (rule rename_all_old_name)
  show names: "map (\<lambda>a. new_name (the_spec (rename_all files ns (g_heap s)) a)) files = ns"
    using assms by (intro rename_all_new_names) (simp_all add: names_ready_def)
  have "\<forall>n \<in> set (map (\<lambda>a. new_name (the_spec (rename_all files ns (g_heap s)) a)) files). name_ok n"
    unfolding names using assms by (simp add: names_ready_def)
  then show "\<forall>a \<in> set files. name_ok (new_name (the_spec (rename_all files ns (g_heap s)) a))" by simp
qed

interpretation destination_only: edit_format_laws
  "format_write Destination_Only_Format isprint" "format_read Destination_Only_Format"
  "format_ready Destination_Only_Format isprint" for isprint
proof (unfold_locales, goal_cases)
  case (1 s' s files ns)
  then show ?case by (simp add: layout_def names_ready_def)
next
  case (2 s' s files)
  then show ?case by (simp add: layout_def case_prod_beta option.map_comp comp_def map_option_bind)
next
  case (3 s files ns)
  then have "do_output isprint (g_destination_only s) (g_heap s) files =
      Some (do_file isprint (do_separate (g_destination_only s)) (map (\<lambda>a. new_name (the_spec (g_heap s) a)) files))"
    by (intro do_output_file) (simp add: names_ready_def)
  then show ?case by (auto intro!: exI [of _ "g_real_width s"])
next
  case (4 s files ns)
  then have "names_ready isprint s files ns" by simp
  note R = names_ready_renamed [OF this]
  have "do_output isprint (g_destination_only s) (rename_all files ns (g_heap s)) files =
      Some (do_file isprint (do_separate (g_destination_only s)) ns)"
    using do_output_file [of files "rename_all files ns (g_heap s)"] R by simp
  then show ?case by (simp add: with_names_def)
next
  case (5 s files ns t s1 t' s2 s')
  then have ready: "names_ready isprint s files ns" by simp
  note R = names_ready_renamed [OF this]
  have t': "t' = do_file isprint (do_separate (g_destination_only s)) ns"
    using 5(3) do_output_file [of files "rename_all files ns (g_heap s)" isprint "g_destination_only s"] R
    by (simp add: with_names_def)
  have same: "g_heap s' = g_heap s" "g_destination_only s' = g_destination_only s"
    using 5(2,4) by (auto simp: layout_def elim!: bind_eq_SomeE)
  let ?r = "\<lparr>rd_heap = g_heap s, rd_in = \<lparr>in_text = t', in_error = False\<rparr>, rd_warnings = []\<rparr>"
  have "do_input_loop (g_destination_only s) files ?r = Some (True, ?r\<lparr>rd_heap := rename_all files ns (rd_heap ?r),
      rd_in := (rd_in ?r)\<lparr>in_text := []\<rparr>\<rparr>)"
    by (rule do_input_loop_file [of isprint]) (use ready t' in \<open>auto simp: names_ready_def\<close>)
  then show ?case by (simp add: same do_input_def)
qed

interpretation single_column: edit_format_laws
  "format_write Single_Column_Format isprint" "format_read Single_Column_Format"
  "format_ready Single_Column_Format isprint" for isprint
proof (unfold_locales, goal_cases)
  case (1 s' s files ns)
  then show ?case by (simp add: layout_def names_ready_def)
next
  case (2 s' s files)
  then show ?case by (simp add: layout_def case_prod_beta option.map_comp comp_def map_option_bind)
next
  case (3 s files ns)
  then have "sc_output isprint (g_single_column s) (g_heap s) files =
      Some (sc_file isprint (g_single_column s) (name_pairs (g_heap s) files))"
    by (intro sc_output_file) (simp add: names_ready_def)
  then show ?case by (auto intro!: exI [of _ "g_real_width s"])
next
  case (4 s files ns)
  then have ready: "names_ready isprint s files ns" by simp
  note R = names_ready_renamed [OF this]
  have "sc_output isprint (g_single_column s) (rename_all files ns (g_heap s)) files =
      Some (sc_file isprint (g_single_column s) (name_pairs (rename_all files ns (g_heap s)) files))"
    using R ready by (intro sc_output_file) (simp add: names_ready_def)
  then show ?case by (simp add: with_names_def)
next
  case (5 s files ns t s1 t' s2 s')
  then have ready: "names_ready isprint s files ns" and opts: "indicator_ok (sc_indicator1 (g_single_column s))"
    "indicator_ok (sc_indicator2 (g_single_column s))" "\<not> sc_swap (g_single_column s)" by simp_all
  note R = names_ready_renamed [OF ready]
  let ?ps = "name_pairs (rename_all files ns (g_heap s)) files"
  have t': "t' = sc_file isprint (g_single_column s) ?ps"
    using 5(3) sc_output_file [of files "rename_all files ns (g_heap s)" isprint "g_single_column s"] R(1,2,4) ready
    by (simp add: with_names_def names_ready_def)
  have same: "g_heap s' = g_heap s" "g_single_column s' = g_single_column s"
    using 5(2,4) by (auto simp: layout_def elim!: bind_eq_SomeE)
  have ps: "map snd ?ps = ns" "map fst ?ps = map (\<lambda>a. old_name (the_spec (g_heap s) a)) files"
    using R(2,3) by (simp_all add: name_pairs_def comp_def)
  let ?r = "\<lparr>rd_heap = g_heap s, rd_in = \<lparr>in_text = t', in_error = False\<rparr>, rd_warnings = []\<rparr>"
  have "sc_input_loop (g_single_column s) files ?r = Some (True, ?r\<lparr>rd_heap := rename_all files (map snd ?ps) (rd_heap ?r),
      rd_in := (rd_in ?r)\<lparr>in_text := []\<rparr>\<rparr>)"
    by (rule sc_input_loop_file [of isprint, OF _ opts])
      (use ready t' ps(2) R(1,2,4) in \<open>auto simp: names_ready_def name_pairs_def\<close>)
  then show ?case by (simp add: same sc_input_def ps)
qed

text \<open>The width depends on the old names only, so that the text of the new names has the same columns.\<close>

lemma dc_prepare_width:
  assumes "\<not> dc_swap opts"
  shows "dc_prepare isprint opts h as w = Some (ps, w1) \<Longrightarrow> dc_prepare isprint opts h' as w = Some (ps', w2) \<Longrightarrow>
    \<forall>a \<in> set as. live h a \<and> live h' a \<and> old_name (the_spec h' a) = old_name (the_spec h a) \<Longrightarrow> w1 = w2"
proof (induction as arbitrary: w ps ps')
  case (Cons a as)
  have a: "live h a" "live h' a" "old_name (the_spec h' a) = old_name (the_spec h a)" using Cons.prems(3) by simp_all
  from Cons.prems(1) a obtain q o1 n1 ps1 where one: "quote_output_file isprint (old_name (the_spec h a)) = Some q"
    "quote_first_last opts w q = Some o1"
    "dc_prepare isprint opts h as (if dc_autowidth opts then max w (length o1 + 1) else w) = Some (ps1, w1)"
    by (auto simp: Let_def assms cong: if_cong elim!: bind_eq_SomeE)
  from Cons.prems(2) a one(1,2) obtain ps2 where
    "dc_prepare isprint opts h' as (if dc_autowidth opts then max w (length o1 + 1) else w) = Some (ps2, w2)"
    by (auto simp: Let_def assms cong: if_cong elim!: bind_eq_SomeE)
  from Cons.IH [OF one(3) this] Cons.prems(3) show ?case by simp
qed simp

lemma dc_text_exists:
  assumes "dc_plain_options opts" "\<not> isprint NL" "\<not> isprint TAB"
    and "\<forall>a \<in> set as. live h a \<and> dc_name_ok (old_name (the_spec h a)) \<and> name_ok (new_name (the_spec h a))"
    and "\<forall>a \<in> set as. live h' a \<and> old_name (the_spec h' a) = old_name (the_spec h a)"
  shows "\<exists>t w. dc_output isprint opts h as = Some (t, w) \<and> dc_input opts w h' \<lparr>in_text = t, in_error = False\<rparr> as =
      Some (True, \<lparr>rd_heap = rename_all as (map (\<lambda>a. new_name (the_spec h a)) as) h',
        rd_in = \<lparr>in_text = [], in_error = False\<rparr>, rd_warnings = []\<rparr>)"
  by (rule dc_roundtrip_lemma [OF assms]) blast

interpretation dual_column: edit_format_laws
  "format_write Dual_Column_Format isprint" "format_read Dual_Column_Format"
  "format_ready Dual_Column_Format isprint" for isprint
proof (unfold_locales, goal_cases)
  case (1 s' s files ns)
  then show ?case by (simp add: layout_def names_ready_def)
next
  case (2 s' s files)
  then show ?case by (simp add: layout_def case_prod_beta option.map_comp comp_def map_option_bind)
next
  case (3 s files ns)
  then obtain t w where "dc_output isprint (g_dual_column s) (g_heap s) files = Some (t, w)"
    using dc_text_exists [of "g_dual_column s" isprint files "g_heap s" "g_heap s"] by (auto simp: names_ready_def)
  then show ?case by auto
next
  case (4 s files ns)
  then have ready: "names_ready isprint s files ns" by simp
  note R = names_ready_renamed [OF this]
  from 4 obtain t w where "dc_output isprint (g_dual_column s) (rename_all files ns (g_heap s)) files = Some (t, w)"
    using dc_text_exists [of "g_dual_column s" isprint files "rename_all files ns (g_heap s)" "rename_all files ns (g_heap s)"]
      R(1,2,4) by (auto simp: names_ready_def)
  then show ?case by (simp add: with_names_def)
next
  case (5 s files ns t s1 t' s2 s')
  then have ready: "names_ready isprint s files ns" and opts: "dc_plain_options (g_dual_column s)" "\<not> isprint TAB"
    and old: "\<forall>a \<in> set files. dc_name_ok (old_name (the_spec (g_heap s) a))" by simp_all
  note R = names_ready_renamed [OF ready]
  let ?h = "rename_all files ns (g_heap s)" and ?opts = "g_dual_column s"
  have names: "\<forall>a \<in> set files. live ?h a \<and> dc_name_ok (old_name (the_spec ?h a)) \<and> name_ok (new_name (the_spec ?h a))"
    "\<forall>a \<in> set files. live (g_heap s) a \<and> old_name (the_spec (g_heap s) a) = old_name (the_spec ?h a)"
    using R(1,2,4) old ready by (simp_all add: names_ready_def)
  from dc_text_exists [of ?opts isprint, OF opts(1) _ opts(2) names] ready obtain u w where
    out: "dc_output isprint ?opts ?h files = Some (u, w)"
    and back_: "dc_input ?opts w (g_heap s) \<lparr>in_text = u, in_error = False\<rparr> files =
      Some (True, \<lparr>rd_heap = rename_all files (map (\<lambda>a. new_name (the_spec ?h a)) files) (g_heap s),
        rd_in = \<lparr>in_text = [], in_error = False\<rparr>, rd_warnings = []\<rparr>)"
    unfolding names_ready_def by blast
  have t': "t' = u" using 5(3) out by (simp add: with_names_def)
  obtain w1 where w1: "dc_output isprint ?opts (g_heap s) files = Some (t, w1)" "s1 = s\<lparr>g_real_width := w1\<rparr>"
    using 5(2) by (auto elim!: bind_eq_SomeE)
  have same: "g_heap s' = g_heap s" "g_dual_column s' = ?opts" "g_real_width s' = w1"
    using 5(4) w1(2) by (simp_all add: layout_def)
  obtain ps1 ps2 where "dc_prepare isprint ?opts (g_heap s) files (unat (dc_width ?opts)) = Some (ps1, w1)"
    "dc_prepare isprint ?opts ?h files (unat (dc_width ?opts)) = Some (ps2, w)"
    using w1(1) out by (auto simp: dc_output_def elim!: bind_eq_SomeE)
  moreover have "\<not> dc_swap ?opts" using opts(1) by (simp add: dc_plain_options_def)
  moreover have "\<forall>a \<in> set files. live (g_heap s) a \<and> live ?h a \<and> old_name (the_spec ?h a) = old_name (the_spec (g_heap s) a)"
    using R(1,2) ready by (simp add: names_ready_def)
  ultimately have "w = w1" using dc_prepare_width by metis
  then show ?case using back_ by (simp add: same t' R(3))
qed

end
