(* ===== verification/Composition.thy ===== *)
theory Composition
  imports Qcmd Safety Format_Laws
begin

text \<open>
  The parts of a session put together: \<open>apply_plan\<close> on one world simulates \<open>apply_plan\<close> on another, a
  list of files that was edited is a fresh list of renames, and a run of \<open>qmv\<close> without commands is
  listing, editing, planning and applying.
\<close>

subsection \<open>Simulation of systems\<close>

text \<open>
  Two systems that do the same for \<open>mv\<close> on related worlds, and the states of the loop over them.
\<close>

definition simulates :: "('v \<Rightarrow> 'w \<Rightarrow> bool) \<Rightarrow> 'v system \<Rightarrow> 'w system \<Rightarrow> bool" where
  "simulates R sys1 sys2 \<longleftrightarrow>
     (\<forall>v w old new. R v w \<longrightarrow>
        fst (exec_command sys1 ''mv'' [''mv'', ''--'', old, new] v) =
          fst (exec_command sys2 ''mv'' [''mv'', ''--'', old, new] w) \<and>
        R (snd (exec_command sys1 ''mv'' [''mv'', ''--'', old, new] v))
          (snd (exec_command sys2 ''mv'' [''mv'', ''--'', old, new] w))) \<and>
     (\<forall>v w. R v w \<longrightarrow> fst (to_work_directory sys1 v) = fst (to_work_directory sys2 w) \<and>
        R (snd (to_work_directory sys1 v)) (snd (to_work_directory sys2 w))) \<and>
     (\<forall>v w. R v w \<longrightarrow> fst (from_work_directory sys1 v) = fst (from_work_directory sys2 w) \<and>
        R (snd (from_work_directory sys1 v)) (snd (from_work_directory sys2 w)))"

definition run_rel :: "('v \<Rightarrow> 'w \<Rightarrow> bool) \<Rightarrow> 'v run \<Rightarrow> 'w run \<Rightarrow> bool" where
  "run_rel R s t \<longleftrightarrow> heap s = heap t \<and> kept s = kept t \<and> work_files s = work_files t \<and>
     failed s = failed t \<and> printed s = printed t \<and> R (world s) (world t)"

lemma run_spec_sim:
  assumes "simulates R sys1 sys2" "runs_mv opts" "R v w"
  shows "fst (run_spec sys1 opts spec v) = fst (run_spec sys2 opts spec w) \<and>
    R (snd (run_spec sys1 opts spec v)) (snd (run_spec sys2 opts spec w))"
proof -
  let ?args = "[''mv'', ''--'', old_name spec, new_name spec]"
  have "fst (exec_command sys1 ''mv'' ?args v) = fst (exec_command sys2 ''mv'' ?args w)"
    "R (snd (exec_command sys1 ''mv'' ?args v)) (snd (exec_command sys2 ''mv'' ?args w))"
    using assms(1,3) by (simp_all add: simulates_def)
  then show ?thesis
    using assms(2)
    by (simp add: run_spec_def perform_command_def runs_mv_def case_prod_beta Let_def split: option.splits)
qed

lemma apply_loop_sim:
  assumes "simulates R sys1 sys2" "runs_mv opts"
  shows "run_rel R s t \<Longrightarrow> rel_option (run_rel R) (apply_loop sys1 opts as s) (apply_loop sys2 opts as t)"
proof (induction as arbitrary: s t)
  case (Cons a as)
  note rel = Cons.prems [unfolded run_rel_def]
  show ?case
  proof (cases "spec_at (heap s) a")
    case None
    then show ?thesis using rel by simp
  next
    case (Some spec)
    let ?name = "\<lambda>s. say (Msg_Names (old_name spec) (new_name spec)) s"
    have named: "run_rel R (?name s) (?name t)" using rel by (simp add: run_rel_def say_def)
    have keeps: "run_rel R (keep a s) (keep a t)"
      "run_rel R (keep a (say Msg_Skipping (?name s))) (keep a (say Msg_Skipping (?name t)))"
      using rel by (simp_all add: run_rel_def say_def keep_def)
    obtain ok v ok' w where pairs: "run_spec sys1 opts spec (world s) = (ok, v)"
      "run_spec sys2 opts spec (world t) = (ok', w)" by fastforce
    then have run: "run_spec sys1 opts spec (world s) = (ok, v)"
      "run_spec sys2 opts spec (world t) = (ok, w)" "R v w"
      using run_spec_sim [OF assms, of "world s" "world t" spec] rel by simp_all
    have finish: "rel_option (run_rel R) (finish_spec a ((?name s)\<lparr>world := v\<rparr>)) (finish_spec a ((?name t)\<lparr>world := w\<rparr>))"
      using rel run(3)
      by (cases "free_file_spec a (heap s)") (simp_all add: finish_spec_def run_rel_def say_def)
    have fail: "run_rel R (keep a ((?name s)\<lparr>world := v, failed := True\<rparr>))
        (keep a ((?name t)\<lparr>world := w, failed := True\<rparr>))"
      using rel run(3) by (simp add: run_rel_def say_def keep_def)
    have worlds: "world (?name s) = world s" "world (?name t) = world t" by (simp_all add: say_def)
    show ?thesis
    proof (cases "(status spec \<noteq> STATUS_APPLY \<and> status spec \<noteq> STATUS_CIRCULAR) \<or> prev_spec spec \<noteq> None \<or> \<not> ok")
      case True
      then show ?thesis
        using Some rel run(1,2) worlds Cons.IH [OF keeps(1)] Cons.IH [OF keeps(2)] Cons.IH [OF fail]
        by (auto simp: Let_def)
    next
      case False
      then have "apply_loop sys1 opts (a # as) s =
          Option.bind (finish_spec a ((?name s)\<lparr>world := v\<rparr>)) (apply_loop sys1 opts as)"
        "apply_loop sys2 opts (a # as) t =
          Option.bind (finish_spec a ((?name t)\<lparr>world := w\<rparr>)) (apply_loop sys2 opts as)"
        using Some rel run(1,2) worlds by (auto simp: Let_def)
      then show ?thesis using finish Cons.IH
        by (cases "finish_spec a ((?name s)\<lparr>world := v\<rparr>)"; cases "finish_spec a ((?name t)\<lparr>world := w\<rparr>)") auto
    qed
  qed
qed simp

definition outcome_rel :: "('v \<Rightarrow> 'w \<Rightarrow> bool) \<Rightarrow> 'v outcome \<Rightarrow> 'w outcome \<Rightarrow> bool" where
  "outcome_rel R o1 o2 \<longleftrightarrow> out_heap o1 = out_heap o2 \<and> out_plan o1 = out_plan o2 \<and>
     out_work o1 = out_work o2 \<and> out_messages o1 = out_messages o2 \<and> R (out_world o1) (out_world o2)"

lemma apply_plan_sim:
  assumes sim: "simulates R sys1 sys2" and mv: "runs_mv opts" and R: "R v w"
  shows "rel_option (rel_prod (=) (outcome_rel R)) (Apply.apply_plan sys1 opts h plan work v)
    (Apply.apply_plan sys2 opts h plan work w)"
proof -
  define m where "m = (if plan_error plan \<noteq> [] then [Msg_Contains_Errors] else [])"
  define s where "s = \<lparr>heap = h, kept = [], work_files = work, world = v, failed = False, printed = m\<rparr>"
  define t where "t = \<lparr>heap = h, kept = [], work_files = work, world = w, failed = False, printed = m\<rparr>"
  have start: "Apply.apply_plan sys1 opts h plan work v =
     (if plan_ok plan = [] then Some (True, outcome_of plan (say Msg_Plan_Empty s))
      else case to_work_directory sys1 v of
        (False, w1) \<Rightarrow> Some (False, outcome_of plan (s\<lparr>kept := plan_ok plan, world := w1\<rparr>))
      | (True, w1) \<Rightarrow> do {
          s1 \<leftarrow> apply_loop sys1 opts (plan_ok plan) (s\<lparr>world := w1\<rparr>);
          let s2 = (if failed s1 then say Msg_Some_Failed s1 else s1);
          let (left, w2) = from_work_directory sys1 (world s2);
          Some (left \<and> \<not> failed s2, outcome_of plan (s2\<lparr>world := w2\<rparr>)) })"
    "Apply.apply_plan sys2 opts h plan work w =
     (if plan_ok plan = [] then Some (True, outcome_of plan (say Msg_Plan_Empty t))
      else case to_work_directory sys2 w of
        (False, w1) \<Rightarrow> Some (False, outcome_of plan (t\<lparr>kept := plan_ok plan, world := w1\<rparr>))
      | (True, w1) \<Rightarrow> do {
          s1 \<leftarrow> apply_loop sys2 opts (plan_ok plan) (t\<lparr>world := w1\<rparr>);
          let s2 = (if failed s1 then say Msg_Some_Failed s1 else s1);
          let (left, w2) = from_work_directory sys2 (world s2);
          Some (left \<and> \<not> failed s2, outcome_of plan (s2\<lparr>world := w2\<rparr>)) })"
    by (simp_all only: apply_plan_def s_def t_def m_def Let_def)
  obtain b v1 b' w1 where dirs: "to_work_directory sys1 v = (b, v1)" "to_work_directory sys2 w = (b', w1)"
    by fastforce
  have "fst (to_work_directory sys1 v) = fst (to_work_directory sys2 w)"
    "R (snd (to_work_directory sys1 v)) (snd (to_work_directory sys2 w))"
    using sim R unfolding simulates_def by blast+
  then have to: "to_work_directory sys1 v = (b, v1)" "to_work_directory sys2 w = (b, w1)" "R v1 w1"
    using dirs by simp_all
  have "run_rel R (s\<lparr>world := v1\<rparr>) (t\<lparr>world := w1\<rparr>)" using to(3) by (simp add: run_rel_def s_def t_def)
  note loop = apply_loop_sim [OF sim mv this, of "plan_ok plan"]
  show ?thesis
  proof (cases "plan_ok plan = [] \<or> \<not> b")
    case True
    then show ?thesis
      using to R unfolding start by (auto simp: outcome_rel_def outcome_of_def say_def s_def t_def)
  next
    case False
    show ?thesis
    proof (cases "apply_loop sys1 opts (plan_ok plan) (s\<lparr>world := v1\<rparr>)")
      case None
      then show ?thesis using False to loop unfolding start by simp
    next
      case (Some s1)
      then obtain t1 where t1: "apply_loop sys2 opts (plan_ok plan) (t\<lparr>world := w1\<rparr>) = Some t1" "run_rel R s1 t1"
        using loop by (auto simp: option_rel_Some1)
      let ?s2 = "if failed s1 then say Msg_Some_Failed s1 else s1"
      let ?t2 = "if failed t1 then say Msg_Some_Failed t1 else t1"
      have rel: "run_rel R ?s2 ?t2" using t1(2) by (simp add: run_rel_def say_def)
      obtain l v2 l' w2 where home: "from_work_directory sys1 (world ?s2) = (l, v2)"
        "from_work_directory sys2 (world ?t2) = (l', w2)" by fastforce
      have "R (world ?s2) (world ?t2)" using rel by (simp add: run_rel_def)
      then have "fst (from_work_directory sys1 (world ?s2)) = fst (from_work_directory sys2 (world ?t2))"
        "R (snd (from_work_directory sys1 (world ?s2))) (snd (from_work_directory sys2 (world ?t2)))"
        using sim unfolding simulates_def by blast+
      then have "from_work_directory sys2 (world ?t2) = (l, w2)" "R v2 w2" using home by simp_all
      note this(1) this(2) home(1)
      then show ?thesis
        using False to Some t1(1) rel unfolding start
        by (simp add: run_rel_def outcome_rel_def outcome_of_def Let_def)
    qed
  qed
qed

subsection \<open>Simulated runs\<close>

lemma apply_loop_simulated:
  assumes "simulate opts"
  shows "apply_loop sys opts as s = Some s' \<Longrightarrow> world s' = world s"
proof (induction as arbitrary: s)
  case (Cons a as)
  have step: "finish_spec a r = Some r' \<Longrightarrow> world r' = world r" for r r'
    by (auto simp: finish_spec_def elim!: bind_eq_SomeE)
  show ?case
    using Cons.prems assms
    by (auto simp: Let_def run_spec_def say_def keep_def elim!: bind_eq_SomeE split: if_splits
        dest!: Cons.IH step)
qed simp

lemma apply_plan_simulated:
  assumes "simulate opts" "\<forall>w. view (snd (to_work_directory sys w)) = view w"
    "\<forall>w. view (snd (from_work_directory sys w)) = view w"
    and run: "Apply.apply_plan sys opts h plan work w = Some (ok, out)"
  shows "view (out_world out) = view w"
proof (cases "plan_ok plan = [] \<or> \<not> fst (to_work_directory sys w)")
  case True
  then show ?thesis
    using run assms(2) by (cases "to_work_directory sys w")
      (auto simp: apply_plan_def Let_def outcome_of_def say_def split: if_splits dest: spec [of _ w])
next
  case False
  obtain w1 where w1: "to_work_directory sys w = (True, w1)" using False by (cases "to_work_directory sys w") auto
  then have "view w1 = view w" using assms(2) by (metis snd_conv)
  then show ?thesis
    using run False w1 assms(3)
    by (auto simp: apply_plan_def Let_def outcome_of_def say_def case_prod_beta elim!: bind_eq_SomeE
        dest!: apply_loop_simulated [OF assms(1)] split: if_splits)
qed

subsection \<open>An edited list\<close>

lemma rename_all_frame:
  "status (the_spec (rename_all as ns h) a) = status (the_spec h a)"
  "prev_spec (the_spec (rename_all as ns h) a) = prev_spec (the_spec h a)"
  "next_spec (the_spec (rename_all as ns h) a) = next_spec (the_spec h a)"
  by (induction as ns h rule: rename_all.induct) auto

lemma rename_all_heap_ok: "heap_ok h \<Longrightarrow> \<forall>a \<in> set as. live h a \<Longrightarrow> heap_ok (rename_all as ns h)"
  by (induction as ns h rule: rename_all.induct) (auto intro: heap_ok_upd)

text \<open>The list of files, as it was read from \<open>ls\<close> or a file, with any new names.\<close>

lemma edited_list_fresh:
  assumes "list_ok h files"
  shows "fresh_renames (rename_all files ns h) files"
proof -
  have live: "live h a" if "a \<in> set files" for a using assms that by (simp add: list_ok_def listed_def)
  have names: "distinct (map (\<lambda>a. old_name (the_spec h a)) files)" using assms by (simp add: list_ok_def)
  have "inj_on (\<lambda>a. old_name (the_spec h a)) (set files)" "distinct files"
    using names by (simp_all add: distinct_map)
  moreover have "heap_ok (rename_all files ns h)"
    using assms live by (intro rename_all_heap_ok) (auto simp: list_ok_def)
  moreover have "live (rename_all files ns h) a \<and> is_unchecked (rename_all files ns h) a \<and>
      prevp (rename_all files ns h) a = None \<and> nextp (rename_all files ns h) a = None" if "a \<in> set files" for a
    using that assms live by (simp add: rename_all_live rename_all_frame list_ok_def listed_def)
  ultimately show ?thesis by (simp add: fresh_renames_def rename_all_old_name)
qed

subsection \<open>Showing a plan\<close>

definition is_names :: "plan_notice \<Rightarrow> bool" where
  "is_names n \<longleftrightarrow> (\<exists>old new. n = Names old new)"

lemma display_list_shows:
  assumes "\<forall>a \<in> set as. live h a \<and> (\<exists>n. ps (status (the_spec h a)) = Inr n)"
    and "\<forall>st n. ps st = Inr n \<longrightarrow> \<not> is_names n"
    and "\<forall>l. last_spec = Some l \<longrightarrow> (\<exists>n. ps (status l) = Inr n)"
  shows "\<exists>ns. display_list ps h last_spec as = Inr ns \<and>
    filter is_names ns = map (\<lambda>a. display_names (the_spec h a)) as"
  using assms(1,3)
proof (induction as arbitrary: last_spec)
  case Nil
  then show ?case
    using assms(2) by (cases last_spec) auto
next
  case (Cons a as)
  let ?spec = "the_spec h a"
  from Cons.prems(1) obtain n where n: "live h a" "ps (status ?spec) = Inr n" by auto
  from Cons.IH [of "Some ?spec"] Cons.prems(1) n(2) obtain ns where
    ns: "display_list ps h (Some ?spec) as = Inr ns" "filter is_names ns = map (\<lambda>a. display_names (the_spec h a)) as"
    by auto
  have "is_names (display_names ?spec)" "\<not> is_names n" using assms(2) n(2) by (auto simp: is_names_def display_names_def)
  then show ?case
    using n ns by (cases last_spec) auto
qed

lemma print_status_names:
  "print_error_status st = Inr n \<Longrightarrow> \<not> is_names n" "print_ok_status prog st = Inr n \<Longrightarrow> \<not> is_names n"
  by (auto simp: is_names_def print_ok_status_def split: file_spec_status.splits if_splits elim: print_error_status.elims)

lemma planned_printable: "planned h a \<Longrightarrow> \<exists>n. print_ok_status prog (status (the_spec h a)) = Inr n"
  by (auto simp: planned_def print_ok_status_def)

lemma error_printable:
  "status (the_spec h a) \<in> {STATUS_DUPLICATE, STATUS_OLD_MISSING, STATUS_NEW_EXISTS} \<Longrightarrow>
   \<exists>n. print_error_status (status (the_spec h a)) = Inr n"
  by auto

lemma display_plan_shows:
  assumes "\<forall>a \<in> set (plan_error p). live h a \<and>
      status (the_spec h a) \<in> {STATUS_DUPLICATE, STATUS_OLD_MISSING, STATUS_NEW_EXISTS}"
    and "\<forall>a \<in> set (plan_ok p). live h a \<and> planned h a"
  shows "\<exists>ns. display_plan prog h p = Inr ns \<and>
    filter is_names ns = map (\<lambda>a. display_names (the_spec h a)) (plan_error p @ plan_ok p)"
proof -
  from display_list_shows [of "plan_error p" h print_error_status None] assms(1) print_status_names(1) error_printable
  obtain e where e: "display_list print_error_status h None (plan_error p) = Inr e"
    "filter is_names e = map (\<lambda>a. display_names (the_spec h a)) (plan_error p)" by blast
  from display_list_shows [of "plan_ok p" h "print_ok_status prog" None] assms(2) print_status_names(2) planned_printable
  obtain k where k: "display_list (print_ok_status prog) h None (plan_ok p) = Inr k"
    "filter is_names k = map (\<lambda>a. display_names (the_spec h a)) (plan_ok p)" by blast
  show ?thesis using e k by (auto simp: display_plan_def is_names_def)
qed

lemma qmv_plan_displays:
  assumes "qmv_plan ty E h R h' p"
  shows "\<exists>ns. display_plan prog h' p = Inr ns \<and>
    filter is_names ns = map (\<lambda>a. display_names (the_spec h' a)) (plan_error p @ plan_ok p)"
  by (rule display_plan_shows) (use assms in \<open>auto simp: qmv_plan_def\<close>)

subsection \<open>Editing keeps the rest\<close>

text \<open>What the commands of a session leave alone while they list, edit and read names.\<close>

definition same_frame :: "'w session \<Rightarrow> 'w session \<Rightarrow> bool" where
  "same_frame s s' \<longleftrightarrow> g_options s' = g_options s \<and> g_work_files s' = g_work_files s \<and>
     g_work_directory s' = g_work_directory s \<and> g_plan s' = g_plan s \<and> g_old_dir s' = g_old_dir s"

lemma same_frame_simps [simp]:
  "same_frame s s" "same_frame s (notify n s') \<longleftrightarrow> same_frame s s'" "same_frame s (notify_all ns s') \<longleftrightarrow> same_frame s s'"
  "same_frame s (s'\<lparr>g_world := w\<rparr>) \<longleftrightarrow> same_frame s s'" "same_frame s (s'\<lparr>g_heap := h\<rparr>) \<longleftrightarrow> same_frame s s'"
  "same_frame s (s'\<lparr>g_edit_file_list := l\<rparr>) \<longleftrightarrow> same_frame s s'"
  "same_frame s (s'\<lparr>g_accept_reedit := b\<rparr>) \<longleftrightarrow> same_frame s s'"
  "same_frame s (s'\<lparr>g_real_width := r\<rparr>) \<longleftrightarrow> same_frame s s'"
  "same_frame (s\<lparr>g_world := w\<rparr>) s' \<longleftrightarrow> same_frame s s'"
  "same_frame (s\<lparr>g_accept_reedit := b\<rparr>) s' \<longleftrightarrow> same_frame s s'"
  "same_frame (s\<lparr>g_edit_file_list := l\<rparr>) s' \<longleftrightarrow> same_frame s s'"
  by (simp_all add: same_frame_def notify_def notify_all_def)

lemma same_frame_trans: "same_frame s s' \<Longrightarrow> same_frame s' s'' \<Longrightarrow> same_frame s s''"
  by (simp add: same_frame_def)

lemma format_output_frame: "format_output fmt isprint files s = Some (t, s') \<Longrightarrow> same_frame s s'"
  by (cases fmt) (auto simp: format_output_def split: if_splits elim!: bind_eq_SomeE)

lemma format_input_frame: "format_input fmt ins files s = Some (ok, s') \<Longrightarrow> same_frame s s'"
  by (auto simp: format_input_def split: if_splits elim!: bind_eq_SomeE)

lemma write_edit_file_frame: "write_edit_file os s = Some (ok, s') \<Longrightarrow> same_frame s s'"
  by (auto simp: write_edit_file_def on_world_fst_snd elim!: bind_eq_SomeE split: bool.splits
      dest!: format_output_frame)

lemma prepare_edit_frame: "prepare_edit os all s = Some (ok, s') \<Longrightarrow> same_frame s s'"
  by (auto simp: prepare_edit_def Let_def split: if_splits dest!: write_edit_file_frame)

lemma read_edit_file_frame: "read_edit_file os s = Some (ok, s') \<Longrightarrow> same_frame s s'"
  by (auto simp: read_edit_file_def on_world_fst_snd Let_def elim!: bind_eq_SomeE
      split: option.splits if_splits dest!: format_input_frame)

lemma run_editor_frame: "run_editor os s = Some (ok, s') \<Longrightarrow> same_frame s s'"
  by (auto simp: run_editor_def on_world_fst_snd split: if_splits dest!: read_edit_file_frame)

lemma edit_files_frame: "edit_files os all force s = Some (ok, s') \<Longrightarrow> same_frame s s'"
  by (auto simp: edit_files_def elim!: bind_eq_SomeE split: if_splits
      dest!: prepare_edit_frame run_editor_frame intro: same_frame_trans)

subsection \<open>Editing assigns names\<close>

text \<open>The edit file can be written, and the editor succeeds and leaves a text in it.\<close>

definition editor_leaves :: "'w os \<Rightarrow> 'w session \<Rightarrow> string \<Rightarrow> bool" where
  "editor_leaves os s txt \<longleftrightarrow>
     (\<forall>w. fst (os_fopen_write os (g_edit_filename s) w)) \<and>
     (\<forall>t w. fst (os_fclose_write os (g_edit_filename s) t w)) \<and>
     (\<forall>w. let r = os_system os (g_editor_program s @ '' '' @ g_edit_filename s) w in
        fst r = 0 \<and> fst (os_fopen_read os (g_edit_filename s) (snd r)) = Some \<lparr>in_text = txt, in_error = False\<rparr>)"

lemma reset_status_unchecked:
  "\<forall>a \<in> set as. live h a \<and> is_unchecked h a \<Longrightarrow> reset_status as h = Some h"
proof (induction as)
  case (Cons a as)
  then obtain spec where "cells h a = Some spec" "status spec = STATUS_UNCHECKED" by (auto simp: live_def the_spec_def)
  then have "set_status a STATUS_UNCHECKED h = Some h" by (auto simp: modify_spec_def fun_upd_idem)
  then show ?case using Cons by simp
qed simp

text \<open>Writing, editing and reading the edit file leave the other files alone.\<close>

definition editing_keeps :: "'w os \<Rightarrow> ('w \<Rightarrow> 'v) \<Rightarrow> bool" where
  "editing_keeps os view \<longleftrightarrow>
     (\<forall>f w. view (snd (os_fopen_write os f w)) = view w) \<and>
     (\<forall>f t w. view (snd (os_fclose_write os f t w)) = view w) \<and>
     (\<forall>cmd w. view (snd (os_system os cmd w)) = view w) \<and>
     (\<forall>f w. view (snd (os_fopen_read os f w)) = view w) \<and>
     (\<forall>f w. view (snd (os_fclose_read os f w)) = view w)"

lemma editing_keepsD:
  assumes "editing_keeps os view"
  shows "view (snd (os_fopen_write os f w)) = view w" "view (snd (os_fclose_write os f t w)) = view w"
    "view (snd (os_system os cmd w)) = view w" "view (snd (os_fopen_read os f w)) = view w"
    "view (snd (os_fclose_read os f w)) = view w"
  using assms by (simp_all add: editing_keeps_def)

lemma format_output_world: "format_output fmt isprint files s = Some (t, s') \<Longrightarrow> g_world s' = g_world s"
  by (cases fmt) (auto simp: format_output_def split: if_splits elim!: bind_eq_SomeE)

lemma format_input_world: "format_input fmt ins files s = Some (ok, s') \<Longrightarrow> g_world s' = g_world s"
  by (auto simp: format_input_def split: if_splits elim!: bind_eq_SomeE)

lemma edit_files_keeps:
  assumes "editing_keeps os view" "edit_files os all force s = Some (ok, s')"
  shows "view (g_world s') = view (g_world s)"
proof -
  note keeps = editing_keepsD [OF assms(1)]
  have put: "write_edit_file os s = Some (ok, s') \<Longrightarrow> view (g_world s') = view (g_world s)" for s ok s'
    using keeps(1,2) by (auto simp: write_edit_file_def on_world_fst_snd elim!: bind_eq_SomeE split: bool.splits
        dest!: format_output_world)
  have prep: "prepare_edit os all s = Some (ok, s') \<Longrightarrow> view (g_world s') = view (g_world s)" for s ok s'
    by (auto simp: prepare_edit_def Let_def split: if_splits dest!: put)
  have got: "read_edit_file os s = Some (ok, s') \<Longrightarrow> view (g_world s') = view (g_world s)" for s ok s'
    using keeps(4,5) by (auto simp: read_edit_file_def on_world_fst_snd Let_def elim!: bind_eq_SomeE
        split: option.splits if_splits dest!: format_input_world)
  have run: "run_editor os s = Some (ok, s') \<Longrightarrow> view (g_world s') = view (g_world s)" for s ok s'
    using keeps(3) by (auto simp: run_editor_def on_world_fst_snd split: if_splits dest!: got)
  show ?thesis
    using assms(2) by (auto simp: edit_files_def elim!: bind_eq_SomeE split: if_splits dest!: prep run)
qed

text \<open>For any format that fulfils the contract.\<close>

context edit_format_laws
begin

lemma edit_assigns:
  assumes ok: "list_ok (g_heap s) (g_work_files s)" "g_work_files s \<noteq> []"
    and start: "\<not> g_accept_reedit s" "g_indicator s (g_format s) = Lasting"
    and fmt: "\<And>files. format_write (g_format s) (os_isprint os) files = put files"
      "\<And>ins files. format_read (g_format s) ins files = get ins files"
    and ready: "ready s (g_work_files s) ns"
    and wanted: "map_option fst (put (g_work_files s) (with_names (g_work_files s) ns s)) = Some t"
    and editor: "editor_leaves os s t"
  shows "\<exists>s'. edit_files os True False s = Some (True, s') \<and>
    g_heap s' = rename_all (g_work_files s) ns (g_heap s) \<and> \<not> g_accept_reedit s'"
proof -
  let ?files = "g_work_files s" and ?h = "g_heap s" and ?f = "g_edit_filename s"
  let ?h' = "rename_all ?files ns ?h"
  have listed: "live ?h a \<and> is_unchecked ?h a" if "a \<in> set ?files" for a
    using ok(1) that by (simp add: list_ok_def listed_def)
  obtain w1 where w1: "os_fopen_write os ?f (g_world s) = (True, w1)"
    using editor by (cases "os_fopen_write os ?f (g_world s)") (simp add: editor_leaves_def, metis fst_conv)
  define s1 where "s1 = s\<lparr>g_accept_reedit := False, g_edit_file_list := ?files, g_world := w1\<rparr>"
  have s1: "layout s1 = layout s" "g_heap s1 = ?h" by (simp_all add: s1_def layout_def)
  then have ready1: "ready s1 ?files ns" using ready ready_layout by metis
  obtain t0 wd where out: "put ?files s1 = Some (t0, s1\<lparr>g_real_width := wd\<rparr>)" using put_writes [OF ready1] by blast
  have "layout (with_names ?files ns s1) = layout (with_names ?files ns s)" by (simp add: with_names_def layout_def s1_def)
  from put_layout [OF this] wanted obtain s2 where txt1: "put ?files (with_names ?files ns s1) = Some (t, s2)"
    by (metis (no_types, lifting) map_option_eq_Some prod.collapse)
  obtain w2 where w2: "os_fclose_write os ?f t0 w1 = (True, w2)"
    using editor by (cases "os_fclose_write os ?f t0 w1") (simp add: editor_leaves_def, metis fst_conv)
  define s3 where "s3 = s1\<lparr>g_real_width := wd, g_world := w2, g_accept_reedit := True\<rparr>"
  have prep: "prepare_edit os True s = Some (True, s3)"
    using ok(2) start(2) out w1 w2
    by (simp add: prepare_edit_def files_to_edit_def write_edit_file_def on_world_fst_snd format_output_def fmt s1_def s3_def)
  obtain w3 where w3: "os_system os (g_editor_program s @ '' '' @ ?f) w2 = (0, w3)"
    "fst (os_fopen_read os ?f w3) = Some \<lparr>in_text = t, in_error = False\<rparr>"
    using editor by (cases "os_system os (g_editor_program s @ '' '' @ ?f) w2")
      (simp add: editor_leaves_def Let_def, metis fst_conv snd_conv)
  define s4 where "s4 = s3\<lparr>g_world := snd (os_fopen_read os ?f w3)\<rparr>"
  have "layout s4 = layout (s1\<lparr>g_real_width := wd\<rparr>)" by (simp add: s4_def s3_def s1_def layout_def)
  from get_put [OF ready1 out txt1 this] s1(2) have read: "get \<lparr>in_text = t, in_error = False\<rparr> ?files s4 =
      Some (True, \<lparr>rd_heap = ?h', rd_in = \<lparr>in_text = [], in_error = False\<rparr>, rd_warnings = []\<rparr>)" by simp
  have reset: "reset_status ?files ?h' = Some ?h'"
    using listed by (intro reset_status_unchecked) (simp add: rename_all_live rename_all_frame)
  have s4: "g_edit_file_list s4 = ?files" "g_format s4 = g_format s" "g_indicator s4 = g_indicator s" "g_edit_filename s4 = ?f"
    by (simp_all add: s4_def s3_def s1_def)
  have input: "format_input (g_format s4) \<lparr>in_text = t, in_error = False\<rparr> ?files s4 =
      Some (True, notify_all [] (s4\<lparr>g_heap := ?h'\<rparr>))"
    by (simp add: format_input_def s4 start(2) fmt read)
  have "\<exists>s'. read_edit_file os (s3\<lparr>g_world := w3\<rparr>) = Some (True, s') \<and> g_heap s' = ?h' \<and> \<not> g_accept_reedit s'"
  proof -
    have f: "g_edit_filename (s3\<lparr>g_world := w3\<rparr>) = ?f" by (simp add: s3_def s1_def)
    have open_: "on_world (os_fopen_read os ?f) (s3\<lparr>g_world := w3\<rparr>) = (Some \<lparr>in_text = t, in_error = False\<rparr>, s4)"
      using w3(2) by (simp add: on_world_fst_snd s4_def)
    have list: "g_edit_file_list (notify_all [] (s4\<lparr>g_heap := ?h'\<rparr>)) = ?files" using s4(1) by (simp add: notify_all_def)
    show ?thesis
      unfolding read_edit_file_def f open_ using reset s4(1)
      by (simp add: input on_world_fst_snd Let_def notify_all_def notify_def)
  qed
  then show ?thesis
    using prep w3(1) start(1) by (auto simp: edit_files_def run_editor_def on_world_fst_snd s3_def s1_def)
qed

end

text \<open>
  The text that a user leaves who wants the names \<open>ns\<close>: the one the format writes for them.
\<close>

definition edited_text :: "(char \<Rightarrow> bool) \<Rightarrow> 'w session \<Rightarrow> string list \<Rightarrow> string option" where
  "edited_text isprint s ns =
     map_option fst (format_write (g_format s) isprint (g_work_files s) (with_names (g_work_files s) ns s))"

lemma edit_files_assigns:
  assumes "list_ok (g_heap s) (g_work_files s)" "g_work_files s \<noteq> []"
    and "\<not> g_accept_reedit s" "g_indicator s (g_format s) = Lasting"
    and "format_ready (g_format s) (os_isprint os) s (g_work_files s) ns"
    and "edited_text (os_isprint os) s ns = Some t" "editor_leaves os s t"
  shows "\<exists>s'. edit_files os True False s = Some (True, s') \<and>
    g_heap s' = rename_all (g_work_files s) ns (g_heap s) \<and> \<not> g_accept_reedit s'"
proof (cases "g_format s")
  case Destination_Only_Format
  then show ?thesis
    by (intro destination_only.edit_assigns [OF assms(1-4) _ _ _ _ assms(7)])
      (use assms(5,6) in \<open>simp_all add: edited_text_def\<close>)
next
  case Single_Column_Format
  then show ?thesis
    by (intro single_column.edit_assigns [OF assms(1-4) _ _ _ _ assms(7)])
      (use assms(5,6) in \<open>simp_all add: edited_text_def\<close>)
next
  case Dual_Column_Format
  then show ?thesis
    by (intro dual_column.edit_assigns [OF assms(1-4) _ _ _ _ assms(7)])
      (use assms(5,6) in \<open>simp_all add: edited_text_def\<close>)
qed

lemma format_ready_names: "format_ready fmt isprint s files ns \<Longrightarrow> names_ready isprint s files ns"
  by (cases fmt) simp_all

subsection \<open>A run of qmv\<close>

text \<open>
  What \<open>mv\<close> does on a world: \<open>view\<close> gives its files by the names they have in the work directory,
  which is the directory the program is in.  The command moves a file to a free name, or fails.
\<close>

definition mv_moves :: "'w os \<Rightarrow> ('w \<Rightarrow> 'f files) \<Rightarrow> bool" where
  "mv_moves os view \<longleftrightarrow>
     (\<forall>w n. os_file_exists os w n \<longleftrightarrow> view w n \<noteq> None) \<and>
     (\<forall>w old new. let r = os_run os ''mv'' [''mv'', ''--'', old, new] w in
        if view w old \<noteq> None \<and> view w new = None
        then fst r = Some (Exited 0) \<and> view (snd r) = (view w)(new := view w old, old := None)
        else fst r = Some (Exited 1) \<and> view (snd r) = view w)"

text \<open>The same on the watched worlds that the lemmas on \<open>apply_plan\<close> speak of.\<close>

definition ideal_mv :: "'f watched system" where
  "ideal_mv = \<lparr>exec_command = (\<lambda>command args (fs, calls).
       let old = args ! 2; new = args ! 3; calls' = calls @ [((old, new), fs new \<noteq> None)] in
       if fs old \<noteq> None \<and> fs new = None
       then (Some (Exited 0), fs(new := fs old, old := None), calls')
       else (Some (Exited 1), fs, calls')),
     to_work_directory = (\<lambda>w. (True, w)), from_work_directory = (\<lambda>w. (True, w))\<rparr>"

lemma ideal_mv_works: "mv_works ideal_mv"
  by (auto simp: mv_works_def mv_behaves_def ideal_mv_def Let_def)

definition viewed :: "('w \<Rightarrow> 'f files) \<Rightarrow> 'w session \<Rightarrow> 'f watched \<Rightarrow> bool" where
  "viewed view s w \<longleftrightarrow> g_work_directory s = ''.'' \<and> g_old_dir s = -1 \<and> view (g_world s) = fst w"

lemma session_simulates:
  fixes view :: "'w \<Rightarrow> 'f files"
  assumes "mv_moves os view"
  shows "simulates (viewed view) (session_system os) ideal_mv"
proof -
  let ?args = "\<lambda>old new. [''mv'', ''--'', old, new]"
  have "fst (exec_command (session_system os) ''mv'' (?args old new) s) = fst (exec_command ideal_mv ''mv'' (?args old new) w) \<and>
      viewed view (snd (exec_command (session_system os) ''mv'' (?args old new) s))
        (snd (exec_command ideal_mv ''mv'' (?args old new) w))" if "viewed view s w" for old new and s :: "'w session" and w :: "'f watched"
  proof -
    obtain fs calls where w: "w = (fs, calls)" by (cases w)
    let ?r = "os_run os ''mv'' (?args old new) (g_world s)"
    have "if view (g_world s) old \<noteq> None \<and> view (g_world s) new = None
      then fst ?r = Some (Exited 0) \<and> view (snd ?r) = (view (g_world s))(new := view (g_world s) old, old := None)
      else fst ?r = Some (Exited 1) \<and> view (snd ?r) = view (g_world s)"
      using assms by (simp add: mv_moves_def Let_def)
    then show ?thesis
      using that w by (auto simp: session_system_def ideal_mv_def on_world_fst_snd viewed_def Let_def split: if_splits)
  qed
  then show ?thesis
    by (auto simp: simulates_def session_system_def ideal_mv_def viewed_def cwd_to_work_directory_def
        cwd_from_work_directory_def)
qed

lemma session_apply_complete:
  fixes view :: "'w \<Rightarrow> 'f files"
  assumes mv: "mv_moves os view" "runs_mv (g_options s)" and s: "g_work_directory s = ''.''" "g_old_dir s = -1"
    and valid: "plan_valid (occupied (view (g_world s))) (g_heap s) (plan_ok p)"
    and moves: "do_moves (map (move_of (g_heap s)) (plan_ok p)) (view (g_world s)) = Some fs'"
  shows "\<exists>s'. session_apply_plan os p s = Some (True, s') \<and> view (g_world s') = fs' \<and>
    (\<exists>q. g_plan s' = Some q \<and> plan_ok q = [] \<and> plan_error q = plan_error p)"
proof -
  let ?fs = "view (g_world s)"
  from apply_plan_complete [OF mv(2) ideal_mv_works valid moves, of "g_work_files s" "[]"] obtain out where
    out: "Apply.apply_plan ideal_mv (g_options s) (g_heap s) p (g_work_files s) (?fs, []) = Some (True, out)"
      "plan_ok (out_plan out) = []" "plan_error (out_plan out) = plan_error p" "fst (out_world out) = fs'" by auto
  have "viewed view s (?fs, [])" using s by (simp add: viewed_def)
  from apply_plan_sim [OF session_simulates [OF mv(1)] mv(2) this, of "g_heap s" p "g_work_files s"] out(1)
  obtain out' where "Apply.apply_plan (session_system os) (g_options s) (g_heap s) p (g_work_files s) s = Some (True, out')"
    "outcome_rel (viewed view) out' out" by (auto simp: option_rel_Some2)
  then show ?thesis using out(2-4) by (auto simp: session_apply_plan_def outcome_rel_def viewed_def)
qed

text \<open>
  The moves the user asked for: the pairs of the old name and a different new name.
\<close>

definition wanted_moves :: "spec_heap \<Rightarrow> addr list \<Rightarrow> move set" where
  "wanted_moves h files = {(oldn h a, newn h a) | a. a \<in> set files \<and> oldn h a \<noteq> newn h a}"

lemma wanted_moves_renamed:
  assumes "distinct files" "length ns = length files"
  shows "wanted_moves (rename_all files ns h) files =
    {m \<in> set (zip (map (\<lambda>a. oldn h a) files) ns). fst m \<noteq> snd m}"
proof -
  let ?h = "rename_all files ns h"
  have "zip (map (\<lambda>a. oldn h a) files) ns = zip (map (\<lambda>a. oldn ?h a) files) (map (\<lambda>a. newn ?h a) files)"
    using rename_all_new_names [OF assms] by (simp add: rename_all_old_name)
  also have "\<dots> = map (\<lambda>a. (oldn ?h a, newn ?h a)) files" by (simp add: zip_map_map zip_same_conv_map)
  finally show ?thesis by (auto simp: wanted_moves_def)
qed

lemma planned_are_wanted:
  assumes plan: "qmv_plan ty E h R h' p" and "plan_error p = []"
  shows "move_of h ` {a \<in> set R. planned h' a} = wanted_moves h R"
proof -
  have "planned h' a \<longleftrightarrow> oldn h a \<noteq> newn h a" if a: "a \<in> set R" for a
  proof -
    have st: "if verdict E h R a = STATUS_UNCHECKED
        then status (the_spec h' a) = STATUS_NEW_EXISTS \<or> planned h' a
        else status (the_spec h' a) = verdict E h R a"
      and no_error: "status (the_spec h' a) \<notin> {STATUS_DUPLICATE, STATUS_OLD_MISSING, STATUS_NEW_EXISTS}"
      using plan assms(2) a by (auto simp: qmv_plan_def)
    show ?thesis
    proof (cases "verdict E h R a = STATUS_UNCHECKED")
      case True
      then have "oldn h a \<noteq> newn h a" by (auto simp: verdict_def split: if_splits)
      then show ?thesis using st no_error True by auto
    next
      case False
      then have v: "status (the_spec h' a) = verdict E h R a" using st by simp
      then have "verdict E h R a = STATUS_NO_CHANGE" using no_error False verdict_cases [of E h R a] by auto
      then have "oldn h a = newn h a" "\<not> planned h' a"
        using v by (auto simp: verdict_def planned_def split: if_splits)
      then show ?thesis by simp
    qed
  qed
  then show ?thesis by (auto simp: wanted_moves_def move_of_def)
qed

lemma replan_qmv:
  assumes fresh: "fresh_renames (g_heap s) (g_work_files s)" and prog: "program (g_options s) = ''qmv''"
    and wd: "g_work_directory s = ''.''" and fin: "finite {n. os_file_exists os (g_world s) n}"
  shows "\<exists>p s'. replan os s = Inr (p, s') \<and>
    qmv_plan (ty :: 'f itself) (os_file_exists os (g_world s)) (g_heap s) (g_work_files s) (g_heap s') p \<and>
    g_world s' = g_world s \<and> g_options s' = g_options s \<and> g_work_files s' = g_work_files s \<and>
    g_work_directory s' = g_work_directory s \<and> g_old_dir s' = g_old_dir s"
proof -
  have "finite {n. os_file_exists os (g_world s) (cat_files ''.'' n)}" using fin by simp
  from make_plan_qmv [OF fresh this, of ty] obtain h' p where
    plan: "make_plan ''qmv'' (os_file_exists os (g_world s)) ''.'' (g_work_files s) (g_heap s) = Some (h', p)"
      "qmv_plan ty (os_file_exists os (g_world s)) (g_heap s) (g_work_files s) h' p" by auto
  from qmv_plan_displays [OF plan(2)] obtain ns where "display_plan ''qmv'' h' p = Inr ns" by blast
  then show ?thesis
    using plan prog wd
    by (auto simp: replan_def session_make_plan_def session_display_plan_def notify_all_def)
qed

text \<open>
  The whole of \<open>noncommandmode_run\<close>, once the names are edited: either there are errors in the plan
  and no file was touched, or every wanted rename is done, all at once.
\<close>

lemma noncommandmode_renames:
  fixes view :: "'w \<Rightarrow> 'f files"
  assumes listed: "list_files os args s = Inr (True, s1)" "heap_ok (g_heap s)" "g_work_files s1 \<noteq> []"
    and edited: "edit_files os True False s1 = Some (True, s2)"
      "g_heap s2 = rename_all (g_work_files s1) ns (g_heap s1)"
    and options: "program (g_options s) = ''qmv''" "runs_mv (g_options s)"
    and here: "g_work_directory s1 = ''.''" "g_old_dir s1 = -1"
    and mv: "mv_moves os view" "finite (dom (view (g_world s2)))"
  shows "\<exists>ok s'. noncommandmode_run os args s = Inr (ok, s') \<and>
    (if ok then simultaneous (wanted_moves (g_heap s2) (g_work_files s2)) (view (g_world s2)) (view (g_world s'))
     else view (g_world s') = view (g_world s2) \<and> (\<exists>p. g_plan s' = Some p \<and> plan_error p \<noteq> []))"
proof -
  from list_files_list_ok [OF listed(1,2)] have ok: "list_ok (g_heap s1) (g_work_files s1)" "g_options s1 = g_options s"
    by blast+
  have s2: "g_options s2 = g_options s" "g_work_files s2 = g_work_files s1" "g_work_directory s2 = ''.''" "g_old_dir s2 = -1"
    using edit_files_frame [OF edited(1)] ok(2) here by (simp_all add: same_frame_def)
  have fresh: "fresh_renames (g_heap s2) (g_work_files s2)" using edited_list_fresh [OF ok(1)] edited(2) s2(2) by simp
  have exists: "os_file_exists os w = occupied (view w)" for w using mv(1) by (auto simp: mv_moves_def)
  have dom: "dom (view (g_world s2)) = {n. os_file_exists os (g_world s2) n}" using mv(1) by (auto simp: mv_moves_def)
  with mv(2) have "finite {n. os_file_exists os (g_world s2) n}" by simp
  from replan_qmv [OF fresh _ s2(3) this, of "TYPE('f)"] options(1) s2(1) obtain p s3 where
    plan: "replan os s2 = Inr (p, s3)"
      "qmv_plan TYPE('f) (os_file_exists os (g_world s2)) (g_heap s2) (g_work_files s2) (g_heap s3) p"
    and s3: "g_world s3 = g_world s2" "g_options s3 = g_options s2" "g_work_directory s3 = ''.''" "g_old_dir s3 = -1"
    using s2(3,4) by auto
  have plan3: "g_plan s3 = Some p"
    using plan(1) by (auto simp: replan_def after_Inr session_display_plan_def split: option.splits)
  have run: "noncommandmode_run os args s =
    (if plan_error p \<noteq> [] then Inr (False, s3)
     else if plan_ok p \<noteq> [] then defined (session_apply_plan os p s3) else Inr (True, s3))"
    using listed(1,3) edited(1) plan(1) by (simp add: noncommandmode_run_def)
  from qmv_plan_moves [OF plan(2) dom] obtain fs' where
    fs': "do_moves (map (move_of (g_heap s3)) (plan_ok p)) (view (g_world s3)) = Some fs'"
      "simultaneous (move_of (g_heap s2) ` {a \<in> set (g_work_files s2). planned (g_heap s3) a}) (view (g_world s2)) fs'"
    using s3(1) by auto
  show ?thesis
  proof (cases "plan_error p = []")
    case False
    then show ?thesis using run s3(1) plan3 by auto
  next
    case True
    note moves = fs'(2) [unfolded planned_are_wanted [OF plan(2) True]]
    show ?thesis
    proof (cases "plan_ok p = []")
      case empty: True
      then have "fs' = view (g_world s3)" using fs'(1) by simp
      then have "simultaneous (wanted_moves (g_heap s2) (g_work_files s2)) (view (g_world s2)) (view (g_world s3))"
        using moves by simp
      then show ?thesis using run True empty by auto
    next
      case nonempty: False
      have "plan_valid (occupied (view (g_world s3))) (g_heap s3) (plan_ok p)"
        using qmv_plan_valid [OF plan(2)] exists s3(1) by simp
      from session_apply_complete [OF mv(1) _ s3(3,4) this fs'(1)] options(2) s3(2) s2(1)
      obtain s' where "session_apply_plan os p s3 = Some (True, s')" "view (g_world s') = fs'" by auto
      then show ?thesis using run True nonempty moves by auto
    qed
  qed
qed

text \<open>The same with the names given: the user edits them, in whatever format.\<close>

lemma noncommandmode_edited:
  fixes view :: "'w \<Rightarrow> 'f files"
  assumes listed: "list_files os args s = Inr (True, s1)" "heap_ok (g_heap s)" "g_work_files s1 \<noteq> []"
    and here: "g_work_directory s1 = ''.''" "g_old_dir s1 = -1"
    and fmt: "\<not> g_accept_reedit s1" "g_indicator s1 (g_format s1) = Lasting"
    and names: "format_ready (g_format s1) (os_isprint os) s1 (g_work_files s1) ns"
    and editor: "edited_text (os_isprint os) s1 ns = Some t" "editor_leaves os s1 t" "editing_keeps os view"
    and options: "program (g_options s) = ''qmv''" "runs_mv (g_options s)"
    and mv: "mv_moves os view" "finite (dom (view (g_world s1)))"
  shows "\<exists>ok s'. noncommandmode_run os args s = Inr (ok, s') \<and>
    (if ok then simultaneous {m \<in> set (zip (map (\<lambda>a. oldn (g_heap s1) a) (g_work_files s1)) ns). fst m \<noteq> snd m}
       (view (g_world s1)) (view (g_world s'))
     else view (g_world s') = view (g_world s1) \<and> (\<exists>p. g_plan s' = Some p \<and> plan_error p \<noteq> []))"
proof -
  from list_files_list_ok [OF listed(1,2)] have ok: "list_ok (g_heap s1) (g_work_files s1)" by blast
  have dist: "distinct (g_work_files s1)" "length ns = length (g_work_files s1)"
    using format_ready_names [OF names] by (simp_all add: names_ready_def)
  from edit_files_assigns [OF ok listed(3) fmt names editor(1,2)] obtain s2 where
    s2: "edit_files os True False s1 = Some (True, s2)" "g_heap s2 = rename_all (g_work_files s1) ns (g_heap s1)" by blast
  have view: "view (g_world s2) = view (g_world s1)" by (rule edit_files_keeps [OF editor(3) s2(1)])
  have files: "g_work_files s2 = g_work_files s1" using edit_files_frame [OF s2(1)] by (simp add: same_frame_def)
  have "finite (dom (view (g_world s2)))" using mv(2) view by simp
  from noncommandmode_renames [OF listed s2 options here mv(1) this] show ?thesis
    unfolding view files s2(2) wanted_moves_renamed [OF dist] by blast
qed

end
