(* ===== verification/Session_Demo.thy ===== *)
theory Session_Demo
  imports Composition Demo
begin

text \<open>
  A concrete operating system and session for the witnesses: three files in the current directory,
  whose names \<open>ls\<close> prints, and an editor that swaps two names and changes the third.  The world is the
  files and the text of the edit file.
\<close>

definition demo_isprint :: "char \<Rightarrow> bool" where
  "demo_isprint c \<longleftrightarrow> 32 \<le> byte c \<and> byte c < 127"

definition demo_os :: "(nat files \<times> string) os" where
  "demo_os = \<lparr>os_isprint = demo_isprint, os_is_directory = (\<lambda>w d. False),
     os_file_exists = (\<lambda>w n. fst w n \<noteq> None),
     os_open_dot = (\<lambda>w. (5, w)), os_chdir = (\<lambda>d w. (True, w)), os_fchdir = (\<lambda>fd w. (True, w)),
     os_close = (\<lambda>fd w. (True, w)), os_pipe = (\<lambda>w. (Some (3, 4), w)), os_fork = (\<lambda>acts w. (7, w)),
     os_waitpid = (\<lambda>pid w. ((pid, Exited 0), w)),
     os_fdopen = (\<lambda>fd w. (Some \<lparr>in_text = ls_lines demo_isprint [''a'', ''b'', ''c''], in_error = False\<rparr>, w)),
     os_fdopen_write = (\<lambda>fd w. (True, w)),
     os_fopen_read = (\<lambda>f w. (Some \<lparr>in_text = snd w, in_error = False\<rparr>, w)),
     os_fopen_write = (\<lambda>f w. (True, (fst w, []))), os_fclose_write = (\<lambda>f t w. (True, (fst w, t))),
     os_fclose_read = (\<lambda>f w. (True, w)),
     os_system = (\<lambda>cmd w. (0, (fst w, ''b'' @ NL # ''a'' @ NL # ''d'' @ [NL]))),
     os_mkstemp = (\<lambda>t w. (Some (t, 3), w)), os_fchmod = (\<lambda>fd m w. (True, w)), os_unlink = (\<lambda>f w. (True, w)),
     os_run = (\<lambda>command args w. let old = args ! 2; new = args ! 3 in
       if fst w old \<noteq> None \<and> fst w new = None
       then (Some (Exited 0), ((fst w)(new := fst w old, old := None), snd w))
       else (Some (Exited 1), w))\<rparr>"

definition demo_session :: "(nat files \<times> string) session" where
  "demo_session = initial_session ((initial_settings ''qmv'')\<lparr>set_format := Destination_Only_Format\<rparr>)
     ''vi'' ''/tmp/qmv1'' (demo_files, [])"

lemma demo_moves: "mv_moves demo_os fst"
  by (auto simp: mv_moves_def demo_os_def Let_def)

lemma demo_listed:
  "case list_files demo_os [''a'', ''b'', ''c''] demo_session of
     Inl e \<Rightarrow> False
   | Inr (ok, s) \<Rightarrow> ok \<and> g_work_files s = [0, 1, 2] \<and> g_work_directory s = ''.'' \<and> g_old_dir s = -1 \<and>
       \<not> g_accept_reedit s \<and> g_format s = Destination_Only_Format \<and>
       g_indicator s Destination_Only_Format = Lasting \<and> \<not> do_separate (g_destination_only s) \<and>
       map (\<lambda>a. old_name (the_spec (g_heap s) a)) (g_work_files s) = [''a'', ''b'', ''c''] \<and>
       map (fst (g_world s)) [''a'', ''b'', ''c''] = [Some 1, Some 2, Some 3]"
  by code_simp

text \<open>The listing, with what the lemmas on editing and running ask of it.\<close>

definition demo_names :: "string list" where
  "demo_names = [''b'', ''a'', ''d'']"

lemma demo_names_ok: "\<forall>n \<in> set demo_names. name_ok n" "length demo_names = 3" "\<not> os_isprint demo_os NL"
  by (simp_all add: demo_names_def name_ok_def cstr_def demo_os_def demo_isprint_def byte_def)

definition demo_text :: string where
  "demo_text = ''b'' @ NL # ''a'' @ NL # ''d'' @ [NL]"

lemma demo_editor: "editor_leaves demo_os s demo_text"
  by (simp add: editor_leaves_def demo_os_def demo_text_def)

lemma demo_editing_keeps: "editing_keeps demo_os fst"
  by (simp add: editing_keeps_def demo_os_def)

lemma demo_session_facts:
  "heap_ok (g_heap demo_session)" "program (g_options demo_session) = ''qmv''" "runs_mv (g_options demo_session)"
  by (simp_all add: demo_session_def initial_session_def initial_settings_def heap_ok_def empty_heap_def
      runs_mv_def command_name_def)

lemma demo_listed_session:
  obtains s where "list_files demo_os [''a'', ''b'', ''c''] demo_session = Inr (True, s)"
    "list_ok (g_heap s) (g_work_files s)" "g_work_files s = [0, 1, 2]" "g_work_directory s = ''.''" "g_old_dir s = -1"
    "\<not> g_accept_reedit s" "g_indicator s (g_format s) = Lasting"
    "format_ready (g_format s) (os_isprint demo_os) s (g_work_files s) demo_names"
    "edited_text (os_isprint demo_os) s demo_names = Some demo_text"
    "map (\<lambda>a. old_name (the_spec (g_heap s) a)) (g_work_files s) = [''a'', ''b'', ''c'']"
proof -
  obtain s where s: "list_files demo_os [''a'', ''b'', ''c''] demo_session = Inr (True, s)"
    using demo_listed by (auto split: sum.splits)
  have names: "map (\<lambda>a. old_name (the_spec (g_heap s) a)) (g_work_files s) = [''a'', ''b'', ''c'']"
    using demo_listed unfolding s sum.case prod.case by (elim conjE)
  have fmt: "g_format s = Destination_Only_Format" "g_work_files s = [0, 1, 2]" "\<not> do_separate (g_destination_only s)"
    using demo_listed s by simp_all
  have ok: "list_ok (g_heap s) (g_work_files s)" using list_files_list_ok [OF s demo_session_facts(1)] by blast
  have "\<forall>n \<in> set (map (\<lambda>a. old_name (the_spec (g_heap s) a)) (g_work_files s)). name_ok n"
    unfolding names by (simp add: name_ok_def cstr_def)
  then have "\<forall>a \<in> set (g_work_files s). live (g_heap s) a \<and> name_ok (old_name (the_spec (g_heap s) a)) \<and>
      name_ok (new_name (the_spec (g_heap s) a))"
    using ok by (simp add: list_ok_def listed_def)
  then have ready: "names_ready (os_isprint demo_os) s (g_work_files s) demo_names"
    using demo_names_ok fmt(2) by (simp add: names_ready_def)
  note R = names_ready_renamed [OF this]
  have "do_output (os_isprint demo_os) (g_destination_only s) (rename_all (g_work_files s) demo_names (g_heap s)) (g_work_files s) =
      Some (do_file (os_isprint demo_os) False demo_names)"
    using do_output_file [of "g_work_files s" "rename_all (g_work_files s) demo_names (g_heap s)"] R fmt(3) by simp
  moreover have "do_file demo_isprint False demo_names = demo_text" by code_simp
  ultimately have "edited_text (os_isprint demo_os) s demo_names = Some demo_text"
    using fmt(1) by (simp add: edited_text_def with_names_def demo_os_def)
  then show thesis
    using that [of s] s ok ready fmt(1) demo_listed names by simp
qed

text \<open>Listing touches no file: the calls it makes leave the files, whatever directory they are for.\<close>

lemma demo_listed_world:
  assumes "list_files demo_os args demo_session = Inr (True, s)"
  shows "fst (g_world s) = demo_files"
proof -
  have "directories_behave demo_os fst (\<lambda>w fd. if fd = 3 \<or> fd = 4 then None else Some (fst w))"
    by (auto simp: directories_behave_def demo_os_def)
  from list_files_home [OF this assms] show ?thesis by (simp add: demo_session_def initial_session_def)
qed

text \<open>
  A second system, for the changes of directory: the world is the working directory and the directories
  the open descriptors are on.  Only \<open>d\<close> is a directory, and it holds two files.
\<close>

definition dir_fd :: "string \<times> (int \<rightharpoonup> string) \<Rightarrow> int \<Rightarrow> string option" where
  "dir_fd w fd = (if fd = 3 \<or> fd = 4 then None else snd w fd)"

definition dir_os :: "(string \<times> (int \<rightharpoonup> string)) os" where
  "dir_os = \<lparr>os_isprint = demo_isprint, os_is_directory = (\<lambda>w d. d = ''d''),
     os_file_exists = (\<lambda>w n. True),
     os_open_dot = (\<lambda>w. (5, (fst w, (snd w)(5 \<mapsto> fst w)))), os_chdir = (\<lambda>d w. (True, (d, snd w))),
     os_fchdir = (\<lambda>fd w. case snd w fd of None \<Rightarrow> (False, w) | Some d \<Rightarrow> (True, (d, snd w))),
     os_close = (\<lambda>fd w. (True, (fst w, (snd w)(fd := None)))),
     os_pipe = (\<lambda>w. (Some (3, 4), w)), os_fork = (\<lambda>acts w. (7, w)),
     os_waitpid = (\<lambda>pid w. ((pid, Exited 0), w)),
     os_fdopen = (\<lambda>fd w. (Some \<lparr>in_text = ls_lines demo_isprint [''a'', ''b''], in_error = False\<rparr>, w)),
     os_fdopen_write = (\<lambda>fd w. (True, w)), os_fopen_read = (\<lambda>f w. (None, w)),
     os_fopen_write = (\<lambda>f w. (True, w)), os_fclose_write = (\<lambda>f t w. (True, w)),
     os_fclose_read = (\<lambda>f w. (True, w)), os_system = (\<lambda>cmd w. (0, w)),
     os_mkstemp = (\<lambda>t w. (Some (t, 3), w)), os_fchmod = (\<lambda>fd m w. (True, w)), os_unlink = (\<lambda>f w. (True, w)),
     os_run = (\<lambda>command args w. (Some (Exited 0), w))\<rparr>"

definition dir_session :: "(string \<times> (int \<rightharpoonup> string)) session" where
  "dir_session = initial_session (initial_settings ''qmv'') ''vi'' ''/tmp/qmv1'' (''/home'', Map.empty)"

lemma dir_os_behaves: "directories_behave dir_os fst dir_fd"
  by (auto simp: directories_behave_def dir_os_def dir_fd_def fun_eq_iff split: option.splits)

lemma dir_listed:
  "case list_files dir_os [''d''] dir_session of
     Inl e \<Rightarrow> False
   | Inr (ok, s) \<Rightarrow> ok \<and> g_work_directory s = ''d'' \<and> length (g_work_files s) = 2"
  by code_simp

end
