(* ===== verification/Session_Properties.thy ===== *)
theory Session_Properties
  imports Session_Demo
begin

text \<open>
  What the parts of a session promise: listing, editing, the command mode, showing and applying a plan.
\<close>

subsection \<open>Listing\<close>



text \<open>
  The argument vector of \<open>ls\<close>: the options of the user come before \<open>--\<close> and the operands after it,
  so that no file name is taken for an option; directories are left out unless there is only one, which
  is listed from inside, or \<open>-d\<close> was given.
\<close>

theorem ls_arguments:
  assumes "collect_arguments os (first_directory args s) 0 args (ls_command_line s) s = (True, fd, argv, s')"
  shows "argv = [g_ls_program s, ''--quoting-style=c''] @ map word_text (g_ls_options s) @ [''--''] @
      (if directory_option s then args
       else if length args = 1 \<and> os_is_directory os (g_world s) (hd args) then [''.'']
       else filter (\<lambda>a. \<not> os_is_directory os (g_world s) a) args)"
  using collect_operands [OF assms] by (simp add: ls_command_line_def ls_operands_def)

theorem ls_arguments_witness:
  "\<exists>fd s'. collect_arguments demo_os (first_directory [''-a''] demo_session) 0 [''-a'']
     (ls_command_line demo_session) demo_session = (True, fd, [''ls'', ''--quoting-style=c'', ''--'', ''-a''], s')"
proof -
  have "fst (collect_arguments demo_os (first_directory [''-a''] demo_session) 0 [''-a'']
     (ls_command_line demo_session) demo_session)" by code_simp
  then obtain fd argv s' where c: "collect_arguments demo_os (first_directory [''-a''] demo_session) 0 [''-a'']
     (ls_command_line demo_session) demo_session = (True, fd, argv, s')" by (metis prod.collapse)
  have "argv = [''ls'', ''--quoting-style=c'', ''--'', ''-a'']"
    using ls_arguments [OF c]
    by (simp add: demo_session_def initial_session_def initial_settings_def demo_os_def directory_option_def)
  then show ?thesis using c by blast
qed

text \<open>
  C12. Whatever \<open>ls\<close> prints, a listing that succeeds and any names the user gives to its files make a
  list of renames that the planner is proved for: live, unchecked objects, in no chain, with different
  old names.
\<close>

theorem listing_makes_fresh_renames:
  assumes "list_files os args s = Inr (True, s')" "heap_ok (g_heap s)"
  shows "fresh_renames (rename_all (g_work_files s') ns (g_heap s')) (g_work_files s')"
  using list_files_list_ok [OF assms] by (intro edited_list_fresh) blast

theorem listing_makes_fresh_renames_witness:
  "\<exists>s'. list_files demo_os [''a'', ''b'', ''c''] demo_session = Inr (True, s') \<and>
    fresh_renames (rename_all (g_work_files s') [''b'', ''a'', ''d''] (g_heap s')) (g_work_files s')"
proof -
  obtain s' where "list_files demo_os [''a'', ''b'', ''c''] demo_session = Inr (True, s')"
    using demo_listed by (auto split: sum.splits)
  moreover have "heap_ok (g_heap demo_session)"
    by (simp add: demo_session_def initial_session_def heap_ok_def empty_heap_def)
  ultimately show ?thesis using listing_makes_fresh_renames by blast
qed

subsection \<open>Editing\<close>





subsection \<open>The command mode\<close>

text \<open>
  The binary search in the table of commands finds every command of the table and nothing else.
\<close>

theorem find_command_exact:
  "find_command word = map_option (\<lambda>c. (word, c)) (map_of commands word)"
proof (cases "map_of commands word")
  case None
  then have "find_command word \<noteq> Some c" for c
    using find_command_Some [of word c] by (force simp: map_of_eq_None_iff)
  then show ?thesis using None by (cases "find_command word") auto
next
  case (Some c)
  then have "(word, c) \<in> set commands" by (rule map_of_SomeD)
  then show ?thesis using find_command_Some [of word "(word, c)"] Some by simp
qed

text \<open>
  C29. The end of the input, twice in a row, always ends the command mode: the first time the program
  may warn of unapplied changes, but not the second time.
\<close>

theorem two_ends_of_input_leave:
  "\<exists>s'. commandmode_loop lib os [None, None] s = Inr s' \<and> \<not> g_running s'"
  by (auto simp: terminate_program_def Let_def notify_def notify_all_def)

text \<open>
  Completion never passes a NULL to \<open>strcmp\<close>: where it asks for a word of the line, the line has it.
\<close>

theorem completion_defined:
  "completion isspace fmt line start \<noteq> None"
  by (rule completion_not_None)


text \<open>
  An indicator that is set in command mode is lost with the words of the command: after \<open>set options\<close>
  with an \<open>indicator1\<close>, the next edit reads freed memory.
\<close>

theorem indicator_is_freed:
  assumes "lib_wordexp lib line = Inr [''set'', ''options'', v]" "g_format s = Single_Column_Format"
    and "sc_parse_options v = (ok, opts, ns)" "points_into v ok ns"
  shows "\<exists>s'. run_line lib os line s = Inr s' \<and> g_single_column s' = opts \<and>
    format_output (g_format s') isprint files s' = None"
proof -
  have "find_command ''set'' = Some (''set'', Set_Command)" by (simp add: find_command_Some commands_def)
  moreover have "strcmp ''options'' n \<noteq> 0" if "n \<in> {''simulate'', ''editor'', ''format'', ''tempfile''}" for n
    using that by (auto simp del: strcmp.simps)
  ultimately show ?thesis
    using assms by (simp add: run_line_def run_words_def set_command_def parsed_options_def free_words_def
        format_output_def notify_all_def Let_def del: strcmp.simps)
qed

theorem indicator_is_freed_witness:
  "\<exists>s'. run_line \<lparr>lib_tolower = id, lib_getopt = (\<lambda>t a. \<lparr>pa_options = [], pa_error = False, pa_operands = a\<rparr>),
      lib_wordexp = (\<lambda>l. Inr [''set'', ''options'', l])\<rparr> demo_os ''indicator1=X''
      (demo_session\<lparr>g_format := Single_Column_Format\<rparr>) = Inr s' \<and>
    format_output (g_format s') demo_isprint [0] s' = None"
proof -
  obtain ok opts ns where parse: "sc_parse_options ''indicator1=X'' = (ok, opts, ns)" by (metis prod.exhaust)
  have "case sc_parse_options ''indicator1=X'' of (ok, opts, ns) \<Rightarrow> points_into ''indicator1=X'' ok ns" by code_simp
  then have "points_into ''indicator1=X'' ok ns" by (simp add: parse)
  then obtain s' where "run_line \<lparr>lib_tolower = id, lib_getopt = (\<lambda>t a. \<lparr>pa_options = [], pa_error = False, pa_operands = a\<rparr>),
      lib_wordexp = (\<lambda>l. Inr [''set'', ''options'', l])\<rparr> demo_os ''indicator1=X''
      (demo_session\<lparr>g_format := Single_Column_Format\<rparr>) = Inr s'" "format_output (g_format s') demo_isprint [0] s' = None"
    using indicator_is_freed [OF _ _ parse, of "\<lparr>lib_tolower = id,
        lib_getopt = (\<lambda>t a. \<lparr>pa_options = [], pa_error = False, pa_operands = a\<rparr>),
        lib_wordexp = (\<lambda>l. Inr [''set'', ''options'', l])\<rparr>" "''indicator1=X''"
        "demo_session\<lparr>g_format := Single_Column_Format\<rparr>" demo_os demo_isprint "[0]"] by auto
  then show ?thesis by blast
qed

subsection \<open>Showing and applying a plan\<close>

text \<open>
  After \<open>make_plan\<close> of \<open>qmv\<close> for an edited list, \<open>display_plan\<close> meets no invalid status: it shows
  every rename with an error and then every planned one, temporary ones included, each once and in the
  order of the plan.
\<close>

theorem display_shows_plan:
  assumes "fresh_renames h R" "finite {n. fe (cat_files wd n)}"
  shows "\<exists>h' p ns. make_plan ''qmv'' fe wd R h = Some (h', p) \<and> display_plan ''qmv'' h' p = Inr ns \<and>
    filter is_names ns = map (\<lambda>a. display_names (the_spec h' a)) (plan_error p @ plan_ok p)"
  using make_plan_qmv [OF assms, of "TYPE(nat)"] qmv_plan_displays by blast

theorem display_shows_plan_witness:
  "\<exists>h' p ns. make_plan ''qmv'' demo_exists ''.'' [0, 1, 2] (heap_of demo_renames) = Some (h', p) \<and>
    display_plan ''qmv'' h' p = Inr ns \<and>
    filter is_names ns = map (\<lambda>a. display_names (the_spec h' a)) (plan_error p @ plan_ok p)"
  by (rule display_shows_plan [OF demo_fresh demo_finite])

text \<open>
  \<open>display_plan\<close> puts the wrong reason under a group of errors: where the status changes, the line
  it prints is about the rename to come.  For a missing source before an occupied destination it says
  twice that the destination exists.
\<close>

theorem display_mislabels_group:
  assumes "live h a" "live h b" "status (the_spec h a) = STATUS_OLD_MISSING" "status (the_spec h b) = STATUS_NEW_EXISTS"
  shows "display_plan prog h (new_plan\<lparr>plan_error := [a, b]\<rparr>) = Inr [Plan_Contains_Errors,
    display_names (the_spec h a), Destination_Exists, display_names (the_spec h b), Destination_Exists, Empty_Line]"
  using assms by (simp add: display_plan_def new_plan_def)

theorem display_mislabels_group_witness:
  "display_plan ''qmv'' (upd 0 (\<lambda>s. s\<lparr>status := STATUS_OLD_MISSING\<rparr>)
      (upd 1 (\<lambda>s. s\<lparr>status := STATUS_NEW_EXISTS\<rparr>) (heap_of demo_renames))) (new_plan\<lparr>plan_error := [0, 1]\<rparr>) =
    Inr [Plan_Contains_Errors, Names ''a'' ''b'', Destination_Exists, Names ''b'' ''a'', Destination_Exists, Empty_Line]"
proof -
  let ?h = "upd 0 (\<lambda>s. s\<lparr>status := STATUS_OLD_MISSING\<rparr>)
      (upd 1 (\<lambda>s. s\<lparr>status := STATUS_NEW_EXISTS\<rparr>) (heap_of demo_renames))"
  have "live ?h 0" "live ?h 1" "status (the_spec ?h 0) = STATUS_OLD_MISSING" "status (the_spec ?h 1) = STATUS_NEW_EXISTS"
    by (simp_all add: demo_renames_def)
  from display_mislabels_group [OF this, of "''qmv''"] show ?thesis
    by (simp add: display_names_def demo_renames_def)
qed

text \<open>
  With \<open>--dummy\<close>, applying a plan runs no command at all: the world is as it was but for the changes
  of directory.
\<close>

theorem simulate_runs_nothing:
  assumes "simulate opts" "\<forall>w. view (snd (to_work_directory sys w)) = view w"
    "\<forall>w. view (snd (from_work_directory sys w)) = view w"
    and "Apply.apply_plan sys opts h plan work w = Some (ok, out)"
  shows "view (out_world out) = view w"
  using apply_plan_simulated [OF assms] .

theorem simulate_runs_nothing_witness:
  "\<exists>ok out. Apply.apply_plan demo_mv (qmv_options\<lparr>simulate := True\<rparr>) one_planned (new_plan\<lparr>plan_ok := [0]\<rparr>) [0]
      (demo_files, []) = Some (ok, out) \<and> out_world out = (demo_files, [])"
proof -
  have "Apply.apply_plan demo_mv (qmv_options\<lparr>simulate := True\<rparr>) one_planned (new_plan\<lparr>plan_ok := [0]\<rparr>) [0]
      (demo_files, []) \<noteq> None"
    by (simp add: apply_plan_def new_plan_def one_planned_def demo_mv_def qmv_options_def run_spec_def finish_spec_def
        free_file_spec_def say_def outcome_of_def)
  then obtain ok out where "Apply.apply_plan demo_mv (qmv_options\<lparr>simulate := True\<rparr>) one_planned
      (new_plan\<lparr>plan_ok := [0]\<rparr>) [0] (demo_files, []) = Some (ok, out)" by auto
  then show ?thesis
    using simulate_runs_nothing [of "qmv_options\<lparr>simulate := True\<rparr>" id demo_mv] by (simp add: demo_mv_def)
qed

end
