(* ===== verification/Heap_Invariant.thy ===== *)
theory Heap_Invariant
  imports Qcmd
begin

text \<open>
  What every part of the program keeps of the heap of file objects, whatever state it is given: planning
  again after a partly applied plan, applying, reading an edit file and listing give out new addresses
  only, and put no other addresses than those given out into a plan or a list of files.
\<close>

subsection \<open>Steps that keep a condition\<close>

text \<open>If there is a result, it has the property.\<close>

definition holds :: "('a \<Rightarrow> bool) \<Rightarrow> 'a option \<Rightarrow> bool" where
  "holds P x \<longleftrightarrow> (\<forall>y. x = Some y \<longrightarrow> P y)"

named_theorems wp \<open>rules for the steps of the planner and the readers\<close>

lemma holds_simps [simp]: "holds P None" "holds P (Some y) \<longleftrightarrow> P y"
  by (simp_all add: holds_def)

lemma holdsD: "holds P x \<Longrightarrow> x = Some y \<Longrightarrow> P y"
  by (simp add: holds_def)

lemma holds_bind: "holds Q x \<Longrightarrow> (\<And>y. Q y \<Longrightarrow> holds P (f y)) \<Longrightarrow> holds P (Option.bind x f)"
  by (cases x) simp_all

subsection \<open>Planning on any heap\<close>

text \<open>
  A heap that has given out at least the addresses below \<open>k\<close> and will not give them out again, and a
  plan on it that has no other addresses than those given out.
\<close>

definition heap_from :: "nat \<Rightarrow> spec_heap \<Rightarrow> bool" where
  "heap_from k h \<longleftrightarrow> heap_ok h \<and> k \<le> next_addr h"

definition plan_below :: "nat \<Rightarrow> File_Spec.apply_plan \<Rightarrow> bool" where
  "plan_below n p \<longleftrightarrow> (\<forall>a \<in> set (plan_ok p) \<union> set (plan_error p) \<union> set (plan_no_change p). a < n)"

abbreviation plan_from :: "nat \<Rightarrow> spec_heap \<times> File_Spec.apply_plan \<Rightarrow> bool" where
  "plan_from k st \<equiv> heap_from k (fst st) \<and> plan_below (next_addr (fst st)) (snd st)"

lemma plan_below_add [simp]:
  "plan_below n (add_ok a p) \<longleftrightarrow> a < n \<and> plan_below n p"
  "plan_below n (add_first_ok a p) \<longleftrightarrow> a < n \<and> plan_below n p"
  "plan_below n (add_error a p) \<longleftrightarrow> a < n \<and> plan_below n p"
  "plan_below n (add_no_change a p) \<longleftrightarrow> a < n \<and> plan_below n p"
  "plan_below n new_plan"
  by (auto simp: plan_below_def)

lemma plan_below_mono: "plan_below n p \<Longrightarrow> n \<le> m \<Longrightarrow> plan_below m p"
  unfolding plan_below_def by (meson order_less_le_trans)

lemma plan_below_Suc: "plan_below n p \<Longrightarrow> plan_below (Suc n) p"
  by (erule plan_below_mono) simp

lemma heap_from_less: "heap_from k h \<Longrightarrow> cells h a = Some s \<Longrightarrow> a < next_addr h"
  by (auto simp: heap_from_def heap_ok_def)

lemma holds_spec_at [wp]:
  assumes "heap_from k h" and "\<And>s. a < next_addr h \<Longrightarrow> holds P (f s)"
  shows "holds P (Option.bind (spec_at h a) f)"
  using assms heap_from_less [OF assms(1)] by (cases "cells h a") (simp_all add: spec_at_def)

lemma holds_modify_last [wp]:
  assumes "heap_from k h" "next_addr h = n"
  shows "holds (\<lambda>h'. heap_from k h' \<and> next_addr h' = n) (modify_spec a g h)"
  using assms by (auto simp: holds_def heap_from_def elim!: modify_spec_SomeE intro: heap_ok_update)

lemma holds_modify [wp]:
  assumes "heap_from k h"
    and "\<And>h'. heap_from k h' \<Longrightarrow> next_addr h' = next_addr h \<Longrightarrow> a < next_addr h \<Longrightarrow> holds P (f h')"
  shows "holds P (Option.bind (modify_spec a g h) f)"
  using assms heap_from_less [OF assms(1)] holds_modify_last [OF assms(1) refl, of a g]
  by (cases "modify_spec a g h") (auto elim!: modify_spec_SomeE)

lemma heap_from_new: "heap_from k h \<Longrightarrow> heap_from k (snd (new_file_spec h))"
  by (simp add: heap_from_def heap_ok_new)

declare modify_spec_live [simp del] spec_at_live [simp del]

lemma previous_scan_keeps:
  "heap_from k h \<Longrightarrow> plan_below (next_addr h) p \<Longrightarrow> holds (plan_from k) (previous_scan as (h, p))"
  by (induction as arbitrary: p) (auto intro!: wp)

lemma mark_where_keeps:
  "heap_from k h \<Longrightarrow> plan_below (next_addr h) p \<Longrightarrow>
   (\<And>n a p. plan_below n (add a p) \<longleftrightarrow> a < n \<and> plan_below n p) \<Longrightarrow>
   holds (plan_from k) (mark_where cond st add as (h, p))"
  by (induction as arbitrary: h p) (auto intro!: wp)

lemma duplicate_scan_loop_keeps:
  "heap_from k h \<Longrightarrow> plan_below (next_addr h) p \<Longrightarrow> holds (plan_from k) (duplicate_scan_loop as seen (h, p))"
proof (induction as arbitrary: seen h p)
  case (Cons a as)
  show ?case
    using Cons.prems by (auto intro!: wp Cons.IH split: option.splits prod.splits)
qed simp

lemma free_destinations_keeps:
  "heap_from k h \<Longrightarrow> plan_below (next_addr h) p \<Longrightarrow>
   holds (\<lambda>(pend, av, st). plan_from k st) (free_destinations fe wd as todo av (h, p))"
proof (induction as arbitrary: todo av h p)
  case (Cons a as)
  show ?case using Cons.prems by (auto intro!: wp Cons.IH)
qed simp

lemma topo_pass_keeps:
  "heap_from k h \<Longrightarrow> plan_below (next_addr h) p \<Longrightarrow>
   holds (\<lambda>(rest, av, st, ch). plan_from k st) (topo_pass as av (h, p))"
proof (induction as arbitrary: av h p)
  case (Cons a as)
  have next_: "holds (\<lambda>(rest, av, st, ch). plan_from k st)
      (Option.bind (topo_pass as av' (h', p')) (\<lambda>(rest, av, st, ch). Some (f rest av st ch, g av, st, i ch)))"
    if "heap_from k h'" "plan_below (next_addr h') p'" for av' h' p' f g i
    by (rule holds_bind [OF Cons.IH [OF that]]) auto
  show ?case using Cons.prems by (auto intro!: wp next_ split: option.splits)
qed simp

lemma topo_loop_keeps: "plan_from k st \<Longrightarrow> holds (plan_from k) (topo_loop todo av st)"
proof (induction todo av st rule: topo_loop.induct)
  case (1 todo av st)
  obtain h p where st: "st = (h, p)" by (cases st)
  have keeps: "holds (\<lambda>(rest, av, st, ch). plan_from k st) (topo_pass todo av st)"
    using topo_pass_keeps [of k h p todo av] 1(2) st by simp
  show ?case
  proof (cases "topo_pass todo av st")
    case None
    then show ?thesis by (subst topo_loop.simps) simp
  next
    case (Some r)
    obtain rest av' st' ch where r: "r = (rest, av', st', ch)" by (metis prod.exhaust)
    then have "plan_from k st'" using keeps Some by simp
    then show ?thesis using 1(1) [OF Some r [symmetric]] Some r by (subst topo_loop.simps) simp
  qed
qed

lemma topologic_sort_keeps:
  "heap_from k h \<Longrightarrow> plan_below (next_addr h) p \<Longrightarrow> holds (plan_from k) (topologic_sort fe wd as (h, p))"
  unfolding topologic_sort_def
  by (rule holds_bind [OF free_destinations_keeps]) (auto intro: topo_loop_keeps)

lemma follow_renames_keeps:
  "heap_from k h \<Longrightarrow> next_addr h = n \<Longrightarrow>
   holds (\<lambda>h'. heap_from k h' \<and> next_addr h' = n) (follow_renames fuel mo s1 s2 pc h)"
proof (induction fuel arbitrary: s2 pc h)
  case (Suc fuel)
  show ?case using Suc.prems(1)
    by (auto simp: Suc.prems(2) intro!: wp Suc.IH split: option.splits)
qed simp

lemma mark_circular_keeps:
  "heap_from k h \<Longrightarrow> plan_below (next_addr h) p \<Longrightarrow> holds (plan_from k) (mark_circular fuel a (h, p))"
proof (induction fuel arbitrary: a h p)
  case 0
  then show ?case by (cases a) simp_all
next
  case (Suc fuel)
  show ?case
  proof (cases a)
    case None
    then show ?thesis using Suc.prems by simp
  next
    case (Some b)
    then show ?thesis using Suc.prems by (auto intro!: wp Suc.IH)
  qed
qed

lemma relink_keeps:
  "heap_from k h \<Longrightarrow> next_addr h = n \<Longrightarrow>
   holds (\<lambda>h'. heap_from k h' \<and> next_addr h' = n) (relink s2 s1 as h)"
proof (induction as arbitrary: s2 h)
  case (Cons a as)
  show ?case unfolding relink.simps
    by (rule holds_modify [OF Cons.prems(1)], rule holds_modify, assumption) (simp add: Cons.IH Cons.prems(2))
qed simp

lemma holds_relink:
  assumes "heap_from k h"
    and "\<And>h'. heap_from k h' \<Longrightarrow> next_addr h' = next_addr h \<Longrightarrow> holds P (f h')"
  shows "holds P (Option.bind (relink s2 s1 as h) f)"
  by (rule holds_bind [OF relink_keeps [OF assms(1) refl]]) (use assms(2) in blast)

lemma holds_mark_circular:
  assumes "heap_from k h" "plan_below (next_addr h) p"
    and "\<And>h' p'. heap_from k h' \<Longrightarrow> plan_below (next_addr h') p' \<Longrightarrow> holds P (f (h', p'))"
  shows "holds P (Option.bind (mark_circular fuel a (h, p)) f)"
  by (rule holds_bind [OF mark_circular_keeps [OF assms(1,2)]]) (use assms(3) in auto)

lemma break_cycle_keeps:
  "heap_from k h \<Longrightarrow> plan_below (next_addr h) p \<Longrightarrow> holds (plan_from k) (break_cycle fuel s1 tmp (h, p))"
  by (auto simp: break_cycle_def case_prod_beta Let_def intro!: wp holds_mark_circular holds_relink heap_from_new plan_below_Suc)

lemma holds_follow_renames:
  assumes "heap_from k h"
    and "\<And>h'. heap_from k h' \<Longrightarrow> next_addr h' = next_addr h \<Longrightarrow> holds P (f h')"
  shows "holds P (Option.bind (follow_renames fuel mo s1 s2 pc h) f)"
  by (rule holds_bind [OF follow_renames_keeps [OF assms(1) refl]]) (use assms(2) in blast)

lemma resolve_loop_keeps:
  "heap_from k h \<Longrightarrow> plan_below (next_addr h) p \<Longrightarrow> holds (plan_from k) (resolve_loop fe wd fuel mo mn as (h, p))"
proof (induction as arbitrary: h p)
  case (Cons a as)
  have tmp: "holds P (Option.bind (find_tmp_name fe wd mn o' n) f)" if "\<And>t. holds P (f t)" for P f o' n
    using that by (cases "find_tmp_name fe wd mn o' n") simp_all
  have rest: "holds (plan_from k) (Option.bind x (resolve_loop fe wd fuel mo mn as))" if "holds (plan_from k) x" for x
    by (rule holds_bind [OF that]) (auto simp: Cons.IH)
  show ?case
    using Cons.prems
    by (auto intro!: wp holds_follow_renames rest tmp break_cycle_keeps Cons.IH split: option.splits)
qed simp

lemma cross_reference_resolve_keeps:
  "heap_from k h \<Longrightarrow> plan_below (next_addr h) p \<Longrightarrow> holds (plan_from k) (cross_reference_resolve fe wd as (h, p))"
  unfolding cross_reference_resolve_def
  by (rule holds_bind [of "\<lambda>_. True"]) (auto simp: holds_def [of "\<lambda>_. True"] intro: resolve_loop_keeps)

lemma new_exists_scan_keeps:
  "heap_from k h \<Longrightarrow> plan_below (next_addr h) p \<Longrightarrow> holds (plan_from k) (new_exists_scan fe wd as (h, p))"
  unfolding new_exists_scan_def
  by (rule holds_bind [of "\<lambda>_. True"])
    (auto simp: holds_def [of "\<lambda>_. True"] intro!: holds_bind [of "plan_from k"] mark_where_keeps)

lemma make_plan_keeps:
  assumes "heap_from k h"
  shows "holds (plan_from k) (make_plan prog fe wd as h)"
  using assms unfolding make_plan_def
  by (auto simp: duplicate_scan_def old_missing_scan_def no_change_scan_def apply_unchecked_def
      intro!: holds_bind [of "plan_from k"] previous_scan_keeps duplicate_scan_loop_keeps mark_where_keeps
        topologic_sort_keeps cross_reference_resolve_keeps new_exists_scan_keeps)

subsection \<open>Applying\<close>

lemma free_spec_keeps: "heap_from k h \<Longrightarrow> next_addr h = n \<Longrightarrow>
  holds (\<lambda>h'. heap_from k h' \<and> next_addr h' = n) (free_file_spec a h)"
proof -
  assume h: "heap_from k h" "next_addr h = n"
  have link: "holds (\<lambda>h'. heap_from k h' \<and> next_addr h' = n) (case l of None \<Rightarrow> Some h | Some b \<Rightarrow> modify_spec b (g b) h)"
    if "heap_from k h" "next_addr h = n" for l g h
    using that by (auto intro: wp split: option.split)
  have drop: "heap_from k (h\<lparr>cells := (cells h)(a := None)\<rparr>)" if "heap_from k h" for h
    using that by (auto simp: heap_from_def heap_ok_def)
  show ?thesis
    unfolding free_file_spec_def
    by (rule holds_spec_at [OF h(1)], rule holds_bind [OF link [OF h]], rule holds_bind [OF link])
      (auto intro: drop)
qed

lemma free_spec_from: "free_file_spec a h = Some h' \<Longrightarrow> heap_from k h \<Longrightarrow> heap_from k h' \<and> next_addr h' = next_addr h"
  using holdsD [OF free_spec_keeps] by blast

lemma free_files_from: "free_files as h = Some h' \<Longrightarrow> heap_from k h \<Longrightarrow> heap_from k h' \<and> next_addr h' = next_addr h"
  by (induction as arbitrary: h) (auto elim!: bind_eq_SomeE dest!: free_spec_from)

text \<open>What the loop keeps: \<open>ok\<close> is any condition on the world that the commands keep.\<close>

definition run_at :: "('w \<Rightarrow> bool) \<Rightarrow> nat \<Rightarrow> addr set \<Rightarrow> 'w run \<Rightarrow> bool" where
  "run_at ok n A s \<longleftrightarrow> heap_from n (heap s) \<and> next_addr (heap s) = n \<and> set (work_files s) \<subseteq> A \<and>
     (\<forall>a \<in> set (kept s). a < n) \<and> ok (world s)"

lemma run_at_say [simp]: "run_at ok n A (say m s) = run_at ok n A s"
  by (simp add: run_at_def say_def)

lemma world_say [simp]: "world (say m s) = world s"
  by (simp add: say_def)

lemma run_at_keep: "run_at ok n A s \<Longrightarrow> a < n \<Longrightarrow> run_at ok n A (keep a s)"
  by (auto simp: run_at_def keep_def)

lemma run_at_world: "run_at ok n A s \<Longrightarrow> ok w \<Longrightarrow> run_at ok n A (s\<lparr>world := w\<rparr>)"
  "run_at ok n A s \<Longrightarrow> ok w \<Longrightarrow> run_at ok n A (s\<lparr>world := w, failed := b\<rparr>)"
  by (auto simp: run_at_def)

lemma finish_spec_at: "run_at ok n A s \<Longrightarrow> holds (run_at ok n A) (finish_spec a s)"
  using set_remove1_subset [of a "work_files s"]
  by (auto simp: finish_spec_def holds_def run_at_def elim!: bind_eq_SomeE dest!: free_spec_from)

lemma apply_loop_keeps:
  assumes "\<And>spec w. ok w \<Longrightarrow> ok (snd (run_spec sys opts spec w))"
  shows "run_at ok n A s \<Longrightarrow> holds (run_at ok n A) (apply_loop sys opts as s)"
proof (induction as arbitrary: s)
  case (Cons a as)
  have heap: "heap_from n (heap s)" and n: "next_addr (heap s) = n" and w: "ok (world s)"
    using Cons.prems by (simp_all add: run_at_def)
  show ?case
    unfolding apply_loop.simps
  proof (rule holds_spec_at [OF heap], goal_cases)
    case (1 spec)
    obtain went w' where run: "run_spec sys opts spec (world s) = (went, w')" by (cases "run_spec sys opts spec (world s)")
    then have w': "ok w'" using assms [OF w, of spec] by simp
    have finish: "holds (run_at ok n A) (Option.bind (finish_spec a s') (apply_loop sys opts as))"
      if "run_at ok n A s'" for s'
      by (rule holds_bind [OF finish_spec_at [OF that]]) (rule Cons.IH)
    have "a < n" using 1 n by simp
    then show ?case
      using run w' Cons.prems
      by (cases went) (auto simp: Let_def simp del: apply_loop.simps intro!: Cons.IH finish run_at_keep run_at_world)
  qed
qed simp

definition outcome_at :: "('w \<Rightarrow> bool) \<Rightarrow> nat \<Rightarrow> addr set \<Rightarrow> 'w outcome \<Rightarrow> bool" where
  "outcome_at ok n A out \<longleftrightarrow> heap_from n (out_heap out) \<and> next_addr (out_heap out) = n \<and>
     set (out_work out) \<subseteq> A \<and> plan_below n (out_plan out) \<and> ok (out_world out)"

lemma outcome_of_at: "run_at ok n A s \<Longrightarrow> plan_below n p \<Longrightarrow> outcome_at ok n A (outcome_of p s)"
  by (auto simp: outcome_of_def run_at_def plan_below_def outcome_at_def)

lemma apply_plan_keeps:
  assumes ok: "\<And>spec w. ok w \<Longrightarrow> ok (snd (run_spec sys opts spec w))"
      "\<And>w. ok w \<Longrightarrow> ok (snd (to_work_directory sys w))" "\<And>w. ok w \<Longrightarrow> ok (snd (from_work_directory sys w))"
    and h: "heap_from n h" "next_addr h = n" "plan_below n p" "ok w"
  shows "holds (\<lambda>r. outcome_at ok n (set work) (snd r)) (Apply.apply_plan sys opts h p work w)"
proof -
  define s where "s = \<lparr>heap = h, kept = [], work_files = work, world = w, failed = False,
                printed = if plan_error p \<noteq> [] then [Msg_Contains_Errors] else []\<rparr>"
  have s: "run_at ok n (set work) s" using h by (simp add: s_def run_at_def)
  obtain went w1 where went: "to_work_directory sys w = (went, w1)" by (cases "to_work_directory sys w")
  then have w1: "ok w1" using ok(2) [OF h(4)] by simp
  have kept: "run_at ok n (set work) (s\<lparr>kept := plan_ok p, world := w1\<rparr>)"
    using s w1 h(3) by (auto simp: run_at_def plan_below_def)
  have loop: "holds (run_at ok n (set work)) (apply_loop sys opts (plan_ok p) (s\<lparr>world := w1\<rparr>))"
    by (intro apply_loop_keeps run_at_world(1) [OF s w1] ok(1))
  have out: "outcome_at ok n (set work) (outcome_of p (s2\<lparr>world := snd (from_work_directory sys v)\<rparr>))"
    if "run_at ok n (set work) s2" "ok v" for s2 v
    using ok(3) [OF that(2)] by (intro outcome_of_at h(3) run_at_world(1) that(1))
  have at: "ok (world s2)" if "run_at ok n (set work) s2" for s2
    using that by (simp add: run_at_def)
  show ?thesis
  proof (cases "plan_ok p = [] \<or> \<not> went")
    case True
    then show ?thesis
      using s kept
      by (auto intro!: outcome_of_at h(3) simp: apply_plan_def s_def [symmetric] Let_def went)
  next
    case False
    then have "apply_plan sys opts h p work w = do {
          s1 \<leftarrow> apply_loop sys opts (plan_ok p) (s\<lparr>world := w1\<rparr>);
          let s2 = (if failed s1 then say Msg_Some_Failed s1 else s1);
          let (left, w2) = from_work_directory sys (world s2);
          Some (left \<and> \<not> failed s2, outcome_of p (s2\<lparr>world := w2\<rparr>)) }"
      by (simp add: apply_plan_def s_def Let_def went)
    moreover have "holds (\<lambda>r. outcome_at ok n (set work) (snd r)) \<dots>"
      by (rule holds_bind [OF loop]) (auto simp: Let_def case_prod_beta intro: out at)
    ultimately show ?thesis by simp
  qed
qed

subsection \<open>Reading the edit file\<close>

definition reader_at :: "nat \<Rightarrow> reader \<Rightarrow> bool" where
  "reader_at n r \<longleftrightarrow> heap_from n (rd_heap r) \<and> next_addr (rd_heap r) = n"

abbreviation read_at :: "nat \<Rightarrow> bool \<times> reader \<Rightarrow> bool" where
  "read_at n \<equiv> \<lambda>x. reader_at n (snd x)"

lemma reader_at_steps [simp]:
  "reader_at n (warn m r) = reader_at n r" "reader_at n (warn_end r) = reader_at n r"
  "reader_at n (r\<lparr>rd_in := ins\<rparr>) = reader_at n r"
  by (simp_all add: reader_at_def warn_def warn_end_def)

lemma next_line_at: "reader_at n r \<Longrightarrow> reader_at n (snd (next_line r))"
  by (simp add: next_line_def case_prod_beta)

lemma holds_spec_at_reader [wp]: "(\<And>s. holds P (f s)) \<Longrightarrow> holds P (Option.bind (spec_at (rd_heap r) a) f)"
  by (cases "spec_at (rd_heap r) a") simp_all

lemma holds_dequoted [wp]: "(\<And>s. holds P (f s)) \<Longrightarrow> holds P (Option.bind (dequoted t) f)"
  by (cases "dequoted t") simp_all

lemma holds_assign [wp]:
  assumes "reader_at n r" "\<And>r'. reader_at n r' \<Longrightarrow> holds P (f r')"
  shows "holds P (Option.bind (assign_new_name a name r) f)"
proof (rule holds_bind [OF _ assms(2)])
  show "holds (reader_at n) (assign_new_name a name r)"
    using assms(1) by (auto simp: assign_new_name_def reader_at_def intro!: wp)
qed

lemma do_input_loop_keeps: "reader_at n r \<Longrightarrow> holds (read_at n) (do_input_loop opts as r)"
proof (induction as arbitrary: r)
  case (Cons a as)
  have sep: "reader_at n r \<Longrightarrow> reader_at n (snd (do_read_separator r))" for r
    using next_line_at [of n r] by (auto simp: do_read_separator_def Let_def split: option.split prod.splits)
  have body: "holds (read_at n) (do { file_new \<leftarrow> dequoted t;
             r \<leftarrow> (if file_new = [] then do { spec \<leftarrow> spec_at (rd_heap r) a; Some (warn (New_Name_Empty (old_name spec)) r) }
                   else assign_new_name a file_new r);
             do_input_loop opts as r })" if "reader_at n r" for r t
    using that by (auto intro!: wp Cons.IH)
  obtain l r' where next_: "next_line r = (l, r')" by (cases "next_line r")
  then have r': "reader_at n r'" using next_line_at [OF Cons.prems] by simp
  show ?case
    using r' sep [OF r'] by (auto simp: next_ case_prod_beta intro!: body split: option.split prod.split bool.split)
qed simp

lemma sc_process_keeps: "reader_at n r \<Longrightarrow> holds (read_at n) (sc_process opts a l1 l2 r)"
  by (auto simp: sc_process_def Let_def case_prod_beta intro!: wp split del: if_split split: if_split)

lemma sc_input_loop_keeps: "reader_at n r \<Longrightarrow> holds (read_at n) (sc_input_loop opts as r)"
proof (induction as arbitrary: r)
  case (Cons a as)
  have sep: "reader_at n r \<Longrightarrow> reader_at n (snd (sc_read_separator r))" for r
    using next_line_at [of n r] by (auto simp: sc_read_separator_def Let_def split: option.split prod.splits)
  have body: "holds (read_at n) (do { (go, r) \<leftarrow> sc_process opts a l1 l2 r;
        if go then sc_input_loop opts as r else Some (False, r) })" if "reader_at n r" for r l1 l2
    by (rule holds_bind [OF sc_process_keeps [OF that]]) (auto simp: case_prod_beta intro: Cons.IH)
  have r1: "reader_at n (snd (next_line r))" by (rule next_line_at [OF Cons.prems])
  have r2: "reader_at n (snd (next_line (snd (next_line r))))" by (rule next_line_at [OF r1])
  show ?case
    using r2 sep [OF r2] by (auto simp: case_prod_beta [of _ "next_line _"] intro!: body
        split: option.split prod.split bool.split)
qed simp

lemma check_and_assign_keeps: "reader_at n r \<Longrightarrow> holds (read_at n) (check_and_assign opts a spec old new r)"
  by (auto simp: check_and_assign_def case_prod_beta intro!: wp)

lemma process_dual_line_keeps: "reader_at n r \<Longrightarrow> holds (read_at n) (process_dual_line opts w a l1 l2 r)"
  by (auto simp: process_dual_line_def Let_def intro!: wp check_and_assign_keeps)

lemma process_single_line_keeps: "reader_at n r \<Longrightarrow> holds (read_at n) (process_single_line opts w a l r)"
proof -
  have back_: "holds P (Option.bind (skip_back l d) f)" if "\<And>c. holds P (f c)" for P l d f
    using that by (cases "skip_back l d") simp_all
  show "reader_at n r \<Longrightarrow> ?thesis"
    by (auto simp: process_single_line_def Let_def intro!: wp back_ check_and_assign_keeps)
qed

abbreviation state_at :: "nat \<Rightarrow> bool \<times> dc_state \<Rightarrow> bool" where
  "state_at n \<equiv> \<lambda>x. reader_at n (fst (snd x))"

lemma read_unread_line_at: "reader_at n (fst st) \<Longrightarrow> reader_at n (fst (snd (read_unread_line st)))"
  using next_line_at [of n "fst st"] by (auto simp: read_unread_line_def split: prod.splits list.splits)

lemma dc_single_keeps: "reader_at n (fst st) \<Longrightarrow> holds (state_at n) (dc_single opts w a l st)"
  by (cases st) (auto simp: dc_single_def intro!: holds_bind [OF process_single_line_keeps])

lemma dc_read_file_keeps:
  assumes "reader_at n (fst st)"
  shows "holds (state_at n) (dc_read_file opts w has_next a st)"
proof -
  obtain l1 r1 u1 where one: "read_unread_line st = (l1, r1, u1)" by (metis prod.exhaust)
  obtain l2 r2 u2 where two: "read_unread_line (r1, u1) = (l2, r2, u2)" by (metis prod.exhaust)
  have r1: "reader_at n r1" using read_unread_line_at [OF assms] one by simp
  then have r2: "reader_at n r2" using read_unread_line_at [of n "(r1, u1)"] two by simp
  show ?thesis
    using r1 r2 by (auto simp: dc_read_file_def one two Let_def intro!: dc_single_keeps
        holds_bind [OF process_dual_line_keeps] split: option.split)
qed

lemma dc_input_loop_keeps: "reader_at n (fst st) \<Longrightarrow> holds (state_at n) (dc_input_loop opts w as st)"
proof (induction as arbitrary: st)
  case (Cons a as)
  have sep: "holds (state_at n) (dc_read_separator st)" if "reader_at n (fst st)" for st
    using read_unread_line_at [OF that] that
    by (auto simp: dc_read_separator_def Let_def split: option.split prod.split)
  show ?case
    unfolding dc_input_loop.simps
    by (rule holds_bind [OF dc_read_file_keeps [OF Cons.prems]])
      (auto simp: case_prod_beta intro!: holds_bind [OF sep] Cons.IH)
qed simp

lemma reader_inputs_keep:
  assumes "heap_from n h" "next_addr h = n"
  shows "holds (read_at n) (do_input o1 h ins as)" "holds (read_at n) (sc_input o2 h ins as)"
    "holds (read_at n) (dc_input o3 w h ins as)"
proof -
  have start: "reader_at n \<lparr>rd_heap = h, rd_in = ins, rd_warnings = []\<rparr>" using assms by (simp add: reader_at_def)
  show "holds (read_at n) (do_input o1 h ins as)" "holds (read_at n) (sc_input o2 h ins as)"
    unfolding do_input_def sc_input_def by (rule do_input_loop_keeps sc_input_loop_keeps, rule start)+
  have ending: "holds (read_at n) (case read_unread_line st of
       (Some line1, r, unread) \<Rightarrow> Some (False, warn (Expected_End (chomp line1)) r)
     | (None, r, unread) \<Rightarrow> if ferror (rd_in r) then Some (False, warn Cannot_Read r) else Some (True, r))"
    if "reader_at n (fst st)" for st
    using read_unread_line_at [OF that] by (auto split: prod.split option.split)
  show "holds (read_at n) (dc_input o3 w h ins as)"
    unfolding dc_input_def
  proof (rule holds_bind [OF dc_input_loop_keeps [of n]])
    fix y :: "bool \<times> dc_state"
    obtain ok st where "y = (ok, st)" by (cases y)
    moreover assume "reader_at n (fst (snd y))"
    ultimately show "holds (read_at n) (case y of (ok, st) \<Rightarrow> if \<not> ok then Some (False, fst st)
          else (case read_unread_line st of
                  (Some line1, r, unread) \<Rightarrow> Some (False, warn (Expected_End (chomp line1)) r)
                | (None, r, unread) \<Rightarrow>
                    if ferror (rd_in r) then Some (False, warn Cannot_Read r) else Some (True, r)))"
      using ending [of st] by (cases ok) simp_all
  qed (use start in simp)
qed

subsection \<open>Listing and importing\<close>

definition listing_from :: "nat \<Rightarrow> listing \<Rightarrow> bool" where
  "listing_from k l \<longleftrightarrow> heap_from k (li_heap l) \<and> (\<forall>a \<in> set (li_files l). a < next_addr (li_heap l))"

lemma list_name_keeps: "listing_from k l \<Longrightarrow> holds (listing_from k) (list_name name l)"
  by (auto simp: list_name_def case_prod_beta listing_from_def intro!: holds_modify [of k] heap_from_new less_SucI)

lemma import_loop_keeps: "listing_from k l \<Longrightarrow> holds (listing_from k) (import_loop s l)"
proof (induction s l rule: import_loop.induct)
  case (1 s l)
  show ?case
  proof (cases "s = []")
    case False
    obtain line rest where line: "split_line s = (line, rest)" by (cases "split_line s")
    let ?x = "if \<not> dot_name (c_string (butlast line)) then list_name (c_string (butlast line)) l else Some l"
    have first: "holds (listing_from k) ?x" using list_name_keeps [OF 1(2)] 1(2) by simp
    have "holds (listing_from k) (Option.bind ?x (import_loop rest))"
    proof (cases ?x)
      case (Some l1)
      then show ?thesis using 1(1) [OF False line [symmetric] refl Some] first by simp
    qed simp
    then show ?thesis using False line by (subst import_loop.simps) (simp add: Let_def)
  qed (use 1(2) in \<open>subst import_loop.simps; simp\<close>)
qed

lemma process_ls_line_keeps:
  assumes "process_ls_line line (dir, l) = Inr (dir', l')" "listing_from k l"
  shows "listing_from k l'"
  using assms holdsD [OF list_name_keeps [OF assms(2)]]
  by (auto simp: process_ls_line_def Let_def defined_def split: if_splits sum.splits option.splits)

lemma process_ls_loop_keeps:
  "process_ls_loop ins st = Inr (ins', l') \<Longrightarrow> listing_from k (snd st) \<Longrightarrow> listing_from k l'"
proof (induction ins st rule: process_ls_loop.induct)
  case (1 ins st)
  obtain line ins1 where line: "read_line ins = (line, ins1)" by (cases "read_line ins")
  show ?case
  proof (cases line)
    case None
    then show ?thesis using 1(2,3) line by (subst (asm) process_ls_loop.simps) simp
  next
    case (Some ln)
    then obtain st1 where s1: "process_ls_line ln st = Inr st1" "process_ls_loop ins1 st1 = Inr (ins', l')"
      using 1(2) line by (subst (asm) process_ls_loop.simps) (auto split: sum.splits)
    have "listing_from k (snd st1)"
      using process_ls_line_keeps [of ln "fst st" "snd st" "fst st1" "snd st1"] 1(3) s1(1) by simp
    then show ?thesis using 1(1) [OF line [symmetric] Some s1(1) s1(2)] by simp
  qed
qed

lemma process_ls_output_keeps:
  assumes "process_ls_output is_dir firstdir lsout h [] = Inr (ok, h', files, already)" "heap_from k h"
  shows "heap_from k h' \<and> (\<forall>a \<in> set files. a < next_addr h')"
proof (cases lsout)
  case None
  then show ?thesis using assms by (simp add: process_ls_output_def)
next
  case (Some ins)
  then obtain dir ins' l where l: "process_ls_loop ins
      (dir, \<lparr>li_heap = h, li_files = [], li_map = hmap_new (), li_already = []\<rparr>) = Inr (ins', l)"
    "h' = li_heap l" "files = li_files l"
    using assms(1) by (auto simp: process_ls_output_def split: sum.splits)
  from process_ls_loop_keeps [OF l(1), of k] assms(2) show ?thesis by (simp add: listing_from_def l(2,3))
qed

lemma import_command_keeps:
  assumes "heap_from k h" "\<forall>a \<in> set work. a < next_addr h" "next_addr h \<le> k"
  shows "holds (\<lambda>(ns, h', files). heap_from k h' \<and> (\<forall>a \<in> set files. a < next_addr h')) (import_command open_file args h work)"
proof -
  have work: "a < next_addr h'" if "a \<in> set work" "heap_from k h'" for a h'
    using that assms(2,3) by (fastforce simp: heap_from_def)
  have start: "listing_from k \<lparr>li_heap = h, li_files = [], li_map = hmap_new (), li_already = []\<rparr>"
    using assms(1) by (simp add: listing_from_def)
  have free: "holds P (Option.bind (free_files as h) f)"
    if "heap_from k h" "\<And>h'. heap_from k h' \<Longrightarrow> next_addr h' = next_addr h \<Longrightarrow> holds P (f h')" for as h f and P :: "'z \<Rightarrow> bool"
    using that free_files_from [of as h _ k] by (cases "free_files as h") auto
  show ?thesis
    using assms(1) work
    by (auto simp: import_command_def Let_def listing_from_def intro!: holds_bind [OF import_loop_keeps [OF start]] free
      intro: work split: option.split)
qed

end
