(* ===== verification/Invariant.thy ===== *)
theory Invariant
  imports Heap_Invariant
begin

text \<open>
  The command mode as a machine: a line of input is a step.  Its invariant is that every pointer the
  program holds, to a live object or not, is an address that was given out before, so that a new object
  is never taken for an old one; and between two lines no indicator points into the words of a line.
\<close>

subsection \<open>The session\<close>

text \<open>
  Every pointer of the session, the dangling ones included, is an address that was given out: the next
  object is none of them.
\<close>

definition session_from :: "nat \<Rightarrow> 'w session \<Rightarrow> bool" where
  "session_from k s \<longleftrightarrow> heap_from k (g_heap s) \<and>
     (\<forall>a \<in> set (g_work_files s) \<union> set (g_edit_file_list s). a < next_addr (g_heap s)) \<and>
     (\<forall>p. g_plan s = Some p \<longrightarrow> plan_below (next_addr (g_heap s)) p)"

definition gives :: "('a \<Rightarrow> bool) \<Rightarrow> 'e + 'a \<Rightarrow> bool" where
  "gives P x \<longleftrightarrow> (\<forall>y. x = Inr y \<longrightarrow> P y)"

lemma gives_simps [simp]: "gives P (Inl e)" "gives P (Inr y) \<longleftrightarrow> P y"
  by (simp_all add: gives_def)

lemma gives_after: "gives Q x \<Longrightarrow> (\<And>y. Q y \<Longrightarrow> gives P (f y)) \<Longrightarrow> gives P (after x f)"
  by (cases x) simp_all

lemma gives_defined [simp]: "gives P (defined x) = holds P x"
  by (cases x) simp_all

lemma gives_weaken: "gives Q x \<Longrightarrow> (\<And>y. Q y \<Longrightarrow> P y) \<Longrightarrow> gives P x"
  by (cases x) simp_all

text \<open>The fields the condition is about, and the steps that leave them.\<close>

definition lists_of :: "'w session \<Rightarrow> spec_heap \<times> addr list \<times> addr list \<times> File_Spec.apply_plan option" where
  "lists_of s = (g_heap s, g_work_files s, g_edit_file_list s, g_plan s)"

lemma session_from_same: "lists_of s' = lists_of s \<Longrightarrow> session_from k s' = session_from k s"
  by (simp add: lists_of_def session_from_def)

lemma lists_of_steps [simp]:
  "lists_of (notify n s) = lists_of s" "lists_of (notify_all ns s) = lists_of s"
  "lists_of (s\<lparr>g_world := w\<rparr>) = lists_of s" "lists_of (s\<lparr>g_old_dir := d\<rparr>) = lists_of s"
  "lists_of (s\<lparr>g_work_directory := dir\<rparr>) = lists_of s" "lists_of (s\<lparr>g_options := opts\<rparr>) = lists_of s"
  "lists_of (s\<lparr>g_ls_options := ls\<rparr>) = lists_of s" "lists_of (s\<lparr>g_running := b\<rparr>) = lists_of s"
  "lists_of (s\<lparr>g_exit_warned := b\<rparr>) = lists_of s" "lists_of (s\<lparr>g_accept_reedit := b\<rparr>) = lists_of s"
  "lists_of (s\<lparr>g_real_width := n'\<rparr>) = lists_of s" "lists_of (s\<lparr>g_format := fmt\<rparr>) = lists_of s"
  "lists_of (s\<lparr>g_editor_program := t\<rparr>) = lists_of s" "lists_of (s\<lparr>g_ls_program := t\<rparr>) = lists_of s"
  "lists_of (s\<lparr>g_indicator := i\<rparr>) = lists_of s" "lists_of (s\<lparr>g_destination_only := o1\<rparr>) = lists_of s"
  "lists_of (s\<lparr>g_single_column := o2\<rparr>) = lists_of s" "lists_of (s\<lparr>g_dual_column := o3\<rparr>) = lists_of s"
  by (simp_all add: lists_of_def notify_def notify_all_def)

lemma session_from_notify [simp]:
  "session_from k (notify n s) = session_from k s" "session_from k (notify_all ns s) = session_from k s"
  by (rule session_from_same, simp)+

lemma on_world_lists [simp]: "lists_of (snd (on_world f s)) = lists_of s"
  by (simp add: on_world_fst_snd)

lemma cwd_lists_of [simp]:
  "lists_of (snd (cwd_from_work_directory os s)) = lists_of s" "lists_of (snd (cwd_to_work_directory os s)) = lists_of s"
  by (simp_all add: cwd_from_work_directory_def cwd_to_work_directory_def on_world_fst_snd Let_def split: bool.split)

lemma run_ls_lists_of [simp]: "lists_of (snd (run_ls os args s)) = lists_of s"
  by (simp add: run_ls_def on_world_fst_snd split: option.split prod.split)

lemma clean_ls_lists_of [simp]: "lists_of (snd (clean_ls os pid fd s)) = lists_of s"
  by (simp add: clean_ls_def on_world_fst_snd split: bool.split prod.split)

lemma collect_lists_of: "collect_arguments os fd c args la s = (ok, fd', la', s') \<Longrightarrow> lists_of s' = lists_of s"
proof (induction args arbitrary: fd c la s)
  case (Cons arg args)
  have "lists_of s1 = lists_of s" if "cwd_to_work_directory os (s\<lparr>g_work_directory := arg\<rparr>) = (went, s1)" for went s1
    using cwd_lists_of(2) [of os "s\<lparr>g_work_directory := arg\<rparr>"] that by simp
  then show ?case
    using Cons.prems by (auto simp: Let_def split: if_splits prod.splits bool.splits dest!: Cons.IH)
qed simp

lemma parse_options_lists [simp]: "lists_of (snd (format_parse_options fmt opts place s)) = lists_of s"
  by (cases fmt) (simp_all add: parsed_options_def split: prod.split)

lemma show_lists [simp]: "lists_of (show_variable name s) = lists_of s" "lists_of (show_command args s) = lists_of s"
  by (simp_all add: show_variable_def show_command_def if_distrib [of lists_of] split del: if_split cong: if_cong)

lemma set_lists [simp]: "lists_of (set_command tolower args s) = lists_of s"
  by (simp add: set_command_def Let_def if_distrib [of lists_of] option.case_distrib [of lists_of]
      split del: if_split cong: if_cong option.case_cong) (simp split: option.split)

lemma pager_lists [simp]: "lists_of (snd (launch_pager os s)) = lists_of s" "lists_of (snd (close_pager os fd pid s)) = lists_of s"
  by (simp_all add: launch_pager_def close_pager_def on_world_fst_snd split: option.split prod.split bool.split)

lemma help_lists [simp]: "lists_of (help_command os args s) = lists_of s" "lists_of (version_command s) = lists_of s"
  "lists_of (quit_command s) = lists_of s" "lists_of (terminate_program s) = lists_of s" "lists_of (free_words s) = lists_of s"
proof -
  have "lists_of (page os n s) = lists_of s" for n
    using pager_lists(1) [of os s] by (simp add: page_def case_prod_beta)
  then show "lists_of (help_command os args s) = lists_of s" by (simp add: help_command_def)
qed (simp_all add: version_command_def quit_command_def terminate_program_def Let_def free_words_def)

subsection \<open>The commands\<close>

lemma session_from_mono: "session_from k s \<Longrightarrow> j \<le> k \<Longrightarrow> session_from j s"
  by (auto simp: session_from_def heap_from_def)

lemma session_from_next: "session_from k s \<Longrightarrow> session_from (next_addr (g_heap s)) s"
  by (simp add: session_from_def heap_from_def)

lemma session_from_k: "session_from k s \<Longrightarrow> k \<le> next_addr (g_heap s)"
  by (simp add: session_from_def heap_from_def)

lemma new_heap_from:
  assumes "session_from k s" "heap_from (next_addr (g_heap s)) h"
    "\<forall>a \<in> set work. a < next_addr h" "\<forall>a \<in> set edit. a < next_addr h" "\<And>q. p = Some q \<Longrightarrow> plan_below (next_addr h) q"
  shows "session_from k (s\<lparr>g_heap := h, g_work_files := work, g_edit_file_list := edit, g_plan := p\<rparr>)"
  using assms by (simp add: session_from_def heap_from_def ball_Un)

text \<open>The condition survives when only the heap grows.\<close>

lemma session_lists_below:
  assumes "session_from k s" "heap_from (next_addr (g_heap s)) h"
  shows "\<forall>a \<in> set (g_work_files s). a < next_addr h" "\<forall>a \<in> set (g_edit_file_list s). a < next_addr h"
    "g_plan s = Some p \<Longrightarrow> plan_below (next_addr h) p"
  using assms by (auto simp: session_from_def heap_from_def intro: plan_below_mono order_less_le_trans)

lemma session_make_plan_keeps:
  assumes s: "session_from k s"
  shows "holds (session_from k) (session_make_plan os s)"
proof -
  have "heap_from (next_addr (g_heap s)) (g_heap s)" using s by (simp add: session_from_def heap_from_def)
  from make_plan_keeps [OF this] show ?thesis
    unfolding session_make_plan_def
  proof (rule holds_bind)
    fix y :: pstate
    obtain h p where y: "y = (h, p)" by (cases y)
    assume "plan_from (next_addr (g_heap s)) y"
    then have h: "heap_from (next_addr (g_heap s)) h" "plan_below (next_addr h) p" by (simp_all add: y)
    have "session_from k (s\<lparr>g_heap := h, g_work_files := g_work_files s, g_edit_file_list := g_edit_file_list s, g_plan := Some p\<rparr>)"
      by (rule new_heap_from [OF s h(1) session_lists_below(1,2) [OF s h(1)]]) (use h(2) in simp)
    then show "holds (session_from k) (case y of (h, p) \<Rightarrow> Some (s\<lparr>g_heap := h, g_plan := Some p\<rparr>))"
      by (simp add: y session_from_def)
  qed
qed

lemma session_world_keeps:
  assumes "lists_of s = l"
  shows "lists_of (snd (run_spec (session_system os) opts spec s)) = l"
    "lists_of (snd (to_work_directory (session_system os) s)) = l"
    "lists_of (snd (from_work_directory (session_system os) s)) = l"
  using assms by (simp_all add: run_spec_def perform_command_def session_system_def Let_def case_prod_beta split: option.split)

lemma session_apply_plan_keeps:
  assumes s: "session_from k s" and p: "plan_below (next_addr (g_heap s)) p"
  shows "holds (\<lambda>r. session_from k (snd r)) (session_apply_plan os p s)"
proof -
  let ?n = "next_addr (g_heap s)" and ?ok = "\<lambda>s'. lists_of s' = lists_of s"
  have h: "heap_from ?n (g_heap s)" using s by (simp add: session_from_def heap_from_def)
  show ?thesis
    unfolding session_apply_plan_def
  proof (rule holds_bind [OF apply_plan_keeps [where ok = ?ok, OF session_world_keeps h refl p refl]])
    fix y :: "bool \<times> 'a session outcome"
    obtain b out where y: "y = (b, out)" by (cases y)
    assume "outcome_at ?ok ?n (set (g_work_files s)) (snd y)"
    then have out: "heap_from ?n (out_heap out)" "next_addr (out_heap out) = ?n" "set (out_work out) \<subseteq> set (g_work_files s)"
      "plan_below ?n (out_plan out)" "g_edit_file_list (out_world out) = g_edit_file_list s"
      by (simp_all add: y outcome_at_def lists_of_def)
    have "session_from k (s\<lparr>g_heap := out_heap out, g_work_files := out_work out, g_edit_file_list := g_edit_file_list s,
        g_plan := Some (out_plan out)\<rparr>)"
      by (rule new_heap_from [OF s out(1) _ session_lists_below(2) [OF s out(1)]])
        (use out session_lists_below(1) [OF s out(1)] in auto)
    then show "holds (\<lambda>r. session_from k (snd r)) (case y of (ok, out) \<Rightarrow> Some (ok, notify_all (map Apply_Notice (out_messages out))
            ((out_world out)\<lparr>g_heap := out_heap out, g_plan := Some (out_plan out), g_work_files := out_work out\<rparr>)))"
      using out(5) by (simp add: y session_from_def notify_all_def)
  qed simp_all
qed

lemma apply_command_keeps:
  assumes s: "session_from k s"
  shows "gives (session_from k) (apply_command os s)"
proof (cases "g_plan s")
  case (Some p)
  then have p: "plan_below (next_addr (g_heap s)) p" using s by (simp add: session_from_def)
  have "gives (\<lambda>r. session_from k (snd r)) (defined (session_apply_plan os p s))"
    using session_apply_plan_keeps [OF s p] by simp
  then show ?thesis unfolding apply_command_def Some option.case by (rule gives_after) auto
qed (simp add: apply_command_def s)

lemma display_keeps: "session_from k s \<Longrightarrow> gives (session_from k) (session_display_plan p s)"
  by (cases "display_plan (program (g_options s)) (g_heap s) p") (simp_all add: session_display_plan_def)

lemma replan_keeps: "session_from k s \<Longrightarrow> gives (\<lambda>r. session_from k (snd r)) (replan os s)"
  using session_make_plan_keeps [of k s os] display_keeps [of k]
  by (auto simp: replan_def intro!: gives_after [of "session_from k"] split: option.split)

lemma session_from_reader:
  assumes s: "session_from k s" and h: "heap_from (next_addr (g_heap s)) h" and n: "next_addr h = next_addr (g_heap s)"
  shows "session_from k (s\<lparr>g_heap := h\<rparr>)"
  using s h n by (auto simp: session_from_def heap_from_def)

lemma format_input_keeps: "session_from k s \<Longrightarrow> holds (\<lambda>r. session_from k (snd r)) (format_input fmt ins files s)"
proof -
  assume s: "session_from k s"
  let ?n = "next_addr (g_heap s)"
  have "heap_from ?n (g_heap s)" using s by (simp add: session_from_def heap_from_def)
  note inputs = reader_inputs_keep [OF this refl]
  have "holds (read_at ?n) (format_read fmt ins files s)"
    by (cases fmt) (auto intro: inputs)
  then have "holds (read_at ?n) (if g_indicator s fmt = Freed then None else format_read fmt ins files s)" by simp
  then show ?thesis
    unfolding format_input_def
    by (rule holds_bind) (auto simp: reader_at_def intro: session_from_reader [OF s])
qed

lemma format_output_keeps: "holds (\<lambda>r. lists_of (snd r) = lists_of s) (format_output fmt isprint files s)"
proof -
  have bind: "holds P (Option.bind x f)" if "\<And>t. holds P (f t)" for P f and x :: "'z option"
    using that by (cases x) simp_all
  have "holds (\<lambda>r. lists_of (snd r) = lists_of s) (format_write fmt isprint files s)"
    by (cases fmt) (auto intro!: bind)
  then show ?thesis by (simp add: format_output_def)
qed

lemma reset_status_keeps:
  "heap_from k h \<Longrightarrow> next_addr h = n \<Longrightarrow> holds (\<lambda>h'. heap_from k h' \<and> next_addr h' = n) (reset_status as h)"
proof (induction as arbitrary: h)
  case (Cons a as)
  show ?case
    unfolding reset_status.simps
    by (rule holds_modify [OF Cons.prems(1)]) (simp add: Cons.IH Cons.prems(2))
qed simp

lemma session_from_edit: "session_from k s \<Longrightarrow> set fs \<subseteq> {..<next_addr (g_heap s)} \<Longrightarrow> session_from k (s\<lparr>g_edit_file_list := fs\<rparr>)"
  by (auto simp: session_from_def)

lemma read_edit_file_keeps:
  assumes s: "session_from k s"
  shows "holds (\<lambda>r. session_from k (snd r)) (read_edit_file os s)"
proof (cases "on_world (os_fopen_read os (g_edit_filename s)) s")
  case (Pair ins s1)
  have s1: "session_from k s1"
    using on_world_lists [of "os_fopen_read os (g_edit_filename s)" s] Pair s by (simp add: session_from_same [of s1 s])
  have close: "holds (\<lambda>r. session_from k (snd r)) (do { h \<leftarrow> reset_status (g_edit_file_list s3) (g_heap s3);
       Some (True, s3\<lparr>g_accept_reedit := False, g_heap := h, g_edit_file_list := []\<rparr>) })"
    if s3: "session_from k s3" for s3 :: "'a session"
  proof -
    have "heap_from (next_addr (g_heap s3)) (g_heap s3)" using s3 by (simp add: session_from_def heap_from_def)
    from reset_status_keeps [OF this refl] show ?thesis
      by (rule holds_bind) (use s3 in \<open>auto simp: session_from_def heap_from_def\<close>)
  qed
  have world: "session_from k (snd (on_world f s))" if "session_from k s" for s :: "'a session" and f :: "'a \<Rightarrow> bool \<times> 'a"
    using that session_from_same [of "snd (on_world f s)" s k] by simp
  show ?thesis
  proof (cases ins)
    case None
    then show ?thesis using Pair s1 by (simp add: read_edit_file_def)
  next
    case (Some i)
    have "holds (\<lambda>r. session_from k (snd r)) (do { (ok, s) \<leftarrow> format_input (g_format s1) i (g_edit_file_list s1) s1;
               if \<not> ok then Some (False, s)
               else case on_world (os_fclose_read os (g_edit_filename s)) s of
                 (closed, s) \<Rightarrow>
                   let s = (if \<not> closed then notify (Edit_Says (Cannot_Close (g_edit_filename s))) s else s);
                       s = s\<lparr>g_accept_reedit := False\<rparr> in
                   do { h \<leftarrow> reset_status (g_edit_file_list s) (g_heap s);
                        Some (True, s\<lparr>g_heap := h, g_edit_file_list := []\<rparr>) } })"
      by (rule holds_bind [OF format_input_keeps [OF s1]])
        (auto simp: case_prod_beta Let_def simp del: notify_fields intro!: close world)
    then show ?thesis by (simp add: read_edit_file_def Pair Some)
  qed
qed

lemma run_editor_keeps: "session_from k s \<Longrightarrow> holds (\<lambda>r. session_from k (snd r)) (run_editor os s)"
  using read_edit_file_keeps [of k "snd (on_world (os_system os (g_editor_program s @ '' '' @ g_edit_filename s)) s)" os]
  by (auto simp: run_editor_def case_prod_beta session_from_same [of "snd (on_world _ s)" s])

lemma files_to_edit_below: "session_from k s \<Longrightarrow> set (files_to_edit all s) \<subseteq> {..<next_addr (g_heap s)}"
  by (cases "g_plan s") (auto simp: files_to_edit_def session_from_def plan_below_def)

lemma write_edit_file_keeps:
  assumes s: "session_from k s"
  shows "holds (\<lambda>r. session_from k (snd r)) (write_edit_file os s)"
proof -
  have none: "session_from k (s\<lparr>g_edit_file_list := []\<rparr>)" if "session_from k s" for s :: "'a session"
    using session_from_edit [OF that, of "[]"] by simp
  have world: "session_from k (snd (on_world f s))" if "session_from k s" for s :: "'a session" and f :: "'a \<Rightarrow> bool \<times> 'a"
    using that session_from_same [of "snd (on_world f s)" s k] by simp
  have accept: "session_from k (s\<lparr>g_accept_reedit := b\<rparr>)" if "session_from k s" for s :: "'a session" and b
    using that session_from_same [of "s\<lparr>g_accept_reedit := b\<rparr>" s k] by simp
  have out: "holds (\<lambda>r. session_from k (snd r)) (format_output fmt isprint files s)" if "session_from k s" for fmt isprint files and s :: "'a session"
    using format_output_keeps [of s fmt isprint files] that
    by (auto simp: holds_def intro: session_from_same [THEN iffD2])
  show ?thesis
    using s unfolding write_edit_file_def
    by (auto simp: case_prod_beta simp del: notify_fields split: bool.split
        intro!: none accept world holds_bind [of "\<lambda>r. session_from k (snd r)"] out)
qed

lemma prepare_edit_keeps: "session_from k s \<Longrightarrow> holds (\<lambda>r. session_from k (snd r)) (prepare_edit os all s)"
proof -
  assume s: "session_from k s"
  let ?s = "s\<lparr>g_accept_reedit := False, g_edit_file_list := files_to_edit all s\<rparr>"
  have "session_from k ?s"
    using s files_to_edit_below [OF s, of all] by (auto simp: session_from_def)
  moreover have "session_from k (s\<lparr>g_accept_reedit := False, g_edit_file_list := []\<rparr>)"
    using s by (simp add: session_from_def)
  ultimately show ?thesis using write_edit_file_keeps [of k ?s os] by (simp add: prepare_edit_def Let_def)
qed

lemma edit_files_from: "session_from k s \<Longrightarrow> holds (\<lambda>r. session_from k (snd r)) (edit_files os all force s)"
  using prepare_edit_keeps [of k s os all]
  by (auto simp: edit_files_def intro!: holds_bind [of "\<lambda>r. session_from k (snd r)"] run_editor_keeps)

lemma edit_command_keeps: "session_from k s \<Longrightarrow> gives (session_from k) (edit_command os args s)"
  by (auto simp: edit_command_def Let_def intro!: gives_after [of "\<lambda>r. session_from k (snd r)"] edit_files_from replan_keeps)

lemma session_import_keeps:
  assumes s: "session_from k s"
  shows "gives (session_from k) (session_import os args s)"
proof -
  let ?n = "next_addr (g_heap s)"
  have h: "heap_from ?n (g_heap s)" "\<forall>a \<in> set (g_work_files s). a < ?n" using s by (auto simp: session_from_def heap_from_def)
  have new: "session_from k (s'\<lparr>g_heap := h', g_work_files := files\<rparr>)"
    if "heap_from ?n h'" "\<forall>a \<in> set files. a < next_addr h'" "lists_of s' = lists_of s" for s' :: "'a session" and h' files
    using new_heap_from [OF s that(1,2) session_lists_below(2) [OF s that(1)], of "g_plan s"]
      session_lists_below(3) [OF s that(1)] that(3)
    by (simp add: session_from_def lists_of_def)
  show ?thesis
    unfolding session_import_def
    by (rule gives_after [of "\<lambda>(ns, h', files). heap_from ?n h' \<and> (\<forall>a \<in> set files. a < next_addr h')"])
      (use import_command_keeps [OF h order_refl] in \<open>auto simp: Let_def intro!: new\<close>)
qed

text \<open>Listing.\<close>

lemma end_listing_lists_of: "gives (\<lambda>r. lists_of (snd r) = lists_of s) (end_listing os pid fd ok s)"
  unfolding gives_def
proof (intro allI impI)
  fix y assume "end_listing os pid fd ok s = Inr y"
  then have "end_listing os pid fd ok s = Inr (fst y, snd y)" by simp
  from end_listing_steps [OF this] show "lists_of (snd y) = lists_of s"
    by (metis clean_ls_lists_of lists_of_steps(1))
qed

lemma read_listing_keeps:
  assumes s: "session_from k s"
  shows "gives (\<lambda>r. session_from k (snd r)) (read_listing os dir pid fd s)"
  unfolding gives_def
proof (intro allI impI)
  fix y assume "read_listing os dir pid fd s = Inr y"
  then have "read_listing os dir pid fd s = Inr (fst y, snd y)" by simp
  then show "session_from k (snd y)"
  proof (rule read_listing_steps, goal_cases)
    case (1 h ok0 h' files already)
    have "heap_from (next_addr (g_heap s)) (g_heap s)" using s by (simp add: session_from_def heap_from_def)
    from free_files_from [OF 1(1) this] have h: "heap_from (next_addr (g_heap s)) h" by simp
    note new = process_ls_output_keeps [OF 1(2) h]
    let ?s = "s\<lparr>g_edit_file_list := [], g_plan := None, g_world := snd (os_fdopen os fd (g_world s)), g_heap := h', g_work_files := files\<rparr>"
    have "session_from k ?s" using new session_from_k [OF s] by (auto simp: session_from_def heap_from_def)
    moreover have "lists_of (snd y) = lists_of ?s"
      using end_listing_lists_of [of "notify_all (map (Ls_Says \<circ> Listed_Already) already) ?s" os pid fd ok0] 1(3)
      by (simp add: gives_def)
    ultimately show ?case by (simp add: session_from_same [of "snd y" ?s])
  qed
qed

lemma list_files_keeps:
  assumes s: "session_from k s"
  shows "gives (\<lambda>r. session_from k (snd r)) (list_files os args s)"
proof -
  let ?s = "s\<lparr>g_work_directory := ''.''\<rparr>"
  obtain ok fd la s1 where collect: "collect_arguments os (first_directory args ?s) 0 args (ls_command_line ?s) ?s = (ok, fd, la, s1)"
    by (metis prod.exhaust)
  obtain went pid ls_fd s2 where run: "run_ls os la s1 = ((went, pid, ls_fd), s2)" by (metis prod.exhaust)
  obtain left s3 where back_: "cwd_from_work_directory os s2 = (left, s3)" by (cases "cwd_from_work_directory os s2")
  have same: "session_from k s' = session_from k s" if "lists_of s' = lists_of s" for s' :: "'a session"
    using that by (rule session_from_same)
  have l1: "lists_of s1 = lists_of s" using collect_lists_of [OF collect] by simp
  then have l2: "lists_of s2 = lists_of s" using run_ls_lists_of [of os la s1] run by simp
  then have l3: "lists_of s3 = lists_of s" using cwd_lists_of(1) [of os s2] back_ by simp
  have s3: "session_from k s3" using same [OF l3] s by simp
  have clean: "session_from k (snd (clean_ls os pid ls_fd s'))" if "lists_of s' = lists_of s" for s' :: "'a session"
    using same [of "snd (clean_ls os pid ls_fd s')"] that s by simp
  show ?thesis
  proof (cases "ok \<and> went \<and> left")
    case True
    then show ?thesis using read_listing_keeps [OF s3] by (simp add: list_files_def collect run back_ Let_def)
  next
    case False
    then show ?thesis
      using same [OF l1] s l2 l3
      by (auto simp: list_files_def collect run back_ Let_def case_prod_beta intro!: clean split: bool.split)
  qed
qed

lemma list_command_keeps: "session_from k s \<Longrightarrow> gives (session_from k) (list_command getopt os args s)"
proof -
  assume s: "session_from k s"
  let ?s = "add_ls_options (pa_options (getopt args)) (s\<lparr>g_ls_options := []\<rparr>)"
  have "session_from k ?s" using s session_from_same [of ?s s k] by (simp add: add_ls_options_def)
  then show ?thesis
    by (auto simp: list_command_def Let_def intro!: gives_after [of "\<lambda>r. session_from k (snd r)"] list_files_keeps)
qed

lemma handler_keeps: "session_from k s \<Longrightarrow> gives (session_from k) (handler lib os c args s)"
proof -
  assume s: "session_from k s"
  have same: "session_from k s'" if "lists_of s' = lists_of s" for s' :: "'a session"
    using session_from_same [OF that] s by simp
  show ?thesis
    by (cases c) (auto simp: plan_command_def s
        intro!: same apply_command_keeps edit_command_keeps session_import_keeps list_command_keeps display_keeps
        split: option.split)
qed

lemma run_line_keeps: "session_from k s \<Longrightarrow> gives (session_from k) (run_line lib os line s)"
proof -
  assume s: "session_from k s"
  have words: "gives (session_from k) (run_words lib os words s)" for words
    using handler_keeps [OF s] s by (auto simp: run_words_def split: list.split option.split)
  have free: "session_from k (free_words s')" if "session_from k s'" for s' :: "'a session"
    using that session_from_same [of "free_words s'" s' k] by simp
  show ?thesis
    by (auto simp: run_line_def s split: sum.split word_error.split intro!: gives_after [OF words] free)
qed

subsection \<open>The machine\<close>

inductive session_step :: "library \<Rightarrow> 'w os \<Rightarrow> 'w session \<Rightarrow> 'w session \<Rightarrow> bool" for lib os where
  step_line: "g_running s \<Longrightarrow> run_line lib os line s = Inr s' \<Longrightarrow> session_step lib os s s'"
| step_end: "g_running s \<Longrightarrow> session_step lib os s (terminate_program s)"

inductive_cases session_stepE: "session_step lib os s s'"

inductive reachable :: "library \<Rightarrow> 'w os \<Rightarrow> 'w session \<Rightarrow> 'w session \<Rightarrow> bool" for lib os s0 where
  reach_start: "reachable lib os s0 s0"
| reach_step: "reachable lib os s0 s \<Longrightarrow> session_step lib os s s' \<Longrightarrow> reachable lib os s0 s'"

lemma reachable_first: "reachable lib os s1 s \<Longrightarrow> session_step lib os s0 s1 \<Longrightarrow> reachable lib os s0 s"
  by (induction rule: reachable.induct) (blast intro: reachable.intros)+

text \<open>The lines one after the other.\<close>

lemma commandmode_loop_append:
  "commandmode_loop lib os (lines @ lines') s = after (commandmode_loop lib os lines s) (commandmode_loop lib os lines')"
proof (induction lines arbitrary: s)
  case (Cons line lines)
  have stopped: "commandmode_loop lib os lines' s = Inr s" if "\<not> g_running s" using that by (cases lines') simp_all
  let ?x = "case line of None \<Rightarrow> Inr (terminate_program s) | Some l \<Rightarrow> run_line lib os l s"
  show ?case by (cases ?x) (simp_all add: Cons.IH stopped)
qed simp

lemma loop_reachable: "commandmode_loop lib os lines s0 = Inr s \<Longrightarrow> reachable lib os s0 s"
proof (induction lines arbitrary: s0)
  case (Cons line lines)
  show ?case
  proof (cases "g_running s0")
    case True
    then obtain s1 where s1: "(case line of None \<Rightarrow> Inr (terminate_program s0) | Some l \<Rightarrow> run_line lib os l s0) = Inr s1"
        "commandmode_loop lib os lines s1 = Inr s"
      using Cons.prems by (auto simp: after_Inr)
    then have "session_step lib os s0 s1"
      using True by (cases line) (auto intro: session_step.intros)
    then show ?thesis by (rule reachable_first [OF Cons.IH [OF s1(2)]])
  qed (use Cons.prems in \<open>auto intro: reach_start\<close>)
qed (auto intro: reach_start)

lemma reachable_loop: "reachable lib os s0 s \<Longrightarrow> \<exists>lines. commandmode_loop lib os lines s0 = Inr s"
proof (induction rule: reachable.induct)
  case reach_start
  show ?case by (rule exI [of _ "[]"]) simp
next
  case (reach_step s s')
  then obtain lines where lines: "commandmode_loop lib os lines s0 = Inr s" by blast
  from reach_step.hyps(2) obtain line where "commandmode_loop lib os [line] s = Inr s'"
  proof (cases rule: session_step.cases)
    case (step_line l)
    then show ?thesis using that [of "Some l"] by simp
  next
    case step_end
    then show ?thesis using that [of None] by simp
  qed
  then have "commandmode_loop lib os (lines @ [line]) s0 = Inr s'"
    unfolding commandmode_loop_append lines by simp
  then show ?case by blast
qed

definition session_invariant :: "'w session \<Rightarrow> bool" where
  "session_invariant s \<longleftrightarrow> session_from 0 s \<and> (\<forall>f. g_indicator s f \<noteq> In_Words)"

lemma run_line_indicators:
  assumes "run_line lib os line s = Inr s'" "\<forall>f. g_indicator s f \<noteq> In_Words"
  shows "\<forall>f. g_indicator s' f \<noteq> In_Words"
proof (cases "lib_wordexp lib line")
  case (Inl e)
  then show ?thesis using assms by (cases e) (auto simp: run_line_def notify_def)
next
  case (Inr words)
  then obtain s1 where "s' = free_words s1" using assms(1) by (auto simp: run_line_def after_Inr)
  then show ?thesis by (simp add: free_words_def)
qed

lemma step_keeps_invariant:
  assumes "session_step lib os s s'" "session_invariant s"
  shows "session_invariant s' \<and> next_addr (g_heap s) \<le> next_addr (g_heap s')"
  using assms(1)
proof (cases rule: session_step.cases)
  case (step_line line)
  have "session_from (next_addr (g_heap s)) s" using assms(2) session_from_next by (auto simp: session_invariant_def)
  from run_line_keeps [OF this, of lib os line] step_line(2)
  have "session_from (next_addr (g_heap s)) s'" by (simp add: gives_def)
  then show ?thesis
    using run_line_indicators [OF step_line(2)] assms(2) session_from_mono session_from_k
    by (auto simp: session_invariant_def)
next
  case step_end
  then have "lists_of s' = lists_of s" by simp
  moreover have "g_indicator s' = g_indicator s" unfolding step_end(1) by (simp add: terminate_program_def Let_def notify_def notify_all_def)
  ultimately show ?thesis
    using assms(2) session_from_same [of s' s 0] by (simp add: session_invariant_def lists_of_def)
qed

lemma reachable_keeps_invariant:
  "reachable lib os s0 s \<Longrightarrow> session_invariant s0 \<Longrightarrow>
   session_invariant s \<and> next_addr (g_heap s0) \<le> next_addr (g_heap s)"
  by (induction rule: reachable.induct) (auto dest: step_keeps_invariant order_trans)

end
