(* ===== verification/Deurlname.thy ===== *)
theory Deurlname
  imports String_Utils Strbuf List_Files
begin

text \<open>
  The program \<open>deurlname\<close>, \<open>src/src/deurlname.c\<close>: it renames files whose names hold URL escapes.  The
  new name is built in a string buffer; \<open>url_decode\<close> is the same on strings.  \<open>rename\<close> and
  \<open>getopt_long\<close> are arguments.
\<close>

unbundle bit_operations_syntax

subsection \<open>The new name\<close>

definition isxdigit :: "char \<Rightarrow> bool" where
  "isxdigit c \<longleftrightarrow> 48 \<le> byte c \<and> byte c \<le> 57 \<or> 65 \<le> byte c \<and> byte c \<le> 70 \<or> 97 \<le> byte c \<and> byte c \<le> 102"

definition hexvalue :: "char \<Rightarrow> int" where
  "hexvalue c =
     (if 48 \<le> schar c \<and> schar c \<le> 57 then schar c - 48
      else if 65 \<le> schar c \<and> schar c \<le> 70 then schar c - 65 + 10
      else schar c - 97 + 10)"

definition escaped_char :: "char \<Rightarrow> char \<Rightarrow> char" where
  "escaped_char a b = char_of (push_bit 4 (hexvalue a) OR hexvalue b)"

abbreviation PERCENT :: char where "PERCENT \<equiv> CHR 0x25"

text \<open>An escape that is decoded: two hexadecimal digits that are neither NUL nor the slash.\<close>

definition escape :: "char \<Rightarrow> char \<Rightarrow> char \<Rightarrow> bool" where
  "escape ch a b \<longleftrightarrow> ch = PERCENT \<and> isxdigit a \<and> isxdigit b \<and>
     escaped_char a b \<noteq> NUL \<and> escaped_char a b \<noteq> CHR ''/''"

fun deurl_loop :: "string \<Rightarrow> strbuf \<Rightarrow> strbuf option" where
  "deurl_loop [] buf = Some buf"
| "deurl_loop (ch # a # b # name) buf =
     (if escape ch a b
      then do { buf \<leftarrow> strbuf_append_char buf (escaped_char a b); deurl_loop name buf }
      else do { buf \<leftarrow> strbuf_append_char buf ch; deurl_loop (a # b # name) buf })"
| "deurl_loop (ch # name) buf =
     do { buf \<leftarrow> strbuf_append_char buf ch; deurl_loop name buf }"

definition strbuf_append_substring :: "strbuf \<Rightarrow> string \<Rightarrow> word32 \<Rightarrow> word32 \<Rightarrow> strbuf option" where
  "strbuf_append_substring sb str ssp sep =
     strbuf_replace_substring_n sb (-1) (-1) 1 (Some (str @ [NUL])) ssp sep"

definition deurl_name :: "string \<Rightarrow> strbuf \<Rightarrow> strbuf option" where
  "deurl_name name buf =
     do { buf \<leftarrow> strbuf_clear buf;
          case last_slash name of
            None \<Rightarrow> deurl_loop name buf
          | Some i \<Rightarrow>
              do { buf \<leftarrow> strbuf_append_substring buf name 0 (of_nat (i + 1));
                   deurl_loop (drop (i + 1) name) buf } }"

subsection \<open>The files\<close>

datatype deurl_notice = Renamed string string | Cannot_Rename string string

text \<open>The result: what was printed, whether the exit status is 0, the buffer and the world.\<close>

fun deurl_files ::
  "('w \<Rightarrow> string \<Rightarrow> string \<Rightarrow> bool \<times> 'w) \<Rightarrow> bool \<Rightarrow> string list \<Rightarrow> strbuf \<Rightarrow> 'w
     \<Rightarrow> (deurl_notice list \<times> bool \<times> 'w) option" where
  "deurl_files rename verbose [] buf w = Some ([], True, w)"
| "deurl_files rename verbose (name # names) buf w =
     do { buf \<leftarrow> deurl_name name buf;
          newname \<leftarrow> read_string (sb_buf buf);
          if strcmp name newname \<noteq> 0 then
            case rename w name newname of
              (went, w) \<Rightarrow>
                do { (ns, ok, w) \<leftarrow> deurl_files rename verbose names buf w;
                     Some ((if verbose then [Renamed name newname] else []) @
                           (if went then [] else [Cannot_Rename name newname]) @ ns, went \<and> ok, w) }
          else deurl_files rename verbose names buf w }"

definition DEURL_VERSION_OPT :: nat where "DEURL_VERSION_OPT = 256"
definition DEURL_HELP_OPT :: nat where "DEURL_HELP_OPT = 257"

text \<open>The loop over the options: \<open>--version\<close> and \<open>--help\<close> end the program.\<close>

fun deurl_options :: "nat list \<Rightarrow> bool \<Rightarrow> stop + bool" where
  "deurl_options [] verbose = Inr verbose"
| "deurl_options (c # cs) verbose =
     (if c = byte CHR ''v'' then deurl_options cs True
      else if c = DEURL_VERSION_OPT \<or> c = DEURL_HELP_OPT then Inl (Exit_Status 0)
      else deurl_options cs verbose)"

definition deurl_main ::
  "(string list \<Rightarrow> parsed_args) \<Rightarrow> ('w \<Rightarrow> string \<Rightarrow> string \<Rightarrow> bool \<times> 'w) \<Rightarrow> string list \<Rightarrow> 'w
     \<Rightarrow> stop + (deurl_notice list \<times> nat \<times> 'w)" where
  "deurl_main getopt rename args w =
     (let parsed = getopt args in
      after (deurl_options (map fst (pa_options parsed)) False) (\<lambda>verbose.
        if pa_error parsed then Inl (Exit_Status 1)
        else if pa_operands parsed = [] then Inl Died
        else after (defined (deurl_files rename verbose (pa_operands parsed) strbuf_new w)) (\<lambda>(ns, ok, w).
          Inr (ns, if ok then 0 else 1, w))))"

subsection \<open>On strings\<close>

fun url_decode :: "string \<Rightarrow> string" where
  "url_decode [] = []"
| "url_decode (ch # a # b # name) =
     (if escape ch a b then escaped_char a b # url_decode name else ch # url_decode (a # b # name))"
| "url_decode (ch # name) = ch # url_decode name"

definition decode_path :: "string \<Rightarrow> string" where
  "decode_path name =
     (case last_slash name of
        None \<Rightarrow> url_decode name
      | Some i \<Rightarrow> take (i + 1) name @ url_decode (drop (i + 1) name))"

lemma url_decode_length: "length (url_decode name) \<le> length name"
  by (induction name rule: url_decode.induct) auto

lemma url_decode_cstr: "cstr name \<Longrightarrow> cstr (url_decode name)"
  by (induction name rule: url_decode.induct) (auto simp: cstr_def escape_def)

lemma url_decode_slash: "CHR ''/'' \<in> set (url_decode name) \<longleftrightarrow> CHR ''/'' \<in> set name"
proof (induction name rule: url_decode.induct)
  case (2 ch a b name)
  have "escape ch a b \<Longrightarrow> ch \<noteq> CHR ''/'' \<and> a \<noteq> CHR ''/'' \<and> b \<noteq> CHR ''/'' \<and> escaped_char a b \<noteq> CHR ''/''"
    by (auto simp: escape_def isxdigit_def byte_def)
  then show ?case using 2 by auto
qed simp_all

lemma deurl_loop_rep:
  "sb_rep buf s \<Longrightarrow> cstr name \<Longrightarrow> length s + length name + 2 < 2 ^ 31 \<Longrightarrow>
   \<exists>buf'. deurl_loop name buf = Some buf' \<and> sb_rep buf' (s @ url_decode name)"
proof (induction name buf arbitrary: s rule: deurl_loop.induct [case_names empty three one two])
  case (three ch a b name buf)
  show ?case
  proof (cases "escape ch a b")
    case True
    then have "append_char s (escaped_char a b) = s @ [escaped_char a b]" by (simp add: append_char_def escape_def)
    with append_char_rep [OF three(3), of "escaped_char a b"] three(5) obtain buf1 where
      "strbuf_append_char buf (escaped_char a b) = Some buf1" "sb_rep buf1 (s @ [escaped_char a b])" by auto
    with three(1) [OF True this] three(4,5) True show ?thesis by (auto simp: cstr_def)
  next
    case False
    have "append_char s ch = s @ [ch]" using three(4) by (auto simp: append_char_def cstr_def)
    with append_char_rep [OF three(3), of ch] three(5) obtain buf1 where
      "strbuf_append_char buf ch = Some buf1" "sb_rep buf1 (s @ [ch])" by auto
    with three(2) [OF False this] three(4,5) False show ?thesis by (auto simp: cstr_def)
  qed
next
  case (one ch buf)
  have "append_char s ch = s @ [ch]" using one(3) by (auto simp: append_char_def cstr_def)
  with append_char_rep [OF one(2), of ch] one(4) show ?case by auto
next
  case (two ch v buf)
  have "append_char s ch = s @ [ch]" using two(3) by (auto simp: append_char_def cstr_def)
  with append_char_rep [OF two(2), of ch] two(4) obtain buf1 where
    "strbuf_append_char buf ch = Some buf1" "sb_rep buf1 (s @ [ch])" by auto
  with two(1) [OF this] two(3,4) show ?case by (auto simp: cstr_def)
qed simp_all

lemma append_substring_rep:
  assumes "sb_rep buf s" "cstr name" "n \<le> length name" "length s + length name + 1 < 2 ^ 31"
  shows "\<exists>buf'. strbuf_append_substring buf name 0 (of_nat n) = Some buf' \<and> sb_rep buf' (s @ take n name)"
proof -
  have norm: "swap_positions (normalize_strbuf_pos buf (-1)) (normalize_strbuf_pos buf (-1)) =
      (of_nat (length s), of_nat (length s))"
    by (simp add: normalize_strbuf_pos_rep [OF assms(1)] swap_positions_def)
  have "takeWhile (\<lambda>c. c \<noteq> NUL) (take n name) = take n name"
    using assms(2) by (auto simp: cstr_def takeWhile_eq_all_conv dest: in_set_takeD)
  then have "length (takeWhile (\<lambda>c. c \<noteq> NUL) (take n (name @ [NUL]))) = n"
    using assms(3) by (simp del: takeWhile_eq_all_conv)
  then have pos: "normalize_str_pos (Some (name @ [NUL])) (of_nat n) = Some (of_nat n)"
    using assms(3,4) by (simp add: normalize_str_pos_def strnlen_def)
  from replace_data_rep [OF assms(1) order_refl order_refl norm, of 1 n "name @ [NUL]"] pos assms(3,4)
    swap_positions_0 [of n]
  show ?thesis by (auto simp: strbuf_append_substring_def strbuf_replace_substring_n_def)
qed

text \<open>The buffer holds the decoded name, with the directory as it was.\<close>

lemma deurl_name_rep:
  assumes "sb_rep buf s" "cstr name" "length name + 2 < 2 ^ 31"
  shows "\<exists>buf'. deurl_name name buf = Some buf' \<and> sb_rep buf' (decode_path name)"
proof -
  from strbuf_clear_rep [OF assms(1)] obtain buf1 where buf1: "strbuf_clear buf = Some buf1" "sb_rep buf1 []" by blast
  show ?thesis
  proof (cases "last_slash name")
    case None
    with deurl_loop_rep [OF buf1(2) assms(2)] buf1(1) assms(3) show ?thesis
      by (simp add: deurl_name_def decode_path_def)
  next
    case (Some i)
    with last_slash_Some [OF Some] have i: "i + 1 \<le> length name" by simp
    from append_substring_rep [OF buf1(2) assms(2) i] assms(3) obtain buf2 where
      buf2: "strbuf_append_substring buf1 name 0 (of_nat (i + 1)) = Some buf2" "sb_rep buf2 (take (i + 1) name)" by auto
    have "cstr (drop (i + 1) name)" using assms(2) by (auto simp: cstr_def dest: in_set_dropD)
    moreover have "length (take (i + 1) name) + length (drop (i + 1) name) + 2 < 2 ^ 31" using i assms(3) by simp
    ultimately obtain buf3 where
      "deurl_loop (drop (i + 1) name) buf2 = Some buf3" "sb_rep buf3 (take (i + 1) name @ url_decode (drop (i + 1) name))"
      using deurl_loop_rep [OF buf2(2)] by blast
    then show ?thesis using buf1(1) buf2(1) Some by (simp add: deurl_name_def decode_path_def)
  qed
qed

lemma decode_path_cstr: "cstr name \<Longrightarrow> cstr (decode_path name)"
  using url_decode_cstr [of name] url_decode_cstr [of "drop (_ + 1) name"]
  by (auto simp: decode_path_def cstr_def split: option.split dest: in_set_takeD in_set_dropD)

lemma read_buffer: "sb_rep buf s \<Longrightarrow> cstr s \<Longrightarrow> read_string (sb_buf buf) = Some s"
  by (auto simp: sb_rep_def read_string_block)

lemma last_slash_append: "CHR ''/'' \<notin> set t \<Longrightarrow> last_slash (s @ CHR ''/'' # t) = Some (length s)"
  using last_slash_None [of t] by (induction s) simp_all

text \<open>No name changes its directory.\<close>

lemma decode_path_directory: "last_slash (decode_path name) = last_slash name"
proof (cases "last_slash name")
  case None
  then have "last_slash (url_decode name) = None" using url_decode_slash [of name] by (simp add: last_slash_None)
  with None show ?thesis by (simp add: decode_path_def)
next
  case (Some i)
  note s = last_slash_Some [OF Some]
  have "take (i + 1) name = take i name @ [CHR ''/'']"
    using s by (metis Suc_eq_plus1 take_Suc_conv_app_nth nth_append_length length_take min.absorb2 less_imp_le)
  then have "decode_path name = take i name @ CHR ''/'' # url_decode (drop (i + 1) name)"
    using Some by (simp add: decode_path_def)
  then show ?thesis
    using last_slash_append [of "url_decode (drop (i + 1) name)" "take i name"] url_decode_slash [of "drop (i + 1) name"] s Some
    by simp
qed

subsection \<open>Encoding\<close>

text \<open>Each byte as an escape, and back.\<close>

definition hex_digit :: "nat \<Rightarrow> char" where
  "hex_digit n = char_of (if n < 10 then 48 + n else 55 + n)"

definition url_encode :: "string \<Rightarrow> string" where
  "url_encode s = concat (map (\<lambda>c. [PERCENT, hex_digit (byte c div 16), hex_digit (byte c mod 16)]) s)"

lemma hex_digit_value: "n < 16 \<Longrightarrow> isxdigit (hex_digit n) \<and> hexvalue (hex_digit n) = int n"
  by (auto simp: isxdigit_def hexvalue_def hex_digit_def schar_def)

lemma high_digit [simp]: "byte c div 16 < 16"
  using byte_less [of c] by presburger

lemma escaped_hex: "escaped_char (hex_digit (byte c div 16)) (hex_digit (byte c mod 16)) = c"
proof -
  have split: "int (byte c mod 16) = take_bit 4 (int (byte c))" "int (byte c div 16) = drop_bit 4 (int (byte c))"
    by (simp_all add: take_bit_eq_mod drop_bit_eq_div zmod_int zdiv_int)
  have "push_bit 4 (drop_bit 4 (int (byte c))) OR take_bit 4 (int (byte c)) = int (byte c)"
    by (rule bit_eqI) (auto simp: bit_simps)
  then have "push_bit 4 (int (byte c div 16)) OR int (byte c mod 16) = int (byte c)" unfolding split .
  then show ?thesis by (simp add: escaped_char_def hex_digit_value)
qed

lemma url_decode_encode: "NUL \<notin> set s \<Longrightarrow> CHR ''/'' \<notin> set s \<Longrightarrow> url_decode (url_encode s) = s"
proof (induction s)
  case (Cons c s)
  from Cons.prems have "escape PERCENT (hex_digit (byte c div 16)) (hex_digit (byte c mod 16))"
    by (auto simp: escape_def escaped_hex hex_digit_value)
  then show ?case using Cons by (simp add: url_encode_def escaped_hex)
qed (simp add: url_encode_def)

lemma url_encode_chars: "c \<in> set (url_encode s) \<Longrightarrow> c = PERCENT \<or> isxdigit c"
  by (induction s) (auto simp: url_encode_def hex_digit_value)

lemma url_encode_plain: "cstr (url_encode s)" "CHR ''/'' \<notin> set (url_encode s)"
  using url_encode_chars [of NUL s] url_encode_chars [of "CHR ''/''" s]
  by (auto simp: cstr_def isxdigit_def byte_def)

lemma url_encode_length: "length (url_encode s) = 3 * length s"
  by (induction s) (simp_all add: url_encode_def)

lemma decode_path_encode:
  assumes "NUL \<notin> set s" "CHR ''/'' \<notin> set s" "dir = [] \<or> last dir = CHR ''/''"
  shows "decode_path (dir @ url_encode s) = dir @ s"
proof (cases "dir = []")
  case True
  with url_encode_plain(2) [of s] have "last_slash (dir @ url_encode s) = None" by (simp add: last_slash_None)
  with True assms(1,2) show ?thesis by (simp add: decode_path_def url_decode_encode)
next
  case False
  with assms(3) obtain d where dir: "dir = d @ [CHR ''/'']" by (metis append_butlast_last_id)
  then have "last_slash (dir @ url_encode s) = Some (length d)"
    using last_slash_append [OF url_encode_plain(2), of d s] by simp
  then show ?thesis using assms(1,2) by (simp add: decode_path_def url_decode_encode dir)
qed

subsection \<open>What the program does\<close>

lemma deurl_files_requests_loop:
  assumes "sb_rep buf s" "\<forall>name \<in> set names. cstr name \<and> length name + 2 < 2 ^ 31"
  shows "\<exists>ns ok. deurl_files (\<lambda>w a b. (can w a b, w @ [(a, b)])) verbose names buf w =
    Some (ns, ok, w @ filter (\<lambda>(a, b). a \<noteq> b) (map (\<lambda>name. (name, decode_path name)) names))"
  using assms
proof (induction names arbitrary: buf s w)
  case (Cons name names)
  from Cons.prems(2) have name: "cstr name" "length name + 2 < 2 ^ 31" by auto
  from deurl_name_rep [OF Cons.prems(1) name] obtain buf1 where
    buf1: "deurl_name name buf = Some buf1" "sb_rep buf1 (decode_path name)" by blast
  note now = read_buffer [OF buf1(2) decode_path_cstr [OF name(1)]]
  show ?case
  proof (cases "decode_path name = name")
    case True
    with Cons.IH [OF buf1(2)] Cons.prems(2) buf1(1) now show ?thesis by simp
  next
    case False
    from Cons.IH [OF buf1(2), of "w @ [(name, decode_path name)]"] Cons.prems(2) obtain ns ok where
      "deurl_files (\<lambda>w a b. (can w a b, w @ [(a, b)])) verbose names buf1 (w @ [(name, decode_path name)]) =
        Some (ns, ok, (w @ [(name, decode_path name)]) @
          filter (\<lambda>(a, b). a \<noteq> b) (map (\<lambda>name. (name, decode_path name)) names))" by auto
    with False buf1(1) now show ?thesis by (simp add: False [symmetric])
  qed
qed auto



text \<open>
  C23. A name whose every byte is written as an escape is decoded back, whatever bytes it has, as long as
  none of them is NUL or the slash; the directory in front of it is left alone.
\<close>

theorem url_round_trip:
  assumes "sb_rep buf s" "cstr dir" "dir = [] \<or> last dir = CHR ''/''"
    and "NUL \<notin> set name" "CHR ''/'' \<notin> set name" "length dir + 3 * length name + 2 < 2 ^ 31"
  shows "\<exists>buf'. deurl_name (dir @ url_encode name) buf = Some buf' \<and> read_string (sb_buf buf') = Some (dir @ name)"
proof -
  have "cstr (dir @ url_encode name)" "length (dir @ url_encode name) + 2 < 2 ^ 31"
    using assms(2,6) url_encode_plain(1) by (simp_all add: url_encode_length)
  from deurl_name_rep [OF assms(1) this] obtain buf' where
    "deurl_name (dir @ url_encode name) buf = Some buf'" "sb_rep buf' (dir @ name)"
    unfolding decode_path_encode [OF assms(4,5,3)] by blast
  moreover have "cstr (dir @ name)" using assms(2,4) by (simp add: cstr_def)
  ultimately show ?thesis using read_buffer by blast
qed

theorem url_round_trip_witness:
  "\<exists>buf'. deurl_name (''d%41/'' @ url_encode ''a b%'') strbuf_new = Some buf' \<and>
    read_string (sb_buf buf') = Some (''d%41/'' @ ''a b%'')"
  by (rule url_round_trip [OF strbuf_new_rep]) (simp_all add: cstr_def)

end
