(* ===== verification/Dirname.thy ===== *)
theory Dirname
  imports String_Utils Io_Utils
begin

text \<open>
  The small gnulib routines the programs call on names and answers: \<open>last_component\<close>, \<open>base_len\<close>, \<open>base_name\<close>,
  \<open>dir_len\<close>, \<open>mdir_name\<close>, \<open>strip_trailing_slashes\<close>, \<open>set_program_name\<close> and \<open>yesno\<close> of
  \<open>src/gnulib-lib/\<close>, as compiled where the slash is the only separator and there are no drive letters
  (\<open>FILE_SYSTEM_PREFIX_LEN\<close> and \<open>DOUBLE_SLASH_IS_DISTINCT_ROOT\<close> are 0).  A pointer into the name is an offset.
\<close>

abbreviation SLASH :: char where "SLASH \<equiv> CHR ''/''"

subsection \<open>The last component\<close>

fun last_component_loop :: "string \<Rightarrow> nat \<Rightarrow> nat \<Rightarrow> bool \<Rightarrow> nat" where
  "last_component_loop [] p base saw_slash = base"
| "last_component_loop (c # name) p base saw_slash =
     (if c = SLASH then last_component_loop name (p + 1) base True
      else if saw_slash then last_component_loop name (p + 1) p False
      else last_component_loop name (p + 1) base saw_slash)"

definition last_component :: "string \<Rightarrow> nat" where
  "last_component name =
     (let base = length (takeWhile (\<lambda>c. c = SLASH) name)
      in last_component_loop (drop base name) base base False)"

fun base_len_loop :: "string \<Rightarrow> nat \<Rightarrow> nat" where
  "base_len_loop name len = (if 1 < len \<and> name ! (len - 1) = SLASH then base_len_loop name (len - 1) else len)"

declare base_len_loop.simps [simp del]

definition base_len :: "string \<Rightarrow> nat" where
  "base_len name = base_len_loop name (length name)"

definition base_name :: "string \<Rightarrow> string" where
  "base_name name =
     (let base = drop (last_component name) name in
      if base = [] then take (base_len name) name
      else let len = base_len base;
               len = (if len < length base \<and> base ! len = SLASH then len + 1 else len)
           in take len base)"

definition strip_trailing_slashes :: "string \<Rightarrow> string \<times> bool" where
  "strip_trailing_slashes name =
     (let base = (if drop (last_component name) name = [] then 0 else last_component name);
          base_lim = base + base_len (drop base name)
      in (take base_lim name, base_lim < length name))"

subsection \<open>The directory\<close>

fun dir_len_loop :: "string \<Rightarrow> nat \<Rightarrow> nat \<Rightarrow> nat" where
  "dir_len_loop name prefix_length len =
     (if prefix_length < len \<and> name ! (len - 1) = SLASH then dir_len_loop name prefix_length (len - 1) else len)"

declare dir_len_loop.simps [simp del]

definition dir_len :: "string \<Rightarrow> nat" where
  "dir_len name =
     dir_len_loop name (if name \<noteq> [] \<and> hd name = SLASH then 1 else 0) (last_component name)"

definition mdir_name :: "string \<Rightarrow> string" where
  "mdir_name name = (let len = dir_len name in take len name @ (if len = 0 then ''.'' else []))"

subsection \<open>The program's name, and a yes\<close>

definition set_program_name :: "string \<Rightarrow> string" where
  "set_program_name argv0 =
     (let base = (case last_slash argv0 of Some i \<Rightarrow> i + 1 | None \<Rightarrow> 0) in
      if 7 \<le> base \<and> take 7 (drop (base - 7) argv0) = ''/.libs/''
      then (if take 3 (drop base argv0) = ''lt-'' then drop (base + 3) argv0 else drop base argv0)
      else argv0)"

text \<open>
  \<open>yesno\<close> reads a line.  Where messages are translated it drops the last character and asks \<open>rpmatch\<close>;
  otherwise the first character decides.
\<close>

definition yesno :: "bool \<Rightarrow> (string \<Rightarrow> int) \<Rightarrow> instream \<Rightarrow> bool \<times> instream" where
  "yesno enable_nls rpmatch ins =
     (if enable_nls then
        if in_text ins = [] then (False, ins)
        else (case split_line (in_text ins) of (l, r) \<Rightarrow>
          (0 < rpmatch (c_string (butlast l)), ins\<lparr>in_text := r\<rparr>))
      else (case split_line (in_text ins) of (l, r) \<Rightarrow>
          (l \<noteq> [] \<and> (hd l = CHR ''y'' \<or> hd l = CHR ''Y''), ins\<lparr>in_text := r\<rparr>)))"

text \<open>\<open>rpmatch\<close> without translated messages.\<close>

definition rpmatch_plain :: "string \<Rightarrow> int" where
  "rpmatch_plain response =
     (case response of
        [] \<Rightarrow> -1
      | c # _ \<Rightarrow> if c = CHR ''y'' \<or> c = CHR ''Y'' then 1 else if c = CHR ''n'' \<or> c = CHR ''N'' then 0 else -1)"

subsection \<open>What they find\<close>

abbreviation slashes :: "nat \<Rightarrow> string" where "slashes n \<equiv> replicate n SLASH"

lemma last_component_loop_slashes: "last_component_loop (slashes n) p base saw = base"
  by (induction n arbitrary: p saw) auto

lemma last_component_loop_append:
  "last_component_loop (s @ t) p base saw =
     last_component_loop t (p + length s) (last_component_loop s p base saw)
       (if s = [] then saw else last s = SLASH)"
  by (induction s arbitrary: p base saw) auto

lemma last_component_loop_plain:
  "SLASH \<notin> set s \<Longrightarrow> last_component_loop s p base saw = (if saw \<and> s \<noteq> [] then p else base)"
  by (induction s arbitrary: p base saw) auto

text \<open>
  Every name is slashes only, or a directory part that is empty or ends in a slash, a component without
  slashes, and slashes.
\<close>

lemma takeWhile_slashes: "\<exists>n. takeWhile (\<lambda>c. c = SLASH) s = slashes n"
  using replicate_length_same [of "takeWhile (\<lambda>c. c = SLASH) s" SLASH] by (metis (full_types) set_takeWhileD)

lemma component_parts:
  assumes "name \<noteq> []" "last name \<noteq> SLASH"
  obtains dir s where "name = dir @ s" "dir = [] \<or> last dir = SLASH" "SLASH \<notin> set s" "s \<noteq> []"
proof (cases "last_slash name")
  case None
  with assms(1) that [of "[]" name] show ?thesis by (simp add: last_slash_None)
next
  case (Some i)
  note parts = last_slash_Some [OF Some]
  let ?dir = "take i name @ [SLASH]" and ?s = "drop (Suc i) name"
  from parts have name: "name = ?dir @ ?s" by simp
  with assms(2) have "?s \<noteq> []" by (metis append.right_neutral last_snoc)
  with name parts that [of ?dir ?s] show ?thesis by simp
qed

lemma name_parts:
  obtains (slashes) n where "name = slashes n"
  | (component) dir s n where "name = dir @ s @ slashes n" "dir = [] \<or> last dir = SLASH"
      "SLASH \<notin> set s" "s \<noteq> []"
proof -
  let ?P = "\<lambda>c. c = SLASH"
  obtain n where n: "takeWhile ?P (rev name) = slashes n" using takeWhile_slashes by blast
  then have "rev name = slashes n @ dropWhile ?P (rev name)" by (metis takeWhile_dropWhile_id)
  then have name: "name = rev (dropWhile ?P (rev name)) @ slashes n" by (metis rev_append rev_replicate rev_rev_ident)
  show ?thesis
  proof (cases "dropWhile ?P (rev name) = []")
    case True
    with name slashes show ?thesis by simp
  next
    case False
    then have "last (rev (dropWhile ?P (rev name))) \<noteq> SLASH"
      using hd_dropWhile [of ?P "rev name"] by (simp add: last_rev)
    with component_parts [of "rev (dropWhile ?P (rev name))"] False obtain dir s where
      "rev (dropWhile ?P (rev name)) = dir @ s" "dir = [] \<or> last dir = SLASH" "SLASH \<notin> set s" "s \<noteq> []" by auto
    with name component [of dir s n] show ?thesis by simp
  qed
qed

lemma last_component_slashes: "last_component (slashes n) = n"
  by (simp add: last_component_def)

lemma last_component_parts:
  assumes "dir = [] \<or> last dir = SLASH" "SLASH \<notin> set s" "s \<noteq> []"
  shows "last_component (dir @ s @ slashes n) = length dir"
proof -
  let ?P = "\<lambda>c. c = SLASH"
  have "hd s \<noteq> SLASH" using assms(2,3) by (metis hd_in_set)
  then have tw: "takeWhile ?P (s @ slashes n) = []" using assms(3) by (cases s) simp_all
  have split: "last_component_loop (s @ slashes n) p base saw = (if saw then p else base)" for p base saw
    using assms(2,3) by (simp add: last_component_loop_append last_component_loop_slashes last_component_loop_plain)
  obtain k r where dir: "dir = slashes k @ r" "r \<noteq> [] \<longrightarrow> hd r \<noteq> SLASH"
  proof -
    obtain k where "takeWhile ?P dir = slashes k" using takeWhile_slashes by blast
    then have "dir = slashes k @ dropWhile ?P dir" by (metis takeWhile_dropWhile_id)
    then show ?thesis using that hd_dropWhile [of ?P dir] by blast
  qed
  show ?thesis
  proof (cases "r = []")
    case True
    then have "takeWhile ?P (dir @ s @ slashes n) = dir"
      using tw dir(1) takeWhile_append2 [of dir ?P "s @ slashes n"] by simp
    then show ?thesis using split by (simp add: last_component_def)
  next
    case False
    then have "takeWhile ?P (dir @ s @ slashes n) = slashes k"
      using dir takeWhile_append2 [of "slashes k" ?P "r @ s @ slashes n"] by (cases r) simp_all
    moreover have "last r = SLASH" using assms(1) dir(1) False by simp
    ultimately show ?thesis using dir(1) False split
      by (simp add: last_component_def last_component_loop_append [of r])
  qed
qed

lemma base_len_loop_strip:
  "0 < k \<Longrightarrow> (\<And>i. k \<le> i \<Longrightarrow> i < k + m \<Longrightarrow> name ! i = SLASH) \<Longrightarrow> k = 1 \<or> name ! (k - 1) \<noteq> SLASH \<Longrightarrow>
   base_len_loop name (k + m) = k"
proof (induction m)
  case 0
  then show ?case by (subst base_len_loop.simps) auto
next
  case (Suc m)
  from Suc.IH [OF Suc.prems(1) Suc.prems(2) Suc.prems(3)] Suc.prems(1) Suc.prems(2) [of "k + m"] show ?case
    by (subst base_len_loop.simps) simp
qed

lemma base_len_parts:
  assumes "s \<noteq> []" "last s \<noteq> SLASH"
  shows "base_len (s @ slashes n) = length s"
proof -
  have "base_len_loop (s @ slashes n) (length s + n) = length s"
    using assms by (intro base_len_loop_strip) (auto simp: nth_append last_conv_nth)
  then show ?thesis by (simp add: base_len_def)
qed

lemma base_len_slashes: "base_len (slashes n) = min 1 n"
proof (cases n)
  case 0
  then show ?thesis by (simp add: base_len_def base_len_loop.simps)
next
  case (Suc m)
  have "base_len_loop (slashes n) (1 + m) = 1" unfolding Suc
    by (rule base_len_loop_strip) (simp_all del: replicate.simps)
  then show ?thesis by (simp add: base_len_def Suc del: replicate.simps)
qed

text \<open>\<open>strip_trailing_slashes\<close> leaves the component, and one slash of a name that is nothing but slashes.\<close>

lemma strip_slashes: "strip_trailing_slashes (slashes n) = (slashes (min 1 n), 1 < n)"
  by (auto simp: strip_trailing_slashes_def last_component_slashes base_len_slashes min_def)

lemma strip_parts:
  assumes "dir = [] \<or> last dir = SLASH" "SLASH \<notin> set s" "s \<noteq> []"
  shows "strip_trailing_slashes (dir @ s @ slashes n) = (dir @ s, 0 < n)"
proof -
  have "last s \<noteq> SLASH" using assms(2,3) by (metis last_in_set)
  then show ?thesis using assms(3)
    by (simp add: strip_trailing_slashes_def last_component_parts [OF assms] base_len_parts)
qed

lemma strip_trailing_slashes_last:
  "fst (strip_trailing_slashes name) = [] \<or> fst (strip_trailing_slashes name) = ''/'' \<or>
   last (fst (strip_trailing_slashes name)) \<noteq> SLASH"
proof (rule name_parts [of name], goal_cases)
  case (1 n)
  then show ?case by (cases n) (simp_all add: strip_slashes del: replicate.simps, simp)
next
  case (2 dir s n)
  then show ?case by (metis fst_conv last_appendR last_in_set strip_parts)
qed

lemma strip_trailing_slashes_idem:
  "fst (strip_trailing_slashes (fst (strip_trailing_slashes name))) = fst (strip_trailing_slashes name)"
proof (rule name_parts [of name], goal_cases)
  case (1 n)
  then show ?case by (simp add: strip_slashes)
next
  case (2 dir s n)
  with strip_parts [of dir s 0] show ?case by (simp add: strip_parts)
qed

text \<open>\<open>base_name\<close> is the component, with a slash if there were any behind it.\<close>

lemma base_name_parts:
  assumes "dir = [] \<or> last dir = SLASH" "SLASH \<notin> set s" "s \<noteq> []"
  shows "base_name (dir @ s @ slashes n) = s @ slashes (min 1 n)"
proof -
  have "last s \<noteq> SLASH" using assms(2,3) by (metis last_in_set)
  then have len: "base_len (s @ slashes n) = length s" using assms(3) by (rule base_len_parts [rotated])
  show ?thesis using assms(3) len
    by (auto simp: base_name_def last_component_parts [OF assms] Let_def nth_append min_def)
qed

text \<open>
  \<open>dir_name\<close> and \<open>base_name\<close> name the two parts of a file name: the directory, without the slashes in
  front of the component unless it is the root, and the component.
\<close>

lemma dir_len_loop_strip:
  "pre \<le> k \<Longrightarrow> (\<And>i. k \<le> i \<Longrightarrow> i < k + m \<Longrightarrow> name ! i = SLASH) \<Longrightarrow> k = pre \<or> name ! (k - 1) \<noteq> SLASH \<Longrightarrow>
   dir_len_loop name pre (k + m) = k"
proof (induction m)
  case 0
  then show ?case by (subst dir_len_loop.simps) auto
next
  case (Suc m)
  from Suc.IH [OF Suc.prems(1) Suc.prems(2) Suc.prems(3)] Suc.prems(1) Suc.prems(2) [of "k + m"] show ?case
    by (subst dir_len_loop.simps) simp
qed

lemma mdir_name_parts:
  assumes "d \<noteq> []" "last d \<noteq> SLASH" "0 < m" "SLASH \<notin> set s" "s \<noteq> []"
  shows "mdir_name (d @ slashes m @ s @ slashes n) = d"
proof -
  let ?name = "d @ slashes m @ s @ slashes n"
  have comp: "last_component ?name = length d + m"
    using last_component_parts [of "d @ slashes m" s n] assms(3-5) by simp
  have "dir_len ?name = length d" unfolding dir_len_def comp
  proof (rule dir_len_loop_strip)
    show "?name ! i = SLASH" if "length d \<le> i" "i < length d + m" for i
      using that by (auto simp: nth_append)
    show "length d = (if ?name \<noteq> [] \<and> hd ?name = SLASH then 1 else 0) \<or> ?name ! (length d - 1) \<noteq> SLASH"
      using assms(1,2) by (simp add: nth_append last_conv_nth)
  qed (use assms(1) in \<open>auto simp: Suc_le_eq\<close>)
  with assms(1) show ?thesis by (simp add: mdir_name_def)
qed

lemma mdir_name_plain: "SLASH \<notin> set s \<Longrightarrow> s \<noteq> [] \<Longrightarrow> mdir_name (s @ slashes n) = ''.''"
  using last_component_parts [of "[]" s n] by (simp add: mdir_name_def dir_len_def dir_len_loop.simps)

end
