(* ===== verification/Icmd.thy ===== *)
theory Icmd
  imports Dirname
begin

text \<open>
  The programs \<open>imv\<close> and \<open>icp\<close>, \<open>src/src/icmd.c\<close>: they ask for the new name of one file and then run
  \<open>mv\<close> or \<open>cp\<close> on the arguments they were given and that name.  What the library and the user answer
  (\<open>isspace\<close>, \<open>lstat\<close>, \<open>file_exists\<close>, \<open>readline\<close>, \<open>yesno\<close>) is an argument.  Memory outside the argument
  vector and overlapping \<open>memcpy\<close> have no defined result: \<^const>\<open>None\<close>.
\<close>

subsection \<open>Strings\<close>

definition strncmp :: "string \<Rightarrow> string \<Rightarrow> nat \<Rightarrow> int" where
  "strncmp a b n = strcmp (take n a) (take n b)"

function string_in_csv :: "string \<Rightarrow> char \<Rightarrow> string \<Rightarrow> bool" where
  "string_in_csv p0 sep val =
     (case char_pos p0 sep of
        Some i \<Rightarrow> (i = length val \<and> strncmp p0 val (length val) = 0) \<or> string_in_csv (drop (i + 1) p0) sep val
      | None \<Rightarrow> strcmp p0 val = 0)"
  by pat_completeness auto
termination
  by (relation "measure (\<lambda>(p0, sep, val). length p0)") (auto dest: char_pos_SomeD)

declare string_in_csv.simps [simp del]

text \<open>
  \<open>trim\<close>: the end is cut off first; then the text is moved to the front with \<open>memcpy\<close>, whose areas
  overlap unless the blanks in front are at least as many as the bytes moved.
\<close>

definition trim :: "(char \<Rightarrow> bool) \<Rightarrow> string \<Rightarrow> string option" where
  "trim isspace str =
     (let str = rev (dropWhile isspace (rev str));
          t = length str;
          h = length (takeWhile isspace str)
      in if h = 0 then Some str
         else if h < t - h + 1 then None
         else Some (drop h str))"

subsection \<open>The program's own options\<close>

datatype icmd_stop = Help | Version | Needs_Argument string | No_Command
  | Option_Lacks_Long string | Option_Lacks_Short char | No_File | Too_Many_Files | Cannot_Stat string

record own_options =
  own_command :: "string option"
  own_arg_options :: string
  own_pass_through :: bool

definition MV_REQ_ARG_OPTIONS :: string where "MV_REQ_ARG_OPTIONS = ''S,reply,suffix''"
definition CP_REQ_ARG_OPTIONS :: string where "CP_REQ_ARG_OPTIONS = ''S,Z,no-preserve,sparse,suffix,context''"

definition own_defaults :: "string \<Rightarrow> own_options" where
  "own_defaults program_base_name =
     (if strcmp program_base_name ''imv'' = 0
      then \<lparr>own_command = Some ''mv'', own_arg_options = MV_REQ_ARG_OPTIONS, own_pass_through = False\<rparr>
      else if strcmp program_base_name ''icp'' = 0
      then \<lparr>own_command = Some ''cp'', own_arg_options = CP_REQ_ARG_OPTIONS, own_pass_through = False\<rparr>
      else \<lparr>own_command = None, own_arg_options = '''', own_pass_through = False\<rparr>)"

text \<open>The result has the arguments from \<open>first_cmd_opt\<close> on.\<close>

fun own_loop :: "string list \<Rightarrow> own_options \<Rightarrow> icmd_stop + own_options \<times> string list" where
  "own_loop [] own = Inr (own, [])"
| "own_loop (arg # args) own =
     (if strcmp arg ''--help'' = 0 then Inl Help
      else if strcmp arg ''--version'' = 0 then Inl Version
      else if strcmp arg ''--command'' = 0 then
        (case args of [] \<Rightarrow> Inl (Needs_Argument (drop 2 arg))
         | a # args \<Rightarrow> own_loop args (own\<lparr>own_command := Some a\<rparr>))
      else if strcmp arg ''--arg-options'' = 0 then
        (case args of [] \<Rightarrow> Inl (Needs_Argument (drop 2 arg))
         | a # args \<Rightarrow> own_loop args (own\<lparr>own_arg_options := a\<rparr>))
      else if strcmp arg ''--pass-through'' = 0 then own_loop args (own\<lparr>own_pass_through := True\<rparr>)
      else if strncmp arg ''--command='' 10 = 0 then own_loop args (own\<lparr>own_command := Some (drop 10 arg)\<rparr>)
      else if strncmp arg ''--arg-options='' 14 = 0 then own_loop args (own\<lparr>own_arg_options := drop 14 arg\<rparr>)
      else Inr (own, arg # args))"

subsection \<open>The options of the command\<close>

record scan =
  skip_opt_arg :: bool
  no_more_opts :: bool
  has_target_dir :: bool
  last_long_opt :: "string option"
  last_short_opt :: char
  scan_files :: "string list"

definition scan_start :: scan where
  "scan_start = \<lparr>skip_opt_arg = False, no_more_opts = False, has_target_dir = False,
     last_long_opt = None, last_short_opt = NUL, scan_files = []\<rparr>"

text \<open>The first of the letters that needs an argument.\<close>

fun short_options :: "string \<Rightarrow> string \<Rightarrow> char option" where
  "short_options arg_options [] = None"
| "short_options arg_options (c # cs) =
     (if string_in_csv arg_options (CHR '','') [c] then Some c else short_options arg_options cs)"

definition scan_arg :: "bool \<Rightarrow> string \<Rightarrow> string \<Rightarrow> scan \<Rightarrow> scan" where
  "scan_arg posixly_correct arg_options arg st =
     (if skip_opt_arg st then st\<lparr>skip_opt_arg := False\<rparr>
      else if no_more_opts st then st\<lparr>scan_files := scan_files st @ [arg]\<rparr>
      else if arg = ''--'' then st\<lparr>no_more_opts := True\<rparr>
      else if take 2 arg = ''--'' then
        (let st = (if strindex arg (CHR ''='') = -1 \<and> string_in_csv arg_options (CHR '','') (drop 2 arg)
                   then st\<lparr>skip_opt_arg := True, last_long_opt := Some (drop 2 arg), last_short_opt := NUL\<rparr>
                   else st)
         in if strncmp arg ''--target-directory'' 18 = 0 then st\<lparr>has_target_dir := True\<rparr> else st)
      else if take 1 arg = ''-'' then
        (case short_options arg_options (drop 1 arg) of
           None \<Rightarrow> st
         | Some c \<Rightarrow> st\<lparr>skip_opt_arg := True, last_long_opt := None, last_short_opt := c\<rparr>)
      else (let st = st\<lparr>scan_files := scan_files st @ [arg]\<rparr>
            in if posixly_correct then st\<lparr>no_more_opts := True\<rparr> else st))"

fun scan_args :: "bool \<Rightarrow> string \<Rightarrow> string list \<Rightarrow> scan \<Rightarrow> scan" where
  "scan_args posixly_correct arg_options [] st = st"
| "scan_args posixly_correct arg_options (arg # args) st =
     scan_args posixly_correct arg_options args (scan_arg posixly_correct arg_options arg st)"

subsection \<open>Running the command\<close>

text \<open>\<open>memcpy\<close> into an array of pointers; an array of the stack starts with arbitrary contents.\<close>

definition store :: "nat \<Rightarrow> 'a list \<Rightarrow> 'a list \<Rightarrow> 'a list option" where
  "store i xs a = (if i + length xs \<le> length a then Some (take i a @ xs @ drop (i + length xs) a) else None)"

definition load :: "nat \<Rightarrow> 'a list \<Rightarrow> 'a list option" where
  "load n a = (if n \<le> length a then Some (take n a) else None)"

text \<open>What \<open>execvp\<close> reads: the pointers before the first NULL.\<close>

fun until_null :: "'a option list \<Rightarrow> 'a list option" where
  "until_null [] = None"
| "until_null (None # ps) = Some []"
| "until_null (Some p # ps) = map_option (Cons p) (until_null ps)"

text \<open>
  The argument vector ends with NULL; \<open>beyond\<close> is the memory after it.  With several files everything
  is passed on, copied with one pointer more than the vector has.
\<close>

definition pass_args ::
  "string option \<Rightarrow> string list \<Rightarrow> string option list \<Rightarrow> string option \<Rightarrow> string list option" where
  "pass_args command args beyond garbage =
     do { let n = length args;
          ps \<leftarrow> load (n + 2) (map Some args @ [None] @ beyond);
          a \<leftarrow> store 1 ps (replicate (n + 3) garbage);
          a \<leftarrow> store 0 [command] a;
          until_null a }"

definition rename_args ::
  "string option \<Rightarrow> string list \<Rightarrow> bool \<Rightarrow> string \<Rightarrow> string option list \<Rightarrow> string option \<Rightarrow> string list option" where
  "rename_args command args no_dashes newname beyond garbage =
     do { let n = length args;
          ps \<leftarrow> load (n + 1) (map Some args @ [None] @ beyond);
          a \<leftarrow> store 1 ps (replicate (n + 5) garbage);
          a \<leftarrow> (if no_dashes then store (n + 1) [Some newname, None] a
               else store (n + 1) [Some ''--'', Some newname, None] a);
          a \<leftarrow> store 0 [command] a;
          until_null a }"

subsection \<open>Asking for the new name\<close>

text \<open>
  A turn of the loop: the signal, the end of the input, or a line, with what \<open>file_exists\<close> finds then and
  what the user answers if asked whether to overwrite, \<^const>\<open>None\<close> for the signal instead of an answer.
\<close>

datatype turn = Interrupt | End_Of_Input | Line string "string \<Rightarrow> bool" "bool option"

datatype outcome = Exec "string option" "string list" | No_Changes | Waiting string

text \<open>\<open>Waiting text\<close>: the prompt is up, with \<open>text\<close> to edit.\<close>

fun ask_loop ::
  "(char \<Rightarrow> bool) \<Rightarrow> string option \<Rightarrow> string list \<Rightarrow> bool \<Rightarrow> string option list \<Rightarrow> string option \<Rightarrow> string
     \<Rightarrow> turn list \<Rightarrow> string \<Rightarrow> outcome option" where
  "ask_loop isspace command args no_dashes beyond garbage srcfile_stripped [] first_text =
     Some (Waiting first_text)"
| "ask_loop isspace command args no_dashes beyond garbage srcfile_stripped (Interrupt # turns) first_text =
     Some No_Changes"
| "ask_loop isspace command args no_dashes beyond garbage srcfile_stripped (End_Of_Input # turns) first_text =
     Some No_Changes"
| "ask_loop isspace command args no_dashes beyond garbage srcfile_stripped (Line line exists reply # turns)
       first_text =
     do { newname \<leftarrow> trim isspace line;
          let newname = fst (strip_trailing_slashes newname);
          if newname \<noteq> [] \<and> strcmp newname srcfile_stripped \<noteq> 0 then
            if exists newname \<and> reply = None then Some No_Changes
            else if exists newname \<and> reply = Some False
            then ask_loop isspace command args no_dashes beyond garbage srcfile_stripped turns newname
            else do { argv \<leftarrow> rename_args command args no_dashes newname beyond garbage;
                      Some (Exec command argv) }
          else Some No_Changes }"

record icmd_env =
  env_isspace :: "char \<Rightarrow> bool"
  env_posixly_correct :: bool
  env_lstat :: "string \<Rightarrow> bool"
  env_beyond :: "string option list"
  env_garbage :: "string option"

definition icmd_main :: "icmd_env \<Rightarrow> turn list \<Rightarrow> string \<Rightarrow> string list \<Rightarrow> (icmd_stop + outcome) option" where
  "icmd_main env turns argv0 argv =
     (let program_base_name = base_name (set_program_name argv0) in
      case own_loop argv (own_defaults program_base_name) of
        Inl e \<Rightarrow> Some (Inl e)
      | Inr (own, args) \<Rightarrow>
          if own_command own = None \<and> strcmp program_base_name ''imv'' \<noteq> 0 \<and> strcmp program_base_name ''icp'' \<noteq> 0
          then Some (Inl No_Command)
          else let posixly_correct = env_posixly_correct env;
                   st = scan_args posixly_correct (own_arg_options own) args scan_start
               in if skip_opt_arg st then
                    Some (Inl (case last_long_opt st of Some opt \<Rightarrow> Option_Lacks_Long opt
                               | None \<Rightarrow> Option_Lacks_Short (last_short_opt st)))
                  else if scan_files st = [] then Some (Inl No_File)
                  else if \<not> own_pass_through own \<and> length (scan_files st) > 1 then Some (Inl Too_Many_Files)
                  else if length (scan_files st) > 1 \<or> has_target_dir st then
                    do { argv \<leftarrow> pass_args (own_command own) args (env_beyond env) (env_garbage env);
                         Some (Inr (Exec (own_command own) argv)) }
                  else let srcfile = hd (scan_files st) in
                    if \<not> env_lstat env srcfile then Some (Inl (Cannot_Stat srcfile))
                    else let srcfile_stripped = fst (strip_trailing_slashes srcfile) in
                      map_option Inr (ask_loop (env_isspace env) (own_command own) args
                        (posixly_correct \<or> no_more_opts st) (env_beyond env) (env_garbage env)
                        srcfile_stripped turns srcfile_stripped))"

subsection \<open>Lists of options\<close>

fun csv_fields :: "char \<Rightarrow> string \<Rightarrow> string list" where
  "csv_fields sep [] = [[]]"
| "csv_fields sep (c # s) =
     (if c = sep then [] # csv_fields sep s else (c # hd (csv_fields sep s)) # tl (csv_fields sep s))"

lemma csv_fields_None: "char_pos s sep = None \<Longrightarrow> csv_fields sep s = [s]"
  by (induction s) (auto split: if_splits)

lemma csv_fields_Some: "char_pos s sep = Some i \<Longrightarrow> csv_fields sep s = take i s # csv_fields sep (drop (i + 1) s)"
  by (induction s arbitrary: i) (auto split: if_splits)

lemma string_in_csv_fields: "string_in_csv csv sep val \<longleftrightarrow> val \<in> set (csv_fields sep csv)"
proof (induction csv sep val rule: string_in_csv.induct)
  case (1 p0 sep val)
  show ?case
  proof (cases "char_pos p0 sep")
    case None
    then show ?thesis by (subst string_in_csv.simps) (auto simp: csv_fields_None)
  next
    case (Some i)
    from char_pos_SomeD [OF Some] have "i = length val \<and> strncmp p0 val (length val) = 0 \<longleftrightarrow> val = take i p0"
      by (auto simp: strncmp_def)
    with 1 [OF Some] Some show ?thesis by (subst string_in_csv.simps) (simp add: csv_fields_Some)
  qed
qed

subsection \<open>Blanks\<close>

lemma strip_end_parts: "\<exists>b. str = rev (dropWhile P (rev str)) @ b \<and> (\<forall>c \<in> set b. P c)"
proof -
  have "str = rev (dropWhile P (rev str)) @ rev (takeWhile P (rev str))"
    by (metis rev_append rev_rev_ident takeWhile_dropWhile_id)
  then show ?thesis by (metis set_rev set_takeWhileD)
qed

lemma trim_parts:
  assumes "trim isspace str = Some s"
  shows "\<exists>a b. str = a @ s @ b \<and> (\<forall>c \<in> set a \<union> set b. isspace c)"
    and "s \<noteq> [] \<Longrightarrow> \<not> isspace (hd s) \<and> \<not> isspace (last s)"
proof -
  let ?r = "rev (dropWhile isspace (rev str))"
  from assms have s: "s = drop (length (takeWhile isspace ?r)) ?r" by (auto simp: trim_def Let_def split: if_splits)
  then have s': "s = dropWhile isspace ?r" by (metis dropWhile_eq_drop)
  from strip_end_parts [of str isspace] obtain b where b: "str = ?r @ b" "\<forall>c \<in> set b. isspace c" by blast
  have "?r = takeWhile isspace ?r @ s" unfolding s' by simp
  with b show "\<exists>a b. str = a @ s @ b \<and> (\<forall>c \<in> set a \<union> set b. isspace c)"
    by (metis UnE append.assoc set_takeWhileD)
  assume "s \<noteq> []"
  then have "\<not> isspace (hd s)" unfolding s' by (rule hd_dropWhile)
  moreover have "last s = last ?r" using \<open>s \<noteq> []\<close> \<open>?r = _\<close> by (metis last_appendR)
  moreover have "?r \<noteq> []" using \<open>s \<noteq> []\<close> s by (metis drop_Nil)
  then have "dropWhile isspace (rev str) \<noteq> []" by simp
  then have "\<not> isspace (last ?r)" by (metis hd_dropWhile last_rev)
  ultimately show "\<not> isspace (hd s) \<and> \<not> isspace (last s)" by simp
qed

lemma trim_plain: "str = [] \<or> \<not> isspace (hd str) \<Longrightarrow> trim isspace str = Some (rev (dropWhile isspace (rev str)))"
proof -
  assume h: "str = [] \<or> \<not> isspace (hd str)"
  let ?r = "rev (dropWhile isspace (rev str))"
  from strip_end_parts [of str isspace] obtain b where "str = ?r @ b" "\<forall>c \<in> set b. isspace c" by blast
  then have "?r \<noteq> [] \<longrightarrow> hd ?r = hd str \<and> str \<noteq> []" by (metis append_is_Nil_conv hd_append2)
  with h have "?r = [] \<or> \<not> isspace (hd ?r)" by auto
  then have "takeWhile isspace ?r = []" by (metis list.exhaust_sel takeWhile.simps)
  then show ?thesis by (simp add: trim_def Let_def)
qed

subsection \<open>The arguments of the command\<close>

lemma until_null_map [simp]: "until_null (map Some xs @ None # ps) = Some xs"
  by (induction xs) simp_all

lemma store_0_Cons [simp]: "store 0 [x] (y # ys) = Some (x # ys)"
  by (simp add: store_def)

lemma rename_args_list:
  "rename_args (Some command) args no_dashes newname beyond garbage =
     Some (command # args @ (if no_dashes then [] else [''--'']) @ [newname])"
proof -
  let ?n = "length args"
  have load: "load (?n + 1) (map Some args @ [None] @ beyond) = Some (map Some args @ [None])"
    by (simp add: load_def)
  have "replicate (?n + 5) garbage = replicate (?n + 2) garbage @ [garbage, garbage, garbage]"
    using replicate_add [of "?n + 2" 3 garbage] by (simp add: numeral_eq_Suc)
  then have copied: "store 1 (map Some args @ [None]) (replicate (?n + 5) garbage) =
      Some (garbage # map Some args @ [None, garbage, garbage, garbage])"
    by (simp add: store_def)
  have new: "store (?n + 1) ps (garbage # map Some args @ [None, garbage, garbage, garbage]) =
      Some (garbage # map Some args @ ps @ drop (length ps) [None, garbage, garbage, garbage])" if "length ps \<le> 4" for ps
    using that by (simp add: store_def)
  have tail: "until_null (Some command # map Some args @ map Some xs @ None # ps) = Some (command # args @ xs)" for xs ps
    using until_null_map [of "command # args @ xs" ps] by simp
  show ?thesis
    using tail [of "[newname]"] tail [of "[''--'', newname]"]
    by (simp add: rename_args_def Let_def load [simplified] copied [simplified] new [simplified] del: until_null_map)
qed

lemma pass_args_list:
  "pass_args (Some command) args (p # beyond) garbage = Some (command # args)"
proof -
  let ?n = "length args"
  have load: "load (?n + 2) (map Some args @ [None] @ p # beyond) = Some (map Some args @ [None, p])"
    by (simp add: load_def)
  have copied: "store 1 (map Some args @ [None, p]) (replicate (?n + 3) garbage) = Some (garbage # map Some args @ [None, p])"
    by (simp add: store_def)
  show ?thesis using until_null_map [of "command # args" "[p]"]
    by (simp add: pass_args_def Let_def load [simplified] copied [simplified] del: until_null_map)
qed

lemma pass_args_beyond: "pass_args command args [] garbage = None"
  by (simp add: pass_args_def load_def)

subsection \<open>Which arguments are files\<close>

lemma scan_args_append:
  "scan_args posix opts (as @ bs) st = scan_args posix opts bs (scan_args posix opts as st)"
  by (induction as arbitrary: st) simp_all

text \<open>With \<open>POSIXLY_CORRECT\<close> the options end at the first file.\<close>

lemma scan_arg_posix:
  "(scan_files st \<noteq> [] \<longrightarrow> no_more_opts st) \<Longrightarrow>
   scan_files (scan_arg True opts arg st) \<noteq> [] \<longrightarrow> no_more_opts (scan_arg True opts arg st)"
  by (auto simp: scan_arg_def Let_def split: option.splits)

lemma scan_args_posix:
  "(scan_files st \<noteq> [] \<longrightarrow> no_more_opts st) \<Longrightarrow>
   scan_files (scan_args True opts args st) \<noteq> [] \<longrightarrow> no_more_opts (scan_args True opts args st)"
proof (induction args arbitrary: st)
  case (Cons a args)
  show ?case using Cons.IH [OF scan_arg_posix [OF Cons.prems]] by simp
qed simp

lemma scan_new_operand:
  assumes "scan_args posix opts args scan_start = st" "\<not> skip_opt_arg st" "scan_files st \<noteq> []" "\<not> has_target_dir st"
    and "scan_args posix opts (args @ (if posix \<or> no_more_opts st then [] else [''--'']) @ [new]) scan_start = st'"
  shows "scan_files st' = scan_files st @ [new] \<and> \<not> skip_opt_arg st' \<and> \<not> has_target_dir st'"
proof -
  have scan: "st' = scan_args posix opts ((if posix \<or> no_more_opts st then [] else [''--'']) @ [new]) st"
    using assms(1,5) by (simp add: scan_args_append)
  show ?thesis
  proof (cases posix)
    case True
    with scan_args_posix [of scan_start opts args] assms(1,3) have "no_more_opts st" by (auto simp: scan_start_def)
    with True scan assms(2,4) show ?thesis by (simp add: scan_arg_def)
  next
    case False
    with scan assms(2,4) show ?thesis by (cases "no_more_opts st") (simp_all add: scan_arg_def)
  qed
qed

subsection \<open>The loop\<close>

text \<open>A name the user entered and, if there was a file of that name, agreed to overwrite.\<close>

definition confirmed_name :: "(char \<Rightarrow> bool) \<Rightarrow> turn list \<Rightarrow> string \<Rightarrow> bool" where
  "confirmed_name isspace turns new \<longleftrightarrow>
     (\<exists>line exists reply s. Line line exists reply \<in> set turns \<and> trim isspace line = Some s \<and>
        new = fst (strip_trailing_slashes s) \<and> new \<noteq> [] \<and> (exists new \<longrightarrow> reply = Some True))"

lemma confirmed_name_Cons: "confirmed_name isspace turns new \<Longrightarrow> confirmed_name isspace (turn # turns) new"
  unfolding confirmed_name_def by (metis list.set_intros(2))

lemma ask_loop_exec:
  assumes "ask_loop isspace (Some command) args no_dashes beyond garbage src turns shown = Some (Exec cmd argv)"
  shows "\<exists>new. confirmed_name isspace turns new \<and> new \<noteq> src \<and> cmd = Some command \<and>
    argv = command # args @ (if no_dashes then [] else [''--'']) @ [new]"
  using assms
proof (induction turns arbitrary: shown)
  case (Cons turn turns)
  show ?case
  proof (cases turn)
    case (Line line exists reply)
    with Cons.prems obtain s where s: "trim isspace line = Some s" by (auto elim: bind_eq_SomeE)
    let ?new = "fst (strip_trailing_slashes s)"
    have change: "?new \<noteq> [] \<and> ?new \<noteq> src" using Cons.prems Line s by (auto split: if_splits)
    show ?thesis
    proof (cases "exists ?new \<and> reply = Some False")
      case True
      with Cons.prems Line s change have
        "ask_loop isspace (Some command) args no_dashes beyond garbage src turns ?new = Some (Exec cmd argv)" by simp
      from Cons.IH [OF this] confirmed_name_Cons show ?thesis by blast
    next
      case False
      with Cons.prems Line s change have
        new: "exists ?new \<longrightarrow> reply = Some True" "cmd = Some command"
        "argv = command # args @ (if no_dashes then [] else [''--'']) @ [?new]"
        by (auto simp: rename_args_list Let_def split: if_splits)
      from Line s change new(1) have "confirmed_name isspace (turn # turns) ?new"
        unfolding confirmed_name_def by (metis list.set_intros(1))
      with change new(2,3) show ?thesis by blast
    qed
  qed (use Cons.prems in simp_all)
qed simp

lemma ask_loop_defined:
  "\<forall>line exists reply. Line line exists reply \<in> set turns \<longrightarrow> trim isspace line \<noteq> None \<Longrightarrow>
   ask_loop isspace (Some command) args no_dashes beyond garbage src turns shown \<noteq> None"
proof (induction turns arbitrary: shown)
  case (Cons turn turns)
  show ?case
  proof (cases turn)
    case (Line line exists reply)
    have "Line line exists reply \<in> set (turn # turns)" using Line by simp
    with Cons.prems obtain s where "trim isspace line = Some s" by blast
    with Line Cons show ?thesis by (simp add: rename_args_list Let_def)
  qed simp_all
qed simp

lemma own_loop_command:
  "own_loop args own = Inr (own', rest) \<Longrightarrow> own_command own \<noteq> None \<Longrightarrow> own_command own' \<noteq> None"
proof (induction args own rule: own_loop.induct)
  case (2 arg args own)
  then show ?case by (simp del: strcmp.simps strcmp_eq_0 split: if_splits list.splits)
qed simp

lemma checked_command:
  assumes "own_loop argv (own_defaults name) = Inr (own, args)"
    and "\<not> (own_command own = None \<and> strcmp name ''imv'' \<noteq> 0 \<and> strcmp name ''icp'' \<noteq> 0)"
  obtains command where "own_command own = Some command"
proof (cases "own_command own")
  case None
  with own_loop_command [OF assms(1)] assms(2) show ?thesis by (auto simp: own_defaults_def)
qed (rule that)

text \<open>What \<open>main\<close> has found when it asks for one file's new name.\<close>

lemma icmd_main_asks:
  assumes "own_loop argv (own_defaults (base_name (set_program_name argv0))) = Inr (own, args)"
    and "scan_args (env_posixly_correct env) (own_arg_options own) args scan_start = st"
    and "length (scan_files st) \<le> 1" "\<not> has_target_dir st"
    and "icmd_main env turns argv0 argv = Some (Inr out)"
  obtains command where "own_command own = Some command" "\<not> skip_opt_arg st" "scan_files st \<noteq> []"
    "ask_loop (env_isspace env) (Some command) args (env_posixly_correct env \<or> no_more_opts st)
      (env_beyond env) (env_garbage env) (fst (strip_trailing_slashes (hd (scan_files st)))) turns
      (fst (strip_trailing_slashes (hd (scan_files st)))) = Some out"
proof -
  let ?name = "base_name (set_program_name argv0)"
  have named: "\<not> (own_command own = None \<and> strcmp ?name ''imv'' \<noteq> 0 \<and> strcmp ?name ''icp'' \<noteq> 0)"
  proof
    assume "own_command own = None \<and> strcmp ?name ''imv'' \<noteq> 0 \<and> strcmp ?name ''icp'' \<noteq> 0"
    with assms(5) show False by (simp add: icmd_main_def assms(1) del: strcmp.simps strcmp_eq_0)
  qed
  from checked_command [OF assms(1) this] obtain command where command: "own_command own = Some command" .
  have main: "icmd_main env turns argv0 argv =
      (if skip_opt_arg st then Some (Inl (case last_long_opt st of Some opt \<Rightarrow> Option_Lacks_Long opt
         | None \<Rightarrow> Option_Lacks_Short (last_short_opt st)))
       else if scan_files st = [] then Some (Inl No_File)
       else let srcfile = hd (scan_files st) in
         if \<not> env_lstat env srcfile then Some (Inl (Cannot_Stat srcfile))
         else let srcfile_stripped = fst (strip_trailing_slashes srcfile) in
           map_option Inr (ask_loop (env_isspace env) (Some command) args
             (env_posixly_correct env \<or> no_more_opts st) (env_beyond env) (env_garbage env)
             srcfile_stripped turns srcfile_stripped))"
    using assms(3,4) command by (simp add: icmd_main_def assms(1,2) Let_def cong: if_cong option.case_cong)
  show ?thesis using assms(5) unfolding main
    by (intro that [OF command]) (auto simp: Let_def split: if_splits)
qed

subsection \<open>A run\<close>

definition demo_icmd :: icmd_env where
  "demo_icmd = \<lparr>env_isspace = (\<lambda>c. c = CHR '' ''), env_posixly_correct = False, env_lstat = (\<lambda>_. True),
     env_beyond = [None], env_garbage = None\<rparr>"

definition demo_turns :: "turn list" where
  "demo_turns = [Line ''b/'' (\<lambda>_. True) (Some False), Line ''-f '' (\<lambda>f. f = ''-f'') (Some True)]"

definition demo_own :: own_options where
  "demo_own = \<lparr>own_command = Some ''mv'', own_arg_options = MV_REQ_ARG_OPTIONS, own_pass_through = False\<rparr>"

definition demo_scan :: scan where
  "demo_scan = scan_args False MV_REQ_ARG_OPTIONS [''-v'', ''a/''] scan_start"

lemma demo_own_loop:
  "own_loop [''-v'', ''a/''] (own_defaults (base_name (set_program_name ''/usr/bin/imv''))) = Inr (demo_own, [''-v'', ''a/''])"
  by code_simp

lemma demo_scanned:
  "scan_args (env_posixly_correct demo_icmd) (own_arg_options demo_own) [''-v'', ''a/''] scan_start = demo_scan"
  by (simp only: demo_icmd_def demo_own_def demo_scan_def icmd_env.simps own_options.simps)

lemma demo_scan_value:
  "scan_files demo_scan = [''a/''] \<and> \<not> has_target_dir demo_scan \<and> \<not> no_more_opts demo_scan"
  by code_simp

lemma demo_icmd_runs:
  "icmd_main demo_icmd demo_turns ''/usr/bin/imv'' [''-v'', ''a/''] =
     Some (Inr (Exec (Some ''mv'') [''mv'', ''-v'', ''a/'', ''--'', ''-f'']))"
  by code_simp

subsection \<open>What the programs do\<close>

text \<open>
  C20. When \<open>imv\<close> or \<open>icp\<close> runs its command for one file, it appends exactly one argument, after \<open>--\<close>
  unless the options had ended: a name the user entered, trimmed and without trailing slashes, which is
  not empty and not the old name; and if a file of that name existed, the user had said yes.
\<close>

theorem icmd_runs_confirmed_name:
  assumes "own_loop argv (own_defaults (base_name (set_program_name argv0))) = Inr (own, args)"
    and "scan_args (env_posixly_correct env) (own_arg_options own) args scan_start = st"
    and "length (scan_files st) \<le> 1" "\<not> has_target_dir st"
    and "icmd_main env turns argv0 argv = Some (Inr (Exec cmd exec_args))"
  shows "\<exists>command new. own_command own = Some command \<and> cmd = Some command \<and>
    confirmed_name (env_isspace env) turns new \<and> new \<noteq> fst (strip_trailing_slashes (hd (scan_files st))) \<and>
    exec_args = command # args @ (if env_posixly_correct env \<or> no_more_opts st then [] else [''--'']) @ [new]"
proof -
  from icmd_main_asks [OF assms] obtain command where "own_command own = Some command"
    "ask_loop (env_isspace env) (Some command) args (env_posixly_correct env \<or> no_more_opts st)
      (env_beyond env) (env_garbage env) (fst (strip_trailing_slashes (hd (scan_files st)))) turns
      (fst (strip_trailing_slashes (hd (scan_files st)))) = Some (Exec cmd exec_args)" .
  with ask_loop_exec [OF this(2)] show ?thesis by blast
qed

theorem icmd_runs_confirmed_name_witness:
  "confirmed_name (env_isspace demo_icmd) demo_turns ''-f''"
  using icmd_runs_confirmed_name [OF demo_own_loop demo_scanned _ _ demo_icmd_runs] demo_scan_value
  by (auto simp: demo_own_def)



text \<open>
  The program never ends with an undefined result, as long as the lines the user enters have no
  overlapping move in \<open>trim\<close> and there is one more pointer in memory after the argument vector.
\<close>

theorem icmd_defined:
  assumes "\<forall>line exists reply. Line line exists reply \<in> set turns \<longrightarrow> trim (env_isspace env) line \<noteq> None"
    and "env_beyond env \<noteq> []"
  shows "icmd_main env turns argv0 argv \<noteq> None"
proof (cases "own_loop argv (own_defaults (base_name (set_program_name argv0)))")
  case (Inr r)
  obtain own args where own: "r = (own, args)" by (cases r)
  let ?name = "base_name (set_program_name argv0)"
  show ?thesis
  proof (cases "own_command own = None \<and> strcmp ?name ''imv'' \<noteq> 0 \<and> strcmp ?name ''icp'' \<noteq> 0")
    case True
    with Inr own show ?thesis by (simp add: icmd_main_def del: strcmp.simps strcmp_eq_0)
  next
    case False
    with checked_command [of argv ?name own args] Inr own obtain command where command: "own_command own = Some command"
      by blast
    from assms(2) obtain p ps where "env_beyond env = p # ps" by (cases "env_beyond env") auto
    then show ?thesis using Inr own command ask_loop_defined [OF assms(1)]
      by (simp add: icmd_main_def Let_def pass_args_list)
  qed
qed (simp add: icmd_main_def)

theorem icmd_defined_witness: "icmd_main demo_icmd demo_turns ''/usr/bin/icp'' [''-Z'', ''x'', ''y''] \<noteq> None"
  by (rule icmd_defined) (auto simp: demo_icmd_def demo_turns_def trim_plain)

text \<open>
  A text is found in a list of options exactly if it is one of the fields between the separators.
\<close>

theorem option_list_fields: "string_in_csv csv sep val \<longleftrightarrow> val \<in> set (csv_fields sep csv)"
  by (rule string_in_csv_fields)

lemma trim_leading_blank:
  assumes "isspace a" "\<not> isspace b"
  shows "trim isspace (a # b # str) = None"
proof -
  have "dropWhile isspace (rev (a # b # str)) = dropWhile isspace (rev str) @ [b, a] \<or>
    dropWhile isspace (rev (a # b # str)) = [b, a]"
    using assms by (cases "\<forall>c \<in> set str. isspace c") (auto simp: dropWhile_append dropWhile_eq_Nil_conv)
  then show ?thesis using assms by (auto simp: trim_def Let_def)
qed

lemma pass_through_reads_beyond:
  assumes "own_loop argv (own_defaults (base_name (set_program_name argv0))) = Inr (own, args)" "own_command own \<noteq> None"
    and "scan_args (env_posixly_correct env) (own_arg_options own) args scan_start = st"
    and "\<not> skip_opt_arg st" "length (scan_files st) > 1" "own_pass_through own" "env_beyond env = []"
  shows "icmd_main env turns argv0 argv = None"
  using assms by (auto simp: icmd_main_def Let_def pass_args_beyond simp del: strcmp.simps)

end
