(* ===== verification/Tmap.thy ===== *)
theory Tmap
  imports Prelude
begin

text \<open>
  The red-black tree of \<open>src/src/common/tmap.c\<close> on a memory of nodes with parent pointers.  The pointer
  \<open>&nil\<close> is the address 0, whose node is in the memory like any other: the code reads all its fields and
  writes its colour.  A step that reads or writes a freed node has no result, and neither has a loop that
  does not end.  Keys and values are pointers, \<^const>\<open>None\<close> is NULL.
\<close>

subsection \<open>Data\<close>

type_synonym tptr = nat

abbreviation (input) nil :: tptr where "nil \<equiv> 0"

record ('k, 'v) tnode =
  tn_key :: "'k option"
  tn_value :: "'v option"
  tn_red :: bool
  tn_left :: tptr
  tn_right :: tptr
  tn_parent :: tptr

datatype ('k, 'u) comparator =
  Simple "'k option \<Rightarrow> 'k option \<Rightarrow> int"
| Complex "'k option \<Rightarrow> 'k option \<Rightarrow> 'u \<Rightarrow> int" 'u

text \<open>The fields of \<open>struct _TMap\<close>, and the memory its nodes are in.\<close>

record ('k, 'v, 'u) tmap =
  tm_root :: tptr
  tm_size :: "64 word"
  tm_comparator :: "('k, 'u) comparator"
  tm_nodes :: "tptr \<rightharpoonup> ('k, 'v) tnode"
  tm_next :: tptr

definition nil_node :: "('k, 'v) tnode" where
  "nil_node = \<lparr>tn_key = None, tn_value = None, tn_red = False, tn_left = nil, tn_right = nil, tn_parent = nil\<rparr>"

text \<open>\<open>ptrcmp\<close>: the difference of two addresses of 64 bits, cut to an \<open>int\<close>.\<close>

definition ptrcmp :: "('k \<Rightarrow> 64 word) \<Rightarrow> 'k option \<Rightarrow> 'k option \<Rightarrow> int" where
  "ptrcmp addr v0 v1 =
     (let a = (\<lambda>v. case v of None \<Rightarrow> 0 | Some k \<Rightarrow> addr k) in sint (ucast (a v0 - a v1) :: 32 word))"

definition tmap_new :: "('k \<Rightarrow> 64 word) \<Rightarrow> ('k, 'v, 'u) tmap" where
  "tmap_new addr =
     \<lparr>tm_root = nil, tm_size = 0, tm_comparator = Simple (ptrcmp addr), tm_nodes = [nil \<mapsto> nil_node], tm_next = 1\<rparr>"

definition tmap_set_compare_fn ::
  "('k, 'v, 'u) tmap \<Rightarrow> ('k option \<Rightarrow> 'k option \<Rightarrow> int) \<Rightarrow> ('k, 'v, 'u) tmap" where
  "tmap_set_compare_fn m f = m\<lparr>tm_comparator := Simple f\<rparr>"

definition tmap_set_complex_compare_fn ::
  "('k, 'v, 'u) tmap \<Rightarrow> ('k option \<Rightarrow> 'k option \<Rightarrow> 'u \<Rightarrow> int) \<Rightarrow> 'u \<Rightarrow> ('k, 'v, 'u) tmap" where
  "tmap_set_complex_compare_fn m f userdata = m\<lparr>tm_comparator := Complex f userdata\<rparr>"

definition tmap_compare :: "('k, 'v, 'u) tmap \<Rightarrow> 'k option \<Rightarrow> 'k option \<Rightarrow> int" where
  "tmap_compare m k1 k2 =
     (case tm_comparator m of Complex f userdata \<Rightarrow> f k1 k2 userdata | Simple f \<Rightarrow> f k1 k2)"

definition tmap_size :: "('k, 'v, 'u) tmap \<Rightarrow> 64 word" where
  "tmap_size m = tm_size m"

subsection \<open>Fields\<close>

definition is_red :: "('k, 'v, 'u) tmap \<Rightarrow> tptr \<Rightarrow> bool option" where
  "is_red m p = map_option tn_red (tm_nodes m p)"

definition left_of :: "('k, 'v, 'u) tmap \<Rightarrow> tptr \<Rightarrow> tptr option" where
  "left_of m p = map_option tn_left (tm_nodes m p)"

definition right_of :: "('k, 'v, 'u) tmap \<Rightarrow> tptr \<Rightarrow> tptr option" where
  "right_of m p = map_option tn_right (tm_nodes m p)"

definition parent_of :: "('k, 'v, 'u) tmap \<Rightarrow> tptr \<Rightarrow> tptr option" where
  "parent_of m p = map_option tn_parent (tm_nodes m p)"

definition change :: "(('k, 'v) tnode \<Rightarrow> ('k, 'v) tnode) \<Rightarrow> ('k, 'v, 'u) tmap \<Rightarrow> tptr \<Rightarrow> ('k, 'v, 'u) tmap option" where
  "change f m p = map_option (\<lambda>n. m\<lparr>tm_nodes := (tm_nodes m)(p \<mapsto> f n)\<rparr>) (tm_nodes m p)"

abbreviation "set_red b \<equiv> change (tn_red_update (\<lambda>_. b))"
abbreviation "set_left p \<equiv> change (tn_left_update (\<lambda>_. p))"
abbreviation "set_right p \<equiv> change (tn_right_update (\<lambda>_. p))"
abbreviation "set_parent p \<equiv> change (tn_parent_update (\<lambda>_. p))"

definition free_tnode :: "('k, 'v, 'u) tmap \<Rightarrow> tptr \<Rightarrow> ('k, 'v, 'u) tmap option" where
  "free_tnode m p = map_option (\<lambda>n. m\<lparr>tm_nodes := (tm_nodes m)(p := None)\<rparr>) (tm_nodes m p)"

subsection \<open>Finding nodes\<close>

partial_function (option) leftmost :: "('k, 'v, 'u) tmap \<Rightarrow> tptr \<Rightarrow> tptr option" where
  "leftmost m p = do { l \<leftarrow> left_of m p; if l \<noteq> nil then leftmost m l else Some p }"

partial_function (option) rightmost :: "('k, 'v, 'u) tmap \<Rightarrow> tptr \<Rightarrow> tptr option" where
  "rightmost m p = do { r \<leftarrow> right_of m p; if r \<noteq> nil then rightmost m r else Some p }"

definition tmap_first_node :: "('k, 'v, 'u) tmap \<Rightarrow> tptr option" where
  "tmap_first_node m = leftmost m (tm_root m)"

definition tmap_last_node :: "('k, 'v, 'u) tmap \<Rightarrow> tptr option" where
  "tmap_last_node m = rightmost m (tm_root m)"

partial_function (option) get_loop :: "('k, 'v, 'u) tmap \<Rightarrow> 'k option \<Rightarrow> tptr \<Rightarrow> tptr option" where
  "get_loop m k p =
     (if p = nil then Some p
      else do {
        n \<leftarrow> tm_nodes m p;
        let compare = tmap_compare m k (tn_key n);
        if compare > 0 then get_loop m k (tn_right n)
        else if compare < 0 then get_loop m k (tn_left n)
        else Some p })"

definition tmap_get_node :: "('k, 'v, 'u) tmap \<Rightarrow> 'k option \<Rightarrow> tptr option" where
  "tmap_get_node m k = get_loop m k (tm_root m)"

definition tmap_contains_key :: "('k, 'v, 'u) tmap \<Rightarrow> 'k option \<Rightarrow> bool option" where
  "tmap_contains_key m k = do { p \<leftarrow> tmap_get_node m k; Some (p \<noteq> nil) }"

definition tmap_get :: "('k, 'v, 'u) tmap \<Rightarrow> 'k option \<Rightarrow> 'v option option" where
  "tmap_get m k = do { p \<leftarrow> tmap_get_node m k; map_option tn_value (tm_nodes m p) }"

definition tmap_first_key :: "('k, 'v, 'u) tmap \<Rightarrow> 'k option option" where
  "tmap_first_key m = do { p \<leftarrow> tmap_first_node m; map_option tn_key (tm_nodes m p) }"

definition tmap_last_key :: "('k, 'v, 'u) tmap \<Rightarrow> 'k option option" where
  "tmap_last_key m = do { p \<leftarrow> tmap_last_node m; map_option tn_key (tm_nodes m p) }"

definition tmap_first_value :: "('k, 'v, 'u) tmap \<Rightarrow> 'v option option" where
  "tmap_first_value m = do { p \<leftarrow> tmap_first_node m; map_option tn_value (tm_nodes m p) }"

definition tmap_last_value :: "('k, 'v, 'u) tmap \<Rightarrow> 'v option option" where
  "tmap_last_value m = do { p \<leftarrow> tmap_last_node m; map_option tn_value (tm_nodes m p) }"

subsection \<open>Rotations\<close>

definition tmap_rotate_left :: "('k, 'v, 'u) tmap \<Rightarrow> tptr \<Rightarrow> ('k, 'v, 'u) tmap option" where
  "tmap_rotate_left m node =
     do { child \<leftarrow> right_of m node;
          x \<leftarrow> left_of m child;
          m \<leftarrow> set_right x m node;
          x \<leftarrow> left_of m child;
          m \<leftarrow> (if x \<noteq> nil then set_parent node m x else Some m);
          p \<leftarrow> parent_of m node;
          m \<leftarrow> set_parent p m child;
          p \<leftarrow> parent_of m node;
          m \<leftarrow> (if p \<noteq> nil
               then do { l \<leftarrow> left_of m p; if node = l then set_left child m p else set_right child m p }
               else Some (m\<lparr>tm_root := child\<rparr>));
          m \<leftarrow> set_left node m child;
          set_parent child m node }"

definition tmap_rotate_right :: "('k, 'v, 'u) tmap \<Rightarrow> tptr \<Rightarrow> ('k, 'v, 'u) tmap option" where
  "tmap_rotate_right m node =
     do { child \<leftarrow> left_of m node;
          x \<leftarrow> right_of m child;
          m \<leftarrow> set_left x m node;
          x \<leftarrow> right_of m child;
          m \<leftarrow> (if x \<noteq> nil then set_parent node m x else Some m);
          p \<leftarrow> parent_of m node;
          m \<leftarrow> set_parent p m child;
          p \<leftarrow> parent_of m node;
          m \<leftarrow> (if p \<noteq> nil
               then do { r \<leftarrow> right_of m p; if node = r then set_right child m p else set_left child m p }
               else Some (m\<lparr>tm_root := child\<rparr>));
          m \<leftarrow> set_right node m child;
          set_parent child m node }"

subsection \<open>Putting\<close>

text \<open>The two halves of the loop of \<open>tmap_insert_rebalance\<close>; the result has the next \<open>node\<close>.\<close>

definition insert_left :: "('k, 'v, 'u) tmap \<Rightarrow> tptr \<Rightarrow> (('k, 'v, 'u) tmap \<times> tptr) option" where
  "insert_left m node =
     do { p \<leftarrow> parent_of m node; g \<leftarrow> parent_of m p;
          uncle \<leftarrow> right_of m g;
          uncle_red \<leftarrow> is_red m uncle;
          if uncle_red then
            do { m \<leftarrow> set_red False m p;
                 m \<leftarrow> set_red False m uncle;
                 q \<leftarrow> parent_of m uncle;
                 m \<leftarrow> set_red True m q;
                 q \<leftarrow> parent_of m uncle;
                 Some (m, q) }
          else
            do { r \<leftarrow> right_of m p;
                 (m, node) \<leftarrow> (if node = r
                              then do { m \<leftarrow> tmap_rotate_left m p; Some (m, p) }
                              else Some (m, node));
                 p \<leftarrow> parent_of m node;
                 m \<leftarrow> set_red False m p;
                 g \<leftarrow> parent_of m p;
                 m \<leftarrow> set_red True m g;
                 m \<leftarrow> tmap_rotate_right m g;
                 Some (m, node) } }"

definition insert_right :: "('k, 'v, 'u) tmap \<Rightarrow> tptr \<Rightarrow> (('k, 'v, 'u) tmap \<times> tptr) option" where
  "insert_right m node =
     do { p \<leftarrow> parent_of m node; g \<leftarrow> parent_of m p;
          uncle \<leftarrow> left_of m g;
          uncle_red \<leftarrow> is_red m uncle;
          if uncle_red then
            do { m \<leftarrow> set_red False m p;
                 m \<leftarrow> set_red False m uncle;
                 q \<leftarrow> parent_of m uncle;
                 m \<leftarrow> set_red True m q;
                 q \<leftarrow> parent_of m uncle;
                 Some (m, q) }
          else
            do { l \<leftarrow> left_of m p;
                 (m, node) \<leftarrow> (if node = l
                              then do { m \<leftarrow> tmap_rotate_right m p; Some (m, p) }
                              else Some (m, node));
                 p \<leftarrow> parent_of m node;
                 m \<leftarrow> set_red False m p;
                 g \<leftarrow> parent_of m p;
                 m \<leftarrow> set_red True m g;
                 m \<leftarrow> tmap_rotate_left m g;
                 Some (m, node) } }"

partial_function (option) insert_loop ::
  "('k, 'v, 'u) tmap \<Rightarrow> tptr \<Rightarrow> ('k, 'v, 'u) tmap option" where
  "insert_loop m node =
     do { p \<leftarrow> parent_of m node;
          p_red \<leftarrow> is_red m p;
          g \<leftarrow> parent_of m p;
          if p_red \<and> g \<noteq> nil then
            do { l \<leftarrow> left_of m g;
                 (m, node) \<leftarrow> (if p = l then insert_left m node else insert_right m node);
                 insert_loop m node }
          else Some m }"

definition tmap_insert_rebalance :: "('k, 'v, 'u) tmap \<Rightarrow> tptr \<Rightarrow> ('k, 'v, 'u) tmap option" where
  "tmap_insert_rebalance m node = do { m \<leftarrow> insert_loop m node; set_red False m (tm_root m) }"

text \<open>The walk of \<open>tmap_put\<close>: the node found or \<open>nil\<close>, its parent, and the last comparison.\<close>

partial_function (option) put_loop ::
  "('k, 'v, 'u) tmap \<Rightarrow> 'k option \<Rightarrow> tptr \<Rightarrow> tptr \<Rightarrow> int \<Rightarrow> (tptr \<times> tptr \<times> int) option" where
  "put_loop m k node parent compare =
     (if node = nil then Some (node, parent, compare)
      else do {
        n \<leftarrow> tm_nodes m node;
        let compare = tmap_compare m k (tn_key n);
        if compare > 0 then put_loop m k (tn_right n) node compare
        else if compare < 0 then put_loop m k (tn_left n) node compare
        else Some (node, node, compare) })"

definition new_tnode ::
  "'k option \<Rightarrow> 'v option \<Rightarrow> bool \<Rightarrow> tptr \<Rightarrow> ('k, 'v, 'u) tmap \<Rightarrow> tptr \<times> ('k, 'v, 'u) tmap" where
  "new_tnode k v red parent m =
     (tm_next m, m\<lparr>tm_nodes := (tm_nodes m)(tm_next m \<mapsto>
        \<lparr>tn_key = k, tn_value = v, tn_red = red, tn_left = nil, tn_right = nil, tn_parent = parent\<rparr>),
      tm_next := tm_next m + 1\<rparr>)"

definition tmap_put ::
  "('k, 'v, 'u) tmap \<Rightarrow> 'k option \<Rightarrow> 'v option \<Rightarrow> ('v option \<times> ('k, 'v, 'u) tmap) option" where
  "tmap_put m k v =
     do { (node, parent, compare) \<leftarrow> put_loop m k (tm_root m) nil 0;
          if node \<noteq> nil then
            do { n \<leftarrow> tm_nodes m node;
                 m \<leftarrow> change (tn_value_update (\<lambda>_. v)) m node;
                 Some (tn_value n, m) }
          else
            (case new_tnode k v True parent m of (node, m) \<Rightarrow>
              do { let m = m\<lparr>tm_size := tm_size m + 1\<rparr>;
                   if parent = nil then
                     do { m \<leftarrow> set_red False (m\<lparr>tm_root := node\<rparr>) node; Some (None, m) }
                   else
                     do { m \<leftarrow> (if compare > 0 then set_right node m parent else set_left node m parent);
                          m \<leftarrow> tmap_insert_rebalance m node;
                          Some (None, m) } }) }"

subsection \<open>Removing\<close>

definition delete_left ::
  "('k, 'v, 'u) tmap \<Rightarrow> tptr \<Rightarrow> (('k, 'v, 'u) tmap \<times> tptr \<times> tptr) option" where
  "delete_left m parent =
     do { sibling \<leftarrow> right_of m parent;
          sibling_red \<leftarrow> is_red m sibling;
          (m, sibling) \<leftarrow> (if sibling_red
                          then do { m \<leftarrow> set_red False m sibling;
                                    m \<leftarrow> set_red True m parent;
                                    m \<leftarrow> tmap_rotate_left m parent;
                                    s \<leftarrow> right_of m parent;
                                    Some (m, s) }
                          else Some (m, sibling));
          l \<leftarrow> left_of m sibling; l_red \<leftarrow> is_red m l;
          r \<leftarrow> right_of m sibling; r_red \<leftarrow> is_red m r;
          if \<not> l_red \<and> \<not> r_red then
            do { m \<leftarrow> set_red True m sibling;
                 p \<leftarrow> parent_of m parent;
                 Some (m, parent, p) }
          else
            do { (m, sibling) \<leftarrow> (if \<not> r_red
                                 then do { m \<leftarrow> set_red False m l;
                                           m \<leftarrow> set_red True m sibling;
                                           m \<leftarrow> tmap_rotate_right m sibling;
                                           s \<leftarrow> right_of m parent;
                                           Some (m, s) }
                                 else Some (m, sibling));
                 p_red \<leftarrow> is_red m parent;
                 m \<leftarrow> set_red p_red m sibling;
                 m \<leftarrow> set_red False m parent;
                 r \<leftarrow> right_of m sibling;
                 m \<leftarrow> set_red False m r;
                 m \<leftarrow> tmap_rotate_left m parent;
                 Some (m, tm_root m, parent) } }"

definition delete_right ::
  "('k, 'v, 'u) tmap \<Rightarrow> tptr \<Rightarrow> (('k, 'v, 'u) tmap \<times> tptr \<times> tptr) option" where
  "delete_right m parent =
     do { sibling \<leftarrow> left_of m parent;
          sibling_red \<leftarrow> is_red m sibling;
          (m, sibling) \<leftarrow> (if sibling_red
                          then do { m \<leftarrow> set_red False m sibling;
                                    m \<leftarrow> set_red True m parent;
                                    m \<leftarrow> tmap_rotate_right m parent;
                                    s \<leftarrow> left_of m parent;
                                    Some (m, s) }
                          else Some (m, sibling));
          r \<leftarrow> right_of m sibling; r_red \<leftarrow> is_red m r;
          l \<leftarrow> left_of m sibling; l_red \<leftarrow> is_red m l;
          if \<not> r_red \<and> \<not> l_red then
            do { m \<leftarrow> set_red True m sibling;
                 p \<leftarrow> parent_of m parent;
                 Some (m, parent, p) }
          else
            do { (m, sibling) \<leftarrow> (if \<not> l_red
                                 then do { m \<leftarrow> set_red False m r;
                                           m \<leftarrow> set_red True m sibling;
                                           m \<leftarrow> tmap_rotate_left m sibling;
                                           s \<leftarrow> left_of m parent;
                                           Some (m, s) }
                                 else Some (m, sibling));
                 p_red \<leftarrow> is_red m parent;
                 m \<leftarrow> set_red p_red m sibling;
                 m \<leftarrow> set_red False m parent;
                 l \<leftarrow> left_of m sibling;
                 m \<leftarrow> set_red False m l;
                 m \<leftarrow> tmap_rotate_right m parent;
                 Some (m, tm_root m, parent) } }"

partial_function (option) delete_loop ::
  "('k, 'v, 'u) tmap \<Rightarrow> tptr \<Rightarrow> tptr \<Rightarrow> (('k, 'v, 'u) tmap \<times> tptr) option" where
  "delete_loop m node parent =
     (if node = tm_root m then Some (m, node)
      else do {
        node_red \<leftarrow> is_red m node;
        if node_red then Some (m, node)
        else do {
          l \<leftarrow> left_of m parent;
          (m, node, parent) \<leftarrow> (if node = l then delete_left m parent else delete_right m parent);
          delete_loop m node parent } })"

definition tmap_delete_rebalance :: "('k, 'v, 'u) tmap \<Rightarrow> tptr \<Rightarrow> tptr \<Rightarrow> ('k, 'v, 'u) tmap option" where
  "tmap_delete_rebalance m node parent =
     do { (m, node) \<leftarrow> delete_loop m node parent; set_red False m node }"

text \<open>
  The end of \<open>tmap_remove_node\<close>: \<open>spliced\<close>, which has at most the child \<open>child\<close>, is taken out and freed.
\<close>

definition splice_out :: "('k, 'v, 'u) tmap \<Rightarrow> tptr \<Rightarrow> tptr \<Rightarrow> ('k, 'v, 'u) tmap option" where
  "splice_out m spliced child =
     do { parent \<leftarrow> parent_of m spliced;
          m \<leftarrow> (if child \<noteq> nil then set_parent parent m child else Some m);
          if parent = nil then free_tnode (m\<lparr>tm_root := child\<rparr>) spliced
          else
            do { l \<leftarrow> left_of m parent;
                 m \<leftarrow> (if spliced = l then set_left child m parent else set_right child m parent);
                 splice_red \<leftarrow> is_red m spliced;
                 m \<leftarrow> (if \<not> splice_red then tmap_delete_rebalance m child parent else Some m);
                 free_tnode m spliced } }"

text \<open>\<open>spliced\<close> is the node itself, or the last one of its left subtree, whose key and value it then gets.\<close>

definition tmap_remove_node :: "('k, 'v, 'u) tmap \<Rightarrow> tptr \<Rightarrow> ('k, 'v, 'u) tmap option" where
  "tmap_remove_node m node =
     do { let m = m\<lparr>tm_size := tm_size m - 1\<rparr>;
          l \<leftarrow> left_of m node; r \<leftarrow> right_of m node;
          if l = nil then splice_out m node r
          else if r = nil then splice_out m node l
          else do { spliced \<leftarrow> rightmost m l;
                    child \<leftarrow> left_of m spliced;
                    s \<leftarrow> tm_nodes m spliced;
                    m \<leftarrow> change (tn_key_update (\<lambda>_. tn_key s)) m node;
                    m \<leftarrow> change (tn_value_update (\<lambda>_. tn_value s)) m node;
                    splice_out m spliced child } }"

definition tmap_remove ::
  "('k, 'v, 'u) tmap \<Rightarrow> 'k option \<Rightarrow> ('v option \<times> ('k, 'v, 'u) tmap) option" where
  "tmap_remove m k =
     do { node \<leftarrow> tmap_get_node m k;
          if node \<noteq> nil then
            do { n \<leftarrow> tm_nodes m node;
                 m \<leftarrow> tmap_remove_node m node;
                 Some (tn_value n, m) }
          else Some (None, m) }"

partial_function (option) clear_nodes ::
  "tptr \<Rightarrow> ('k, 'v, 'u) tmap \<Rightarrow> ('k, 'v, 'u) tmap option" where
  "clear_nodes node m =
     do { l \<leftarrow> left_of m node;
          m \<leftarrow> (if l \<noteq> nil then clear_nodes l m else Some m);
          r \<leftarrow> right_of m node;
          m \<leftarrow> (if r \<noteq> nil then clear_nodes r m else Some m);
          free_tnode m node }"

definition tmap_clear :: "('k, 'v, 'u) tmap \<Rightarrow> ('k, 'v, 'u) tmap option" where
  "tmap_clear m =
     do { m \<leftarrow> (if tm_root m \<noteq> nil
               then do { m \<leftarrow> clear_nodes (tm_root m) m; Some (m\<lparr>tm_root := nil\<rparr>) }
               else Some m);
          Some (m\<lparr>tm_size := 0\<rparr>) }"

definition tmap_free :: "('k, 'v, 'u) tmap \<Rightarrow> (tptr \<rightharpoonup> ('k, 'v) tnode) option" where
  "tmap_free m =
     do { m \<leftarrow> (if tm_root m \<noteq> nil then clear_nodes (tm_root m) m else Some m); Some (tm_nodes m) }"

subsection \<open>Walking\<close>

partial_function (option) climb :: "('k, 'v, 'u) tmap \<Rightarrow> tptr \<Rightarrow> tptr \<Rightarrow> tptr option" where
  "climb m node parent =
     do { r \<leftarrow> right_of m parent;
          if node = r then do { p \<leftarrow> parent_of m parent; climb m parent p } else Some parent }"

definition successor :: "('k, 'v, 'u) tmap \<Rightarrow> tptr \<Rightarrow> tptr option" where
  "successor m node =
     do { r \<leftarrow> right_of m node;
          if r \<noteq> nil then leftmost m r
          else do { p \<leftarrow> parent_of m node; climb m node p } }"

text \<open>The nodes in the order in which \<open>tmap_foreach_nodes_key\<close> and \<open>tmap_foreach_nodes_value\<close> visit them.\<close>

partial_function (option) foreach_nodes ::
  "('k, 'v, 'u) tmap \<Rightarrow> tptr \<Rightarrow> ('k, 'v) tnode list option" where
  "foreach_nodes m node =
     do { n \<leftarrow> tm_nodes m node;
          ls \<leftarrow> (if tn_left n \<noteq> nil then foreach_nodes m (tn_left n) else Some []);
          rs \<leftarrow> (if tn_right n \<noteq> nil then foreach_nodes m (tn_right n) else Some []);
          Some (ls @ rs @ [n]) }"

definition tmap_foreach_key :: "('k, 'v, 'u) tmap \<Rightarrow> 'k option list option" where
  "tmap_foreach_key m =
     (if tm_root m \<noteq> nil then map_option (map tn_key) (foreach_nodes m (tm_root m)) else Some [])"

definition tmap_foreach_value :: "('k, 'v, 'u) tmap \<Rightarrow> 'v option list option" where
  "tmap_foreach_value m =
     (if tm_root m \<noteq> nil then map_option (map tn_value) (foreach_nodes m (tm_root m)) else Some [])"

text \<open>An iterator: the next node and the last one.\<close>

record tmap_iterator =
  it_n0 :: tptr
  it_n1 :: tptr

definition tmap_iterator_start :: "('k, 'v, 'u) tmap \<Rightarrow> tmap_iterator option" where
  "tmap_iterator_start m = do { p \<leftarrow> tmap_first_node m; Some \<lparr>it_n0 = p, it_n1 = nil\<rparr> }"

definition tmap_iterator_has_next :: "tmap_iterator \<Rightarrow> bool" where
  "tmap_iterator_has_next it \<longleftrightarrow> it_n0 it \<noteq> nil"

definition tmap_iterator_next :: "('k, 'v, 'u) tmap \<Rightarrow> tmap_iterator \<Rightarrow> ('v option \<times> tmap_iterator) option" where
  "tmap_iterator_next m it =
     (if it_n0 it = nil then Some (None, it)
      else do { n \<leftarrow> tm_nodes m (it_n0 it);
                p \<leftarrow> (if it_n0 it = it_n1 it then Some nil else successor m (it_n0 it));
                Some (tn_value n, it\<lparr>it_n0 := p\<rparr>) })"

text \<open>\<open>tmap_iterator_partial\<close>: the walk to a match, and the two walks to the ends of the matches.\<close>

partial_function (option) match_first ::
  "('k, 'v, 'u) tmap \<Rightarrow> ('k option \<Rightarrow> int) \<Rightarrow> tptr \<Rightarrow> tptr \<Rightarrow> tptr option" where
  "match_first m cmp nx nn =
     (if nn = nil then Some nx
      else do { n \<leftarrow> tm_nodes m nn;
                if cmp (tn_key n) = 0 then match_first m cmp nn (tn_left n)
                else match_first m cmp nx (tn_right n) })"

partial_function (option) match_last ::
  "('k, 'v, 'u) tmap \<Rightarrow> ('k option \<Rightarrow> int) \<Rightarrow> tptr \<Rightarrow> tptr \<Rightarrow> tptr option" where
  "match_last m cmp nx nn =
     (if nn = nil then Some nx
      else do { n \<leftarrow> tm_nodes m nn;
                if cmp (tn_key n) = 0 then match_last m cmp nn (tn_right n)
                else match_last m cmp nx (tn_left n) })"

partial_function (option) match_loop ::
  "('k, 'v, 'u) tmap \<Rightarrow> ('k option \<Rightarrow> int) \<Rightarrow> tptr \<Rightarrow> (bool \<times> tmap_iterator) option" where
  "match_loop m cmp p =
     (if p = nil then Some (False, \<lparr>it_n0 = nil, it_n1 = nil\<rparr>)
      else do {
        n \<leftarrow> tm_nodes m p;
        let compare = cmp (tn_key n);
        if compare > 0 then match_loop m cmp (tn_right n)
        else if compare < 0 then match_loop m cmp (tn_left n)
        else do { a \<leftarrow> match_first m cmp p (tn_left n);
                  b \<leftarrow> match_last m cmp p (tn_right n);
                  Some (True, \<lparr>it_n0 = a, it_n1 = b\<rparr>) } })"

definition tmap_iterator_partial ::
  "('k, 'v, 'u) tmap \<Rightarrow> 'm \<Rightarrow> ('m \<Rightarrow> 'k option \<Rightarrow> int) \<Rightarrow> (bool \<times> tmap_iterator) option" where
  "tmap_iterator_partial m match comparator = match_loop m (comparator match) (tm_root m)"

subsection \<open>The check of the tree\<close>

text \<open>\<open>tmap_verify\<close>: \<open>expect\<close> is the number of black nodes above and including each node without children.\<close>

partial_function (option) black_above :: "('k, 'v, 'u) tmap \<Rightarrow> tptr \<Rightarrow> int \<Rightarrow> int option" where
  "black_above m x count =
     (if x = nil then Some count
      else do { n \<leftarrow> tm_nodes m x; black_above m (tn_parent n) (if tn_red n then count else count + 1) })"

partial_function (option) node_verify :: "('k, 'v, 'u) tmap \<Rightarrow> tptr \<Rightarrow> int \<Rightarrow> (bool \<times> int) option" where
  "node_verify m node expect =
     (if node = nil then Some (True, expect)
      else do {
        n \<leftarrow> tm_nodes m node;
        l_red \<leftarrow> is_red m (tn_left n);
        r_red \<leftarrow> is_red m (tn_right n);
        if tn_red n \<and> (l_red \<or> r_red) then Some (False, expect)
        else do {
          (ok, expect) \<leftarrow> (if tn_left n = nil \<and> tn_right n = nil
                          then do { count \<leftarrow> black_above m node 0;
                                    if expect = -1 then Some (True, count)
                                    else Some (count = expect, expect) }
                          else Some (True, expect));
          if \<not> ok then Some (False, expect)
          else do {
            (ok, expect) \<leftarrow> node_verify m (tn_left n) expect;
            if \<not> ok then Some (False, expect) else node_verify m (tn_right n) expect } } })"

definition tmap_verify :: "('k, 'v, 'u) tmap \<Rightarrow> bool option" where
  "tmap_verify m = map_option fst (node_verify m (tm_root m) (-1))"

end
