(* ===== verification/Tmap_Tree.thy ===== *)
theory Tmap_Tree
  imports Tmap
begin

text \<open>
  The trees a memory of \<open>tmap.c\<close> stands for: a tree with the addresses of its nodes, taken apart at a node into
  the subtree there and the way up to the root.  \<open>rep\<close> relates a map to a tree; the lemmas say what the
  single reads and writes and the rotations do to the tree.
\<close>

subsection \<open>Steps that return\<close>

definition returns :: "('a \<Rightarrow> bool) \<Rightarrow> 'a option \<Rightarrow> bool" where
  "returns P x \<longleftrightarrow> (\<exists>y. x = Some y \<and> P y)"

lemma returns_simps [simp]: "\<not> returns P None" "returns P (Some y) \<longleftrightarrow> P y"
  by (simp_all add: returns_def)

lemma returnsE: "returns P x \<Longrightarrow> (\<And>y. x = Some y \<Longrightarrow> P y \<Longrightarrow> R) \<Longrightarrow> R"
  by (auto simp: returns_def)

lemma returns_bind: "returns Q x \<Longrightarrow> (\<And>y. Q y \<Longrightarrow> returns P (f y)) \<Longrightarrow> returns P (Option.bind x f)"
  by (auto simp: returns_def)

lemma returns_mono: "returns Q x \<Longrightarrow> (\<And>y. Q y \<Longrightarrow> P y) \<Longrightarrow> returns P x"
  by (auto simp: returns_def)

subsection \<open>Trees and the way up\<close>

datatype ('k, 'v) rtree =
  Tip
| Br "('k, 'v) rtree" tptr bool "'k option" "'v option" "('k, 'v) rtree"

datatype ('k, 'v) frame =
  In_Left tptr bool "'k option" "'v option" "('k, 'v) rtree"
| In_Right "('k, 'v) rtree" tptr bool "'k option" "'v option"

fun root_of :: "('k, 'v) rtree \<Rightarrow> tptr" where
  "root_of Tip = nil"
| "root_of (Br l a c k v r) = a"

fun red_of :: "('k, 'v) rtree \<Rightarrow> bool" where
  "red_of Tip \<longleftrightarrow> False"
| "red_of (Br l a c k v r) \<longleftrightarrow> c"

fun blacken :: "('k, 'v) rtree \<Rightarrow> ('k, 'v) rtree" where
  "blacken Tip = Tip"
| "blacken (Br l a c k v r) = Br l a False k v r"

fun frame_addr :: "('k, 'v) frame \<Rightarrow> tptr" where
  "frame_addr (In_Left a c k v r) = a"
| "frame_addr (In_Right l a c k v) = a"

fun frame_red :: "('k, 'v) frame \<Rightarrow> bool" where
  "frame_red (In_Left a c k v r) = c"
| "frame_red (In_Right l a c k v) = c"

fun parent :: "('k, 'v) frame list \<Rightarrow> tptr" where
  "parent [] = nil"
| "parent (f # ctx) = frame_addr f"

fun fill :: "('k, 'v) rtree \<Rightarrow> ('k, 'v) frame list \<Rightarrow> ('k, 'v) rtree" where
  "fill t [] = t"
| "fill t (In_Left a c k v r # ctx) = fill (Br t a c k v r) ctx"
| "fill t (In_Right l a c k v # ctx) = fill (Br l a c k v t) ctx"

text \<open>The nodes from the first to the last, with their addresses.\<close>

fun in_order :: "('k, 'v) rtree \<Rightarrow> (tptr \<times> 'k option \<times> 'v option) list" where
  "in_order Tip = []"
| "in_order (Br l a c k v r) = in_order l @ (a, k, v) # in_order r"

fun nodes_before :: "('k, 'v) frame list \<Rightarrow> (tptr \<times> 'k option \<times> 'v option) list" where
  "nodes_before [] = []"
| "nodes_before (In_Left a c k v r # ctx) = nodes_before ctx"
| "nodes_before (In_Right l a c k v # ctx) = nodes_before ctx @ in_order l @ [(a, k, v)]"

fun nodes_behind :: "('k, 'v) frame list \<Rightarrow> (tptr \<times> 'k option \<times> 'v option) list" where
  "nodes_behind [] = []"
| "nodes_behind (In_Left a c k v r # ctx) = (a, k, v) # in_order r @ nodes_behind ctx"
| "nodes_behind (In_Right l a c k v # ctx) = nodes_behind ctx"

definition addrs :: "('k, 'v) rtree \<Rightarrow> tptr list" where
  "addrs t = map fst (in_order t)"

definition entries :: "('k, 'v) rtree \<Rightarrow> ('k option \<times> 'v option) list" where
  "entries t = map snd (in_order t)"

lemma in_order_fill: "in_order (fill t ctx) = nodes_before ctx @ in_order t @ nodes_behind ctx"
  by (induction t ctx rule: fill.induct) simp_all

lemma addrs_simps [simp]: "addrs Tip = []" "addrs (Br l a c k v r) = addrs l @ a # addrs r"
  by (simp_all add: addrs_def)

lemma entries_simps [simp]: "entries Tip = []" "entries (Br l a c k v r) = entries l @ (k, v) # entries r"
  by (simp_all add: entries_def)

lemma root_in_addrs: "root_of t \<noteq> nil \<Longrightarrow> root_of t \<in> set (addrs t)"
  by (cases t) simp_all

definition ctx_addrs :: "('k, 'v) frame list \<Rightarrow> tptr list" where
  "ctx_addrs ctx = map fst (nodes_before ctx @ nodes_behind ctx)"

lemma ctx_addrs_simps [simp]:
  "ctx_addrs [] = []"
  "set (ctx_addrs (In_Left a c k v r # ctx)) = insert a (set (addrs r) \<union> set (ctx_addrs ctx))"
  "set (ctx_addrs (In_Right l a c k v # ctx)) = insert a (set (addrs l) \<union> set (ctx_addrs ctx))"
  "distinct (ctx_addrs (In_Left a c k v r # ctx)) \<longleftrightarrow>
     a \<notin> set (addrs r) \<and> a \<notin> set (ctx_addrs ctx) \<and> distinct (addrs r) \<and> distinct (ctx_addrs ctx) \<and>
     set (addrs r) \<inter> set (ctx_addrs ctx) = {}"
  "distinct (ctx_addrs (In_Right l a c k v # ctx)) \<longleftrightarrow>
     a \<notin> set (addrs l) \<and> a \<notin> set (ctx_addrs ctx) \<and> distinct (addrs l) \<and> distinct (ctx_addrs ctx) \<and>
     set (addrs l) \<inter> set (ctx_addrs ctx) = {}"
  by (auto simp: ctx_addrs_def addrs_def)

lemma addrs_fill:
  "set (addrs (fill t ctx)) = set (addrs t) \<union> set (ctx_addrs ctx)"
  "distinct (addrs (fill t ctx)) \<longleftrightarrow>
     distinct (addrs t) \<and> distinct (ctx_addrs ctx) \<and> set (addrs t) \<inter> set (ctx_addrs ctx) = {}"
  by (auto simp: addrs_def ctx_addrs_def in_order_fill)

lemma parent_in_ctx: "parent ctx \<noteq> nil \<Longrightarrow> parent ctx \<in> set (ctx_addrs ctx)"
  by (cases ctx rule: nodes_before.cases) simp_all

subsection \<open>Trees in memory\<close>

fun tree_at :: "(tptr \<rightharpoonup> ('k, 'v) tnode) \<Rightarrow> tptr \<Rightarrow> ('k, 'v) rtree \<Rightarrow> bool" where
  "tree_at N p Tip \<longleftrightarrow> True"
| "tree_at N p (Br l a c k v r) \<longleftrightarrow>
     N a = Some \<lparr>tn_key = k, tn_value = v, tn_red = c, tn_left = root_of l, tn_right = root_of r, tn_parent = p\<rparr> \<and>
     tree_at N a l \<and> tree_at N a r"

fun ctx_at :: "(tptr \<rightharpoonup> ('k, 'v) tnode) \<Rightarrow> tptr \<Rightarrow> ('k, 'v) frame list \<Rightarrow> bool" where
  "ctx_at N x [] \<longleftrightarrow> True"
| "ctx_at N x (In_Left a c k v r # ctx) \<longleftrightarrow>
     N a = Some \<lparr>tn_key = k, tn_value = v, tn_red = c, tn_left = x, tn_right = root_of r, tn_parent = parent ctx\<rparr> \<and>
     tree_at N a r \<and> ctx_at N a ctx"
| "ctx_at N x (In_Right l a c k v # ctx) \<longleftrightarrow>
     N a = Some \<lparr>tn_key = k, tn_value = v, tn_red = c, tn_left = root_of l, tn_right = x, tn_parent = parent ctx\<rparr> \<and>
     tree_at N a l \<and> ctx_at N a ctx"

lemma tree_at_fill: "tree_at N nil (fill t ctx) \<longleftrightarrow> tree_at N (parent ctx) t \<and> ctx_at N (root_of t) ctx"
  by (induction t ctx rule: fill.induct) auto

lemma tree_at_upd [simp]: "a \<notin> set (addrs t) \<Longrightarrow> tree_at (N(a := x)) p t = tree_at N p t"
  by (induction t arbitrary: p) auto

lemma ctx_at_upd [simp]: "a \<notin> set (ctx_addrs ctx) \<Longrightarrow> ctx_at (N(a := x)) y ctx = ctx_at N y ctx"
  by (induction ctx arbitrary: y rule: nodes_before.induct) auto

subsection \<open>The tree of a map\<close>

definition dom_is :: "('a \<rightharpoonup> 'b) \<Rightarrow> 'a set \<Rightarrow> bool" where
  "dom_is N S \<longleftrightarrow> dom N = S"

definition same_on :: "'a set \<Rightarrow> ('a \<rightharpoonup> 'b) \<Rightarrow> ('a \<rightharpoonup> 'b) \<Rightarrow> bool" where
  "same_on X N N0 \<longleftrightarrow> (\<forall>x \<in> X. N x = N0 x)"

lemma dom_is_upd [simp]: "N a = Some y \<Longrightarrow> dom_is (N(a \<mapsto> z)) S \<longleftrightarrow> dom_is N S"
  by (auto simp: dom_is_def)

lemma same_on_upd [simp]: "a \<notin> X \<Longrightarrow> same_on X (N(a := y)) N0 \<longleftrightarrow> same_on X N N0"
  by (auto simp: same_on_def)

text \<open>
  The map \<open>m\<close> holds the tree \<open>t\<close>: its nodes, the node of \<open>nil\<close> and the nodes \<open>X\<close>, which have been taken out,
  are all the memory there is; everything else of the map is as in \<open>m0\<close>.
\<close>

definition rep ::
  "('k, 'v, 'u) tmap \<Rightarrow> tptr set \<Rightarrow> ('k, 'v, 'u) tmap \<Rightarrow> ('k, 'v) rtree \<Rightarrow> bool" where
  "rep m0 X m t \<longleftrightarrow>
     tm_comparator m = tm_comparator m0 \<and> tm_size m = tm_size m0 \<and> tm_next m = tm_next m0 \<and>
     tm_root m = root_of t \<and> tree_at (tm_nodes m) nil t \<and> distinct (addrs t) \<and> nil \<notin> set (addrs t) \<and>
     tm_nodes m nil = Some nil_node \<and> dom_is (tm_nodes m) (insert nil (X \<union> set (addrs t))) \<and>
     X \<inter> insert nil (set (addrs t)) = {} \<and> same_on X (tm_nodes m) (tm_nodes m0)"

fun top_addr :: "tptr \<Rightarrow> ('k, 'v) frame list \<Rightarrow> tptr" where
  "top_addr x [] = x"
| "top_addr x (f # ctx) = top_addr (frame_addr f) ctx"

lemma root_of_fill [simp]: "root_of (fill t ctx) = top_addr (root_of t) ctx"
  by (induction t ctx rule: fill.induct) simp_all

lemma rep_fill:
  "rep m0 X m (fill t ctx) \<longleftrightarrow>
     tm_comparator m = tm_comparator m0 \<and> tm_size m = tm_size m0 \<and> tm_next m = tm_next m0 \<and>
     tm_root m = top_addr (root_of t) ctx \<and> tree_at (tm_nodes m) (parent ctx) t \<and> ctx_at (tm_nodes m) (root_of t) ctx \<and>
     distinct (addrs t) \<and> distinct (ctx_addrs ctx) \<and> set (addrs t) \<inter> set (ctx_addrs ctx) = {} \<and>
     nil \<notin> set (addrs t) \<and> nil \<notin> set (ctx_addrs ctx) \<and> tm_nodes m nil = Some nil_node \<and>
     dom_is (tm_nodes m) (insert nil (X \<union> (set (addrs t) \<union> set (ctx_addrs ctx)))) \<and>
     X \<inter> insert nil (set (addrs t) \<union> set (ctx_addrs ctx)) = {} \<and> same_on X (tm_nodes m) (tm_nodes m0)"
  unfolding rep_def tree_at_fill addrs_fill root_of_fill by blast

subsection \<open>Reading and colouring\<close>

lemmas memory_defs = left_of_def right_of_def parent_of_def is_red_def change_def

lemma root_of_neq [simp]:
  "a \<notin> set (addrs t) \<Longrightarrow> nil < a \<Longrightarrow> root_of t \<noteq> a"
  "a \<notin> set (addrs t) \<Longrightarrow> nil < a \<Longrightarrow> a \<noteq> root_of t"
  by (cases t; auto)+

lemma rep_fields:
  assumes "rep m0 X m (fill (Br l a c k v r) ctx)"
  shows "tm_nodes m a = Some \<lparr>tn_key = k, tn_value = v, tn_red = c, tn_left = root_of l, tn_right = root_of r,
      tn_parent = parent ctx\<rparr>"
    and "left_of m a = Some (root_of l)" "right_of m a = Some (root_of r)" "parent_of m a = Some (parent ctx)"
    and "is_red m a = Some c" "a \<noteq> nil"
  using assms by (auto simp: rep_fill memory_defs)

lemma rep_nil_fields:
  assumes "rep m0 X m t"
  shows "left_of m nil = Some nil" "right_of m nil = Some nil" "parent_of m nil = Some nil" "is_red m nil = Some False"
  using assms by (auto simp: rep_def memory_defs nil_node_def)

lemma rep_focus_red: "rep m0 X m (fill t ctx) \<Longrightarrow> is_red m (root_of t) = Some (red_of t)"
  by (cases t) (simp_all add: rep_nil_fields rep_fields)

lemma set_red_rep:
  "rep m0 X m (fill (Br l a c k v r) ctx) \<Longrightarrow> returns (\<lambda>m'. rep m0 X m' (fill (Br l a b k v r) ctx)) (set_red b m a)"
  unfolding rep_fill by (simp add: change_def)

lemma set_red_nil: "rep m0 X m t \<Longrightarrow> set_red False m nil = Some m"
  by (simp add: rep_def change_def nil_node_def fun_upd_idem)

lemma blacken_rep: "rep m0 X m (fill t ctx) \<Longrightarrow> returns (\<lambda>m'. rep m0 X m' (fill (blacken t) ctx)) (set_red False m (root_of t))"
  by (cases t) (simp_all add: set_red_nil set_red_rep)

subsection \<open>Rotations\<close>

lemma rotate_left_rep:
  assumes "rep m0 X m (fill (Br l a ca ka va (Br x b cb kb vb r)) ctx)"
  shows "returns (\<lambda>m'. rep m0 X m' (fill (Br (Br l a ca ka va x) b cb kb vb r) ctx)) (tmap_rotate_left m a)"
  using assms unfolding rep_fill
  by (cases ctx rule: nodes_before.cases; cases x) (simp_all add: tmap_rotate_left_def memory_defs)

lemma rotate_right_rep:
  assumes "rep m0 X m (fill (Br (Br l a ca ka va x) b cb kb vb r) ctx)"
  shows "returns (\<lambda>m'. rep m0 X m' (fill (Br l a ca ka va (Br x b cb kb vb r)) ctx)) (tmap_rotate_right m b)"
  using assms unfolding rep_fill
  by (cases ctx rule: nodes_before.cases; cases x) (simp_all add: tmap_rotate_right_def memory_defs)

end
