(* ===== verification/Tmap_Balance.thy ===== *)
theory Tmap_Balance
  imports Tmap_Tree
begin

text \<open>
  The two rebalancing loops of \<open>tmap.c\<close>: what each turn does to the tree, that the loops end, and that they
  restore the red-black invariant without changing the order of the nodes.
\<close>

subsection \<open>The invariant\<close>

fun bh :: "('k, 'v) rtree \<Rightarrow> nat" where
  "bh Tip = 0"
| "bh (Br l a c k v r) = bh l + (if c then 0 else 1)"

text \<open>No red node has a red child, and all ways down pass equally many black nodes; the root may be red.\<close>

fun rb :: "('k, 'v) rtree \<Rightarrow> bool" where
  "rb Tip \<longleftrightarrow> True"
| "rb (Br l a c k v r) \<longleftrightarrow> rb l \<and> rb r \<and> bh l = bh r \<and> (c \<longrightarrow> \<not> red_of l \<and> \<not> red_of r)"

text \<open>The way up fits a tree of black height \<open>h\<close> whose root has the colour \<open>c\<close>.\<close>

fun ctx_rb :: "nat \<Rightarrow> bool \<Rightarrow> ('k, 'v) frame list \<Rightarrow> bool" where
  "ctx_rb h c [] \<longleftrightarrow> True"
| "ctx_rb h c (In_Left a d k v r # ctx) \<longleftrightarrow>
     rb r \<and> bh r = h \<and> (d \<longrightarrow> \<not> c \<and> \<not> red_of r) \<and> ctx_rb (h + (if d then 0 else 1)) d ctx"
| "ctx_rb h c (In_Right l a d k v # ctx) \<longleftrightarrow>
     rb l \<and> bh l = h \<and> (d \<longrightarrow> \<not> c \<and> \<not> red_of l) \<and> ctx_rb (h + (if d then 0 else 1)) d ctx"

lemma rb_fill: "rb (fill t ctx) \<longleftrightarrow> rb t \<and> ctx_rb (bh t) (red_of t) ctx"
  by (induction t ctx rule: fill.induct) auto

lemma rb_blacken: "rb t \<Longrightarrow> rb (blacken t) \<and> bh (blacken t) = bh t + (if red_of t then 1 else 0) \<and> \<not> red_of (blacken t)"
  by (cases t) auto

lemma in_order_blacken [simp]: "in_order (blacken t) = in_order t"
  by (cases t) simp_all

lemma root_of_blacken [simp]: "root_of (blacken t) = root_of t"
  by (cases t) simp_all

lemma ctx_rb_black: "ctx_rb h c ctx \<Longrightarrow> ctx_rb h False ctx"
  by (cases ctx rule: nodes_before.cases) auto

subsection \<open>Mirror images\<close>

definition flip_node :: "('k, 'v) tnode \<Rightarrow> ('k, 'v) tnode" where
  "flip_node n = n\<lparr>tn_left := tn_right n, tn_right := tn_left n\<rparr>"

definition flip_map :: "('k, 'v, 'u) tmap \<Rightarrow> ('k, 'v, 'u) tmap" where
  "flip_map m = m\<lparr>tm_nodes := map_option flip_node \<circ> tm_nodes m\<rparr>"

fun flip :: "('k, 'v) rtree \<Rightarrow> ('k, 'v) rtree" where
  "flip Tip = Tip"
| "flip (Br l a c k v r) = Br (flip r) a c k v (flip l)"

fun flip_frame :: "('k, 'v) frame \<Rightarrow> ('k, 'v) frame" where
  "flip_frame (In_Left a c k v r) = In_Right (flip r) a c k v"
| "flip_frame (In_Right l a c k v) = In_Left a c k v (flip l)"

lemma flip_node_flip [simp]: "flip_node (flip_node n) = n"
  by (simp add: flip_node_def)

lemma flip_map_flip [simp]: "flip_map (flip_map m) = m"
  by (simp add: flip_map_def comp_def option.map_comp option.map_ident)

lemma flip_flip [simp]: "flip (flip t) = t"
  by (induction t) simp_all

lemma flip_simps [simp]:
  "root_of (flip t) = root_of t" "red_of (flip t) = red_of t" "addrs (flip t) = rev (addrs t)"
  "blacken (flip t) = flip (blacken t)"
  by (induction t) simp_all

lemma flip_fill: "flip (fill t ctx) = fill (flip t) (map flip_frame ctx)"
  by (induction t ctx rule: fill.induct) simp_all

lemma flip_fields [simp]:
  "tm_root (flip_map m) = tm_root m"
  "is_red (flip_map m) p = is_red m p" "parent_of (flip_map m) p = parent_of m p"
  "left_of (flip_map m) p = right_of m p" "right_of (flip_map m) p = left_of m p"
  by (simp_all add: flip_map_def memory_defs option.map_comp comp_def flip_node_def)

lemma flip_change [simp]:
  "set_red b (flip_map m) p = map_option flip_map (set_red b m p)"
  "set_parent q (flip_map m) p = map_option flip_map (set_parent q m p)"
  "set_left q (flip_map m) p = map_option flip_map (set_right q m p)"
  "set_right q (flip_map m) p = map_option flip_map (set_left q m p)"
  by (cases "tm_nodes m p"; simp add: flip_map_def change_def flip_node_def fun_eq_iff comp_def)+

lemma bind_map_option: "Option.bind (map_option f x) g = Option.bind x (\<lambda>y. g (f y))"
  by (cases x) simp_all

lemma map_option_bind: "map_option f (Option.bind x g) = Option.bind x (\<lambda>y. map_option f (g y))"
  by (cases x) simp_all

lemma flip_root_update [simp]: "(flip_map m)\<lparr>tm_root := r\<rparr> = flip_map (m\<lparr>tm_root := r\<rparr>)"
  by (simp add: flip_map_def)

lemmas flip_monad = bind_map_option map_option_bind if_distrib [where f = "map_option _"] if_distrib [where f = "\<lambda>x. Option.bind x _"]

lemma flip_rotate: "tmap_rotate_left (flip_map m) a = map_option flip_map (tmap_rotate_right m a)"
  by (simp add: tmap_rotate_left_def tmap_rotate_right_def flip_monad cong: if_cong)

lemma flip_rotate': "tmap_rotate_right (flip_map m) a = map_option flip_map (tmap_rotate_left m a)"
  using flip_rotate [of "flip_map m" a] by (simp add: option.map_comp comp_def option.map_ident)

lemma flip_insert: "insert_left (flip_map m) n = map_option (map_prod flip_map id) (insert_right m n)"
  by (simp add: insert_left_def insert_right_def flip_rotate flip_rotate' flip_monad case_prod_unfold cong: if_cong)

lemma flip_delete: "delete_left (flip_map m) n = map_option (map_prod flip_map id) (delete_right m n)"
  by (simp add: delete_left_def delete_right_def flip_rotate flip_rotate' flip_monad case_prod_unfold Let_def cong: if_cong)

lemma flip_tree_at: "tree_at (map_option flip_node \<circ> N) p (flip t) \<longleftrightarrow> tree_at N p t"
proof -
  have "tree_at N p t \<Longrightarrow> tree_at (map_option flip_node \<circ> N) p (flip t)" for N p and t :: "('a, 'b) rtree"
    by (induction t arbitrary: p) (simp_all add: flip_node_def)
  from this [of N p t] this [of "map_option flip_node \<circ> N" p "flip t"] show ?thesis
    by (auto simp: comp_def option.map_comp option.map_ident)
qed

lemma flip_rep: "rep (flip_map m0) X (flip_map m) (flip t) \<longleftrightarrow> rep m0 X m t"
proof -
  have "map_option flip_node a = map_option flip_node b \<longleftrightarrow> a = b" for a b :: "('a, 'b) tnode option"
    by (metis flip_node_flip option.inj_map_strong)
  moreover have "flip_node nil_node = (nil_node :: ('a, 'b) tnode)" by (simp add: flip_node_def nil_node_def)
  moreover have "map_option flip_node a = Some nil_node \<longleftrightarrow> a = Some nil_node" for a :: "('a, 'b) tnode option"
    using calculation by (metis option.simps(9))
  ultimately show ?thesis
    unfolding rep_def by (simp add: flip_map_def flip_tree_at dom_is_def same_on_def dom_def)
qed
subsection \<open>The turns of the loop after an insertion\<close>

lemma set_red_at:
  assumes "rep m0 X m (fill (Br l a c k v r) ctx)"
  obtains m' where "set_red b m a = Some m'" "rep m0 X m' (fill (Br l a b k v r) ctx)"
  using set_red_rep [OF assms, of b] by (auto simp: returns_def)

lemma rotate_left_at:
  assumes "rep m0 X m (fill (Br l a ca ka va (Br x b cb kb vb r)) ctx)"
  obtains m' where "tmap_rotate_left m a = Some m'" "rep m0 X m' (fill (Br (Br l a ca ka va x) b cb kb vb r) ctx)"
  using rotate_left_rep [OF assms] by (auto simp: returns_def)

lemma rotate_right_at:
  assumes "rep m0 X m (fill (Br (Br l a ca ka va x) b cb kb vb r) ctx)"
  obtains m' where "tmap_rotate_right m b = Some m'" "rep m0 X m' (fill (Br l a ca ka va (Br x b cb kb vb r)) ctx)"
  using rotate_right_rep [OF assms] by (auto simp: returns_def)

lemma insert_left_red:
  assumes R: "rep m0 X m (fill t (f # In_Left g gc gk gv (Br ul u True uk uv ur) # ctx))" and "t \<noteq> Tip"
    and f: "f = In_Left p True pk pv s \<or> f = In_Right s p True pk pv"
  shows "returns (\<lambda>(m', n). n = g \<and>
      rep m0 X m' (fill (Br (blacken (fill t [f])) g True gk gv (Br ul u False uk uv ur)) ctx)) (insert_left m (root_of t))"
proof -
  let ?u = "\<lambda>c. Br ul u c uk uv ur"
  obtain pl pr where p: "fill t [f] = Br pl p True pk pv pr" using f by auto
  have P: "rep m0 X m (fill (Br pl p True pk pv pr) (In_Left g gc gk gv (?u True) # ctx))"
    using R f p by auto
  obtain x n nc nk nv z where t: "t = Br x n nc nk nv z" using assms(2) by (cases t) auto
  have 1: "parent_of m (root_of t) = Some p"
    using R f by (auto simp: t rep_fill memory_defs)
  have 2: "parent_of m p = Some g" "right_of m g = Some u" "is_red m u = Some True"
    using P unfolding rep_fill by (simp_all add: memory_defs)
  obtain m1 where m1: "set_red False m p = Some m1"
    "rep m0 X m1 (fill (Br pl p False pk pv pr) (In_Left g gc gk gv (?u True) # ctx))"
    using P by (rule set_red_at)
  then have U: "rep m0 X m1 (fill (?u True) (In_Right (Br pl p False pk pv pr) g gc gk gv # ctx))" by simp
  obtain m2 where m2: "set_red False m1 u = Some m2"
    "rep m0 X m2 (fill (?u False) (In_Right (Br pl p False pk pv pr) g gc gk gv # ctx))"
    using U by (rule set_red_at)
  have 3: "parent_of m2 u = Some g" using m2(2) unfolding rep_fill by (simp add: memory_defs)
  from m2(2) have G: "rep m0 X m2 (fill (Br (Br pl p False pk pv pr) g gc gk gv (?u False)) ctx)" by simp
  obtain m3 where m3: "set_red True m2 g = Some m3"
    "rep m0 X m3 (fill (Br (Br pl p False pk pv pr) g True gk gv (?u False)) ctx)"
    using G by (rule set_red_at)
  have 4: "parent_of m3 u = Some g" using m3(2) unfolding rep_fill by (simp add: memory_defs)
  show ?thesis using m3(2) by (simp add: insert_left_def 1 2 m1(1) m2(1) 3 m3(1) 4 p)
qed

lemma insert_left_left:
  assumes R: "rep m0 X m (fill (Br x n nc nk nv z) (In_Left p True pk pv s # In_Left g gc gk gv u # ctx))" "\<not> red_of u"
  shows "returns (\<lambda>(m', n'). n' = n \<and>
      rep m0 X m' (fill (Br x n nc nk nv z) (In_Left p False pk pv (Br s g True gk gv u) # ctx))) (insert_left m n)"
proof -
  let ?t = "Br x n nc nk nv z"
  have 1: "parent_of m n = Some p" "parent_of m p = Some g" "right_of m g = Some (root_of u)" "right_of m p = Some (root_of s)"
    "n \<noteq> root_of s"
    using R(1) unfolding rep_fill by (auto simp: memory_defs)
  have u: "is_red m (root_of u) = Some False"
    using rep_focus_red [of m0 X m u "In_Right (Br ?t p True pk pv s) g gc gk gv # ctx"] R by simp
  from R(1) have P: "rep m0 X m (fill (Br ?t p True pk pv s) (In_Left g gc gk gv u # ctx))" by simp
  obtain m1 where m1: "set_red False m p = Some m1" "rep m0 X m1 (fill (Br ?t p False pk pv s) (In_Left g gc gk gv u # ctx))"
    using P by (rule set_red_at)
  have 2: "parent_of m1 p = Some g" using m1(2) unfolding rep_fill by (simp add: memory_defs)
  from m1(2) have G: "rep m0 X m1 (fill (Br (Br ?t p False pk pv s) g gc gk gv u) ctx)" by simp
  obtain m2 where m2: "set_red True m1 g = Some m2" "rep m0 X m2 (fill (Br (Br ?t p False pk pv s) g True gk gv u) ctx)"
    using G by (rule set_red_at)
  obtain m3 where m3: "tmap_rotate_right m2 g = Some m3" "rep m0 X m3 (fill (Br ?t p False pk pv (Br s g True gk gv u)) ctx)"
    using m2(2) by (rule rotate_right_at)
  show ?thesis using m3(2) by (simp add: insert_left_def 1 u m1(1) 2 m2(1) m3(1))
qed

lemma insert_left_right:
  assumes R: "rep m0 X m (fill (Br x n nc nk nv z) (In_Right s p True pk pv # In_Left g gc gk gv u # ctx))" "\<not> red_of u"
  shows "returns (\<lambda>(m', n'). n' = p \<and>
      rep m0 X m' (fill (Br s p True pk pv x) (In_Left n False nk nv (Br z g True gk gv u) # ctx))) (insert_left m n)"
proof -
  let ?t = "Br x n nc nk nv z"
  have 1: "parent_of m n = Some p" "parent_of m p = Some g" "right_of m g = Some (root_of u)" "right_of m p = Some n"
    using R(1) unfolding rep_fill by (auto simp: memory_defs)
  have u: "is_red m (root_of u) = Some False"
    using rep_focus_red [of m0 X m u "In_Right (Br s p True pk pv ?t) g gc gk gv # ctx"] R by simp
  from R(1) have P: "rep m0 X m (fill (Br s p True pk pv ?t) (In_Left g gc gk gv u # ctx))" by simp
  obtain m0' where m0: "tmap_rotate_left m p = Some m0'"
    "rep m0 X m0' (fill (Br (Br s p True pk pv x) n nc nk nv z) (In_Left g gc gk gv u # ctx))"
    using P by (rule rotate_left_at)
  have 2: "parent_of m0' p = Some n" using m0(2) unfolding rep_fill by (simp add: memory_defs)
  obtain m1 where m1: "set_red False m0' n = Some m1"
    "rep m0 X m1 (fill (Br (Br s p True pk pv x) n False nk nv z) (In_Left g gc gk gv u # ctx))"
    using m0(2) by (rule set_red_at)
  have 3: "parent_of m1 n = Some g" using m1(2) unfolding rep_fill by (simp add: memory_defs)
  from m1(2) have G: "rep m0 X m1 (fill (Br (Br (Br s p True pk pv x) n False nk nv z) g gc gk gv u) ctx)" by simp
  obtain m2 where m2: "set_red True m1 g = Some m2"
    "rep m0 X m2 (fill (Br (Br (Br s p True pk pv x) n False nk nv z) g True gk gv u) ctx)"
    using G by (rule set_red_at)
  obtain m3 where m3: "tmap_rotate_right m2 g = Some m3"
    "rep m0 X m3 (fill (Br (Br s p True pk pv x) n False nk nv (Br z g True gk gv u)) ctx)"
    using m2(2) by (rule rotate_right_at)
  show ?thesis using m3(2) by (simp add: insert_left_def 1 u m0(1) 2 m1(1) 3 m2(1) m3(1))
qed
subsection \<open>The loop after an insertion\<close>

lemma in_order_flip [simp]: "in_order (flip t) = rev (in_order t)"
  by (induction t) simp_all

lemma rb_flip: "rb t \<Longrightarrow> rb (flip t) \<and> bh (flip t) = bh t"
  by (induction t) auto

lemma ctx_rb_flip: "ctx_rb h c ctx \<Longrightarrow> ctx_rb h c (map flip_frame ctx)"
  by (induction h c ctx rule: ctx_rb.induct) (auto simp: rb_flip)

text \<open>
  The loop is at the node \<open>n\<close>: it and its subtrees are a red-black tree, and fit the way up but for the
  colour of its parent.
\<close>

definition insert_at ::
  "('k, 'v, 'u) tmap \<Rightarrow> tptr set \<Rightarrow> (tptr \<times> 'k option \<times> 'v option) list \<Rightarrow> nat \<Rightarrow> ('k, 'v, 'u) tmap \<times> tptr \<Rightarrow> bool" where
  "insert_at m0 X xs len mn \<longleftrightarrow>
     (\<exists>t ctx. snd mn = root_of t \<and> rep m0 X (fst mn) (fill t ctx) \<and> rb t \<and> red_of t \<and> ctx_rb (bh t) False ctx \<and>
        in_order (fill t ctx) = xs \<and> length ctx = len)"

lemma insert_at_flip:
  "insert_at m0 X xs len (m, n) \<Longrightarrow> insert_at (flip_map m0) X (rev xs) len (flip_map m, n)"
  unfolding insert_at_def
proof (elim exE, goal_cases)
  case (1 t ctx)
  have "in_order (fill (flip t) (map flip_frame ctx)) = rev (in_order (fill t ctx))"
    by (simp add: flip_fill [symmetric])
  with 1 show ?case
    by (intro exI [of _ "flip t"] exI [of _ "map flip_frame ctx"])
      (simp add: flip_fill [symmetric] flip_rep rb_flip ctx_rb_flip)
qed

lemma insert_left_turn:
  assumes R: "rep m0 X m (fill t (f # In_Left g gc gk gv u # ctx))" "frame_red f" "rb t" "red_of t"
    "ctx_rb (bh t) False (f # In_Left g gc gk gv u # ctx)"
  shows "returns (\<lambda>mn. \<exists>l < length ctx + 2. insert_at m0 X (in_order (fill t (f # In_Left g gc gk gv u # ctx))) l mn)
    (insert_left m (root_of t))"
proof -
  obtain x n nc nk nv z where t: "t = Br x n nc nk nv z" using R(4) by (cases t) auto
  consider (red) ul ua uk uv ur where "u = Br ul ua True uk uv ur" | (black) "\<not> red_of u" by (cases u) auto
  then show ?thesis
  proof cases
    case red
    obtain p pk pv s where f: "f = In_Left p True pk pv s \<or> f = In_Right s p True pk pv" using R(2) by (cases f) auto
    have "rb (Br (blacken (fill t [f])) g True gk gv (blacken u)) \<and> ctx_rb (bh (blacken u)) False ctx"
      using R(3-5) f red by auto
    moreover from insert_left_red [of m0 X m t f g gc gk gv ul ua uk uv ur ctx p pk pv s] R(1) f t red obtain m' where
      "insert_left m (root_of t) = Some (m', g)"
      "rep m0 X m' (fill (Br (blacken (fill t [f])) g True gk gv (blacken u)) ctx)" by (auto simp: returns_def)
    moreover have "in_order (fill (Br (blacken (fill t [f])) g True gk gv (blacken u)) ctx) =
        in_order (fill t (f # In_Left g gc gk gv u # ctx))"
      using f by (auto simp: in_order_fill)
    ultimately show ?thesis unfolding returns_def insert_at_def
      by (intro exI [of _ "(m', g)"] conjI exI [of _ "length ctx"]
          exI [of _ "Br (blacken (fill t [f])) g True gk gv (blacken u)"] exI [of _ ctx]) simp_all
  next
    case black
    show ?thesis
    proof (cases f)
      case (In_Left p c pk pv s)
      let ?ctx = "In_Left p False pk pv (Br s g True gk gv u) # ctx"
      from insert_left_left [of m0 X m x n nc nk nv z p pk pv s g gc gk gv u ctx] R(1,2) t black In_Left obtain m' where
        "insert_left m (root_of t) = Some (m', n)" "rep m0 X m' (fill t ?ctx)" by (auto simp: returns_def)
      moreover have "ctx_rb (bh t) False ?ctx" using R(2-5) In_Left black by auto
      moreover have "in_order (fill t ?ctx) = in_order (fill t (f # In_Left g gc gk gv u # ctx))"
        using In_Left by (simp add: in_order_fill)
      ultimately show ?thesis unfolding returns_def insert_at_def using R(3,4) t
        by (intro exI [of _ "(m', n)"] conjI exI [of _ "length ctx + 1"] exI [of _ t] exI [of _ ?ctx]) simp_all
    next
      case (In_Right s p c pk pv)
      let ?t = "Br s p True pk pv x" and ?ctx = "In_Left n False nk nv (Br z g True gk gv u) # ctx"
      from insert_left_right [of m0 X m x n nc nk nv z s p pk pv g gc gk gv u ctx] R(1,2) t black In_Right obtain m' where
        "insert_left m (root_of t) = Some (m', p)" "rep m0 X m' (fill ?t ?ctx)" by (auto simp: returns_def)
      moreover have "rb ?t" "ctx_rb (bh ?t) False ?ctx" using R(2-5) In_Right t black by auto
      moreover have "in_order (fill ?t ?ctx) = in_order (fill t (f # In_Left g gc gk gv u # ctx))"
        using In_Right t by (simp add: in_order_fill)
      ultimately show ?thesis unfolding returns_def insert_at_def
        by (intro exI [of _ "(m', p)"] conjI exI [of _ "length ctx + 1"] exI [of _ ?t] exI [of _ ?ctx]) simp_all
    qed
  qed
qed

lemma insert_right_turn:
  assumes R: "rep m0 X m (fill t (f # In_Right u g gc gk gv # ctx))" "frame_red f" "rb t" "red_of t"
    "ctx_rb (bh t) False (f # In_Right u g gc gk gv # ctx)"
  shows "returns (\<lambda>mn. \<exists>l < length ctx + 2. insert_at m0 X (in_order (fill t (f # In_Right u g gc gk gv # ctx))) l mn)
    (insert_right m (root_of t))"
proof -
  let ?ctx = "f # In_Right u g gc gk gv # ctx"
  let ?fctx = "flip_frame f # In_Left g gc gk gv (flip u) # map flip_frame ctx"
  have flip: "flip (fill t ?ctx) = fill (flip t) ?fctx" by (simp add: flip_fill)
  have rep: "rep (flip_map m0) X (flip_map m) (fill (flip t) ?fctx)"
    unfolding flip [symmetric] flip_rep by (rule R(1))
  have rb: "rb (flip t)" "bh (flip t) = bh t" using rb_flip [OF R(3)] by auto
  have "ctx_rb (bh (flip t)) False ?fctx" using ctx_rb_flip [OF R(5)] rb by simp
  moreover have "frame_red (flip_frame f)" using R(2) by (cases f) simp_all
  moreover have "red_of (flip t)" using R(4) by simp
  ultimately obtain m' n l where step: "insert_left (flip_map m) (root_of (flip t)) = Some (m', n)" "l < length ctx + 2"
      "insert_at (flip_map m0) X (in_order (fill (flip t) ?fctx)) l (m', n)"
    using insert_left_turn [OF rep] rb(1) by (auto simp: returns_def)
  have "insert_right m (root_of t) = Some (flip_map m', n)"
    using step(1) by (cases "insert_right m (root_of t)") (auto simp: flip_insert)
  moreover have "insert_at m0 X (in_order (fill t ?ctx)) l (flip_map m', n)"
    using insert_at_flip [OF step(3)] unfolding flip [symmetric] by simp
  ultimately show ?thesis using step(2) by (auto simp: returns_def)
qed

lemma top_addr_in: "ctx \<noteq> [] \<Longrightarrow> top_addr x ctx \<in> set (ctx_addrs ctx)"
proof (induction x ctx rule: top_addr.induct)
  case (2 x f ctx)
  then show ?case by (cases f; cases "ctx = []") auto
qed simp

text \<open>The loop ends with a tree that is a red-black tree once its root is coloured black.\<close>

lemma insert_loop_rep:
  "insert_at m0 X xs len (m, node) \<Longrightarrow>
   returns (\<lambda>m'. \<exists>T. rep m0 X m' T \<and> in_order T = xs \<and> rb (blacken T)) (insert_loop m node)"
proof (induction len arbitrary: m node rule: less_induct)
  case (less len)
  from less.prems obtain t ctx where n: "node = root_of t" and R: "rep m0 X m (fill t ctx)" and
    t: "rb t" "red_of t" "ctx_rb (bh t) False ctx" and xs: "in_order (fill t ctx) = xs" and len: "length ctx = len"
    unfolding insert_at_def by auto
  obtain x a nc nk nv z where tB: "t = Br x a nc nk nv z" using t(2) by (cases t) auto
  have p: "parent_of m node = Some (parent ctx)" using R rep_fields(4) n tB by auto
  have exit: ?case if "insert_loop m node = Some m" "rb (blacken (fill t ctx))"
    using that R xs by (auto simp: returns_def)
  show ?case
  proof (cases ctx)
    case Nil
    with p rep_nil_fields [OF R] have "insert_loop m node = Some m" by (subst insert_loop.simps) simp
    then show ?thesis using t Nil by (intro exit) (auto simp: rb_blacken)
  next
    case (Cons f ctx')
    obtain y where y: "fill t [f] = y" "root_of y = frame_addr f" "red_of y = frame_red f" by (cases f) auto
    have fill: "fill t ctx = fill y ctx'" using y(1) Cons by (cases f) auto
    have yB: "y \<noteq> Tip" using y(1) by (cases f) auto
    have pr: "is_red m (parent ctx) = Some (frame_red f)" using rep_focus_red [of m0 X m y ctx'] R fill y Cons by simp
    have g: "parent_of m (parent ctx) = Some (parent ctx')"
      using rep_fields(4) [of m0 X m] R fill y(2) Cons yB by (cases y) auto
    show ?thesis
    proof (cases "frame_red f \<and> parent ctx' \<noteq> nil")
      case False
      then have "insert_loop m node = Some m" using p pr g by (subst insert_loop.simps) auto
      moreover have "rb (blacken (fill t ctx))"
      proof (cases "frame_red f")
        case True
        with False have "ctx' = []"
          using R unfolding fill rep_fill by (cases ctx' rule: nodes_before.cases) auto
        with t y(1) Cons True show ?thesis by (cases f) auto
      next
        case False
        then have "rb (fill t ctx)" using t Cons unfolding rb_fill by (cases f) auto
        then show ?thesis by (simp add: rb_blacken)
      qed
      ultimately show ?thesis by (rule exit)
    next
      case True
      then obtain f2 ctx2 where ctx': "ctx' = f2 # ctx2" by (cases ctx') auto
      have step: "returns (\<lambda>mn. \<exists>l < len. insert_at m0 X xs l mn)
        (Option.bind (left_of m (frame_addr f2)) (\<lambda>l. if frame_addr f = l then insert_left m node else insert_right m node))"
      proof (cases f2)
        case (In_Left g gc gk gv u)
        have "left_of m g = Some (frame_addr f)"
          using R y(2) unfolding fill ctx' In_Left by (auto simp: rep_fill memory_defs)
        with insert_left_turn [of m0 X m t f g gc gk gv u ctx2] R t xs len n True In_Left ctx' Cons
        show ?thesis by (simp add: numeral_2_eq_2)
      next
        case (In_Right u g gc gk gv)
        have "left_of m g = Some (root_of u)" "frame_addr f \<noteq> root_of u"
          using R y(2) yB unfolding fill ctx' In_Right by (cases y; auto simp: rep_fill memory_defs)+
        with insert_right_turn [of m0 X m t f u g gc gk gv ctx2] R t xs len n True In_Right ctx' Cons
        show ?thesis by (simp add: numeral_2_eq_2)
      qed
      have "returns (\<lambda>m'. \<exists>T. rep m0 X m' T \<and> in_order T = xs \<and> rb (blacken T))
        (Option.bind (Option.bind (left_of m (frame_addr f2))
           (\<lambda>l. if frame_addr f = l then insert_left m node else insert_right m node)) (\<lambda>(m, node). insert_loop m node))"
        by (rule returns_bind [OF step]) (auto intro: less.IH)
      then show ?thesis using p pr g True ctx' Cons
        by (subst insert_loop.simps) simp
    qed
  qed
qed

lemma insert_rebalance_rep:
  assumes "insert_at m0 X xs len (m, node)"
  shows "returns (\<lambda>m'. \<exists>T. rep m0 X m' T \<and> in_order T = xs \<and> rb T) (tmap_insert_rebalance m node)"
  unfolding tmap_insert_rebalance_def
proof (rule returns_bind [OF insert_loop_rep [OF assms]], elim exE conjE)
  fix m' T
  assume T: "rep m0 X m' T" "in_order T = xs" "rb (blacken T)"
  then have "tm_root m' = root_of T" by (simp add: rep_def)
  with blacken_rep [of m0 X m' T "[]"] T
  show "returns (\<lambda>m'. \<exists>T. rep m0 X m' T \<and> in_order T = xs \<and> rb T) (set_red False m' (tm_root m'))"
    by (auto elim!: returns_mono)
qed
subsection \<open>The turns of the loop after a removal\<close>

lemma delete_left_both_black:
  assumes R: "rep m0 X m (fill (Br t p pc pk pv (Br x s False sk sv z)) ctx)" "\<not> red_of x" "\<not> red_of z"
  shows "returns (\<lambda>(m', n, q). n = p \<and> q = parent ctx \<and>
      rep m0 X m' (fill (Br t p pc pk pv (Br x s True sk sv z)) ctx)) (delete_left m p)"
proof -
  from R(1) have S: "rep m0 X m (fill (Br x s False sk sv z) (In_Right t p pc pk pv # ctx))" by simp
  have 1: "right_of m p = Some s" "is_red m s = Some False" "left_of m s = Some (root_of x)" "right_of m s = Some (root_of z)"
    using R(1) unfolding rep_fill by (auto simp: memory_defs)
  have 2: "is_red m (root_of x) = Some False" "is_red m (root_of z) = Some False"
    using rep_focus_red [of m0 X m x "In_Left s False sk sv z # In_Right t p pc pk pv # ctx"]
      rep_focus_red [of m0 X m z "In_Right x s False sk sv # In_Right t p pc pk pv # ctx"] R by simp_all
  obtain m1 where m1: "set_red True m s = Some m1"
    "rep m0 X m1 (fill (Br x s True sk sv z) (In_Right t p pc pk pv # ctx))"
    using S by (rule set_red_at)
  have 3: "parent_of m1 p = Some (parent ctx)" using m1(2) unfolding rep_fill by (auto simp: memory_defs)
  show ?thesis using m1(2) by (simp add: delete_left_def 1 2 m1(1) 3)
qed

lemma delete_left_far_red:
  assumes R: "rep m0 X m (fill (Br t p pc pk pv (Br x s False sk sv (Br a y True yk yv b))) ctx)"
  shows "returns (\<lambda>(m', n, q). n = tm_root m' \<and>
      rep m0 X m' (fill (Br (Br t p False pk pv x) s pc sk sv (Br a y False yk yv b)) ctx)) (delete_left m p)"
proof -
  from R have S: "rep m0 X m (fill (Br x s False sk sv (Br a y True yk yv b)) (In_Right t p pc pk pv # ctx))" by simp
  have 1: "right_of m p = Some s" "is_red m s = Some False" "left_of m s = Some (root_of x)" "right_of m s = Some y"
    "is_red m y = Some True" "is_red m p = Some pc"
    using R unfolding rep_fill by (auto simp: memory_defs)
  have 2: "is_red m (root_of x) = Some (red_of x)"
    using rep_focus_red [of m0 X m x "In_Left s False sk sv (Br a y True yk yv b) # In_Right t p pc pk pv # ctx"] R by simp
  obtain m1 where m1: "set_red pc m s = Some m1"
    "rep m0 X m1 (fill (Br x s pc sk sv (Br a y True yk yv b)) (In_Right t p pc pk pv # ctx))"
    using S by (rule set_red_at)
  then have P: "rep m0 X m1 (fill (Br t p pc pk pv (Br x s pc sk sv (Br a y True yk yv b))) ctx)" by simp
  obtain m2 where m2: "set_red False m1 p = Some m2"
    "rep m0 X m2 (fill (Br t p False pk pv (Br x s pc sk sv (Br a y True yk yv b))) ctx)"
    using P by (rule set_red_at)
  have 3: "right_of m2 s = Some y" using m2(2) unfolding rep_fill by (auto simp: memory_defs)
  from m2(2) have Y: "rep m0 X m2 (fill (Br a y True yk yv b) (In_Right x s pc sk sv # In_Right t p False pk pv # ctx))" by simp
  obtain m3 where m3: "set_red False m2 y = Some m3"
    "rep m0 X m3 (fill (Br a y False yk yv b) (In_Right x s pc sk sv # In_Right t p False pk pv # ctx))"
    using Y by (rule set_red_at)
  then have P: "rep m0 X m3 (fill (Br t p False pk pv (Br x s pc sk sv (Br a y False yk yv b))) ctx)" by simp
  obtain m4 where m4: "tmap_rotate_left m3 p = Some m4"
    "rep m0 X m4 (fill (Br (Br t p False pk pv x) s pc sk sv (Br a y False yk yv b)) ctx)"
    using P by (rule rotate_left_at)
  show ?thesis using m4(2) by (simp add: delete_left_def 1 2 m1(1) m2(1) 3 m3(1) m4(1))
qed

lemma delete_left_near_red:
  assumes R: "rep m0 X m (fill (Br t p pc pk pv (Br (Br a y True yk yv b) s False sk sv z)) ctx)" "\<not> red_of z"
  shows "returns (\<lambda>(m', n, q). n = tm_root m' \<and>
      rep m0 X m' (fill (Br (Br t p False pk pv a) y pc yk yv (Br b s False sk sv z)) ctx)) (delete_left m p)"
proof -
  from R have Y: "rep m0 X m (fill (Br a y True yk yv b) (In_Left s False sk sv z # In_Right t p pc pk pv # ctx))" by simp
  have 1: "right_of m p = Some s" "is_red m s = Some False" "left_of m s = Some y" "right_of m s = Some (root_of z)"
    "is_red m y = Some True"
    using R(1) unfolding rep_fill by (auto simp: memory_defs)
  have 2: "is_red m (root_of z) = Some False"
    using rep_focus_red [of m0 X m z "In_Right (Br a y True yk yv b) s False sk sv # In_Right t p pc pk pv # ctx"] R by simp
  obtain m1 where m1: "set_red False m y = Some m1"
    "rep m0 X m1 (fill (Br a y False yk yv b) (In_Left s False sk sv z # In_Right t p pc pk pv # ctx))"
    using Y by (rule set_red_at)
  then have S: "rep m0 X m1 (fill (Br (Br a y False yk yv b) s False sk sv z) (In_Right t p pc pk pv # ctx))" by simp
  obtain m2 where m2: "set_red True m1 s = Some m2"
    "rep m0 X m2 (fill (Br (Br a y False yk yv b) s True sk sv z) (In_Right t p pc pk pv # ctx))"
    using S by (rule set_red_at)
  obtain m3 where m3: "tmap_rotate_right m2 s = Some m3"
    "rep m0 X m3 (fill (Br a y False yk yv (Br b s True sk sv z)) (In_Right t p pc pk pv # ctx))"
    using m2(2) by (rule rotate_right_at)
  have 3: "right_of m3 p = Some y" "is_red m3 p = Some pc" using m3(2) unfolding rep_fill by (auto simp: memory_defs)
  obtain m4 where m4: "set_red pc m3 y = Some m4"
    "rep m0 X m4 (fill (Br a y pc yk yv (Br b s True sk sv z)) (In_Right t p pc pk pv # ctx))"
    using m3(2) by (rule set_red_at)
  then have P: "rep m0 X m4 (fill (Br t p pc pk pv (Br a y pc yk yv (Br b s True sk sv z))) ctx)" by simp
  obtain m5 where m5: "set_red False m4 p = Some m5"
    "rep m0 X m5 (fill (Br t p False pk pv (Br a y pc yk yv (Br b s True sk sv z))) ctx)"
    using P by (rule set_red_at)
  have 4: "right_of m5 y = Some s" using m5(2) unfolding rep_fill by (auto simp: memory_defs)
  from m5(2) have S: "rep m0 X m5 (fill (Br b s True sk sv z) (In_Right a y pc yk yv # In_Right t p False pk pv # ctx))" by simp
  obtain m6 where m6: "set_red False m5 s = Some m6"
    "rep m0 X m6 (fill (Br b s False sk sv z) (In_Right a y pc yk yv # In_Right t p False pk pv # ctx))"
    using S by (rule set_red_at)
  then have P: "rep m0 X m6 (fill (Br t p False pk pv (Br a y pc yk yv (Br b s False sk sv z))) ctx)" by simp
  obtain m7 where m7: "tmap_rotate_left m6 p = Some m7"
    "rep m0 X m7 (fill (Br (Br t p False pk pv a) y pc yk yv (Br b s False sk sv z)) ctx)"
    using P by (rule rotate_left_at)
  show ?thesis using m7(2)
    by (simp add: delete_left_def 1 2 m1(1) m2(1) m3(1) 3 m4(1) m5(1) 4 m6(1) m7(1))
qed

lemma delete_left_red_sibling:
  assumes R: "rep m0 X m (fill (Br t p pc pk pv (Br x s True sk sv z)) ctx)" "\<not> red_of x"
  obtains m' where "delete_left m p = delete_left m' p"
    "rep m0 X m' (fill (Br (Br t p True pk pv x) s False sk sv z) ctx)"
proof -
  from R(1) have S: "rep m0 X m (fill (Br x s True sk sv z) (In_Right t p pc pk pv # ctx))" by simp
  have 1: "right_of m p = Some s" "is_red m s = Some True"
    using R(1) unfolding rep_fill by (auto simp: memory_defs)
  obtain m1 where m1: "set_red False m s = Some m1"
    "rep m0 X m1 (fill (Br x s False sk sv z) (In_Right t p pc pk pv # ctx))"
    using S by (rule set_red_at)
  then have P: "rep m0 X m1 (fill (Br t p pc pk pv (Br x s False sk sv z)) ctx)" by simp
  obtain m2 where m2: "set_red True m1 p = Some m2" "rep m0 X m2 (fill (Br t p True pk pv (Br x s False sk sv z)) ctx)"
    using P by (rule set_red_at)
  obtain m3 where m3: "tmap_rotate_left m2 p = Some m3" "rep m0 X m3 (fill (Br (Br t p True pk pv x) s False sk sv z) ctx)"
    using m2(2) by (rule rotate_left_at)
  have 3: "right_of m3 p = Some (root_of x)" "is_red m3 (root_of x) = Some False"
    using m3(2) rep_focus_red [of m0 X m3 x "In_Right t p True pk pv # In_Left s False sk sv z # ctx"] R(2)
      rep_fields(3) [of m0 X m3 t p True pk pv x "In_Left s False sk sv z # ctx"] by simp_all
  have "delete_left m p = delete_left m3 p"
    unfolding delete_left_def by (simp add: 1 m1(1) m2(1) m3(1) 3)
  then show ?thesis using m3(2) by (rule that)
qed
subsection \<open>The loop after a removal\<close>

text \<open>
  The loop is at the node \<open>n\<close> below \<open>q\<close>: the ways down through it have one black node less than the others,
  unless \<open>n\<close>, which becomes black, is red; it ends there, and at the root.
\<close>

definition delete_at ::
  "('k, 'v, 'u) tmap \<Rightarrow> tptr set \<Rightarrow> (tptr \<times> 'k option \<times> 'v option) list \<Rightarrow> nat
     \<Rightarrow> ('k, 'v, 'u) tmap \<times> tptr \<times> tptr \<Rightarrow> bool" where
  "delete_at m0 X xs len = (\<lambda>(m, n, q).
     \<exists>t ctx. n = root_of t \<and> (ctx \<noteq> [] \<longrightarrow> q = parent ctx) \<and> rep m0 X m (fill t ctx) \<and> rb (blacken t) \<and>
        ctx_rb (bh t + 1) False ctx \<and> in_order (fill t ctx) = xs \<and> len = (if red_of t then 0 else length ctx))"

lemma delete_atI:
  "rep m0 X m (fill t ctx) \<Longrightarrow> rb (blacken t) \<Longrightarrow> ctx_rb (bh t + 1) False ctx \<Longrightarrow> in_order (fill t ctx) = xs \<Longrightarrow>
   (if red_of t then 0 else length ctx) = len \<Longrightarrow> n = root_of t \<Longrightarrow> ctx \<noteq> [] \<longrightarrow> q = parent ctx \<Longrightarrow>
   delete_at m0 X xs len (m, n, q)"
  unfolding delete_at_def prod.case by (intro exI [of _ t] exI [of _ ctx]) simp

lemma delete_atE:
  assumes "delete_at m0 X xs len (m, n, q)"
  obtains t ctx where "n = root_of t" "ctx \<noteq> [] \<longrightarrow> q = parent ctx" "rep m0 X m (fill t ctx)" "rb (blacken t)"
    "ctx_rb (bh t + 1) False ctx" "in_order (fill t ctx) = xs" "len = (if red_of t then 0 else length ctx)"
  using assms unfolding delete_at_def by auto

lemma bh_blacken: "bh (blacken t) = bh t + (if red_of t then 1 else 0)"
  by (cases t) simp_all

lemma blacken_flip: "rb (blacken t) \<Longrightarrow> rb (blacken (flip t)) \<and> bh (flip t) = bh t"
proof -
  assume "rb (blacken t)"
  from rb_flip [OF this] have "rb (blacken (flip t))" "bh (blacken (flip t)) = bh (blacken t)" by simp_all
  then show ?thesis unfolding bh_blacken by simp
qed

lemma delete_at_flip:
  assumes "delete_at m0 X xs len (m, n, q)"
  shows "delete_at (flip_map m0) X (rev xs) len (flip_map m, n, q)"
  using assms
proof (rule delete_atE)
  fix t ctx
  assume a: "n = root_of t" "ctx \<noteq> [] \<longrightarrow> q = parent ctx" "rep m0 X m (fill t ctx)" "rb (blacken t)"
    "ctx_rb (bh t + 1) False ctx" "in_order (fill t ctx) = xs" "len = (if red_of t then 0 else length ctx)"
  have fr: "frame_addr (flip_frame f) = frame_addr f" for f :: "('a, 'b) frame" by (cases f) simp_all
  have "in_order (flip (fill t ctx)) = rev xs" using a(6) by simp
  with a blacken_flip [OF a(4)] ctx_rb_flip [OF a(5)]
  show ?thesis
    by (intro delete_atI [of _ _ _ "flip t" "map flip_frame ctx"])
      (auto simp: flip_fill [symmetric] flip_rep fr neq_Nil_conv)
qed

lemma delete_left_turn_black:
  assumes R: "rep m0 X m (fill t (In_Left p pc pk pv (Br x s False sk sv z) # ctx))" and t: "rb t" "\<not> red_of t"
    and c: "ctx_rb (bh t + 1) False (In_Left p pc pk pv (Br x s False sk sv z) # ctx)"
  shows "returns (\<lambda>mnq. \<exists>l \<le> (if pc then 0 else length ctx).
      delete_at m0 X (in_order (fill t (In_Left p pc pk pv (Br x s False sk sv z) # ctx))) l mnq) (delete_left m p)"
proof -
  let ?xs = "in_order (fill t (In_Left p pc pk pv (Br x s False sk sv z) # ctx))"
  from R have R': "rep m0 X m (fill (Br t p pc pk pv (Br x s False sk sv z)) ctx)" by simp
  consider (black) "\<not> red_of x" "\<not> red_of z" | (far) a y yk yv b where "z = Br a y True yk yv b"
    | (near) a y yk yv b where "x = Br a y True yk yv b" "\<not> red_of z" by (cases x; cases z) auto
  then show ?thesis
  proof cases
    case black
    from delete_left_both_black [OF R' this] obtain m' where
      m': "delete_left m p = Some (m', p, parent ctx)"
      "rep m0 X m' (fill (Br t p pc pk pv (Br x s True sk sv z)) ctx)" by (auto simp: returns_def)
    have "delete_at m0 X ?xs (if pc then 0 else length ctx) (m', p, parent ctx)"
      using m'(2) t c black by (intro delete_atI) (auto simp: in_order_fill dest: ctx_rb_black)
    with m'(1) show ?thesis by auto
  next
    case far
    from delete_left_far_red [OF R' [unfolded far]] obtain m' q where
      m': "delete_left m p = Some (m', tm_root m', q)"
      "rep m0 X m' (fill (Br (Br t p False pk pv x) s pc sk sv (Br a y False yk yv b)) ctx)" (is "rep _ _ _ ?T")
      by (auto simp: returns_def)
    have "rb ?T" using t c far by (auto simp: rb_fill)
    with m'(2) have "delete_at m0 X ?xs 0 (m', tm_root m', q)"
      by (intro delete_atI [of _ _ _ ?T "[]"]) (auto simp: in_order_fill far rb_blacken rep_def)
    with m'(1) show ?thesis by auto
  next
    case near
    from delete_left_near_red [OF R' [unfolded near] near(2)] obtain m' q where
      m': "delete_left m p = Some (m', tm_root m', q)"
      "rep m0 X m' (fill (Br (Br t p False pk pv a) y pc yk yv (Br b s False sk sv z)) ctx)" (is "rep _ _ _ ?T")
      by (auto simp: returns_def)
    have "rb ?T" using t c near by (auto simp: rb_fill)
    with m'(2) have "delete_at m0 X ?xs 0 (m', tm_root m', q)"
      by (intro delete_atI [of _ _ _ ?T "[]"]) (auto simp: in_order_fill near rb_blacken rep_def)
    with m'(1) show ?thesis by auto
  qed
qed

lemma delete_left_turn:
  assumes R: "rep m0 X m (fill t (In_Left p pc pk pv sib # ctx))" and t: "rb t" "\<not> red_of t"
    and c: "ctx_rb (bh t + 1) False (In_Left p pc pk pv sib # ctx)"
  shows "returns (\<lambda>mnq. \<exists>l < length ctx + 1. delete_at m0 X (in_order (fill t (In_Left p pc pk pv sib # ctx))) l mnq)
    (delete_left m p)"
proof -
  from c have "sib \<noteq> Tip" by auto
  then obtain x s sc sk sv z where sib: "sib = Br x s sc sk sv z" by (cases sib) auto
  show ?thesis
  proof (cases sc)
    case False
    with sib delete_left_turn_black [of m0 X m t p pc pk pv x s sk sv z ctx] R t c show ?thesis
      by (auto elim!: returns_mono split: if_splits) (metis less_Suc_eq_le)
  next
    case True
    with c sib have x: "\<not> red_of x" "\<not> pc" "x \<noteq> Tip" by auto
    then obtain xl xa xk xv xr where xB: "x = Br xl xa False xk xv xr" by (cases x) auto
    from R sib True have "rep m0 X m (fill (Br t p pc pk pv (Br x s True sk sv z)) ctx)" by simp
    then obtain m' where m': "delete_left m p = delete_left m' p"
      "rep m0 X m' (fill (Br (Br t p True pk pv x) s False sk sv z) ctx)"
      using x(1) by (rule delete_left_red_sibling)
    from m'(2) xB have "rep m0 X m' (fill t (In_Left p True pk pv (Br xl xa False xk xv xr) # In_Left s False sk sv z # ctx))"
      by simp
    from delete_left_turn_black [OF this t] c sib True x xB
    show ?thesis unfolding m'(1) by (auto simp: in_order_fill elim!: returns_mono)
  qed
qed

lemma delete_right_turn:
  assumes R: "rep m0 X m (fill t (In_Right sib p pc pk pv # ctx))" and t: "rb t" "\<not> red_of t"
    and c: "ctx_rb (bh t + 1) False (In_Right sib p pc pk pv # ctx)"
  shows "returns (\<lambda>mnq. \<exists>l < length ctx + 1. delete_at m0 X (in_order (fill t (In_Right sib p pc pk pv # ctx))) l mnq)
    (delete_right m p)"
proof -
  let ?ctx = "In_Right sib p pc pk pv # ctx" and ?fctx = "In_Left p pc pk pv (flip sib) # map flip_frame ctx"
  have flip: "flip (fill t ?ctx) = fill (flip t) ?fctx" by (simp add: flip_fill)
  have rep: "rep (flip_map m0) X (flip_map m) (fill (flip t) ?fctx)"
    unfolding flip [symmetric] flip_rep by (rule R)
  have rb: "rb (flip t)" "bh (flip t) = bh t" using rb_flip [OF t(1)] by auto
  have "ctx_rb (bh (flip t) + 1) False ?fctx" using ctx_rb_flip [OF c] rb by simp
  with delete_left_turn [OF rep rb(1)] t(2) obtain m' n q l where
    step: "delete_left (flip_map m) p = Some (m', n, q)" "l < length ctx + 1"
      "delete_at (flip_map m0) X (in_order (fill (flip t) ?fctx)) l (m', n, q)"
    by (auto simp: returns_def)
  have "delete_right m p = Some (flip_map m', n, q)"
    using step(1) by (cases "delete_right m p") (auto simp: flip_delete)
  moreover have "delete_at m0 X (in_order (fill t ?ctx)) l (flip_map m', n, q)"
    using delete_at_flip [OF step(3)] unfolding flip [symmetric] by simp
  ultimately show ?thesis using step(2) by (auto simp: returns_def)
qed

lemma delete_loop_rep:
  "delete_at m0 X xs len (m, node, q) \<Longrightarrow>
   returns (\<lambda>(m', n). \<exists>q. delete_at m0 X xs 0 (m', n, q)) (delete_loop m node q)"
proof (induction len arbitrary: m node q rule: less_induct)
  case (less len)
  from less.prems show ?case
  proof (rule delete_atE)
    fix t ctx
    assume n: "node = root_of t" and q: "ctx \<noteq> [] \<longrightarrow> q = parent ctx" and R: "rep m0 X m (fill t ctx)"
      and t: "rb (blacken t)" "ctx_rb (bh t + 1) False ctx" and xs: "in_order (fill t ctx) = xs"
      and len: "len = (if red_of t then 0 else length ctx)"
    have root: "node = tm_root m \<longleftrightarrow> ctx = []"
    proof (cases "ctx = []")
      case False
      from R have ctx: "tm_root m = top_addr (root_of t) ctx" "nil \<notin> set (ctx_addrs ctx)"
        "set (addrs t) \<inter> set (ctx_addrs ctx) = {}" unfolding rep_fill by auto
      with top_addr_in [OF False, of "root_of t"] root_in_addrs [of t] n have "node \<noteq> tm_root m"
        by (metis IntI empty_iff)
      with False show ?thesis by simp
    qed (use R n in \<open>simp add: rep_def\<close>)
    have red: "is_red m node = Some (red_of t)" using rep_focus_red [OF R] n by simp
    show ?thesis
    proof (cases "ctx = [] \<or> red_of t")
      case True
      then have "delete_loop m node q = Some (m, node)" using root red by (subst delete_loop.simps) auto
      moreover have "delete_at m0 X xs 0 (m, node, q)"
        using True n q R t xs by (intro delete_atI [of _ _ _ t ctx]) auto
      ultimately show ?thesis by auto
    next
      case False
      then obtain f ctx' where ctx: "ctx = f # ctx'" by (cases ctx) auto
      have t': "rb t" "\<not> red_of t" using False t(1) by (cases t; auto)+
      have step: "returns (\<lambda>mnq. \<exists>l < len. delete_at m0 X xs l mnq)
        (Option.bind (left_of m q) (\<lambda>l. if node = l then delete_left m q else delete_right m q))"
      proof (cases f)
        case (In_Left p pc pk pv sib)
        have "left_of m p = Some node" using R n unfolding ctx In_Left rep_fill by (simp add: memory_defs)
        with delete_left_turn [of m0 X m t p pc pk pv sib ctx'] R t' t(2) xs n q len ctx In_Left False
        show ?thesis by simp
      next
        case (In_Right sib p pc pk pv)
        have "root_of sib \<noteq> nil" using t(2) ctx In_Right by (cases sib) (use R in \<open>auto simp: rep_fill\<close>)
        then have "left_of m p = Some (root_of sib)" "node \<noteq> root_of sib"
          using R n root_in_addrs [of sib] root_in_addrs [of t] unfolding ctx In_Right rep_fill
          by (auto simp: memory_defs)
        with delete_right_turn [of m0 X m t sib p pc pk pv ctx'] R t' t(2) xs n q len ctx In_Right False
        show ?thesis by simp
      qed
      have "returns (\<lambda>(m', n). \<exists>q. delete_at m0 X xs 0 (m', n, q))
        (Option.bind (Option.bind (left_of m q) (\<lambda>l. if node = l then delete_left m q else delete_right m q))
          (\<lambda>(m, node, q). delete_loop m node q))"
        by (rule returns_bind [OF step]) (auto intro: less.IH)
      then show ?thesis using root red False by (subst delete_loop.simps) simp
    qed
  qed
qed

lemma delete_rebalance_rep:
  assumes "delete_at m0 X xs len (m, node, q)"
  shows "returns (\<lambda>m'. \<exists>T. rep m0 X m' T \<and> in_order T = xs \<and> rb T) (tmap_delete_rebalance m node q)"
  unfolding tmap_delete_rebalance_def
proof (rule returns_bind [OF delete_loop_rep [OF assms]], clarify)
  fix m' n q
  assume "delete_at m0 X xs 0 (m', n, q)"
  then show "returns (\<lambda>m'. \<exists>T. rep m0 X m' T \<and> in_order T = xs \<and> rb T) (set_red False m' n)"
  proof (rule delete_atE)
    fix t ctx
    assume a: "n = root_of t" "rep m0 X m' (fill t ctx)" "rb (blacken t)" "ctx_rb (bh t + 1) False ctx"
      "in_order (fill t ctx) = xs" "0 = (if red_of t then 0 else length ctx)"
    have "ctx \<noteq> [] \<longrightarrow> red_of t" using a(6) by (auto split: if_splits)
    with a(3,4) have "rb (fill (blacken t) ctx)"
      unfolding rb_fill using bh_blacken [of t] by (cases "ctx = []"; cases t) auto
    with blacken_rep [OF a(2)] a(1,5) show ?thesis by (auto simp: in_order_fill elim!: returns_mono)
  qed
qed
end
