(* ===== verification/Tmap_Map.thy ===== *)
theory Tmap_Map
  imports Tmap_Balance
begin

text \<open>
  The map of \<open>tmap.c\<close>: searching, putting and removing on the tree in memory do what the same operations do
  on the list of the entries, sorted by the comparison function.  \<open>comparator\<close> is what the map relies on
  from that function.
\<close>

subsection \<open>Comparison functions\<close>

locale comparator =
  fixes cmp :: "'k option \<Rightarrow> 'k option \<Rightarrow> int" and valid :: "'k option set"
  assumes cmp_sym: "a \<in> valid \<Longrightarrow> b \<in> valid \<Longrightarrow> cmp a b < 0 \<longleftrightarrow> 0 < cmp b a"
    and cmp_le_trans: "a \<in> valid \<Longrightarrow> b \<in> valid \<Longrightarrow> c \<in> valid \<Longrightarrow> cmp a b \<le> 0 \<Longrightarrow> cmp b c \<le> 0 \<Longrightarrow> cmp a c \<le> 0"
begin

lemma cmp_refl: "a \<in> valid \<Longrightarrow> cmp a a = 0"
  using cmp_sym [of a a] by linarith

lemma cmp_zero_sym: "a \<in> valid \<Longrightarrow> b \<in> valid \<Longrightarrow> cmp a b = 0 \<longleftrightarrow> cmp b a = 0"
  using cmp_sym [of a b] cmp_sym [of b a] by linarith

lemma cmp_less_trans:
  assumes "a \<in> valid" "b \<in> valid" "c \<in> valid" "cmp a b < 0 \<and> cmp b c \<le> 0 \<or> cmp a b \<le> 0 \<and> cmp b c < 0"
  shows "cmp a c < 0"
proof (rule ccontr)
  assume "\<not> cmp a c < 0"
  moreover have "cmp a c \<le> 0" using assms by (intro cmp_le_trans [of a b c]) auto
  ultimately have "cmp c a \<le> 0" using cmp_zero_sym [OF assms(1,3)] by simp
  then have "cmp b c \<le> 0 \<longrightarrow> cmp b a \<le> 0" "cmp a b \<le> 0 \<longrightarrow> cmp c b \<le> 0"
    using cmp_le_trans [OF assms(2,3,1)] cmp_le_trans [OF assms(3,1,2)] by auto
  with assms cmp_sym [OF assms(1,2)] cmp_sym [OF assms(2,3)] show False by auto
qed

end

text \<open>The entries of a map, sorted by key, and the operations on them.\<close>

definition sorted_entries ::
  "('k option \<Rightarrow> 'k option \<Rightarrow> int) \<Rightarrow> 'k option set \<Rightarrow> ('k option \<times> 'v option) list \<Rightarrow> bool" where
  "sorted_entries cmp valid xs \<longleftrightarrow>
     sorted_wrt (\<lambda>x y. cmp (fst x) (fst y) < 0) xs \<and> fst ` set xs \<subseteq> valid"

definition list_get ::
  "('k option \<Rightarrow> 'k option \<Rightarrow> int) \<Rightarrow> 'k option \<Rightarrow> ('k option \<times> 'v option) list \<Rightarrow> 'v option" where
  "list_get cmp k xs = (case find (\<lambda>e. cmp k (fst e) = 0) xs of Some e \<Rightarrow> snd e | None \<Rightarrow> None)"

fun list_put ::
  "('k option \<Rightarrow> 'k option \<Rightarrow> int) \<Rightarrow> 'k option \<Rightarrow> 'v option \<Rightarrow> ('k option \<times> 'v option) list
     \<Rightarrow> ('k option \<times> 'v option) list" where
  "list_put cmp k v [] = [(k, v)]"
| "list_put cmp k v (e # xs) =
     (if cmp k (fst e) > 0 then e # list_put cmp k v xs
      else if cmp k (fst e) < 0 then (k, v) # e # xs
      else (fst e, v) # xs)"

definition list_remove ::
  "('k option \<Rightarrow> 'k option \<Rightarrow> int) \<Rightarrow> 'k option \<Rightarrow> ('k option \<times> 'v option) list \<Rightarrow> ('k option \<times> 'v option) list" where
  "list_remove cmp k xs = filter (\<lambda>e. cmp k (fst e) \<noteq> 0) xs"

lemma find_Nil_iff: "find P xs = None \<longleftrightarrow> (\<forall>x \<in> set xs. \<not> P x)"
  by (auto simp: find_None_iff)

lemma list_get_missing:
  "\<forall>e \<in> set xs. cmp k (fst e) \<noteq> 0 \<Longrightarrow> list_get cmp k xs = None"
  by (simp add: list_get_def find_Nil_iff [THEN iffD2])

lemma list_get_middle:
  "\<forall>e \<in> set xs. cmp k (fst e) \<noteq> 0 \<Longrightarrow> cmp k (fst e) = 0 \<Longrightarrow> list_get cmp k (xs @ e # ys) = snd e"
  by (induction xs) (simp_all add: list_get_def)

lemma list_put_missing:
  "\<forall>e \<in> set xs. cmp k (fst e) > 0 \<Longrightarrow> \<forall>e \<in> set ys. cmp k (fst e) < 0 \<Longrightarrow>
   list_put cmp k v (xs @ ys) = xs @ (k, v) # ys"
  by (induction xs) (cases ys; simp)+

lemma list_put_middle:
  "\<forall>e \<in> set xs. cmp k (fst e) > 0 \<Longrightarrow> cmp k (fst e) = 0 \<Longrightarrow>
   list_put cmp k v (xs @ e # ys) = xs @ (fst e, v) # ys"
  by (induction xs) simp_all

lemma list_remove_middle:
  "\<forall>e \<in> set xs \<union> set ys. cmp k (fst e) \<noteq> 0 \<Longrightarrow> cmp k (fst e) = 0 \<Longrightarrow> list_remove cmp k (xs @ e # ys) = xs @ ys"
  by (simp add: list_remove_def)

lemma list_remove_missing: "\<forall>e \<in> set xs. cmp k (fst e) \<noteq> 0 \<Longrightarrow> list_remove cmp k xs = xs"
  by (simp add: list_remove_def)

subsection \<open>Going down\<close>

fun descend :: "('k option \<Rightarrow> int) \<Rightarrow> ('k, 'v) rtree \<Rightarrow> ('k, 'v) frame list \<Rightarrow> ('k, 'v) rtree \<times> ('k, 'v) frame list" where
  "descend f Tip ctx = (Tip, ctx)"
| "descend f (Br l a c k v r) ctx =
     (if f k > 0 then descend f r (In_Right l a c k v # ctx)
      else if f k < 0 then descend f l (In_Left a c k v r # ctx)
      else (Br l a c k v r, ctx))"

lemma fill_descend: "descend f t ctx = (t', ctx') \<Longrightarrow> fill t' ctx' = fill t ctx"
  by (induction f t ctx rule: descend.induct) (auto split: if_splits)

lemma descend_cases:
  assumes "descend f t ctx = (t', ctx')"
  obtains (missing) "t' = Tip" | (found) l a c k v r where "t' = Br l a c k v r" "f k = 0"
  using assms by (induction f t ctx rule: descend.induct) (auto split: if_splits)

lemma get_loop_descend:
  "rep m0 X m (fill t ctx) \<Longrightarrow> get_loop m k (root_of t) = Some (root_of (fst (descend (tmap_compare m k) t ctx)))"
proof (induction "tmap_compare m k" t ctx rule: descend.induct)
  case (2 l a c k' v r ctx)
  from rep_fields [OF 2(3)] have n: "tm_nodes m a = Some \<lparr>tn_key = k', tn_value = v, tn_red = c,
    tn_left = root_of l, tn_right = root_of r, tn_parent = parent ctx\<rparr>" "a \<noteq> nil" by auto
  have "get_loop m k a =
      (if tmap_compare m k k' > 0 then get_loop m k (root_of r)
       else if tmap_compare m k k' < 0 then get_loop m k (root_of l) else Some a)"
    using n by (subst get_loop.simps) (simp add: Let_def)
  with 2 show ?case by simp
qed (simp add: get_loop.simps)

lemma put_loop_descend:
  "rep m0 X m (fill t ctx) \<Longrightarrow> descend (tmap_compare m k) t ctx = (t', ctx') \<Longrightarrow>
   (ctx = [] \<or> (compare > 0 \<longleftrightarrow> (\<exists>l a c k v. hd ctx = In_Right l a c k v))) \<Longrightarrow>
   \<exists>compare'. put_loop m k (root_of t) (parent ctx) compare =
       Some (root_of t', if t' = Tip then parent ctx' else root_of t', compare') \<and>
     (t' = Tip \<longrightarrow> ctx' = [] \<or> (compare' > 0 \<longleftrightarrow> (\<exists>l a c k v. hd ctx' = In_Right l a c k v)))"
proof (induction "tmap_compare m k" t ctx arbitrary: compare rule: descend.induct)
  case (2 l a c k' v r ctx)
  from rep_fields [OF 2(3)] have n: "tm_nodes m a = Some \<lparr>tn_key = k', tn_value = v, tn_red = c,
    tn_left = root_of l, tn_right = root_of r, tn_parent = parent ctx\<rparr>" "a \<noteq> nil" by auto
  have put: "put_loop m k a (parent ctx) compare =
      (if tmap_compare m k k' > 0 then put_loop m k (root_of r) a (tmap_compare m k k')
       else if tmap_compare m k k' < 0 then put_loop m k (root_of l) a (tmap_compare m k k')
       else Some (a, a, tmap_compare m k k'))"
    using n by (subst put_loop.simps) (simp add: Let_def)
  consider "tmap_compare m k k' > 0" | "tmap_compare m k k' < 0" | "tmap_compare m k k' = 0" by linarith
  then show ?case
  proof cases
    case 1
    with 2(1) [OF 1, of "tmap_compare m k k'"] 2(3,4) put show ?thesis by simp
  next
    case two: 2
    with 2(2) [of "tmap_compare m k k'"] 2(3,4) put show ?thesis by simp
  next
    case 3
    with 2(4) put show ?thesis by auto
  qed
qed (auto simp: put_loop.simps)

lemma entries_fill: "entries (fill t ctx) = map snd (nodes_before ctx) @ entries t @ map snd (nodes_behind ctx)"
  by (simp add: entries_def in_order_fill)

context comparator begin

text \<open>Where the way down ends, all keys before are smaller and all keys behind are greater.\<close>

lemma descend_sorted:
  "descend (cmp k) t ctx = (t', ctx') \<Longrightarrow> k \<in> valid \<Longrightarrow> sorted_entries cmp valid (entries (fill t ctx)) \<Longrightarrow>
   \<forall>e \<in> set (map snd (nodes_before ctx)). cmp k (fst e) > 0 \<Longrightarrow> \<forall>e \<in> set (map snd (nodes_behind ctx)). cmp k (fst e) < 0 \<Longrightarrow>
   (\<forall>e \<in> set (map snd (nodes_before ctx')). cmp k (fst e) > 0) \<and> (\<forall>e \<in> set (map snd (nodes_behind ctx')). cmp k (fst e) < 0)"
proof (induction "cmp k" t ctx rule: descend.induct)
  case (2 l a c k' v r ctx)
  have valid: "k' \<in> valid" "\<forall>e \<in> set (entries l) \<union> set (entries r). fst e \<in> valid"
    and less: "\<forall>e \<in> set (entries l). cmp (fst e) k' < 0" "\<forall>e \<in> set (entries r). cmp k' (fst e) < 0"
    using 2(5) by (auto simp: sorted_entries_def entries_fill sorted_wrt_append)
  have in_entries: "fst (snd x) \<in> fst ` set (entries t)" if "x \<in> set (in_order t)" for x and t :: "('a, 'd) rtree"
    using that by (simp add: entries_def)
  consider "cmp k k' > 0" | "cmp k k' < 0" | "cmp k k' = 0" by linarith
  then show ?case
  proof cases
    case 1
    then have "cmp k' k < 0" using cmp_sym 2(4) valid(1) by blast
    then have "\<forall>e \<in> set (entries l). cmp (fst e) k < 0"
      using less(1) valid 2(4) cmp_less_trans [of _ k' k] by fastforce
    then have "\<forall>e \<in> set (entries l). cmp k (fst e) > 0" using cmp_sym valid(2) 2(4) by fastforce
    with 1 2(1) [OF 1] 2(3-7) show ?thesis by (auto simp: entries_def)
  next
    case two: 2
    then have "\<forall>e \<in> set (entries r). cmp k (fst e) < 0"
      using less(2) valid 2(4) cmp_less_trans [of k k'] by fastforce
    with two 2(2) 2(3-7) show ?thesis by (auto simp: entries_def)
  next
    case 3
    with 2(3,6,7) show ?thesis by simp
  qed
qed simp

end

subsection \<open>The map\<close>

definition map_is :: "'k option set \<Rightarrow> ('k, 'v, 'u) tmap \<Rightarrow> ('k option \<times> 'v option) list \<Rightarrow> bool" where
  "map_is valid m xs \<longleftrightarrow>
     (\<exists>T. rep m {} m T \<and> rb T \<and> entries T = xs \<and> sorted_entries (tmap_compare m) valid xs \<and>
        tm_size m = of_nat (length xs) \<and> (\<forall>a \<in> dom (tm_nodes m). a < tm_next m))"

lemma map_isE:
  assumes "map_is valid m xs"
  obtains T where "rep m {} m T" "rb T" "entries T = xs" "sorted_entries (tmap_compare m) valid xs"
    "tm_size m = of_nat (length xs)" "\<forall>a \<in> dom (tm_nodes m). a < tm_next m"
  using assms unfolding map_is_def by blast

lemma rep_self: "rep m0 {} m T \<Longrightarrow> rep m {} m T"
  by (simp add: rep_def same_on_def)

lemma rep_comparator: "rep m0 X m T \<Longrightarrow> tmap_compare m = tmap_compare m0"
  by (simp add: rep_def tmap_compare_def fun_eq_iff)

lemma rep_dom: "rep m0 X m T \<Longrightarrow> dom (tm_nodes m) = insert nil (X \<union> set (addrs T))"
  by (simp add: rep_def dom_is_def)

context comparator begin

lemma around_match:
  assumes "sorted_entries cmp valid (xs @ (k', v) # ys)" "k \<in> valid" "cmp k k' = 0"
  shows "\<forall>e \<in> set xs. cmp k (fst e) > 0" "\<forall>e \<in> set ys. cmp k (fst e) < 0"
proof -
  have valid: "k' \<in> valid" "\<forall>e \<in> set xs \<union> set ys. fst e \<in> valid"
    and less: "\<forall>e \<in> set xs. cmp (fst e) k' < 0" "\<forall>e \<in> set ys. cmp k' (fst e) < 0"
    using assms(1) by (auto simp: sorted_entries_def sorted_wrt_append)
  have k: "cmp k' k = 0" using cmp_zero_sym assms(2,3) valid(1) by simp
  show "\<forall>e \<in> set xs. cmp k (fst e) > 0"
  proof
    fix e assume e: "e \<in> set xs"
    with less(1) valid assms(2) k have "cmp (fst e) k < 0" by (intro cmp_less_trans [of "fst e" k' k]) auto
    with e valid(2) assms(2) show "cmp k (fst e) > 0" using cmp_sym [of "fst e" k] by simp
  qed
  show "\<forall>e \<in> set ys. cmp k (fst e) < 0"
    using less(2) valid assms(2,3) by (intro ballI cmp_less_trans [of k k']) auto
qed

text \<open>A search from the root: the tree at the place found, and the entries before and behind it.\<close>

lemma search:
  assumes "map_is valid m xs" "k \<in> valid" "cmp = tmap_compare m"
  obtains (missing) ctx where "rep m {} m (fill Tip ctx)" "descend (tmap_compare m k) (fill Tip ctx) [] = (Tip, ctx)"
      "rb (fill Tip ctx)" "xs = map snd (nodes_before ctx) @ map snd (nodes_behind ctx)"
      "\<forall>e \<in> set (map snd (nodes_before ctx)). cmp k (fst e) > 0" "\<forall>e \<in> set (map snd (nodes_behind ctx)). cmp k (fst e) < 0"
  | (found) l a c k' v r ctx ys zs where "rep m {} m (fill (Br l a c k' v r) ctx)"
      "descend (tmap_compare m k) (fill (Br l a c k' v r) ctx) [] = (Br l a c k' v r, ctx)"
      "rb (fill (Br l a c k' v r) ctx)" "xs = ys @ (k', v) # zs" "cmp k k' = 0"
      "ys = map snd (nodes_before ctx) @ entries l" "zs = entries r @ map snd (nodes_behind ctx)"
      "\<forall>e \<in> set ys. cmp k (fst e) > 0" "\<forall>e \<in> set zs. cmp k (fst e) < 0"
proof -
  from assms(1) obtain T where T: "rep m {} m T" "rb T" "entries T = xs" "sorted_entries cmp valid xs"
    unfolding assms(3) by (rule map_isE)
  obtain t ctx where d: "descend (cmp k) T [] = (t, ctx)" by fastforce
  note fill = fill_descend [OF d]
  from descend_sorted [OF d assms(2)] T(3,4) have sorted:
    "\<forall>e \<in> set (map snd (nodes_before ctx)). cmp k (fst e) > 0" "\<forall>e \<in> set (map snd (nodes_behind ctx)). cmp k (fst e) < 0"
    by simp_all
  from d show ?thesis
  proof (cases rule: descend_cases)
    case missing
    with that(1) [of ctx] T d fill sorted show ?thesis using entries_fill [of t ctx] by (simp add: assms(3))
  next
    case (found l a c k' v r)
    have xs: "xs = (map snd (nodes_before ctx) @ entries l) @ (k', v) # (entries r @ map snd (nodes_behind ctx))"
      using T(3) fill found(1) entries_fill [of t ctx] by simp
    show ?thesis
    proof (rule that(2) [OF _ _ _ xs found(2) refl refl around_match [OF T(4) [unfolded xs] assms(2) found(2)]])
      show "rep m {} m (fill (Br l a c k' v r) ctx)" "rb (fill (Br l a c k' v r) ctx)"
        "descend (tmap_compare m k) (fill (Br l a c k' v r) ctx) [] = (Br l a c k' v r, ctx)"
        using T(1,2) d fill found(1) assms(3) by simp_all
    qed
  qed
qed

lemma get_node_found:
  "rep m {} m (fill t ctx) \<Longrightarrow> descend (tmap_compare m k) (fill t ctx) [] = (t, ctx) \<Longrightarrow>
   tmap_get_node m k = Some (root_of t)"
  using get_loop_descend [of m "{}" m "fill t ctx" "[]" k] unfolding tmap_get_node_def
  by (simp add: rep_def)

lemma get_correct:
  assumes "map_is valid m xs" "k \<in> valid" "cmp = tmap_compare m"
  shows "tmap_get m k = Some (list_get cmp k xs) \<and>
    tmap_contains_key m k = Some (\<exists>e \<in> set xs. cmp k (fst e) = 0)"
  using assms
proof (cases rule: search)
  case (missing ctx)
  from missing(1) have "tm_nodes m nil = Some nil_node" by (simp add: rep_def)
  moreover have "\<forall>e \<in> set xs. cmp k (fst e) \<noteq> 0" using missing(4-6) by fastforce
  ultimately show ?thesis using get_node_found [OF missing(1,2)]
    by (auto simp: tmap_get_def tmap_contains_key_def list_get_missing nil_node_def)
next
  case (found l a c k' v r ctx ys zs)
  have "\<forall>e \<in> set ys. cmp k (fst e) \<noteq> 0" using found(8) by fastforce
  from list_get_middle [of ys cmp k "(k', v)" zs, OF this] found(4,5) have "list_get cmp k xs = v" by simp
  moreover have "\<exists>e \<in> set xs. cmp k (fst e) = 0" using found(4,5) by auto
  ultimately show ?thesis using get_node_found [OF found(1,2)] rep_fields(1,6) [OF found(1)]
    by (simp add: tmap_get_def tmap_contains_key_def)
qed

end

subsection \<open>Putting\<close>

lemma dom_is_new: "dom_is N S \<Longrightarrow> dom_is (N(a \<mapsto> x)) (insert a S)"
  by (auto simp: dom_is_def)

lemma set_value_rep:
  "rep m0 X m (fill (Br l a c k v r) ctx) \<Longrightarrow>
   returns (\<lambda>m'. rep m0 X m' (fill (Br l a c k w r) ctx)) (change (tn_value_update (\<lambda>_. w)) m a)"
  unfolding rep_fill by (simp add: change_def)

lemma set_key_rep:
  "rep m0 X m (fill (Br l a c k v r) ctx) \<Longrightarrow>
   returns (\<lambda>m'. rep m0 X m' (fill (Br l a c k' v r) ctx)) (change (tn_key_update (\<lambda>_. k')) m a)"
  unfolding rep_fill by (simp add: change_def)

lemma rb_value: "rb (fill (Br l a c k v r) ctx) \<longleftrightarrow> rb (fill (Br l a c k' v' r) ctx)"
  by (simp add: rb_fill)

text \<open>A new red node below \<open>f\<close>.\<close>

lemma attach_rep:
  assumes "rep m {} m (fill Tip (f # ctx))" "a \<notin> dom (tm_nodes m)"
    and "compare > 0 \<longleftrightarrow> (\<exists>l b c k v. f = In_Right l b c k v)"
    and "tm_nodes m1 = (tm_nodes m)(a \<mapsto> \<lparr>tn_key = k, tn_value = v, tn_red = True, tn_left = nil, tn_right = nil,
      tn_parent = frame_addr f\<rparr>)" "tm_root m1 = tm_root m"
  shows "returns (\<lambda>m2. rep m1 {} m2 (fill (Br Tip a True k v Tip) (f # ctx)))
    (if compare > 0 then set_right a m1 (frame_addr f) else set_left a m1 (frame_addr f))"
proof -
  have a: "a \<noteq> nil" "a \<noteq> frame_addr f" "a \<notin> set (ctx_addrs (f # ctx))"
    using assms(1,2) rep_dom [OF assms(1)] by (cases f; auto simp: addrs_fill)+
  have dom: "dom_is (tm_nodes m1) (insert a (insert nil (set (ctx_addrs (f # ctx)))))"
    using assms(1) unfolding assms(4) rep_fill by (intro dom_is_new) simp
  show ?thesis
    using assms(1) a dom assms(3,5) unfolding rep_fill
    by (cases f) (auto simp: change_def assms(4) same_on_def insert_commute)
qed

lemma length_entries: "length (entries (fill t ctx)) = length (nodes_before ctx) + length (entries t) + length (nodes_behind ctx)"
  by (simp add: entries_fill)

context comparator begin

lemma sorted_insert:
  assumes "sorted_entries cmp valid (xs @ ys)" "k \<in> valid"
    "\<forall>e \<in> set xs. cmp k (fst e) > 0" "\<forall>e \<in> set ys. cmp k (fst e) < 0"
  shows "sorted_entries cmp valid (xs @ (k, v) # ys)"
proof -
  have "\<forall>e \<in> set xs. cmp (fst e) k < 0"
    using assms cmp_sym [of _ k] by (auto simp: sorted_entries_def image_subset_iff)
  with assms show ?thesis by (simp add: sorted_entries_def sorted_wrt_append)
qed

lemma sorted_value: "sorted_entries cmp valid (xs @ (k, v) # ys) \<Longrightarrow> sorted_entries cmp valid (xs @ (k, w) # ys)"
  by (auto simp: sorted_entries_def sorted_wrt_append)

lemma put_loop_found:
  assumes "rep m {} m (fill t ctx)" "descend (tmap_compare m k) (fill t ctx) [] = (t, ctx)"
  obtains c where "put_loop m k (tm_root m) nil 0 = Some (root_of t, if t = Tip then parent ctx else root_of t, c)"
    "t = Tip \<longrightarrow> ctx = [] \<or> (c > 0 \<longleftrightarrow> (\<exists>l a c k v. hd ctx = In_Right l a c k v))"
  using put_loop_descend [of m "{}" m "fill t ctx" "[]" k t ctx 0] assms by (auto simp: rep_def)

text \<open>A key that is there keeps its place, and its old key.\<close>

lemma put_found:
  assumes R: "rep m {} m (fill (Br l a c k' w r) ctx)" "rb (fill (Br l a c k' w r) ctx)"
    and "descend (tmap_compare m k) (fill (Br l a c k' w r) ctx) [] = (Br l a c k' w r, ctx)"
    and m: "map_is valid m (ys @ (k', w) # zs)" "cmp = tmap_compare m"
    and e: "ys = map snd (nodes_before ctx) @ entries l" "zs = entries r @ map snd (nodes_behind ctx)"
  shows "returns (\<lambda>(old, m'). old = w \<and> map_is valid m' (ys @ (k', v) # zs) \<and> tmap_compare m' = cmp) (tmap_put m k v)"
proof -
  obtain cc where put: "put_loop m k (tm_root m) nil 0 = Some (a, a, cc)"
    using put_loop_found [OF R(1) assms(3)] by auto
  note fields = rep_fields(1,6) [OF R(1)]
  obtain m' where m': "change (tn_value_update (\<lambda>_. v)) m a = Some m'" "rep m {} m' (fill (Br l a c k' v r) ctx)"
    using set_value_rep [OF R(1), of v] by (auto simp: returns_def)
  have same: "tm_size m' = tm_size m" "tm_next m' = tm_next m" "dom (tm_nodes m') = dom (tm_nodes m)"
    using m'(2) rep_dom [OF m'(2)] rep_dom [OF R(1)] by (simp_all add: rep_def addrs_fill)
  have "map_is valid m' (ys @ (k', v) # zs)"
    using m(1)
  proof (rule map_isE)
    assume "sorted_entries (tmap_compare m) valid (ys @ (k', w) # zs)" "tm_size m = of_nat (length (ys @ (k', w) # zs))"
      "\<forall>a \<in> dom (tm_nodes m). a < tm_next m"
    then show ?thesis using rep_self [OF m'(2)] R(2) same rep_comparator [OF m'(2)] sorted_value [of ys k' w zs v] m(2)
      unfolding map_is_def e by (auto simp: entries_fill rb_value [of l a c k' v r ctx k' w] simp del: map_append)
  qed
  then show ?thesis using put fields m' rep_comparator [OF m'(2)] m(2) by (simp add: tmap_put_def)
qed

text \<open>The new node is red and below a node without a child there; the tree is balanced again from it.\<close>

lemma put_missing:
  assumes R: "rep m {} m (fill Tip ctx)" "rb (fill Tip ctx)"
    and "descend (tmap_compare m k) (fill Tip ctx) [] = (Tip, ctx)"
    and m: "map_is valid m (ys @ zs)" "cmp = tmap_compare m" "k \<in> valid"
    and e: "ys = map snd (nodes_before ctx)" "zs = map snd (nodes_behind ctx)"
      "\<forall>e \<in> set ys. cmp k (fst e) > 0" "\<forall>e \<in> set zs. cmp k (fst e) < 0"
  shows "returns (\<lambda>(old, m'). old = None \<and> map_is valid m' (ys @ (k, v) # zs) \<and> tmap_compare m' = cmp) (tmap_put m k v)"
proof -
  obtain cc where put: "put_loop m k (tm_root m) nil 0 = Some (nil, parent ctx, cc)"
      "ctx = [] \<or> (cc > 0 \<longleftrightarrow> (\<exists>l a c k v. hd ctx = In_Right l a c k v))"
    using put_loop_found [OF R(1) assms(3)] by auto
  let ?a = "tm_next m"
  let ?n = "\<lambda>c. \<lparr>tn_key = k, tn_value = v, tn_red = c, tn_left = nil, tn_right = nil, tn_parent = parent ctx\<rparr>"
  let ?m1 = "m\<lparr>tm_nodes := (tm_nodes m)(?a \<mapsto> ?n True), tm_next := ?a + 1, tm_size := tm_size m + 1\<rparr>"
  from m(1) have facts: "sorted_entries cmp valid (ys @ zs)" "tm_size m = of_nat (length (ys @ zs))"
    "\<forall>a \<in> dom (tm_nodes m). a < ?a" by (auto simp: m(2) elim: map_isE)
  have fresh: "?a \<notin> dom (tm_nodes m)" "?a \<noteq> nil" using facts(3) R(1) by (auto simp: rep_def)
  have cmp1: "tmap_compare ?m1 = cmp" unfolding m(2) by (simp add: tmap_compare_def fun_eq_iff)
  have new: "map_is valid m' (ys @ (k, v) # zs) \<and> tmap_compare m' = cmp"
    if T: "rep ?m1 {} m' T" "rb T" "in_order T = nodes_before ctx @ (?a, k, v) # nodes_behind ctx" for m' T
  proof -
    have xs: "entries T = ys @ (k, v) # zs" using T(3) e(1,2) by (simp add: entries_def)
    have "set (addrs T) = insert ?a (set (addrs (fill Tip ctx)))" using T(3) by (auto simp: addrs_def in_order_fill)
    then have "\<forall>a \<in> dom (tm_nodes m'). a < tm_next m'"
      using rep_dom [OF T(1)] rep_dom [OF R(1)] T(1) facts(3) by (auto simp: rep_def)
    moreover have "tm_size m' = of_nat (length (ys @ (k, v) # zs))" using T(1) facts(2) by (simp add: rep_def)
    ultimately show ?thesis
      using rep_self [OF T(1)] T(2) xs rep_comparator [OF T(1)] cmp1 sorted_insert [OF facts(1) m(3) e(3,4)]
      unfolding map_is_def by auto
  qed
  show ?thesis
  proof (cases ctx)
    case Nil
    let ?m2 = "?m1\<lparr>tm_root := ?a, tm_nodes := (tm_nodes m)(?a \<mapsto> ?n False)\<rparr>"
    have "rep ?m1 {} ?m2 (Br Tip ?a False k v Tip)"
      using R(1) fresh Nil by (auto simp: rep_def dom_is_def same_on_def)
    from new [OF this] Nil show ?thesis using put(1)
      by (simp add: tmap_put_def new_tnode_def change_def)
  next
    case (Cons f ctx')
    from R(1) Cons have "rep m {} m (fill Tip (f # ctx'))" by simp
    moreover have "cc > 0 \<longleftrightarrow> (\<exists>l b c k v. f = In_Right l b c k v)" using put(2) Cons by simp
    ultimately obtain m2 where m2: "(if cc > 0 then set_right ?a ?m1 (frame_addr f) else set_left ?a ?m1 (frame_addr f)) = Some m2"
      "rep ?m1 {} m2 (fill (Br Tip ?a True k v Tip) (f # ctx'))"
      using attach_rep [of m f ctx' ?a cc ?m1 k v] fresh(1) Cons by (auto simp: returns_def)
    have "insert_at ?m1 {} (nodes_before ctx @ (?a, k, v) # nodes_behind ctx) (length ctx) (m2, ?a)"
      using m2(2) R(2) unfolding insert_at_def
      by (intro exI [of _ "Br Tip ?a True k v Tip"] exI [of _ ctx]) (simp add: Cons in_order_fill rb_fill)
    from insert_rebalance_rep [OF this] obtain m3 T where m3: "tmap_insert_rebalance m2 ?a = Some m3"
      "rep ?m1 {} m3 T" "rb T" "in_order T = nodes_before ctx @ (?a, k, v) # nodes_behind ctx" by (auto simp: returns_def)
    have "frame_addr f \<noteq> nil" using R(1) Cons unfolding rep_fill by (cases f) auto
    with new [OF m3(2-4)] m2(1) m3(1) put(1) Cons show ?thesis
      by (simp add: tmap_put_def new_tnode_def Let_def split: if_splits)
  qed
qed

lemma put_correct:
  assumes "map_is valid m xs" "k \<in> valid" "cmp = tmap_compare m"
  shows "returns (\<lambda>(old, m'). old = list_get cmp k xs \<and> map_is valid m' (list_put cmp k v xs) \<and> tmap_compare m' = cmp)
    (tmap_put m k v)"
  using assms
proof (cases rule: search)
  case (missing ctx)
  have "\<forall>e \<in> set xs. cmp k (fst e) \<noteq> 0" using missing(4-6) by fastforce
  from list_get_missing [of xs cmp k, OF this] put_missing [OF missing(1,3,2) assms(1) [unfolded missing(4)] assms(3,2) refl refl missing(5,6)]
    list_put_missing [of "map snd (nodes_before ctx)" cmp k "map snd (nodes_behind ctx)" v, OF missing(5,6)]
  show ?thesis by (simp add: missing(4))
next
  case (found l a c k' w r ctx ys zs)
  have "\<forall>e \<in> set ys. cmp k (fst e) \<noteq> 0" using found(8) by fastforce
  from list_get_middle [of ys cmp k "(k', w)" zs, OF this] found(4,5) have "list_get cmp k xs = w" by simp
  with put_found [OF found(1,3,2) assms(1) [unfolded found(4)] assms(3) found(6,7)] found(4,5)
    list_put_middle [of ys cmp k "(k', w)" v zs, OF found(8)]
  show ?thesis by simp
qed

end

end
