(* ===== verification/Tmap_Remove.thy ===== *)
theory Tmap_Remove
  imports Tmap_Map
begin

text \<open>
  Removing from the tree of \<open>tmap.c\<close>, and what walks over the tree: the first and last node, the iterator, the
  visits of every node, and the release of all nodes.
\<close>

subsection \<open>The ends of a tree\<close>

lemma fill_append: "fill t (c1 @ c2) = fill (fill t c1) c2"
  by (induction t c1 rule: fill.induct) simp_all

lemma rightmost_rep:
  "rep m0 X m (fill t ctx) \<Longrightarrow> t \<noteq> Tip \<Longrightarrow>
   \<exists>l a c k v path. rightmost m (root_of t) = Some a \<and> t = fill (Br l a c k v Tip) path \<and> nodes_behind path = []"
proof (induction t arbitrary: ctx)
  case (Br l a c k v r)
  note fields = rep_fields [OF Br.prems(1)]
  show ?case
  proof (cases "r = Tip")
    case True
    then have "rightmost m a = Some a" using fields by (subst rightmost.simps) simp
    with True show ?thesis by (intro exI [of _ l] exI [of _ a] exI [of _ c] exI [of _ k] exI [of _ v] exI [of _ "[]"]) simp
  next
    case False
    from Br.prems(1) have R: "rep m0 X m (fill r (In_Right l a c k v # ctx))" by simp
    from Br.IH(2) [OF R False] obtain l' a' c' k' v' path where
      r: "rightmost m (root_of r) = Some a'" "r = fill (Br l' a' c' k' v' Tip) path" "nodes_behind path = []" by blast
    have "root_of r \<noteq> nil" using False R by (cases r) (auto simp: rep_fill)
    with r(1) fields have "rightmost m a = Some a'" by (subst rightmost.simps) simp
    moreover have "nodes_behind (path @ [In_Right l a c k v]) = []" using r(3) by (induction path rule: nodes_behind.induct) simp_all
    moreover have "Br l a c k v r = fill (Br l' a' c' k' v' Tip) (path @ [In_Right l a c k v])"
      using r(2) by (simp add: fill_append)
    ultimately show ?thesis by (metis root_of.simps(2))
  qed
qed simp

lemma leftmost_rep:
  "rep m0 X m (fill t ctx) \<Longrightarrow> t \<noteq> Tip \<Longrightarrow>
   \<exists>a c k v r path. leftmost m (root_of t) = Some a \<and> t = fill (Br Tip a c k v r) path \<and> nodes_before path = []"
proof (induction t arbitrary: ctx)
  case (Br l a c k v r)
  note fields = rep_fields [OF Br.prems(1)]
  show ?case
  proof (cases "l = Tip")
    case True
    then have "leftmost m a = Some a" using fields by (subst leftmost.simps) simp
    with True show ?thesis by (intro exI [of _ a] exI [of _ c] exI [of _ k] exI [of _ v] exI [of _ r] exI [of _ "[]"]) simp
  next
    case False
    from Br.prems(1) have R: "rep m0 X m (fill l (In_Left a c k v r # ctx))" by simp
    from Br.IH(1) [OF R False] obtain a' c' k' v' r' path where
      l: "leftmost m (root_of l) = Some a'" "l = fill (Br Tip a' c' k' v' r') path" "nodes_before path = []" by blast
    have "root_of l \<noteq> nil" using False R by (cases l) (auto simp: rep_fill)
    with l(1) fields have "leftmost m a = Some a'" by (subst leftmost.simps) simp
    moreover have "nodes_before (path @ [In_Left a c k v r]) = []" using l(3) by (induction path rule: nodes_before.induct) simp_all
    moreover have "Br l a c k v r = fill (Br Tip a' c' k' v' r') (path @ [In_Left a c k v r])"
      using l(2) by (simp add: fill_append)
    ultimately show ?thesis by (metis root_of.simps(2))
  qed
qed simp

subsection \<open>Taking a node out\<close>

lemma free_rep:
  assumes "rep m {a} m' T"
  shows "returns (\<lambda>m''. rep m {} m'' T) (free_tnode m' a)"
proof -
  from assms have a: "tm_nodes m' a \<noteq> None" "a \<noteq> nil" "a \<notin> set (addrs T)"
    by (auto simp: rep_def dom_is_def)
  with assms show ?thesis by (auto simp: rep_def free_tnode_def dom_is_def same_on_def)
qed

text \<open>Before the rebalancing: the node is unlinked, and its child is in its place.\<close>

lemma unlink_rep:
  assumes R: "rep m {} m (fill (Br l a c k v r) ctx)" and t: "l = Tip \<and> t = r \<or> r = Tip \<and> t = l"
  shows "\<exists>m1. (if root_of t \<noteq> nil then set_parent (parent ctx) m (root_of t) else Some m) = Some m1 \<and>
    (if parent ctx = nil then rep m {a} (m1\<lparr>tm_root := root_of t\<rparr>) (fill t ctx)
     else \<exists>m2. Option.bind (left_of m1 (parent ctx))
         (\<lambda>l. if a = l then set_left (root_of t) m1 (parent ctx) else set_right (root_of t) m1 (parent ctx)) = Some m2 \<and>
       rep m {a} m2 (fill t ctx))"
  using R t unfolding rep_fill
  by (cases ctx rule: nodes_before.cases; cases t) (auto simp: memory_defs same_on_def insert_commute)

lemma free_tnode_root: "free_tnode (m\<lparr>tm_root := r\<rparr>) a = map_option (\<lambda>m'. m'\<lparr>tm_root := r\<rparr>) (free_tnode m a)"
  by (cases "tm_nodes m a") (simp_all add: free_tnode_def)

lemma one_child:
  "rb (Br l a c k v r) \<Longrightarrow> l = Tip \<and> t = r \<or> r = Tip \<and> t = l \<Longrightarrow>
   bh t = 0 \<and> rb t \<and> bh (Br l a c k v r) = (if c then 0 else 1) \<and> (c \<longrightarrow> t = Tip)"
  by (cases t) (auto split: if_splits)

lemma splice_out_rep:
  assumes R: "rep m {} m (fill (Br l a c k v r) ctx)" and t: "l = Tip \<and> t = r \<or> r = Tip \<and> t = l"
    and rb: "rb (fill (Br l a c k v r) ctx)"
  shows "returns (\<lambda>m'. \<exists>T. rep m {} m' T \<and> rb T \<and> in_order T = nodes_before ctx @ in_order t @ nodes_behind ctx)
    (splice_out m a (root_of t))"
proof -
  note fields = rep_fields [OF R]
  obtain m1 where m1: "(if root_of t \<noteq> nil then set_parent (parent ctx) m (root_of t) else Some m) = Some m1"
    and un: "if parent ctx = nil then rep m {a} (m1\<lparr>tm_root := root_of t\<rparr>) (fill t ctx)
     else \<exists>m2. Option.bind (left_of m1 (parent ctx))
         (\<lambda>l. if a = l then set_left (root_of t) m1 (parent ctx) else set_right (root_of t) m1 (parent ctx)) = Some m2 \<and>
       rep m {a} m2 (fill t ctx)"
    using unlink_rep [OF R t] by blast
  have t': "bh t = 0" "rb t" "ctx_rb (if c then 0 else 1) c ctx" "c \<longrightarrow> t = Tip"
    using rb one_child [OF _ t, of a c k v] unfolding rb_fill by auto
  show ?thesis
  proof (cases "ctx = []")
    case True
    with un have "rep m {a} (m1\<lparr>tm_root := root_of t\<rparr>) (fill t ctx)" by simp
    moreover have "splice_out m a (root_of t) = free_tnode (m1\<lparr>tm_root := root_of t\<rparr>) a"
      using fields(4) m1 True by (simp add: splice_out_def split: if_splits)
    ultimately show ?thesis using free_rep [of m a "m1\<lparr>tm_root := root_of t\<rparr>" t] True t'(2)
      by (auto elim!: returns_mono)
  next
    case False
    with R have "parent ctx \<noteq> nil" unfolding rep_fill by (cases ctx rule: nodes_before.cases) auto
    with un obtain m2 where m2: "Option.bind (left_of m1 (parent ctx))
         (\<lambda>l. if a = l then set_left (root_of t) m1 (parent ctx) else set_right (root_of t) m1 (parent ctx)) = Some m2"
       "rep m {a} m2 (fill t ctx)" by auto
    have red: "is_red m2 a = Some c" using m2(2) fields(1) by (simp add: rep_def same_on_def is_red_def)
    have "returns (\<lambda>m'. \<exists>T. rep m {a} m' T \<and> rb T \<and> in_order T = nodes_before ctx @ in_order t @ nodes_behind ctx)
      (if \<not> c then tmap_delete_rebalance m2 (root_of t) (parent ctx) else Some m2)"
    proof (cases c)
      case True
      with t' m2(2) show ?thesis
        using ctx_rb_black [of 0 True ctx] by (auto simp: rb_fill in_order_fill)
    next
      case False
      have "delete_at m {a} (nodes_before ctx @ in_order t @ nodes_behind ctx) (if red_of t then 0 else length ctx) (m2, root_of t, parent ctx)"
        using m2(2) t' False by (intro delete_atI [of _ _ _ t ctx]) (auto simp: in_order_fill rb_blacken)
      from delete_rebalance_rep [OF this] False show ?thesis by (auto elim!: returns_mono)
    qed
    then have "returns (\<lambda>m'. \<exists>T. rep m {} m' T \<and> rb T \<and> in_order T = nodes_before ctx @ in_order t @ nodes_behind ctx)
      (Option.bind (if \<not> c then tmap_delete_rebalance m2 (root_of t) (parent ctx) else Some m2) (\<lambda>m. free_tnode m a))"
    proof (rule returns_bind, elim exE conjE)
      fix m' T
      assume "rep m {a} m' T" "rb T" "in_order T = nodes_before ctx @ in_order t @ nodes_behind ctx"
      then show "returns (\<lambda>m'. \<exists>T. rep m {} m' T \<and> rb T \<and> in_order T = nodes_before ctx @ in_order t @ nodes_behind ctx) (free_tnode m' a)"
        using free_rep [of m a m' T] by (auto elim!: returns_mono)
    qed
    moreover from m2(1) obtain l' where "left_of m1 (parent ctx) = Some l'"
      "(if a = l' then set_left (root_of t) m1 (parent ctx) else set_right (root_of t) m1 (parent ctx)) = Some m2"
      by (auto simp: bind_eq_Some_conv)
    ultimately show ?thesis using fields(4) m1 red \<open>parent ctx \<noteq> nil\<close>
      by (simp add: splice_out_def)
  qed
qed

lemma before_concat: "nodes_before (p @ q) = nodes_before q @ nodes_before p"
  by (induction p rule: nodes_before.induct) simp_all

lemma behind_concat: "nodes_behind (p @ q) = nodes_behind p @ nodes_behind q"
  by (induction p rule: nodes_behind.induct) simp_all

lemma rep_trans: "rep m0 {} m T \<Longrightarrow> rep m {} m' T' \<Longrightarrow> rep m0 {} m' T'"
  by (simp add: rep_def same_on_def)

text \<open>A node with two children gets the key and the value of the last node of its left subtree, which is taken out.\<close>

lemma remove_two_children:
  assumes R: "rep m {} m (fill (Br l a c k v r) ctx)" "rb (fill (Br l a c k v r) ctx)" and "l \<noteq> Tip"
  shows "returns (\<lambda>m'. \<exists>T. rep m {} m' T \<and> rb T \<and> set (addrs T) \<subseteq> set (addrs (fill (Br l a c k v r) ctx)) \<and>
      entries T = map snd (nodes_before ctx) @ entries l @ entries r @ map snd (nodes_behind ctx))
    (do { spliced \<leftarrow> rightmost m (root_of l);
          child \<leftarrow> left_of m spliced;
          s \<leftarrow> tm_nodes m spliced;
          m \<leftarrow> change (tn_key_update (\<lambda>_. tn_key s)) m a;
          m \<leftarrow> change (tn_value_update (\<lambda>_. tn_value s)) m a;
          splice_out m spliced child })"
proof -
  from R(1) have L: "rep m {} m (fill l (In_Left a c k v r # ctx))" by simp
  from rightmost_rep [OF L assms(3)] obtain sl s sc sk sv path where
    s: "rightmost m (root_of l) = Some s" "l = fill (Br sl s sc sk sv Tip) path" "nodes_behind path = []" by blast
  let ?ctx = "\<lambda>k v. path @ In_Left a c k v r # ctx"
  from L have S: "rep m {} m (fill (Br sl s sc sk sv Tip) (?ctx k v))" by (simp add: s(2) fill_append)
  obtain m1 where m1: "change (tn_key_update (\<lambda>_. sk)) m a = Some m1" "rep m {} m1 (fill (Br l a c sk v r) ctx)"
    using set_key_rep [OF R(1), of sk] by (auto simp: returns_def)
  obtain m2 where m2: "change (tn_value_update (\<lambda>_. sv)) m1 a = Some m2" "rep m {} m2 (fill (Br l a c sk sv r) ctx)"
    using set_value_rep [OF m1(2), of sv] by (auto simp: returns_def)
  have S2: "rep m2 {} m2 (fill (Br sl s sc sk sv Tip) (?ctx sk sv))"
    using rep_self [OF m2(2)] by (simp add: s(2) fill_append)
  moreover have "rb (fill (Br sl s sc sk sv Tip) (?ctx sk sv))"
    using R(2) by (simp add: s(2) fill_append rb_value [of _ a c k v r ctx sk sv])
  ultimately obtain m3 T where m3: "splice_out m2 s (root_of sl) = Some m3" "rep m2 {} m3 T" "rb T"
    "in_order T = nodes_before (?ctx sk sv) @ in_order sl @ nodes_behind (?ctx sk sv)"
    using splice_out_rep [OF S2, of sl] by (auto simp: returns_def)
  have "entries T = map snd (nodes_before ctx) @ entries l @ entries r @ map snd (nodes_behind ctx)"
    unfolding entries_def m3(4) s(2) in_order_fill by (simp add: before_concat behind_concat s(3))
  moreover have "set (addrs T) \<subseteq> set (addrs (fill (Br l a c k v r) ctx))"
    unfolding addrs_def m3(4) s(2) in_order_fill by (auto simp: before_concat behind_concat in_order_fill)
  ultimately show ?thesis
    using s(1) rep_fields(1,2) [OF S] m1(1) m2(1) m3(1,3) rep_trans [OF m2(2) m3(2)] by auto
qed

lemma remove_one_child:
  assumes R: "rep m {} m (fill (Br l a c k v r) ctx)" "rb (fill (Br l a c k v r) ctx)"
    and t: "l = Tip \<and> t = r \<or> r = Tip \<and> t = l"
  shows "returns (\<lambda>m'. \<exists>T. rep m {} m' T \<and> rb T \<and> set (addrs T) \<subseteq> set (addrs (fill (Br l a c k v r) ctx)) \<and>
      entries T = map snd (nodes_before ctx) @ entries l @ entries r @ map snd (nodes_behind ctx)) (splice_out m a (root_of t))"
proof (rule returns_mono [OF splice_out_rep [OF R(1) t R(2)]], elim exE conjE)
  fix m' T
  assume T: "rep m {} m' T" "rb T" "in_order T = nodes_before ctx @ in_order t @ nodes_behind ctx"
  from T(3) t have "entries T = map snd (nodes_before ctx) @ entries l @ entries r @ map snd (nodes_behind ctx)"
    by (auto simp: entries_def)
  moreover from T(3) t have "set (addrs T) \<subseteq> set (addrs (fill (Br l a c k v r) ctx))"
    unfolding addrs_def in_order_fill by auto
  ultimately show "\<exists>T. rep m {} m' T \<and> rb T \<and> set (addrs T) \<subseteq> set (addrs (fill (Br l a c k v r) ctx)) \<and>
      entries T = map snd (nodes_before ctx) @ entries l @ entries r @ map snd (nodes_behind ctx)" using T(1,2) by blast
qed

lemma remove_node_rep:
  assumes R: "rep m {} m (fill (Br l a c k v r) ctx)" "rb (fill (Br l a c k v r) ctx)"
  shows "returns (\<lambda>m'. \<exists>T. rep (m\<lparr>tm_size := tm_size m - 1\<rparr>) {} m' T \<and> rb T \<and>
      set (addrs T) \<subseteq> set (addrs (fill (Br l a c k v r) ctx)) \<and>
      entries T = map snd (nodes_before ctx) @ entries l @ entries r @ map snd (nodes_behind ctx)) (tmap_remove_node m a)"
proof -
  let ?m = "m\<lparr>tm_size := tm_size m - 1\<rparr>"
  have R': "rep ?m {} ?m (fill (Br l a c k v r) ctx)" using R(1) by (simp add: rep_def same_on_def)
  have nil: "root_of t = nil \<longleftrightarrow> t = Tip" if "t = l \<or> t = r" for t
    using that R(1) unfolding rep_fill by (cases t) auto
  note fields = rep_fields(2,3) [OF R']
  consider "l = Tip" | "l \<noteq> Tip" "r = Tip" | "l \<noteq> Tip" "r \<noteq> Tip" by blast
  then show ?thesis
  proof cases
    case 1
    then show ?thesis using fields nil [of l] nil [of r] remove_one_child [OF R' R(2), of r]
      by (simp add: tmap_remove_node_def Let_def)
  next
    case 2
    then show ?thesis using fields nil [of l] nil [of r] remove_one_child [OF R' R(2), of l]
      by (simp add: tmap_remove_node_def Let_def)
  next
    case 3
    then show ?thesis using fields nil [of l] nil [of r] remove_two_children [OF R' R(2)]
      by (simp add: tmap_remove_node_def Let_def)
  qed
qed

context comparator begin

lemma remove_correct:
  assumes "map_is valid m xs" "k \<in> valid" "cmp = tmap_compare m"
  shows "returns (\<lambda>(old, m'). old = list_get cmp k xs \<and> map_is valid m' (list_remove cmp k xs) \<and> tmap_compare m' = cmp)
    (tmap_remove m k)"
  using assms
proof (cases rule: search)
  case (missing ctx)
  have miss: "\<forall>e \<in> set xs. cmp k (fst e) \<noteq> 0" using missing(4-6) by fastforce
  then show ?thesis using get_node_found [OF missing(1,2)] assms(1,3)
    by (simp add: tmap_remove_def list_get_missing list_remove_missing)
next
  case (found l a c k' v r ctx ys zs)
  have signs: "\<forall>e \<in> set ys. cmp k (fst e) \<noteq> 0" "\<forall>e \<in> set ys \<union> set zs. cmp k (fst e) \<noteq> 0"
    using found(8,9) by fastforce+
  have get: "list_get cmp k xs = v" "list_remove cmp k xs = ys @ zs"
    using list_get_middle [of ys cmp k "(k', v)" zs, OF signs(1)] list_remove_middle [of ys zs cmp k "(k', v)", OF signs(2)]
      found(4,5) by simp_all
  let ?m = "m\<lparr>tm_size := tm_size m - 1\<rparr>"
  from remove_node_rep [OF found(1,3)] obtain m' T where m': "tmap_remove_node m a = Some m'" "rep ?m {} m' T" "rb T"
    "set (addrs T) \<subseteq> set (addrs (fill (Br l a c k' v r) ctx))" "entries T = ys @ zs"
    unfolding found(6,7) by (auto simp: returns_def)
  have cmp: "tmap_compare m' = cmp"
    using rep_comparator [OF m'(2)] assms(3) by (simp add: tmap_compare_def fun_eq_iff)
  have "map_is valid m' (ys @ zs)"
    using assms(1)
  proof (rule map_isE)
    assume "sorted_entries (tmap_compare m) valid xs" "tm_size m = of_nat (length xs)"
      "\<forall>a \<in> dom (tm_nodes m). a < tm_next m"
    moreover have "sorted_entries cmp valid xs \<Longrightarrow> sorted_entries cmp valid (ys @ zs)"
      unfolding found(4) by (auto simp: sorted_entries_def sorted_wrt_append)
    moreover have "dom (tm_nodes m') \<subseteq> dom (tm_nodes m)"
      using rep_dom [OF m'(2)] rep_dom [OF found(1)] m'(4) by auto
    moreover have "tm_next m' = tm_next m" using m'(2) by (simp add: rep_def)
    ultimately have "\<forall>a \<in> dom (tm_nodes m'). a < tm_next m'" "sorted_entries cmp valid (ys @ zs)"
      "tm_size m' = of_nat (length (ys @ zs))"
      using rep_fields [OF found(1)] m'(2) assms(3) unfolding found(4) by (fastforce simp: rep_def)+
    then show ?thesis
      using rep_self [OF m'(2)] m'(3,5) cmp unfolding map_is_def
      by (intro exI [of _ T]) auto
  qed
  then show ?thesis
    using get get_node_found [OF found(1,2)] rep_fields(1,6) [OF found(1)] m'(1) cmp
    by (simp add: tmap_remove_def)
qed

end

end
