(* ===== verification/Tmap_Walk.thy ===== *)
theory Tmap_Walk
  imports Tmap_Remove "HOL-Library.Multiset"
begin

text \<open>
  What walks over the tree of \<open>tmap.c\<close>: the iterators, the visits of every node, the release of all nodes and the
  check of the tree.
\<close>

subsection \<open>The next node\<close>

fun first_addr :: "(tptr \<times> 'k option \<times> 'v option) list \<Rightarrow> tptr" where
  "first_addr [] = nil"
| "first_addr (x # xs) = fst x"

lemma first_addr_append: "xs \<noteq> [] \<Longrightarrow> first_addr (xs @ ys) = first_addr xs"
  by (cases xs) simp_all

lemma root_nil_iff: "rep m0 X m (fill t ctx) \<Longrightarrow> root_of t = nil \<longleftrightarrow> t = Tip"
  unfolding rep_fill by (cases t) auto

lemma leftmost_first: "rep m0 X m (fill t ctx) \<Longrightarrow> leftmost m (root_of t) = Some (first_addr (in_order t))"
proof (cases "t = Tip")
  case True
  assume R: "rep m0 X m (fill t ctx)"
  with True show ?thesis using rep_nil_fields [OF R] by (subst leftmost.simps) simp
next
  case False
  assume "rep m0 X m (fill t ctx)"
  from leftmost_rep [OF this False] show ?thesis by (auto simp: in_order_fill)
qed

lemma climb_first:
  "rep m0 X m (fill t ctx) \<Longrightarrow> t \<noteq> Tip \<Longrightarrow> climb m (root_of t) (parent ctx) = Some (first_addr (nodes_behind ctx))"
proof (induction t ctx rule: fill.induct)
  case (1 t)
  then show ?case using rep_nil_fields [OF 1(1)] root_nil_iff [OF 1(1)] by (subst climb.simps) simp
next
  case (2 t a c k v r ctx)
  from 2(2) have "rep m0 X m (fill (Br t a c k v r) ctx)" by simp
  from rep_fields(3) [OF this] have "right_of m a = Some (root_of r)" .
  moreover have "root_of t \<noteq> root_of r" using 2(2,3) unfolding rep_fill by (cases t; cases r) auto
  ultimately show ?case by (subst climb.simps) simp
next
  case (3 t l a c k v ctx)
  from 3(2) have R: "rep m0 X m (fill (Br l a c k v t) ctx)" by simp
  from rep_fields(3,4) [OF R] 3(1) [OF R] show ?case by (subst climb.simps) simp
qed

lemma successor_first:
  assumes "rep m0 X m (fill (Br l a c k v r) ctx)"
  shows "successor m a = Some (first_addr (in_order r @ nodes_behind ctx))"
proof (cases "r = Tip")
  case True
  then show ?thesis using rep_fields [OF assms] climb_first [OF assms] by (simp add: successor_def)
next
  case False
  from assms have R: "rep m0 X m (fill r (In_Right l a c k v # ctx))" by simp
  moreover from False have "in_order r \<noteq> []" by (cases r) simp_all
  ultimately show ?thesis using rep_fields [OF assms] leftmost_first [OF R] root_nil_iff [OF R] False
    by (simp add: successor_def first_addr_append)
qed

lemma node_in_tree:
  "x \<in> set (in_order t) \<Longrightarrow> \<exists>l c r ctx. t = fill (Br l (fst x) c (fst (snd x)) (snd (snd x)) r) ctx"
proof (induction t)
  case (Br l a c k v r)
  consider "x \<in> set (in_order l)" | "x = (a, k, v)" | "x \<in> set (in_order r)" using Br.prems by auto
  then show ?case
  proof cases
    case 1
    then obtain l' c' r' ctx where "l = fill (Br l' (fst x) c' (fst (snd x)) (snd (snd x)) r') ctx" using Br.IH(1) by blast
    then have "Br l a c k v r = fill (Br l' (fst x) c' (fst (snd x)) (snd (snd x)) r') (ctx @ [In_Left a c k v r])"
      by (simp add: fill_append)
    then show ?thesis by blast
  next
    case 2
    then have "Br l a c k v r = fill (Br l (fst x) c (fst (snd x)) (snd (snd x)) r) []" by simp
    then show ?thesis by blast
  next
    case 3
    then obtain l' c' r' ctx where "r = fill (Br l' (fst x) c' (fst (snd x)) (snd (snd x)) r') ctx" using Br.IH(2) by blast
    then have "Br l a c k v r = fill (Br l' (fst x) c' (fst (snd x)) (snd (snd x)) r') (ctx @ [In_Right l a c k v])"
      by (simp add: fill_append)
    then show ?thesis by blast
  qed
qed simp

lemma distinct_middle:
  "distinct (map fst (xs @ x # ys)) \<Longrightarrow> xs @ x # ys = xs' @ x # ys' \<Longrightarrow> xs = xs' \<and> ys = ys'"
  by (subst (asm) append_Cons_eq_iff) auto

lemma next_node:
  assumes "rep m0 X m T" "in_order T = P @ x # Q"
  shows "tm_nodes m (fst x) \<noteq> None" "map_option tn_value (tm_nodes m (fst x)) = Some (snd (snd x))" "fst x \<noteq> nil"
    and "successor m (fst x) = Some (first_addr Q)"
proof -
  from assms(2) have "x \<in> set (in_order T)" by simp
  from node_in_tree [OF this] obtain l c r ctx where T: "T = fill (Br l (fst x) c (fst (snd x)) (snd (snd x)) r) ctx"
    by blast
  from assms(1) have R: "rep m0 X m (fill (Br l (fst x) c (fst (snd x)) (snd (snd x)) r) ctx)" by (simp only: T)
  from rep_fields(1,6) [OF R] show "tm_nodes m (fst x) \<noteq> None"
    "map_option tn_value (tm_nodes m (fst x)) = Some (snd (snd x))" "fst x \<noteq> nil" by simp_all
  have "distinct (map fst (in_order T))" using assms(1) by (simp add: rep_def addrs_def)
  moreover have "P @ x # Q = (nodes_before ctx @ in_order l) @ x # (in_order r @ nodes_behind ctx)"
    using assms(2) T by (simp add: in_order_fill)
  ultimately have "Q = in_order r @ nodes_behind ctx" using distinct_middle assms(2) by metis
  with successor_first [OF R] show "successor m (fst x) = Some (first_addr Q)" by simp
qed

subsection \<open>The iterators\<close>

text \<open>The values \<open>tmap_iterator_next\<close> gives, until \<open>tmap_iterator_has_next\<close> says no.\<close>

partial_function (option) iterate :: "('k, 'v, 'u) tmap \<Rightarrow> tmap_iterator \<Rightarrow> 'v option list option" where
  "iterate m it =
     (if tmap_iterator_has_next it
      then do { (v, it) \<leftarrow> tmap_iterator_next m it; vs \<leftarrow> iterate m it; Some (v # vs) }
      else Some [])"

lemma iterate_nil: "it_n0 it = nil \<Longrightarrow> iterate m it = Some []"
  by (subst iterate.simps) (simp add: tmap_iterator_has_next_def)

lemma iterate_step:
  assumes "rep m0 X m T" "in_order T = P @ x # Q" "it_n0 it = fst x"
  shows "iterate m it = map_option ((#) (snd (snd x)))
    (iterate m (it\<lparr>it_n0 := if fst x = it_n1 it then nil else first_addr Q\<rparr>))"
proof -
  from next_node [OF assms(1,2)] assms(3) obtain n where "tm_nodes m (it_n0 it) = Some n" "tn_value n = snd (snd x)" by auto
  with next_node [OF assms(1,2)] assms(3) show ?thesis
    by (subst iterate.simps)
      (auto simp: tmap_iterator_has_next_def tmap_iterator_next_def map_conv_bind_option comp_def)
qed

text \<open>From the first of \<open>B\<close> to the last one, which is named, or is the last of the tree.\<close>

lemma iterate_range:
  assumes "rep m0 X m T"
  shows "in_order T = P @ B @ C \<Longrightarrow> B \<noteq> [] \<Longrightarrow> it_n0 it = first_addr B \<Longrightarrow>
    it_n1 it = fst (last B) \<or> it_n1 it = nil \<and> C = [] \<Longrightarrow> iterate m it = Some (map (snd \<circ> snd) B)"
proof (induction B arbitrary: P it)
  case (Cons x B)
  from Cons.prems(1) have T: "in_order T = P @ x # (B @ C)" by simp
  note step = iterate_step [OF assms T, of it]
  have dist: "distinct (map fst (in_order T))" "fst x \<noteq> nil"
    using assms next_node(3) [OF assms T] by (simp_all add: rep_def addrs_def)
  show ?case
  proof (cases "B = []")
    case True
    with Cons.prems step dist(2) show ?thesis by (auto simp: iterate_nil)
  next
    case False
    let ?it = "it\<lparr>it_n0 := first_addr B\<rparr>"
    have "fst (last B) \<in> set (map fst B)" using False by simp
    then have "fst x \<noteq> it_n1 it" using Cons.prems dist(2) dist(1) False unfolding T by auto
    moreover have "iterate m ?it = Some (map (snd \<circ> snd) B)"
      using Cons.prems False by (intro Cons.IH [of "P @ [x]"]) auto
    ultimately show ?thesis using step Cons.prems(3) False by (simp add: first_addr_append)
  qed
qed simp

lemma iterate_all:
  assumes "rep m0 {} m T"
  shows "\<exists>it. tmap_iterator_start m = Some it \<and> iterate m it = Some (map snd (entries T))"
proof -
  have R: "rep m0 {} m (fill T [])" using assms by simp
  have "tm_root m = root_of T" using assms by (simp add: rep_def)
  with leftmost_first [OF R] have s: "tmap_iterator_start m = Some \<lparr>it_n0 = first_addr (in_order T), it_n1 = nil\<rparr>"
    by (simp add: tmap_iterator_start_def tmap_first_node_def)
  show ?thesis
  proof (cases "in_order T = []")
    case True
    with s show ?thesis by (auto simp: iterate_nil entries_def)
  next
    case False
    with iterate_range [OF assms, of "[]" "in_order T" "[]"] s show ?thesis by (auto simp: entries_def)
  qed
qed

subsection \<open>The iterator over a range\<close>

fun last_addr :: "tptr \<Rightarrow> (tptr \<times> 'k option \<times> 'v option) list \<Rightarrow> tptr" where
  "last_addr p [] = p"
| "last_addr p (x # xs) = last_addr (fst x) xs"

lemma last_addr_append [simp]: "last_addr p (xs @ ys) = last_addr (last_addr p xs) ys"
  by (induction xs arbitrary: p) simp_all

lemma last_addr_last: "xs \<noteq> [] \<Longrightarrow> last_addr p xs = fst (last xs)"
  by (induction xs arbitrary: p) auto

abbreviation keyed :: "('k option \<Rightarrow> bool) \<Rightarrow> (tptr \<times> 'k option \<times> 'v option) list \<Rightarrow> bool" where
  "keyed P xs \<equiv> \<forall>x \<in> set xs. P (fst (snd x))"

lemma match_first_rep:
  "rep m0 X m (fill t ctx) \<Longrightarrow> in_order t = A @ B \<Longrightarrow> keyed (\<lambda>k. f k \<noteq> 0) A \<Longrightarrow> keyed (\<lambda>k. f k = 0) B \<Longrightarrow>
   match_first m f nx (root_of t) = Some (if B = [] then nx else first_addr B)"
proof (induction t arbitrary: ctx A B nx)
  case Tip
  then show ?case by (subst match_first.simps) simp
next
  case (Br l a c k v r)
  from Br.prems(1) have L: "rep m0 X m (fill l (In_Left a c k v r # ctx))" and R: "rep m0 X m (fill r (In_Right l a c k v # ctx))"
    by simp_all
  note fields = rep_fields(1,6) [OF Br.prems(1)]
  show ?case
  proof (cases "f k = 0")
    case True
    with Br.prems(2,3) obtain B' where B: "in_order l = A @ B'" "B = B' @ (a, k, v) # in_order r"
      by (auto simp: append_eq_append_conv2 append_eq_Cons_conv Cons_eq_append_conv)
    with Br.prems(4) Br.IH(1) [OF L B(1) Br.prems(3), of a] fields True show ?thesis
      by (subst match_first.simps) (auto simp: first_addr_append)
  next
    case False
    with Br.prems(2,4) obtain A' where A: "A = in_order l @ (a, k, v) # A'" "in_order r = A' @ B"
      by (auto simp: append_eq_append_conv2 append_eq_Cons_conv Cons_eq_append_conv)
    with Br.prems(3,4) Br.IH(2) [OF R A(2), of nx] fields False show ?thesis by (subst match_first.simps) simp
  qed
qed

lemma match_last_rep:
  "rep m0 X m (fill t ctx) \<Longrightarrow> in_order t = A @ B \<Longrightarrow> keyed (\<lambda>k. f k = 0) A \<Longrightarrow> keyed (\<lambda>k. f k \<noteq> 0) B \<Longrightarrow>
   match_last m f nx (root_of t) = Some (last_addr nx A)"
proof (induction t arbitrary: ctx A B nx)
  case Tip
  then show ?case by (subst match_last.simps) simp
next
  case (Br l a c k v r)
  from Br.prems(1) have L: "rep m0 X m (fill l (In_Left a c k v r # ctx))" and R: "rep m0 X m (fill r (In_Right l a c k v # ctx))"
    by simp_all
  note fields = rep_fields(1,6) [OF Br.prems(1)]
  show ?case
  proof (cases "f k = 0")
    case True
    with Br.prems(2,4) obtain A' where A: "A = in_order l @ (a, k, v) # A'" "in_order r = A' @ B"
      by (auto simp: append_eq_append_conv2 append_eq_Cons_conv Cons_eq_append_conv)
    with Br.prems(3,4) Br.IH(2) [OF R A(2), of a] fields True show ?thesis by (subst match_last.simps) simp
  next
    case False
    with Br.prems(2,3) obtain B' where B: "in_order l = A @ B'" "B = B' @ (a, k, v) # in_order r"
      by (auto simp: append_eq_append_conv2 append_eq_Cons_conv Cons_eq_append_conv)
    with Br.prems(3,4) Br.IH(1) [OF L B(1), of nx] fields False show ?thesis by (subst match_last.simps) simp
  qed
qed

lemma match_loop_rep:
  "rep m0 X m (fill t ctx) \<Longrightarrow> in_order t = A @ B @ C \<Longrightarrow>
   keyed (\<lambda>k. 0 < f k) A \<Longrightarrow> keyed (\<lambda>k. f k = 0) B \<Longrightarrow> keyed (\<lambda>k. f k < 0) C \<Longrightarrow>
   match_loop m f (root_of t) = Some (B \<noteq> [], \<lparr>it_n0 = first_addr B, it_n1 = last_addr nil B\<rparr>)"
proof (induction t arbitrary: ctx A B C)
  case Tip
  then show ?case by (subst match_loop.simps) simp
next
  case (Br l a c k v r)
  from Br.prems(1) have L: "rep m0 X m (fill l (In_Left a c k v r # ctx))" and R: "rep m0 X m (fill r (In_Right l a c k v # ctx))"
    by simp_all
  note fields = rep_fields(1,6) [OF Br.prems(1)]
  have split: "(a, k, v) \<in> set A \<longleftrightarrow> f k > 0" "(a, k, v) \<in> set B \<longleftrightarrow> f k = 0" "(a, k, v) \<in> set C \<longleftrightarrow> f k < 0"
  proof -
    have "(a, k, v) \<in> set A \<union> set B \<union> set C" using Br.prems(2) by (metis in_set_conv_decomp in_order.simps(2) set_append Un_assoc)
    with Br.prems(3-5) show "(a, k, v) \<in> set A \<longleftrightarrow> f k > 0" "(a, k, v) \<in> set B \<longleftrightarrow> f k = 0" "(a, k, v) \<in> set C \<longleftrightarrow> f k < 0"
      by force+
  qed
  have dist: "distinct (map fst (in_order l @ (a, k, v) # in_order r))"
    using Br.prems(1) unfolding rep_fill by (auto simp: addrs_def simp del: distinct_map)
  have at: "P = in_order l \<and> Q = in_order r" if "in_order l @ (a, k, v) # in_order r = P @ (a, k, v) # Q" for P Q
    using distinct_middle [OF dist that] by simp
  consider "f k > 0" | "f k < 0" | "f k = 0" by linarith
  then show ?case
  proof cases
    case 1
    then obtain P A' where "A = P @ (a, k, v) # A'" using split(1) by (metis split_list)
    with Br.prems(2) at [of P "A' @ B @ C"] have "A = in_order l @ (a, k, v) # A'" "in_order r = A' @ B @ C" by simp_all
    with Br.IH(2) [OF R, of A' B C] Br.prems(3-5) fields 1 show ?thesis by (subst match_loop.simps) (simp add: Let_def)
  next
    case 2
    then obtain C' Q where "C = C' @ (a, k, v) # Q" using split(3) by (metis split_list)
    with Br.prems(2) at [of "A @ B @ C'" Q] have "C = C' @ (a, k, v) # in_order r" "in_order l = A @ B @ C'" by simp_all
    with Br.IH(1) [OF L, of A B C'] Br.prems(3-5) fields 2 show ?thesis by (subst match_loop.simps) (simp add: Let_def)
  next
    case 3
    then obtain B1 B2 where B: "B = B1 @ (a, k, v) # B2" using split(2) by (metis split_list)
    with Br.prems(2) at [of "A @ B1" "B2 @ C"] have lr: "in_order l = A @ B1" "in_order r = B2 @ C" by simp_all
    have "keyed (\<lambda>k. f k \<noteq> 0) A" "keyed (\<lambda>k. f k = 0) B1" "keyed (\<lambda>k. f k = 0) B2" "keyed (\<lambda>k. f k \<noteq> 0) C"
      using Br.prems(3-5) B by fastforce+
    from match_first_rep [OF L lr(1) this(1,2), of a] match_last_rep [OF R lr(2) this(3,4), of a] fields 3
    show ?thesis by (subst match_loop.simps) (auto simp: Let_def B first_addr_append)
  qed
qed

lemma iterate_partial:
  assumes "rep m0 {} m T" "in_order T = A @ B @ C"
    and "keyed (\<lambda>k. 0 < cmp x k) A" "keyed (\<lambda>k. cmp x k = 0) B" "keyed (\<lambda>k. cmp x k < 0) C"
  shows "\<exists>it. tmap_iterator_partial m x cmp = Some (B \<noteq> [], it) \<and> iterate m it = Some (map (snd \<circ> snd) B)"
proof -
  have R: "rep m0 {} m (fill T [])" "tm_root m = root_of T" using assms(1) by (simp_all add: rep_def)
  from match_loop_rep [OF R(1) assms(2-5)] R(2)
  have p: "tmap_iterator_partial m x cmp = Some (B \<noteq> [], \<lparr>it_n0 = first_addr B, it_n1 = last_addr nil B\<rparr>)"
    by (simp add: tmap_iterator_partial_def)
  show ?thesis
  proof (cases "B = []")
    case True
    with p show ?thesis by (simp add: iterate_nil)
  next
    case False
    with iterate_range [OF assms(1,2) False] p show ?thesis by (simp add: last_addr_last)
  qed
qed

subsection \<open>Every node\<close>

lemma foreach_rep:
  "rep m0 X m (fill t ctx) \<Longrightarrow> t \<noteq> Tip \<Longrightarrow>
   \<exists>ns. foreach_nodes m (root_of t) = Some ns \<and> mset (map (\<lambda>n. (tn_key n, tn_value n)) ns) = mset (entries t)"
proof (induction t arbitrary: ctx)
  case (Br l a c k v r)
  from Br.prems(1) have L: "rep m0 X m (fill l (In_Left a c k v r # ctx))" and R: "rep m0 X m (fill r (In_Right l a c k v # ctx))"
    by simp_all
  obtain ls where ls: "(if root_of l \<noteq> nil then foreach_nodes m (root_of l) else Some []) = Some ls"
    "mset (map (\<lambda>n. (tn_key n, tn_value n)) ls) = mset (entries l)"
    using Br.IH(1) [OF L] root_nil_iff [OF L] by (cases "l = Tip") auto
  obtain rs where rs: "(if root_of r \<noteq> nil then foreach_nodes m (root_of r) else Some []) = Some rs"
    "mset (map (\<lambda>n. (tn_key n, tn_value n)) rs) = mset (entries r)"
    using Br.IH(2) [OF R] root_nil_iff [OF R] by (cases "r = Tip") auto
  have "foreach_nodes m a = Some (ls @ rs @ [\<lparr>tn_key = k, tn_value = v, tn_red = c, tn_left = root_of l,
      tn_right = root_of r, tn_parent = parent ctx\<rparr>])"
    using rep_fields(1) [OF Br.prems(1)] ls(1) rs(1) by (subst foreach_nodes.simps) (simp split del: if_split cong del: if_weak_cong)
  with ls(2) rs(2) show ?case by simp
qed simp

lemma foreach_all:
  assumes "rep m0 {} m T"
  shows "\<exists>ks vs. tmap_foreach_key m = Some ks \<and> tmap_foreach_value m = Some vs \<and> mset (zip ks vs) = mset (entries T) \<and>
    length ks = length vs"
proof -
  have R: "rep m0 {} m (fill T [])" "tm_root m = root_of T" using assms by (simp_all add: rep_def)
  show ?thesis
  proof (cases "T = Tip")
    case True
    with R show ?thesis by (simp add: tmap_foreach_key_def tmap_foreach_value_def)
  next
    case False
    with foreach_rep [OF R(1)] obtain ns where "foreach_nodes m (root_of T) = Some ns"
      "mset (map (\<lambda>n. (tn_key n, tn_value n)) ns) = mset (entries T)" by blast
    with R(2) root_nil_iff [OF R(1)] False show ?thesis
      by (simp add: tmap_foreach_key_def tmap_foreach_value_def zip_map_map zip_same_conv_map comp_def)
  qed
qed

lemma tree_at_restrict: "set (addrs t) \<subseteq> S \<Longrightarrow> tree_at (N |` S) p t \<longleftrightarrow> tree_at N p t"
  by (induction t arbitrary: p) (auto simp: restrict_map_def)

lemma clear_nodes_rep:
  "tree_at (tm_nodes m) p t \<Longrightarrow> distinct (addrs t) \<Longrightarrow> nil \<notin> set (addrs t) \<Longrightarrow> t \<noteq> Tip \<Longrightarrow>
   clear_nodes (root_of t) m = Some (m\<lparr>tm_nodes := tm_nodes m |` (- set (addrs t))\<rparr>)"
proof (induction t arbitrary: p m)
  case (Br l a c k v r)
  let ?m1 = "m\<lparr>tm_nodes := tm_nodes m |` (- set (addrs l))\<rparr>"
  let ?m2 = "m\<lparr>tm_nodes := tm_nodes m |` (- (set (addrs l) \<union> set (addrs r)))\<rparr>"
  have none: "tm_nodes m |` (- {}) = tm_nodes m" by (simp add: restrict_map_def)
  have nil: "root_of t = nil \<longleftrightarrow> t = Tip" if "t = l \<or> t = r" for t
    using that Br.prems(3) by (cases t) auto
  have l: "(if root_of l \<noteq> nil then clear_nodes (root_of l) m else Some m) = Some ?m1"
    using Br.IH(1) [of m a] Br.prems nil [of l] none by (cases "l = Tip") auto
  have "tree_at (tm_nodes ?m1) a r" using Br.prems(1,2) by (simp, subst tree_at_restrict) auto
  then have r: "(if root_of r \<noteq> nil then clear_nodes (root_of r) ?m1 else Some ?m1) = Some ?m2"
    using Br.IH(2) [of ?m1 a] Br.prems nil [of r] by (cases "r = Tip") (auto simp: Int_commute none)
  have a: "tm_nodes ?m1 a = tm_nodes m a" "tm_nodes ?m2 a = tm_nodes m a" using Br.prems(2) by auto
  have "(tm_nodes m |` (- (set (addrs l) \<union> set (addrs r))))(a := None) = tm_nodes m |` (- set (addrs (Br l a c k v r)))"
    by (auto simp: restrict_map_def fun_eq_iff)
  with l r a Br.prems(1) show ?case
    by (subst root_of.simps, subst clear_nodes.simps) (simp add: memory_defs free_tnode_def)
qed simp

lemma tmap_clear_rep:
  assumes "rep m0 {} m T"
  shows "tmap_clear m = Some (m\<lparr>tm_root := nil, tm_size := 0, tm_nodes := [nil \<mapsto> nil_node]\<rparr>)"
    and "tmap_free m = Some [nil \<mapsto> nil_node]"
proof -
  have facts: "tree_at (tm_nodes m) nil T" "distinct (addrs T)" "nil \<notin> set (addrs T)" "tm_root m = root_of T"
    "dom (tm_nodes m) = insert nil (set (addrs T))" "tm_nodes m nil = Some nil_node"
    using assms by (simp_all add: rep_def dom_is_def)
  have "tm_nodes m x = None" if "x \<noteq> nil" "x \<notin> set (addrs T)" for x
    using that facts(5) by (metis domIff insertE)
  with facts(3,6) have left: "tm_nodes m |` (- set (addrs T)) = [nil \<mapsto> nil_node]"
    by (auto simp: restrict_map_def fun_eq_iff)
  have "(if tm_root m \<noteq> nil then clear_nodes (tm_root m) m else Some m) = Some (m\<lparr>tm_nodes := [nil \<mapsto> nil_node]\<rparr>)"
  proof (cases "T = Tip")
    case True
    with facts(4,5) left show ?thesis by (simp add: restrict_map_def)
  next
    case False
    with facts(3) have "root_of T \<noteq> nil" by (cases T) auto
    with clear_nodes_rep [OF facts(1-3) False] facts(4) left show ?thesis by simp
  qed
  then show "tmap_clear m = Some (m\<lparr>tm_root := nil, tm_size := 0, tm_nodes := [nil \<mapsto> nil_node]\<rparr>)"
    "tmap_free m = Some [nil \<mapsto> nil_node]"
    using facts(4) by (cases m; auto simp: tmap_clear_def tmap_free_def split: if_splits)+
qed

subsection \<open>The check\<close>

fun blacks :: "('k, 'v) frame list \<Rightarrow> nat" where
  "blacks [] = 0"
| "blacks (f # ctx) = (if frame_red f then 0 else 1) + blacks ctx"

lemma black_above_ctx:
  "rep m0 X m (fill t ctx) \<Longrightarrow> black_above m (parent ctx) n = Some (n + int (blacks ctx))"
proof (induction t ctx arbitrary: n rule: fill.induct)
  case (1 t)
  then show ?case by (subst black_above.simps) simp
next
  case (2 t a c k v r ctx)
  from 2(2) have R: "rep m0 X m (fill (Br t a c k v r) ctx)" by simp
  from rep_fields(1,6) [OF R] 2(1) [OF R] show ?case by (subst black_above.simps) simp
next
  case (3 t l a c k v ctx)
  from 3(2) have R: "rep m0 X m (fill (Br l a c k v t) ctx)" by simp
  from rep_fields(1,6) [OF R] 3(1) [OF R] show ?case by (subst black_above.simps) simp
qed

lemma node_verify_rep:
  "rep m0 X m (fill t ctx) \<Longrightarrow> rb t \<Longrightarrow> h = int (bh t + blacks ctx) \<Longrightarrow> e = -1 \<or> e = h \<Longrightarrow>
   \<exists>e'. node_verify m (root_of t) e = Some (True, e') \<and> (e' = -1 \<or> e' = h)"
proof (induction t arbitrary: ctx e)
  case Tip
  then show ?case by (subst node_verify.simps) simp
next
  case (Br l a c k v r)
  from Br.prems(1) have L: "rep m0 X m (fill l (In_Left a c k v r # ctx))" and R: "rep m0 X m (fill r (In_Right l a c k v # ctx))"
    by simp_all
  note fields = rep_fields(1,6) [OF Br.prems(1)] rep_focus_red [OF L] rep_focus_red [OF R]
    root_nil_iff [OF L] root_nil_iff [OF R]
  have h: "h = int (bh l + blacks (In_Left a c k v r # ctx))" "h = int (bh r + blacks (In_Right l a c k v # ctx))"
    using Br.prems(2,3) by simp_all
  obtain e1 where e1: "(if l = Tip \<and> r = Tip then do { count \<leftarrow> black_above m a 0;
        if e = -1 then Some (True, count) else Some (count = e, e) } else Some (True, e)) = Some (True, e1)" "e1 = -1 \<or> e1 = h"
  proof (cases "l = Tip \<and> r = Tip")
    case True
    have "black_above m a 0 = Some h"
      using black_above_ctx [OF L, of 0] h(1) True by simp
    with True Br.prems(4) show ?thesis by (intro that [of h]) auto
  qed (use Br.prems(4) that in auto)
  obtain e2 where e2: "node_verify m (root_of l) e1 = Some (True, e2)" "e2 = -1 \<or> e2 = h"
    using Br.IH(1) [OF L _ h(1) e1(2)] Br.prems(2) by auto
  obtain e3 where "node_verify m (root_of r) e2 = Some (True, e3)" "e3 = -1 \<or> e3 = h"
    using Br.IH(2) [OF R _ h(2) e2(2)] Br.prems(2) by auto
  with fields e1(1) e2(1) Br.prems(2) show ?case
    by (subst root_of.simps, subst node_verify.simps) auto
qed

lemma verify_rep:
  assumes "rep m0 {} m T" "rb T"
  shows "tmap_verify m = Some True"
proof -
  have R: "rep m0 {} m (fill T [])" "tm_root m = root_of T" using assms by (simp_all add: rep_def)
  from node_verify_rep [OF R(1) assms(2) refl, of "-1"] R(2) show ?thesis by (auto simp: tmap_verify_def)
qed

end
