(* ===== verification/Tmap_Strings.thy ===== *)
theory Tmap_Strings
  imports Tmap_Walk Hmap
begin

text \<open>
  The maps of \<open>tmap.c\<close> whose keys are strings: with \<open>strcmp\<close> as the comparison function every sequence of
  operations on a new map returns, and the map then holds what an ordinary finite map would.
\<close>

subsection \<open>The comparison\<close>

interpretation strings: comparator strcmp_ptr "range Some"
proof
  fix a b c :: "string option"
  assume ab: "a \<in> range Some" "b \<in> range Some"
  then obtain x y where "a = Some x" "b = Some y" by auto
  then show "strcmp_ptr a b < 0 \<longleftrightarrow> 0 < strcmp_ptr b a" using strcmp_antisym [of x y] by simp
  assume "c \<in> range Some" and le: "strcmp_ptr a b \<le> 0" "strcmp_ptr b c \<le> 0"
  then obtain x y z where "a = Some x" "b = Some y" "c = Some z" using ab by auto
  with le show "strcmp_ptr a c \<le> 0"
    using strcmp_trans [of x y z] strcmp_range [of x y] strcmp_range [of y z] by (auto simp del: strcmp.simps)
qed

lemma strcmp_ptr_0: "strcmp_ptr (Some a) (Some b) = 0 \<longleftrightarrow> a = b"
  by simp

subsection \<open>Sequences of operations\<close>

datatype 'v map_op = Put string "'v option" | Remove string | Clear

fun apply_op :: "'v map_op \<Rightarrow> (string, 'v, 'u) tmap \<Rightarrow> (string, 'v, 'u) tmap option" where
  "apply_op (Put k v) m = map_option snd (tmap_put m (Some k) v)"
| "apply_op (Remove k) m = map_option snd (tmap_remove m (Some k))"
| "apply_op Clear m = tmap_clear m"

fun apply_ops :: "'v map_op list \<Rightarrow> (string, 'v, 'u) tmap \<Rightarrow> (string, 'v, 'u) tmap option" where
  "apply_ops [] m = Some m"
| "apply_ops (op # ops) m = do { m \<leftarrow> apply_op op m; apply_ops ops m }"

definition new_string_map :: "(string \<Rightarrow> 64 word) \<Rightarrow> (string, 'v, 'u) tmap" where
  "new_string_map addr = tmap_set_compare_fn (tmap_new addr) strcmp_ptr"

text \<open>What the operations do to a sorted list, and to a map.\<close>

fun list_op :: "'v map_op \<Rightarrow> (string option \<times> 'v option) list \<Rightarrow> (string option \<times> 'v option) list" where
  "list_op (Put k v) xs = list_put strcmp_ptr (Some k) v xs"
| "list_op (Remove k) xs = list_remove strcmp_ptr (Some k) xs"
| "list_op Clear xs = []"

fun abs_op :: "'v map_op \<Rightarrow> (string \<rightharpoonup> 'v option) \<Rightarrow> (string \<rightharpoonup> 'v option)" where
  "abs_op (Put k v) f = f(k \<mapsto> v)"
| "abs_op (Remove k) f = f(k := None)"
| "abs_op Clear f = Map.empty"

definition contents :: "(string option \<times> 'v option) list \<Rightarrow> (string \<rightharpoonup> 'v option)" where
  "contents xs k = map_of xs (Some k)"

definition string_map_is :: "(string, 'v, 'u) tmap \<Rightarrow> (string option \<times> 'v option) list \<Rightarrow> bool" where
  "string_map_is m xs \<longleftrightarrow> map_is (range Some) m xs \<and> strcmp_ptr = tmap_compare m"

lemma string_map_new: "string_map_is (new_string_map addr) []"
proof -
  let ?m = "new_string_map addr :: (string, 'v, 'u) tmap"
  have "rep ?m {} ?m Tip"
    by (simp add: rep_def new_string_map_def tmap_new_def tmap_set_compare_fn_def dom_is_def same_on_def)
  moreover have "strcmp_ptr = tmap_compare ?m"
    by (simp add: new_string_map_def tmap_set_compare_fn_def tmap_compare_def fun_eq_iff)
  ultimately show ?thesis
    unfolding string_map_is_def map_is_def
    by (intro conjI exI [of _ Tip]) (auto simp: sorted_entries_def new_string_map_def tmap_new_def tmap_set_compare_fn_def)
qed

lemma clear_string_map:
  assumes "string_map_is m xs"
  shows "returns (\<lambda>m'. string_map_is m' []) (tmap_clear m)"
  using assms [unfolded string_map_is_def, THEN conjunct1]
proof (rule map_isE)
  fix T
  let ?m = "m\<lparr>tm_root := nil, tm_size := 0, tm_nodes := [nil \<mapsto> nil_node]\<rparr>"
  assume T: "rep m {} m T" "\<forall>a \<in> dom (tm_nodes m). a < tm_next m"
  then have "nil < tm_next m" by (auto simp: rep_def dom_is_def)
  moreover have "rep ?m {} ?m Tip" by (simp add: rep_def dom_is_def same_on_def)
  moreover have "strcmp_ptr = tmap_compare ?m" using assms by (simp add: string_map_is_def tmap_compare_def fun_eq_iff)
  ultimately have "string_map_is ?m []"
    unfolding string_map_is_def map_is_def by (intro conjI exI [of _ Tip]) (auto simp: sorted_entries_def)
  then show ?thesis by (simp add: tmap_clear_rep(1) [OF T(1)])
qed

lemma apply_op_correct:
  assumes "string_map_is m xs"
  shows "returns (\<lambda>m'. string_map_is m' (list_op op xs)) (apply_op op m)"
proof (cases op)
  case (Put k v)
  with strings.put_correct [of m xs "Some k" v] assms show ?thesis by (auto simp: string_map_is_def returns_def)
next
  case (Remove k)
  with strings.remove_correct [of m xs "Some k"] assms show ?thesis by (auto simp: string_map_is_def returns_def)
next
  case Clear
  with clear_string_map [OF assms] show ?thesis by simp
qed

lemma apply_ops_correct:
  "string_map_is m xs \<Longrightarrow> \<exists>m'. apply_ops ops m = Some m' \<and> string_map_is m' (fold list_op ops xs)"
proof (induction ops arbitrary: m xs)
  case (Cons op ops)
  from apply_op_correct [OF Cons.prems, of op] obtain m1 where "apply_op op m = Some m1" "string_map_is m1 (list_op op xs)"
    by (auto simp: returns_def)
  with Cons.IH [of m1 "list_op op xs"] show ?case by simp
qed simp

lemma contents_put: "contents (list_put strcmp_ptr (Some k) v xs) = (contents xs)(k \<mapsto> v)" if "fst ` set xs \<subseteq> range Some"
  using that
proof (induction xs)
  case (Cons e xs)
  then obtain k' where "fst e = Some k'" by auto
  with Cons show ?case by (cases e) (auto simp: contents_def fun_eq_iff simp del: strcmp.simps)
qed (simp add: contents_def fun_eq_iff)

lemma contents_remove: "contents (list_remove strcmp_ptr (Some k) xs) = (contents xs)(k := None)" if "fst ` set xs \<subseteq> range Some"
  using that
proof (induction xs)
  case (Cons e xs)
  then obtain k' where "fst e = Some k'" by auto
  with Cons show ?case by (cases e) (auto simp: contents_def list_remove_def fun_eq_iff simp del: strcmp.simps)
qed (simp add: contents_def list_remove_def fun_eq_iff)

lemma list_get_contents:
  "fst ` set xs \<subseteq> range Some \<Longrightarrow> list_get strcmp_ptr (Some k) xs = (case contents xs k of None \<Rightarrow> None | Some v \<Rightarrow> v)"
proof (induction xs)
  case (Cons e xs)
  then obtain k' where "fst e = Some k'" by auto
  with Cons show ?case by (cases e) (auto simp: contents_def list_get_def simp del: strcmp.simps)
qed (simp add: contents_def list_get_def)

lemma string_map_sorted:
  assumes "string_map_is m xs"
  shows "sorted_wrt (\<lambda>x y. strcmp_ptr (fst x) (fst y) < 0) xs" "fst ` set xs \<subseteq> range Some"
    "tm_size m = of_nat (length xs)"
proof -
  from assms have "sorted_entries strcmp_ptr (range Some) xs" "tm_size m = of_nat (length xs)"
    by (auto simp: string_map_is_def elim!: map_isE)
  then show "sorted_wrt (\<lambda>x y. strcmp_ptr (fst x) (fst y) < 0) xs" "fst ` set xs \<subseteq> range Some"
    "tm_size m = of_nat (length xs)" by (simp_all add: sorted_entries_def)
qed

lemma contents_op: "fst ` set xs \<subseteq> range Some \<Longrightarrow> contents (list_op op xs) = abs_op op (contents xs)"
  by (cases op) (simp_all add: contents_put contents_remove, simp add: contents_def fun_eq_iff)

lemma contents_ops:
  "string_map_is m xs \<Longrightarrow> contents (fold list_op ops xs) = fold abs_op ops (contents xs)"
proof (induction ops arbitrary: m xs)
  case (Cons op ops)
  from apply_op_correct [OF Cons.prems, of op] obtain m1 where "apply_op op m = Some m1" "string_map_is m1 (list_op op xs)"
    by (auto simp: returns_def)
  with Cons.IH contents_op [OF string_map_sorted(2) [OF Cons.prems], of op] show ?case by simp
qed simp

end
