(* ===== verification/Tmap_Properties.thy ===== *)
theory Tmap_Properties
  imports Tmap_Strings
begin

text \<open>
  What a map of \<open>tmap.c\<close> with string keys promises: after any sequence of operations on a new map every operation
  returns, and does what the finite map \<^const>\<open>abs_op\<close> computes would do.
\<close>

subsection \<open>Facts shared by the properties\<close>

definition map_after :: "'v map_op list \<Rightarrow> (string \<rightharpoonup> 'v option)" where
  "map_after ops = fold abs_op ops Map.empty"

definition value_in :: "(string \<rightharpoonup> 'v option) \<Rightarrow> string \<Rightarrow> 'v option" where
  "value_in f k = (case f k of None \<Rightarrow> None | Some v \<Rightarrow> v)"

text \<open>The entries with their keys as strings.\<close>

definition has_entries :: "(string, 'v, 'u) tmap \<Rightarrow> (string \<times> 'v option) list \<Rightarrow> bool" where
  "has_entries m ys \<longleftrightarrow> string_map_is m (map (map_prod Some id) ys)"

lemma contents_keyed: "contents (map (map_prod Some id) ys) = map_of ys"
  by (rule ext, induction ys) (auto simp: contents_def)

lemma keyed_entries: "fst ` set xs \<subseteq> range Some \<Longrightarrow> \<exists>ys. xs = map (map_prod Some id) ys"
proof -
  assume "fst ` set xs \<subseteq> range Some"
  then have "map (map_prod Some id) (map (map_prod the id) xs) = xs"
    unfolding map_map by (intro map_idI) force
  then show ?thesis by metis
qed

lemma after_ops:
  "\<exists>(m :: (string, 'v, 'u) tmap) ys. apply_ops ops (new_string_map addr) = Some m \<and> has_entries m ys \<and> map_of ys = map_after ops"
proof -
  obtain m :: "(string, 'v, 'u) tmap" where m: "apply_ops ops (new_string_map addr) = Some m" "string_map_is m (fold list_op ops [])"
    using apply_ops_correct [OF string_map_new] by blast
  from keyed_entries [OF string_map_sorted(2) [OF m(2)]] obtain ys where ys: "fold list_op ops [] = map (map_prod Some id) ys" ..
  have "contents (fold list_op ops []) = map_after ops"
    by (simp add: map_after_def contents_ops [OF string_map_new] contents_keyed [of "[]", simplified])
  then show ?thesis using m ys by (auto simp: has_entries_def contents_keyed)
qed

lemma has_entries_sorted:
  assumes "has_entries m ys"
  shows "sorted_wrt (\<lambda>x y. strcmp (fst x) (fst y) < 0) ys" "tm_size m = of_nat (length ys)"
  using string_map_sorted(1,3) [OF assms [unfolded has_entries_def]] by (simp_all add: sorted_wrt_map)

lemma has_entries_distinct:
  assumes "has_entries m ys"
  shows "distinct (map fst ys)"
proof -
  have "sorted_wrt (\<lambda>x y. strcmp (fst x) (fst y) < 0) ys \<Longrightarrow> distinct (map fst ys)"
    by (induction ys) force+
  with has_entries_sorted(1) [OF assms] show ?thesis by blast
qed

lemma has_entriesE:
  assumes "has_entries m ys"
  obtains T where "rep m {} m T" "rb T" "entries T = map (map_prod Some id) ys"
  using assms by (auto simp: has_entries_def string_map_is_def elim!: map_isE)

lemma has_entries_map: "has_entries m ys \<Longrightarrow> map_is (range Some) m (map (map_prod Some id) ys) \<and> strcmp_ptr = tmap_compare m"
  by (simp add: has_entries_def string_map_is_def)

lemma get_keyed: "list_get strcmp_ptr (Some k) (map (map_prod Some id) ys) = value_in (map_of ys) k"
  by (subst list_get_contents) (auto simp: contents_keyed value_in_def)

lemma value_in_entry: "distinct (map fst ys) \<Longrightarrow> map (value_in (map_of ys)) (map fst ys) = map snd ys"
  by (auto simp: value_in_def)

text \<open>A list along which a sign falls has three parts.\<close>

lemma falling_split:
  fixes f :: "'a \<Rightarrow> int"
  assumes "sorted_wrt (\<lambda>a b. sgn (f b) \<le> sgn (f a)) xs"
  shows "\<exists>A B C. xs = A @ B @ C \<and> (\<forall>x \<in> set A. 0 < f x) \<and> (\<forall>x \<in> set B. f x = 0) \<and> (\<forall>x \<in> set C. f x < 0)"
  using assms
proof (induction xs)
  case (Cons y xs)
  then obtain A B C where ih: "xs = A @ B @ C" "\<forall>x \<in> set A. 0 < f x" "\<forall>x \<in> set B. f x = 0" "\<forall>x \<in> set C. f x < 0" by auto
  have le: "\<forall>x \<in> set xs. sgn (f x) \<le> sgn (f y)" using Cons.prems by simp
  consider "0 < f y" | "f y = 0" "A = []" | "f y < 0" "A = []" "B = []"
    using le ih by (cases A; cases B; cases "0 < f y"; cases "f y = 0") (auto simp: sgn_if)
  then show ?case
  proof cases
    case 1
    with ih show ?thesis by (intro exI [of _ "y # A"] exI [of _ B] exI [of _ C]) simp
  next
    case 2
    with ih show ?thesis by (intro exI [of _ "[]"] exI [of _ "y # B"] exI [of _ C]) simp
  next
    case 3
    with ih show ?thesis by (intro exI [of _ "[]"] exI [of _ "[]"] exI [of _ "y # C"]) simp
  qed
qed simp

subsection \<open>The map\<close>

text \<open>
  C25. After any sequence of puts, removals and clearings on a new map, a search for any key returns, finds the key just
  if the finite map has it and gives its value; and the map's own check \<open>tmap_verify\<close> says that it is in order.
\<close>

theorem tmap_is_a_map:
  "\<exists>m :: (string, 'v, 'u) tmap. apply_ops ops (new_string_map addr) = Some m \<and>
    (\<forall>k. tmap_get m (Some k) = Some (value_in (map_after ops) k)) \<and>
    (\<forall>k. tmap_contains_key m (Some k) = Some (k \<in> dom (map_after ops))) \<and>
    tmap_size m = of_nat (card (dom (map_after ops))) \<and> tmap_verify m = Some True"
proof -
  obtain m :: "(string, 'v, 'u) tmap" and ys where m: "apply_ops ops (new_string_map addr) = Some m" "has_entries m ys" "map_of ys = map_after ops"
    using after_ops by blast
  have "card (dom (map_after ops)) = length ys"
    using m(3) has_entries_distinct [OF m(2)] distinct_card [of "map fst ys"] by (metis dom_map_of_conv_image_fst length_map set_map)
  moreover have "tmap_verify m = Some True" using m(2) by (auto elim!: has_entriesE intro: verify_rep)
  moreover have "(\<exists>e \<in> set (map (map_prod Some id) ys). strcmp_ptr (Some k) (fst e) = 0) \<longleftrightarrow> k \<in> dom (map_after ops)" for k
    unfolding m(3) [symmetric] by (force simp: dom_map_of_conv_image_fst)
  ultimately show ?thesis
    using m(1,3) strings.get_correct [of m] has_entries_map [OF m(2)] has_entries_sorted(2) [OF m(2)]
    by (auto simp: get_keyed tmap_size_def)
qed

text \<open>A put and a removal return, and give back the value the key had, or NULL.\<close>

theorem tmap_gives_back_old_value:
  "\<exists>(m :: (string, 'v, 'u) tmap) m1 m2. apply_ops ops (new_string_map addr) = Some m \<and>
    tmap_put m (Some k) v = Some (value_in (map_after ops) k, m1) \<and> apply_ops (ops @ [Put k v]) (new_string_map addr) = Some m1 \<and>
    tmap_remove m (Some k) = Some (value_in (map_after ops) k, m2) \<and> apply_ops (ops @ [Remove k]) (new_string_map addr) = Some m2"
proof -
  have append: "apply_ops (ops @ [op]) m0 = Option.bind (apply_ops ops m0) (apply_op op)" for op m0
    by (induction ops arbitrary: m0) (simp_all split: bind_splits)
  obtain m :: "(string, 'v, 'u) tmap" and ys where m: "apply_ops ops (new_string_map addr) = Some m" "has_entries m ys" "map_of ys = map_after ops"
    using after_ops by blast
  with strings.put_correct [of m _ "Some k" v] strings.remove_correct [of m _ "Some k"] has_entries_map [OF m(2)]
  show ?thesis by (fastforce simp: append returns_def get_keyed)
qed

text \<open>
  C26. The iterator of the map gives the value of every key once, in the order of the keys, and then has no next; and
  the visits of \<open>tmap_foreach_value\<close> reach the same values.
\<close>

theorem tmap_iterates_in_key_order:
  "\<exists>(m :: (string, 'v, 'u) tmap) it ks vs. apply_ops ops (new_string_map addr) = Some m \<and> tmap_iterator_start m = Some it \<and>
    set ks = dom (map_after ops) \<and> sorted_wrt (\<lambda>a b. strcmp a b < 0) ks \<and>
    iterate m it = Some (map (value_in (map_after ops)) ks) \<and>
    tmap_foreach_value m = Some vs \<and> mset vs = mset (map (value_in (map_after ops)) ks)"
proof -
  obtain m :: "(string, 'v, 'u) tmap" and ys where m: "apply_ops ops (new_string_map addr) = Some m" "has_entries m ys" "map_of ys = map_after ops"
    using after_ops by blast
  obtain T where T: "rep m {} m T" "entries T = map (map_prod Some id) ys" using m(2) by (rule has_entriesE)
  obtain ks' vs where each: "tmap_foreach_value m = Some vs" "mset (zip ks' vs) = mset (entries T)" "length ks' = length vs"
    using foreach_all [OF T(1)] by blast
  have "map (value_in (map_after ops)) (map fst ys) = map snd (entries T)"
    using value_in_entry [OF has_entries_distinct [OF m(2)]] m(3) T(2) by simp
  moreover have "mset vs = mset (map snd (entries T))"
    using arg_cong [OF each(2), of "image_mset snd"] each(3) by (simp flip: mset_map)
  moreover have "set (map fst ys) = dom (map_after ops)" using m(3) by (metis dom_map_of_conv_image_fst set_map)
  moreover have "sorted_wrt (\<lambda>a b. strcmp a b < 0) (map fst ys)" using has_entries_sorted(1) [OF m(2)] by (simp add: sorted_wrt_map)
  ultimately show ?thesis using m(1) each(1) iterate_all [OF T(1)] by (metis (no_types, lifting))
qed

text \<open>\<open>tmap_free\<close> releases every node once and nothing else: only the shared node \<open>nil\<close> is left.\<close>

theorem tmap_free_releases_all:
  "\<exists>m :: (string, 'v, 'u) tmap. apply_ops ops (new_string_map addr) = Some m \<and> tmap_free m = Some [nil \<mapsto> nil_node]"
proof -
  obtain m :: "(string, 'v, 'u) tmap" and ys where m: "apply_ops ops (new_string_map addr) = Some m" "has_entries m ys" using after_ops by blast
  from m(2) obtain T where "rep m {} m T" by (rule has_entriesE)
  with m(1) tmap_clear_rep(2) show ?thesis by blast
qed

text \<open>
  C27. \<open>tmap_iterator_partial\<close> with a comparison of \<open>x\<close> that falls along the order of the keys says whether any
  key compares equal, and its iterator gives the values of just those keys, in order.
\<close>

theorem tmap_partial_iterator_selects:
  assumes "\<And>a b. strcmp a b < 0 \<Longrightarrow> sgn (cmp x (Some b)) \<le> sgn (cmp x (Some a))"
  shows "\<exists>(m :: (string, 'v, 'u) tmap) it ks. apply_ops ops (new_string_map addr) = Some m \<and>
    tmap_iterator_partial m x cmp = Some (ks \<noteq> [], it) \<and>
    set ks = {k \<in> dom (map_after ops). cmp x (Some k) = 0} \<and> sorted_wrt (\<lambda>a b. strcmp a b < 0) ks \<and>
    iterate m it = Some (map (value_in (map_after ops)) ks)"
proof -
  obtain m :: "(string, 'v, 'u) tmap" and ys where m: "apply_ops ops (new_string_map addr) = Some m" "has_entries m ys" "map_of ys = map_after ops"
    using after_ops by blast
  obtain T where T: "rep m {} m T" "entries T = map (map_prod Some id) ys" using m(2) by (rule has_entriesE)
  have "sorted_wrt (\<lambda>a b. sgn (cmp x (fst (snd b))) \<le> sgn (cmp x (fst (snd a)))) (in_order T)"
  proof -
    have "sorted_wrt (\<lambda>a b. sgn (cmp x (Some (fst b))) \<le> sgn (cmp x (Some (fst a)))) ys"
      by (rule sorted_wrt_mono_rel [OF _ has_entries_sorted(1) [OF m(2)]]) (rule assms)
    then have "sorted_wrt (\<lambda>a b. sgn (cmp x (fst b)) \<le> sgn (cmp x (fst a))) (entries T)" by (simp add: T(2) sorted_wrt_map)
    then show ?thesis by (simp add: entries_def sorted_wrt_map)
  qed
  from falling_split [OF this] obtain A B C where abc: "in_order T = A @ B @ C"
    "keyed (\<lambda>k. 0 < cmp x k) A" "keyed (\<lambda>k. cmp x k = 0) B" "keyed (\<lambda>k. cmp x k < 0) C" by blast
  obtain it where it: "tmap_iterator_partial m x cmp = Some (B \<noteq> [], it)" "iterate m it = Some (map (snd \<circ> snd) B)"
    using iterate_partial [of m m T A B C cmp x, OF T(1) abc] by blast
  let ?zs = "filter (\<lambda>y. cmp x (Some (fst y)) = 0) ys"
  have "map snd B = filter (\<lambda>e. cmp x (fst e) = 0) (entries T)"
  proof -
    have "filter (\<lambda>y. cmp x (fst (snd y)) = 0) A = []" "filter (\<lambda>y. cmp x (fst (snd y)) = 0) B = B"
      "filter (\<lambda>y. cmp x (fst (snd y)) = 0) C = []"
      using abc(2-4) by (fastforce simp: filter_empty_conv intro: filter_True)+
    then show ?thesis by (simp add: entries_def abc(1) filter_map comp_def)
  qed
  then have B: "map snd B = map (map_prod Some id) ?zs" by (simp add: T(2) filter_map comp_def)
  have "map (value_in (map_after ops)) (map fst ?zs) = map snd ?zs"
    using has_entries_distinct [OF m(2)] by (auto simp: value_in_def simp flip: m(3))
  moreover have "map (snd \<circ> snd) B = map snd ?zs" using arg_cong [OF B, of "map snd"] by simp
  moreover have "set (map fst ?zs) = {k \<in> dom (map_after ops). cmp x (Some k) = 0}"
    unfolding m(3) [symmetric] dom_map_of_conv_image_fst by auto
  moreover have "sorted_wrt (\<lambda>a b. strcmp a b < 0) (map fst ?zs)"
    using has_entries_sorted(1) [OF m(2)] by (simp add: sorted_wrt_map sorted_wrt_filter)
  moreover have "B \<noteq> [] \<longleftrightarrow> map fst ?zs \<noteq> []" using arg_cong [OF B, of length] by (cases B) auto
  ultimately show ?thesis using m(1) it
    by (intro exI [of _ m] exI [of _ it] exI [of _ "map fst ?zs"] conjI) (simp_all only:)
qed

text \<open>A comparison that looks at the first character only, on a map with three keys.\<close>

definition initial_cmp :: "char \<Rightarrow> string option \<Rightarrow> int" where
  "initial_cmp c k = (case k of Some (d # ds) \<Rightarrow> int (byte c) - int (byte d) | _ \<Rightarrow> int (byte c) + 1)"

lemma initial_cmp_falls: "strcmp a b < 0 \<Longrightarrow> sgn (initial_cmp c (Some b)) \<le> sgn (initial_cmp c (Some a))"
  by (cases a; cases b) (auto simp: initial_cmp_def sgn_if split: if_splits)

definition three_keys :: "nat map_op list" where
  "three_keys = [Put ''b1'' (Some 1), Put ''a'' (Some 2), Put ''b2'' (Some 3)]"

lemma map_after_three_keys: "map_after three_keys = [''b1'' \<mapsto> Some 1, ''a'' \<mapsto> Some 2, ''b2'' \<mapsto> Some 3]"
  by (simp add: map_after_def three_keys_def)

theorem tmap_partial_iterator_selects_witness:
  "\<exists>(m :: (string, nat, unit) tmap) it ks. apply_ops three_keys (new_string_map (\<lambda>_. 0)) = Some m \<and>
    tmap_iterator_partial m CHR ''b'' initial_cmp = Some (ks \<noteq> [], it) \<and> set ks = {''b1'', ''b2''} \<and>
    sorted_wrt (\<lambda>a b. strcmp a b < 0) ks \<and> iterate m it = Some (map (value_in (map_after three_keys)) ks)"
proof -
  have "{k \<in> dom (map_after three_keys). initial_cmp CHR ''b'' (Some k) = 0} = {''b1'', ''b2''}"
    by (auto simp: map_after_three_keys initial_cmp_def byte_def)
  with tmap_partial_iterator_selects [where 'u = unit, of initial_cmp "CHR ''b''" three_keys "\<lambda>_. 0", OF initial_cmp_falls]
  show ?thesis by simp
qed

subsection \<open>How long a search takes\<close>

fun height :: "('k, 'v) rtree \<Rightarrow> nat" where
  "height Tip = 0"
| "height (Br l a c k v r) = Suc (max (height l) (height r))"

lemma height_bh: "rb t \<Longrightarrow> height t \<le> 2 * bh t + (if red_of t then 1 else 0)"
  by (induction t) (auto split: if_splits)

lemma bh_entries: "rb t \<Longrightarrow> 2 ^ bh t \<le> Suc (length (entries t))"
  by (induction t) (auto split: if_splits)

text \<open>The search, which gives up map_after a number of nodes.\<close>

fun get_within :: "nat \<Rightarrow> ('k, 'v, 'u) tmap \<Rightarrow> 'k option \<Rightarrow> tptr \<Rightarrow> tptr option" where
  "get_within 0 m k p = (if p = nil then Some p else None)"
| "get_within (Suc d) m k p =
     (if p = nil then Some p
      else do {
        n \<leftarrow> tm_nodes m p;
        let compare = tmap_compare m k (tn_key n);
        if compare > 0 then get_within d m k (tn_right n)
        else if compare < 0 then get_within d m k (tn_left n)
        else Some p })"

lemma get_within_height:
  "rep m0 X m (fill t ctx) \<Longrightarrow> height t \<le> d \<Longrightarrow> get_within d m k (root_of t) = get_loop m k (root_of t)"
proof (induction t arbitrary: ctx d)
  case Tip
  then show ?case by (cases d; subst get_loop.simps) simp_all
next
  case (Br l a c k' v r)
  from Br.prems(1) have L: "rep m0 X m (fill l (In_Left a c k' v r # ctx))" and R: "rep m0 X m (fill r (In_Right l a c k' v # ctx))"
    by simp_all
  from Br.prems(2) obtain d' where d: "d = Suc d'" "height l \<le> d'" "height r \<le> d'" by (cases d) auto
  from Br.IH(1) [OF L d(2)] Br.IH(2) [OF R d(3)] rep_fields(1,6) [OF Br.prems(1)] show ?case
    by (subst root_of.simps, subst get_loop.simps) (simp add: d(1) Let_def)
qed

text \<open>
  C28. A search for any key looks at no more than \<open>d\<close> nodes as soon as \<open>(n + 1)\<^sup>2 < 2 ^ d\<close>, where \<open>n\<close> is the
  number of keys: the number of steps grows with twice the logarithm of the number of keys.
\<close>

theorem tmap_search_is_logarithmic:
  assumes "(card (dom (map_after ops)) + 1)\<^sup>2 < 2 ^ d"
  shows "\<exists>m :: (string, 'v, 'u) tmap. apply_ops ops (new_string_map addr) = Some m \<and>
    (\<forall>k. get_within d m (Some k) (tm_root m) = tmap_get_node m (Some k))"
proof -
  obtain m :: "(string, 'v, 'u) tmap" and ys where m: "apply_ops ops (new_string_map addr) = Some m" "has_entries m ys" "map_of ys = map_after ops"
    using after_ops by blast
  obtain T where T: "rep m {} m T" "rb T" "entries T = map (map_prod Some id) ys" using m(2) by (rule has_entriesE)
  have "card (dom (map_after ops)) = length ys"
    using m(3) has_entries_distinct [OF m(2)] distinct_card [of "map fst ys"] by (metis dom_map_of_conv_image_fst length_map set_map)
  moreover have "(2 ^ bh T)\<^sup>2 \<le> (length ys + 1)\<^sup>2" using bh_entries [OF T(2)] T(3) by (intro power_mono) simp_all
  ultimately have "(2 ^ bh T)\<^sup>2 < (2 :: nat) ^ d" using assms by (metis le_less_trans)
  then have "(2 :: nat) ^ (2 * bh T) < 2 ^ d" by (simp add: power_mult [symmetric] mult.commute)
  then have "2 * bh T < d" by simp
  then have "height T \<le> d" using height_bh [OF T(2)] by (simp split: if_splits)
  moreover have "rep m {} m (fill T [])" "tm_root m = root_of T" using T(1) by (simp_all add: rep_def)
  ultimately show ?thesis using m(1) get_within_height by (metis tmap_get_node_def)
qed

theorem tmap_search_is_logarithmic_witness:
  "\<exists>m :: (string, nat, unit) tmap. apply_ops three_keys (new_string_map (\<lambda>_. 0)) = Some m \<and>
    (\<forall>k. get_within 5 m (Some k) (tm_root m) = tmap_get_node m (Some k))"
proof -
  have "card (dom (map_after three_keys)) = 3" by (simp add: map_after_three_keys)
  then show ?thesis
    using tmap_search_is_logarithmic [where 'u = unit, of three_keys 5 "\<lambda>_. 0"] by (simp add: power2_eq_square)
qed

subsection \<open>Where the code falls short\<close>

declare put_loop.simps [code] get_loop.simps [code] insert_loop.simps [code]
  node_verify.simps [code] black_above.simps [code]

text \<open>
  The comparison of a new map cuts the difference of two pointers to an \<open>int\<close>: two keys that are a multiple of
  \<open>2\<^sup>32\<close> bytes apart compare equal, so that the second takes the place of the first.
\<close>

lemma ptrcmp_confuses:
  "addr a = addr b + 0x100000000 \<Longrightarrow> ptrcmp addr (Some a) (Some b) = 0"
  by (simp add: ptrcmp_def)

lemma tmap_new_confuses_keys:
  "do { (_, m) \<leftarrow> tmap_put (tmap_new (\<lambda>b. if b then 0x100000000 + 64 else 64)) (Some True) (Some 1);
        (old, m) \<leftarrow> tmap_put m (Some False) (Some 2);
        got \<leftarrow> tmap_get (m :: (bool, nat, unit) tmap) (Some True);
        Some (old, tmap_size m, got) } = Some (Some 1, 1, Some 2)"
  by code_simp

text \<open>
  \<open>tmap_verify\<close> counts black nodes only above nodes without children: a chain of three black nodes passes.
\<close>

definition chain :: "(bool, nat, unit) tmap" where
  "chain = (tmap_new (\<lambda>_. 0))\<lparr>tm_root := 1, tm_size := 3, tm_next := 4, tm_nodes :=
     [0 \<mapsto> nil_node,
      1 \<mapsto> \<lparr>tn_key = None, tn_value = None, tn_red = False, tn_left = 0, tn_right = 2, tn_parent = 0\<rparr>,
      2 \<mapsto> \<lparr>tn_key = None, tn_value = None, tn_red = False, tn_left = 0, tn_right = 3, tn_parent = 1\<rparr>,
      3 \<mapsto> \<lparr>tn_key = None, tn_value = None, tn_red = False, tn_left = 0, tn_right = 0, tn_parent = 2\<rparr>]\<rparr>"

lemma tmap_verify_accepts_chain: "tmap_verify chain = Some True"
  by code_simp

end
