(* ===== verification/Errors.thy ===== *)
theory Errors
  imports Prelude
begin

text \<open>
  The messages of \<open>src/src/common/error.c\<close>: the stack of message headers, the global error message, and the ways
  a program ends.  Headers and texts are blocks of memory; an operation that reads or frees a block that has been freed
  has no result.  A message with its arguments is what \<open>printf fmt args\<close> makes of them, \<^const>\<open>None\<close> where
  the format asks for an argument that is not there.
\<close>

subsection \<open>State\<close>

record message_header =
  hdr_old :: "nat option"
  hdr_message :: string

record errors =
  err_headers :: "nat \<rightharpoonup> message_header"
  err_texts :: "nat \<rightharpoonup> string"
  err_next :: nat
  message_header :: "nat option"
  error_message :: "nat option"
  termination_hook :: bool
  hook_calls :: nat
  err_out :: string

definition errors_start :: "bool \<Rightarrow> errors" where
  "errors_start hook = \<lparr>err_headers = Map.empty, err_texts = Map.empty, err_next = 0, message_header = None,
     error_message = None, termination_hook = hook, hook_calls = 0, err_out = []\<rparr>"

definition print_err :: "string \<Rightarrow> errors \<Rightarrow> errors" where
  "print_err s E = E\<lparr>err_out := err_out E @ s\<rparr>"

definition free_text :: "nat \<Rightarrow> errors \<Rightarrow> errors option" where
  "free_text p E = map_option (\<lambda>_. E\<lparr>err_texts := (err_texts E)(p := None)\<rparr>) (err_texts E p)"

definition new_text :: "string \<Rightarrow> errors \<Rightarrow> nat \<times> errors" where
  "new_text s E = (err_next E, E\<lparr>err_texts := (err_texts E)(err_next E \<mapsto> s), err_next := err_next E + 1\<rparr>)"

subsection \<open>Warnings\<close>

definition get_message_header :: "string \<Rightarrow> errors \<Rightarrow> string option" where
  "get_message_header program_name E =
     (case message_header E of
        None \<Rightarrow> Some program_name
      | Some p \<Rightarrow> map_option hdr_message (err_headers E p))"

text \<open>A format, with its arguments; \<^const>\<open>None\<close> is NULL.\<close>

type_synonym 'a message = "(string \<times> 'a list) option"

definition v_warn :: "(string \<Rightarrow> 'a list \<Rightarrow> string option) \<Rightarrow> string \<Rightarrow> 'a message \<Rightarrow> errors \<Rightarrow> errors option" where
  "v_warn printf program_name msg E =
     do { header \<leftarrow> get_message_header program_name E;
          body \<leftarrow> (case msg of None \<Rightarrow> Some [] | Some (fmt, args) \<Rightarrow> printf fmt args);
          Some (print_err (header @ '': '' @ body @ [CHR 0x0A]) E) }"

definition v_warn_errno ::
  "(string \<Rightarrow> 'a list \<Rightarrow> string option) \<Rightarrow> string \<Rightarrow> string \<Rightarrow> 'a message \<Rightarrow> errors \<Rightarrow> errors option" where
  "v_warn_errno printf program_name errstr msg E =
     do { header \<leftarrow> get_message_header program_name E;
          body \<leftarrow> (case msg of None \<Rightarrow> Some [] | Some (fmt, args) \<Rightarrow> map_option (\<lambda>s. s @ '': '') (printf fmt args));
          Some (print_err (header @ '': '' @ body @ errstr @ [CHR 0x0A]) E) }"

subsection \<open>The end of a program\<close>

text \<open>\<open>for (hdr = message_header; hdr != NULL; hdr = hdr->old)\<close>: the field is read after the header has been freed.\<close>

partial_function (option) free_headers :: "nat option \<Rightarrow> errors \<Rightarrow> errors option" where
  "free_headers hdr E =
     (case hdr of
        None \<Rightarrow> Some E
      | Some p \<Rightarrow>
          do { h \<leftarrow> err_headers E p;
               let E = E\<lparr>err_headers := (err_headers E)(p := None)\<rparr>;
               h \<leftarrow> err_headers E p;
               free_headers (hdr_old h) E })"

definition free_error :: "errors \<Rightarrow> errors option" where
  "free_error E =
     do { E \<leftarrow> free_headers (message_header E) E;
          case error_message E of None \<Rightarrow> Some E | Some p \<Rightarrow> free_text p E }"

definition call_hook :: "errors \<Rightarrow> errors" where
  "call_hook E = (if termination_hook E then E\<lparr>hook_calls := hook_calls E + 1\<rparr> else E)"

text \<open>The programs that end give the state they leave, with the exit status 1.\<close>

definition die :: "(string \<Rightarrow> 'a list \<Rightarrow> string option) \<Rightarrow> string \<Rightarrow> 'a message \<Rightarrow> errors \<Rightarrow> (nat \<times> errors) option" where
  "die printf program_name msg E =
     do { E \<leftarrow> v_warn printf program_name msg (call_hook E); E \<leftarrow> free_error E; Some (1, E) }"

definition die_errno ::
  "(string \<Rightarrow> 'a list \<Rightarrow> string option) \<Rightarrow> string \<Rightarrow> string \<Rightarrow> 'a message \<Rightarrow> errors \<Rightarrow> (nat \<times> errors) option" where
  "die_errno printf program_name errstr msg E =
     do { E \<leftarrow> v_warn_errno printf program_name errstr msg (call_hook E); E \<leftarrow> free_error E; Some (1, E) }"

definition internal_error ::
  "(string \<Rightarrow> 'a list \<Rightarrow> string option) \<Rightarrow> string \<Rightarrow> string \<times> 'a list \<Rightarrow> errors \<Rightarrow> (nat \<times> errors) option" where
  "internal_error printf preamble msg E =
     do { body \<leftarrow> printf (fst msg) (snd msg);
          E \<leftarrow> free_error (print_err (preamble @ body) (call_hook E));
          Some (1, E) }"

definition warn_text :: "(string \<Rightarrow> 'a list \<Rightarrow> string option) \<Rightarrow> string \<Rightarrow> 'a message \<Rightarrow> errors \<Rightarrow> errors option" where
  "warn_text = v_warn"

definition warn_errno ::
  "(string \<Rightarrow> 'a list \<Rightarrow> string option) \<Rightarrow> string \<Rightarrow> string \<Rightarrow> 'a message \<Rightarrow> errors \<Rightarrow> errors option" where
  "warn_errno = v_warn_errno"

subsection \<open>Headers\<close>

definition set_message_header ::
  "(string \<Rightarrow> 'a list \<Rightarrow> string option) \<Rightarrow> string \<times> 'a list \<Rightarrow> errors \<Rightarrow> errors option" where
  "set_message_header printf msg E =
     do { text \<leftarrow> printf (fst msg) (snd msg);
          Some (E\<lparr>err_headers := (err_headers E)(err_next E \<mapsto> \<lparr>hdr_old = message_header E, hdr_message = text\<rparr>),
                  err_next := err_next E + 1, message_header := Some (err_next E)\<rparr>) }"

definition restore_message_header :: "errors \<Rightarrow> errors option" where
  "restore_message_header E =
     (case message_header E of
        None \<Rightarrow> Some E
      | Some p \<Rightarrow>
          do { h \<leftarrow> err_headers E p;
               Some (E\<lparr>err_headers := (err_headers E)(p := None), message_header := hdr_old h\<rparr>) })"

subsection \<open>The error message\<close>

definition set_error :: "(string \<Rightarrow> 'a list \<Rightarrow> string option) \<Rightarrow> 'a message \<Rightarrow> errors \<Rightarrow> errors option" where
  "set_error printf format E =
     do { E \<leftarrow> (case error_message E of None \<Rightarrow> Some E | Some p \<Rightarrow> free_text p E);
          case format of
            None \<Rightarrow> Some (E\<lparr>error_message := None\<rparr>)
          | Some (fmt, args) \<Rightarrow>
              do { text \<leftarrow> printf fmt args;
                   case new_text text E of (p, E) \<Rightarrow> Some (E\<lparr>error_message := Some p\<rparr>) } }"

definition get_error :: "errors \<Rightarrow> nat option" where
  "get_error E = error_message E"

definition remove_error :: "errors \<Rightarrow> nat option \<times> errors" where
  "remove_error E = (error_message E, E\<lparr>error_message := None\<rparr>)"

text \<open>\<open>die_error\<close> hands the message to \<open>warn\<close> as the format.\<close>

definition die_error :: "(string \<Rightarrow> 'a list \<Rightarrow> string option) \<Rightarrow> string \<Rightarrow> errors \<Rightarrow> (nat \<times> errors) option" where
  "die_error printf program_name E =
     do { let E = call_hook E;
          msg \<leftarrow> (case error_message E of None \<Rightarrow> Some None | Some p \<Rightarrow> map_option (\<lambda>s. Some (s, [])) (err_texts E p));
          E \<leftarrow> warn_text printf program_name msg E;
          E \<leftarrow> free_error E;
          Some (1, E) }"

subsection \<open>Headers nest\<close>

text \<open>The headers from the innermost on.\<close>

fun header_stack :: "(nat \<rightharpoonup> message_header) \<Rightarrow> nat option \<Rightarrow> string list \<Rightarrow> bool" where
  "header_stack H p [] \<longleftrightarrow> p = None"
| "header_stack H p (s # ss) \<longleftrightarrow>
     (\<exists>a h. p = Some a \<and> H a = Some h \<and> hdr_message h = s \<and> header_stack (H(a := None)) (hdr_old h) ss)"

definition headers_are :: "errors \<Rightarrow> string list \<Rightarrow> bool" where
  "headers_are E ss \<longleftrightarrow> header_stack (err_headers E) (message_header E) ss \<and> (\<forall>a \<in> dom (err_headers E). a < err_next E)"

lemma headers_start: "headers_are (errors_start hook) []"
  by (simp add: headers_are_def errors_start_def)

lemma set_header_nests:
  assumes "headers_are E ss" "printf (fst msg) (snd msg) = Some s"
  shows "\<exists>E'. set_message_header printf msg E = Some E' \<and> headers_are E' (s # ss)"
proof -
  have "err_headers E (err_next E) = None" using assms(1) by (auto simp: headers_are_def)
  then have "(err_headers E)(err_next E := None) = err_headers E" by auto
  with assms show ?thesis by (auto simp: set_message_header_def headers_are_def intro: less_SucI)
qed

lemma restore_header_nests: "headers_are E (s # ss) \<Longrightarrow> \<exists>E'. restore_message_header E = Some E' \<and> headers_are E' ss"
  by (auto simp: restore_message_header_def headers_are_def)

lemma header_is_innermost:
  "headers_are E ss \<Longrightarrow> get_message_header program_name E = Some (case ss of [] \<Rightarrow> program_name | s # _ \<Rightarrow> s)"
  by (cases ss) (auto simp: get_message_header_def headers_are_def)

lemma free_headers_None: "free_headers None E = Some E"
  by (subst free_headers.simps) simp

text \<open>While a header is set, the program cannot end in order: the chain is followed through freed memory.\<close>

lemma free_error_reads_freed:
  "message_header E \<noteq> None \<Longrightarrow> free_error E = None"
  unfolding free_error_def by (cases "message_header E"; subst free_headers.simps) (auto split: bind_splits)

lemma die_with_header_reads_freed:
  "message_header E \<noteq> None \<Longrightarrow> die printf program_name msg E = None"
  by (simp add: die_def v_warn_def call_hook_def print_err_def free_error_reads_freed split: bind_splits)

text \<open>Every sequence of headers set and restored in turn; \<^const>\<open>None\<close> restores.\<close>

fun header_steps ::
  "(string \<Rightarrow> 'a list \<Rightarrow> string option) \<Rightarrow> (string \<times> 'a list) option list \<Rightarrow> errors \<Rightarrow> errors option" where
  "header_steps printf [] E = Some E"
| "header_steps printf (None # steps) E = do { E \<leftarrow> restore_message_header E; header_steps printf steps E }"
| "header_steps printf (Some msg # steps) E = do { E \<leftarrow> set_message_header printf msg E; header_steps printf steps E }"

fun nested :: "(string \<Rightarrow> 'a list \<Rightarrow> string option) \<Rightarrow> (string \<times> 'a list) option list \<Rightarrow> string list \<Rightarrow> string list" where
  "nested printf [] ss = ss"
| "nested printf (None # steps) ss = nested printf steps (drop 1 ss)"
| "nested printf (Some msg # steps) ss = nested printf steps (the (printf (fst msg) (snd msg)) # ss)"

lemma header_steps_nest:
  "headers_are E ss \<Longrightarrow> \<forall>msg \<in> set steps. msg \<noteq> None \<longrightarrow> printf (fst (the msg)) (snd (the msg)) \<noteq> None \<Longrightarrow>
   \<exists>E'. header_steps printf steps E = Some E' \<and> headers_are E' (nested printf steps ss)"
proof (induction printf steps E arbitrary: ss rule: header_steps.induct)
  case (2 printf steps E)
  show ?case
  proof (cases ss)
    case Nil
    with 2(2) have "restore_message_header E = Some E" by (simp add: restore_message_header_def headers_are_def)
    with 2 Nil show ?thesis by simp
  next
    case (Cons s ss')
    with 2(2) restore_header_nests obtain E' where "restore_message_header E = Some E'" "headers_are E' ss'" by blast
    with 2(1) [of E' ss'] 2(3) Cons show ?thesis by simp
  qed
next
  case (3 printf msg steps E)
  from 3(3) obtain s where s: "printf (fst msg) (snd msg) = Some s" by auto
  with set_header_nests [OF 3(2)] obtain E' where "set_message_header printf msg E = Some E'" "headers_are E' (s # ss)"
    by blast
  with 3(1) [of E' "s # ss"] 3(3) s show ?case by simp
qed simp

text \<open>
  C35. However headers are set and restored, a warning begins with the innermost header that is still set, and with the
  program's name if there is none.
\<close>

theorem warnings_have_innermost_header:
  assumes "\<forall>msg \<in> set steps. msg \<noteq> None \<longrightarrow> printf (fst (the msg)) (snd (the msg)) \<noteq> None"
    and "printf fmt args = Some body"
  shows "\<exists>E E'. header_steps printf steps (errors_start hook) = Some E \<and>
    warn_text printf program_name (Some (fmt, args)) E = Some E' \<and>
    err_out E' = err_out E @ (case nested printf steps [] of [] \<Rightarrow> program_name | s # _ \<Rightarrow> s) @ '': '' @ body @ [CHR 0x0A]"
proof -
  from header_steps_nest [OF headers_start assms(1)] obtain E where "header_steps printf steps (errors_start hook) = Some E"
    "headers_are E (nested printf steps [])" by blast
  with header_is_innermost [of E _ program_name] assms(2) show ?thesis
    by (auto simp: warn_text_def v_warn_def print_err_def)
qed

definition plain_printf :: "string \<Rightarrow> string list \<Rightarrow> string option" where
  "plain_printf fmt args = (if CHR ''%'' \<in> set fmt then None else Some fmt)"

theorem warnings_have_innermost_header_witness:
  "\<exists>E E'. header_steps plain_printf [Some (''outer'', []), Some (''inner'', []), None] (errors_start False) = Some E \<and>
    warn_text plain_printf ''qmv'' (Some (''lost'', [])) E = Some E' \<and> err_out E' = err_out E @ ''outer: lost'' @ [CHR 0x0A]"
  using warnings_have_innermost_header [of "[Some (''outer'', []), Some (''inner'', []), None]" plain_printf "''lost''" "[]"
      "''lost''" False "''qmv''"]
  by (simp add: plain_printf_def)

text \<open>An error message with a percent sign cannot be printed: it is taken for a format.\<close>

lemma die_error_takes_message_for_format:
  "do { E \<leftarrow> set_error (\<lambda>fmt args. Some (concat args)) (Some (''%s'', [''100%d''])) (errors_start False);
        die_error plain_printf ''qmv'' E } = None"
  by code_simp

end
