(* ===== verification/Hmap_Iterator.thy ===== *)
theory Hmap_Iterator
  imports Hmap
begin

text \<open>
  The rest of \<open>src/src/common/hmap.c\<close>: the hash function that ignores case, the setters, the release of a table and
  the iterator over its values.
\<close>

text \<open>\<open>tolower\<close> is given the \<open>char\<close> as a signed number.\<close>

fun strcasehash_loop :: "(int \<Rightarrow> int) \<Rightarrow> 32 word \<Rightarrow> string \<Rightarrow> 32 word" where
  "strcasehash_loop tolower hash [] = hash"
| "strcasehash_loop tolower hash (c # str) =
     strcasehash_loop tolower (push_bit 5 hash - hash + word_of_int (tolower (schar c))) str"

definition strcasehash :: "(int \<Rightarrow> int) \<Rightarrow> string \<Rightarrow> 32 word" where
  "strcasehash tolower str = strcasehash_loop tolower 0 str"

definition hmap_set_compare_fn :: "('k, 'v) hmap \<Rightarrow> ('k option \<Rightarrow> 'k option \<Rightarrow> int) \<Rightarrow> ('k, 'v) hmap" where
  "hmap_set_compare_fn m compare = m\<lparr>compare_fn := compare\<rparr>"

definition hmap_set_hash_fn :: "('k, 'v) hmap \<Rightarrow> ('k \<Rightarrow> 32 word) \<Rightarrow> ('k, 'v) hmap" where
  "hmap_set_hash_fn m hash = m\<lparr>hash_fn := hash\<rparr>"

text \<open>The iterator: the entry is the chain from it on, so that an empty chain is the pointer NULL; \<open>previous_entry\<close> is set but never read.\<close>

record ('k, 'v) hmap_iterator =
  hit_index :: nat
  hit_entry :: "('k, 'v) hmap_entry list"

function next_bucket :: "('k, 'v) hmap \<Rightarrow> nat \<Rightarrow> nat" where
  "next_bucket m i = (if i < buckets_length m \<and> buckets m ! i = [] then next_bucket m (i + 1) else i)"
  by pat_completeness auto
termination
  by (relation "measure (\<lambda>(m, i). buckets_length m - i)") auto

declare next_bucket.simps [simp del]

definition bucket_at :: "('k, 'v) hmap \<Rightarrow> nat \<Rightarrow> ('k, 'v) hmap_entry list" where
  "bucket_at m i = (if i < buckets_length m then buckets m ! i else [])"

definition hmap_iterator :: "('k, 'v) hmap \<Rightarrow> ('k, 'v) hmap_iterator" where
  "hmap_iterator m = (let i = next_bucket m 0 in \<lparr>hit_index = i, hit_entry = bucket_at m i\<rparr>)"

definition hmap_iterator_has_next :: "('k, 'v) hmap_iterator \<Rightarrow> bool" where
  "hmap_iterator_has_next it \<longleftrightarrow> hit_entry it \<noteq> []"

fun hmap_iterator_next :: "('k, 'v) hmap \<Rightarrow> ('k, 'v) hmap_iterator \<Rightarrow> 'v option \<times> ('k, 'v) hmap_iterator" where
  "hmap_iterator_next m it =
     (case hit_entry it of
        [] \<Rightarrow> (None, it)
      | e # es \<Rightarrow>
          (Some (entry_value e),
           if es \<noteq> [] then it\<lparr>hit_entry := es\<rparr>
           else let i = next_bucket m (hit_index it + 1) in it\<lparr>hit_index := i, hit_entry := bucket_at m i\<rparr>))"

text \<open>What \<open>n\<close> calls give.\<close>

fun hmap_take :: "nat \<Rightarrow> ('k, 'v) hmap \<Rightarrow> ('k, 'v) hmap_iterator \<Rightarrow> 'v option list \<times> ('k, 'v) hmap_iterator" where
  "hmap_take 0 m it = ([], it)"
| "hmap_take (Suc n) m it =
     (case hmap_iterator_next m it of (v, it) \<Rightarrow> case hmap_take n m it of (vs, it) \<Rightarrow> (v # vs, it))"

text \<open>What is still to come.\<close>

definition to_come :: "('k, 'v) hmap \<Rightarrow> ('k, 'v) hmap_iterator \<Rightarrow> ('k, 'v) hmap_entry list" where
  "to_come m it = hit_entry it @ concat (drop (hit_index it + 1) (buckets m))"

lemma next_bucket_skips:
  "length (buckets m) = buckets_length m \<Longrightarrow>
   bucket_at m (next_bucket m i) @ concat (drop (next_bucket m i + 1) (buckets m)) = concat (drop i (buckets m)) \<and>
   (bucket_at m (next_bucket m i) = [] \<longrightarrow> concat (drop i (buckets m)) = [])"
proof (induction m i rule: next_bucket.induct)
  case (1 m i)
  show ?case
  proof (cases "i < buckets_length m")
    case True
    then have "concat (drop i (buckets m)) = buckets m ! i @ concat (drop (i + 1) (buckets m))"
      using 1(2) by (simp flip: Cons_nth_drop_Suc)
    with 1 True show ?thesis
      by (cases "buckets m ! i = []"; subst (1 2 3) next_bucket.simps) (simp_all add: bucket_at_def)
  next
    case False
    with 1(2) show ?thesis by (subst (1 2 3) next_bucket.simps) (simp add: bucket_at_def)
  qed
qed

definition stands :: "('k, 'v) hmap \<Rightarrow> ('k, 'v) hmap_iterator \<Rightarrow> bool" where
  "stands m it \<longleftrightarrow> (hit_entry it = [] \<longrightarrow> to_come m it = [])"

lemma hmap_iterator_start:
  "length (buckets m) = buckets_length m \<Longrightarrow>
   to_come m (hmap_iterator m) = concat (buckets m) \<and> stands m (hmap_iterator m)"
  using next_bucket_skips [of m 0] by (auto simp: to_come_def hmap_iterator_def stands_def Let_def simp del: concat_eq_Nil_conv)

lemma hmap_iterator_step:
  assumes "length (buckets m) = buckets_length m" "stands m it" "to_come m it = e # es"
  shows "\<exists>it'. hmap_iterator_next m it = (Some (entry_value e), it') \<and> to_come m it' = es \<and> stands m it'"
proof -
  from assms(2,3) obtain es' where e: "hit_entry it = e # es'"
    by (cases "hit_entry it") (auto simp: stands_def to_come_def simp del: concat_eq_Nil_conv)
  with assms next_bucket_skips [OF assms(1), of "hit_index it + 1"] show ?thesis
    by (auto simp: to_come_def stands_def Let_def simp del: concat_eq_Nil_conv)
qed

lemma hmap_take_all:
  "length (buckets m) = buckets_length m \<Longrightarrow> stands m it \<Longrightarrow>
   \<exists>it'. hmap_take (length (to_come m it)) m it = (map (Some \<circ> entry_value) (to_come m it), it') \<and>
     \<not> hmap_iterator_has_next it'"
proof (induction "to_come m it" arbitrary: it)
  case Nil
  then have "to_come m it = []" "hit_entry it = []" by (simp_all add: to_come_def)
  then show ?case by (simp add: hmap_iterator_has_next_def)
next
  case (Cons e es)
  from hmap_iterator_step [OF Cons(3,4) Cons(2) [symmetric]] obtain it' where
    it': "hmap_iterator_next m it = (Some (entry_value e), it')" "to_come m it' = es" "stands m it'" by blast
  from Cons(1) [OF it'(2) [symmetric] Cons(3) it'(3)] it' show ?case
    by (auto simp del: hmap_iterator_next.simps simp flip: Cons(2))
qed

text \<open>The iterator gives as many values as the table has keys, those \<open>hmap_foreach_value\<close> visits, in the same order.\<close>

theorem hmap_iterator_visits_all:
  assumes "hmap_ok m"
  shows "\<exists>it. hmap_take (hmap_size m) m (hmap_iterator m) = (map Some (hmap_foreach_value m), it) \<and>
    \<not> hmap_iterator_has_next it"
proof -
  have "length (buckets m) = buckets_length m" using assms by (simp add: hmap_ok_def hmap_placed_def)
  note take_all = hmap_take_all [OF this hmap_iterator_start [OF this, THEN conjunct2]] and start = hmap_iterator_start [OF this]
  have "hmap_size m = length (concat (buckets m))"
    using assms by (simp only: hmap_ok_def hmap_size_def hmap_alist_def length_map)
  moreover have "map (Some \<circ> entry_value) (concat (buckets m)) = map Some (hmap_foreach_value m)"
    by (simp add: hmap_foreach_value_def map_concat comp_def)
  ultimately show ?thesis using take_all start by metis
qed

theorem hmap_iterator_visits_all_witness:
  "\<exists>m it. m = fst (hmap_put (fst (hmap_put (hmap_new ()) (Some ''b'') 1)) (Some ''a'') (2 :: nat)) \<and>
    hmap_take 2 m (hmap_iterator m) = (map Some (hmap_foreach_value m), it) \<and> \<not> hmap_iterator_has_next it"
proof -
  let ?m = "fst (hmap_put (fst (hmap_put (hmap_new ()) (Some ''b'') 1)) (Some ''a'') (2 :: nat))"
  have "hmap_ok ?m" by (intro hmap_put_spec hmap_new_spec)
  moreover have "hmap_size ?m = 2" by code_simp
  ultimately show ?thesis using hmap_iterator_visits_all [of ?m] by metis
qed

end
