(* ===== verification/Io_Files.thy ===== *)
theory Io_Files
  imports Strbuf Io_Utils String_Utils
begin

text \<open>
  The wrappers around system calls of \<open>src/src/common/io-utils.c\<close>, and the functions of \<open>string-utils.c\<close> that
  work on a block of memory.  What the system answers is an argument.
\<close>

subsection \<open>Files\<close>

definition file_exists_with :: "(string \<Rightarrow> 's option) \<Rightarrow> string \<Rightarrow> bool" where
  "file_exists_with lstat file \<longleftrightarrow> lstat file \<noteq> None"

definition stat_mode :: "(string \<Rightarrow> (32 word \<times> 64 word) option) \<Rightarrow> string \<Rightarrow> 32 word" where
  "stat_mode stat file = (case stat file of None \<Rightarrow> 0 | Some (md, sz) \<Rightarrow> md)"

definition file_size :: "(string \<Rightarrow> (32 word \<times> 64 word) option) \<Rightarrow> string \<Rightarrow> 64 word" where
  "file_size stat file = (case stat file of None \<Rightarrow> -1 | Some (md, sz) \<Rightarrow> sz)"

text \<open>\<open>readdir\<close> gives every entry of the directory.\<close>

definition read_directory :: "string list option \<Rightarrow> bool \<Rightarrow> string list option" where
  "read_directory entries closed = (if closed then entries else None)"

subsection \<open>The output of a program\<close>

function read_all :: "instream \<Rightarrow> strbuf \<Rightarrow> strbuf option" where
  "read_all ins out =
     (case read_line ins of
        (None, ins) \<Rightarrow> Some out
      | (Some line, ins) \<Rightarrow> do { out \<leftarrow> strbuf_append out line; read_all ins out })"
  by pat_completeness auto
termination
  by (relation "measure (\<lambda>(ins, out). length (in_text ins))") (auto dest: read_line_shorter [OF sym])

declare read_all.simps [simp del]

text \<open>
  The child has run, or one of the calls before has failed.  \<open>errno\<close> is looked at after the last line, though nothing
  has set it to 0 before.
\<close>

record child_run =
  pipe_made :: bool
  forked :: bool
  ends_closed :: bool
  stream_opened :: bool
  child_output :: instream
  errno_after :: int
  child_waited :: bool
  stream_closed :: bool

definition backticks :: "child_run \<Rightarrow> string option option" where
  "backticks r =
     (if \<not> pipe_made r \<or> \<not> forked r \<or> \<not> ends_closed r \<or> \<not> stream_opened r then Some None
      else do { out \<leftarrow> read_all (child_output r) strbuf_new;
                if errno_after r \<noteq> 0 \<or> \<not> child_waited r \<or> \<not> stream_closed r then Some None
                else do { b \<leftarrow> strbuf_free_to_string out; s \<leftarrow> read_string b; Some (Some s) } })"

lemma read_line_cstr:
  assumes "cstr (in_text ins)" "in_text ins \<noteq> []"
  obtains l r where "read_line ins = (Some l, ins\<lparr>in_text := r\<rparr>)" "in_text ins = l @ r" "cstr l" "cstr r"
proof -
  obtain l r where lr: "split_line (in_text ins) = (l, r)" by fastforce
  from split_line_concat [OF this] have "in_text ins = l @ r" by simp
  moreover from this assms(1) have "cstr l" "cstr r" by (simp_all add: cstr_def)
  ultimately have "in_text ins = l @ r" "cstr l" "cstr r" by simp_all
  with assms lr that show ?thesis by (simp add: read_line_def)
qed

lemma read_all_rep:
  "sb_rep out s \<Longrightarrow> cstr (in_text ins) \<Longrightarrow> length s + length (in_text ins) + 1 < 2 ^ 31 \<Longrightarrow>
   \<exists>out'. read_all ins out = Some out' \<and> sb_rep out' (s @ in_text ins)"
proof (induction "length (in_text ins)" arbitrary: ins out s rule: less_induct)
  case less
  show ?case
  proof (cases "in_text ins = []")
    case True
    with less(2) show ?thesis by (subst read_all.simps) (simp add: read_line_end)
  next
    case False
    from read_line_cstr [OF less(3) False] obtain l r where
      lr: "read_line ins = (Some l, ins\<lparr>in_text := r\<rparr>)" "in_text ins = l @ r" "cstr l" "cstr r" .
    from append_rep [OF less(2) lr(3)] less(4) lr(2) obtain out1 where
      out1: "strbuf_append out l = Some out1" "sb_rep out1 (s @ l)" by auto
    have "length r < length (in_text ins)" using read_line_shorter [OF lr(1)] by simp
    with less(1) [of "ins\<lparr>in_text := r\<rparr>" out1 "s @ l"] out1 lr less(4) show ?thesis
      by (subst read_all.simps) simp
  qed
qed

text \<open>When all calls succeed and \<open>errno\<close> happens to be 0, the whole output of the program is returned.\<close>

theorem backticks_returns_output:
  assumes "pipe_made r" "forked r" "ends_closed r" "stream_opened r" "child_waited r" "stream_closed r"
    and "errno_after r = 0" "cstr (in_text (child_output r))" "length (in_text (child_output r)) + 1 < 2 ^ 31"
  shows "backticks r = Some (Some (in_text (child_output r)))"
proof -
  from read_all_rep [OF strbuf_new_rep assms(8)] assms(9) obtain out where
    "read_all (child_output r) strbuf_new = Some out" "sb_rep out (in_text (child_output r))" by auto
  with free_to_string_rep [OF this(2) assms(8)] assms show ?thesis
    by (auto simp: backticks_def bind_eq_Some_conv)
qed

definition demo_run :: child_run where
  "demo_run = \<lparr>pipe_made = True, forked = True, ends_closed = True, stream_opened = True,
     child_output = \<lparr>in_text = ''a'' @ [NL] @ ''bc'', in_error = False\<rparr>, errno_after = 0,
     child_waited = True, stream_closed = True\<rparr>"

theorem backticks_returns_output_witness: "backticks demo_run = Some (Some (''a'' @ [NL] @ ''bc''))"
  using backticks_returns_output [of demo_run] by (simp add: demo_run_def cstr_def)

text \<open>A value that an earlier call has left in \<open>errno\<close> makes it fail.\<close>

lemma backticks_stale_errno:
  assumes "errno_after r \<noteq> 0" "cstr (in_text (child_output r))" "length (in_text (child_output r)) + 1 < 2 ^ 31"
  shows "backticks r = Some None"
  using read_all_rep [OF strbuf_new_rep assms(2)] assms(1,3) by (auto simp: backticks_def)

subsection \<open>Text in a block\<close>

text \<open>\<open>strstr\<close>: the first place of a text.\<close>

fun strstr :: "string \<Rightarrow> string \<Rightarrow> nat option" where
  "strstr str sub =
     (if take (length sub) str = sub then Some 0
      else case str of [] \<Rightarrow> None | c # str \<Rightarrow> map_option Suc (strstr str sub))"

declare strstr.simps [simp del]

text \<open>The number of bytes moved is reckoned with the length of the new text, not of the old one.\<close>

definition replace_str :: "block \<Rightarrow> string \<Rightarrow> string \<Rightarrow> (bool \<times> block) option" where
  "replace_str b frm to =
     do { str \<leftarrow> read_string b;
          case strstr str frm of
            None \<Rightarrow> Some (False, b)
          | Some pos \<Rightarrow>
              do { let s1 = length frm; let s2 = length to; let len = length str - pos;
                   b \<leftarrow> (if len + 1 < s2 then None else mem_move b (int (pos + s2)) (int (pos + s1)) (len - s2 + 1));
                   b \<leftarrow> mem_copy b (int pos) to s2;
                   Some (True, b) } }"

lemma strstr_Some: "strstr str sub = Some pos \<Longrightarrow> \<exists>rest. str = take pos str @ sub @ rest \<and> pos \<le> length str"
proof (induction str sub arbitrary: pos rule: strstr.induct)
  case (1 str sub)
  show ?case
  proof (cases "take (length sub) str = sub")
    case True
    with 1(2) have "pos = 0" by (simp add: strstr.simps [of str])
    with True show ?thesis by (metis append_take_drop_id self_append_conv2 take0 zero_order(1))
  next
    case False
    with 1(2) obtain c s p where "str = c # s" "strstr s sub = Some p" "pos = Suc p"
      by (auto simp: strstr.simps [of str] split: list.splits)
    with 1(1) [OF False, of c s p] show ?thesis by auto
  qed
qed

lemma mem_move_self:
  assumes "p + n \<le> length b"
  shows "mem_move b (int p) (int p) n = Some b"
proof -
  have "take n (drop p b) @ drop (p + n) b = drop p b" by (metis append_take_drop_id drop_drop add.commute)
  with assms show ?thesis by (simp add: mem_move_def)
qed

text \<open>A text of the same length is replaced as it should be.\<close>

theorem replace_str_same_length:
  assumes "cstr str" "length frm = length to" "strstr str frm = Some pos"
  shows "replace_str (map Some str @ Some NUL # junk) frm to =
    Some (True, map Some (take pos str @ to @ drop (pos + length to) str) @ Some NUL # junk)"
proof -
  from strstr_Some [OF assms(3)] obtain rest where str: "str = take pos str @ frm @ rest" "pos \<le> length str" by blast
  define pre where "pre = take pos str"
  have s: "str = pre @ frm @ rest" "length pre = pos" using str by (simp_all add: pre_def)
  have move: "mem_move (map Some str @ Some NUL # junk) (int (pos + length to)) (int (pos + length frm)) n =
      Some (map Some str @ Some NUL # junk)" if "n \<le> length rest + 1" for n
    unfolding assms(2) using that s(1,2) assms(2) by (subst mem_move_self) auto
  have "length str - pos - length to + 1 = length rest + 1" "\<not> length str - pos + 1 < length to" using s assms(2) by simp_all
  with move [of "length rest + 1"] assms
  have "replace_str (map Some str @ Some NUL # junk) frm to =
      do { b \<leftarrow> mem_copy (map Some str @ Some NUL # junk) (int pos) to (length to); Some (True, b) }"
    by (simp add: replace_str_def read_string_block Let_def)
  with s(2) assms(2) show ?thesis by (simp add: mem_copy_def s(1))
qed

theorem replace_str_same_length_witness:
  "replace_str (map Some ''a.b.c'' @ [Some NUL]) ''b'' ''x'' = Some (True, map Some ''a.x.c'' @ [Some NUL])"
proof -
  have "strstr ''a.b.c'' ''b'' = Some 2" by code_simp
  from replace_str_same_length [of "''a.b.c''" "''b''" "''x''" 2 "[]", OF _ _ this] show ?thesis by (simp add: cstr_def)
qed

text \<open>A longer one loses the end of the text, NUL included; a shorter one reads beyond the block.\<close>

lemma replace_str_loses_end:
  "Option.bind (replace_str (map Some ''ab'' @ [Some NUL, None, None]) ''a'' ''xy'') (read_string \<circ> snd) = None"
  by code_simp

lemma replace_str_reads_beyond: "replace_str (map Some ''abc'' @ [Some NUL]) ''ab'' ''x'' = None"
  by code_simp

text \<open>\<open>string_strip_trailing_c\<close> asks for the length of the text that begins one byte before \<open>str\<close>.\<close>

fun strip_back :: "block \<Rightarrow> char \<Rightarrow> nat \<Rightarrow> int option" where
  "strip_back b c 0 = Some (-1)"
| "strip_back b c (Suc a) =
     (if length b \<le> a then None
      else case b ! a of
        None \<Rightarrow> None
      | Some d \<Rightarrow> if d = c then strip_back b c a else Some (int a))"

definition string_strip_trailing_c :: "block \<Rightarrow> nat \<Rightarrow> char \<Rightarrow> (int \<times> block) option" where
  "string_strip_trailing_c b str stripchar =
     (if str = 0 then None
      else do { s \<leftarrow> read_string (drop (str - 1) b);
                a \<leftarrow> strip_back (drop str b) stripchar (length s + 1);
                b \<leftarrow> mem_set b (int str + a + 1) NUL;
                Some (int (length s) - a, b) })"

text \<open>At the start of a block the function has no meaning; behind a byte it looks behind the text and strips nothing.\<close>

lemma strip_trailing_c_undefined: "string_strip_trailing_c b 0 c = None"
  by (simp add: string_strip_trailing_c_def)

lemma strip_trailing_c_strips_nothing:
  "string_strip_trailing_c (map Some ''/ab//'' @ [Some NUL, Some CHR ''x'', Some CHR ''y'']) 1 (CHR ''/'') =
   Some (0, map Some ''/ab//'' @ [Some NUL, Some CHR ''x'', Some NUL])"
  by code_simp

end
