(* ===== verification/Accessors.thy ===== *)
theory Accessors
  imports Llist_Spec Strbuf
begin

text \<open>
  The access from outside to the nodes of \<open>src/src/common/llist.c\<close> and to the fields of the buffers of
  \<open>strbuf.c\<close>, and the buffers made from texts.
\<close>

subsection \<open>Nodes of lists\<close>

definition llist_get_first_node :: "llist \<Rightarrow> node_ptr" where
  "llist_get_first_node L = ll_first L"

definition llist_get_last_node :: "llist \<Rightarrow> node_ptr" where
  "llist_get_last_node L = ll_last L"

definition lnode_next :: "'a node_heap \<Rightarrow> node_ptr \<Rightarrow> node_ptr option" where
  "lnode_next H node = map_option node_next (deref H node)"

definition lnode_previous :: "'a node_heap \<Rightarrow> node_ptr \<Rightarrow> node_ptr option" where
  "lnode_previous H node = map_option node_previous (deref H node)"

definition lnode_remove :: "llist \<Rightarrow> node_ptr \<Rightarrow> 'a node_heap \<Rightarrow> (llist \<times> 'a node_heap) option" where
  "lnode_remove L node H = llist_remove_entry node L H"

definition lnode_is_first :: "'a node_heap \<Rightarrow> node_ptr \<Rightarrow> bool option" where
  "lnode_is_first H node = map_option (\<lambda>n. node_previous n = None) (deref H node)"

definition lnode_is_last :: "'a node_heap \<Rightarrow> node_ptr \<Rightarrow> bool option" where
  "lnode_is_last H node = map_option (\<lambda>n. node_next n = None) (deref H node)"

definition lnode_data :: "'a node_heap \<Rightarrow> node_ptr \<Rightarrow> 'a option" where
  "lnode_data H node = map_option node_data (deref H node)"

text \<open>A state \<open>s\<close> that the function given to \<open>llist_iterate\<close> changes; it must leave the list alone.\<close>

partial_function (option) iterate_nodes :: "'a node_heap \<Rightarrow> ('a \<Rightarrow> 's \<Rightarrow> 's) \<Rightarrow> node_ptr \<Rightarrow> 's \<Rightarrow> 's option" where
  "iterate_nodes H f entry s =
     (if entry = None then Some s
      else do { n \<leftarrow> deref H entry; iterate_nodes H f (node_next n) (f (node_data n) s) })"

definition llist_iterate :: "llist \<Rightarrow> ('a \<Rightarrow> 's \<Rightarrow> 's) \<Rightarrow> 'a node_heap \<Rightarrow> 's \<Rightarrow> 's option" where
  "llist_iterate L f H s = iterate_nodes H f (ll_first L) s"

text \<open>The array has room for one pointer more than the size says; it is filled from the nodes.\<close>

definition llist_to_null_terminated_array :: "llist \<Rightarrow> 'a node_heap \<Rightarrow> 'a option list option" where
  "llist_to_null_terminated_array L H =
     do { xs \<leftarrow> node_values H (ll_first L);
          if length xs \<le> unat (ll_size L) then Some (map Some xs @ [None] @ replicate (unat (ll_size L) - length xs) None)
          else None }"

lemma iterate_nodes_dll:
  "dll H p as xs q \<Longrightarrow> iterate_nodes H f (head_ptr as None) s = Some (fold f xs s)" if "q = None"
  using that
proof (induction H p as xs q arbitrary: s rule: dll.induct)
  case (1 H p q)
  then show ?case by (subst iterate_nodes.simps) simp
next
  case (2 H p a as x xs q)
  then show ?case by (subst iterate_nodes.simps) (auto simp: deref_def)
qed simp_all

text \<open>The function is called with every value of the list, in order.\<close>

lemma llist_iterate_rep: "llist_rep L H as xs \<Longrightarrow> llist_iterate L f H s = Some (fold f xs s)"
  by (auto simp: llist_iterate_def llist_rep_def intro: iterate_nodes_dll)

lemma to_null_terminated_array_rep:
  assumes "llist_rep L H as xs"
  shows "llist_to_null_terminated_array L H = Some (map Some xs @ [None])"
proof -
  have "node_values H (ll_first L) = Some xs"
    using node_values_dll [of H None as xs] assms by (auto simp: llist_rep_def)
  moreover have "unat (ll_size L) = length xs"
    using assms llist_rep_length [OF assms] by (simp add: llist_rep_def unat_of_nat take_bit_nat_eq_self)
  ultimately show ?thesis by (simp add: llist_to_null_terminated_array_def)
qed

subsection \<open>Buffers\<close>

definition strbuf_buffer :: "strbuf \<Rightarrow> block" where
  "strbuf_buffer sb = sb_buf sb"

definition strbuf_length :: "strbuf \<Rightarrow> word32" where
  "strbuf_length sb = sb_len sb"

definition strbuf_capacity :: "strbuf \<Rightarrow> word32" where
  "strbuf_capacity sb = sb_capacity sb"

definition strbuf_new_from_substring_n :: "word32 \<Rightarrow> string \<Rightarrow> word32 \<Rightarrow> word32 \<Rightarrow> strbuf option" where
  "strbuf_new_from_substring_n reps substr subsp subep =
     do { subsp \<leftarrow> normalize_str_pos (Some substr) subsp;
          subep \<leftarrow> normalize_str_pos (Some substr) subep;
          let (subsp, subep) = swap_positions subsp subep;
          strbuf_new_from_data_n reps (drop (unat subsp) substr) (subep - subsp) }"

definition strbuf_new_from_char_n :: "word32 \<Rightarrow> char \<Rightarrow> strbuf option" where
  "strbuf_new_from_char_n reps ch = strbuf_new_from_substring_n reps [ch] 0 1"

definition strbuf_replacef_n ::
  "strbuf \<Rightarrow> word32 \<Rightarrow> word32 \<Rightarrow> word32 \<Rightarrow> string \<Rightarrow> (strbuf \<times> word32) option" where
  "strbuf_replacef_n = strbuf_vreplacef_n"

end
