(* ===== verification/Getopt.thy ===== *)
theory Getopt
  imports Prelude
begin

text \<open>
  The parser of command lines of \<open>src/gnulib-lib/getopt.c\<close> and \<open>getopt1.c\<close>.  The state of a parser is the structure
  \<open>_getopt_data\<close> with the argument vector it permutes, the messages it has printed, and what it has stored through
  \<open>longind\<close> and through the \<open>flag\<close> pointers of options.  A pointer into an argument is the text from there on;
  \<^const>\<open>None\<close> is NULL.  A step that would read behind the argument vector has no result.
\<close>

subsection \<open>Data\<close>

datatype ordering = REQUIRE_ORDER | PERMUTE | RETURN_IN_ORDER

datatype has_arg = No_Arg | Required_Arg | Optional_Arg

record long_option =
  lo_name :: string
  lo_has_arg :: has_arg
  lo_flag :: "nat option"
  lo_val :: int

datatype getopt_message =
  Ambiguous string "string list"
| Takes_No_Argument string
| Requires_Argument string
| Unrecognized string
| Invalid_Short char
| Requires_Argument_Short char
| Ambiguous_W string
| Takes_No_Argument_W string
| Requires_Argument_W string

record getopt_data =
  d_argv :: "string list"
  d_optind :: nat
  d_opterr :: bool
  d_optopt :: int
  d_optarg :: "string option"
  d_initialized :: bool
  d_nextchar :: "string option"
  d_ordering :: ordering
  d_posixly_correct :: bool
  d_first_nonopt :: nat
  d_last_nonopt :: nat
  d_messages :: "getopt_message list"
  d_longind :: "nat option"
  d_flags :: "nat \<rightharpoonup> int"

definition arg_at :: "string list \<Rightarrow> nat \<Rightarrow> string option" where
  "arg_at argv i = (if i < length argv then Some (argv ! i) else None)"

text \<open>\<open>NONOPTION_P\<close>\<close>

fun nonoption :: "string \<Rightarrow> bool" where
  "nonoption (c # d # s) \<longleftrightarrow> c \<noteq> CHR ''-''"
| "nonoption s \<longleftrightarrow> True"

definition say_error :: "bool \<Rightarrow> getopt_message \<Rightarrow> getopt_data \<Rightarrow> getopt_data" where
  "say_error print_errors e d = (if print_errors then d\<lparr>d_messages := d_messages d @ [e]\<rparr> else d)"

subsection \<open>Exchanging two segments of the arguments\<close>

text \<open>The loop that swaps \<open>n\<close> arguments from \<open>a\<close> on with those from \<open>b\<close> on.\<close>

fun swap_segments :: "'a list \<Rightarrow> nat \<Rightarrow> nat \<Rightarrow> nat \<Rightarrow> 'a list" where
  "swap_segments argv a b 0 = argv"
| "swap_segments argv a b (Suc n) = swap_segments (argv[a := argv ! b, b := argv ! a]) (a + 1) (b + 1) n"

function exchange_loop :: "'a list \<Rightarrow> nat \<Rightarrow> nat \<Rightarrow> nat \<Rightarrow> 'a list" where
  "exchange_loop argv bottom middle upper =
     (if middle < upper \<and> bottom < middle then
        if upper - middle > middle - bottom then
          let len = middle - bottom in
          exchange_loop (swap_segments argv bottom (upper - (middle - bottom)) len) bottom middle (upper - len)
        else
          let len = upper - middle in
          exchange_loop (swap_segments argv bottom middle len) (bottom + len) middle upper
      else argv)"
  by pat_completeness auto
termination
  by (relation "measure (\<lambda>(argv, bottom, middle, upper). upper - bottom)") auto

declare exchange_loop.simps [simp del]

definition exchange :: "getopt_data \<Rightarrow> getopt_data" where
  "exchange d = d\<lparr>d_argv := exchange_loop (d_argv d) (d_first_nonopt d) (d_last_nonopt d) (d_optind d),
     d_first_nonopt := d_first_nonopt d + (d_optind d - d_last_nonopt d), d_last_nonopt := d_optind d\<rparr>"

subsection \<open>The start\<close>

definition getopt_start :: "string list \<Rightarrow> getopt_data" where
  "getopt_start argv = \<lparr>d_argv = argv, d_optind = 1, d_opterr = True, d_optopt = schar CHR ''?'', d_optarg = None,
     d_initialized = False, d_nextchar = None, d_ordering = REQUIRE_ORDER, d_posixly_correct = False,
     d_first_nonopt = 0, d_last_nonopt = 0, d_messages = [], d_longind = None, d_flags = Map.empty\<rparr>"

definition getopt_initialize :: "bool \<Rightarrow> bool \<Rightarrow> string \<Rightarrow> getopt_data \<Rightarrow> string \<times> getopt_data" where
  "getopt_initialize env_posix posixly_correct optstring d =
     (let posix = posixly_correct \<or> env_posix;
          d = d\<lparr>d_first_nonopt := d_optind d, d_last_nonopt := d_optind d, d_nextchar := None, d_posixly_correct := posix\<rparr>
      in if take 1 optstring = ''-'' then (drop 1 optstring, d\<lparr>d_ordering := RETURN_IN_ORDER\<rparr>)
         else if take 1 optstring = ''+'' then (drop 1 optstring, d\<lparr>d_ordering := REQUIRE_ORDER\<rparr>)
         else (optstring, d\<lparr>d_ordering := if posix then REQUIRE_ORDER else PERMUTE\<rparr>))"

subsection \<open>The next argument\<close>

definition skip_nonoptions :: "getopt_data \<Rightarrow> getopt_data" where
  "skip_nonoptions d = d\<lparr>d_optind := d_optind d + length (takeWhile nonoption (drop (d_optind d) (d_argv d)))\<rparr>"

text \<open>
  The result is \<^const>\<open>Inl\<close> what the function returns at once, or \<^const>\<open>Inr\<close> the state in which \<open>nextchar\<close>
  is in an option.
\<close>

definition move_options_first :: "getopt_data \<Rightarrow> getopt_data" where
  "move_options_first d =
     (if d_first_nonopt d \<noteq> d_last_nonopt d \<and> d_last_nonopt d \<noteq> d_optind d then exchange d
      else if d_last_nonopt d \<noteq> d_optind d then d\<lparr>d_first_nonopt := d_optind d\<rparr>
      else d)"

definition end_of_options :: "getopt_data \<Rightarrow> getopt_data" where
  "end_of_options d =
     (let d = d\<lparr>d_optind := d_optind d + 1\<rparr>;
          d = (if d_first_nonopt d \<noteq> d_last_nonopt d \<and> d_last_nonopt d \<noteq> d_optind d then exchange d
               else if d_first_nonopt d = d_last_nonopt d then d\<lparr>d_first_nonopt := d_optind d\<rparr>
               else d)
      in d\<lparr>d_last_nonopt := length (d_argv d), d_optind := length (d_argv d)\<rparr>)"

definition permute_nonoptions :: "getopt_data \<Rightarrow> getopt_data" where
  "permute_nonoptions d = (let d = skip_nonoptions (move_options_first d) in d\<lparr>d_last_nonopt := d_optind d\<rparr>)"

definition next_argument :: "bool \<Rightarrow> getopt_data \<Rightarrow> ((int \<times> getopt_data) + getopt_data) option" where
  "next_argument has_longopts d =
     do { d \<leftarrow> (if d_optind d = length (d_argv d) then Some d
               else do { arg \<leftarrow> arg_at (d_argv d) (d_optind d);
                         Some (if strcmp arg ''--'' = 0 then end_of_options d else d) });
          if d_optind d = length (d_argv d) then
            Some (Inl (-1, if d_first_nonopt d \<noteq> d_last_nonopt d then d\<lparr>d_optind := d_first_nonopt d\<rparr> else d))
          else do {
            arg \<leftarrow> arg_at (d_argv d) (d_optind d);
            if nonoption arg then
              if d_ordering d = REQUIRE_ORDER then Some (Inl (-1, d))
              else Some (Inl (1, d\<lparr>d_optarg := Some arg, d_optind := d_optind d + 1\<rparr>))
            else Some (Inr (d\<lparr>d_nextchar :=
                   Some (drop (if has_longopts \<and> take 1 (drop 1 arg) = ''-'' then 2 else 1) arg)\<rparr>)) } }"

definition advance :: "bool \<Rightarrow> getopt_data \<Rightarrow> ((int \<times> getopt_data) + getopt_data) option" where
  "advance has_longopts d =
     (let d = (if d_last_nonopt d > d_optind d then d\<lparr>d_last_nonopt := d_optind d\<rparr> else d);
          d = (if d_first_nonopt d > d_optind d then d\<lparr>d_first_nonopt := d_optind d\<rparr> else d)
      in next_argument has_longopts (if d_ordering d = PERMUTE then permute_nonoptions d else d))"

subsection \<open>Long options\<close>

text \<open>The option found, with its index, the further ones the name may mean, and whether the name is exact.\<close>

fun find_long ::
  "bool \<Rightarrow> string \<Rightarrow> nat \<Rightarrow> long_option list \<Rightarrow> (nat \<times> long_option) option \<Rightarrow> long_option list
     \<Rightarrow> (nat \<times> long_option) option \<times> long_option list \<times> bool" where
  "find_long long_only name i [] pfound ambig = (pfound, ambig, False)"
| "find_long long_only name i (p # ps) pfound ambig =
     (if strcmp (take (length name) (lo_name p)) name = 0 then
        if length name = length (lo_name p) then (Some (i, p), ambig, True)
        else case pfound of
          None \<Rightarrow> find_long long_only name (i + 1) ps (Some (i, p)) ambig
        | Some (j, q) \<Rightarrow>
            if long_only \<or> lo_has_arg q \<noteq> lo_has_arg p \<or> lo_flag q \<noteq> lo_flag p \<or> lo_val q \<noteq> lo_val p
            then find_long long_only name (i + 1) ps pfound (p # ambig)
            else find_long long_only name (i + 1) ps pfound ambig
      else find_long long_only name (i + 1) ps pfound ambig)"

text \<open>What an option that has been found gives: its value, or 0 when it stores the value itself.\<close>

definition take_long :: "nat \<Rightarrow> long_option \<Rightarrow> getopt_data \<Rightarrow> int \<times> getopt_data" where
  "take_long i p d =
     (let d = d\<lparr>d_nextchar := Some [], d_longind := Some i\<rparr>
      in case lo_flag p of
           Some f \<Rightarrow> (0, d\<lparr>d_flags := (d_flags d)(f \<mapsto> lo_val p)\<rparr>)
         | None \<Rightarrow> (lo_val p, d))"

definition optstring_missing :: "string \<Rightarrow> int" where
  "optstring_missing optstring = (if take 1 optstring = '':'' then schar CHR '':'' else schar CHR ''?'')"

definition long_option_found ::
  "bool \<Rightarrow> string \<Rightarrow> string \<Rightarrow> nat \<Rightarrow> long_option \<Rightarrow> getopt_data \<Rightarrow> int \<times> getopt_data" where
  "long_option_found print_errors optstring nameend i p d =
     (let d = d\<lparr>d_optind := d_optind d + 1\<rparr> in
      if nameend \<noteq> [] then
        if lo_has_arg p \<noteq> No_Arg then take_long i p (d\<lparr>d_optarg := Some (drop 1 nameend)\<rparr>)
        else (schar CHR ''?'', (say_error print_errors (Takes_No_Argument (lo_name p)) d)\<lparr>d_nextchar := Some [], d_optopt := lo_val p\<rparr>)
      else if lo_has_arg p = Required_Arg then
        if d_optind d < length (d_argv d) then
          take_long i p (d\<lparr>d_optarg := Some (d_argv d ! d_optind d), d_optind := d_optind d + 1\<rparr>)
        else (optstring_missing optstring,
              (say_error print_errors (Requires_Argument (lo_name p)) d)\<lparr>d_nextchar := Some [], d_optopt := lo_val p\<rparr>)
      else take_long i p d)"

text \<open>\<^const>\<open>None\<close>: the option is not a long one, and a short one is looked for.\<close>

definition long_step ::
  "bool \<Rightarrow> string \<Rightarrow> long_option list \<Rightarrow> bool \<Rightarrow> string \<Rightarrow> string \<Rightarrow> getopt_data \<Rightarrow> (int \<times> getopt_data) option" where
  "long_step print_errors optstring longopts long_only arg nextchar d =
     (let name = takeWhile (\<lambda>c. c \<noteq> CHR ''='') nextchar;
          nameend = drop (length name) nextchar
      in case find_long long_only name 0 longopts None [] of
        (pfound, ambig, exact) \<Rightarrow>
          if ambig \<noteq> [] \<and> \<not> exact then
            Some (schar CHR ''?'',
              (say_error print_errors (Ambiguous arg (map lo_name (case pfound of Some (i, p) \<Rightarrow> p # ambig | None \<Rightarrow> ambig))) d)
                \<lparr>d_nextchar := Some [], d_optind := d_optind d + 1, d_optopt := 0\<rparr>)
          else case pfound of
            Some (i, p) \<Rightarrow> Some (long_option_found print_errors optstring nameend i p d)
          | None \<Rightarrow>
              if \<not> long_only \<or> take 1 (drop 1 arg) = ''-'' \<or> hd nextchar \<notin> set optstring
              then Some (schar CHR ''?'', (say_error print_errors (Unrecognized nextchar) d)
                     \<lparr>d_nextchar := Some [], d_optind := d_optind d + 1, d_optopt := 0\<rparr>)
              else None)"

subsection \<open>Short options\<close>

text \<open>\<open>strchr\<close> for a character that is not NUL: the rest of the text from it on.\<close>

definition strchr :: "string \<Rightarrow> char \<Rightarrow> string option" where
  "strchr s c = (case dropWhile (\<lambda>d. d \<noteq> c) s of [] \<Rightarrow> None | t \<Rightarrow> Some t)"

text \<open>\<open>-W foo\<close>, where the option string has \<open>W;\<close>: \<open>name\<close> is the argument, \<open>optind\<close> is behind it.\<close>

definition w_found ::
  "bool \<Rightarrow> string \<Rightarrow> string \<Rightarrow> nat \<Rightarrow> long_option \<Rightarrow> getopt_data \<Rightarrow> int \<times> getopt_data" where
  "w_found print_errors optstring nameend i p d =
     (if nameend \<noteq> [] then
        if lo_has_arg p \<noteq> No_Arg then take_long i p (d\<lparr>d_optarg := Some (drop 1 nameend)\<rparr>)
        else (schar CHR ''?'', (say_error print_errors (Takes_No_Argument_W (lo_name p)) d)\<lparr>d_nextchar := Some []\<rparr>)
      else if lo_has_arg p = Required_Arg then
        if d_optind d < length (d_argv d) then
          take_long i p (d\<lparr>d_optarg := Some (d_argv d ! d_optind d), d_optind := d_optind d + 1\<rparr>)
        else (optstring_missing optstring,
              (say_error print_errors (Requires_Argument_W (lo_name p)) d)\<lparr>d_nextchar := Some []\<rparr>)
      else take_long i p (d\<lparr>d_optarg := None\<rparr>))"

definition w_step ::
  "bool \<Rightarrow> string \<Rightarrow> long_option list \<Rightarrow> bool \<Rightarrow> string \<Rightarrow> getopt_data \<Rightarrow> int \<times> getopt_data" where
  "w_step print_errors optstring longopts long_only optarg d =
     (let d = d\<lparr>d_optarg := Some optarg\<rparr>;
          name = takeWhile (\<lambda>c. c \<noteq> CHR ''='') optarg;
          nameend = drop (length name) optarg
      in case find_long long_only name 0 longopts None [] of
        (pfound, ambig, exact) \<Rightarrow>
          if ambig \<noteq> [] \<and> \<not> exact then
            (schar CHR ''?'', (say_error print_errors (Ambiguous_W optarg) d)
               \<lparr>d_nextchar := Some [], d_optind := d_optind d + 1\<rparr>)
          else case pfound of
            Some (i, p) \<Rightarrow> w_found print_errors optstring nameend i p d
          | None \<Rightarrow> (schar CHR ''W'', d\<lparr>d_nextchar := None\<rparr>))"

definition missing_short :: "bool \<Rightarrow> string \<Rightarrow> char \<Rightarrow> getopt_data \<Rightarrow> int \<times> getopt_data" where
  "missing_short print_errors optstring c d =
     (optstring_missing optstring, (say_error print_errors (Requires_Argument_Short c) d)\<lparr>d_optopt := schar c\<rparr>)"

text \<open>The character \<open>c\<close> of an argument; \<open>rest\<close> is what comes behind it there.\<close>

definition short_step ::
  "bool \<Rightarrow> string \<Rightarrow> long_option list option \<Rightarrow> bool \<Rightarrow> char \<Rightarrow> string \<Rightarrow> getopt_data \<Rightarrow> (int \<times> getopt_data) option" where
  "short_step print_errors optstring longopts long_only c rest d =
     (let d = d\<lparr>d_nextchar := Some rest, d_optind := (if rest = [] then d_optind d + 1 else d_optind d)\<rparr> in
      case strchr optstring c of
        None \<Rightarrow> Some (schar CHR ''?'', (say_error print_errors (Invalid_Short c) d)\<lparr>d_optopt := schar c\<rparr>)
      | Some temp \<Rightarrow>
          if c = CHR '':'' \<or> c = CHR '';'' then
            Some (schar CHR ''?'', (say_error print_errors (Invalid_Short c) d)\<lparr>d_optopt := schar c\<rparr>)
          else if take 2 temp = ''W;'' then
            (case longopts of
               None \<Rightarrow> Some (schar CHR ''W'', d\<lparr>d_nextchar := None\<rparr>)
             | Some los \<Rightarrow>
                 if rest \<noteq> [] then Some (w_step print_errors optstring los long_only rest (d\<lparr>d_optind := d_optind d + 1\<rparr>))
                 else if d_optind d = length (d_argv d) then Some (missing_short print_errors optstring c d)
                 else do { arg \<leftarrow> arg_at (d_argv d) (d_optind d);
                           Some (w_step print_errors optstring los long_only arg (d\<lparr>d_optind := d_optind d + 1\<rparr>)) })
          else if take 1 (drop 1 temp) = '':'' then
            if take 1 (drop 2 temp) = '':'' then
              Some (schar c, (if rest \<noteq> [] then d\<lparr>d_optarg := Some rest, d_optind := d_optind d + 1\<rparr>
                              else d\<lparr>d_optarg := None\<rparr>)\<lparr>d_nextchar := None\<rparr>)
            else if rest \<noteq> [] then
              Some (schar c, d\<lparr>d_optarg := Some rest, d_optind := d_optind d + 1, d_nextchar := None\<rparr>)
            else if d_optind d = length (d_argv d) then
              (case missing_short print_errors optstring c d of (r, d) \<Rightarrow> Some (r, d\<lparr>d_nextchar := None\<rparr>))
            else do { arg \<leftarrow> arg_at (d_argv d) (d_optind d);
                      Some (schar c, d\<lparr>d_optarg := Some arg, d_optind := d_optind d + 1, d_nextchar := None\<rparr>) }
          else Some (schar c, d))"

subsection \<open>One call\<close>

definition getopt_internal_r ::
  "bool \<Rightarrow> string \<Rightarrow> long_option list option \<Rightarrow> bool \<Rightarrow> bool \<Rightarrow> getopt_data \<Rightarrow> (int \<times> getopt_data) option" where
  "getopt_internal_r env_posix optstring longopts long_only posixly_correct d =
     (if d_argv d = [] then Some (-1, d)
      else
        let d = d\<lparr>d_optarg := None\<rparr>;
            (optstring, d) =
              (if d_optind d = 0 \<or> \<not> d_initialized d then
                 case getopt_initialize env_posix posixly_correct optstring
                        (if d_optind d = 0 then d\<lparr>d_optind := 1\<rparr> else d) of
                   (optstring, d) \<Rightarrow> (optstring, d\<lparr>d_initialized := True\<rparr>)
               else if take 1 optstring = ''-'' \<or> take 1 optstring = ''+'' then (drop 1 optstring, d)
               else (optstring, d));
            print_errors = (d_opterr d \<and> take 1 optstring \<noteq> '':'')
        in do {
          r \<leftarrow> (if d_nextchar d = None \<or> d_nextchar d = Some [] then advance (longopts \<noteq> None) d else Some (Inr d));
          case r of
            Inl result \<Rightarrow> Some result
          | Inr d \<Rightarrow>
              do {
                arg \<leftarrow> arg_at (d_argv d) (d_optind d);
                nextchar \<leftarrow> d_nextchar d;
                let long = (case longopts of
                    None \<Rightarrow> None
                  | Some los \<Rightarrow>
                      if take 1 (drop 1 arg) = ''-'' \<or>
                         long_only \<and> (length arg > 2 \<or> hd (drop 1 arg) \<notin> set optstring)
                      then long_step print_errors optstring los long_only arg nextchar d else None);
                case long of
                  Some result \<Rightarrow> Some result
                | None \<Rightarrow>
                    (case nextchar of
                       [] \<Rightarrow> None
                     | c # rest \<Rightarrow> short_step print_errors optstring longopts long_only c rest d) } })"

definition getopt_long :: "bool \<Rightarrow> string \<Rightarrow> long_option list \<Rightarrow> getopt_data \<Rightarrow> (int \<times> getopt_data) option" where
  "getopt_long env_posix options long_options d = getopt_internal_r env_posix options (Some long_options) False False d"

definition getopt_long_only :: "bool \<Rightarrow> string \<Rightarrow> long_option list \<Rightarrow> getopt_data \<Rightarrow> (int \<times> getopt_data) option" where
  "getopt_long_only env_posix options long_options d = getopt_internal_r env_posix options (Some long_options) True False d"

definition getopt_short :: "bool \<Rightarrow> string \<Rightarrow> getopt_data \<Rightarrow> (int \<times> getopt_data) option" where
  "getopt_short env_posix options d = getopt_internal_r env_posix options None False True d"

text \<open>The loop of a program over its options, until the result is \<open>-1\<close>: each result with \<open>optarg\<close>.\<close>

partial_function (option) getopt_loop ::
  "(getopt_data \<Rightarrow> (int \<times> getopt_data) option) \<Rightarrow> getopt_data \<Rightarrow> ((int \<times> string option) list \<times> getopt_data) option" where
  "getopt_loop step d =
     do { (c, d) \<leftarrow> step d;
          if c = -1 then Some ([], d)
          else do { (cs, d') \<leftarrow> getopt_loop step d; Some ((c, d_optarg d) # cs, d') } }"

end
