(* ===== verification/Getopt_Spec.thy ===== *)
theory Getopt_Spec
  imports Getopt
begin

text \<open>
  What the parser of \<open>getopt.c\<close> does to a command line: the options in order, with their arguments, and the operands,
  which end up behind them.  \<open>parse_line\<close> reads the line from left to right and permutes nothing; the theorem says
  that the calls of \<open>getopt_long\<close> give the same.
\<close>

subsection \<open>The exchange of two segments\<close>

lemma swap_segments_append:
  "length X = length Y \<Longrightarrow>
   swap_segments (P @ X @ M @ Y @ C) (length P) (length P + length X + length M) (length X) = P @ Y @ M @ X @ C"
proof (induction X Y arbitrary: P M rule: list_induct2)
  case (Cons x X y Y)
  have "(P @ (x # X) @ M @ (y # Y) @ C)[length P := y, length P + length (x # X) + length M := x] = (P @ [y]) @ X @ (M @ [x]) @ Y @ C"
    by (simp add: list_update_append)
  moreover have "(P @ (x # X) @ M @ (y # Y) @ C) ! (length P + length (x # X) + length M) = y"
    "(P @ (x # X) @ M @ (y # Y) @ C) ! length P = x"
    by (simp_all add: nth_append)
  ultimately show ?case using Cons.IH [of "P @ [y]" "M @ [x]"] by (simp add: add.assoc)
qed simp

lemma exchange_bottom:
  "0 < a \<Longrightarrow> a < b \<Longrightarrow>
   exchange_loop X p (p + a) (p + a + b) = exchange_loop (swap_segments X p (p + b) a) p (p + a) (p + b)"
  by (subst exchange_loop.simps) (simp add: Let_def)

lemma exchange_top:
  "0 < b \<Longrightarrow> b \<le> a \<Longrightarrow>
   exchange_loop X p (p + a) (p + a + b) = exchange_loop (swap_segments X p (p + a) b) (p + b) (p + a) (p + a + b)"
  by (subst exchange_loop.simps) (simp add: Let_def)

text \<open>However long the two segments are, they change places and keep their order.\<close>

lemma exchange_loop_append:
  "exchange_loop (P @ A @ B @ C) (length P) (length P + length A) (length P + length A + length B) = P @ B @ A @ C"
proof (induction "length A + length B" arbitrary: P A B C rule: less_induct)
  case less
  show ?case
  proof (cases "A = [] \<or> B = []")
    case True
    then show ?thesis by (subst exchange_loop.simps) auto
  next
    case False
    show ?thesis
    proof (cases "length A < length B")
      case True
      define B1 B2 where "B1 = take (length B - length A) B" and "B2 = drop (length B - length A) B"
      then have B: "B = B1 @ B2" "length B2 = length A" "length B = length A + length B1" using True by auto
      have "swap_segments (P @ A @ B @ C) (length P) (length P + length B) (length A) = P @ B2 @ B1 @ A @ C"
        using swap_segments_append [of A B2 P B1 C] B(2) unfolding B(1) by (simp add: add.commute add.left_commute)
      moreover have "exchange_loop (P @ B2 @ B1 @ A @ C) (length P) (length P + length A) (length P + length B) = P @ B @ A @ C"
        using less [of B2 B1 P "A @ C"] True False unfolding B(3) by (simp add: B(1,2) add.assoc)
      ultimately show ?thesis using exchange_bottom [of "length A" "length B" "P @ A @ B @ C" "length P"] True False by simp
    next
      case not: False
      define A1 A2 where "A1 = take (length B) A" and "A2 = drop (length B) A"
      then have A: "A = A1 @ A2" "length A1 = length B" "length A = length B + length A2" using not by auto
      have "swap_segments (P @ A @ B @ C) (length P) (length P + length A) (length B) = P @ B @ A2 @ A1 @ C"
        using swap_segments_append [of A1 B P A2 C] A(2) unfolding A(3) by (simp add: A(1) add.assoc)
      moreover have "exchange_loop (P @ B @ A2 @ A1 @ C) (length P + length B) (length P + length A) (length P + length A + length B) =
          P @ B @ A @ C"
        using less [of A2 A1 "P @ B" C] not False A(2) unfolding A(3) by (simp add: A(1) add.assoc add.left_commute add.commute)
      ultimately show ?thesis using exchange_top [of "length B" "length A" "P @ A @ B @ C" "length P"] not False by simp
    qed
  qed
qed

subsection \<open>Reading from left to right\<close>

text \<open>The results of the letters of one argument, and whether the last one takes the next argument.\<close>

fun parse_letters :: "string \<Rightarrow> string \<Rightarrow> string option \<Rightarrow> (int \<times> string option) list \<times> bool" where
  "parse_letters optstring [] nxt = ([], False)"
| "parse_letters optstring (c # cs) nxt =
     (case strchr optstring c of
        None \<Rightarrow> (case parse_letters optstring cs nxt of (is, t) \<Rightarrow> ((schar CHR ''?'', None) # is, t))
      | Some temp \<Rightarrow>
          if c = CHR '':'' \<or> c = CHR '';'' then
            (case parse_letters optstring cs nxt of (is, t) \<Rightarrow> ((schar CHR ''?'', None) # is, t))
          else if take 1 (drop 1 temp) = '':'' then
            if take 1 (drop 2 temp) = '':'' then ([(schar c, if cs = [] then None else Some cs)], False)
            else if cs \<noteq> [] then ([(schar c, Some cs)], False)
            else (case nxt of None \<Rightarrow> ([(schar CHR ''?'', None)], False) | Some a \<Rightarrow> ([(schar c, Some a)], True))
          else (case parse_letters optstring cs nxt of (is, t) \<Rightarrow> ((schar c, None) # is, t)))"

definition parse_name :: "long_option list \<Rightarrow> string \<Rightarrow> string option \<Rightarrow> (int \<times> string option) \<times> bool" where
  "parse_name longopts text nxt =
     (let name = takeWhile (\<lambda>c. c \<noteq> CHR ''='') text; nameend = drop (length name) text in
      case find_long False name 0 longopts None [] of
        (pfound, ambig, exact) \<Rightarrow>
          if ambig \<noteq> [] \<and> \<not> exact then ((schar CHR ''?'', None), False)
          else case pfound of
            None \<Rightarrow> ((schar CHR ''?'', None), False)
          | Some (i, p) \<Rightarrow>
              let val = (if lo_flag p = None then lo_val p else 0) in
              if nameend \<noteq> [] then
                if lo_has_arg p = No_Arg then ((schar CHR ''?'', None), False) else ((val, Some (drop 1 nameend)), False)
              else if lo_has_arg p = Required_Arg then
                (case nxt of None \<Rightarrow> ((schar CHR ''?'', None), False) | Some a \<Rightarrow> ((val, Some a), True))
              else ((val, None), False))"

definition parse_element ::
  "string \<Rightarrow> long_option list \<Rightarrow> string \<Rightarrow> string option \<Rightarrow> (int \<times> string option) list \<times> bool" where
  "parse_element optstring longopts arg nxt =
     (if take 2 arg = ''--'' then (case parse_name longopts (drop 2 arg) nxt of (i, t) \<Rightarrow> ([i], t))
      else parse_letters optstring (drop 1 arg) nxt)"

definition first_of :: "'a list \<Rightarrow> 'a option" where
  "first_of xs = (case xs of [] \<Rightarrow> None | x # _ \<Rightarrow> Some x)"

text \<open>The results, the arguments that belong to options, and the operands.\<close>

function parse_line ::
  "string \<Rightarrow> long_option list \<Rightarrow> string list \<Rightarrow> (int \<times> string option) list \<times> string list \<times> string list" where
  "parse_line optstring longopts [] = ([], [], [])"
| "parse_line optstring longopts (arg # args) =
     (if arg = ''--'' then ([], [arg], args)
      else if nonoption arg then
        (case parse_line optstring longopts args of (is, os, ps) \<Rightarrow> (is, os, arg # ps))
      else (case parse_element optstring longopts arg (first_of args) of
        (here, taken) \<Rightarrow>
          let n = (if taken then 1 else 0) in
          (case parse_line optstring longopts (drop n args) of (is, os, ps) \<Rightarrow> (here @ is, arg # take n args @ os, ps))))"
  by pat_completeness auto
termination
  by (relation "measure (\<lambda>(s, l, args). length args)") auto

text \<open>An option string without the prefixes that change the order or the messages, and without \<open>W;\<close>.\<close>

fun has_w :: "string \<Rightarrow> bool" where
  "has_w (c # d # s) \<longleftrightarrow> c = CHR ''W'' \<and> d = CHR '';'' \<or> has_w (d # s)"
| "has_w s \<longleftrightarrow> False"

definition plain_optstring :: "string \<Rightarrow> bool" where
  "plain_optstring s \<longleftrightarrow> take 1 s \<notin> {''-'', ''+'', '':''} \<and> \<not> has_w s"

lemma strchr_Some: "strchr s c = Some t \<Longrightarrow> take 2 t = ''W;'' \<Longrightarrow> has_w s"
proof (induction s rule: has_w.induct)
  case (1 d e s)
  then show ?case by (cases "d = c") (auto simp: strchr_def split: if_splits list.splits)
qed (auto simp: strchr_def split: if_splits list.splits)

subsection \<open>Between two arguments\<close>

text \<open>
  The vector is \<open>H @ N @ K @ rest\<close>: what has been put in order, the operands skipped, the options read behind them,
  and what is still to be read.
\<close>

definition between :: "string list \<Rightarrow> string list \<Rightarrow> string list \<Rightarrow> string list \<Rightarrow> getopt_data \<Rightarrow> bool" where
  "between H N K rest d \<longleftrightarrow>
     d_argv d = H @ N @ K @ rest \<and> H \<noteq> [] \<and> d_initialized d \<and> d_ordering d = PERMUTE \<and>
     d_first_nonopt d = length H \<and> d_last_nonopt d = length H + length N \<and>
     d_optind d = length H + length N + length K \<and> (d_nextchar d = None \<or> d_nextchar d = Some [])"

text \<open>In an argument.\<close>

definition inside :: "string list \<Rightarrow> string list \<Rightarrow> string \<Rightarrow> string \<Rightarrow> string list \<Rightarrow> getopt_data \<Rightarrow> bool" where
  "inside H N arg text rest d \<longleftrightarrow>
     d_argv d = H @ N @ arg # rest \<and> H \<noteq> [] \<and> d_initialized d \<and> d_ordering d = PERMUTE \<and>
     d_first_nonopt d = length H \<and> d_last_nonopt d = length H + length N \<and>
     d_optind d = length H + length N \<and> d_nextchar d = Some text"

lemma move_options_first_between:
  assumes "between H N K rest d"
  shows "d_argv (move_options_first d) = H @ K @ N @ rest" "d_first_nonopt (move_options_first d) = length H + length K"
    "d_optind (move_options_first d) = d_optind d" "d_ordering (move_options_first d) = PERMUTE"
    "d_initialized (move_options_first d)"
proof -
  have exch: "exchange_loop (H @ N @ K @ rest) (length H) (length H + length N) (length H + (length N + length K)) = H @ K @ N @ rest"
    using exchange_loop_append [of H N K rest] by (simp add: add.assoc)
  from assms exch show "d_argv (move_options_first d) = H @ K @ N @ rest" "d_first_nonopt (move_options_first d) = length H + length K"
    "d_optind (move_options_first d) = d_optind d" "d_ordering (move_options_first d) = PERMUTE"
    "d_initialized (move_options_first d)"
    by (auto simp: between_def move_options_first_def exchange_def add.assoc)
qed

lemma say_error_fields [simp]:
  "d_argv (say_error b e d) = d_argv d" "d_optind (say_error b e d) = d_optind d"
  "d_initialized (say_error b e d) = d_initialized d" "d_ordering (say_error b e d) = d_ordering d"
  "d_first_nonopt (say_error b e d) = d_first_nonopt d" "d_last_nonopt (say_error b e d) = d_last_nonopt d"
  "d_nextchar (say_error b e d) = d_nextchar d" "d_optarg (say_error b e d) = d_optarg d"
  by (simp_all add: say_error_def)

definition finished :: "string list \<Rightarrow> string list \<Rightarrow> getopt_data \<Rightarrow> bool" where
  "finished opts ops d \<longleftrightarrow> d_argv d = opts @ ops \<and> d_optind d = length opts"

lemma skip_nonoptions_append:
  assumes "d_argv d = xs @ rest" "d_optind d = length xs"
  shows "d_optind (skip_nonoptions d) = length xs + length (takeWhile nonoption rest)"
    "d_argv (skip_nonoptions d) = d_argv d" "d_first_nonopt (skip_nonoptions d) = d_first_nonopt d"
    "d_ordering (skip_nonoptions d) = d_ordering d" "d_initialized (skip_nonoptions d) = d_initialized d"
  using assms by (simp_all add: skip_nonoptions_def)

text \<open>What \<open>advance\<close> does between two arguments: it ends, or it is in the next option.\<close>

lemma permuted:
  assumes "between H N K rest d" and S: "rest = S @ rest'" "takeWhile nonoption rest = S"
  shows "d_argv (permute_nonoptions d) = (H @ K) @ (N @ S) @ rest'"
    "d_optind (permute_nonoptions d) = length (H @ K) + length (N @ S)"
    "d_first_nonopt (permute_nonoptions d) = length (H @ K)"
    "d_last_nonopt (permute_nonoptions d) = length (H @ K) + length (N @ S)"
    "d_ordering (permute_nonoptions d) = PERMUTE" "d_initialized (permute_nonoptions d)"
    "d_optarg (permute_nonoptions d) = d_optarg d" "d_opterr (permute_nonoptions d) = d_opterr d"
proof -
  note moved = move_options_first_between [OF assms(1)]
  have at: "d_argv (move_options_first d) = (H @ K @ N) @ rest" "d_optind (move_options_first d) = length (H @ K @ N)"
    using moved assms(1) by (simp_all add: between_def)
  note skip = skip_nonoptions_append [OF at, unfolded S(2)]
  show "d_argv (permute_nonoptions d) = (H @ K) @ (N @ S) @ rest'"
    "d_optind (permute_nonoptions d) = length (H @ K) + length (N @ S)"
    "d_first_nonopt (permute_nonoptions d) = length (H @ K)"
    "d_last_nonopt (permute_nonoptions d) = length (H @ K) + length (N @ S)"
    "d_ordering (permute_nonoptions d) = PERMUTE" "d_initialized (permute_nonoptions d)"
    using skip moved at S(1) by (simp_all add: permute_nonoptions_def Let_def)
  show "d_optarg (permute_nonoptions d) = d_optarg d" "d_opterr (permute_nonoptions d) = d_opterr d"
    by (simp_all add: permute_nonoptions_def Let_def skip_nonoptions_def move_options_first_def exchange_def)
qed

lemma advance_between: "between H N K rest d \<Longrightarrow> advance long d = next_argument long (permute_nonoptions d)"
  unfolding advance_def by (simp add: between_def Let_def)

lemma advance_at_end:
  assumes "between H N K S d" "\<forall>a \<in> set S. nonoption a"
  shows "\<exists>d'. advance long d = Some (Inl (-1, d')) \<and> finished (H @ K) (N @ S) d'"
proof -
  have "takeWhile nonoption S = S" using assms(2) by simp
  with permuted [OF assms(1), of S "[]"] show ?thesis
    unfolding advance_between [OF assms(1)] by (auto simp: next_argument_def finished_def)
qed

lemma advance_at_dashes:
  assumes "between H N K (S @ ''--'' # rest) d" "\<forall>a \<in> set S. nonoption a"
  shows "\<exists>d'. advance long d = Some (Inl (-1, d')) \<and> finished (H @ K @ [''--'']) (N @ S @ rest) d'"
proof -
  have S: "takeWhile nonoption (S @ ''--'' # rest) = S" using assms(2) by (simp add: takeWhile_append)
  note st = permuted [OF assms(1) refl S]
  let ?d = "permute_nonoptions d"
  have arg: "arg_at (d_argv ?d) (d_optind ?d) = Some ''--''" "d_optind ?d < length (d_argv ?d)"
    using st by (simp_all add: arg_at_def nth_append)
  have "exchange_loop ((H @ K) @ (N @ S) @ [''--''] @ rest) (length (H @ K)) (length (H @ K) + length (N @ S))
      (length (H @ K) + length (N @ S) + length [''--'']) = (H @ K) @ [''--''] @ (N @ S) @ rest"
    by (rule exchange_loop_append)
  then have "finished (H @ K @ [''--'']) (N @ S @ rest)
      (let e = end_of_options ?d in if d_first_nonopt e \<noteq> d_last_nonopt e then e\<lparr>d_optind := d_first_nonopt e\<rparr> else e)"
    using st by (auto simp: finished_def end_of_options_def exchange_def Let_def)
  moreover have "d_optind (end_of_options ?d) = length (d_argv (end_of_options ?d))"
    using st by (auto simp: end_of_options_def exchange_def Let_def)
  ultimately show ?thesis
    unfolding advance_between [OF assms(1)] using arg by (auto simp: next_argument_def Let_def)
qed

lemma advance_at_option:
  assumes "between H N K (S @ arg # rest) d" "\<forall>a \<in> set S. nonoption a" "\<not> nonoption arg" "arg \<noteq> ''--''"
  shows "\<exists>d'. advance True d = Some (Inr d') \<and>
    inside (H @ K) (N @ S) arg (drop (if take 2 arg = ''--'' then 2 else 1) arg) rest d' \<and> d_optarg d' = d_optarg d \<and>
    d_opterr d' = d_opterr d"
proof -
  have S: "takeWhile nonoption (S @ arg # rest) = S" using assms(2,3) by (simp add: takeWhile_append)
  note st = permuted [OF assms(1) refl S]
  let ?d = "permute_nonoptions d"
  have arg: "arg_at (d_argv ?d) (d_optind ?d) = Some arg" "d_optind ?d < length (d_argv ?d)"
    using st by (simp_all add: arg_at_def nth_append)
  have "take 2 arg = ''--'' \<longleftrightarrow> take 1 (drop 1 arg) = ''-''" using assms(3) by (cases arg rule: nonoption.cases) auto
  moreover have "H \<noteq> []" using assms(1) by (simp add: between_def)
  ultimately show ?thesis
    unfolding advance_between [OF assms(1)] using arg st assms(3,4) by (auto simp: next_argument_def inside_def)
qed

subsection \<open>The steps in an argument\<close>

lemma optarg_update [simp]:
  "inside H N arg text rest (d\<lparr>d_optarg := x\<rparr>) = inside H N arg text rest d"
  "between H N K rest (d\<lparr>d_optarg := x\<rparr>) = between H N K rest d"
  by (simp_all add: inside_def between_def)

text \<open>What a call does in the text of an argument.\<close>

definition option_step :: "string \<Rightarrow> long_option list \<Rightarrow> string \<Rightarrow> string \<Rightarrow> getopt_data \<Rightarrow> (int \<times> getopt_data) option" where
  "option_step optstring longopts arg text d =
     (case (if take 1 (drop 1 arg) = ''-'' then long_step (d_opterr d) optstring longopts False arg text d else None) of
        Some result \<Rightarrow> Some result
      | None \<Rightarrow> (case text of [] \<Rightarrow> None | c # cs \<Rightarrow> short_step (d_opterr d) optstring (Some longopts) False c cs d))"

lemma internal_inside:
  assumes "inside H N arg text rest d" "text \<noteq> []" "plain_optstring optstring"
  shows "getopt_long env optstring longopts d = option_step optstring longopts arg text (d\<lparr>d_optarg := None\<rparr>)"
proof -
  have plain: "take 1 optstring \<noteq> ''-''" "take 1 optstring \<noteq> ''+''" "take 1 optstring \<noteq> '':''"
    using assms(3) by (auto simp: plain_optstring_def)
  have d: "d_argv d \<noteq> []" "d_optind d \<noteq> 0" "d_initialized d" "d_nextchar d = Some text"
    "arg_at (d_argv d) (d_optind d) = Some arg"
    using assms(1) by (auto simp: inside_def arg_at_def nth_append)
  then show ?thesis
    using assms(2) plain
    by (simp add: getopt_long_def getopt_internal_r_def option_step_def Let_def del: One_nat_def split: option.split list.split)
qed

text \<open>The first step in an argument is the same as the one that comes from the argument before.\<close>

lemma internal_between:
  assumes "between H N K rest d" "advance True (d\<lparr>d_optarg := None\<rparr>) = Some (Inr d')" "d_opterr d' = d_opterr d"
    and "inside H' N' arg text rest' d'" "plain_optstring optstring"
  shows "getopt_long env optstring longopts d = option_step optstring longopts arg text d'"
proof -
  have plain: "take 1 optstring \<noteq> ''-''" "take 1 optstring \<noteq> ''+''" "take 1 optstring \<noteq> '':''"
    using assms(5) by (auto simp: plain_optstring_def)
  have d: "d_argv d \<noteq> []" "d_optind d \<noteq> 0" "d_initialized d" "d_nextchar d = None \<or> d_nextchar d = Some []"
    using assms(1) by (auto simp: between_def)
  have d': "d_nextchar d' = Some text" "arg_at (d_argv d') (d_optind d') = Some arg"
    using assms(4) by (auto simp: inside_def arg_at_def nth_append)
  show ?thesis
    using d d' assms(2,3) plain
    by (simp add: getopt_long_def getopt_internal_r_def option_step_def Let_def del: One_nat_def split: option.split list.split)
qed

lemma internal_done:
  assumes "between H N K rest d" "advance True (d\<lparr>d_optarg := None\<rparr>) = Some (Inl r)" "plain_optstring optstring"
  shows "getopt_long env optstring longopts d = Some r"
proof -
  have plain: "take 1 optstring \<noteq> ''-''" "take 1 optstring \<noteq> ''+''" "take 1 optstring \<noteq> '':''"
    using assms(3) by (auto simp: plain_optstring_def)
  have d: "d_argv d \<noteq> []" "d_optind d \<noteq> 0" "d_initialized d" "d_nextchar d = None \<or> d_nextchar d = Some []"
    using assms(1) by (auto simp: between_def)
  then show ?thesis
    using assms(2) plain
    by (simp add: getopt_long_def getopt_internal_r_def Let_def del: One_nat_def split: option.split)
qed

lemma getopt_loop_more:
  "step d = Some (c, d') \<Longrightarrow> c \<noteq> -1 \<Longrightarrow>
   getopt_loop step d = map_option (\<lambda>(cs, e). ((c, d_optarg d') # cs, e)) (getopt_loop step d')"
  by (subst getopt_loop.simps) (cases "getopt_loop step d'"; auto)

definition taking :: "bool \<Rightarrow> nat" where
  "taking t = (if t then 1 else 0)"

lemma long_step_spec:
  assumes "inside H N arg text rest d" "d_optarg d = None" "plain_optstring optstring"
    and "parse_name longopts text (first_of rest) = ((c, a), t)"
  shows "\<exists>d'. long_step pe optstring longopts False arg text d = Some (c, d') \<and> d_optarg d' = a \<and>
    between H N (arg # take (taking t) rest) (drop (taking t) rest) d'"
proof -
  obtain pfound ambig exact where f: "find_long False (takeWhile (\<lambda>c. c \<noteq> CHR ''='') text) 0 longopts None [] = (pfound, ambig, exact)"
    by (metis prod_cases3)
  have rest: "d_argv d ! Suc (d_optind d) = x" "Suc (d_optind d) < length (d_argv d)" if "rest = x # xs" for x xs
    using assms(1) that by (auto simp: inside_def nth_append)
  have none: "\<not> Suc (d_optind d) < length (d_argv d)" if "rest = []" using assms(1) that by (auto simp: inside_def)
  have colon: "optstring_missing optstring = schar CHR ''?''" using assms(3) by (simp add: optstring_missing_def plain_optstring_def)
  show ?thesis
  proof (cases "ambig \<noteq> [] \<and> \<not> exact")
    case True
    with f assms show ?thesis
      by (auto simp: long_step_def parse_name_def Let_def inside_def between_def taking_def)
  next
    case False
    show ?thesis
    proof (cases pfound)
      case None
      with f False assms show ?thesis
        by (auto simp: long_step_def parse_name_def Let_def inside_def between_def taking_def split: if_splits)
    next
      case (Some ip)
      obtain i p where ip: "ip = (i, p)" by fastforce
      show ?thesis
        using f False Some ip assms rest none colon
        by (cases rest; cases "lo_flag p"; cases "lo_has_arg p")
          (auto simp: long_step_def parse_name_def Let_def long_option_found_def take_long_def inside_def between_def
            taking_def first_of_def split: if_splits)
    qed
  qed
qed

text \<open>A letter without an argument, or one that is not an option: the next call goes on behind it.\<close>

definition letter_plain :: "string \<Rightarrow> char \<Rightarrow> bool" where
  "letter_plain optstring c \<longleftrightarrow>
     (case strchr optstring c of
        None \<Rightarrow> True
      | Some temp \<Rightarrow> c = CHR '':'' \<or> c = CHR '';'' \<or> take 1 (drop 1 temp) \<noteq> '':'')"

lemma plain_no_w: "plain_optstring optstring \<Longrightarrow> strchr optstring c = Some temp \<Longrightarrow> take 2 temp \<noteq> ''W;''"
  using strchr_Some by (auto simp: plain_optstring_def)

lemma short_step_next:
  assumes "inside H N arg (c # cs) rest d" "d_optarg d = None" "plain_optstring optstring" "letter_plain optstring c"
    and "parse_letters optstring (c # cs) nxt = ((r, a) # is, t)"
  shows "\<exists>d'. short_step pe optstring (Some longopts) False c cs d = Some (r, d') \<and> d_optarg d' = a \<and> a = None \<and>
    parse_letters optstring cs nxt = (is, t) \<and>
    (if cs = [] then between H N [arg] rest d' else inside H N arg cs rest d')"
  using assms plain_no_w [OF assms(3)]
  by (auto simp: short_step_def letter_plain_def Let_def inside_def between_def split: option.splits prod.splits if_splits)

lemma short_step_last:
  assumes "inside H N arg (c # cs) rest d" "d_optarg d = None" "plain_optstring optstring" "\<not> letter_plain optstring c"
    and "parse_letters optstring (c # cs) (first_of rest) = (here, t)"
  shows "\<exists>d' r a. short_step pe optstring (Some longopts) False c cs d = Some (r, d') \<and> here = [(r, a)] \<and> d_optarg d' = a \<and>
    between H N (arg # take (taking t) rest) (drop (taking t) rest) d'"
proof -
  have colon: "optstring_missing optstring = schar CHR ''?''" using assms(3) by (simp add: optstring_missing_def plain_optstring_def)
  show ?thesis
    using assms plain_no_w [OF assms(3)] colon
    by (cases rest)
      (auto simp: short_step_def letter_plain_def Let_def inside_def between_def missing_short_def arg_at_def nth_append
        taking_def first_of_def split: option.splits if_splits)
qed

text \<open>No result is the \<open>-1\<close> that ends the loop of the caller.\<close>

definition no_end :: "string \<Rightarrow> long_option list \<Rightarrow> bool" where
  "no_end optstring longopts \<longleftrightarrow> (\<forall>c \<in> set optstring. schar c \<noteq> -1) \<and> (\<forall>p \<in> set longopts. lo_val p \<noteq> -1)"

lemma strchr_mem: "strchr s c = Some temp \<Longrightarrow> c \<in> set s"
  by (induction s) (auto simp: strchr_def split: if_splits)

lemma letters_no_end:
  "no_end optstring longopts \<Longrightarrow> parse_letters optstring text nxt = (is, t) \<Longrightarrow> i \<in> set is \<Longrightarrow> fst i \<noteq> -1"
proof (induction "text" arbitrary: "is" t)
  case (Cons c cs)
  obtain js u where js: "parse_letters optstring cs nxt = (js, u)" by fastforce
  have "strchr optstring c \<noteq> None \<Longrightarrow> schar c \<noteq> -1" using Cons.prems(1) strchr_mem by (auto simp: no_end_def)
  moreover have "schar CHR ''?'' \<noteq> -1" by code_simp
  ultimately show ?case using Cons js by (auto split: option.splits if_splits)
qed simp

lemma find_long_mem:
  "find_long lo name i ps pf ambig = (Some (j, p), ambig', exact) \<Longrightarrow> p \<in> set ps \<or> pf = Some (j, p)"
proof (induction ps arbitrary: i pf ambig)
  case (Cons q qs)
  then show ?case
    by (cases pf) (auto simp del: strcmp.simps dest!: Cons.IH split: if_splits, fastforce+)
qed simp

lemma name_no_end:
  assumes "no_end optstring longopts" "parse_name longopts text nxt = (i, t)"
  shows "fst i \<noteq> -1"
proof -
  obtain pfound ambig exact where f: "find_long False (takeWhile (\<lambda>c. c \<noteq> CHR ''='') text) 0 longopts None [] = (pfound, ambig, exact)"
    by (metis prod_cases3)
  have "schar CHR ''?'' \<noteq> -1" by code_simp
  moreover have "pfound = Some (j, p) \<Longrightarrow> lo_val p \<noteq> -1" for j p
    using find_long_mem f assms(1) by (fastforce simp: no_end_def)
  ultimately show ?thesis
    using assms(2) f by (auto simp: parse_name_def Let_def split: if_splits option.splits)
qed

text \<open>The calls that read the letters of one argument.\<close>

lemma getopt_loop_letters:
  assumes "plain_optstring optstring" "no_end optstring longopts" "take 1 (drop 1 arg) \<noteq> ''-''"
    and "inside H N arg text rest d1" "text \<noteq> []" "d_optarg d1 = None"
    and "getopt_long env optstring longopts d = option_step optstring longopts arg text d1"
    and "parse_letters optstring text (first_of rest) = (here, t)"
  shows "\<exists>d'. getopt_loop (getopt_long env optstring longopts) d =
      map_option (\<lambda>(cs, e). (here @ cs, e)) (getopt_loop (getopt_long env optstring longopts) d') \<and>
    between H N (arg # take (taking t) rest) (drop (taking t) rest) d'"
  using assms(4-)
proof (induction "text" arbitrary: d d1 here)
  case (Cons c cs)
  let ?step = "getopt_long env optstring longopts"
  note here = letters_no_end [OF assms(2) Cons.prems(5)]
  have step: "?step d = short_step (d_opterr d1) optstring (Some longopts) False c cs d1"
    using Cons.prems(4) assms(3) by (simp add: option_step_def)
  show ?case
  proof (cases "letter_plain optstring c")
    case True
    then obtain r a "is" where h: "here = (r, a) # is" using Cons.prems(5)
      by (auto simp: letter_plain_def split: option.splits if_splits prod.splits)
    from short_step_next [OF Cons.prems(1,3) assms(1) True Cons.prems(5) [unfolded h]] step
    obtain d2 where d2: "?step d = Some (r, d2)" "d_optarg d2 = a" "parse_letters optstring cs (first_of rest) = (is, t)"
      "if cs = [] then between H N [arg] rest d2 else inside H N arg cs rest d2" by auto
    have "r \<noteq> -1" using here h by fastforce
    note more = getopt_loop_more [of ?step d r d2, OF d2(1) this]
    show ?thesis
    proof (cases "cs = []")
      case True
      with d2 h more show ?thesis by (auto simp: taking_def)
    next
      case False
      then have i: "inside H N arg cs rest (d2\<lparr>d_optarg := None\<rparr>)" using d2(4) by simp
      have "?step d2 = option_step optstring longopts arg cs (d2\<lparr>d_optarg := None\<rparr>)"
        using internal_inside False d2(4) assms(1) by simp
      from Cons.IH [OF i False _ this d2(3)] obtain d' where d': "getopt_loop ?step d2 =
          map_option (\<lambda>(cs, e). (is @ cs, e)) (getopt_loop ?step d')"
        "between H N (arg # take (taking t) rest) (drop (taking t) rest) d'" by auto
      show ?thesis
        using more d'(2) h d2(2) unfolding d'(1) by (auto simp: option.map_comp o_def split_def)
    qed
  next
    case False
    from short_step_last [OF Cons.prems(1,3) assms(1) False Cons.prems(5)] step
    obtain d2 r a where d2: "?step d = Some (r, d2)" "here = [(r, a)]" "d_optarg d2 = a"
      "between H N (arg # take (taking t) rest) (drop (taking t) rest) d2" by fastforce
    moreover have "r \<noteq> -1" using here d2(2) by fastforce
    ultimately show ?thesis using getopt_loop_more [of ?step d r d2] by auto
  qed
qed simp

text \<open>The calls that read one argument with options.\<close>

lemma getopt_loop_element:
  assumes "plain_optstring optstring" "no_end optstring longopts"
    and "between H N K (S @ arg # rest) d" "\<forall>a \<in> set S. nonoption a" "\<not> nonoption arg" "arg \<noteq> ''--''"
    and "parse_element optstring longopts arg (first_of rest) = (here, t)"
  shows "\<exists>d'. getopt_loop (getopt_long env optstring longopts) d =
      map_option (\<lambda>(cs, e). (here @ cs, e)) (getopt_loop (getopt_long env optstring longopts) d') \<and>
    between (H @ K) (N @ S) (arg # take (taking t) rest) (drop (taking t) rest) d'"
proof -
  let ?step = "getopt_long env optstring longopts"
  let ?text = "drop (if take 2 arg = ''--'' then 2 else 1) arg"
  have b: "between H N K (S @ arg # rest) (d\<lparr>d_optarg := None\<rparr>)" using assms(3) by simp
  obtain d1 where d1: "advance True (d\<lparr>d_optarg := None\<rparr>) = Some (Inr d1)" "inside (H @ K) (N @ S) arg ?text rest d1"
    "d_optarg d1 = None" "d_opterr d1 = d_opterr d"
    using advance_at_option [OF b assms(4-6)] by auto
  note step = internal_between [OF assms(3) d1(1,4,2) assms(1), of env longopts]
  have dashes: "take 2 arg = ''--'' \<longleftrightarrow> take 1 (drop 1 arg) = ''-''" using assms(5) by (cases arg rule: nonoption.cases) auto
  have ne: "?text \<noteq> []" using assms(5,6) by (cases arg rule: nonoption.cases) (auto simp: take_Cons' split: if_splits)
  show ?thesis
  proof (cases "take 2 arg = ''--''")
    case True
    then obtain i where i: "parse_name longopts ?text (first_of rest) = (i, t)" "here = [i]"
      using assms(7) by (auto simp: parse_element_def split: prod.splits)
    obtain c a where ca: "i = (c, a)" by fastforce
    obtain d' where d': "long_step (d_opterr d1) optstring longopts False arg ?text d1 = Some (c, d')" "d_optarg d' = a"
      "between (H @ K) (N @ S) (arg # take (taking t) rest) (drop (taking t) rest) d'"
      using long_step_spec [OF d1(2,3) assms(1) i(1) [unfolded ca]] by auto
    have "?step d = Some (c, d')" using step d'(1) True dashes by (simp add: option_step_def)
    moreover have "c \<noteq> -1" using name_no_end [OF assms(2) i(1)] ca by simp
    ultimately show ?thesis using getopt_loop_more [of ?step d c d'] d'(2,3) i(2) ca by auto
  next
    case False
    then have "parse_letters optstring ?text (first_of rest) = (here, t)" using assms(7) by (simp add: parse_element_def)
    from getopt_loop_letters [OF assms(1,2) _ d1(2) ne d1(3) step this] False dashes show ?thesis by simp
  qed
qed

lemma getopt_loop_line:
  assumes "plain_optstring optstring" "no_end optstring longopts"
  shows "between H N K (S @ args) d \<Longrightarrow> \<forall>a \<in> set S. nonoption a \<Longrightarrow> parse_line optstring longopts args = (is, os, ps) \<Longrightarrow>
    \<exists>d'. getopt_loop (getopt_long env optstring longopts) d = Some (is, d') \<and> finished (H @ K @ os) (N @ S @ ps) d'"
proof (induction "length args" arbitrary: args H N K S d "is" os ps rule: less_induct)
  case less
  let ?step = "getopt_long env optstring longopts"
  have b: "between H N K (S @ args) (d\<lparr>d_optarg := None\<rparr>)" using less.prems(1) by simp
  have over: "getopt_loop ?step d = Some ([], d')" if "advance True (d\<lparr>d_optarg := None\<rparr>) = Some (Inl (-1, d'))" for d'
    by (subst getopt_loop.simps) (simp add: internal_done [OF less.prems(1) that assms(1)])
  show ?case
  proof (cases args)
    case Nil
    with advance_at_end [of H N K S "d\<lparr>d_optarg := None\<rparr>" True] b less.prems over show ?thesis by fastforce
  next
    case (Cons arg rest)
    consider "arg = ''--''" | "arg \<noteq> ''--''" "nonoption arg" | "arg \<noteq> ''--''" "\<not> nonoption arg" by blast
    then show ?thesis
    proof cases
      case 1
      with advance_at_dashes [of H N K S rest "d\<lparr>d_optarg := None\<rparr>" True] b Cons less.prems over show ?thesis by fastforce
    next
      case 2
      then obtain ps' where ps': "parse_line optstring longopts rest = (is, os, ps')" "ps = arg # ps'"
        using less.prems(3) Cons by (auto split: prod.splits)
      with less.hyps [of rest H N K "S @ [arg]" d "is" os ps'] less.prems Cons 2 show ?thesis by simp
    next
      case 3
      obtain here t where el: "parse_element optstring longopts arg (first_of rest) = (here, t)" by fastforce
      obtain is' os' where tail: "parse_line optstring longopts (drop (taking t) rest) = (is', os', ps)" "is = here @ is'"
        "os = arg # take (taking t) rest @ os'"
        using less.prems(3) 3 el unfolding Cons by (auto simp: Let_def taking_def split: prod.splits)
      obtain d' where d': "getopt_loop ?step d = map_option (\<lambda>(cs, e). (here @ cs, e)) (getopt_loop ?step d')"
        "between (H @ K) (N @ S) (arg # take (taking t) rest) (drop (taking t) rest) d'"
        using getopt_loop_element [OF assms less.prems(1) [unfolded Cons] less.prems(2) 3(2,1) el] by blast
      from less.hyps [of "drop (taking t) rest" "H @ K" "N @ S" "arg # take (taking t) rest" "[]" d' is' os' ps] d'(2) Cons tail
      show ?thesis unfolding d'(1) by auto
    qed
  qed
qed

text \<open>
  The first call on a command line: the parser has not been used yet, or \<open>optind\<close> has been set to 0, as \<open>list_command\<close>
  does; whatever the calls before have left, it starts again.
\<close>

definition fresh :: "string \<Rightarrow> string list \<Rightarrow> getopt_data \<Rightarrow> bool" where
  "fresh prog args d \<longleftrightarrow> d_argv d = prog # args \<and> (d_optind d = 0 \<or> d_optind d = 1 \<and> \<not> d_initialized d)"

lemma fresh_start [simp]: "fresh prog args (getopt_start (prog # args))"
  by (simp add: fresh_def getopt_start_def)

lemma getopt_loop_fresh:
  assumes "plain_optstring optstring" "no_end optstring longopts" "parse_line optstring longopts args = (is, os, ps)"
    and "fresh prog args d"
  shows "\<exists>d'. getopt_loop (getopt_long False optstring longopts) d = Some (is, d') \<and> finished (prog # os) ps d'"
proof -
  let ?step = "getopt_long False optstring longopts"
  let ?d = "d\<lparr>d_optind := 1, d_initialized := True, d_ordering := PERMUTE, d_first_nonopt := 1, d_last_nonopt := 1,
    d_nextchar := None, d_posixly_correct := False\<rparr>"
  have "between [prog] [] [] ([] @ args) ?d" using assms(4) by (simp add: between_def fresh_def)
  from getopt_loop_line [OF assms(1,2) this, where env = False] assms(3) obtain d' where d':
    "getopt_loop ?step ?d = Some (is, d')" "finished ([prog] @ os) ps d'" by auto
  have plain: "take 1 optstring \<noteq> ''-''" "take 1 optstring \<noteq> ''+''"
    using assms(1) by (auto simp: plain_optstring_def)
  have "getopt_initialize False False optstring
      (if d_optind (d\<lparr>d_optarg := None\<rparr>) = 0 then d\<lparr>d_optarg := None, d_optind := 1\<rparr> else d\<lparr>d_optarg := None\<rparr>) =
    (optstring, d\<lparr>d_optarg := None, d_optind := 1, d_ordering := PERMUTE, d_first_nonopt := 1, d_last_nonopt := 1,
      d_nextchar := None, d_posixly_correct := False\<rparr>)"
    using assms(4) plain by (cases d) (auto simp: getopt_initialize_def fresh_def Let_def)
  then have "?step d = ?step ?d"
    unfolding getopt_long_def getopt_internal_r_def Let_def using assms(4) plain
    by (cases d) (auto simp: fresh_def simp del: One_nat_def)
  then have "getopt_loop ?step d = getopt_loop ?step ?d"
    by (subst (1 2) getopt_loop.simps) simp
  with d' show ?thesis by auto
qed

text \<open>C30. The loop over the options of a command line gives the options from left to right with their arguments, and
  it leaves the argument vector permuted: the options with what they take, then the operands, \<open>optind\<close> at the first.\<close>

theorem getopt_permutes:
  assumes "plain_optstring optstring" "no_end optstring longopts" "parse_line optstring longopts args = (is, os, ps)"
    and "fresh prog args d"
  shows "\<exists>d'. getopt_loop (getopt_long False optstring longopts) d = Some (is, d') \<and>
    d_argv d' = prog # os @ ps \<and> d_optind d' = length (prog # os)"
  using getopt_loop_fresh [OF assms] by (auto simp: finished_def)

text \<open>The option string of \<open>deurlname\<close> is not needed for an example: \<open>-av x --out=y z -b w\<close>.\<close>

lemma getopt_permutes_witness:
  "\<exists>d. getopt_loop (getopt_long False ''avb:'' [\<lparr>lo_name = ''out'', lo_has_arg = Required_Arg, lo_flag = None, lo_val = 256\<rparr>])
        (getopt_start (''p'' # [''-av'', ''x'', ''--out=y'', ''z'', ''-b'', ''w''])) =
      Some ([(97, None), (118, None), (256, Some ''y''), (98, Some ''w'')], d) \<and>
    d_argv d = ''p'' # [''-av'', ''--out=y'', ''-b'', ''w''] @ [''x'', ''z''] \<and>
    d_optind d = length (''p'' # [''-av'', ''--out=y'', ''-b'', ''w''])"
  by (rule getopt_permutes [OF _ _ _ fresh_start]; code_simp)

end
