(* ===== verification/Command_Lines.thy ===== *)
theory Command_Lines
  imports Getopt_Spec Qcmd Deurlname
begin

text \<open>
  The command lines of the programs: the loops over \<open>getopt_long\<close> in \<open>main\<close> of \<open>qcmd.c\<close> and \<open>deurlname.c\<close>
  and in \<open>list_command\<close> of \<open>list.c\<close>, as the functions these take for the parsing, on the model of \<open>getopt.c\<close>.
  The variable \<open>POSIXLY_CORRECT\<close> is not set.
\<close>

subsection \<open>The tables\<close>

fun long_options :: "option_entry list \<Rightarrow> long_option list" where
  "long_options [] = []"
| "long_options (e # es) =
     (case opt_name e of
        None \<Rightarrow> []
      | Some n \<Rightarrow> \<lparr>lo_name = n, lo_has_arg = (if opt_argument e then Required_Arg else No_Arg), lo_flag = None,
                   lo_val = int (opt_val e)\<rparr> # long_options es)"

definition main_short_options :: string where
  "main_short_options = ''aABcdrRStuUXvf:o:e:i''"

definition ls_short_options :: string where
  "ls_short_options = ''aABcdrRStuUX''"

definition deurl_option_table :: "option_entry list" where
  "deurl_option_table =
     [\<lparr>opt_name = Some ''verbose'', opt_argument = False, opt_val = byte CHR ''v''\<rparr>,
      \<lparr>opt_name = Some ''version'', opt_argument = False, opt_val = DEURL_VERSION_OPT\<rparr>,
      \<lparr>opt_name = Some ''help'', opt_argument = False, opt_val = DEURL_HELP_OPT\<rparr>,
      \<lparr>opt_name = None, opt_argument = False, opt_val = 0\<rparr>]"

subsection \<open>The loop\<close>

text \<open>The programs stop at the first \<open>'?'\<close>; otherwise the operands are those from \<open>optind\<close> on.\<close>

definition collect :: "(int \<times> string option) list \<Rightarrow> string list \<Rightarrow> parsed_args" where
  "collect results operands =
     \<lparr>pa_options = map (\<lambda>(c, optarg). (nat c, case optarg of None \<Rightarrow> [] | Some a \<Rightarrow> a))
        (takeWhile (\<lambda>(c, _). c \<noteq> schar CHR ''?'') results),
      pa_error = list_ex (\<lambda>(c, _). c = schar CHR ''?'') results, pa_operands = operands\<rparr>"

definition run_getopt :: "string \<Rightarrow> option_entry list \<Rightarrow> getopt_data \<Rightarrow> parsed_args option" where
  "run_getopt optstring table d =
     do { (results, d) \<leftarrow> getopt_loop (getopt_long False optstring (long_options table)) d;
          Some (collect results (drop (d_optind d) (d_argv d))) }"

text \<open>What \<open>main\<close> and \<open>list_command\<close> parse: \<open>argv\<close> with the name of the program or the command.\<close>

definition program_getopt :: "option_entry list \<Rightarrow> string list \<Rightarrow> parsed_args" where
  "program_getopt table argv =
     (case run_getopt (if table = ls_option_table then ls_short_options else main_short_options) table (getopt_start argv) of
        None \<Rightarrow> collect [] [] | Some parsed \<Rightarrow> parsed)"

definition deurl_getopt :: "string list \<Rightarrow> parsed_args" where
  "deurl_getopt argv =
     (case run_getopt ''v'' deurl_option_table (getopt_start argv) of None \<Rightarrow> collect [] [] | Some parsed \<Rightarrow> parsed)"

definition program_library :: "(char \<Rightarrow> char) \<Rightarrow> (string \<Rightarrow> word_error + string list) \<Rightarrow> library" where
  "program_library lower we = \<lparr>lib_tolower = lower, lib_getopt = program_getopt, lib_wordexp = we\<rparr>"

subsection \<open>Reading them from left to right\<close>

definition read_arguments :: "string \<Rightarrow> option_entry list \<Rightarrow> string list \<Rightarrow> parsed_args" where
  "read_arguments optstring table args = (case parse_line optstring (long_options table) args of (is, _, ps) \<Rightarrow> collect is ps)"

lemma long_options_nonneg: "p \<in> set (long_options table) \<Longrightarrow> 0 \<le> lo_val p"
  by (induction table) (auto split: option.splits)

lemma no_end_tables: "\<forall>c \<in> set optstring. schar c \<noteq> -1 \<Longrightarrow> no_end optstring (long_options table)"
  using long_options_nonneg by (fastforce simp: no_end_def)

lemma run_getopt_fresh:
  assumes "plain_optstring optstring" "\<forall>c \<in> set optstring. schar c \<noteq> -1"
  shows "run_getopt optstring table (getopt_start (prog # args)) = Some (read_arguments optstring table args)"
proof -
  obtain "is" os ps where p: "parse_line optstring (long_options table) args = (is, os, ps)" by (metis prod_cases3)
  from getopt_loop_fresh [OF assms(1) no_end_tables [OF assms(2)] p fresh_start, of prog]
  show ?thesis using p by (auto simp: run_getopt_def read_arguments_def finished_def)
qed

text \<open>The option strings of the programs.\<close>

lemma option_strings:
  "plain_optstring main_short_options" "\<forall>c \<in> set main_short_options. schar c \<noteq> -1"
  "plain_optstring ls_short_options" "\<forall>c \<in> set ls_short_options. schar c \<noteq> -1"
  "plain_optstring ''v''" "\<forall>c \<in> set ''v''. schar c \<noteq> -1"
  by code_simp+

lemma main_table: "option_table \<noteq> ls_option_table"
  by code_simp

lemma program_getopt_main: "program_getopt option_table (prog # args) = read_arguments main_short_options option_table args"
  by (simp add: program_getopt_def main_table run_getopt_fresh option_strings)

lemma program_getopt_ls: "program_getopt ls_option_table (prog # args) = read_arguments ls_short_options ls_option_table args"
  by (simp add: program_getopt_def run_getopt_fresh option_strings)

lemma deurl_getopt_line: "deurl_getopt (prog # args) = read_arguments ''v'' deurl_option_table args"
  by (simp add: deurl_getopt_def run_getopt_fresh option_strings)

subsection \<open>Spellings\<close>

text \<open>An option with an argument may be written in four ways.\<close>

definition spellings :: "char \<Rightarrow> string \<Rightarrow> string \<Rightarrow> string list list" where
  "spellings short long arg =
     [[''-'' @ [short], arg], [''-'' @ [short] @ arg], [''--'' @ long, arg], [''--'' @ long @ ''='' @ arg]]"

definition spelled_options :: "(char \<times> string) set" where
  "spelled_options = {(CHR ''f'', ''format''), (CHR ''o'', ''options''), (CHR ''e'', ''editor'')}"

lemma spelled_letters:
  "strchr main_short_options CHR ''f'' = Some ''f:o:e:i''" "strchr main_short_options CHR ''o'' = Some ''o:e:i''"
  "strchr main_short_options CHR ''e'' = Some ''e:i''"
  by code_simp+

lemma spelled_names:
  "find_long False ''format'' 0 (long_options option_table) None [] =
     (Some (1, \<lparr>lo_name = ''format'', lo_has_arg = Required_Arg, lo_flag = None, lo_val = 102\<rparr>), [], True)"
  "find_long False ''options'' 0 (long_options option_table) None [] =
     (Some (2, \<lparr>lo_name = ''options'', lo_has_arg = Required_Arg, lo_flag = None, lo_val = 111\<rparr>), [], True)"
  "find_long False ''editor'' 0 (long_options option_table) None [] =
     (Some (3, \<lparr>lo_name = ''editor'', lo_has_arg = Required_Arg, lo_flag = None, lo_val = 101\<rparr>), [], True)"
  by code_simp+

lemma spelled_chars: "schar CHR ''f'' = 102" "schar CHR ''o'' = 111" "schar CHR ''e'' = 101"
  by code_simp+

lemma spelling_read:
  assumes "spelling \<in> set (spellings c name arg)" "arg \<noteq> []" "(c, name) \<in> spelled_options"
  shows "parse_line main_short_options (long_options option_table) (spelling @ args) =
    (case parse_line main_short_options (long_options option_table) args of
       (is, os, ps) \<Rightarrow> ((schar c, Some arg) # is, spelling @ os, ps))"
  using assms
  by (auto simp: spelled_options_def spellings_def parse_element_def parse_name_def first_of_def Let_def spelled_letters
      spelled_names spelled_chars split: prod.splits)

lemma spellings_agree:
  assumes "s1 \<in> set (spellings c name arg)" "s2 \<in> set (spellings c name arg)" "arg \<noteq> []" "(c, name) \<in> spelled_options"
  shows "program_getopt option_table (prog # s1 @ args) = program_getopt option_table (prog # s2 @ args)"
  by (simp add: program_getopt_main read_arguments_def spelling_read [OF assms(1,3,4)] spelling_read [OF assms(2,3,4)] split: prod.splits)



text \<open>Behind \<open>--\<close> every argument is the name of a file, also for \<open>deurlname\<close> and the command \<open>ls\<close>.\<close>

lemma dashes_end_options:
  "read_arguments optstring table (''--'' # names) = \<lparr>pa_options = [], pa_error = False, pa_operands = names\<rparr>"
  by (simp add: read_arguments_def collect_def)

lemma deurlname_after_dashes:
  "names \<noteq> [] \<Longrightarrow> deurl_main deurl_getopt rename (prog # ''--'' # names) w =
     after (defined (deurl_files rename False names strbuf_new w)) (\<lambda>(ns, ok, w). Inr (ns, if ok then 0 else 1, w))"
  by (simp add: deurl_main_def deurl_getopt_line dashes_end_options)

text \<open>An option that \<open>ls\<close> does not know ends the command and nothing is listed.\<close>

lemma unknown_option_error:
  assumes "strchr optstring c = None" "c \<noteq> CHR ''-''"
  shows "pa_error (read_arguments optstring table ((CHR ''-'' # c # cs) # args))"
  using assms by (auto simp: read_arguments_def collect_def parse_element_def split: prod.splits)

end
