(* ===== verification/Quotearg.thy ===== *)
theory Quotearg
  imports Quote "HOL-Library.Word"
begin

unbundle bit_operations_syntax

text \<open>
  \<open>src/gnulib-lib/quotearg.c\<close>: how names are quoted in the messages of the programs, and by \<open>ls\<close> in its output, which
  \<open>list.c\<close> reads.  The locale and the multibyte functions of the C library are a record of functions.  An argument is the
  list of its bytes; for \<open>SIZE_MAX\<close> these are the ones before the NUL.  A step in which \<open>mbrtowc\<close> claims more bytes than
  there are has no result.
\<close>

subsection \<open>Data\<close>

datatype quoting_style =
  Literal_Style | Shell_Style | Shell_Always_Style | C_Style | C_Maybe_Style | Escape_Style | Locale_Style | Clocale_Style
| Custom_Style

abbreviation QA_ELIDE_NULL_BYTES :: "32 word" where "QA_ELIDE_NULL_BYTES \<equiv> 1"
abbreviation QA_ELIDE_OUTER_QUOTES :: "32 word" where "QA_ELIDE_OUTER_QUOTES \<equiv> 2"
abbreviation QA_SPLIT_TRIGRAPHS :: "32 word" where "QA_SPLIT_TRIGRAPHS \<equiv> 4"

text \<open>\<open>quote_these_too\<close> is an array of 8 words.\<close>

record quoting_options =
  qo_style :: quoting_style
  qo_flags :: "32 word"
  qo_these_too :: "32 word list"
  qo_left_quote :: "string option"
  qo_right_quote :: "string option"

text \<open>What \<open>mbrtowc\<close> returns: 0, \<open>-1\<close>, \<open>-2\<close>, or a wide character with the number of its bytes and the new state.\<close>

datatype 'm mb_result = Mb_Null | Mb_Invalid | Mb_Incomplete | Mb_Char nat nat 'm

record 'm locale_env =
  le_unibyte :: bool
  le_isprint :: "char \<Rightarrow> bool"
  le_iswprint :: "nat \<Rightarrow> bool"
  le_start :: 'm
  le_mbrtowc :: "'m \<Rightarrow> string \<Rightarrow> 'm mb_result"
  le_mbsinit :: "'m \<Rightarrow> bool"
  le_gettext :: "string \<Rightarrow> string option"
  le_charset :: string

subsection \<open>Options\<close>

definition default_quoting_options :: quoting_options where
  "default_quoting_options = \<lparr>qo_style = Literal_Style, qo_flags = 0, qo_these_too = replicate 8 0,
     qo_left_quote = None, qo_right_quote = None\<rparr>"

definition quoting_style_args :: "string list" where
  "quoting_style_args =
     [''literal'', ''shell'', ''shell-always'', ''c'', ''c-maybe'', ''escape'', ''locale'', ''clocale'']"

definition quoting_style_vals :: "quoting_style list" where
  "quoting_style_vals =
     [Literal_Style, Shell_Style, Shell_Always_Style, C_Style, C_Maybe_Style, Escape_Style, Locale_Style, Clocale_Style]"

definition clone_quoting_options :: "quoting_options \<Rightarrow> quoting_options option \<Rightarrow> quoting_options" where
  "clone_quoting_options defaults oo = (case oo of None \<Rightarrow> defaults | Some q \<Rightarrow> q)"

definition get_quoting_style :: "quoting_options \<Rightarrow> quoting_style" where
  "get_quoting_style q = qo_style q"

definition set_quoting_style :: "quoting_options \<Rightarrow> quoting_style \<Rightarrow> quoting_options" where
  "set_quoting_style q s = q\<lparr>qo_style := s\<rparr>"

text \<open>The word of \<open>quote_these_too\<close> for a character, and its bit there.\<close>

definition too_word :: "char \<Rightarrow> nat" where
  "too_word c = byte c div 32"

definition too_shift :: "char \<Rightarrow> nat" where
  "too_shift c = byte c mod 32"

definition too_bit :: "32 word list \<Rightarrow> char \<Rightarrow> bool" where
  "too_bit these c \<longleftrightarrow> these ! too_word c AND push_bit (too_shift c) 1 \<noteq> 0"

definition set_char_quoting :: "quoting_options \<Rightarrow> char \<Rightarrow> 32 word \<Rightarrow> quoting_options \<times> 32 word" where
  "set_char_quoting q c i =
     (let p = qo_these_too q ! too_word c;
          r = drop_bit (too_shift c) p AND 1
      in (q\<lparr>qo_these_too := (qo_these_too q)[too_word c := p XOR push_bit (too_shift c) ((i AND 1) XOR r)]\<rparr>, r))"

definition set_quoting_flags :: "quoting_options \<Rightarrow> 32 word \<Rightarrow> quoting_options \<times> 32 word" where
  "set_quoting_flags q i = (q\<lparr>qo_flags := i\<rparr>, qo_flags q)"

text \<open>\<^const>\<open>None\<close>: the call of \<open>abort\<close>.\<close>

definition set_custom_quoting :: "quoting_options \<Rightarrow> string option \<Rightarrow> string option \<Rightarrow> quoting_options option" where
  "set_custom_quoting q left right =
     (if left = None \<or> right = None then None
      else Some (q\<lparr>qo_style := Custom_Style, qo_left_quote := left, qo_right_quote := right\<rparr>))"

definition quoting_options_from_style :: "quoting_style \<Rightarrow> quoting_options option" where
  "quoting_options_from_style style =
     (if style = Custom_Style then None else Some (default_quoting_options\<lparr>qo_style := style\<rparr>))"

text \<open>\<open>STRCASEEQ\<close> with a name in capitals, in ASCII.\<close>

definition ascii_upper :: "char \<Rightarrow> char" where
  "ascii_upper c = (if 97 \<le> byte c \<and> byte c \<le> 122 then char_of (byte c - 32) else c)"

definition strcaseeq :: "string \<Rightarrow> string \<Rightarrow> bool" where
  "strcaseeq s name \<longleftrightarrow> map ascii_upper s = name"

text \<open>The literal for the left quote in GB18030 is \<open>"\xa1\ae"\<close>: the byte A1, the character \<open>\a\<close>, and an \<open>e\<close>.\<close>

definition gettext_quote :: "'m locale_env \<Rightarrow> string \<Rightarrow> quoting_style \<Rightarrow> string" where
  "gettext_quote env msgid s =
     (case le_gettext env msgid of
        Some translation \<Rightarrow> translation
      | None \<Rightarrow>
          if strcaseeq (le_charset env) ''UTF-8'' then
            if hd msgid = CHR 0x60 then [CHR 0xE2, CHR 0x80, CHR 0x98] else [CHR 0xE2, CHR 0x80, CHR 0x99]
          else if strcaseeq (le_charset env) ''GB18030'' then
            if hd msgid = CHR 0x60 then [CHR 0xA1, CHR 0x07, CHR ''e''] else [CHR 0xA1, CHR 0xAF]
          else if s = Clocale_Style then [CHR 0x22] else [CHR 0x27])"

subsection \<open>The buffer\<close>

text \<open>\<open>STORE\<close>\<close>

definition store_byte :: "char \<Rightarrow> string \<times> nat \<Rightarrow> string \<times> nat" where
  "store_byte c sk = (case sk of (buffer, len) \<Rightarrow> (if len < length buffer then buffer[len := c] else buffer, len + 1))"

definition store_bytes :: "string \<Rightarrow> string \<times> nat \<Rightarrow> string \<times> nat" where
  "store_bytes cs sk = fold store_byte cs sk"

subsection \<open>The styles\<close>

text \<open>The first switch: the style, whether outer quotes are left out, whether there are escapes, the quotes and what is stored.\<close>

record quoting_mode =
  qm_style :: quoting_style
  qm_elide :: bool
  qm_backslash :: bool
  qm_quote :: "string option"
  qm_opening :: string
  qm_left :: "string option"
  qm_right :: "string option"

definition quoting_mode ::
  "'m locale_env \<Rightarrow> quoting_style \<Rightarrow> 32 word \<Rightarrow> string option \<Rightarrow> string option \<Rightarrow> quoting_mode option" where
  "quoting_mode env style flags left right =
     (let elide = (flags AND QA_ELIDE_OUTER_QUOTES \<noteq> 0);
          md = \<lparr>qm_style = style, qm_elide = elide, qm_backslash = False, qm_quote = None, qm_opening = [],
                qm_left = left, qm_right = right\<rparr>;
          quoted = (\<lambda>md l r. Some (md\<lparr>qm_backslash := True, qm_quote := Some r, qm_opening := if qm_elide md then [] else l,
            qm_left := Some l, qm_right := Some r\<rparr>))
      in case style of
           C_Maybe_Style \<Rightarrow> Some (md\<lparr>qm_style := C_Style, qm_elide := True, qm_backslash := True, qm_quote := Some [CHR 0x22]\<rparr>)
         | C_Style \<Rightarrow> Some (md\<lparr>qm_backslash := True, qm_quote := Some [CHR 0x22], qm_opening := if elide then [] else [CHR 0x22]\<rparr>)
         | Escape_Style \<Rightarrow> Some (md\<lparr>qm_elide := False, qm_backslash := True\<rparr>)
         | Locale_Style \<Rightarrow> quoted md (gettext_quote env [CHR 0x60] style) (gettext_quote env [CHR 0x27] style)
         | Clocale_Style \<Rightarrow> quoted md (gettext_quote env [CHR 0x60] style) (gettext_quote env [CHR 0x27] style)
         | Custom_Style \<Rightarrow> do { l \<leftarrow> left; r \<leftarrow> right; quoted md l r }
         | Shell_Style \<Rightarrow> Some (md\<lparr>qm_style := Shell_Always_Style, qm_elide := True, qm_quote := Some [CHR 0x27]\<rparr>)
         | Shell_Always_Style \<Rightarrow> Some (md\<lparr>qm_quote := Some [CHR 0x27], qm_opening := if elide then [] else [CHR 0x27]\<rparr>)
         | Literal_Style \<Rightarrow> Some (md\<lparr>qm_elide := False\<rparr>))"

subsection \<open>One character\<close>

text \<open>
  What the body of the loop does: it leaves for \<open>force_outer_quoting_style\<close>, or it goes on behind \<open>n\<close> more bytes
  with something stored.
\<close>

datatype restyled = Force | Emit nat string

text \<open>\<open>store_escape\<close>, and the test in front of it.\<close>

definition store_escape :: "bool \<Rightarrow> string \<Rightarrow> char \<Rightarrow> nat \<Rightarrow> restyled" where
  "store_escape elide out c n = (if elide then Force else Emit n (out @ [BS, c]))"

definition store_plain :: "quoting_mode \<Rightarrow> 32 word list option \<Rightarrow> bool \<Rightarrow> string \<Rightarrow> char \<Rightarrow> nat \<Rightarrow> restyled" where
  "store_plain md these is_right out c n =
     (if \<not> ((qm_backslash md \<or> qm_elide md) \<and> (case these of None \<Rightarrow> False | Some q \<Rightarrow> too_bit q c)) \<and> \<not> is_right
      then Emit n (out @ [c]) else store_escape (qm_elide md) out c n)"

definition shell_elided :: "quoting_mode \<Rightarrow> bool" where
  "shell_elided md \<longleftrightarrow> qm_style md = Shell_Always_Style \<and> qm_elide md"

definition starts_right_quote :: "quoting_mode \<Rightarrow> string \<Rightarrow> bool" where
  "starts_right_quote md rest \<longleftrightarrow>
     qm_backslash md \<and> (case qm_quote md of None \<Rightarrow> False | Some q \<Rightarrow> q \<noteq> [] \<and> take (length q) rest = q)"

text \<open>The letters of the escapes that \<open>c_escape\<close> and \<open>c_and_shell_escape\<close> make.\<close>

definition c_letter :: "char \<Rightarrow> char option" where
  "c_letter c =
     (if c = CHR 0x07 then Some CHR ''a'' else if c = CHR 0x08 then Some CHR ''b'' else if c = CHR 0x0C then Some CHR ''f''
      else if c = CHR 0x0A then Some CHR ''n'' else if c = CHR 0x0D then Some CHR ''r'' else if c = CHR 0x09 then Some CHR ''t''
      else if c = CHR 0x0B then Some CHR ''v'' else None)"

definition shell_control :: "char \<Rightarrow> bool" where
  "shell_control c \<longleftrightarrow> c \<in> {CHR 0x0A, CHR 0x0D, CHR 0x09}"

definition trigraph_ends :: string where
  "trigraph_ends = ''!'' @ [CHR 0x27] @ ''()-/<=>''"

definition shell_specials :: string where
  "shell_specials = '' !'' @ [CHR 0x22] @ ''$&()*;<=>[^'' @ [CHR 0x60] @ ''|''"

definition harmless :: string where
  "harmless = ''%+,-./0123456789:ABCDEFGHIJKLMNOPQRSTUVWXYZ]_abcdefghijklmnopqrstuvwxyz''"

subsection \<open>A multibyte sequence\<close>

definition old_shell_specials :: string where
  "old_shell_specials = ''['' @ [BS] @ ''^'' @ [CHR 0x60] @ ''|''"

text \<open>
  The \<open>do\<close> loop over the wide characters: \<^const>\<open>None\<close> in the result is the jump to \<open>force_outer_quoting_style\<close>;
  otherwise the number of bytes and whether all are printable.
\<close>

function multibyte ::
  "'m locale_env \<Rightarrow> quoting_mode \<Rightarrow> string \<Rightarrow> 'm \<Rightarrow> nat \<Rightarrow> bool \<Rightarrow> (nat \<times> bool) option option" where
  "multibyte env md rest st m printable =
     (case le_mbrtowc env st rest of
        Mb_Null \<Rightarrow> Some (Some (m, printable))
      | Mb_Invalid \<Rightarrow> Some (Some (m, False))
      | Mb_Incomplete \<Rightarrow> Some (Some (m + length (takeWhile (\<lambda>c. c \<noteq> NUL) rest), False))
      | Mb_Char w bytes st' \<Rightarrow>
          if bytes = 0 \<or> length rest < bytes then None
          else if shell_elided md \<and> list_ex (\<lambda>c. c \<in> set old_shell_specials) (drop 1 (take bytes rest)) then Some None
          else
            let printable = (printable \<and> le_iswprint env w) in
            if le_mbsinit env st' then Some (Some (m + bytes, printable))
            else multibyte env md (drop bytes rest) st' (m + bytes) printable)"
  by pat_completeness auto
termination
  by (relation "measure (\<lambda>(env, md, rest, st, m, printable). length rest)") auto

declare multibyte.simps [simp del]

text \<open>\<open>for (;;)\<close>: the bytes of the sequence, escaped or as they are.\<close>

definition octal_escape :: "char \<Rightarrow> string" where
  "octal_escape c = [BS, digit_char (byte c div 64), digit_char (byte c div 8 mod 8), digit_char (byte c mod 8)]"

definition sequence_bytes :: "quoting_mode \<Rightarrow> bool \<Rightarrow> bool \<Rightarrow> string \<Rightarrow> restyled" where
  "sequence_bytes md printable is_right cs =
     (if qm_backslash md \<and> \<not> printable then
        if qm_elide md then Force else Emit (length cs - 1) (concat (map octal_escape cs))
      else Emit (length cs - 1) ((if is_right then [BS] else []) @ cs))"

definition other_char ::
  "'m locale_env \<Rightarrow> quoting_mode \<Rightarrow> 32 word list option \<Rightarrow> bool \<Rightarrow> char \<Rightarrow> string \<Rightarrow> restyled option" where
  "other_char env md these is_right c rest =
     do { r \<leftarrow> (if le_unibyte env then Some (Some (1, le_isprint env c)) else multibyte env md (c # rest) (le_start env) 0 True);
          Some (case r of
            None \<Rightarrow> Force
          | Some (m, printable) \<Rightarrow>
              if 1 < m \<or> qm_backslash md \<and> \<not> printable
              then sequence_bytes md printable is_right (take (max m 1) (c # rest))
              else store_plain md these is_right [] c 0) }"

text \<open>The switch over the character \<open>c\<close>; \<open>first\<close> is \<open>i == 0\<close>.\<close>

definition restyle_char ::
  "'m locale_env \<Rightarrow> quoting_mode \<Rightarrow> 32 word \<Rightarrow> 32 word list option \<Rightarrow> bool \<Rightarrow> char \<Rightarrow> string \<Rightarrow> restyled option" where
  "restyle_char env md flags these first c rest =
     (let is_right = starts_right_quote md (c # rest);
          plain = store_plain md these is_right
      in if is_right \<and> qm_elide md then Some Force
         else if c = NUL then
           if qm_backslash md then
             if qm_elide md then Some Force
             else Some (plain (BS # (if rest \<noteq> [] \<and> is_digit (hd rest) then ''00'' else [])) CHR ''0'' 0)
           else if flags AND QA_ELIDE_NULL_BYTES \<noteq> 0 then Some (Emit 0 [])
           else Some (plain [] c 0)
         else if c = CHR ''?'' then
           if shell_elided md then Some Force
           else if qm_style md = C_Style \<and> flags AND QA_SPLIT_TRIGRAPHS \<noteq> 0 \<and> 2 \<le> length rest \<and> hd rest = CHR ''?'' \<and>
                   rest ! 1 \<in> set trigraph_ends
           then if qm_elide md then Some Force else Some (plain [CHR ''?'', CHR 0x22, CHR 0x22, CHR ''?''] (rest ! 1) 2)
           else Some (plain [] c 0)
         else if c_letter c \<noteq> None then
           if shell_control c \<and> shell_elided md then Some Force
           else if qm_backslash md then Some (store_escape (qm_elide md) [] (the (c_letter c)) 0)
           else Some (plain [] c 0)
         else if c = BS then
           if qm_backslash md \<and> qm_elide md \<and> qm_quote md \<noteq> None \<and> qm_quote md \<noteq> Some [] then Some (Emit 0 [c])
           else if shell_elided md then Some Force
           else if qm_backslash md then Some (store_escape (qm_elide md) [] c 0)
           else Some (plain [] c 0)
         else if c \<in> set shell_specials \<or> (c = CHR ''#'' \<or> c = CHR ''~'') \<and> first \<or>
                 (c = CHR 0x7B \<or> c = CHR 0x7D) \<and> first \<and> rest = [] then
           if shell_elided md then Some Force else Some (plain [] c 0)
         else if c \<in> set (''#~'' @ [CHR 0x7B, CHR 0x7D]) then Some (plain [] c 0)
         else if c = CHR 0x27 then
           if qm_style md = Shell_Always_Style then
             if qm_elide md then Some Force else Some (plain [CHR 0x27, BS, CHR 0x27] c 0)
           else Some (plain [] c 0)
         else if c \<in> set harmless then Some (plain [] c 0)
         else other_char env md these is_right c rest)"

text \<open>The loop: whether it leaves for \<open>force_outer_quoting_style\<close>, and what it has stored.\<close>

function restyle_loop ::
  "'m locale_env \<Rightarrow> quoting_mode \<Rightarrow> 32 word \<Rightarrow> 32 word list option \<Rightarrow> bool \<Rightarrow> string \<Rightarrow> (bool \<times> string) option" where
  "restyle_loop env md flags these first [] = Some (False, [])"
| "restyle_loop env md flags these first (c # rest) =
     do { r \<leftarrow> restyle_char env md flags these first c rest;
          case r of
            Force \<Rightarrow> Some (True, [])
          | Emit n out \<Rightarrow>
              do { (forced, more) \<leftarrow> restyle_loop env md flags these False (drop n rest); Some (forced, out @ more) } }"
  by pat_completeness auto
termination
  by (relation "measure (\<lambda>(env, md, flags, these, first, rest). length rest)") auto

subsection \<open>The whole\<close>

text \<open>One pass over the argument: again with outer quotes, or the buffer and the size.\<close>

definition restyle_pass ::
  "'m locale_env \<Rightarrow> quoting_mode \<Rightarrow> 32 word \<Rightarrow> 32 word list option \<Rightarrow> string \<Rightarrow> string \<Rightarrow> (bool \<times> string \<times> nat) option" where
  "restyle_pass env md flags these arg buffer =
     do { (forced, out) \<leftarrow> restyle_loop env md flags these True arg;
          let (buffer, len) = store_bytes (qm_opening md @ out) (buffer, 0);
          if forced \<or> len = 0 \<and> shell_elided md then Some (True, buffer, len)
          else
            let (buffer, len) = store_bytes (case qm_quote md of Some q \<Rightarrow> if qm_elide md then [] else q | None \<Rightarrow> []) (buffer, len)
            in Some (False, if len < length buffer then buffer[len := NUL] else buffer, len) }"

definition quotearg_buffer_restyled ::
  "'m locale_env \<Rightarrow> string \<Rightarrow> string \<Rightarrow> quoting_style \<Rightarrow> 32 word \<Rightarrow> 32 word list option \<Rightarrow> string option \<Rightarrow> string option
     \<Rightarrow> (string \<times> nat) option" where
  "quotearg_buffer_restyled env buffer arg style flags these left right =
     do { md \<leftarrow> quoting_mode env style flags left right;
          (forced, buffer, len) \<leftarrow> restyle_pass env md flags these arg buffer;
          if forced then
            do { md \<leftarrow> quoting_mode env (qm_style md) (flags AND NOT QA_ELIDE_OUTER_QUOTES) (qm_left md) (qm_right md);
                 (again, buffer, len) \<leftarrow> restyle_pass env md (flags AND NOT QA_ELIDE_OUTER_QUOTES) None arg buffer;
                 if again then None else Some (buffer, len) }
          else Some (buffer, len) }"

definition quotearg_buffer :: "'m locale_env \<Rightarrow> string \<Rightarrow> string \<Rightarrow> quoting_options \<Rightarrow> (string \<times> nat) option" where
  "quotearg_buffer env buffer arg q =
     quotearg_buffer_restyled env buffer arg (qo_style q) (qo_flags q) (Some (qo_these_too q)) (qo_left_quote q) (qo_right_quote q)"

end
