(* ===== verification/Quotearg_Slots.thy ===== *)
theory Quotearg_Slots
  imports Quotearg
begin

text \<open>
  The functions of \<open>quotearg.c\<close> that allocate their result or keep it in a numbered slot.  The buffers are a memory of
  blocks; \<open>slot0\<close> is the block 0.  What \<open>malloc\<close> leaves in a block is an argument.
\<close>

text \<open>\<open>sl_vec\<close> is the vector at \<open>slotvec\<close>: the size and the address of each slot; its length is \<open>nslots\<close>.\<close>

record slots =
  sl_mem :: "nat \<rightharpoonup> string"
  sl_next :: nat
  sl_vec :: "(nat \<times> nat option) list"

definition slots_start :: slots where
  "slots_start = \<lparr>sl_mem = [0 \<mapsto> replicate 256 NUL], sl_next = 1, sl_vec = [(256, Some 0)]\<rparr>"

subsection \<open>Allocated results\<close>

definition quotearg_alloc_mem ::
  "'m locale_env \<Rightarrow> char \<Rightarrow> string \<Rightarrow> bool \<Rightarrow> quoting_options \<Rightarrow> (string \<times> nat) option" where
  "quotearg_alloc_mem env garbage arg wants_size q =
     (let flags = qo_flags q OR (if wants_size then 0 else QA_ELIDE_NULL_BYTES);
          restyled = (\<lambda>buffer. quotearg_buffer_restyled env buffer arg (qo_style q) flags (Some (qo_these_too q))
            (qo_left_quote q) (qo_right_quote q))
      in do { (_, len) \<leftarrow> restyled [];
              (buf, _) \<leftarrow> restyled (replicate (len + 1) garbage);
              Some (buf, len) })"

definition quotearg_alloc :: "'m locale_env \<Rightarrow> char \<Rightarrow> string \<Rightarrow> quoting_options \<Rightarrow> string option" where
  "quotearg_alloc env garbage arg q = do { (buf, _) \<leftarrow> quotearg_alloc_mem env garbage arg False q; Some buf }"

subsection \<open>Slots\<close>

definition extend_slots :: "nat \<Rightarrow> slots \<Rightarrow> slots" where
  "extend_slots n S =
     (if length (sl_vec S) \<le> n then S\<lparr>sl_vec := sl_vec S @ replicate (n + 1 - length (sl_vec S)) (0, None)\<rparr> else S)"

definition slot_buffer :: "slots \<Rightarrow> nat option \<Rightarrow> string option" where
  "slot_buffer S val = (case val of None \<Rightarrow> Some [] | Some p \<Rightarrow> sl_mem S p)"

definition put_buffer :: "nat option \<Rightarrow> string \<Rightarrow> slots \<Rightarrow> slots" where
  "put_buffer val b S = (case val of None \<Rightarrow> S | Some p \<Rightarrow> S\<lparr>sl_mem := (sl_mem S)(p \<mapsto> b)\<rparr>)"

definition free_slot :: "nat option \<Rightarrow> slots \<Rightarrow> slots" where
  "free_slot val S = (case val of None \<Rightarrow> S | Some p \<Rightarrow> if p = 0 then S else S\<lparr>sl_mem := (sl_mem S)(p := None)\<rparr>)"

text \<open>The result is the address of the text.  A negative slot is the call of \<open>abort\<close>.\<close>

definition quotearg_n_options ::
  "'m locale_env \<Rightarrow> char \<Rightarrow> int \<Rightarrow> string \<Rightarrow> quoting_options \<Rightarrow> slots \<Rightarrow> (nat option \<times> slots) option" where
  "quotearg_n_options env garbage n arg q S =
     (if n < 0 then None
      else
        let S = extend_slots (nat n) S;
            (size, val) = sl_vec S ! nat n;
            flags = qo_flags q OR QA_ELIDE_NULL_BYTES;
            restyled = (\<lambda>buffer. quotearg_buffer_restyled env buffer arg (qo_style q) flags (Some (qo_these_too q))
              (qo_left_quote q) (qo_right_quote q))
        in do {
          old \<leftarrow> slot_buffer S val;
          (buffer, qsize) \<leftarrow> restyled old;
          let S = put_buffer val buffer S;
          if size \<le> qsize then
            do { let S = free_slot val S; let p = sl_next S;
                 (buffer, _) \<leftarrow> restyled (replicate (qsize + 1) garbage);
                 Some (Some p, S\<lparr>sl_mem := (sl_mem S)(p \<mapsto> buffer), sl_next := p + 1,
                                 sl_vec := (sl_vec S)[nat n := (qsize + 1, Some p)]\<rparr>) }
          else Some (val, S) })"

definition quotearg_free :: "slots \<Rightarrow> slots" where
  "quotearg_free S = fold (\<lambda>(size, val). free_slot val) (sl_vec S) S\<lparr>sl_vec := [(256, Some 0)]\<rparr>"

subsection \<open>The interfaces\<close>

text \<open>\<open>defaults\<close> is \<open>default_quoting_options\<close> at the time of the call.\<close>

definition quotearg_n :: "'m locale_env \<Rightarrow> char \<Rightarrow> quoting_options \<Rightarrow> int \<Rightarrow> string \<Rightarrow> slots \<Rightarrow> (nat option \<times> slots) option" where
  "quotearg_n env garbage defaults n arg = quotearg_n_options env garbage n arg defaults"

definition quotearg :: "'m locale_env \<Rightarrow> char \<Rightarrow> quoting_options \<Rightarrow> string \<Rightarrow> slots \<Rightarrow> (nat option \<times> slots) option" where
  "quotearg env garbage defaults arg = quotearg_n env garbage defaults 0 arg"

definition quotearg_n_style ::
  "'m locale_env \<Rightarrow> char \<Rightarrow> int \<Rightarrow> quoting_style \<Rightarrow> string \<Rightarrow> slots \<Rightarrow> (nat option \<times> slots) option" where
  "quotearg_n_style env garbage n s arg S =
     do { q \<leftarrow> quoting_options_from_style s; quotearg_n_options env garbage n arg q S }"

definition quotearg_style :: "'m locale_env \<Rightarrow> char \<Rightarrow> quoting_style \<Rightarrow> string \<Rightarrow> slots \<Rightarrow> (nat option \<times> slots) option" where
  "quotearg_style env garbage s arg = quotearg_n_style env garbage 0 s arg"

definition quotearg_char ::
  "'m locale_env \<Rightarrow> char \<Rightarrow> quoting_options \<Rightarrow> string \<Rightarrow> char \<Rightarrow> slots \<Rightarrow> (nat option \<times> slots) option" where
  "quotearg_char env garbage defaults arg ch =
     quotearg_n_options env garbage 0 arg (fst (set_char_quoting defaults ch 1))"

definition quotearg_colon :: "'m locale_env \<Rightarrow> char \<Rightarrow> quoting_options \<Rightarrow> string \<Rightarrow> slots \<Rightarrow> (nat option \<times> slots) option" where
  "quotearg_colon env garbage defaults arg = quotearg_char env garbage defaults arg CHR '':''"

definition quotearg_n_custom ::
  "'m locale_env \<Rightarrow> char \<Rightarrow> quoting_options \<Rightarrow> int \<Rightarrow> string option \<Rightarrow> string option \<Rightarrow> string \<Rightarrow> slots
     \<Rightarrow> (nat option \<times> slots) option" where
  "quotearg_n_custom env garbage defaults n left right arg S =
     do { q \<leftarrow> set_custom_quoting defaults left right; quotearg_n_options env garbage n arg q S }"

definition quotearg_custom ::
  "'m locale_env \<Rightarrow> char \<Rightarrow> quoting_options \<Rightarrow> string option \<Rightarrow> string option \<Rightarrow> string \<Rightarrow> slots \<Rightarrow> (nat option \<times> slots) option" where
  "quotearg_custom env garbage defaults left right arg = quotearg_n_custom env garbage defaults 0 left right arg"

definition quote_quoting_options :: quoting_options where
  "quote_quoting_options = default_quoting_options\<lparr>qo_style := Locale_Style\<rparr>"

definition quote_n :: "'m locale_env \<Rightarrow> char \<Rightarrow> int \<Rightarrow> string \<Rightarrow> slots \<Rightarrow> (nat option \<times> slots) option" where
  "quote_n env garbage n name = quotearg_n_options env garbage n name quote_quoting_options"

definition quote_name :: "'m locale_env \<Rightarrow> char \<Rightarrow> string \<Rightarrow> slots \<Rightarrow> (nat option \<times> slots) option" where
  "quote_name env garbage name = quote_n env garbage 0 name"

end
