(* ===== verification/Quotearg_Spec.thy ===== *)
theory Quotearg_Spec
  imports Quotearg_Slots
begin

text \<open>
  What \<open>quotearg.c\<close> promises: the text that a style makes of an argument, whatever the size of the buffer, and that a
  shell or a reader of C escapes gets the argument back.
\<close>

subsection \<open>Storing\<close>

lemma store_bytes_append: "store_bytes (xs @ ys) sk = store_bytes ys (store_bytes xs sk)"
  by (simp add: store_bytes_def)

lemma store_bytes_len [simp]: "snd (store_bytes cs sk) = snd sk + length cs"
  by (induction cs arbitrary: sk) (auto simp: store_bytes_def store_byte_def split: prod.splits)

lemma store_bytes_length [simp]: "length (fst (store_bytes cs sk)) = length (fst sk)"
  by (induction cs arbitrary: sk) (auto simp: store_bytes_def store_byte_def split: prod.splits)

lemma store_bytes_take:
  "take (len + length cs) (fst (store_bytes cs (b, len))) = take (length b) (take len b @ cs)"
proof (induction cs arbitrary: b len)
  case (Cons c cs)
  show ?case
  proof (cases "len < length b")
    case True
    then have "take (Suc len) (b[len := c]) = take len b @ [c]"
      by (simp add: take_Suc_conv_app_nth)
    then show ?thesis using Cons.IH [of "Suc len" "b[len := c]"] True by (simp add: store_bytes_def store_byte_def)
  next
    case False
    then show ?thesis using Cons.IH [of "Suc len" b] by (simp add: store_bytes_def store_byte_def)
  qed
qed (simp add: store_bytes_def min_def)

text \<open>The text of a pass: again with outer quotes, or what is stored in all.\<close>

definition closing_quote :: "quoting_mode \<Rightarrow> string" where
  "closing_quote md = (case qm_quote md of Some q \<Rightarrow> if qm_elide md then [] else q | None \<Rightarrow> [])"

definition pass_text ::
  "'m locale_env \<Rightarrow> quoting_mode \<Rightarrow> 32 word \<Rightarrow> 32 word list option \<Rightarrow> string \<Rightarrow> string option option" where
  "pass_text env md flags these arg =
     do { (forced, out) \<leftarrow> restyle_loop env md flags these True arg;
          Some (if forced \<or> qm_opening md @ out = [] \<and> shell_elided md then None
                else Some (qm_opening md @ out @ closing_quote md)) }"

definition quoted_text ::
  "'m locale_env \<Rightarrow> quoting_style \<Rightarrow> 32 word \<Rightarrow> 32 word list option \<Rightarrow> string option \<Rightarrow> string option \<Rightarrow> string
     \<Rightarrow> string option" where
  "quoted_text env style flags these left right arg =
     do { md \<leftarrow> quoting_mode env style flags left right;
          r \<leftarrow> pass_text env md flags these arg;
          case r of
            Some t \<Rightarrow> Some t
          | None \<Rightarrow>
              do { md \<leftarrow> quoting_mode env (qm_style md) (flags AND NOT QA_ELIDE_OUTER_QUOTES) (qm_left md) (qm_right md);
                   r \<leftarrow> pass_text env md (flags AND NOT QA_ELIDE_OUTER_QUOTES) None arg;
                   r } }"

text \<open>The bytes of the buffer: the text and its NUL, cut off where the buffer ends.\<close>

definition holds_text :: "string \<Rightarrow> string \<Rightarrow> string \<Rightarrow> bool" where
  "holds_text buffer t buffer' \<longleftrightarrow> length buffer' = length buffer \<and> take (length t + 1) buffer' = take (length buffer) (t @ [NUL])"

lemma holds_text_final:
  "fst (store_bytes t (buffer, 0)) = b \<Longrightarrow> holds_text buffer t (if length t < length b then b[length t := NUL] else b)"
  using store_bytes_take [of 0 t buffer] store_bytes_length [of t "(buffer, 0)"]
  by (auto simp: holds_text_def take_Suc_conv_app_nth)

lemma store_bytes_pair: "store_bytes cs (b, len) = (fst (store_bytes cs (b, len)), len + length cs)"
  using store_bytes_len [of cs "(b, len)"] by (metis prod.collapse snd_conv)

lemma restyle_pass_text:
  assumes "pass_text env md flags these arg = Some r"
  shows "\<exists>buffer' len. restyle_pass env md flags these arg buffer = Some (r = None, buffer', len) \<and> length buffer' = length buffer \<and>
    (\<forall>t. r = Some t \<longrightarrow> len = length t \<and> holds_text buffer t buffer')"
proof -
  obtain forced out where out: "restyle_loop env md flags these True arg = Some (forced, out)"
    using assms by (auto simp: pass_text_def bind_eq_Some_conv)
  let ?open = "qm_opening md @ out"
  obtain b where b: "store_bytes ?open (buffer, 0) = (b, length ?open)" "length b = length buffer"
    using store_bytes_pair [of ?open buffer 0] store_bytes_length [of ?open "(buffer, 0)"] by (metis add_0 fst_conv)
  show ?thesis
  proof (cases "forced \<or> ?open = [] \<and> shell_elided md")
    case True
    then have r: "r = None" using assms out by (simp add: pass_text_def)
    show ?thesis using True out b r by (auto simp: restyle_pass_def)
  next
    case False
    let ?t = "?open @ closing_quote md"
    have r: "r = Some ?t" using assms out False by (auto simp: pass_text_def)
    obtain b' where b': "store_bytes (closing_quote md) (b, length ?open) = (b', length ?t)" "length b' = length buffer"
      using store_bytes_pair [of "closing_quote md" b "length ?open"] store_bytes_length [of "closing_quote md" "(b, length ?open)"] b(2)
      by (metis fst_conv length_append)
    have "fst (store_bytes ?t (buffer, 0)) = b'"
      using b b' by (simp add: store_bytes_append)
    from holds_text_final [OF this] show ?thesis
      using False out b b' r by (auto simp: restyle_pass_def closing_quote_def [symmetric])
  qed
qed

text \<open>Whatever the size of the buffer, the size of the whole text is returned, and as much of it as there is room for is there.\<close>

lemma restyled_text:
  assumes "quoted_text env style flags these left right arg = Some t"
  shows "\<exists>buffer'. quotearg_buffer_restyled env buffer arg style flags these left right = Some (buffer', length t) \<and>
    holds_text buffer t buffer'"
proof -
  obtain md r where md: "quoting_mode env style flags left right = Some md" "pass_text env md flags these arg = Some r"
    using assms by (auto simp: quoted_text_def bind_eq_Some_conv)
  obtain b len where b: "restyle_pass env md flags these arg buffer = Some (r = None, b, len)" "length b = length buffer"
    "\<And>t. r = Some t \<Longrightarrow> len = length t \<and> holds_text buffer t b"
    using restyle_pass_text [OF md(2), of buffer] by auto
  show ?thesis
  proof (cases r)
    case (Some u)
    then show ?thesis using assms md b by (auto simp: quoted_text_def quotearg_buffer_restyled_def)
  next
    case None
    obtain md' r' where md': "quoting_mode env (qm_style md) (flags AND NOT QA_ELIDE_OUTER_QUOTES) (qm_left md) (qm_right md) = Some md'"
      "pass_text env md' (flags AND NOT QA_ELIDE_OUTER_QUOTES) None arg = Some r'" "r' = Some t"
      using assms md None by (auto simp: quoted_text_def bind_eq_Some_conv)
    obtain b' len' where b': "restyle_pass env md' (flags AND NOT QA_ELIDE_OUTER_QUOTES) None arg b = Some (False, b', len')"
      "len' = length t" "holds_text b t b'"
      using restyle_pass_text [OF md'(2), of b] md'(3) by auto
    then show ?thesis using md b md' None by (auto simp: quotearg_buffer_restyled_def holds_text_def)
  qed
qed

subsection \<open>The locale\<close>

text \<open>
  What the C library promises in the locales in use, which have no shift states: a character has the bytes it is said to
  have, and the bytes of longer ones are not ASCII.
\<close>

definition locale_ok :: "'m locale_env \<Rightarrow> bool" where
  "locale_ok env \<longleftrightarrow>
     (\<forall>st rest. case le_mbrtowc env st rest of
        Mb_Char w n st' \<Rightarrow> 0 < n \<and> n \<le> length rest \<and> le_mbsinit env st' \<and> (1 < n \<longrightarrow> (\<forall>c \<in> set (take n rest). 128 \<le> byte c))
      | Mb_Incomplete \<Rightarrow> \<forall>c \<in> set (takeWhile (\<lambda>c. c \<noteq> NUL) rest). 128 \<le> byte c
      | _ \<Rightarrow> True)"

lemma multibyte_start:
  assumes "locale_ok env"
  shows "\<exists>r. multibyte env md rest st 0 True = Some r \<and> (r = None \<longrightarrow> shell_elided md) \<and>
    (\<forall>m p. r = Some (m, p) \<longrightarrow> m \<le> length rest \<and> (1 < m \<longrightarrow> (\<forall>c \<in> set (take m rest). 128 \<le> byte c)))"
proof -
  have ok: "case le_mbrtowc env st rest of
        Mb_Char w n st' \<Rightarrow> 0 < n \<and> n \<le> length rest \<and> le_mbsinit env st' \<and> (1 < n \<longrightarrow> (\<forall>c \<in> set (take n rest). 128 \<le> byte c))
      | Mb_Incomplete \<Rightarrow> \<forall>c \<in> set (takeWhile (\<lambda>c. c \<noteq> NUL) rest). 128 \<le> byte c
      | _ \<Rightarrow> True"
    using assms by (simp add: locale_ok_def)
  have "take (length (takeWhile (\<lambda>c. c \<noteq> NUL) rest)) rest = takeWhile (\<lambda>c. c \<noteq> NUL) rest"
    by (rule takeWhile_eq_take [symmetric])
  with ok show ?thesis
    by (subst multibyte.simps) (auto simp: length_takeWhile_le split: mb_result.splits)
qed

text \<open>The four outcomes for a character without a case of its own.\<close>

lemma other_char_cases:
  assumes "locale_ok env"
  obtains (force) "other_char env md these is_right c rest = Some Force" "qm_elide md"
  | (octal) n where "other_char env md these is_right c rest = Some (Emit n (concat (map octal_escape (take (Suc n) (c # rest)))))"
      "n \<le> length rest" "qm_backslash md" "\<not> qm_elide md"
  | (bytes) n where "other_char env md these is_right c rest = Some (Emit n ((if is_right then [BS] else []) @ take (Suc n) (c # rest)))"
      "n \<le> length rest" "\<forall>d \<in> set (take (Suc n) (c # rest)). 128 \<le> byte d"
  | (plain) "other_char env md these is_right c rest = Some (store_plain md these is_right [] c 0)"
proof -
  let ?start = "if le_unibyte env then Some (Some (1, le_isprint env c)) else multibyte env md (c # rest) (le_start env) 0 True"
  obtain r where r: "?start = Some r" "r = None \<longrightarrow> shell_elided md"
    "\<forall>m p. r = Some (m, p) \<longrightarrow> m \<le> length (c # rest) \<and> (1 < m \<longrightarrow> (\<forall>c \<in> set (take m (c # rest)). 128 \<le> byte c))"
    using multibyte_start [OF assms, of md "c # rest" "le_start env"] by (cases "le_unibyte env") auto
  show thesis
  proof (cases r)
    case None
    then show thesis using r force by (auto simp: other_char_def shell_elided_def)
  next
    case (Some mp)
    obtain m p where mp: "r = Some (m, p)" using Some by (cases mp) auto
    have "Suc (max m 1 - 1) = max m 1" "max m 1 - 1 \<le> length rest" using r(3) mp by (auto simp: max_def)
    then obtain n where n: "max m 1 = Suc n" "n \<le> length rest" by metis
    show thesis
    proof (cases "1 < m \<or> qm_backslash md \<and> \<not> p")
      case False
      then have "\<not> 1 < m" "\<not> (qm_backslash md \<and> \<not> p)" by auto
      then show thesis using r(1) mp by (intro plain) (auto simp: other_char_def)
    next
      case seq: True
      then have s: "other_char env md these is_right c rest = Some (sequence_bytes md p is_right (take (Suc n) (c # rest)))"
        using r(1) mp n(1) by (simp add: other_char_def)
      have len: "length (take (Suc n) (c # rest)) - 1 = n" using n(2) by simp
      show thesis
      proof (cases "qm_backslash md \<and> \<not> p")
        case True
        then have s': "other_char env md these is_right c rest =
            Some (if qm_elide md then Force else Emit n (concat (map octal_escape (take (Suc n) (c # rest)))))"
          using s len by (simp add: sequence_bytes_def)
        show thesis
        proof (cases "qm_elide md")
          case True
          with s' show thesis by (intro force) simp_all
        next
          case False
          with s' n(2) \<open>qm_backslash md \<and> \<not> p\<close> show thesis by (intro octal [of n]) simp_all
        qed
      next
        case False
        then have "1 < m" "Suc n = m" using seq n(1) by auto
        then show thesis
          using s n(2) False len r(3) mp by (intro bytes [of n]) (simp_all add: sequence_bytes_def)
      qed
    qed
  qed
qed

subsection \<open>Reading the text\<close>

text \<open>If what is stored for each character reads back as it, so does what the loop stores.\<close>

lemma restyle_loop_reads:
  assumes step: "\<And>first c rest. P (c # rest) \<Longrightarrow> \<exists>n out. restyle_char env md flags these first c rest = Some (Emit n out) \<and>
      n \<le> length rest \<and> P (drop n rest) \<and> (\<forall>d \<in> set out. Q d) \<and> length out \<le> 4 * Suc n \<and>
      (\<forall>tail res. D (out @ tail) res = D tail (res @ take (Suc n) (c # rest)))"
  shows "P rest \<Longrightarrow> \<exists>out. restyle_loop env md flags these first rest = Some (False, out) \<and> (\<forall>d \<in> set out. Q d) \<and>
    length out \<le> 4 * length rest \<and> (\<forall>tail res. D (out @ tail) res = D tail (res @ rest))"
proof (induction "length rest" arbitrary: rest first rule: less_induct)
  case less
  show ?case
  proof (cases rest)
    case (Cons c cs)
    obtain n out where n: "restyle_char env md flags these first c cs = Some (Emit n out)" "n \<le> length cs" "P (drop n cs)" "\<forall>d \<in> set out. Q d" "length out \<le> 4 * Suc n"
      "\<And>tail res. D (out @ tail) res = D tail (res @ take (Suc n) (c # cs))"
      using step [of c cs first] less.prems Cons by auto
    have "length (drop n cs) < length rest" using Cons by simp
    from less.hyps [OF this n(3), of False] obtain out' where
      "restyle_loop env md flags these False (drop n cs) = Some (False, out')" "\<forall>d \<in> set out'. Q d" "length out' \<le> 4 * length (drop n cs)"
      "\<forall>tail res. D (out' @ tail) res = D tail (res @ drop n cs)" by blast
    then show ?thesis using n(1,2,4,5,6) Cons by auto
  qed simp
qed

subsection \<open>C strings\<close>

text \<open>Characters that may be given a backslash: the reader takes it off again.\<close>

definition may_escape :: "32 word list option \<Rightarrow> bool" where
  "may_escape these \<longleftrightarrow> (\<forall>q c. these = Some q \<longrightarrow> too_bit q c \<longrightarrow> \<not> is_octal_digit c \<and> char_pos c_abbrevs c = None)"

text \<open>What stays on one line of the output.\<close>

definition line_char :: "char \<Rightarrow> bool" where
  "line_char c \<longleftrightarrow> c \<noteq> NUL \<and> c \<noteq> CHR 0x0A"

lemma line_char_BS [simp]: "line_char BS"
  unfolding line_char_def by simp

lemma line_char_letter: "c_letter c = Some d \<Longrightarrow> line_char d"
  by (auto simp: c_letter_def line_char_def split: if_splits)

lemma line_char_octal: "d \<in> set (octal_escape c) \<Longrightarrow> line_char d"
proof -
  have "line_char (digit_char k)" if "k < 8" for k
  proof -
    have "byte (digit_char k) = 48 + k" using that by (simp add: byte_digit_char)
    moreover have "byte CHR 0x0A = 10" by code_simp
    ultimately show ?thesis by (auto simp: line_char_def)
  qed
  then show "d \<in> set (octal_escape c) \<Longrightarrow> ?thesis" using octal3_range [of c] by (auto simp: octal_escape_def)
qed

lemma line_char_high: "128 \<le> byte c \<Longrightarrow> line_char c"
proof -
  have "byte CHR 0x0A = 10" by code_simp
  then show "128 \<le> byte c \<Longrightarrow> ?thesis" by (auto simp: line_char_def)
qed

lemma dequote_escaped:
  "\<not> is_octal_digit c \<Longrightarrow> char_pos c_abbrevs c = None \<Longrightarrow> c \<noteq> NUL \<Longrightarrow> dequote_loop (BS # c # tail) res = dequote_loop tail (res @ [c])"
  by (simp add: append_char_def)

lemma dequote_letter: "c_letter c = Some d \<Longrightarrow> dequote_loop (BS # d # tail) res = dequote_loop tail (res @ [c])"
proof -
  have "\<forall>c \<in> set [CHR 0x07, CHR 0x08, CHR 0x0C, CHR 0x0A, CHR 0x0D, CHR 0x09, CHR 0x0B].
      case c_letter c of None \<Rightarrow> False
      | Some d \<Rightarrow> \<not> is_octal_digit d \<and> (case char_pos c_abbrevs d of None \<Rightarrow> False | Some i \<Rightarrow> char_of (7 + i) = c \<and> c \<noteq> NUL)"
    by code_simp
  moreover assume c: "c_letter c = Some d"
  then have "c \<in> set [CHR 0x07, CHR 0x08, CHR 0x0C, CHR 0x0A, CHR 0x0D, CHR 0x09, CHR 0x0B]"
    by (auto simp: c_letter_def split: if_splits)
  ultimately show ?thesis using c by (fastforce simp: append_char_def split: option.splits)
qed

lemma dequote_octal: "c \<noteq> NUL \<Longrightarrow> dequote_loop (octal_escape c @ tail) res = dequote_loop tail (res @ [c])"
proof -
  have "is_octal_digit d" if "d \<in> set (octal3 c)" for d
    using that digit_char_octal octal3_range [of c] by (auto simp: octal3_def)
  then show "c \<noteq> NUL \<Longrightarrow> ?thesis"
    by (auto simp: octal_escape_def octal3_def octal3_back append_char_def)
qed

lemma octal_escapes_length: "length (concat (map octal_escape cs)) = 4 * length cs"
  by (induction cs) (simp_all add: octal_escape_def)

lemma dequote_octals:
  "cstr cs \<Longrightarrow> dequote_loop (concat (map octal_escape cs) @ tail) res = dequote_loop tail (res @ cs)"
  by (induction cs arbitrary: res) (simp_all add: dequote_octal)

lemma dequote_bytes:
  "BS \<notin> set cs \<Longrightarrow> cstr cs \<Longrightarrow> dequote_loop (cs @ tail) res = dequote_loop tail (res @ cs)"
  by (induction cs arbitrary: res) (auto simp: append_char_def)

lemma high_no_BS: "\<forall>d \<in> set cs. 128 \<le> byte d \<Longrightarrow> BS \<notin> set cs"
proof -
  have "byte BS < 128" by code_simp
  then show "\<forall>d \<in> set cs. 128 \<le> byte d \<Longrightarrow> BS \<notin> set cs" by auto
qed

lemma cstr_take: "cstr s \<Longrightarrow> cstr (take n s)" and cstr_drop: "cstr s \<Longrightarrow> cstr (drop n s)"
  by (auto simp: cstr_def dest: in_set_takeD in_set_dropD)

text \<open>The mode of the style \<open>c\<close> with its quotes.\<close>

definition c_mode :: "quoting_mode \<Rightarrow> bool" where
  "c_mode md \<longleftrightarrow> qm_style md = C_Style \<and> \<not> qm_elide md \<and> qm_backslash md \<and> qm_quote md = Some [CHR 0x22]"

lemma store_plain_reads:
  assumes "c_mode md" "may_escape these" "c \<noteq> NUL" "is_right \<longrightarrow> \<not> is_octal_digit c \<and> char_pos c_abbrevs c = None" "c \<noteq> BS"
    and "c_letter c = None"
  shows "\<exists>out. store_plain md these is_right [] c n = Emit n out \<and> (\<forall>d \<in> set out. line_char d) \<and> length out \<le> 4 \<and>
    (\<forall>tail res. dequote_loop (out @ tail) res = dequote_loop tail (res @ [c]))"
proof -
  have line: "line_char c" using assms(3,6) by (auto simp: c_letter_def line_char_def)
  show ?thesis
proof (cases "((qm_backslash md \<or> qm_elide md) \<and> (case these of None \<Rightarrow> False | Some q \<Rightarrow> too_bit q c)) \<or> is_right")
  case True
  then have "\<not> is_octal_digit c" "char_pos c_abbrevs c = None"
    using assms(2,4) by (auto simp: may_escape_def split: option.splits)
  with True assms line dequote_escaped show ?thesis by (auto simp: store_plain_def store_escape_def c_mode_def)
next
  case False
  with assms line dequote_bytes [of "[c]"] show ?thesis by (auto simp: store_plain_def cstr_def)
qed
qed

lemma c_char_reads:
  assumes "locale_ok env" "c_mode md" "flags AND QA_SPLIT_TRIGRAPHS = 0" "may_escape these" "cstr (c # rest)"
  shows "\<exists>n out. restyle_char env md flags these first c rest = Some (Emit n out) \<and> n \<le> length rest \<and> cstr (drop n rest) \<and>
    (\<forall>d \<in> set out. line_char d) \<and> length out \<le> 4 * Suc n \<and> (\<forall>tail res. dequote_loop (out @ tail) res = dequote_loop tail (res @ take (Suc n) (c # rest)))"
proof -
  let ?right = "starts_right_quote md (c # rest)"
  have c: "c \<noteq> NUL" "cstr rest" using assms(5) by auto
  have right: "?right \<longleftrightarrow> c = CHR 0x22" using assms(2) by (auto simp: starts_right_quote_def c_mode_def)
  have dq: "\<not> is_octal_digit CHR 0x22" "char_pos c_abbrevs CHR 0x22 = None" by code_simp+
  have elide: "\<not> qm_elide md" "\<not> shell_elided md" "qm_backslash md" "qm_style md = C_Style"
    using assms(2) by (simp_all add: c_mode_def shell_elided_def)
  have plain: ?thesis if "restyle_char env md flags these first c rest = Some (store_plain md these ?right [] c 0)" "c \<noteq> BS" "c_letter c = None"
    using store_plain_reads [OF assms(2,4) c(1) _ that(2,3), of ?right 0] that(1) right dq c(2) by auto
  have escaped: ?thesis if "restyle_char env md flags these first c rest = Some (Emit 0 [BS, d])"
    "\<And>tail res. dequote_loop (BS # d # tail) res = dequote_loop tail (res @ [c])" "line_char d" for d
    using that c(2) by auto
  have dq_special: "CHR 0x22 \<in> set shell_specials" by code_simp
  have "restyle_char env md flags these first c rest = Some (store_plain md these ?right [] c 0) \<or>
      c \<notin> set shell_specials \<and> restyle_char env md flags these first c rest = other_char env md these ?right c rest"
    if "c \<noteq> BS" "c_letter c = None"
    unfolding restyle_char_def Let_def using elide c(1) assms(3) that by simp
  then consider "c = BS" | "c \<noteq> BS" "c_letter c \<noteq> None" | "c \<noteq> BS" "c_letter c = None"
      "restyle_char env md flags these first c rest = Some (store_plain md these ?right [] c 0)"
    | "c \<noteq> BS" "c \<noteq> CHR 0x22" "c_letter c = None" "restyle_char env md flags these first c rest = other_char env md these ?right c rest"
    using dq_special by blast
  then show ?thesis
  proof cases
    case 1
    have "restyle_char env md flags these first c rest = Some (Emit 0 [BS, c])"
      using elide 1 right by (simp add: restyle_char_def Let_def store_escape_def c_letter_def)
    then show ?thesis using escaped [of c] dequote_escaped [of c] backslash_back 1 by simp
  next
    case 2
    then obtain d where d: "c_letter c = Some d" by auto
    have "c \<noteq> CHR ''?''" "c \<noteq> CHR 0x22" using d by (auto simp: c_letter_def split: if_splits)
    then have "restyle_char env md flags these first c rest = Some (Emit 0 [BS, d])"
      using elide 2 d c(1) right by (simp add: restyle_char_def Let_def store_escape_def)
    then show ?thesis using escaped [of d] dequote_letter [OF d] line_char_letter [OF d] by simp
  next
    case 3
    then show ?thesis using plain by blast
  next
    case 4
    show ?thesis
    proof (rule other_char_cases [OF assms(1), of md these ?right c rest])
      fix n assume "other_char env md these ?right c rest = Some (Emit n (concat (map octal_escape (take (Suc n) (c # rest)))))"
        "n \<le> length rest"
      moreover have "cstr (take (Suc n) (c # rest))" using cstr_take [OF assms(5), of "Suc n"] .
      ultimately show ?thesis using dequote_octals [of "take (Suc n) (c # rest)"] 4(4) line_char_octal octal_escapes_length [of "take (Suc n) (c # rest)"] cstr_drop [OF c(2), of n] by auto
    next
      fix n assume "other_char env md these ?right c rest = Some (Emit n ((if ?right then [BS] else []) @ take (Suc n) (c # rest)))"
        "n \<le> length rest" and high: "\<forall>d \<in> set (take (Suc n) (c # rest)). 128 \<le> byte d"
      moreover have "cstr (take (Suc n) (c # rest))" using cstr_take [OF assms(5), of "Suc n"] .
      ultimately show ?thesis
        using dequote_bytes [OF high_no_BS [OF high]] 4(2,4) right line_char_high cstr_drop [OF c(2), of n] by auto
    qed (use elide plain 4 in auto)
  qed
qed

text \<open>The style \<open>c\<close>: a text on one line between quotes, which the reader of \<open>quote.c\<close> turns into the argument.\<close>

lemma c_style_text:
  assumes "locale_ok env" "flags AND QA_ELIDE_OUTER_QUOTES = 0" "flags AND QA_SPLIT_TRIGRAPHS = 0" "may_escape these" "cstr arg"
  shows "\<exists>t. quoted_text env C_Style flags these left right arg = Some (CHR 0x22 # t @ [CHR 0x22]) \<and> dequote_text t = Some arg \<and>
    (\<forall>d \<in> set t. line_char d) \<and> length t \<le> 4 * length arg"
proof -
  obtain md where md: "quoting_mode env C_Style flags left right = Some md" "c_mode md" "qm_opening md = [CHR 0x22]"
    using assms(2) by (auto simp: quoting_mode_def c_mode_def Let_def)
  obtain t where t: "restyle_loop env md flags these True arg = Some (False, t)" "\<forall>d \<in> set t. line_char d" "length t \<le> 4 * length arg"
    "\<forall>tail res. dequote_loop (t @ tail) res = dequote_loop tail (res @ arg)"
    using restyle_loop_reads [of cstr env md flags these line_char dequote_loop arg True,
      OF c_char_reads [OF assms(1) md(2) assms(3,4)] assms(5)] by auto
  have "dequote_loop (t @ []) [] = dequote_loop [] ([] @ arg)" using t(4) by blast
  then have "dequote_loop t [] = Some arg" by simp
  moreover have "qm_quote md = Some [CHR 0x22]" "\<not> qm_elide md" using md(2) by (simp_all add: c_mode_def)
  ultimately show ?thesis
    using md t(1,2,3) by (auto simp: quoted_text_def pass_text_def closing_quote_def dequote_text_def)
qed

subsection \<open>There is always a text\<close>

definition gives :: "(restyled \<Rightarrow> bool) \<Rightarrow> restyled option \<Rightarrow> bool" where
  "gives P x \<longleftrightarrow> (\<exists>r. x = Some r \<and> P r)"

lemma gives_if: "(b \<Longrightarrow> gives P x) \<Longrightarrow> (\<not> b \<Longrightarrow> gives P y) \<Longrightarrow> gives P (if b then x else y)"
  by simp

lemma gives_Some: "P r \<Longrightarrow> gives P (Some r)"
  by (simp add: gives_def)

lemma restyle_char_total:
  assumes "locale_ok env"
  shows "\<exists>r. restyle_char env md flags these first c rest = Some r \<and> (r = Force \<longrightarrow> qm_elide md)"
proof -
  let ?P = "\<lambda>r. r = Force \<longrightarrow> qm_elide md"
  have store: "?P (store_plain md these is_right out d n)" "?P (store_escape (qm_elide md) out d n)" for is_right out d n
    by (auto simp: store_plain_def store_escape_def)
  have "gives ?P (other_char env md these is_right c rest)" for is_right
    using other_char_cases [OF assms, of md these is_right c rest, where thesis = "gives ?P (other_char env md these is_right c rest)"]
      store by (auto simp: gives_def)
  then have "gives ?P (restyle_char env md flags these first c rest)"
    unfolding restyle_char_def Let_def using store by (intro gives_if gives_Some) (simp_all add: shell_elided_def)
  then show ?thesis by (simp add: gives_def)
qed

lemma restyle_loop_total:
  assumes "locale_ok env"
  shows "\<exists>forced out. restyle_loop env md flags these first rest = Some (forced, out) \<and> (forced \<longrightarrow> qm_elide md)"
proof (induction "length rest" arbitrary: rest first rule: less_induct)
  case less
  show ?case
  proof (cases rest)
    case (Cons c cs)
    obtain r where r: "restyle_char env md flags these first c cs = Some r" "r = Force \<longrightarrow> qm_elide md"
      using restyle_char_total [OF assms, of md flags these first c cs] by auto
    show ?thesis
    proof (cases r)
      case (Emit n out)
      have "length (drop n cs) < length rest" using Cons by simp
      from less [OF this, of False] show ?thesis using r Emit Cons by auto
    qed (use r Cons in auto)
  qed auto
qed

lemma pass_text_total:
  assumes "locale_ok env"
  shows "\<exists>r. pass_text env md flags these arg = Some r \<and> (r = None \<longrightarrow> qm_elide md)"
proof -
  obtain forced out where "restyle_loop env md flags these True arg = Some (forced, out)" "forced \<longrightarrow> qm_elide md"
    using restyle_loop_total [OF assms] by blast
  then show ?thesis by (auto simp: pass_text_def shell_elided_def)
qed

lemma quoting_mode_again:
  assumes "quoting_mode env style flags left right = Some md"
  shows "\<exists>md'. quoting_mode env (qm_style md) (flags AND NOT QA_ELIDE_OUTER_QUOTES) (qm_left md) (qm_right md) = Some md' \<and>
    \<not> qm_elide md'"
  using assms by (cases style) (auto simp: quoting_mode_def Let_def bind_eq_Some_conv and.assoc)

lemma quoted_text_total:
  assumes "locale_ok env" "style = Custom_Style \<longrightarrow> left \<noteq> None \<and> right \<noteq> None"
  shows "\<exists>t. quoted_text env style flags these left right arg = Some t"
proof -
  obtain md where md: "quoting_mode env style flags left right = Some md"
    using assms(2) by (cases style) (auto simp: quoting_mode_def Let_def)
  obtain r where r: "pass_text env md flags these arg = Some r" using pass_text_total [OF assms(1)] by blast
  obtain md' where md': "quoting_mode env (qm_style md) (flags AND NOT QA_ELIDE_OUTER_QUOTES) (qm_left md) (qm_right md) = Some md'"
    "\<not> qm_elide md'" using quoting_mode_again [OF md] by auto
  obtain r' where "pass_text env md' (flags AND NOT QA_ELIDE_OUTER_QUOTES) None arg = Some r'" "r' \<noteq> None"
    using pass_text_total [OF assms(1), of md'] md'(2) by blast
  then show ?thesis using md r md'(1) by (cases r) (auto simp: quoted_text_def)
qed

subsection \<open>Words of the shell\<close>

text \<open>How a shell takes the quotes off a word; \<^const>\<open>None\<close> where it is not one word, or not taken literally.\<close>

definition posix_specials :: string where
  "posix_specials = '' |&;<>()$*?['' @ [CHR 0x60, CHR 0x22, CHR 0x0A, CHR 0x09]"

fun shell_word :: "bool \<Rightarrow> string \<Rightarrow> string \<Rightarrow> string option" where
  "shell_word quoted [] res = (if quoted then None else Some res)"
| "shell_word quoted (c # s) res =
     (if quoted then if c = CHR 0x27 then shell_word False s res else shell_word True s (res @ [c])
      else if c = CHR 0x27 then shell_word True s res
      else if c = BS then
        (case s of [] \<Rightarrow> None | d # s' \<Rightarrow> if d = CHR 0x0A then None else shell_word False s' (res @ [d]))
      else if c \<in> set posix_specials then None
      else shell_word False s (res @ [c]))"

definition shell_reads :: "string \<Rightarrow> string option" where
  "shell_reads s =
     (if s = [] \<or> hd s \<in> {CHR ''#'', CHR ''~''} \<or> s \<in> {''!'', [CHR 0x7B], [CHR 0x7D]} then None else shell_word False s [])"

definition shell_mode :: "bool \<Rightarrow> quoting_mode \<Rightarrow> bool" where
  "shell_mode elide md \<longleftrightarrow> qm_style md = Shell_Always_Style \<and> qm_elide md = elide \<and> \<not> qm_backslash md \<and>
     qm_quote md = Some [CHR 0x27] \<and> qm_opening md = (if elide then [] else [CHR 0x27])"

lemma quoted_bytes: "CHR 0x27 \<notin> set cs \<Longrightarrow> shell_word True (cs @ tail) res = shell_word True tail (res @ cs)"
  by (induction cs arbitrary: res) auto

lemma high_no_quote: "\<forall>d \<in> set cs. 128 \<le> byte d \<Longrightarrow> CHR 0x27 \<notin> set cs"
proof -
  have "byte CHR 0x27 < 128" by code_simp
  then show "\<forall>d \<in> set cs. 128 \<le> byte d \<Longrightarrow> CHR 0x27 \<notin> set cs" by auto
qed

lemma shell_char_reads:
  assumes "locale_ok env" "shell_mode False md" "cstr (c # rest)"
  shows "\<exists>n out. restyle_char env md flags these first c rest = Some (Emit n out) \<and> n \<le> length rest \<and> cstr (drop n rest) \<and>
    (\<forall>d \<in> set out. True) \<and> length out \<le> 4 * Suc n \<and> (\<forall>tail res. shell_word True (out @ tail) res = shell_word True tail (res @ take (Suc n) (c # rest)))"
proof -
  have md: "\<not> shell_elided md" "\<not> qm_backslash md" "\<not> qm_elide md" "qm_style md = Shell_Always_Style"
    "starts_right_quote md s = False" for s
    using assms(2) by (auto simp: shell_mode_def shell_elided_def starts_right_quote_def)
  have plain: "store_plain md these False out d n = Emit n (out @ [d])" for out d n
    using md by (simp add: store_plain_def)
  have c: "c \<noteq> NUL" "cstr rest" using assms(3) by auto
  consider "c = CHR 0x27" | "c \<noteq> CHR 0x27" "restyle_char env md flags these first c rest = Some (Emit 0 [c])"
    | "c \<noteq> CHR 0x27" "restyle_char env md flags these first c rest = other_char env md these False c rest"
  proof -
    have "c \<noteq> CHR 0x27 \<Longrightarrow> restyle_char env md flags these first c rest = Some (Emit 0 [c]) \<or>
      restyle_char env md flags these first c rest = other_char env md these False c rest"
      unfolding restyle_char_def Let_def using md c(1) by (simp add: plain)
    then show thesis using that by blast
  qed
  then show ?thesis
  proof cases
    case 1
    have "CHR 0x27 \<notin> set shell_specials" "c_letter CHR 0x27 = None" by code_simp+
    then have "restyle_char env md flags these first c rest = Some (Emit 0 [CHR 0x27, BS, CHR 0x27, c])"
      unfolding restyle_char_def Let_def using md 1 by (simp add: plain)
    then show ?thesis using 1 c(2) by auto
  next
    case 2
    then show ?thesis using c(2) by auto
  next
    case 3
    show ?thesis
    proof (rule other_char_cases [OF assms(1), of md these False c rest])
      fix n assume "other_char env md these False c rest = Some (Emit n ((if False then [BS] else []) @ take (Suc n) (c # rest)))"
        "n \<le> length rest" and high: "\<forall>d \<in> set (take (Suc n) (c # rest)). 128 \<le> byte d"
      then show ?thesis using quoted_bytes [OF high_no_quote [OF high]] 3 cstr_drop [OF c(2), of n] by auto
    qed (use md 3 plain c(2) in auto)
  qed
qed

text \<open>Without quotes only what the shell takes literally is left.\<close>

definition literal_char :: "char \<Rightarrow> bool" where
  "literal_char c \<longleftrightarrow> c \<noteq> CHR 0x27 \<and> c \<noteq> BS \<and> c \<notin> set posix_specials"

lemma literal_word: "\<forall>d \<in> set cs. literal_char d \<Longrightarrow> shell_word False (cs @ tail) res = shell_word False tail (res @ cs)"
  by (induction cs arbitrary: res) (auto simp: literal_char_def)

lemma literal_high: "128 \<le> byte c \<Longrightarrow> literal_char c"
proof -
  have "\<forall>d \<in> set (CHR 0x27 # BS # posix_specials). byte d < 128" by code_simp
  then show "128 \<le> byte c \<Longrightarrow> ?thesis" by (auto simp: literal_char_def)
qed

lemma posix_special_cases:
  "\<not> literal_char c \<Longrightarrow> c = CHR 0x27 \<or> c = BS \<or> c = CHR ''?'' \<or> shell_control c \<and> c_letter c \<noteq> None \<or> c \<in> set shell_specials"
proof -
  have "\<forall>c \<in> set posix_specials. c = CHR ''?'' \<or> shell_control c \<and> c_letter c \<noteq> None \<or> c \<in> set shell_specials" by code_simp
  then show "\<not> literal_char c \<Longrightarrow> ?thesis" by (auto simp: literal_char_def)
qed

lemma elided_char:
  assumes "locale_ok env" "shell_mode True md" "restyle_char env md flags these first c rest = Some (Emit n out)" "c \<noteq> NUL"
  shows "out = take (Suc n) (c # rest) \<and> n \<le> length rest \<and> (\<forall>d \<in> set out. literal_char d) \<and>
    (first \<longrightarrow> c \<noteq> CHR ''#'' \<and> c \<noteq> CHR ''~'' \<and> (c \<in> {CHR 0x7B, CHR 0x7D} \<longrightarrow> rest \<noteq> []) \<and> c \<noteq> CHR ''!'')"
proof -
  have md: "shell_elided md" "\<not> qm_backslash md" "qm_elide md" "qm_style md = Shell_Always_Style"
    "starts_right_quote md s = False" for s
    using assms(2) by (auto simp: shell_mode_def shell_elided_def starts_right_quote_def)
  have sp: "CHR ''!'' \<in> set shell_specials" by code_simp
  have letters: "c_letter BS = None" "c_letter CHR 0x27 = None" "CHR 0x27 \<notin> set shell_specials" "CHR 0x27 \<notin> set (''#~'' @ [CHR 0x7B, CHR 0x7D])"
    by code_simp+
  have specials: "d \<noteq> BS \<and> d \<noteq> NUL \<and> d \<noteq> CHR ''?'' \<and> c_letter d = None" if "d \<in> set shell_specials" for d
  proof -
    have "\<forall>d \<in> set shell_specials. d \<noteq> BS \<and> d \<noteq> NUL \<and> d \<noteq> CHR ''?'' \<and> c_letter d = None" by code_simp
    then show ?thesis using that by blast
  qed
  have store: "store_plain md these False [] c k = Emit n out \<Longrightarrow> n = k \<and> out = [c]" for k
    using md by (auto simp: store_plain_def store_escape_def split: if_splits)
  have lit: "literal_char c" if "n = 0" "out = [c]" "\<not> (\<forall>d \<in> set out. 128 \<le> byte d)"
  proof (rule ccontr)
    assume "\<not> literal_char c"
    from posix_special_cases [OF this] consider "c = CHR 0x27" | "c = BS" | "c = CHR ''?''" | "shell_control c" "c_letter c \<noteq> None" "c \<noteq> CHR ''?''"
      | "c \<in> set shell_specials" by blast
    then have "restyle_char env md flags these first c rest = Some Force"
    proof cases
      case 1
      then show ?thesis using md letters by (simp add: restyle_char_def Let_def del: set_append set_simps)
    qed (use assms(4) md letters specials in \<open>auto simp: restyle_char_def Let_def\<close>)
    then show False using assms(3) by simp
  qed
  have head: "first \<longrightarrow> c \<noteq> CHR ''#'' \<and> c \<noteq> CHR ''~'' \<and> (c \<in> {CHR 0x7B, CHR 0x7D} \<longrightarrow> rest \<noteq> []) \<and> c \<noteq> CHR ''!''"
    using assms(3,4) md sp by (auto simp: restyle_char_def Let_def c_letter_def)
  have "restyle_char env md flags these first c rest \<in> {Some Force, Some (store_plain md these False [] c 0), other_char env md these False c rest}"
    unfolding restyle_char_def Let_def using md assms(4) by simp
  then consider "store_plain md these False [] c 0 = Emit n out" | "other_char env md these False c rest = Some (Emit n out)"
    using assms(3) by auto
  then have "n = 0 \<and> out = [c] \<or> out = take (Suc n) (c # rest) \<and> n \<le> length rest \<and> (\<forall>d \<in> set out. 128 \<le> byte d)"
  proof cases
    case 1
    then show ?thesis using store by blast
  next
    case 2
    then show ?thesis
      using other_char_cases [OF assms(1), of md these False c rest, where thesis = ?thesis] md store by auto
  qed
  then show ?thesis using head lit literal_high by (cases "\<forall>d \<in> set out. 128 \<le> byte d") auto
qed

lemma elided_loop:
  assumes "locale_ok env" "shell_mode True md"
  shows "restyle_loop env md flags these first rest = Some (False, out) \<Longrightarrow> cstr rest \<Longrightarrow> out = rest \<and> (\<forall>d \<in> set rest. literal_char d)"
proof (induction "length rest" arbitrary: rest first out rule: less_induct)
  case less
  show ?case
  proof (cases rest)
    case (Cons c cs)
    obtain r where "restyle_char env md flags these first c cs = Some r"
      using less.prems(1) Cons by (auto simp: bind_eq_Some_conv)
    then obtain n o1 o2 where n: "restyle_char env md flags these first c cs = Some (Emit n o1)"
      "restyle_loop env md flags these False (drop n cs) = Some (False, o2)" "out = o1 @ o2"
      using less.prems(1) Cons by (cases r) (auto simp: bind_eq_Some_conv)
    have "c \<noteq> NUL" "cstr (drop n cs)" using less.prems(2) Cons cstr_drop [of cs n] by auto
    moreover have "length (drop n cs) < length rest" using Cons by simp
    ultimately have step: "o1 = take (Suc n) (c # cs)" "\<forall>d \<in> set o1. literal_char d" "o2 = drop n cs" "\<forall>d \<in> set (drop n cs). literal_char d"
      using elided_char [OF assms n(1)] less.hyps [OF _ n(2)] by auto
    then have "out = rest" using n(3) Cons by simp
    moreover have "\<forall>d \<in> set (o1 @ o2). literal_char d" unfolding set_append step(3) using step(2,4) by blast
    then have "\<forall>d \<in> set out. literal_char d" by (simp only: n(3))
    ultimately show ?thesis by simp
  qed (use less.prems in simp)
qed

text \<open>The styles \<open>shell\<close> and \<open>shell-always\<close>: a word that the shell reads as the argument.\<close>

lemma shell_always_text:
  assumes "locale_ok env" "flags AND QA_ELIDE_OUTER_QUOTES = 0" "cstr arg"
  shows "\<exists>md t. quoting_mode env Shell_Always_Style flags left right = Some md \<and> pass_text env md flags these arg = Some (Some t) \<and>
    shell_reads t = Some arg"
proof -
  obtain md where md: "quoting_mode env Shell_Always_Style flags left right = Some md" "shell_mode False md"
    using assms(2) by (auto simp: quoting_mode_def shell_mode_def Let_def)
  obtain t where t: "restyle_loop env md flags these True arg = Some (False, t)"
    "\<forall>tail res. shell_word True (t @ tail) res = shell_word True tail (res @ arg)"
    using restyle_loop_reads [of cstr env md flags these "\<lambda>_. True" "shell_word True" arg True,
      OF shell_char_reads [OF assms(1) md(2)] assms(3)] by auto
  have "shell_word True (t @ [CHR 0x27]) [] = Some arg" using t(2) by simp
  then have "shell_reads (CHR 0x27 # t @ [CHR 0x27]) = Some arg" by (simp add: shell_reads_def)
  then show ?thesis using md t(1) by (auto simp: pass_text_def closing_quote_def shell_mode_def shell_elided_def)
qed

lemma shell_text:
  assumes "locale_ok env" "style \<in> {Shell_Style, Shell_Always_Style}" "cstr arg"
  shows "\<exists>t. quoted_text env style flags these left right arg = Some t \<and> shell_reads t = Some arg"
proof (cases "style = Shell_Always_Style \<and> flags AND QA_ELIDE_OUTER_QUOTES = 0")
  case True
  then show ?thesis using shell_always_text [OF assms(1) _ assms(3), of flags left right these] by (auto simp: quoted_text_def)
next
  case False
  then obtain md where md: "quoting_mode env style flags left right = Some md" "shell_mode True md"
    using assms(2) by (auto simp: quoting_mode_def shell_mode_def Let_def)
  obtain r where r: "pass_text env md flags these arg = Some r" using pass_text_total [OF assms(1)] by blast
  show ?thesis
  proof (cases r)
    case None
    have "qm_style md = Shell_Always_Style" using md(2) by (simp add: shell_mode_def)
    moreover have "(flags AND NOT QA_ELIDE_OUTER_QUOTES) AND QA_ELIDE_OUTER_QUOTES = 0" by (simp add: and.assoc)
    moreover obtain md' t where "quoting_mode env Shell_Always_Style (flags AND NOT QA_ELIDE_OUTER_QUOTES) (qm_left md) (qm_right md) = Some md'"
      "pass_text env md' (flags AND NOT QA_ELIDE_OUTER_QUOTES) None arg = Some (Some t)" "shell_reads t = Some arg"
      using shell_always_text [OF assms(1) calculation(2) assms(3)] by metis
    ultimately show ?thesis using md(1) r None by (simp add: quoted_text_def)
  next
    case (Some t)
    then have loop: "restyle_loop env md flags these True arg = Some (False, t)" "t \<noteq> []"
      using r md(2) by (auto simp: pass_text_def shell_mode_def shell_elided_def closing_quote_def bind_eq_Some_conv split: if_splits)
    have t: "t = arg" "\<forall>d \<in> set arg. literal_char d" using elided_loop [OF assms(1) md(2) loop(1) assms(3)] by auto
    then obtain c cs where arg: "arg = c # cs" using loop(2) by (cases arg) auto
    obtain y where "restyle_char env md flags these True c cs = Some y"
      using loop(1) arg by (auto simp: bind_eq_Some_conv)
    then obtain n o1 where "restyle_char env md flags these True c cs = Some (Emit n o1)"
      using loop(1) arg by (cases y) auto
    moreover have "c \<noteq> NUL" using assms(3) arg by simp
    ultimately have "c \<noteq> CHR ''#'' \<and> c \<noteq> CHR ''~'' \<and> (c \<in> {CHR 0x7B, CHR 0x7D} \<longrightarrow> cs \<noteq> []) \<and> c \<noteq> CHR ''!''"
      using elided_char [OF assms(1) md(2)] by auto
    moreover have "shell_word False (arg @ []) [] = Some arg" using literal_word [OF t(2), of "[]" "[]"] by simp
    ultimately have "shell_reads t = Some arg" using t(1) arg by (auto simp: shell_reads_def simp del: shell_word.simps)
    then show ?thesis using md(1) r Some by (simp add: quoted_text_def)
  qed
qed

subsection \<open>Allocated results\<close>

lemma holds_text_fits: "holds_text (replicate (length t + 1) g) t b \<Longrightarrow> b = t @ [NUL]"
  by (auto simp: holds_text_def)

lemma restyled_fits:
  assumes "quoted_text env style flags these left right arg = Some t"
  shows "quotearg_buffer_restyled env (replicate (length t + 1) g) arg style flags these left right = Some (t @ [NUL], length t)"
  using restyled_text [OF assms, of "replicate (length t + 1) g"] holds_text_fits by blast

lemma alloc_mem_text:
  assumes "quoted_text env (qo_style q) (qo_flags q OR (if wants then 0 else QA_ELIDE_NULL_BYTES)) (Some (qo_these_too q))
    (qo_left_quote q) (qo_right_quote q) arg = Some t"
  shows "quotearg_alloc_mem env garbage arg wants q = Some (t @ [NUL], length t)"
  using restyled_text [OF assms, of "[]"] restyled_fits [OF assms, of garbage] by (auto simp: quotearg_alloc_mem_def)

end
