(* ===== verification/Quotearg_Properties.thy ===== *)
theory Quotearg_Properties
  imports Quotearg_Spec Listing
begin

text \<open>
  The properties of quoting: what fits a buffer, what the shell and the reader of the program get back, and that the names
  in one message keep apart.  For the witnesses there is a locale with UTF-8.
\<close>

subsection \<open>UTF-8\<close>

definition utf8_bytes :: "char \<Rightarrow> nat" where
  "utf8_bytes c = (if byte c < 128 then 1 else if byte c < 194 then 0 else if byte c < 224 then 2 else if byte c < 240 then 3
     else if byte c < 245 then 4 else 0)"

definition utf8_continues :: "char \<Rightarrow> bool" where
  "utf8_continues c \<longleftrightarrow> 128 \<le> byte c \<and> byte c < 192"

definition utf8_mbrtowc :: "unit \<Rightarrow> string \<Rightarrow> unit mb_result" where
  "utf8_mbrtowc st s =
     (case s of
        [] \<Rightarrow> Mb_Incomplete
      | c # cs \<Rightarrow>
          if c = NUL then Mb_Null
          else if utf8_bytes c = 0 then Mb_Invalid
          else if utf8_bytes c = 1 then Mb_Char (byte c) 1 ()
          else
            let n = utf8_bytes c - 1; tails = takeWhile utf8_continues (take n cs) in
            if length tails = n then
              Mb_Char (foldl (\<lambda>v d. v * 64 + (byte d - 128)) (byte c mod 2 ^ (6 - n)) tails) (n + 1) ()
            else if length tails = length cs then Mb_Incomplete
            else Mb_Invalid)"

definition utf8_env :: "unit locale_env" where
  "utf8_env = \<lparr>le_unibyte = False, le_isprint = (\<lambda>c. 32 \<le> byte c \<and> byte c < 127), le_iswprint = (\<lambda>w. 32 \<le> w \<and> (w < 127 \<or> 160 \<le> w)),
     le_start = (), le_mbrtowc = utf8_mbrtowc, le_mbsinit = (\<lambda>_. True), le_gettext = (\<lambda>_. None), le_charset = ''UTF-8''\<rparr>"

lemma utf8_env_ok: "locale_ok utf8_env"
  unfolding locale_ok_def
proof (intro allI)
  fix st :: unit and s :: string
  let ?ok = "\<lambda>r. case r of
        Mb_Char w n st' \<Rightarrow> 0 < n \<and> n \<le> length s \<and> le_mbsinit utf8_env st' \<and> (1 < n \<longrightarrow> (\<forall>c \<in> set (take n s). 128 \<le> byte c))
      | Mb_Incomplete \<Rightarrow> \<forall>c \<in> set (takeWhile (\<lambda>c. c \<noteq> NUL) s). 128 \<le> byte c
      | _ \<Rightarrow> True"
  show "?ok (le_mbrtowc utf8_env st s)"
  proof (cases s)
    case Nil
    then show ?thesis by (simp add: utf8_env_def utf8_mbrtowc_def)
  next
    case (Cons c cs)
    let ?n = "utf8_bytes c - 1"
    let ?tails = "takeWhile utf8_continues (take ?n cs)"
    have lead: "128 \<le> byte c" if "1 < utf8_bytes c" using that by (auto simp: utf8_bytes_def split: if_splits)
    have tails: "\<forall>d \<in> set ?tails. 128 \<le> byte d" using set_takeWhileD by (fastforce simp: utf8_continues_def)
    consider "c = NUL \<or> utf8_bytes c \<le> 1" | "c \<noteq> NUL" "1 < utf8_bytes c" "length ?tails = ?n" | "c \<noteq> NUL" "1 < utf8_bytes c" "length ?tails \<noteq> ?n"
      by linarith
    then show ?thesis
    proof cases
      case 1
      then have "le_mbrtowc utf8_env st s \<in> {Mb_Null, Mb_Invalid, Mb_Char (byte c) 1 ()}"
        using Cons by (auto simp: utf8_env_def utf8_mbrtowc_def)
      then show ?thesis using Cons by (auto simp: utf8_env_def)
    next
      case 2
      have "length ?tails \<le> length (take ?n cs)" by (rule length_takeWhile_le)
      then have n: "?n \<le> length cs" using 2(3) by simp
      have same: "?tails = take ?n cs" using 2(3) n by (metis length_take min.absorb2 takeWhile_eq_take take_all_iff order_refl)
      have high: "\<forall>d \<in> set (take ?n cs). 128 \<le> byte d" using tails unfolding same .
      have "utf8_bytes c = Suc ?n" using 2(2) by simp
      then have "take (utf8_bytes c) s = c # take ?n cs" using Cons by (metis take_Suc_Cons)
      then have "\<forall>d \<in> set (take (utf8_bytes c) s). 128 \<le> byte d" using high lead 2(2) by simp
      then show ?thesis using 2 n Cons by (simp add: utf8_env_def utf8_mbrtowc_def Let_def)
    next
      case 3
      show ?thesis
      proof (cases "length ?tails = length cs")
        case True
        have "length ?tails \<le> length (take ?n cs)" by (rule length_takeWhile_le)
        then have "take ?n cs = cs" using True by simp
        then have "length (takeWhile utf8_continues cs) = length cs" using True by (simp only:)
        then have "takeWhile utf8_continues cs = cs" using takeWhile_eq_take [of utf8_continues cs] by simp
        then have "\<forall>d \<in> set cs. 128 \<le> byte d" using set_takeWhileD [of _ utf8_continues cs] by (auto simp: utf8_continues_def)
        then have "\<forall>d \<in> set s. 128 \<le> byte d" using lead 3(2) Cons by simp
        then show ?thesis using 3 True Cons by (auto simp: utf8_env_def utf8_mbrtowc_def Let_def dest: set_takeWhileD)
      next
        case False
        then show ?thesis using 3 Cons by (simp add: utf8_env_def utf8_mbrtowc_def Let_def)
      qed
    qed
  qed
qed

subsection \<open>Buffers\<close>

definition quotes_given :: "quoting_options \<Rightarrow> bool" where
  "quotes_given q \<longleftrightarrow> (qo_style q = Custom_Style \<longrightarrow> qo_left_quote q \<noteq> None \<and> qo_right_quote q \<noteq> None)"



subsection \<open>The shell\<close>

text \<open>The text in a buffer that is large enough.\<close>

definition text_of :: "string \<times> nat \<Rightarrow> string" where
  "text_of r = take (snd r) (fst r)"

text \<open>C17. In the styles \<open>shell\<close> and \<open>shell-always\<close>, whatever the flags and the characters to quote too, the text is one word that a
  POSIX shell reads as the argument.\<close>

theorem shell_quoting_round_trip:
  assumes "locale_ok env" "qo_style q \<in> {Shell_Style, Shell_Always_Style}" "cstr arg"
  shows "\<exists>buffer len. quotearg_alloc_mem env garbage arg True q = Some (buffer, len) \<and> shell_reads (text_of (buffer, len)) = Some arg \<and>
    buffer ! len = NUL"
proof -
  let ?q = "quoted_text env (qo_style q) (qo_flags q) (Some (qo_these_too q)) (qo_left_quote q) (qo_right_quote q) arg"
  obtain t where t: "?q = Some t" "shell_reads t = Some arg" using shell_text [OF assms] by blast
  then have "quotearg_alloc_mem env garbage arg True q = Some (t @ [NUL], length t)" by (intro alloc_mem_text) simp
  then show ?thesis using t(2) by (simp add: text_of_def)
qed

theorem shell_quoting_round_trip_witness:
  "\<exists>buffer len. quotearg_alloc_mem utf8_env NUL (''it'' @ [CHR 0x27] @ ''s $5'') True (default_quoting_options\<lparr>qo_style := Shell_Style\<rparr>) =
      Some (buffer, len) \<and> shell_reads (text_of (buffer, len)) = Some (''it'' @ [CHR 0x27] @ ''s $5'') \<and> buffer ! len = NUL"
  by (rule shell_quoting_round_trip [OF utf8_env_ok]) (simp_all add: default_quoting_options_def cstr_def)

subsection \<open>The output of ls\<close>

text \<open>The options of \<open>ls --quoting-style=c\<close>: no flags, and no characters to quote too that an escape gives another meaning.\<close>

definition ls_options_ok :: "quoting_options \<Rightarrow> bool" where
  "ls_options_ok q \<longleftrightarrow> qo_style q = C_Style \<and> qo_flags q AND QA_ELIDE_OUTER_QUOTES = 0 \<and> qo_flags q AND QA_SPLIT_TRIGRAPHS = 0 \<and>
     may_escape (Some (qo_these_too q))"

definition ls_line_of :: "'m locale_env \<Rightarrow> quoting_options \<Rightarrow> string \<Rightarrow> string" where
  "ls_line_of env q name =
     (case quotearg_alloc_mem env NUL name True q of None \<Rightarrow> [] | Some r \<Rightarrow> text_of r) @ [NL]"

lemma ls_line_of_name:
  assumes "locale_ok env" "ls_options_ok q" "cstr name"
  shows "\<exists>t. ls_line_of env q name = DQ # t @ [DQ, NL] \<and> dequote_text t = Some name \<and> (\<forall>d \<in> set t. line_char d) \<and>
    length t \<le> 4 * length name"
proof -
  have q: "qo_style q = C_Style" "qo_flags q AND QA_ELIDE_OUTER_QUOTES = 0" "qo_flags q AND QA_SPLIT_TRIGRAPHS = 0"
    "may_escape (Some (qo_these_too q))" using assms(2) by (simp_all add: ls_options_ok_def)
  obtain t where t: "quoted_text env (qo_style q) (qo_flags q) (Some (qo_these_too q)) (qo_left_quote q) (qo_right_quote q) name =
      Some (DQ # t @ [DQ])" "dequote_text t = Some name" "\<forall>d \<in> set t. line_char d" "length t \<le> 4 * length name"
    using c_style_text [OF assms(1) q(2-4) assms(3)] q(1) by metis
  then have "quotearg_alloc_mem env NUL name True q = Some ((DQ # t @ [DQ]) @ [NUL], length (DQ # t @ [DQ]))"
    by (intro alloc_mem_text) simp
  then show ?thesis using t(2,3,4) by (auto simp: ls_line_of_def text_of_def)
qed

lemma ls_line_dequoted:
  assumes "locale_ok env" "ls_options_ok q" "name_ok name"
  shows "\<exists>t. ls_line_of env q name = DQ # t @ [DQ, NL] \<and> ls_dequote t = Inr name \<and> NL \<notin> set t \<and> cstr t"
proof -
  have name: "cstr name" "4 * length name + 1 < 2 ^ 31" using assms(3) by (auto simp: name_ok_def)
  obtain t where t: "ls_line_of env q name = DQ # t @ [DQ, NL]" "dequote_text t = Some name" "\<forall>d \<in> set t. line_char d"
    "length t \<le> 4 * length name" using ls_line_of_name [OF assms(1,2) name(1)] by blast
  have "ls_dequote t = Inr name"
    using dequote_output_file_text [of t] t(2,4) name(2) by (simp add: ls_dequote_def)
  then show ?thesis using t(1,3) by (auto simp: line_char_def cstr_def)
qed



end
