(* ===== verification/Quotearg_Messages.thy ===== *)
theory Quotearg_Messages
  imports Quotearg_Properties
begin

text \<open>
  The slots of \<open>quotearg.c\<close>: a text stays where it is until its slot is used again.  The programs quote two names for one
  message, in two slots.
\<close>

subsection \<open>The invariant\<close>

text \<open>Every slot has a block of its size of its own, or none yet; \<open>slot0\<close> belongs to the slot 0.\<close>

definition slot_ok :: "slots \<Rightarrow> nat \<Rightarrow> nat \<times> nat option \<Rightarrow> bool" where
  "slot_ok S i slot \<longleftrightarrow> (snd slot = None \<longrightarrow> fst slot = 0) \<and>
     (\<forall>p. snd slot = Some p \<longrightarrow> (\<exists>b. sl_mem S p = Some b \<and> length b = fst slot) \<and> (p = 0 \<longrightarrow> i = 0))"

definition slots_ok :: "slots \<Rightarrow> bool" where
  "slots_ok S \<longleftrightarrow> sl_vec S \<noteq> [] \<and> (\<forall>p. sl_next S \<le> p \<longrightarrow> sl_mem S p = None) \<and> 0 < sl_next S \<and>
     (\<forall>i < length (sl_vec S). slot_ok S i (sl_vec S ! i)) \<and>
     (\<forall>i < length (sl_vec S). \<forall>j < length (sl_vec S). \<forall>p. snd (sl_vec S ! i) = Some p \<longrightarrow> snd (sl_vec S ! j) = Some p \<longrightarrow> i = j)"

lemma slots_okD:
  assumes "slots_ok S"
  shows "i < length (sl_vec S) \<Longrightarrow> slot_ok S i (sl_vec S ! i)" "sl_next S \<le> p \<Longrightarrow> sl_mem S p = None"
    "i < length (sl_vec S) \<Longrightarrow> j < length (sl_vec S) \<Longrightarrow> snd (sl_vec S ! i) = Some p \<Longrightarrow> snd (sl_vec S ! j) = Some p \<Longrightarrow> i = j"
  using assms by (auto simp: slots_ok_def)

lemma slots_start_ok: "slots_ok slots_start"
  by (simp add: slots_ok_def slot_ok_def slots_start_def)

lemma extend_slots_nth:
  "i < length (sl_vec (extend_slots n S)) \<Longrightarrow>
   sl_vec (extend_slots n S) ! i = (if i < length (sl_vec S) then sl_vec S ! i else (0, None))"
  by (auto simp: extend_slots_def nth_append)

lemma extend_slots_fields [simp]:
  "sl_mem (extend_slots n S) = sl_mem S" "sl_next (extend_slots n S) = sl_next S" "n < length (sl_vec (extend_slots n S))"
  "length (sl_vec S) \<le> length (sl_vec (extend_slots n S))"
  by (simp_all add: extend_slots_def)

lemma extend_slots_ok:
  assumes "slots_ok S"
  shows "slots_ok (extend_slots n S)"
proof -
  have "sl_vec (extend_slots n S) \<noteq> []" using extend_slots_fields(3) [of n S] by (cases "sl_vec (extend_slots n S)") auto
  moreover have "slot_ok (extend_slots n S) i (sl_vec (extend_slots n S) ! i)" if "i < length (sl_vec (extend_slots n S))" for i
    using slots_okD(1) [OF assms, of i] extend_slots_nth [OF that] by (cases "i < length (sl_vec S)") (simp_all add: slot_ok_def)
  moreover have "i = j" if "i < length (sl_vec (extend_slots n S))" "j < length (sl_vec (extend_slots n S))"
    "snd (sl_vec (extend_slots n S) ! i) = Some p" "snd (sl_vec (extend_slots n S) ! j) = Some p" for i j p
    using slots_okD(3) [OF assms, of i j p] that extend_slots_nth [OF that(1)] extend_slots_nth [OF that(2)]
    by (cases "i < length (sl_vec S)"; cases "j < length (sl_vec S)") simp_all
  ultimately show ?thesis using assms unfolding slots_ok_def extend_slots_fields by blast
qed

text \<open>The text in a slot.\<close>

definition slot_text :: "slots \<Rightarrow> nat \<Rightarrow> string option" where
  "slot_text S p = map_option c_string (sl_mem S p)"

lemma c_string_take: "cstr t \<Longrightarrow> take (length t + 1) b = t @ [NUL] \<Longrightarrow> c_string b = t"
proof -
  assume t: "cstr t" "take (length t + 1) b = t @ [NUL]"
  then have "b = t @ NUL # drop (length t + 1) b" by (metis append.assoc append_Cons append_Nil append_take_drop_id)
  moreover have "c_string (t @ NUL # drop (length t + 1) b) = t"
    unfolding c_string_def by (subst takeWhile_append2) (use t(1) in \<open>auto simp: cstr_def\<close>)
  ultimately show ?thesis by simp
qed

subsection \<open>One call\<close>

definition slot_block :: "slots \<Rightarrow> nat \<Rightarrow> nat option" where
  "slot_block S i = (if i < length (sl_vec S) then snd (sl_vec S ! i) else None)"

lemma quotearg_n_options_text:
  assumes ok: "slots_ok S" and n: "0 \<le> n"
    and t: "quoted_text env (qo_style q) (qo_flags q OR QA_ELIDE_NULL_BYTES) (Some (qo_these_too q)) (qo_left_quote q)
      (qo_right_quote q) arg = Some t" "cstr t"
  shows "\<exists>p S'. quotearg_n_options env garbage n arg q S = Some (Some p, S') \<and> slots_ok S' \<and> slot_block S' (nat n) = Some p \<and>
    slot_text S' p = Some t \<and>
    (\<forall>m r. m \<noteq> nat n \<longrightarrow> slot_block S m = Some r \<longrightarrow> slot_block S' m = Some r \<and> sl_mem S' r = sl_mem S r)"
proof -
  let ?E = "extend_slots (nat n) S"
  let ?restyled = "\<lambda>buffer. quotearg_buffer_restyled env buffer arg (qo_style q) (qo_flags q OR QA_ELIDE_NULL_BYTES) (Some (qo_these_too q))
              (qo_left_quote q) (qo_right_quote q)"
  have E: "slots_ok ?E" by (rule extend_slots_ok [OF ok])
  obtain sz val where sv: "sl_vec ?E ! nat n = (sz, val)" by (cases "sl_vec ?E ! nat n")
  have same: "slot_block ?E m = slot_block S m" for m
    by (auto simp: slot_block_def extend_slots_nth dest: less_le_trans [OF _ extend_slots_fields(4) [of S "nat n"]])
  have slot: "slot_ok ?E (nat n) (sz, val)"
    using slots_okD(1) [OF E extend_slots_fields(3)] sv by simp
  obtain old where old: "slot_buffer ?E val = Some old" "length old = sz"
    using slot by (cases val) (auto simp: slot_buffer_def slot_ok_def)
  obtain b where b: "?restyled old = Some (b, length t)" "holds_text old t b" using restyled_text [OF t(1)] by blast
  have fits: "?restyled (replicate (length t + 1) garbage) = Some (t @ [NUL], length t)" by (rule restyled_fits [OF t(1)])
  have distinct: "snd (sl_vec ?E ! m) \<noteq> val" if "m \<noteq> nat n" "m < length (sl_vec ?E)" "val \<noteq> None" for m
    using slots_okD(3) [OF E that(2) extend_slots_fields(3)] sv that(1,3) by (cases val) auto
  show ?thesis
  proof (cases "sz \<le> length t")
    case True
    let ?p = "sl_next ?E"
    let ?F = "free_slot val (put_buffer val b ?E)"
    let ?S = "?F\<lparr>sl_mem := (sl_mem ?F)(?p \<mapsto> t @ [NUL]), sl_next := ?p + 1, sl_vec := (sl_vec ?E)[nat n := (length t + 1, Some ?p)]\<rparr>"
    have F: "sl_vec ?F = sl_vec ?E" "sl_next ?F = ?p" "\<And>r. val \<noteq> Some r \<Longrightarrow> sl_mem ?F r = sl_mem S r"
      by (cases val; simp add: free_slot_def put_buffer_def)+
    have fresh: "sl_mem ?E r = None" if "?p \<le> r" for r using slots_okD(2) [OF E that] .
    have val_old: "r < ?p" if "val = Some r" for r using slot fresh [of r] that by (cases "r < ?p") (auto simp: slot_ok_def)
    have others: "r < ?p \<and> val \<noteq> Some r \<and> (\<exists>c. sl_mem S r = Some c \<and> length c = s) \<and> (r = 0 \<longrightarrow> m = 0)"
      if "m \<noteq> nat n" "m < length (sl_vec ?E)" "sl_vec ?E ! m = (s, Some r)" for m s r
    proof -
      have c: "(\<exists>c. sl_mem ?E r = Some c \<and> length c = s) \<and> (r = 0 \<longrightarrow> m = 0)"
        using slots_okD(1) [OF E that(2)] that(3) by (simp add: slot_ok_def)
      then have "r < ?p" using fresh [of r] by (cases "r < ?p") auto
      then show ?thesis using c distinct [OF that(1,2)] that(3) by auto
    qed
    have "quotearg_n_options env garbage n arg q S = Some (Some ?p, ?S)"
      using n sv old(1) b(1) fits True F(1,2) by (simp add: quotearg_n_options_def Let_def)
    moreover have "slots_ok ?S"
      unfolding slots_ok_def
    proof (intro conjI allI impI)
      show "sl_vec ?S \<noteq> []" "0 < sl_next ?S" using E by (auto simp: slots_ok_def)
    next
      fix r assume "sl_next ?S \<le> r"
      then have "?p < r" by simp
      moreover have "val \<noteq> Some r" using val_old [of r] \<open>?p < r\<close> by auto
      ultimately show "sl_mem ?S r = None" using F(3) [of r] fresh [of r] by simp
    next
      fix i assume i: "i < length (sl_vec ?S)"
      show "slot_ok ?S i (sl_vec ?S ! i)"
      proof (cases "i = nat n")
        case True
        then show ?thesis using E i by (simp add: slots_ok_def slot_ok_def)
      next
        case False
        obtain s r where sr: "sl_vec ?E ! i = (s, r)" by (cases "sl_vec ?E ! i")
        show ?thesis
        proof (cases r)
          case None
          then have "s = 0" using slots_okD(1) [OF E, of i] sr i by (simp add: slot_ok_def)
          then show ?thesis using sr None False by (simp add: slot_ok_def)
        next
          case (Some r')
          then show ?thesis using others [OF False, of s r'] sr i F(3) [of r'] False by (auto simp: slot_ok_def)
        qed
      qed
    next
      fix i j r
      assume ij: "i < length (sl_vec ?S)" "j < length (sl_vec ?S)" "snd (sl_vec ?S ! i) = Some r" "snd (sl_vec ?S ! j) = Some r"
      have below: "r' < ?p" if "m \<noteq> nat n" "m < length (sl_vec ?E)" "snd (sl_vec ?E ! m) = Some r'" for m r'
        using others [OF that(1,2), of "fst (sl_vec ?E ! m)" r'] that(3) by (simp add: prod_eq_iff)
      show "i = j"
      proof (cases "i = nat n \<or> j = nat n")
        case True
        then have "r = ?p" using ij by (auto simp: nth_list_update split: if_splits)
        then show ?thesis using below [of i r] below [of j r] ij by (cases "i = nat n"; cases "j = nat n") auto
      next
        case False
        then show ?thesis using slots_okD(3) [OF E, of i j r] ij by simp
      qed
    qed
    moreover have "slot_block ?S (nat n) = Some ?p" by (simp add: slot_block_def)
    moreover have "slot_text ?S ?p = Some t"
      using c_string_take [OF t(2), of "t @ [NUL]"] by (simp add: slot_text_def)
    moreover have "slot_block ?S m = Some r \<and> sl_mem ?S r = sl_mem S r" if "m \<noteq> nat n" "slot_block S m = Some r" for m r
    proof -
      have m: "m < length (sl_vec ?E)" "snd (sl_vec ?E ! m) = Some r"
        using that(2) same [of m] by (auto simp: slot_block_def split: if_splits)
      then show ?thesis
        using others [OF that(1) m(1), of "fst (sl_vec ?E ! m)" r] F(3) that(1) by (simp add: slot_block_def prod_eq_iff)
    qed
    ultimately show ?thesis by blast
  next
    case False
    then obtain p where p: "val = Some p" using slot by (cases val) (auto simp: slot_ok_def)
    let ?S = "put_buffer val b ?E"
    have "take (length t + 1) b = t @ [NUL]" using b(2) False old(2) by (simp add: holds_text_def)
    moreover have "length b = sz" using b(2) old(2) by (simp add: holds_text_def)
    ultimately have stored: "slot_text ?S p = Some t" "sl_mem ?S p = Some b" "length b = sz"
      using c_string_take [OF t(2)] p by (auto simp: slot_text_def put_buffer_def)
    have S: "sl_vec ?S = sl_vec ?E" "sl_next ?S = sl_next ?E" "\<And>r. r \<noteq> p \<Longrightarrow> sl_mem ?S r = sl_mem ?E r"
      using p by (simp_all add: put_buffer_def)
    have "quotearg_n_options env garbage n arg q S = Some (Some p, ?S)"
      using n sv old(1) b(1) False p by (simp add: quotearg_n_options_def Let_def)
    moreover have "slots_ok ?S"
      unfolding slots_ok_def S(1,2)
    proof (intro conjI allI impI)
      fix r assume r: "sl_next ?E \<le> r"
      then have "sl_mem ?E r = None" using E by (simp add: slots_ok_def)
      moreover from this have "r \<noteq> p" using slot p by (auto simp: slot_ok_def)
      ultimately show "sl_mem ?S r = None" using S(3) by simp
    next
      fix i assume i: "i < length (sl_vec ?E)"
      obtain s r where sr: "sl_vec ?E ! i = (s, r)" by (cases "sl_vec ?E ! i")
      have E_i: "slot_ok ?E i (s, r)" using slots_okD(1) [OF E i] sr by simp
      show "slot_ok ?S i (sl_vec ?E ! i)"
      proof (cases "r = Some p")
        case True
        then have "i = nat n" using distinct [of i] sr i p by auto
        then show ?thesis using sr True stored E_i sv by (simp add: slot_ok_def)
      next
        case False
        then show ?thesis using E_i sr S(3) by (cases r) (auto simp: slot_ok_def)
      qed
    qed (use E in \<open>auto simp: slots_ok_def\<close>)
    moreover have "slot_block ?S (nat n) = Some p" using S(1) sv p by (simp add: slot_block_def)
    moreover have "slot_block ?S m = Some r \<and> sl_mem ?S r = sl_mem S r" if "m \<noteq> nat n" "slot_block S m = Some r" for m r
    proof -
      have m: "m < length (sl_vec ?E)" "snd (sl_vec ?E ! m) = Some r"
        using that(2) same [of m] by (auto simp: slot_block_def split: if_splits)
      then have "r \<noteq> p" using distinct [OF that(1) m(1)] p by auto
      then show ?thesis using m S by (simp add: slot_block_def)
    qed
    ultimately show ?thesis using stored(1) by blast
  qed
qed

text \<open>The default style takes names as they are.\<close>

lemma literal_text:
  assumes "locale_ok env" "cstr arg" "qo_style q = Literal_Style"
  shows "quoted_text env (qo_style q) flags these left right arg = Some arg"
proof -
  let ?md = "\<lparr>qm_style = Literal_Style, qm_elide = False, qm_backslash = False, qm_quote = None, qm_opening = [], qm_left = left, qm_right = right\<rparr>"
  let ?D = "\<lambda>s res. res @ s"
  have md: "quoting_mode env Literal_Style flags left right = Some ?md" by (simp add: quoting_mode_def Let_def)
  have plain: "store_plain ?md these False out d n = Emit n (out @ [d])" for out d n by (simp add: store_plain_def)
  have step: "\<exists>n out. restyle_char env ?md flags these first c rest = Some (Emit n out) \<and> n \<le> length rest \<and> cstr (drop n rest) \<and>
      (\<forall>d \<in> set out. True) \<and> length out \<le> 4 * Suc n \<and> (\<forall>tail res. ?D (out @ tail) res = ?D tail (res @ take (Suc n) (c # rest)))"
    if "cstr (c # rest)" for first c rest
  proof -
    have c: "c \<noteq> NUL" "cstr rest" using that by auto
    have "restyle_char env ?md flags these first c rest \<in> {Some (Emit 0 [c]), other_char env ?md these False c rest}"
      unfolding restyle_char_def Let_def using c(1) by (simp add: plain starts_right_quote_def shell_elided_def)
    then consider "restyle_char env ?md flags these first c rest = Some (Emit 0 [c])"
      | "restyle_char env ?md flags these first c rest = other_char env ?md these False c rest" by blast
    then show ?thesis
    proof cases
      case 2
      show ?thesis
        by (rule other_char_cases [OF assms(1), of ?md these False c rest]) (use 2 plain c(2) cstr_drop in auto)
    qed (use c(2) in auto)
  qed
  obtain t where t: "restyle_loop env ?md flags these True arg = Some (False, t)" "\<forall>tail res. ?D (t @ tail) res = ?D tail (res @ arg)"
    using restyle_loop_reads [of cstr env ?md flags these "\<lambda>_. True" ?D arg True, OF step assms(2)] by auto
  have "t = arg" using spec [OF spec [OF t(2), of "[]"], of "[]"] by simp
  then show ?thesis using md t(1) assms(3) by (simp add: quoted_text_def pass_text_def closing_quote_def shell_elided_def)
qed

subsection \<open>Two names in a message\<close>

text \<open>
  C37. A message with two names, as \<open>display_plan\<close> and \<open>deurlname\<close> print it, quotes them in two slots: both texts are whole when the
  message is printed, and each is the name, in whatever state the slots were.
\<close>

theorem names_in_message_keep_apart:
  assumes "locale_ok env" "slots_ok S" "cstr a" "cstr b" "qo_style defaults = Literal_Style"
  shows "\<exists>p S1 r S2. quotearg_n env garbage defaults 0 a S = Some (Some p, S1) \<and> quotearg_n env garbage defaults 1 b S1 = Some (Some r, S2) \<and>
    slot_text S2 p = Some a \<and> slot_text S2 r = Some b \<and> slots_ok S2"
proof -
  obtain p S1 where 1: "quotearg_n env garbage defaults 0 a S = Some (Some p, S1)" "slots_ok S1" "slot_block S1 0 = Some p" "slot_text S1 p = Some a"
    using quotearg_n_options_text [OF assms(2) _ literal_text [OF assms(1,3,5)] assms(3), of 0 garbage] unfolding quotearg_n_def by auto
  obtain r S2 where 2: "quotearg_n env garbage defaults 1 b S1 = Some (Some r, S2)" "slots_ok S2" "slot_text S2 r = Some b"
    "\<And>m r. m \<noteq> 1 \<Longrightarrow> slot_block S1 m = Some r \<Longrightarrow> slot_block S2 m = Some r \<and> sl_mem S2 r = sl_mem S1 r"
    using quotearg_n_options_text [OF 1(2) _ literal_text [OF assms(1,4,5)] assms(4), of 1 garbage] unfolding quotearg_n_def by auto
  have "slot_text S2 p = Some a" using 2(4) [of 0 p] 1(3,4) by (simp add: slot_text_def)
  then show ?thesis using 1(1) 2(1,2,3) by blast
qed

theorem names_in_message_keep_apart_witness:
  "\<exists>p S1 r S2. quotearg_n utf8_env NUL default_quoting_options 0 ''old'' slots_start = Some (Some p, S1) \<and>
    quotearg_n utf8_env NUL default_quoting_options 1 ''new'' S1 = Some (Some r, S2) \<and>
    slot_text S2 p = Some ''old'' \<and> slot_text S2 r = Some ''new'' \<and> slots_ok S2"
  by (rule names_in_message_keep_apart [OF utf8_env_ok slots_start_ok]) (simp_all add: cstr_def default_quoting_options_def)

end
