(* ===== verification/Memchr.thy ===== *)
theory Memchr
  imports Prelude
begin

text \<open>
  \<open>src/gnulib-lib/memchr.c\<close>, which looks for a byte a word at a time, and \<open>strnlen.c\<close>, which
  rests on it, on a machine whose \<open>unsigned long\<close> has 64 bits.  The memory is a map from addresses to the
  bytes that can be read.  The words loop reads whole aligned words, and so bytes behind the one it
  looks for, or behind the end of the block: what makes this safe is that memory is mapped in pages,
  the condition \<open>mapped_in_words\<close>.  The order of the bytes in a word is a parameter.
\<close>

unbundle bit_operations_syntax

subsection \<open>The code\<close>

type_synonym memory = "nat \<Rightarrow> char option"
type_synonym longword = "64 word"

fun bytes_value :: "char list \<Rightarrow> int" where
  "bytes_value [] = 0"
| "bytes_value (b # bs) = int (byte b) + 256 * bytes_value bs"

text \<open>\<open>*longword_ptr\<close>\<close>

definition load_longword :: "bool \<Rightarrow> memory \<Rightarrow> nat \<Rightarrow> longword option" where
  "load_longword big_endian mem p =
     map_option (\<lambda>bs. of_int (bytes_value (if big_endian then rev bs else bs)))
       (those (map mem [p ..< p + 8]))"

definition repeated_one :: longword where
  "repeated_one = 0x01010101 OR push_bit 1 (push_bit 31 0x01010101)"

definition repeated_c :: "char \<Rightarrow> longword" where
  "repeated_c ch =
     (let c = of_nat (byte ch);
          r = c OR push_bit 8 c;
          r = r OR push_bit 16 r
      in r OR push_bit 1 (push_bit 31 r))"

text \<open>The test of one word, after the exclusive or.\<close>

definition has_zero_byte :: "longword \<Rightarrow> bool" where
  "has_zero_byte w \<longleftrightarrow> ((w - repeated_one) AND NOT w) AND push_bit 7 repeated_one \<noteq> 0"

text \<open>
  The loop at the start ends with the byte, or at an aligned pointer with the bytes left; without a
  result it has read what cannot be read.
\<close>

datatype search = Found nat | Reached nat nat

fun unaligned_loop :: "memory \<Rightarrow> char \<Rightarrow> nat \<Rightarrow> nat \<Rightarrow> search option" where
  "unaligned_loop mem c p 0 = Some (Reached p 0)"
| "unaligned_loop mem c p (Suc n) =
     (if p mod 8 \<noteq> 0
      then case mem p of
             None \<Rightarrow> None
           | Some b \<Rightarrow> if b = c then Some (Found p) else unaligned_loop mem c (Suc p) n
      else Some (Reached p (Suc n)))"

function words_loop :: "bool \<Rightarrow> memory \<Rightarrow> char \<Rightarrow> nat \<Rightarrow> nat \<Rightarrow> (nat \<times> nat) option" where
  "words_loop big_endian mem c p n =
     (if 8 \<le> n
      then case load_longword big_endian mem p of
             None \<Rightarrow> None
           | Some w \<Rightarrow>
               if has_zero_byte (w XOR repeated_c c) then Some (p, n)
               else words_loop big_endian mem c (p + 8) (n - 8)
      else Some (p, n))"
  by pat_completeness auto
termination by (relation "measure (\<lambda>(_, _, _, _, n). n)") auto

declare words_loop.simps [simp del]

fun bytes_loop :: "memory \<Rightarrow> char \<Rightarrow> nat \<Rightarrow> nat \<Rightarrow> nat option option" where
  "bytes_loop mem c p 0 = Some None"
| "bytes_loop mem c p (Suc n) =
     (case mem p of
        None \<Rightarrow> None
      | Some b \<Rightarrow> if b = c then Some (Some p) else bytes_loop mem c (Suc p) n)"

text \<open>The outer option is the read that fails, the inner one is NULL.\<close>

definition memchr :: "bool \<Rightarrow> memory \<Rightarrow> nat \<Rightarrow> int \<Rightarrow> nat \<Rightarrow> nat option option" where
  "memchr big_endian mem s c_in n =
     (let c = char_of c_in in
      case unaligned_loop mem c s n of
        None \<Rightarrow> None
      | Some (Found p) \<Rightarrow> Some (Some p)
      | Some (Reached p n) \<Rightarrow>
          (case words_loop big_endian mem c p n of
             None \<Rightarrow> None
           | Some (p, n) \<Rightarrow> bytes_loop mem c p n))"

definition gl_strnlen :: "bool \<Rightarrow> memory \<Rightarrow> nat \<Rightarrow> nat \<Rightarrow> nat option" where
  "gl_strnlen big_endian mem s maxlen =
     map_option (\<lambda>e. case e of Some e \<Rightarrow> e - s | None \<Rightarrow> maxlen) (memchr big_endian mem s 0 maxlen)"

text \<open>
  \<open>strndup\<close>: the new block, or NULL where \<open>malloc\<close> fails.  The outer option is as above.
\<close>

definition gl_strndup :: "(nat \<Rightarrow> bool) \<Rightarrow> bool \<Rightarrow> memory \<Rightarrow> nat \<Rightarrow> nat \<Rightarrow> string option option" where
  "gl_strndup malloc_ok big_endian mem s n =
     (case gl_strnlen big_endian mem s n of
        None \<Rightarrow> None
      | Some len \<Rightarrow>
          if malloc_ok (len + 1)
          then map_option (\<lambda>bs. Some (bs @ [NUL])) (those (map mem [s ..< s + len]))
          else Some None)"

subsection \<open>Words as bytes\<close>

text \<open>Bitwise operations act on the lowest byte and on the rest.\<close>

lemma add_mult_concat_bit: "0 \<le> a \<Longrightarrow> a < 2 ^ n \<Longrightarrow> a + 2 ^ n * b = concat_bit n a b" for a b :: int
  by (simp add: concat_bit_eq take_bit_int_eq_self push_bit_eq_mult mult.commute)

lemma or_push_bit: "0 \<le> a \<Longrightarrow> a < 2 ^ n \<Longrightarrow> a OR push_bit n b = a + 2 ^ n * b" for a b :: int
  using take_bit_int_eq_self [of a n]
  by (auto simp: add_mult_concat_bit bit_concat_bit_iff bit_simps intro!: bit_eqI)
    (metis bit_take_bit_iff linorder_not_less)+

lemma byte_concat: "0 \<le> a \<Longrightarrow> a < 256 \<Longrightarrow> a + 256 * b = concat_bit 8 a b" for a b :: int
  using add_mult_concat_bit [of a 8 b] by simp

lemma and_bytes:
  fixes a b c d :: int
  assumes "0 \<le> a" "a < 256" "0 \<le> c" "c < 256"
  shows "(a + 256 * b) AND (c + 256 * d) = (a AND c) + 256 * (b AND d)"
proof -
  have "a AND c < 256" using assms by (meson AND_upper1 le_less_trans)
  then show ?thesis
    using assms by (auto simp: byte_concat bit_concat_bit_iff bit_simps intro!: bit_eqI)
qed

lemma xor_bytes:
  fixes a b c d :: int
  assumes "0 \<le> a" "a < 256" "0 \<le> c" "c < 256"
  shows "(a + 256 * b) XOR (c + 256 * d) = (a XOR c) + 256 * (b XOR d)"
proof -
  have "a XOR c < 256" using XOR_upper [of a 8 c] assms by simp
  then show ?thesis
    using assms by (auto simp: byte_concat bit_concat_bit_iff bit_simps intro!: bit_eqI)
qed

lemma not_byte: "NOT (a + 256 * b) = (255 - a) + 256 * NOT b" for a b :: int
  by (simp add: not_int_def)

text \<open>\<open>k\<close> bytes, all of them the same.\<close>

fun same_bytes :: "nat \<Rightarrow> int \<Rightarrow> int" where
  "same_bytes 0 a = 0"
| "same_bytes (Suc k) a = a + 256 * same_bytes k a"

fun value_of :: "int list \<Rightarrow> int" where
  "value_of [] = 0"
| "value_of (x # xs) = x + 256 * value_of xs"

lemma same_bytes_mult: "same_bytes k a = a * same_bytes k 1"
  by (induction k) (auto simp: algebra_simps)

lemma same_bytes_8: "same_bytes 8 a = 0x0101010101010101 * a"
  by (simp add: eval_nat_numeral)

lemma bytes_value_of: "bytes_value bs = value_of (map (int \<circ> byte) bs)"
  by (induction bs) auto

lemma low_byte_test:
  fixes x :: int
  assumes "1 \<le> x" "x < 256"
  shows "((x - 1) AND (255 - x)) AND 128 = 0"
proof -
  have "\<forall>x \<in> set [1..255]. ((x - 1) AND (255 - x)) AND (128 :: int) = 0" by code_simp
  then show ?thesis using assms by simp
qed

text \<open>The test of the code, on as many bytes as one likes.\<close>

lemma zero_byte_test:
  fixes xs :: "int list"
  assumes "\<forall>x \<in> set xs. 0 \<le> x \<and> x < 256"
  shows "((value_of xs - same_bytes (length xs) 1) AND NOT (value_of xs)) AND same_bytes (length xs) 128 = 0
    \<longleftrightarrow> 0 \<notin> set xs"
  using assms
proof (induction xs)
  case (Cons x xs)
  let ?v = "value_of xs" and ?o = "same_bytes (length xs) 1" and ?h = "same_bytes (length xs) 128"
  have split: "((value_of (x # xs) - same_bytes (length (x # xs)) 1) AND NOT (value_of (x # xs))) AND
      same_bytes (length (x # xs)) 128 = (a AND ((255 - x) + 256 * NOT ?v)) AND (128 + 256 * ?h)"
    if "value_of (x # xs) - same_bytes (length (x # xs)) 1 = a" for a
    unfolding that by (simp only: value_of.simps not_byte list.size same_bytes.simps add_0_right add_Suc_right)
  show ?case
  proof (cases "x = 0")
    case True
    have "value_of (x # xs) - same_bytes (length (x # xs)) 1 = 255 + 256 * (?v - ?o - 1)"
      using True by simp
    from split [OF this]
    have "((value_of (x # xs) - same_bytes (length (x # xs)) 1) AND NOT (value_of (x # xs))) AND
        same_bytes (length (x # xs)) 128 =
        ((255 + 256 * (?v - ?o - 1)) AND ((255 - x) + 256 * NOT ?v)) AND (128 + 256 * ?h)" .
    also have "\<dots> = 128 + 256 * (((?v - ?o - 1) AND NOT ?v) AND ?h)"
      using and_bytes [of 255 "255 - x" "?v - ?o - 1" "NOT ?v"] and_bytes [of 255 128 _ ?h] True by simp
    finally have "((value_of (x # xs) - same_bytes (length (x # xs)) 1) AND NOT (value_of (x # xs))) AND
        same_bytes (length (x # xs)) 128 = 128 + 256 * (((?v - ?o - 1) AND NOT ?v) AND ?h)" .
    moreover have "128 + 256 * k \<noteq> 0" for k :: int by presburger
    ultimately show ?thesis using True by (metis list.set_intros(1))
  next
    case False
    then have x: "1 \<le> x" "x < 256" using Cons.prems by auto
    let ?l = "(x - 1) AND (255 - x)"
    have l: "0 \<le> ?l" "?l < 256"
      using x by (auto intro: le_less_trans [OF AND_upper1])
    have "value_of (x # xs) - same_bytes (length (x # xs)) 1 = x - 1 + 256 * (?v - ?o)" by simp
    from split [OF this]
    have "((value_of (x # xs) - same_bytes (length (x # xs)) 1) AND NOT (value_of (x # xs))) AND
        same_bytes (length (x # xs)) 128 =
        ((x - 1 + 256 * (?v - ?o)) AND ((255 - x) + 256 * NOT ?v)) AND (128 + 256 * ?h)" .
    also have "\<dots> = 256 * (((?v - ?o) AND NOT ?v) AND ?h)"
      using and_bytes [of "x - 1" "255 - x" "?v - ?o" "NOT ?v"] and_bytes [OF l, of 128 _ ?h]
        x low_byte_test [OF x] by simp
    finally show ?thesis using False Cons by (metis (no_types, lifting) insert_iff list.set(2)
      mult_eq_0_iff zero_neq_numeral)
  qed
qed simp


subsection \<open>The test of a word\<close>

lemma repeated_one_value: "repeated_one = of_int (same_bytes 8 1)"
  by (simp add: repeated_one_def same_bytes_8)

lemma high_bits_value: "push_bit 7 repeated_one = of_int (same_bytes 8 128)"
  by (simp add: repeated_one_def same_bytes_8)

lemma repeated_c_value: "repeated_c ch = of_int (same_bytes 8 (int (byte ch)))"
proof -
  let ?c = "int (byte ch)"
  have "0 \<le> ?c" "?c < 256" using byte_less [of ch] by auto
  then have "?c OR push_bit 8 ?c = 257 * ?c"
    using or_push_bit [of ?c 8 ?c] by simp
  moreover have "257 * ?c OR push_bit 16 (257 * ?c) = 16843009 * ?c"
    using or_push_bit [of "257 * ?c" 16 "257 * ?c"] \<open>?c < 256\<close> by simp
  moreover have "16843009 * ?c OR push_bit 32 (16843009 * ?c) = 0x0101010101010101 * ?c"
    using or_push_bit [of "16843009 * ?c" 32 "16843009 * ?c"] \<open>?c < 256\<close> by simp
  ultimately have "(0x0101010101010101 * ?c) =
      (let r = ?c OR push_bit 8 ?c; r = r OR push_bit 16 r in r OR push_bit 32 r)"
    by (simp only: Let_def)
  then have "repeated_c ch = of_int (0x0101010101010101 * ?c)"
    by (simp only: repeated_c_def Let_def of_int_or_eq of_int_push_bit of_int_of_nat_eq push_bit_push_bit)
      simp
  then show ?thesis by (simp only: same_bytes_8)
qed

lemma value_of_bounds:
  "\<forall>x \<in> set xs. 0 \<le> x \<and> x < 256 \<Longrightarrow> 0 \<le> value_of xs \<and> value_of xs < 256 ^ length xs"
  by (induction xs) auto

lemma of_int_longword_0:
  assumes "0 \<le> t" "t < 2 ^ 64"
  shows "(of_int t :: longword) = 0 \<longleftrightarrow> t = 0"
proof -
  have "uint (of_int t :: longword) = t"
    using assms by (simp add: uint_word_of_int_eq take_bit_int_eq_self)
  then show ?thesis by (metis of_int_0 unsigned_0)
qed

lemma has_zero_byte_value:
  assumes "\<forall>x \<in> set xs. 0 \<le> x \<and> x < 256" "length xs = 8"
  shows "has_zero_byte (of_int (value_of xs)) \<longleftrightarrow> 0 \<in> set xs"
proof -
  let ?t = "((value_of xs - same_bytes (length xs) 1) AND NOT (value_of xs)) AND same_bytes (length xs) 128"
  have "0 \<le> ?t" "?t \<le> same_bytes 8 128"
    using assms(2) by (auto simp: same_bytes_8 intro: AND_upper2)
  then have t: "0 \<le> ?t" "?t < 2 ^ 64" by (auto simp: same_bytes_8)
  have "has_zero_byte (of_int (value_of xs)) \<longleftrightarrow> (of_int ?t :: longword) \<noteq> 0"
    using assms(2) unfolding has_zero_byte_def high_bits_value unfolding repeated_one_value
    by (simp only: of_int_and_eq of_int_not_eq of_int_diff)
  also have "\<dots> \<longleftrightarrow> ?t \<noteq> 0"
    using of_int_longword_0 [OF t] by simp
  finally show ?thesis using zero_byte_test [OF assms(1)] by simp
qed

lemma xor_same_bytes:
  assumes "\<forall>x \<in> set xs. 0 \<le> x \<and> x < 256" "0 \<le> c" "c < 256"
  shows "value_of xs XOR same_bytes (length xs) c = value_of (map (\<lambda>x. x XOR c) xs)"
  using assms by (induction xs) (auto simp: xor_bytes)

lemma xor_eq_0_iff: "a XOR c = 0 \<longleftrightarrow> a = c" for a c :: int
  by (metis bit.xor_self xor.assoc xor.left_neutral xor.right_neutral)

lemma word_holds_byte:
  assumes "length bs = 8"
  shows "has_zero_byte (of_int (bytes_value bs) XOR repeated_c c) \<longleftrightarrow> c \<in> set bs"
proof -
  let ?xs = "map (int \<circ> byte) bs" and ?c = "int (byte c)"
  let ?ys = "map (\<lambda>x. x XOR ?c) ?xs"
  have b: "0 \<le> ?c" "?c < 256" "\<forall>x \<in> set ?xs. 0 \<le> x \<and> x < 256"
    using byte_less by auto
  have "of_int (bytes_value bs) XOR repeated_c c = (of_int (value_of ?ys) :: longword)"
    unfolding repeated_c_value bytes_value_of of_int_xor_eq [symmetric]
    using xor_same_bytes [OF b(3) b(1,2)] assms by simp
  moreover have "\<forall>y \<in> set ?ys. 0 \<le> y \<and> y < 256"
  proof
    fix y
    assume "y \<in> set ?ys"
    then obtain ch where y: "y = int (byte ch) XOR ?c" by auto
    have "int (byte ch) < 2 ^ 8" using byte_less [of ch] by simp
    with XOR_upper [of "int (byte ch)" 8 ?c] b(2) show "0 \<le> y \<and> y < 256" by (simp add: y)
  qed
  ultimately have "has_zero_byte (of_int (bytes_value bs) XOR repeated_c c) \<longleftrightarrow> 0 \<in> set ?ys"
    using has_zero_byte_value [of ?ys] assms by simp
  also have "\<dots> \<longleftrightarrow> c \<in> set bs"
    using xor_eq_0_iff by (auto simp: image_iff byte_inject)
  finally show ?thesis .
qed


subsection \<open>The search\<close>

definition mapped_in_words :: "memory \<Rightarrow> bool" where
  "mapped_in_words mem \<longleftrightarrow> (\<forall>a b. a div 8 = b div 8 \<longrightarrow> (mem a = None \<longleftrightarrow> mem b = None))"

lemma unaligned_loop_spec:
  "bytes_loop mem c p n =
     (case unaligned_loop mem c p n of
        None \<Rightarrow> None
      | Some (Found q) \<Rightarrow> Some (Some q)
      | Some (Reached q m) \<Rightarrow> bytes_loop mem c q m)"
  by (induction mem c p n rule: unaligned_loop.induct) (auto split: option.splits)

lemma unaligned_loop_reached:
  "unaligned_loop mem c p n = Some (Reached q m) \<Longrightarrow> m = 0 \<or> q mod 8 = 0"
  by (induction mem c p n rule: unaligned_loop.induct) (auto split: option.splits if_splits)

lemma those_eq_Some: "those (map mem ps) = Some bs \<Longrightarrow> map mem ps = map Some bs"
  by (induction ps arbitrary: bs) (auto split: option.splits)

lemma those_eq_None: "those (map mem ps) = None \<longleftrightarrow> (\<exists>p \<in> set ps. mem p = None)"
  by (induction ps) (auto split: option.splits)

text \<open>Bytes that are not the one looked for are skipped.\<close>

lemma bytes_loop_skip:
  "(\<And>i. i < k \<Longrightarrow> \<exists>b. mem (p + i) = Some b \<and> b \<noteq> c) \<Longrightarrow> k \<le> n \<Longrightarrow>
   bytes_loop mem c p n = bytes_loop mem c (p + k) (n - k)"
proof (induction k arbitrary: p n)
  case (Suc k)
  obtain m where n: "n = Suc m" using Suc.prems(2) by (cases n) auto
  have "bytes_loop mem c (Suc p) m = bytes_loop mem c (Suc p + k) (m - k)"
    using Suc.prems(1) [of "Suc _"] Suc.prems(2) n by (intro Suc.IH) auto
  then show ?case using Suc.prems(1) [of 0] n by auto
qed simp

lemma same_word: "p mod 8 = 0 \<Longrightarrow> p \<le> q \<Longrightarrow> q < p + 8 \<Longrightarrow> q div 8 = p div 8" for p :: nat
  by (auto simp: mod_eq_0_iff_dvd elim!: dvdE)

lemma words_loop_0 [simp]: "words_loop be mem c p 0 = Some (p, 0)"
  by (simp add: words_loop.simps)

lemma words_loop_8:
  "8 \<le> n \<Longrightarrow> words_loop be mem c p n =
    (case load_longword be mem p of
       None \<Rightarrow> None
     | Some w \<Rightarrow>
         if has_zero_byte (w XOR repeated_c c) then Some (p, n) else words_loop be mem c (p + 8) (n - 8))"
  by (subst words_loop.simps) simp

lemma words_loop_spec:
  assumes "mapped_in_words mem" "n = 0 \<or> p mod 8 = 0"
  shows "bytes_loop mem c p n =
    (case words_loop be mem c p n of None \<Rightarrow> None | Some (q, m) \<Rightarrow> bytes_loop mem c q m)"
  using assms(2)
proof (induction n arbitrary: p rule: less_induct)
  case (less n)
  show ?case
  proof (cases "8 \<le> n")
    case True
    then have p: "p mod 8 = 0" using less.prems by auto
    show ?thesis
    proof (cases "load_longword be mem p")
      case None
      then obtain q where "q \<in> {p ..< p + 8}" "mem q = None"
        by (auto simp: load_longword_def those_eq_None)
      moreover from this(1) p have "q div 8 = p div 8" by (intro same_word) simp_all
      ultimately have "mem p = None" using assms(1) unfolding mapped_in_words_def by blast
      then show ?thesis
        using words_loop_8 [OF True, of be mem c p] None True by (cases n) simp_all
    next
      case (Some w)
      then obtain bs where bs: "those (map mem [p ..< p + 8]) = Some bs"
        "w = of_int (bytes_value (if be then rev bs else bs))"
        by (auto simp: load_longword_def)
      then have eq: "map mem [p ..< p + 8] = map Some bs" by (intro those_eq_Some)
      then have len: "length bs = 8" by (metis add_diff_cancel_left' length_map length_upt)
      have test: "has_zero_byte (w XOR repeated_c c) \<longleftrightarrow> c \<in> set bs"
        using word_holds_byte [of bs c] word_holds_byte [of "rev bs" c] len bs(2) by simp
      show ?thesis
      proof (cases "c \<in> set bs")
        case True
        then show ?thesis using test Some \<open>8 \<le> n\<close> by (simp add: words_loop_8)
      next
        case False
        have "\<exists>b. mem (p + i) = Some b \<and> b \<noteq> c" if "i < 8" for i
        proof -
          have "mem (p + i) = Some (bs ! i)"
            using arg_cong [OF eq, of "\<lambda>l. l ! i"] that len by simp
          then show ?thesis using False that len by (metis nth_mem)
        qed
        then have "bytes_loop mem c p n = bytes_loop mem c (p + 8) (n - 8)"
          using \<open>8 \<le> n\<close> by (intro bytes_loop_skip) auto
        also have "\<dots> = (case words_loop be mem c (p + 8) (n - 8) of
            None \<Rightarrow> None | Some (q, m) \<Rightarrow> bytes_loop mem c q m)"
          using p \<open>8 \<le> n\<close> by (intro less.IH) auto
        finally show ?thesis
          using False test Some \<open>8 \<le> n\<close> by (simp add: words_loop_8)
      qed
    qed
  qed (simp add: words_loop.simps)
qed

lemma memchr_bytewise:
  "mapped_in_words mem \<Longrightarrow> memchr be mem s c_in n = bytes_loop mem (char_of c_in) s n"
  unfolding memchr_def Let_def unaligned_loop_spec [of mem "char_of c_in" s n]
  by (auto split: option.splits search.splits simp: words_loop_spec [where be = be] dest!: unaligned_loop_reached)

text \<open>
  C38. The search a word at a time finds what a search byte by byte finds, the first byte that is the one looked
  for or NULL, for every address, aligned or not, both orders of the bytes in a word and every length.  Where memory
  is mapped in units of words, it reads nothing that cannot be read unless the search byte by byte does,
  although it reads behind the byte it finds.
\<close>

theorem memchr_word_at_a_time:
  assumes "mapped_in_words mem"
  shows "memchr be mem s c_in n = bytes_loop mem (char_of c_in) s n"
  using assms by (rule memchr_bytewise)

text \<open>A byte in the second whole word, in a memory of 24 bytes, with a length that goes beyond it.\<close>

definition small_memory :: memory where
  "small_memory a = (if a < 24 then Some (if a = 18 then CHR ''x'' else CHR ''a'') else None)"

lemma memchr_word_at_a_time_witness:
  "memchr False small_memory 3 120 40 = Some (Some 18) \<and> memchr True small_memory 3 121 40 = None"
proof -
  have "mapped_in_words small_memory"
    using div_less_iff_less_mult [of 8 _ 3] by (simp add: mapped_in_words_def small_memory_def) metis
  moreover have "bytes_loop small_memory (char_of (120 :: int)) 3 40 = Some (Some 18)"
    by code_simp
  moreover have "bytes_loop small_memory (char_of (121 :: int)) 3 40 = None"
    by code_simp
  ultimately show ?thesis
    using memchr_word_at_a_time [of small_memory False 3 120 40] memchr_word_at_a_time [of small_memory True 3 121 40]
    by simp
qed

subsection \<open>What the users of the search get\<close>

text \<open>A block of known bytes at an address.\<close>

definition block_at :: "memory \<Rightarrow> nat \<Rightarrow> char list \<Rightarrow> bool" where
  "block_at mem s bs \<longleftrightarrow> (\<forall>i < length bs. mem (s + i) = Some (bs ! i))"

lemma block_at_Cons: "block_at mem s (b # bs) \<longleftrightarrow> mem s = Some b \<and> block_at mem (Suc s) bs"
  by (auto simp: block_at_def less_Suc_eq_0_disj)

lemma block_at_those: "block_at mem s bs \<Longrightarrow> n \<le> length bs \<Longrightarrow> those (map mem [s ..< s + n]) = Some (take n bs)"
proof (induction bs arbitrary: s n)
  case (Cons b bs)
  then show ?case using Cons.IH [of "Suc s" "n - 1"]
    by (cases n) (auto simp: block_at_Cons upt_conv_Cons simp del: upt_Suc)
qed simp

text \<open>The search in a block that holds the byte, or is as long as the search.\<close>

lemma bytes_loop_block:
  assumes "block_at mem s bs" "n \<le> length bs \<or> c \<in> set bs"
  shows "bytes_loop mem c s n =
    Some (if c \<in> set (take n bs) then Some (s + length (takeWhile (\<lambda>b. b \<noteq> c) bs)) else None)"
  using assms
proof (induction bs arbitrary: s n)
  case (Cons b bs)
  then show ?case by (cases n) (auto simp: block_at_Cons)
qed simp

lemma takeWhile_take_all: "x \<notin> set (take n xs) \<Longrightarrow> takeWhile (\<lambda>b. b \<noteq> x) (take n xs) = take n xs"
  by (simp add: takeWhile_eq_all_conv) metis

lemma gl_strnlen_block:
  assumes "mapped_in_words mem" "block_at mem s bs" "n \<le> length bs \<or> NUL \<in> set bs"
  shows "gl_strnlen be mem s n = Some (length (takeWhile (\<lambda>b. b \<noteq> NUL) (take n bs)))"
proof -
  have "(char_of (0 :: int) :: char) = NUL" by code_simp
  then have "memchr be mem s 0 n =
    Some (if NUL \<in> set (take n bs) then Some (s + length (takeWhile (\<lambda>b. b \<noteq> NUL) bs)) else None)"
    using memchr_bytewise [OF assms(1)] bytes_loop_block [OF assms(2,3)] by simp
  moreover have "takeWhile (\<lambda>b. b \<noteq> NUL) (take n bs) = takeWhile (\<lambda>b. b \<noteq> NUL) bs"
    if "NUL \<in> set (take n bs)"
    using takeWhile_append1 [OF that, of "\<lambda>b. b \<noteq> NUL" "drop n bs"] by simp
  moreover have "length (take n bs) = n" if "NUL \<notin> set (take n bs)"
    using assms(3) that by (cases "n \<le> length bs") auto
  ultimately show ?thesis
    by (cases "NUL \<in> set (take n bs)") (simp_all add: gl_strnlen_def takeWhile_take_all)
qed

lemma gl_strndup_block:
  assumes "mapped_in_words mem" "block_at mem s (str @ [NUL])" "cstr str"
  shows "gl_strndup malloc_ok be mem s n =
    Some (if malloc_ok (length (take n str) + 1) then Some (take n str @ [NUL]) else None)"
proof -
  have t: "takeWhile (\<lambda>b. b \<noteq> NUL) (take n (str @ [NUL])) = take n str"
    using assms(3) by (cases "n \<le> length str") (auto simp: cstr_def takeWhile_eq_all_conv takeWhile_append dest: in_set_takeD)
  have "those (map mem [s ..< s + length (take n str)]) = Some (take n str)"
    using block_at_those [OF assms(2), of "length (take n str)"] by (simp add: min_def)
  then show ?thesis
    using gl_strnlen_block [OF assms(1,2), of n be] t by (simp add: gl_strndup_def)
qed

end
