(* ===== verification/C_Strings.thy ===== *)
theory C_Strings
  imports Memchr Variables Dirname
begin

text \<open>
  \<open>src/gnulib-lib/strcasecmp.c\<close>, which \<open>variables.c\<close> compares the truth values with, \<open>rpmatch.c\<close>, which \<open>yesno\<close> asks about an
  answer, and \<open>strndup\<close> as \<open>substring\<close> of \<open>string-utils.c\<close> calls it.
\<close>

subsection \<open>\<open>strcasecmp\<close>\<close>

definition to_lower :: "(char \<Rightarrow> bool) \<Rightarrow> (char \<Rightarrow> char) \<Rightarrow> char \<Rightarrow> char" where
  "to_lower isupper tolower ch = (if isupper ch then tolower ch else ch)"

text \<open>The arguments hold their NULs; running out of one of them is reading behind it.\<close>

fun strcasecmp_loop :: "(char \<Rightarrow> char) \<Rightarrow> char list \<Rightarrow> char list \<Rightarrow> int option" where
  "strcasecmp_loop lower (x # p1) (y # p2) =
     (let c1 = lower x; c2 = lower y in
      if c1 = NUL \<or> c1 \<noteq> c2 then Some (int (byte c1) - int (byte c2)) else strcasecmp_loop lower p1 p2)"
| "strcasecmp_loop lower p1 p2 = None"

definition gl_strcasecmp ::
    "(char \<Rightarrow> bool) \<Rightarrow> (char \<Rightarrow> char) \<Rightarrow> bool \<Rightarrow> string \<Rightarrow> string \<Rightarrow> int option" where
  "gl_strcasecmp isupper tolower same_pointer s1 s2 =
     (if same_pointer then Some 0
      else strcasecmp_loop (to_lower isupper tolower) (s1 @ [NUL]) (s2 @ [NUL]))"

text \<open>Lower case keeps NUL apart: then the result has the sign that \<open>strcmp\<close> has on the strings in lower case.\<close>

lemma byte_pos: "0 < byte c \<longleftrightarrow> c \<noteq> NUL"
  using byte_eq_0 [of c] by (auto simp del: byte_eq_0)

lemma strcasecmp_loop_sign:
  assumes lower: "\<And>c. lower c = NUL \<longleftrightarrow> c = NUL" and "cstr s" "cstr t"
  shows "\<exists>k. strcasecmp_loop lower (s @ [NUL]) (t @ [NUL]) = Some k \<and>
    sgn k = strcmp (map lower s) (map lower t)"
  using assms(2,3)
proof (induction s arbitrary: t)
  case Nil
  show ?case
  proof (cases t)
    case (Cons y t')
    then have "0 < byte (lower y)" using Nil lower by (simp add: byte_pos)
    then show ?thesis using Cons lower [of NUL] by (simp add: Let_def)
  qed (use lower [of NUL] in \<open>simp add: Let_def\<close>)
next
  case (Cons x s)
  have x: "lower x \<noteq> NUL" "0 < byte (lower x)" using lower Cons.prems(1) by (simp_all add: byte_pos)
  show ?case
  proof (cases t)
    case Nil
    then show ?thesis using x lower [of NUL] by (simp add: Let_def)
  next
    case (Cons y t')
    then show ?thesis
      using x byte_inject [of "lower x" "lower y"] Cons.IH [of t'] Cons.prems
      by (cases "lower x = lower y") (auto simp: Let_def sgn_if)
  qed
qed

theorem strcasecmp_same_nocase:
  assumes "\<And>c. to_lower isupper tolower c = NUL \<longleftrightarrow> c = NUL" "cstr s" "cstr t"
    "same_pointer \<Longrightarrow> s = t"
  shows "gl_strcasecmp isupper tolower same_pointer s t = Some 0 \<longleftrightarrow>
    same_nocase (to_lower isupper tolower) s t"
proof (cases same_pointer)
  case False
  obtain k where k: "strcasecmp_loop (to_lower isupper tolower) (s @ [NUL]) (t @ [NUL]) = Some k"
    "sgn k = strcmp (map (to_lower isupper tolower) s) (map (to_lower isupper tolower) t)"
    using strcasecmp_loop_sign [of "to_lower isupper tolower" s t] assms(1-3) by blast
  have "k = 0 \<longleftrightarrow> sgn k = 0" by (auto simp: sgn_if)
  then show ?thesis
    using False k by (simp add: gl_strcasecmp_def same_nocase_def)
qed (use assms(4) in \<open>simp add: gl_strcasecmp_def same_nocase_def\<close>)

subsection \<open>\<open>rpmatch\<close>\<close>

text \<open>
  \<open>localized_pattern\<close>: \<open>gettext\<close> gives its argument back where the catalog has no translation; the pointers are equal
  then, and the test of the code is one of pointers.  \<open>langinfo\<close> is \<open>nl_langinfo\<close>, NULL as \<^const>\<open>None\<close>.
\<close>

definition localized_pattern ::
    "bool \<Rightarrow> (string \<Rightarrow> string option) \<Rightarrow> ('i \<Rightarrow> string option) \<Rightarrow> string \<Rightarrow> 'i \<Rightarrow> bool \<Rightarrow> string" where
  "localized_pattern have_yesexpr catalog langinfo english_pattern nl_index posixly_correct =
     (let system = (case langinfo nl_index of Some p \<Rightarrow> if p \<noteq> [] then Some p else None | None \<Rightarrow> None);
          gettext = (case catalog english_pattern of Some p \<Rightarrow> p | None \<Rightarrow> english_pattern)
      in if \<not> have_yesexpr then gettext
         else if posixly_correct \<and> system \<noteq> None then the system
         else if catalog english_pattern = None
              then (case system of Some p \<Rightarrow> p | None \<Rightarrow> english_pattern)
              else gettext)"

text \<open>
  A cache is the pattern that was compiled last and what came of it, or nothing.  \<open>regcomp\<close> may fail, and so may
  \<open>strdup\<close>.
\<close>

definition try_response ::
    "bool \<Rightarrow> (string \<Rightarrow> 're option) \<Rightarrow> ('re \<Rightarrow> string \<Rightarrow> bool) \<Rightarrow> string \<Rightarrow> string \<Rightarrow> (string \<times> 're) option \<Rightarrow>
     int \<times> (string \<times> 're) option" where
  "try_response strdup_ok regcomp regexec response pattern cache =
     (case cache of
        Some (lastp, re) \<Rightarrow>
          if strcmp pattern lastp = 0 then (if regexec re response then 1 else 0, cache)
          else if \<not> strdup_ok then (-1, None)
          else (case regcomp pattern of
                  None \<Rightarrow> (-1, None)
                | Some re \<Rightarrow> (if regexec re response then 1 else 0, Some (pattern, re)))
      | None \<Rightarrow>
          if \<not> strdup_ok then (-1, None)
          else (case regcomp pattern of
                  None \<Rightarrow> (-1, None)
                | Some re \<Rightarrow> (if regexec re response then 1 else 0, Some (pattern, re))))"

definition rpmatch_cached ::
    "bool \<Rightarrow> (string \<Rightarrow> 're option) \<Rightarrow> ('re \<Rightarrow> string \<Rightarrow> bool) \<Rightarrow> string \<Rightarrow> string \<Rightarrow> string \<Rightarrow>
     (string \<times> 're) option \<times> (string \<times> 're) option \<Rightarrow> int \<times> (string \<times> 're) option \<times> (string \<times> 're) option" where
  "rpmatch_cached strdup_ok regcomp regexec yesexpr noexpr response caches =
     (case caches of (yes, no) \<Rightarrow>
        (case try_response strdup_ok regcomp regexec response yesexpr yes of (result, yes) \<Rightarrow>
           if result < 0 then (-1, yes, no)
           else if result \<noteq> 0 then (1, yes, no)
           else (case try_response strdup_ok regcomp regexec response noexpr no of (result, no) \<Rightarrow>
                   if result < 0 then (-1, yes, no)
                   else if result \<noteq> 0 then (0, yes, no)
                   else (-1, yes, no))))"

text \<open>A cache holds what its pattern compiles to.\<close>

definition cache_ok :: "(string \<Rightarrow> 're option) \<Rightarrow> (string \<times> 're) option \<Rightarrow> bool" where
  "cache_ok regcomp cache \<longleftrightarrow> (case cache of None \<Rightarrow> True | Some (p, re) \<Rightarrow> regcomp p = Some re)"

lemma try_response_cached:
  assumes "cache_ok regcomp cache" "regcomp pattern = Some re"
  shows "try_response True regcomp regexec response pattern cache =
    (if regexec re response then 1 else 0, Some (pattern, re))"
  using assms by (auto simp: try_response_def cache_ok_def split: option.splits prod.splits)

text \<open>
  So the caches change no answer: \<open>rpmatch\<close> says yes where the first pattern matches, no where only the second one does,
  and leaves the caches as good as it found them.
\<close>

theorem rpmatch_is_uncached:
  assumes "cache_ok regcomp yes" "cache_ok regcomp no" "regcomp yesexpr = Some y" "regcomp noexpr = Some n"
    "rpmatch_cached True regcomp regexec yesexpr noexpr response (yes, no) = (k, yes', no')"
  shows "k = (if regexec y response then 1 else if regexec n response then 0 else -1) \<and>
    cache_ok regcomp yes' \<and> cache_ok regcomp no'"
  using assms(5) try_response_cached [OF assms(1,3)] try_response_cached [OF assms(2,4)] assms(1-4)
  by (auto simp: rpmatch_cached_def cache_ok_def split: if_splits)

text \<open>In English the patterns ask for the first letter, and \<open>rpmatch\<close> is the function without translations.\<close>

lemma rpmatch_english:
  assumes "\<And>r. regexec y r \<longleftrightarrow> r \<noteq> [] \<and> hd r \<in> {CHR ''y'', CHR ''Y''}"
    "\<And>r. regexec n r \<longleftrightarrow> r \<noteq> [] \<and> hd r \<in> {CHR ''n'', CHR ''N''}"
    "regcomp ''^[yY]'' = Some y" "regcomp ''^[nN]'' = Some n" "cache_ok regcomp yes" "cache_ok regcomp no"
  shows "fst (rpmatch_cached True regcomp regexec ''^[yY]'' ''^[nN]'' response (yes, no)) = rpmatch_plain response"
  using rpmatch_is_uncached [OF assms(5,6,3,4), of regexec response] assms(1,2)
  by (cases "rpmatch_cached True regcomp regexec ''^[yY]'' ''^[nN]'' response (yes, no)")
    (auto simp: rpmatch_plain_def split: list.splits)

text \<open>
  An answer without a newline, at the end of the input, loses its last character: a lone \<open>y\<close> is no yes, while
  without translated messages it is.
\<close>

lemma yesno_drops_last_character:
  "yesno True rpmatch_plain \<lparr>in_text = ''y'', in_error = False\<rparr> = (False, \<lparr>in_text = [], in_error = False\<rparr>)"
  "yesno False rpmatch_plain \<lparr>in_text = ''y'', in_error = False\<rparr> = (True, \<lparr>in_text = [], in_error = False\<rparr>)"
  by (simp_all add: yesno_def rpmatch_plain_def c_string_def)

subsection \<open>\<open>substring\<close>\<close>

text \<open>
  \<open>substring\<close> hands the difference of its ends to \<open>strndup\<close> as a \<open>size_t\<close>; the copy is what the model of
  \<open>string-utils.c\<close> says, also where the difference is negative.
\<close>

lemma block_at_drop: "block_at mem a bs \<Longrightarrow> block_at mem (a + k) (drop k bs)"
  by (auto simp: block_at_def add.assoc)

lemma substring_by_strndup:
  assumes "mapped_in_words mem" "block_at mem a (buf @ [NUL])" "cstr buf" "length buf < 2 ^ 63"
    "start \<ge> 0" "en \<ge> 0" "en < 2 ^ 63" "substring buf start en = Some r"
  shows "gl_strndup (\<lambda>n. True) be mem (a + nat start) (unat (word_of_int (en - start) :: 64 word)) = Some (Some (r @ [NUL]))"
proof -
  from assms(5,6,8) have s: "start \<le> int (length buf)"
    and r: "r = (if en < start then drop (nat start) buf else take (nat (en - start)) (drop (nat start) buf))"
    by (auto simp: substring_def Let_def split: if_splits)
  have blk: "block_at mem (a + nat start) (drop (nat start) buf @ [NUL])"
    using block_at_drop [OF assms(2), of "nat start"] s by simp
  have size: "unat (word_of_int d :: 64 word) = nat (d mod 2 ^ 64)" for d
    using nat_uint_eq [of "word_of_int d :: 64 word"] by (simp add: uint_word_of_int)
  moreover have "take (nat ((en - start) mod 2 ^ 64)) (drop (nat start) buf) = r"
  proof (cases "en < start")
    case True
    have "(en - start) mod 2 ^ 64 = en - start + 2 ^ 64"
      using True s assms(4,6) by (intro int_mod_pos_eq [where q = "-1"]) auto
    then show ?thesis using True r s assms(4,6) by simp
  next
    case False
    then show ?thesis using r assms(5,7) by simp
  qed
  ultimately show ?thesis
    using gl_strndup_block [OF assms(1) blk, of "\<lambda>n. True" be] assms(3)
    unfolding size [of "en - start"] by (simp add: cstr_dropI)
qed

end
