(* ===== verification/Getdelim.thy ===== *)
theory Getdelim
  imports Strbuf Io_Utils
begin

text \<open>
  \<open>src/gnulib-lib/getdelim.c\<close> and \<open>getline.c\<close>: reading a line into a buffer that grows, and
  \<open>read_line\<close> of \<open>src/src/common/io-utils.c\<close> on top of it.  \<open>size_t\<close> and \<open>ssize_t\<close> have 64 bits.  The buffer
  is a block of bytes, its size a word, and the sizes for which \<open>realloc\<close> succeeds are a parameter.
  A write outside of the block has no result.
\<close>

type_synonym size64 = "64 word"

definition SSIZE_MAX :: size64 where "SSIZE_MAX = 0x7FFFFFFFFFFFFFFF"
definition SIZE_MAX :: size64 where "SIZE_MAX = 0xFFFFFFFFFFFFFFFF"

datatype getdelim_errno = EINVAL | ENOMEM | EOVERFLOW

text \<open>\<open>*lineptr\<close>, with NULL, \<open>*n\<close>, the stream, and \<open>errno\<close> where the function sets it.\<close>

record line_buffer =
  lb_line :: "block option"
  lb_size :: size64
  lb_in :: instream
  lb_errno :: "getdelim_errno option"

definition realloc_block :: "(size64 \<Rightarrow> bool) \<Rightarrow> block option \<Rightarrow> size64 \<Rightarrow> block option" where
  "realloc_block ok old n =
     (if ok n
      then let b = (case old of None \<Rightarrow> [] | Some b \<Rightarrow> b)
           in Some (take (unat n) b @ replicate (unat n - length b) None)
      else None)"

text \<open>\<open>if (cur_len + 1 >= *n)\<close>: the size needed.\<close>

definition needed_size :: "size64 \<Rightarrow> size64" where
  "needed_size n =
     (let needed_max = (if SSIZE_MAX < SIZE_MAX then SSIZE_MAX + 1 else SIZE_MAX);
          needed = 2 * n + 1
      in if needed_max < needed then needed_max else needed)"

definition put_line :: "line_buffer \<Rightarrow> size64 \<Rightarrow> char \<Rightarrow> line_buffer option" where
  "put_line b i c =
     (case lb_line b of
        None \<Rightarrow> None
      | Some bl \<Rightarrow> map_option (\<lambda>bl. b\<lparr>lb_line := Some bl\<rparr>) (mem_set bl (uint i) c))"

text \<open>
  The loop runs over the characters to come.  Its result is the length read and the result for no
  characters where the loop was left by \<open>break\<close>, and no pair where it was left by \<open>goto\<close>.
\<close>

definition line_make_room :: "(size64 \<Rightarrow> bool) \<Rightarrow> size64 \<Rightarrow> line_buffer \<Rightarrow> getdelim_errno + line_buffer" where
  "line_make_room ok cur_len b =
     (if lb_size b \<le> cur_len + 1 then
        let needed = needed_size (lb_size b) in
        if needed \<le> cur_len + 1 then Inl EOVERFLOW
        else case realloc_block ok (lb_line b) needed of
               None \<Rightarrow> Inl ENOMEM
             | Some bl \<Rightarrow> Inr (b\<lparr>lb_line := Some bl, lb_size := needed\<rparr>)
      else Inr b)"

fun getdelim_loop ::
    "(size64 \<Rightarrow> bool) \<Rightarrow> int \<Rightarrow> string \<Rightarrow> size64 \<Rightarrow> line_buffer \<Rightarrow> ((size64 \<times> int) option \<times> line_buffer) option" where
  "getdelim_loop ok delimiter [] cur_len b = Some (Some (cur_len, -1), b)"
| "getdelim_loop ok delimiter (i # s) cur_len b =
     (let b = b\<lparr>lb_in := (lb_in b)\<lparr>in_text := s\<rparr>\<rparr> in
      case line_make_room ok cur_len b of
        Inl e \<Rightarrow> Some (None, b\<lparr>lb_errno := Some e\<rparr>)
      | Inr b \<Rightarrow>
          (case put_line b cur_len i of
             None \<Rightarrow> None
           | Some b \<Rightarrow>
               if int (byte i) = delimiter then Some (Some (cur_len + 1, 0), b)
               else getdelim_loop ok delimiter s (cur_len + 1) b))"

definition getdelim_start :: "(size64 \<Rightarrow> bool) \<Rightarrow> line_buffer \<Rightarrow> line_buffer option" where
  "getdelim_start ok b =
     (if lb_line b = None \<or> lb_size b = 0
      then map_option (\<lambda>bl. b\<lparr>lb_line := Some bl, lb_size := 120\<rparr>) (realloc_block ok (lb_line b) 120)
      else Some b)"

text \<open>The pointers are not NULL.  Where the first \<open>realloc\<close> fails, \<open>*n\<close> is 120 all the same.\<close>

definition getdelim :: "(size64 \<Rightarrow> bool) \<Rightarrow> int \<Rightarrow> line_buffer \<Rightarrow> (int \<times> line_buffer) option" where
  "getdelim ok delimiter b =
     (case getdelim_start ok b of
        None \<Rightarrow> Some (-1, b\<lparr>lb_size := 120, lb_errno := Some ENOMEM\<rparr>)
      | Some b \<Rightarrow>
          (case getdelim_loop ok delimiter (in_text (lb_in b)) 0 b of
             None \<Rightarrow> None
           | Some (None, b) \<Rightarrow> Some (-1, b)
           | Some (Some (cur_len, result), b) \<Rightarrow>
               map_option (\<lambda>b. (if cur_len \<noteq> 0 then sint cur_len else result, b)) (put_line b cur_len NUL)))"

definition getline :: "(size64 \<Rightarrow> bool) \<Rightarrow> line_buffer \<Rightarrow> (int \<times> line_buffer) option" where
  "getline ok b = getdelim ok (int (byte NL)) b"

text \<open>
  \<open>read_line\<close> starts with NULL and 0.  It returns the buffer or NULL; the last part of the result is what is
  allocated and reached by nobody afterwards.
\<close>

definition read_line_buffer ::
    "(size64 \<Rightarrow> bool) \<Rightarrow> instream \<Rightarrow> (block option \<times> instream \<times> block option) option" where
  "read_line_buffer ok ins =
     map_option (\<lambda>(rc, b).
         if rc < 0 then (None, lb_in b, lb_line b) else (lb_line b, lb_in b, None))
       (getline ok \<lparr>lb_line = None, lb_size = 0, lb_in = ins, lb_errno = None\<rparr>)"

subsection \<open>Bounds\<close>

definition buffer_fits :: "line_buffer \<Rightarrow> bool" where
  "buffer_fits b \<longleftrightarrow> (case lb_line b of None \<Rightarrow> True | Some bl \<Rightarrow> length bl = unat (lb_size b))"

definition buffer_ready :: "line_buffer \<Rightarrow> bool" where
  "buffer_ready b \<longleftrightarrow> (\<exists>bl. lb_line b = Some bl \<and> length bl = unat (lb_size b))"

lemma length_realloc_block: "realloc_block ok old n = Some bl \<Longrightarrow> length bl = unat n"
  by (auto simp: realloc_block_def Let_def split: if_splits option.splits)

lemma getdelim_start_ready:
  "buffer_fits b \<Longrightarrow> getdelim_start ok b = Some b' \<Longrightarrow> buffer_ready b' \<and> 0 < lb_size b' \<and> lb_in b' = lb_in b"
  by (auto simp: getdelim_start_def buffer_fits_def buffer_ready_def word_gt_0 dest: length_realloc_block
      split: if_splits option.splits)

lemma put_line_Some:
  "buffer_ready b \<Longrightarrow> i < lb_size b \<Longrightarrow> \<exists>b'. put_line b i c = Some b'"
  by (auto simp: buffer_ready_def put_line_def mem_set_def word_less_nat_alt)

lemma put_line_ready:
  "put_line b i c = Some b' \<Longrightarrow> buffer_ready b \<Longrightarrow> buffer_ready b' \<and> lb_size b' = lb_size b \<and> lb_in b' = lb_in b"
  by (auto simp: buffer_ready_def put_line_def mem_set_def split: option.splits if_splits)

lemma word_Suc_le: "i < n \<Longrightarrow> i + 1 \<le> n" for i n :: size64
  by (rule inc_le)

text \<open>Room for the character and the NUL, or an error.\<close>

lemma line_make_room_ready:
  assumes "line_make_room ok cur_len b = Inr b'" "buffer_ready b" "cur_len < lb_size b"
  shows "buffer_ready b' \<and> cur_len + 1 < lb_size b' \<and> lb_in b' = lb_in b"
  using assms word_Suc_le [OF assms(3)]
  by (auto simp: line_make_room_def Let_def buffer_ready_def dest: length_realloc_block
      split: if_splits option.splits)

lemma unat_Suc_less: "i < n \<Longrightarrow> unat (i + 1) = Suc (unat i)" for i n :: size64
proof -
  assume "i < n"
  moreover have "unat n < 2 ^ 64" by (rule order_less_le_trans [OF unsigned_less]) simp
  ultimately show ?thesis by (simp add: unat_word_ariths word_less_nat_alt)
qed

lemma less_of_Suc: "i < n \<Longrightarrow> i + 1 < m \<Longrightarrow> i < m" for i n m :: size64
  by (simp add: word_less_nat_alt unat_Suc_less)

lemma getdelim_loop_in_bounds:
  "buffer_ready b \<Longrightarrow> cur_len < lb_size b \<Longrightarrow>
   \<exists>r b'. getdelim_loop ok delimiter s cur_len b = Some (r, b') \<and> buffer_ready b' \<and>
     (\<forall>n k. r = Some (n, k) \<longrightarrow> n < lb_size b')"
proof (induction ok delimiter s cur_len b rule: getdelim_loop.induct)
  case (2 ok delimiter i s cur_len b)
  let ?b = "b\<lparr>lb_in := (lb_in b)\<lparr>in_text := s\<rparr>\<rparr>"
  have ready: "buffer_ready ?b" "cur_len < lb_size ?b" using 2(2,3) by (auto simp: buffer_ready_def)
  show ?case
  proof (cases "line_make_room ok cur_len ?b")
    case (Inl e)
    then show ?thesis using ready by (auto simp: buffer_ready_def)
  next
    case (Inr c)
    note c = line_make_room_ready [OF Inr ready]
    then obtain d where d: "put_line c cur_len i = Some d"
      using put_line_Some less_of_Suc [OF ready(2)] by blast
    note e = put_line_ready [OF d]
    show ?thesis using 2(1) [OF refl Inr d] c e d Inr by auto
  qed
qed auto


lemma getdelim_in_bounds:
  assumes "buffer_fits b"
  shows "\<exists>r b'. getdelim ok delimiter b = Some (r, b') \<and> buffer_fits (if getdelim_start ok b = None then b else b')"
proof (cases "getdelim_start ok b")
  case (Some c)
  note c = getdelim_start_ready [OF assms Some]
  then obtain r d where d: "getdelim_loop ok delimiter (in_text (lb_in c)) 0 c = Some (r, d)" "buffer_ready d"
    "\<And>n k. r = Some (n, k) \<Longrightarrow> n < lb_size d"
    using getdelim_loop_in_bounds [of c 0] by blast
  have fits: "buffer_ready e \<Longrightarrow> buffer_fits e" for e by (auto simp: buffer_ready_def buffer_fits_def)
  show ?thesis
  proof (cases r)
    case None
    then show ?thesis using Some d fits by (auto simp: getdelim_def)
  next
    case (Some nk)
    obtain n k where nk: "nk = (n, k)" by (cases nk)
    with Some d(3) have "n < lb_size d" by simp
    then obtain e where e: "put_line d n NUL = Some e" using put_line_Some [OF d(2)] by blast
    with put_line_ready [OF e d(2)] fits show ?thesis
      using Some d(1) nk \<open>getdelim_start ok b = Some c\<close> by (auto simp: getdelim_def)
  qed
qed (use assms in \<open>simp add: getdelim_def\<close>)

subsection \<open>The line\<close>

text \<open>The first \<open>i\<close> bytes of the buffer.\<close>

definition line_holds :: "line_buffer \<Rightarrow> string \<Rightarrow> bool" where
  "line_holds b pre \<longleftrightarrow> (\<exists>bl. lb_line b = Some bl \<and> take (length pre) bl = map Some pre)"

lemma take_replicate_None:
  "take (length pre) bl = map Some pre \<Longrightarrow> length pre \<le> n \<Longrightarrow>
   take (length pre) (take n bl @ replicate (n - length bl) None) = map Some pre"
  by (metis append_take_drop_id diff_is_0_eq' length_map length_take min.absorb_iff2 min_def take0 take_append
      take_take append_Nil2 min.absorb2)

lemma line_make_room_text:
  assumes "buffer_ready b" "cur_len < lb_size b" "Suc (unat cur_len) < 2 ^ 62" "\<And>n. ok n"
    "line_holds b pre" "length pre = unat cur_len"
  shows "\<exists>b'. line_make_room ok cur_len b = Inr b' \<and> line_holds b' pre"
proof (cases "lb_size b \<le> cur_len + 1")
  case True
  then have n: "lb_size b = cur_len + 1" using word_Suc_le [OF assms(2)] by simp
  have u: "unat (lb_size b) = Suc (unat cur_len)" using unat_Suc_less [OF assms(2)] n by simp
  have d: "unat (2 * lb_size b + 1) = 2 * unat (lb_size b) + 1"
    using u assms(3) by (simp add: unat_word_ariths)
  then have needed: "needed_size (lb_size b) = 2 * lb_size b + 1"
    using u d assms(3) by (simp add: needed_size_def SSIZE_MAX_def SIZE_MAX_def Let_def word_less_nat_alt)
  have "\<not> 2 * lb_size b + 1 \<le> cur_len + 1"
    using d u n by (simp add: word_le_nat_alt)
  moreover obtain bl where bl: "lb_line b = Some bl" "take (length pre) bl = map Some pre"
    using assms(5) by (auto simp: line_holds_def)
  moreover from bl(2) have "length pre \<le> length bl"
    by (metis length_map length_take min.absorb_iff2 min.commute)
  ultimately show ?thesis
    using True assms(4,6) d u
    by (simp add: line_make_room_def Let_def needed realloc_block_def line_holds_def take_replicate_None)
qed (use assms(5) in \<open>simp add: line_make_room_def\<close>)

lemma put_line_text:
  assumes "put_line b i c = Some b'" "line_holds b pre" "length pre = unat i"
  shows "line_holds b' (pre @ [c])"
  using assms
  by (auto simp: put_line_def line_holds_def mem_set_def take_Suc_conv_app_nth split: option.splits if_splits)

lemma getdelim_loop_text:
  assumes "buffer_ready b" "cur_len < lb_size b" "unat cur_len + length s < 2 ^ 62" "\<And>n. ok n"
    "line_holds b pre" "length pre = unat cur_len" "split_line s = (l, r)" "in_text (lb_in b) = s"
  shows "\<exists>k b'. getdelim_loop ok (int (byte NL)) s cur_len b = Some (Some (cur_len + of_nat (length l), k), b') \<and>
    line_holds b' (pre @ l) \<and> buffer_ready b' \<and> lb_in b' = (lb_in b)\<lparr>in_text := r\<rparr> \<and> (l = [] \<longrightarrow> k = -1)"
  using assms
proof (induction s arbitrary: b cur_len pre l)
  case (Cons i s)
  let ?b = "b\<lparr>lb_in := (lb_in b)\<lparr>in_text := s\<rparr>\<rparr>"
  have b: "buffer_ready ?b" "cur_len < lb_size ?b" "line_holds ?b pre"
    using Cons.prems by (auto simp: buffer_ready_def line_holds_def)
  have "Suc (unat cur_len) < 2 ^ 62" using Cons.prems(3) by simp
  then obtain c where c: "line_make_room ok cur_len ?b = Inr c" "line_holds c pre"
    using line_make_room_text [where ok = ok, OF b(1,2) _ _ b(3) Cons.prems(6)] Cons.prems(4) by blast
  note c' = line_make_room_ready [OF c(1) b(1,2)]
  then obtain d where d: "put_line c cur_len i = Some d"
    using put_line_Some less_of_Suc [OF b(2)] by blast
  note d' = put_line_ready [OF d]
  have dl: "line_holds d (pre @ [i])" using put_line_text [OF d c(2) Cons.prems(6)] .
  show ?case
  proof (cases "i = NL")
    case True
    then show ?thesis using Cons.prems(7) c d c' d' dl by auto
  next
    case False
    then obtain l' where l: "split_line s = (l', r)" "l = i # l'"
      using Cons.prems(7) by (auto split: prod.splits)
    have u: "unat (cur_len + 1) = Suc (unat cur_len)" using unat_Suc_less [OF b(2)] by simp
    have "\<exists>k b'. getdelim_loop ok (int (byte NL)) s (cur_len + 1) d =
        Some (Some (cur_len + 1 + of_nat (length l'), k), b') \<and>
      line_holds b' ((pre @ [i]) @ l') \<and> buffer_ready b' \<and> lb_in b' = (lb_in d)\<lparr>in_text := r\<rparr> \<and> (l' = [] \<longrightarrow> k = -1)"
      using c' d' dl u l(1) Cons.prems(3,4,6) by (intro Cons.IH) auto
    then show ?thesis
      using False c d c' d' l(2) by (auto simp: byte_inject algebra_simps)
  qed
qed auto


lemma getline_line:
  assumes "buffer_fits b" "\<And>n. ok n" "length (in_text (lb_in b)) < 2 ^ 62"
    "split_line (in_text (lb_in b)) = (l, r)"
  shows "\<exists>b'. getline ok b = Some (if l = [] then -1 else int (length l), b') \<and>
    line_holds b' (l @ [NUL]) \<and> lb_in b' = (lb_in b)\<lparr>in_text := r\<rparr>"
proof -
  obtain c where c: "getdelim_start ok b = Some c"
    using assms(2) by (cases "lb_line b = None \<or> lb_size b = 0") (auto simp: getdelim_start_def realloc_block_def Let_def)
  note c' = getdelim_start_ready [OF assms(1) c]
  then have "line_holds c []" by (auto simp: line_holds_def buffer_ready_def)
  then have "\<exists>k d. getdelim_loop ok (int (byte NL)) (in_text (lb_in b)) 0 c = Some (Some (0 + of_nat (length l), k), d) \<and>
      line_holds d ([] @ l) \<and> buffer_ready d \<and> lb_in d = (lb_in c)\<lparr>in_text := r\<rparr> \<and> (l = [] \<longrightarrow> k = -1)"
    using c' assms by (intro getdelim_loop_text) auto
  then obtain k d where d: "getdelim_loop ok (int (byte NL)) (in_text (lb_in b)) 0 c = Some (Some (of_nat (length l), k), d)"
    "line_holds d l" "buffer_ready d" "lb_in d = (lb_in b)\<lparr>in_text := r\<rparr>" "l = [] \<longrightarrow> k = -1"
    using c' by auto
  have "length l \<le> length (in_text (lb_in b))"
    using split_line_concat [OF assms(4)] by (metis length_append le_add1)
  then have len: "length l < 2 ^ 62" using assms(3) by simp
  then have u: "unat (of_nat (length l) :: size64) = length l"
    by (simp add: unat_of_nat take_bit_nat_eq_self)
  have n: "sint (of_nat (length l) :: size64) = int (length l)"
    using len by (simp add: signed_of_nat signed_take_bit_int_eq_self)
  have z: "(of_nat (length l) :: size64) = 0 \<longleftrightarrow> l = []" using u unat_eq_zero [of "of_nat (length l) :: size64"] by (simp del: of_nat_eq_0_iff) 
  obtain r' e' where "getdelim_loop ok (int (byte NL)) (in_text (lb_in b)) 0 c = Some (r', e')"
    "\<forall>n k. r' = Some (n, k) \<longrightarrow> n < lb_size e'"
    using getdelim_loop_in_bounds [of c 0] c' by blast
  then have "of_nat (length l) < lb_size d" using d(1) by auto
  then obtain e where e: "put_line d (of_nat (length l)) NUL = Some e" using put_line_Some [OF d(3)] by blast
  have "line_holds e (l @ [NUL])" using put_line_text [OF e d(2)] u by simp
  then show ?thesis
    using c c' d e z n put_line_ready [OF e d(3)] by (auto simp: getline_def getdelim_def)
qed

lemma read_string_line:
  "take (length l + 1) bl = map Some (l @ [NUL]) \<Longrightarrow> read_string bl = Some (c_string l)"
proof (induction l arbitrary: bl)
  case Nil
  then show ?case by (cases bl) (auto simp: c_string_def)
next
  case (Cons c l)
  then obtain bl' where "bl = Some c # bl'" "take (length l + 1) bl' = map Some (l @ [NUL])"
    by (cases bl) auto
  then show ?case using Cons.IH by (auto simp: c_string_def)
qed

lemma split_line_Nil: "split_line s = ([], r) \<longleftrightarrow> s = [] \<and> r = []"
  by (cases s) (auto split: prod.splits)

text \<open>
  C39. \<open>getline\<close> reads a line: with a buffer of any size, or none, it returns the length of the line with its
  newline, or -1 at the end of the text; the buffer then holds the line and a NUL, and the stream the
  rest.  It does so where memory does not run out and the text is shorter than \<open>2 ^ 62\<close>; whatever \<open>realloc\<close> does
  and however long the text is, no byte is written outside of the buffer.
\<close>

theorem getline_reads_a_line:
  assumes "buffer_fits b"
  shows "(\<exists>r b'. getline ok' b = Some (r, b')) \<and>
    ((\<forall>n. ok n) \<longrightarrow> length (in_text (lb_in b)) < 2 ^ 62 \<longrightarrow>
     (\<exists>b' bl. getline ok b =
          Some (if in_text (lb_in b) = [] then -1 else int (length (fst (split_line (in_text (lb_in b))))), b') \<and>
        lb_line b' = Some bl \<and>
        take (length (fst (split_line (in_text (lb_in b)))) + 1) bl =
          map Some (fst (split_line (in_text (lb_in b))) @ [NUL]) \<and>
        lb_in b' = (lb_in b)\<lparr>in_text := snd (split_line (in_text (lb_in b)))\<rparr>))"
proof (intro conjI impI)
  show "\<exists>r b'. getline ok' b = Some (r, b')" 
    using getdelim_in_bounds [OF assms] unfolding getline_def by blast
  assume "\<forall>n. ok n" "length (in_text (lb_in b)) < 2 ^ 62"
  obtain l r where lr: "split_line (in_text (lb_in b)) = (l, r)" by fastforce
  have "l = [] \<longleftrightarrow> in_text (lb_in b) = []" using lr split_line_Nil by (metis prod.inject split_line.simps(1))
  with getline_line [where ok = ok, OF assms _ \<open>length (in_text (lb_in b)) < 2 ^ 62\<close> lr] \<open>\<forall>n. ok n\<close> lr
  show "\<exists>b' bl. getline ok b =
          Some (if in_text (lb_in b) = [] then -1 else int (length (fst (split_line (in_text (lb_in b))))), b') \<and>
        lb_line b' = Some bl \<and>
        take (length (fst (split_line (in_text (lb_in b)))) + 1) bl =
          map Some (fst (split_line (in_text (lb_in b))) @ [NUL]) \<and>
        lb_in b' = (lb_in b)\<lparr>in_text := snd (split_line (in_text (lb_in b)))\<rparr>"
    by (auto simp: line_holds_def)
qed

definition two_lines :: line_buffer where
  "two_lines = \<lparr>lb_line = None, lb_size = 0, lb_in = \<lparr>in_text = ''ab'' @ NL # ''c'', in_error = False\<rparr>, lb_errno = None\<rparr>"

lemma getline_reads_a_line_witness:
  "\<exists>b'. getline (\<lambda>n. True) two_lines = Some (3, b') \<and> in_text (lb_in b') = ''c''"
  using getline_reads_a_line [of two_lines "\<lambda>n. True" "\<lambda>n. True"]
  by (auto simp: two_lines_def buffer_fits_def)

text \<open>
  \<open>read_line\<close> reads the lines that the streams of \<^theory_text>\<open>Io_Utils\<close> give; at the end of the text it returns NULL and
  leaves behind the block that \<open>getline\<close> has allocated.
\<close>

theorem read_line_leaks_at_end:
  assumes "\<forall>n. ok n" "length (in_text ins) < 2 ^ 62"
  shows "\<exists>out leaked. read_line_buffer ok ins = Some (out, snd (read_line ins), leaked) \<and>
    (case out of None \<Rightarrow> fst (read_line ins) = None | Some bl \<Rightarrow> read_string bl = fst (read_line ins)) \<and>
    (leaked \<noteq> None \<longleftrightarrow> in_text ins = [])"
proof -
  let ?b = "\<lparr>lb_line = None, lb_size = 0, lb_in = ins, lb_errno = None\<rparr>"
  obtain l r where lr: "split_line (in_text ins) = (l, r)" by fastforce
  obtain b' bl where b: "getline ok ?b = Some (if l = [] then -1 else int (length l), b')"
    "lb_line b' = Some bl" "take (length l + 1) bl = map Some (l @ [NUL])" "lb_in b' = ins\<lparr>in_text := r\<rparr>"
    using getline_line [of ?b ok l r] assms lr by (auto simp: buffer_fits_def line_holds_def)
  show ?thesis
  proof (cases "in_text ins = []")
    case True
    then have "l = []" "r = []" using lr by auto
    then show ?thesis using True b lr by (simp add: read_line_buffer_def read_line_def)
  next
    case False
    then have "l \<noteq> []" using lr split_line_Nil by auto
    then show ?thesis
      using False b lr read_string_line [OF b(3)] by (simp add: read_line_buffer_def read_line_def)
  qed
qed

end
