(* ===== verification/Allocation.thy ===== *)
theory Allocation
  imports Getdelim String_Utils
begin

text \<open>
  The wrappers of the allocator and of \<open>printf\<close> that the programs call, \<open>src/gnulib-lib/xalloc.h\<close>, \<open>xmalloc.c\<close>,
  \<open>xsize.h\<close>, \<open>xvasprintf.c\<close> and \<open>xasprintf.c\<close>.  \<open>size_t\<close> is a word of 64 bits.  The sizes for which \<open>malloc\<close> succeeds are a
  parameter; running out of memory ends the program, the value \<open>Memory_Exhausted\<close>.
\<close>

unbundle bit_operations_syntax

subsection \<open>Allocation\<close>

datatype alloc_failure = Memory_Exhausted

text \<open>A pointer is NULL or a block.\<close>

definition malloc_block :: "(size64 \<Rightarrow> bool) \<Rightarrow> size64 \<Rightarrow> block option" where
  "malloc_block ok n = (if ok n then Some (replicate (unat n) None) else None)"

definition xmalloc :: "(size64 \<Rightarrow> bool) \<Rightarrow> size64 \<Rightarrow> alloc_failure + block option" where
  "xmalloc ok n =
     (let p = malloc_block ok n in if p = None \<and> n \<noteq> 0 then Inl Memory_Exhausted else Inr p)"

definition xrealloc :: "(size64 \<Rightarrow> bool) \<Rightarrow> block option \<Rightarrow> size64 \<Rightarrow> alloc_failure + block option" where
  "xrealloc ok p n =
     (if n = 0 \<and> p \<noteq> None then Inr None
      else let p = realloc_block ok p n in if p = None \<and> n \<noteq> 0 then Inl Memory_Exhausted else Inr p)"

definition DEFAULT_MXFAST :: size64 where "DEFAULT_MXFAST = 64 * 8 div 4"

definition x2nrealloc ::
    "(size64 \<Rightarrow> bool) \<Rightarrow> block option \<Rightarrow> size64 \<Rightarrow> size64 \<Rightarrow> alloc_failure + block option \<times> size64" where
  "x2nrealloc ok p n s =
     (if p = None then
        let n = (if n = 0 then let n = DEFAULT_MXFAST div s in n + (if n = 0 then 1 else 0) else n)
        in map_sum id (\<lambda>p. (p, n)) (xrealloc ok p (n * s))
      else if (- 1) div 3 * 2 div s \<le> n then Inl Memory_Exhausted
      else let n = n + (n + 1) div 2 in map_sum id (\<lambda>p. (p, n)) (xrealloc ok p (n * s)))"

definition x2realloc ::
    "(size64 \<Rightarrow> bool) \<Rightarrow> block option \<Rightarrow> size64 \<Rightarrow> alloc_failure + block option \<times> size64" where
  "x2realloc ok p n = x2nrealloc ok p n 1"

text \<open>\<open>memcpy\<close> to NULL has no result, nor has a copy that leaves either block.\<close>

definition xmemdup :: "(size64 \<Rightarrow> bool) \<Rightarrow> string \<Rightarrow> size64 \<Rightarrow> (alloc_failure + block) option" where
  "xmemdup ok p s =
     (case xmalloc ok s of
        Inl e \<Rightarrow> Some (Inl e)
      | Inr None \<Rightarrow> None
      | Inr (Some b) \<Rightarrow> map_option Inr (mem_copy b 0 p (unat s)))"

definition xstrdup :: "(size64 \<Rightarrow> bool) \<Rightarrow> string \<Rightarrow> (alloc_failure + block) option" where
  "xstrdup ok str = xmemdup ok (str @ [NUL]) (of_nat (length str) + 1)"

definition xzalloc :: "(size64 \<Rightarrow> bool) \<Rightarrow> size64 \<Rightarrow> alloc_failure + block option" where
  "xzalloc ok s = map_sum id (map_option (map (\<lambda>_. Some NUL))) (xmalloc ok s)"

subsection \<open>Joining strings\<close>

definition xsum :: "size64 \<Rightarrow> size64 \<Rightarrow> size64" where
  "xsum size1 size2 = (let sum = size1 + size2 in if size1 \<le> sum then sum else SIZE_MAX)"

definition INT_MAX :: size64 where "INT_MAX = 0x7FFFFFFF"

text \<open>The strings are the arguments in \<open>args\<close>; there must be as many as \<open>argcount\<close> says.\<close>

fun total_size :: "string list \<Rightarrow> size64 \<Rightarrow> size64" where
  "total_size [] totalsize = totalsize"
| "total_size (s # args) totalsize = total_size args (xsum totalsize (of_nat (length s)))"

fun fill_strings :: "string list \<Rightarrow> block \<Rightarrow> nat \<Rightarrow> (block \<times> nat) option" where
  "fill_strings [] b p = Some (b, p)"
| "fill_strings (s # args) b p =
     (case mem_copy b (int p) s (length s) of
        None \<Rightarrow> None
      | Some b \<Rightarrow> fill_strings args b (p + length s))"

datatype joined = Joined block | Join_Overflow | Join_Died alloc_failure | Printed string | Print_Failed getdelim_errno

definition xstrcat :: "(size64 \<Rightarrow> bool) \<Rightarrow> nat \<Rightarrow> string list \<Rightarrow> joined option" where
  "xstrcat ok argcount args =
     (if length args < argcount then None
      else
        let args = take argcount args; totalsize = total_size args 0 in
        if totalsize = SIZE_MAX \<or> INT_MAX < totalsize then Some Join_Overflow
        else case xmalloc ok (totalsize + 1) of
               Inl e \<Rightarrow> Some (Join_Died e)
             | Inr None \<Rightarrow> None
             | Inr (Some b) \<Rightarrow>
                 (case fill_strings args b 0 of
                    None \<Rightarrow> None
                  | Some (b, p) \<Rightarrow> map_option Joined (mem_set b (int p) NUL)))"

text \<open>The format \<open>%s...%s\<close>, with the number of its arguments.\<close>

fun only_strings :: "string \<Rightarrow> nat \<Rightarrow> nat option" where
  "only_strings [] argcount = Some argcount"
| "only_strings (c # f) argcount =
     (if c \<noteq> CHR 0x25 then None
      else case f of
             [] \<Rightarrow> None
           | d # f \<Rightarrow> if d \<noteq> CHR ''s'' then None else only_strings f (argcount + 1))"

text \<open>Another format is printed by \<open>vasprintf\<close>, whose result on it is an argument.\<close>

definition xvasprintf ::
    "(size64 \<Rightarrow> bool) \<Rightarrow> (string \<Rightarrow> string list \<Rightarrow> getdelim_errno + string) \<Rightarrow> string \<Rightarrow> string list \<Rightarrow> joined option" where
  "xvasprintf ok vasprintf format args =
     (case only_strings format 0 of
        Some argcount \<Rightarrow> xstrcat ok argcount args
      | None \<Rightarrow>
          (case vasprintf format args of
             Inr s \<Rightarrow> Some (Printed s)
           | Inl e \<Rightarrow> Some (if e = ENOMEM then Join_Died Memory_Exhausted else Print_Failed e)))"

subsection \<open>Growing a block\<close>

lemma two_thirds: "(- 1 :: size64) div 3 * 2 = 12297829382473034410"
  by code_simp

lemma unat_add_small: "unat a + unat b < 2 ^ 64 \<Longrightarrow> unat (a + b) = unat a + unat b" for a b :: size64
  by (simp add: unat_word_ariths)

lemma unat_bound: "unat (n :: size64) < 2 ^ 64"
  by (rule order_less_le_trans [OF unsigned_less]) simp

lemma x2nrealloc_bounds:
  fixes n s :: size64
  assumes "\<not> (- 1) div 3 * 2 div s \<le> n" "s \<noteq> 0" "n \<noteq> 0"
  shows "unat n < unat (n + (n + 1) div 2)" "unat (n + (n + 1) div 2) * unat s < 2 ^ 64"
proof -
  let ?n = "unat n" and ?s = "unat s"
  have s: "0 < ?s" and n: "0 < ?n" using assms(2,3) by (simp_all add: unat_gt_0)
  have "?n < 12297829382473034410 div ?s"
    using assms(1) unfolding two_thirds by (simp add: word_le_nat_alt unat_div)
  then have k: "Suc ?n * ?s \<le> 12297829382473034410"
    using less_eq_div_iff_mult_less_eq [OF s, of "Suc ?n" 12297829382473034410] by simp
  have "Suc ?n * 1 \<le> Suc ?n * ?s" using s by (intro mult_le_mono2) simp
  with k have "Suc ?n \<le> 12297829382473034410" by simp
  moreover from this have h: "unat ((n + 1) div 2) = Suc ?n div 2"
    by (simp add: unat_div unat_word_ariths)
  ultimately have u: "unat (n + (n + 1) div 2) = ?n + Suc ?n div 2"
    by (subst unat_add_small) auto
  show "unat n < unat (n + (n + 1) div 2)" using u n by simp
  have "2 * (?n + Suc ?n div 2) \<le> 3 * Suc ?n" by simp
  then have "2 * ((?n + Suc ?n div 2) * ?s) \<le> 3 * (Suc ?n * ?s)"
    using mult_le_mono1 [of "2 * (?n + Suc ?n div 2)" "3 * Suc ?n" ?s] by (simp only: mult.assoc)
  with k have "2 * ((?n + Suc ?n div 2) * ?s) \<le> 3 * 12297829382473034410" by linarith
  then show "unat (n + (n + 1) div 2) * unat s < 2 ^ 64"
    unfolding u by (simp add: mult.commute)
qed

text \<open>
  A block that is there grows, and the size in bytes of the larger one is the true product: so a caller that
  writes up to the new number of elements stays in the block.
\<close>

lemma xrealloc_length: "xrealloc ok p n = Inr (Some b) \<Longrightarrow> length b = unat n"
  by (auto simp: xrealloc_def Let_def dest: length_realloc_block split: if_splits)

theorem x2nrealloc_grows:
  assumes "x2nrealloc ok (Some b) n s = Inr (p', n')" "s \<noteq> 0" "n \<noteq> 0"
  shows "n < n' \<and> (\<exists>b'. p' = Some b' \<and> length b' = unat n' * unat s)"
proof -
  from assms(1) have c: "\<not> (- 1) div 3 * 2 div s \<le> n"
    and n': "n' = n + (n + 1) div 2" and p: "xrealloc ok (Some b) (n' * s) = Inr p'"
    by (cases "xrealloc ok (Some b) ((n + (n + 1) div 2) * s)";
        auto simp: x2nrealloc_def Let_def split: if_splits)+
  note b = x2nrealloc_bounds [OF c assms(2,3), folded n']
  then have m: "unat (n' * s) = unat n' * unat s" by (simp add: unat_word_ariths)
  have "n' * s \<noteq> 0" using m b(1) assms(2) by (metis mult_is_0 not_less_zero unat_0 unat_eq_zero)
  then obtain b' where "p' = Some b'" using p by (cases p') (auto simp: xrealloc_def Let_def split: if_splits)
  then show ?thesis using b(1) m p xrealloc_length by (auto simp: word_less_nat_alt)
qed

text \<open>
  The first block is different: where the caller asks for \<open>n\<close> elements the product is not checked.  For
  \<open>2 ^ 61 + 1\<close> elements of 8 bytes, the block has 8 bytes.
\<close>

theorem x2nrealloc_first_block_wraps:
  "x2nrealloc (\<lambda>n. True) None 0x2000000000000001 8 = Inr (Some (replicate 8 None), 0x2000000000000001)"
  by (simp add: x2nrealloc_def xrealloc_def realloc_block_def)

lemma length_malloc_block: "malloc_block ok n = Some b \<Longrightarrow> length b = unat n"
  by (auto simp: malloc_block_def split: if_splits)

lemma mem_copy_0: "mem_copy b 0 s (length s) = (if length s \<le> length b then Some (map Some s @ drop (length s) b) else None)"
  by (simp add: mem_copy_def)

lemma xstrdup_copies:
  assumes "length str < 2 ^ 64 - 1"
  shows "xstrdup ok str =
    Some (if ok (of_nat (length str) + 1) then Inr (map Some (str @ [NUL])) else Inl Memory_Exhausted)"
proof -
  have u: "unat (of_nat (length str) + 1 :: size64) = length str + 1"
    using assms by (simp add: unat_word_ariths unat_of_nat take_bit_nat_eq_self)
  then have nz: "(of_nat (length str) + 1 :: size64) \<noteq> 0" by (metis add_is_0 one_neq_zero unat_0)
  show ?thesis
    using u nz mem_copy_0 [of "replicate (length str + 1) None" "str @ [NUL]"]
    by (simp add: xstrdup_def xmemdup_def xmalloc_def malloc_block_def Let_def)
qed


subsection \<open>What \<open>xasprintf\<close> returns\<close>

lemma unat_SIZE_MAX: "unat SIZE_MAX = 2 ^ 64 - 1"
  by (simp add: SIZE_MAX_def)

lemma unat_xsum: "unat (xsum a b) = min (unat a + unat b) (2 ^ 64 - 1)"
proof (cases "unat a + unat b < 2 ^ 64")
  case True
  then show ?thesis by (simp add: xsum_def word_le_nat_alt unat_add_small)
next
  case False
  then have "unat (a + b) = unat a + unat b - 2 ^ 64"
    using unat_bound [of a] unat_bound [of b] by (simp add: unat_word_ariths le_mod_geq)
  then have "\<not> a \<le> a + b" using False unat_bound [of a] unat_bound [of b] by (simp add: word_le_nat_alt)
  then show ?thesis using False by (simp add: xsum_def unat_SIZE_MAX)
qed

lemma unat_total_size:
  "\<forall>s \<in> set args. length s < 2 ^ 64 \<Longrightarrow>
   unat (total_size args t) = min (unat t + length (concat args)) (2 ^ 64 - 1)"
proof (induction args arbitrary: t)
  case Nil
  then show ?case using unat_bound [of t] by simp
next
  case (Cons s args)
  then have "unat (of_nat (length s) :: size64) = length s" by (simp add: unat_of_nat take_bit_nat_eq_self)
  then show ?case using Cons by (simp add: unat_xsum min_def)
qed

lemma mem_copy_at:
  "length pre = p \<Longrightarrow> p + length s \<le> length (pre @ b) \<Longrightarrow>
   mem_copy (pre @ b) (int p) s (length s) = Some ((pre @ map Some s) @ drop (length s) b)"
  by (simp add: mem_copy_def)

lemma fill_strings_spec:
  "length pre = p \<Longrightarrow> length (concat args) \<le> length b \<Longrightarrow>
   fill_strings args (pre @ b) p =
     Some (pre @ map Some (concat args) @ drop (length (concat args)) b, p + length (concat args))"
proof (induction args arbitrary: pre b p)
  case (Cons s args)
  have "fill_strings args ((pre @ map Some s) @ drop (length s) b) (p + length s) =
      Some ((pre @ map Some s) @ map Some (concat args) @ drop (length (concat args)) (drop (length s) b),
        p + length s + length (concat args))"
    using Cons.prems by (intro Cons.IH) auto
  moreover have "mem_copy (pre @ b) (int p) s (length s) = Some ((pre @ map Some s) @ drop (length s) b)"
    using Cons.prems by (intro mem_copy_at) auto
  ultimately show ?case by (simp add: add.commute add.assoc)
qed simp

lemma only_strings_count: "only_strings (concat (replicate n ''%s'')) k = Some (k + n)"
  by (induction n arbitrary: k) auto

lemma only_strings_format: "only_strings f k = Some n \<Longrightarrow> k \<le> n \<and> f = concat (replicate (n - k) ''%s'')"
proof (induction f k rule: only_strings.induct)
  case (2 c f k)
  then obtain f' where f: "c = CHR ''%''" "f = CHR ''s'' # f'" "only_strings f' (k + 1) = Some n"
    by (auto split: if_splits list.splits)
  then have "k + 1 \<le> n \<and> f' = concat (replicate (n - (k + 1)) ''%s'')" using 2 by auto
  moreover from this have "n - k = Suc (n - (k + 1))" by (metis Suc_diff_Suc Suc_eq_plus1 less_eq_Suc_le)
  ultimately show ?case using f by simp
qed auto

lemma xstrcat_joins:
  assumes "\<forall>s \<in> set args. length s < 2 ^ 64"
  shows "xstrcat ok (length args) args = Some
    (if 2 ^ 31 \<le> length (concat args) then Join_Overflow
     else if ok (of_nat (length (concat args) + 1)) then Joined (map Some (concat args @ [NUL]))
     else Join_Died Memory_Exhausted)"
proof -
  let ?n = "length (concat args)" and ?t = "total_size args 0"
  note t = unat_total_size [OF assms, of 0]
  have big: "?t = SIZE_MAX \<or> INT_MAX < ?t \<longleftrightarrow> 2 ^ 31 \<le> ?n"
    using t by (auto simp: INT_MAX_def SIZE_MAX_def word_less_nat_alt word_unat_eq_iff)
  show ?thesis
  proof (cases "2 ^ 31 \<le> ?n")
    case False
    then have u: "?t + 1 = of_nat (?n + 1)" "unat (?t + 1) = ?n + 1" "?t + 1 \<noteq> 0"
      using t by (auto simp: word_unat_eq_iff unat_word_ariths unat_of_nat take_bit_nat_eq_self)
    have "drop ?n (replicate (?n + 1) (None :: char option)) = [None]"
      by (simp only: drop_replicate) simp
    with fill_strings_spec [of "[]" 0 args "replicate (?n + 1) None"]
    have fill: "fill_strings args (replicate (?n + 1) None) 0 = Some (map Some (concat args) @ [None], ?n)"
      by (simp del: replicate.simps)
    have "xmalloc ok (?t + 1) =
        (if ok (of_nat (?n + 1)) then Inr (Some (replicate (?n + 1) None)) else Inl Memory_Exhausted)"
      unfolding xmalloc_def malloc_block_def Let_def u(2) using u(3) unfolding u(1) by (simp del: replicate.simps)
    then show ?thesis
      using False big fill by (simp add: xstrcat_def Let_def mem_set_def list_update_append del: replicate.simps)
  qed (use big in \<open>simp add: xstrcat_def\<close>)
qed

text \<open>
  A format of \<open>%s\<close> only joins its arguments: the result is a block with all of them and a NUL, or an error where
  they are together longer than an \<open>int\<close> counts, however often the sum of the lengths leaves \<open>size_t\<close>; nothing
  is written outside of the block.
\<close>

theorem xvasprintf_joins:
  assumes "\<forall>s \<in> set args. length s < 2 ^ 64"
  shows "xvasprintf ok vasprintf (concat (replicate (length args) ''%s'')) args = Some
    (if 2 ^ 31 \<le> length (concat args) then Join_Overflow
     else if ok (of_nat (length (concat args) + 1)) then Joined (map Some (concat args @ [NUL]))
     else Join_Died Memory_Exhausted)"
  using xstrcat_joins [OF assms] by (simp add: xvasprintf_def only_strings_count)

text \<open>What \<open>cat_files\<close> calls; beyond \<open>2 ^ 31\<close> bytes it would return NULL.\<close>

lemma cat_files_joined:
  assumes "file \<noteq> ''.''" "length (cat_files file file2) < 2 ^ 31"
  shows "xvasprintf (\<lambda>n. True) vasprintf ''%s%s%s'' [file, if ends_with file ''/'' then '''' else ''/'', file2] =
    Some (Joined (map Some (cat_files file file2 @ [NUL])))"
  using xvasprintf_joins [of "[file, if ends_with file ''/'' then '''' else ''/'', file2]" "\<lambda>n. True" vasprintf] assms
  by (simp add: cat_files_def numeral_3_eq_3 split: if_splits)

end
