(* ===== verification/Printf_Parse.thy ===== *)
theory Printf_Parse
  imports Allocation
begin

text \<open>
  \<open>src/gnulib-lib/printf-parse.c\<close> and \<open>printf-args.c\<close>: a format as a list of directives, and the types of the arguments
  they take.  A pointer into the format is the text from there on, and the NUL is its end.  The tables of directives and of
  arguments are blocks of elements, \<^const>\<open>None\<close> where nothing is stored yet; storing outside of them is the result
  \<open>Out_Of_Block\<close>.  The machine has \<open>long\<close>, \<open>size_t\<close>, \<open>ptrdiff_t\<close> and \<open>intmax_t\<close> of 64 bits, \<open>long long\<close> and wide characters; an
  \<open>argument\<close> takes 32 bytes and a \<open>char_directive\<close> 88.  Whether the C library is glibc is a parameter.
\<close>

unbundle bit_operations_syntax

subsection \<open>Data\<close>

datatype arg_type =
    TYPE_NONE | TYPE_SCHAR | TYPE_UCHAR | TYPE_SHORT | TYPE_USHORT | TYPE_INT | TYPE_UINT | TYPE_LONGINT
  | TYPE_ULONGINT | TYPE_LONGLONGINT | TYPE_ULONGLONGINT | TYPE_DOUBLE | TYPE_LONGDOUBLE | TYPE_CHAR | TYPE_WIDE_CHAR
  | TYPE_STRING | TYPE_WIDE_STRING | TYPE_POINTER | TYPE_COUNT_SCHAR_POINTER | TYPE_COUNT_SHORT_POINTER
  | TYPE_COUNT_INT_POINTER | TYPE_COUNT_LONGINT_POINTER | TYPE_COUNT_LONGLONGINT_POINTER

definition FLAG_GROUP :: int where "FLAG_GROUP = 1"
definition FLAG_LEFT :: int where "FLAG_LEFT = 2"
definition FLAG_SHOWSIGN :: int where "FLAG_SHOWSIGN = 4"
definition FLAG_SPACE :: int where "FLAG_SPACE = 8"
definition FLAG_ALT :: int where "FLAG_ALT = 16"
definition FLAG_ZERO :: int where "FLAG_ZERO = 32"
definition FLAG_LOCALIZED :: int where "FLAG_LOCALIZED = 64"

definition ARG_NONE :: size64 where "ARG_NONE = NOT 0"

record char_directive =
  dir_start :: string
  dir_end :: string
  dir_flags :: int
  width_start :: "string option"
  width_end :: "string option"
  width_arg_index :: size64
  precision_start :: "string option"
  precision_end :: "string option"
  precision_arg_index :: size64
  conversion :: char
  arg_index :: size64

text \<open>The number of elements allocated is the length of the block, and a variable of its own.\<close>

record arguments =
  a_count :: nat
  a_arg :: "arg_type option list"
  a_allocated :: size64

record char_directives =
  d_count :: nat
  d_dir :: "char_directive option list"
  d_allocated :: size64
  max_width_length :: size64
  max_precision_length :: size64

datatype 'a parsing = Parsed 'a | Invalid_Format | No_Memory | Out_Of_Block

fun then_parse :: "'a parsing \<Rightarrow> ('a \<Rightarrow> 'b parsing) \<Rightarrow> 'b parsing" where
  "then_parse (Parsed x) f = f x"
| "then_parse Invalid_Format f = Invalid_Format"
| "then_parse No_Memory f = No_Memory"
| "then_parse Out_Of_Block f = Out_Of_Block"

subsection \<open>Registering an argument\<close>

definition xtimes :: "size64 \<Rightarrow> size64 \<Rightarrow> size64" where
  "xtimes n elsize = (if n \<le> SIZE_MAX div elsize then n * elsize else SIZE_MAX)"

definition grow_args :: "(size64 \<Rightarrow> bool) \<Rightarrow> size64 \<Rightarrow> arguments \<Rightarrow> arguments parsing" where
  "grow_args ok n a =
     (if a_allocated a \<le> n then
        let allocated = xtimes (a_allocated a) 2;
            allocated = (if allocated \<le> n then xsum n 1 else allocated);
            memory_size = xtimes allocated 32
        in if memory_size = SIZE_MAX \<or> \<not> ok memory_size then No_Memory
           else Parsed (a\<lparr>a_arg := take (a_count a) (a_arg a) @ replicate (unat allocated - a_count a) None,
                          a_allocated := allocated\<rparr>)
      else Parsed a)"

text \<open>\<open>while (a->count <= n)\<close>\<close>

fun fill_none :: "nat \<Rightarrow> arguments \<Rightarrow> arguments parsing" where
  "fill_none 0 a = Parsed a"
| "fill_none (Suc k) a =
     (if a_count a < length (a_arg a)
      then fill_none k (a\<lparr>a_arg := (a_arg a)[a_count a := Some TYPE_NONE], a_count := a_count a + 1\<rparr>)
      else Out_Of_Block)"

definition register_arg :: "(size64 \<Rightarrow> bool) \<Rightarrow> size64 \<Rightarrow> arg_type \<Rightarrow> arguments \<Rightarrow> arguments parsing" where
  "register_arg ok n t a =
     then_parse (grow_args ok n a) (\<lambda>a.
     then_parse (fill_none (unat n + 1 - a_count a) a) (\<lambda>a.
       if unat n < length (a_arg a) then
         (case a_arg a ! unat n of
            None \<Rightarrow> Out_Of_Block
          | Some t' \<Rightarrow>
              if t' = TYPE_NONE then Parsed (a\<lparr>a_arg := (a_arg a)[unat n := Some t]\<rparr>)
              else if t' \<noteq> t then Invalid_Format
              else Parsed a)
       else Out_Of_Block))"

subsection \<open>Reading a directive\<close>

definition peek :: "string \<Rightarrow> char" where
  "peek cp = (case cp of [] \<Rightarrow> NUL | c # _ \<Rightarrow> c)"

definition digit :: "char \<Rightarrow> bool" where
  "digit c \<longleftrightarrow> byte CHR ''0'' \<le> byte c \<and> byte c \<le> byte CHR ''9''"

fun skip_digits :: "string \<Rightarrow> string" where
  "skip_digits [] = []"
| "skip_digits (c # cp) = (if digit c then skip_digits cp else c # cp)"

fun digits_number :: "string \<Rightarrow> size64 \<Rightarrow> size64" where
  "digits_number [] n = n"
| "digits_number (c # np) n =
     (if digit c then digits_number np (xsum (xtimes n 10) (of_nat (byte c - byte CHR ''0''))) else n)"

text \<open>A number and \<open>$\<close> is the position of an argument; otherwise the pointer stays.\<close>

definition positional :: "string \<Rightarrow> (size64 option \<times> string) parsing" where
  "positional cp =
     (if digit (peek cp) \<and> peek (skip_digits cp) = CHR ''$'' then
        let n = digits_number cp 0 in
        if n = 0 \<or> n = SIZE_MAX then Invalid_Format
        else Parsed (Some (n - 1), tl (skip_digits cp))
      else Parsed (None, cp))"

fun read_flags :: "bool \<Rightarrow> string \<Rightarrow> int \<Rightarrow> int \<times> string" where
  "read_flags glibc [] flags = (flags, [])"
| "read_flags glibc (c # cp) flags =
     (if c = CHR 0x27 then read_flags glibc cp (flags OR FLAG_GROUP)
      else if c = CHR ''-'' then read_flags glibc cp (flags OR FLAG_LEFT)
      else if c = CHR ''+'' then read_flags glibc cp (flags OR FLAG_SHOWSIGN)
      else if c = CHR '' '' then read_flags glibc cp (flags OR FLAG_SPACE)
      else if c = CHR ''#'' then read_flags glibc cp (flags OR FLAG_ALT)
      else if c = CHR ''0'' then read_flags glibc cp (flags OR FLAG_ZERO)
      else if glibc \<and> c = CHR ''I'' then read_flags glibc cp (flags OR FLAG_LOCALIZED)
      else (flags, c # cp))"

text \<open>The variables of the function while it reads a directive.\<close>

record parser =
  p_cp :: string
  p_posn :: size64
  p_args :: arguments
  p_max_width :: size64
  p_max_precision :: size64
  p_dir :: char_directive

text \<open>The next argument, where no position is given.\<close>

definition next_arg :: "size64 option \<Rightarrow> parser \<Rightarrow> (size64 \<times> parser) parsing" where
  "next_arg position p =
     (case position of
        Some n \<Rightarrow> Parsed (n, p)
      | None \<Rightarrow> if p_posn p = ARG_NONE then Invalid_Format else Parsed (p_posn p, p\<lparr>p_posn := p_posn p + 1\<rparr>))"

definition take_arg ::
    "(size64 \<Rightarrow> bool) \<Rightarrow> size64 option \<Rightarrow> arg_type \<Rightarrow> parser \<Rightarrow> (size64 \<times> parser) parsing" where
  "take_arg ok position t p =
     then_parse (next_arg position p) (\<lambda>(n, p).
     then_parse (register_arg ok n t (p_args p)) (\<lambda>a. Parsed (n, p\<lparr>p_args := a\<rparr>)))"

definition parse_width :: "(size64 \<Rightarrow> bool) \<Rightarrow> parser \<Rightarrow> parser parsing" where
  "parse_width ok p =
     (let cp = p_cp p in
      if peek cp = CHR ''*'' then
        then_parse (positional (tl cp)) (\<lambda>(position, cp').
        then_parse (take_arg ok position TYPE_INT
            (p\<lparr>p_cp := cp', p_max_width := (if p_max_width p < 1 then 1 else p_max_width p),
               p_dir := (p_dir p)\<lparr>width_start := Some cp, width_end := Some (tl cp)\<rparr>\<rparr>)) (\<lambda>(n, p).
          Parsed (p\<lparr>p_dir := (p_dir p)\<lparr>width_arg_index := n\<rparr>\<rparr>)))
      else if digit (peek cp) then
        let e = skip_digits cp; n = of_nat (length cp - length e) in
        Parsed (p\<lparr>p_cp := e, p_max_width := (if p_max_width p < n then n else p_max_width p),
          p_dir := (p_dir p)\<lparr>width_start := Some cp, width_end := Some e\<rparr>\<rparr>)
      else Parsed p)"

definition parse_precision :: "(size64 \<Rightarrow> bool) \<Rightarrow> parser \<Rightarrow> parser parsing" where
  "parse_precision ok p =
     (let start = p_cp p in
      if peek start = CHR ''.'' then
        let cp = tl start in
        if peek cp = CHR ''*'' then
          then_parse (positional (tl cp)) (\<lambda>(position, cp').
          then_parse (take_arg ok position TYPE_INT
              (p\<lparr>p_cp := cp', p_max_precision := (if p_max_precision p < 2 then 2 else p_max_precision p),
                 p_dir := (p_dir p)\<lparr>precision_start := Some start, precision_end := Some (tl cp)\<rparr>\<rparr>)) (\<lambda>(n, p).
            Parsed (p\<lparr>p_dir := (p_dir p)\<lparr>precision_arg_index := n\<rparr>\<rparr>)))
        else
          let e = skip_digits cp; n = of_nat (length start - length e) in
          Parsed (p\<lparr>p_cp := e, p_max_precision := (if p_max_precision p < n then n else p_max_precision p),
            p_dir := (p_dir p)\<lparr>precision_start := Some start, precision_end := Some e\<rparr>\<rparr>)
      else Parsed p)"

text \<open>The argument sizes \<open>h\<close>, \<open>L\<close>, \<open>l\<close>, \<open>j\<close>, \<open>z\<close>, \<open>Z\<close> and \<open>t\<close>, where \<open>long\<close> has the size of the last ones.\<close>

fun size_flags :: "string \<Rightarrow> int \<Rightarrow> int \<times> string" where
  "size_flags [] flags = (flags, [])"
| "size_flags (c # cp) flags =
     (if c = CHR ''h'' then size_flags cp (flags OR (if flags AND 1 = 1 then 2 else 1))
      else if c = CHR ''L'' then size_flags cp (flags OR 4)
      else if c = CHR ''l'' then size_flags cp (flags + 8)
      else if c = CHR ''j'' \<or> c = CHR ''z'' \<or> c = CHR ''Z'' \<or> c = CHR ''t'' then size_flags cp (flags + 8)
      else (flags, c # cp))"

text \<open>The type, and the conversion without \<open>C\<close> and \<open>S\<close>; nothing for an unknown one.\<close>

definition conversion_type :: "int \<Rightarrow> char \<Rightarrow> (arg_type \<times> char) option" where
  "conversion_type flags c =
     (let longlong = (16 \<le> flags \<or> flags AND 4 \<noteq> 0); long = (8 \<le> flags);
          schar = (flags AND 2 \<noteq> 0); short = (flags AND 1 \<noteq> 0)
      in if c \<in> set ''di'' then
           Some (if longlong then TYPE_LONGLONGINT else if long then TYPE_LONGINT else if schar then TYPE_SCHAR
                 else if short then TYPE_SHORT else TYPE_INT, c)
         else if c \<in> set ''ouxX'' then
           Some (if longlong then TYPE_ULONGLONGINT else if long then TYPE_ULONGINT else if schar then TYPE_UCHAR
                 else if short then TYPE_USHORT else TYPE_UINT, c)
         else if c \<in> set ''fFeEgGaA'' then Some (if longlong then TYPE_LONGDOUBLE else TYPE_DOUBLE, c)
         else if c = CHR ''c'' then Some (if long then TYPE_WIDE_CHAR else TYPE_CHAR, c)
         else if c = CHR ''C'' then Some (TYPE_WIDE_CHAR, CHR ''c'')
         else if c = CHR ''s'' then Some (if long then TYPE_WIDE_STRING else TYPE_STRING, c)
         else if c = CHR ''S'' then Some (TYPE_WIDE_STRING, CHR ''s'')
         else if c = CHR ''p'' then Some (TYPE_POINTER, c)
         else if c = CHR ''n'' then
           Some (if longlong then TYPE_COUNT_LONGLONGINT_POINTER else if long then TYPE_COUNT_LONGINT_POINTER
                 else if schar then TYPE_COUNT_SCHAR_POINTER else if short then TYPE_COUNT_SHORT_POINTER
                 else TYPE_COUNT_INT_POINTER, c)
         else if c = CHR ''%'' then Some (TYPE_NONE, c)
         else None)"

text \<open>The conversion character is read at the end of the format as well; NUL is no conversion.\<close>

definition parse_conversion :: "(size64 \<Rightarrow> bool) \<Rightarrow> size64 option \<Rightarrow> parser \<Rightarrow> parser parsing" where
  "parse_conversion ok position p =
     (case size_flags (p_cp p) 0 of (flags, cp) \<Rightarrow>
        (case conversion_type flags (peek cp) of
           None \<Rightarrow> Invalid_Format
         | Some (t, c) \<Rightarrow>
             (let finish = (\<lambda>n p. p\<lparr>p_cp := tl cp,
                              p_dir := (p_dir p)\<lparr>arg_index := n, conversion := c, dir_end := tl cp\<rparr>\<rparr>)
              in if t \<noteq> TYPE_NONE
                 then then_parse (take_arg ok position t p) (\<lambda>(n, p). Parsed (finish n p))
                 else Parsed (finish ARG_NONE p))))"

text \<open>\<open>start\<close> is the text from the percent sign on.\<close>

definition new_directive :: "string \<Rightarrow> char_directive" where
  "new_directive start =
     \<lparr>dir_start = start, dir_end = [], dir_flags = 0, width_start = None, width_end = None, width_arg_index = ARG_NONE,
      precision_start = None, precision_end = None, precision_arg_index = ARG_NONE, conversion = NUL,
      arg_index = ARG_NONE\<rparr>"

definition parse_directive :: "(size64 \<Rightarrow> bool) \<Rightarrow> bool \<Rightarrow> parser \<Rightarrow> parser parsing" where
  "parse_directive ok glibc p =
     then_parse (positional (p_cp p)) (\<lambda>(position, cp).
       case read_flags glibc cp 0 of (flags, cp) \<Rightarrow>
         then_parse (parse_width ok (p\<lparr>p_cp := cp, p_dir := (p_dir p)\<lparr>dir_flags := flags\<rparr>\<rparr>)) (\<lambda>p.
         then_parse (parse_precision ok p) (\<lambda>p. parse_conversion ok position p)))"

text \<open>The pointer moves forward, and past the conversion.\<close>

lemma then_parse_Parsed: "then_parse m f = Parsed y \<longleftrightarrow> (\<exists>x. m = Parsed x \<and> f x = Parsed y)"
  by (cases m) auto

lemma suffix_tl: "suffix cp' cp \<Longrightarrow> suffix (tl cp') cp"
  by (cases cp') (auto simp: suffix_def)

lemma suffix_skip_digits: "suffix (skip_digits cp) cp"
  by (induction cp) (auto simp: suffix_ConsI)

lemma read_flags_suffix: "read_flags glibc cp flags = (f, cp') \<Longrightarrow> suffix cp' cp"
  by (induction glibc cp flags rule: read_flags.induct) (auto simp: suffix_ConsI split: if_splits)

lemma size_flags_suffix: "size_flags cp flags = (f, cp') \<Longrightarrow> suffix cp' cp"
  by (induction cp flags rule: size_flags.induct) (auto simp: suffix_ConsI split: if_splits)

lemma positional_suffix: "positional cp = Parsed (n, cp') \<Longrightarrow> suffix cp' cp"
  using suffix_tl [OF suffix_skip_digits [of cp]] by (auto simp: positional_def Let_def split: if_splits)

lemma take_arg_cp: "take_arg ok position t p = Parsed (n, p') \<Longrightarrow> p_cp p' = p_cp p \<and> p_dir p' = p_dir p"
  by (auto simp: take_arg_def next_arg_def then_parse_Parsed split: option.splits if_splits)

lemma parse_width_suffix: "parse_width ok p = Parsed p' \<Longrightarrow> suffix (p_cp p') (p_cp p)"
  using suffix_skip_digits [of "p_cp p"] suffix_tl [OF suffix_order.refl, of "p_cp p"]
  by (force simp: parse_width_def Let_def then_parse_Parsed split: if_splits prod.splits
      dest!: take_arg_cp positional_suffix intro: suffix_order.trans)

lemma parse_precision_suffix: "parse_precision ok p = Parsed p' \<Longrightarrow> suffix (p_cp p') (p_cp p)"
  using suffix_order.trans [OF suffix_skip_digits [of "tl (p_cp p)"] suffix_tl [OF suffix_order.refl, of "p_cp p"]]
    suffix_tl [OF suffix_tl [OF suffix_order.refl, of "p_cp p"]]
  by (force simp: parse_precision_def Let_def then_parse_Parsed split: if_splits prod.splits
      dest!: take_arg_cp positional_suffix intro: suffix_order.trans)

lemma parse_conversion_suffix: "parse_conversion ok position p = Parsed p' \<Longrightarrow> suffix (p_cp p') (p_cp p)"
  by (force simp: parse_conversion_def Let_def then_parse_Parsed split: if_splits prod.splits option.splits
      dest!: take_arg_cp size_flags_suffix intro: suffix_tl)

lemma parse_directive_Parsed:
  "parse_directive ok glibc p = Parsed p' \<Longrightarrow>
   (\<exists>position cp flags cp' q r. positional (p_cp p) = Parsed (position, cp) \<and> read_flags glibc cp 0 = (flags, cp') \<and>
     parse_width ok (p\<lparr>p_cp := cp', p_dir := (p_dir p)\<lparr>dir_flags := flags\<rparr>\<rparr>) = Parsed q \<and>
     parse_precision ok q = Parsed r \<and> parse_conversion ok position r = Parsed p')"
  unfolding parse_directive_def then_parse_Parsed case_prod_beta by (metis prod.collapse)

lemma parse_directive_suffix: "parse_directive ok glibc p = Parsed p' \<Longrightarrow> suffix (p_cp p') (p_cp p)"
  by (drule parse_directive_Parsed)
    (force dest!: positional_suffix read_flags_suffix parse_width_suffix parse_precision_suffix
      parse_conversion_suffix intro: suffix_order.trans)

subsection \<open>The format\<close>

definition N_DIRECT_ALLOC :: nat where "N_DIRECT_ALLOC = 7"

text \<open>The directive is finished: \<open>d->count++\<close>, and room for the next one.\<close>

definition store_directive ::
    "(size64 \<Rightarrow> bool) \<Rightarrow> char_directive \<Rightarrow> char_directives \<Rightarrow> char_directives parsing" where
  "store_directive ok dp d =
     (if d_count d < length (d_dir d) then
        let d = d\<lparr>d_dir := (d_dir d)[d_count d := Some dp], d_count := d_count d + 1\<rparr> in
        if unat (d_allocated d) \<le> d_count d then
          let allocated = xtimes (d_allocated d) 2; memory_size = xtimes allocated 88 in
          if memory_size = SIZE_MAX \<or> \<not> ok memory_size then No_Memory
          else Parsed (d\<lparr>d_dir := take (d_count d) (d_dir d) @ replicate (unat allocated - d_count d) None,
                         d_allocated := allocated\<rparr>)
        else Parsed d
      else Out_Of_Block)"

text \<open>At the end the NUL is the start of a directive that is not there.\<close>

definition finish_directives :: "parser \<Rightarrow> char_directives \<Rightarrow> (char_directives \<times> arguments) parsing" where
  "finish_directives p d =
     (if d_count d < length (d_dir d)
      then Parsed (d\<lparr>d_dir := (d_dir d)[d_count d := Some (new_directive [])],
                     max_width_length := p_max_width p, max_precision_length := p_max_precision p\<rparr>, p_args p)
      else Out_Of_Block)"

function printf_loop ::
    "(size64 \<Rightarrow> bool) \<Rightarrow> bool \<Rightarrow> parser \<Rightarrow> char_directives \<Rightarrow> (char_directives \<times> arguments) parsing" where
  "printf_loop ok glibc p d =
     (case p_cp p of
        [] \<Rightarrow> finish_directives p d
      | c # cp \<Rightarrow>
          if c = CHR ''%'' then
            (case parse_directive ok glibc (p\<lparr>p_cp := cp, p_dir := new_directive (c # cp)\<rparr>) of
               Parsed p \<Rightarrow>
                 (case store_directive ok (p_dir p) d of
                    Parsed d \<Rightarrow> printf_loop ok glibc p d
                  | Invalid_Format \<Rightarrow> Invalid_Format | No_Memory \<Rightarrow> No_Memory | Out_Of_Block \<Rightarrow> Out_Of_Block)
             | Invalid_Format \<Rightarrow> Invalid_Format | No_Memory \<Rightarrow> No_Memory | Out_Of_Block \<Rightarrow> Out_Of_Block)
          else printf_loop ok glibc (p\<lparr>p_cp := cp\<rparr>) d)"
  by pat_completeness auto
termination
  by (relation "measure (\<lambda>(_, _, p, _). length (p_cp p))") (auto dest!: parse_directive_suffix suffix_length_le)

declare printf_loop.simps [simp del]

definition no_directives :: char_directives where
  "no_directives = \<lparr>d_count = 0, d_dir = replicate N_DIRECT_ALLOC None, d_allocated = of_nat N_DIRECT_ALLOC,
     max_width_length = 0, max_precision_length = 0\<rparr>"

definition no_arguments :: arguments where
  "no_arguments = \<lparr>a_count = 0, a_arg = replicate N_DIRECT_ALLOC None, a_allocated = of_nat N_DIRECT_ALLOC\<rparr>"

definition printf_parse ::
    "(size64 \<Rightarrow> bool) \<Rightarrow> bool \<Rightarrow> string \<Rightarrow> (char_directives \<times> arguments) parsing" where
  "printf_parse ok glibc format =
     printf_loop ok glibc
       \<lparr>p_cp = format, p_posn = 0, p_args = no_arguments, p_max_width = 0, p_max_precision = 0,
        p_dir = new_directive format\<rparr> no_directives"

end
