(* ===== verification/Printf_Parse_Bounds.thy ===== *)
theory Printf_Parse_Bounds
  imports Printf_Parse
begin

text \<open>
  The parser of formats stays in its tables, and what it stores of a format is true: the directives are the ones in the
  text, in order and apart, and every argument they name is registered with the type of its use.
\<close>

named_theorems parsing_simps \<open>steps of the parser\<close>

lemma then_parse_Out [parsing_simps]:
  "then_parse m f = Out_Of_Block \<longleftrightarrow> m = Out_Of_Block \<or> (\<exists>x. m = Parsed x \<and> f x = Out_Of_Block)"
  by (cases m) auto

lemmas [parsing_simps] = then_parse_Parsed

subsection \<open>Arguments\<close>

definition args_ok :: "arguments \<Rightarrow> bool" where
  "args_ok a \<longleftrightarrow> length (a_arg a) = unat (a_allocated a) \<and> a_count a \<le> length (a_arg a) \<and>
     (\<forall>i < a_count a. a_arg a ! i \<noteq> None)"

text \<open>A use of an argument that is registered stays registered.\<close>

definition uses :: "arguments \<Rightarrow> size64 \<Rightarrow> arg_type \<Rightarrow> bool" where
  "uses a n t \<longleftrightarrow> unat n < a_count a \<and> a_arg a ! unat n = Some t \<and> t \<noteq> TYPE_NONE"

definition args_le :: "arguments \<Rightarrow> arguments \<Rightarrow> bool" where
  "args_le a b \<longleftrightarrow> (\<forall>n t. uses a n t \<longrightarrow> uses b n t)"

lemma args_le_refl [simp]: "args_le a a"
  by (simp add: args_le_def)

lemma args_le_trans: "args_le a b \<Longrightarrow> args_le b c \<Longrightarrow> args_le a c"
  by (simp add: args_le_def)

lemma ARG_NONE_SIZE_MAX: "ARG_NONE = SIZE_MAX"
  by (simp add: ARG_NONE_def SIZE_MAX_def)

lemma xtimes_2: "n \<le> xtimes n 2"
proof (cases "n \<le> SIZE_MAX div 2")
  case True
  then have "unat n * 2 < 2 ^ 64" by (simp add: SIZE_MAX_def word_le_nat_alt unat_div)
  then have "unat (n * 2) = unat n * 2" by (simp add: unat_word_ariths)
  then show ?thesis using True by (simp add: xtimes_def word_le_nat_alt)
next
  case False
  then show ?thesis using unat_bound [of n] by (simp add: xtimes_def word_le_nat_alt unat_SIZE_MAX)
qed

lemma grow_args_ok:
  assumes "args_ok a" "n \<noteq> ARG_NONE"
  shows "grow_args ok n a \<noteq> Out_Of_Block"
    "grow_args ok n a = Parsed a' \<Longrightarrow>
      args_ok a' \<and> unat n < length (a_arg a') \<and> a_count a' = a_count a \<and>
      (\<forall>i < a_count a. a_arg a' ! i = a_arg a ! i)"
proof -
  show "grow_args ok n a \<noteq> Out_Of_Block" by (simp add: grow_args_def Let_def)
  let ?al = "if xtimes (a_allocated a) 2 \<le> n then xsum n 1 else xtimes (a_allocated a) 2"
  assume g: "grow_args ok n a = Parsed a'"
  show "args_ok a' \<and> unat n < length (a_arg a') \<and> a_count a' = a_count a \<and>
      (\<forall>i < a_count a. a_arg a' ! i = a_arg a ! i)"
  proof (cases "a_allocated a \<le> n")
    case True
    have "unat n \<noteq> unat SIZE_MAX" using assms(2) by (simp add: ARG_NONE_SIZE_MAX word_unat_eq_iff)
    then have "unat n < 2 ^ 64 - 1" using unat_bound [of n] unat_SIZE_MAX by linarith
    then have "n < ?al" by (simp add: word_less_nat_alt unat_xsum linorder_not_le [symmetric] word_le_nat_alt)
    moreover from this True have "a_allocated a \<le> ?al" by (meson le_less_trans less_imp_le)
    ultimately show ?thesis
      using g True assms(1)
      by (auto simp: grow_args_def Let_def args_ok_def word_less_nat_alt word_le_nat_alt nth_append min_def
          split: if_splits)
  next
    case False
    then show ?thesis using g assms(1) by (simp add: grow_args_def args_ok_def word_le_nat_alt)
  qed
qed

lemma fill_none_ok:
  "args_ok a \<Longrightarrow> a_count a + k \<le> length (a_arg a) \<Longrightarrow>
   \<exists>a'. fill_none k a = Parsed a' \<and> args_ok a' \<and> a_count a' = a_count a + k \<and> length (a_arg a') = length (a_arg a) \<and>
     (\<forall>i < a_count a. a_arg a' ! i = a_arg a ! i) \<and>
     (\<forall>i. a_count a \<le> i \<and> i < a_count a + k \<longrightarrow> a_arg a' ! i = Some TYPE_NONE)"
proof (induction k a rule: fill_none.induct)
  case (2 k a)
  let ?a = "a\<lparr>a_arg := (a_arg a)[a_count a := Some TYPE_NONE], a_count := a_count a + 1\<rparr>"
  have lt: "a_count a < length (a_arg a)" using 2(3) by simp
  have "args_ok ?a" using 2(2) lt by (auto simp: args_ok_def nth_list_update less_Suc_eq)
  then obtain a' where "fill_none k ?a = Parsed a'" "args_ok a'" "a_count a' = a_count a + 1 + k"
      "length (a_arg a') = length (a_arg a)" "\<forall>i < a_count a + 1. a_arg a' ! i = a_arg ?a ! i"
      and rest: "\<forall>i. a_count a + 1 \<le> i \<and> i < a_count a + 1 + k \<longrightarrow> a_arg a' ! i = Some TYPE_NONE"
    using 2(1) [OF lt] 2(3) by auto
  moreover have "a_arg a' ! i = Some TYPE_NONE" if "a_count a \<le> i" "i < a_count a + Suc k" for i
    using that rest calculation(5) lt by (cases "i = a_count a") auto
  ultimately show ?case using lt by auto
qed auto

lemma register_arg_ok:
  assumes "args_ok a" "n \<noteq> ARG_NONE" "t \<noteq> TYPE_NONE"
  shows "register_arg ok n t a \<noteq> Out_Of_Block"
    "register_arg ok n t a = Parsed b \<Longrightarrow> args_ok b \<and> args_le a b \<and> uses b n t"
proof -
  have main: "register_arg ok n t a \<noteq> Out_Of_Block \<and>
      (\<forall>b. register_arg ok n t a = Parsed b \<longrightarrow> args_ok b \<and> args_le a b \<and> uses b n t)"
  proof (cases "grow_args ok n a")
    case (Parsed a1)
    note a1 = grow_args_ok(2) [OF assms(1,2) Parsed]
    then have len: "a_count a1 + (unat n + 1 - a_count a1) \<le> length (a_arg a1)" by (auto simp: args_ok_def)
    obtain a2 where a2: "fill_none (unat n + 1 - a_count a1) a1 = Parsed a2" "args_ok a2"
      "a_count a2 = a_count a1 + (unat n + 1 - a_count a1)" "length (a_arg a2) = length (a_arg a1)"
      "\<forall>i < a_count a1. a_arg a2 ! i = a_arg a1 ! i"
      using fill_none_ok [OF _ len] a1 by blast
    have n: "unat n < a_count a2" "unat n < length (a_arg a2)" using a2(3,4) a1 by auto
    then obtain t' where t': "a_arg a2 ! unat n = Some t'" using a2(2) by (auto simp: args_ok_def)
    have le: "args_le a a2" using a1 a2(3,5) by (auto simp: args_le_def uses_def)
    have "args_le a (a2\<lparr>a_arg := (a_arg a2)[unat n := Some t]\<rparr>)" if "t' = TYPE_NONE"
      using le t' that n(2) by (auto simp: args_le_def uses_def nth_list_update)
    then show ?thesis
      using Parsed a2(1,2) t' n le assms(3)
      by (auto simp: register_arg_def uses_def args_ok_def nth_list_update)
  qed (use grow_args_ok(1) [OF assms(1,2)] in \<open>auto simp: register_arg_def\<close>)
  then show "register_arg ok n t a \<noteq> Out_Of_Block"
    "register_arg ok n t a = Parsed b \<Longrightarrow> args_ok b \<and> args_le a b \<and> uses b n t" by auto
qed

lemma next_arg_cases [parsing_simps]:
  "next_arg position p \<noteq> Out_Of_Block"
  "next_arg position p = Parsed (n, q) \<longleftrightarrow>
     (case position of Some m \<Rightarrow> n = m \<and> q = p
      | None \<Rightarrow> p_posn p \<noteq> ARG_NONE \<and> n = p_posn p \<and> q = p\<lparr>p_posn := p_posn p + 1\<rparr>)"
  by (auto simp: next_arg_def split: option.splits)

lemma positional_ok:
  "positional cp \<noteq> Out_Of_Block"
  "positional cp = Parsed (position, cp') \<Longrightarrow> position \<noteq> Some ARG_NONE"
  by (auto simp: positional_def Let_def ARG_NONE_def split: if_splits)

lemma take_arg_ok:
  assumes "args_ok (p_args p)" "position \<noteq> Some ARG_NONE" "t \<noteq> TYPE_NONE"
  shows "take_arg ok position t p \<noteq> Out_Of_Block"
    "take_arg ok position t p = Parsed (n, q) \<Longrightarrow>
      args_ok (p_args q) \<and> args_le (p_args p) (p_args q) \<and> uses (p_args q) n t \<and> n \<noteq> ARG_NONE"
proof -
  have nxt: "n \<noteq> ARG_NONE \<and> p_args q = p_args p" if "next_arg position p = Parsed (n, q)" for n q
    using that assms(2) by (auto simp: parsing_simps split: option.splits)
  show "take_arg ok position t p \<noteq> Out_Of_Block"
    using nxt register_arg_ok(1) [OF assms(1) _ assms(3)] assms(1)
    by (auto simp: take_arg_def parsing_simps split: prod.splits)
  assume "take_arg ok position t p = Parsed (n, q)"
  then obtain r where r: "next_arg position p = Parsed (n, r)" "register_arg ok n t (p_args r) = Parsed (p_args q)"
    by (auto simp: take_arg_def then_parse_Parsed split: prod.splits)
  then show "args_ok (p_args q) \<and> args_le (p_args p) (p_args q) \<and> uses (p_args q) n t \<and> n \<noteq> ARG_NONE"
    using nxt [OF r(1)] register_arg_ok(2) [OF assms(1) _ assms(3)] by auto
qed

subsection \<open>Directives\<close>

text \<open>What an index means: no argument, or one that is used with a type.\<close>

definition index_ok :: "arguments \<Rightarrow> size64 \<Rightarrow> (arg_type \<Rightarrow> bool) \<Rightarrow> bool" where
  "index_ok a n T \<longleftrightarrow> n = ARG_NONE \<or> (\<exists>t. T t \<and> uses a n t)"

lemma index_ok_le: "index_ok a n T \<Longrightarrow> args_le a b \<Longrightarrow> index_ok b n T"
  by (auto simp: index_ok_def args_le_def)

definition fits :: "char \<Rightarrow> arg_type \<Rightarrow> bool" where
  "fits c t \<longleftrightarrow> (\<exists>flags c'. conversion_type flags c' = Some (t, c))"

definition directive_ok :: "arguments \<Rightarrow> char_directive \<Rightarrow> bool" where
  "directive_ok a dp \<longleftrightarrow>
     index_ok a (width_arg_index dp) ((=) TYPE_INT) \<and> index_ok a (precision_arg_index dp) ((=) TYPE_INT) \<and>
     index_ok a (arg_index dp) (fits (conversion dp)) \<and> (arg_index dp = ARG_NONE \<longleftrightarrow> conversion dp = CHR ''%'')"

text \<open>The part of it that holds while the directive is read.\<close>

definition reading_ok :: "parser \<Rightarrow> bool" where
  "reading_ok p \<longleftrightarrow> args_ok (p_args p) \<and> index_ok (p_args p) (width_arg_index (p_dir p)) ((=) TYPE_INT) \<and>
     index_ok (p_args p) (precision_arg_index (p_dir p)) ((=) TYPE_INT)"

definition step_ok :: "parser \<Rightarrow> parser parsing \<Rightarrow> bool" where
  "step_ok p m \<longleftrightarrow> m \<noteq> Out_Of_Block \<and>
     (\<forall>q. m = Parsed q \<longrightarrow> reading_ok q \<and> args_le (p_args p) (p_args q) \<and> dir_start (p_dir q) = dir_start (p_dir p))"

lemma step_okD:
  "step_ok p m \<Longrightarrow> m = Parsed q \<Longrightarrow>
   reading_ok q \<and> args_le (p_args p) (p_args q) \<and> dir_start (p_dir q) = dir_start (p_dir p)"
  by (simp add: step_ok_def)

text \<open>A star takes an \<open>int\<close>.\<close>

lemma star_ok:
  assumes "reading_ok p" "position \<noteq> Some ARG_NONE"
  shows "take_arg ok position TYPE_INT p \<noteq> Out_Of_Block"
    "take_arg ok position TYPE_INT p = Parsed (n, q) \<Longrightarrow>
      reading_ok q \<and> args_le (p_args p) (p_args q) \<and> index_ok (p_args q) n ((=) TYPE_INT) \<and> p_dir q = p_dir p"
  using assms take_arg_ok(1) [of p position TYPE_INT ok] take_arg_ok(2) [of p position TYPE_INT ok n q]
    take_arg_cp [of ok position TYPE_INT p n q]
  by (auto simp: reading_ok_def intro: index_ok_le) (auto simp: index_ok_def)

lemma parse_width_ok:
  assumes "reading_ok p"
  shows "step_ok p (parse_width ok p)"
proof (cases "peek (p_cp p) = CHR ''*''")
  case True
  define start where "start = (\<lambda>cp'. p\<lparr>p_cp := cp', p_max_width := (if p_max_width p < 1 then 1 else p_max_width p),
    p_dir := (p_dir p)\<lparr>width_start := Some (p_cp p), width_end := Some (tl (p_cp p))\<rparr>\<rparr>)"
  have eq: "parse_width ok p =
      then_parse (positional (tl (p_cp p))) (\<lambda>(position, cp').
      then_parse (take_arg ok position TYPE_INT (start cp')) (\<lambda>(n, p).
        Parsed (p\<lparr>p_dir := (p_dir p)\<lparr>width_arg_index := n\<rparr>\<rparr>)))"
    using True by (simp add: parse_width_def Let_def start_def)
  have s: "reading_ok (start cp')" "p_args (start cp') = p_args p" "dir_start (p_dir (start cp')) = dir_start (p_dir p)" for cp'
    using assms by (simp_all add: start_def reading_ok_def)
  show ?thesis
    unfolding step_ok_def eq
    using positional_ok(2) [of "tl (p_cp p)"] star_ok(1) [OF s(1)] star_ok(2) [OF s(1)] s
    by (fastforce simp: parsing_simps positional_ok(1) reading_ok_def split: prod.splits)
next
  case False
  then show ?thesis using assms by (auto simp: step_ok_def parse_width_def Let_def reading_ok_def)
qed

lemma parse_precision_ok:
  assumes "reading_ok p"
  shows "step_ok p (parse_precision ok p)"
proof (cases "peek (p_cp p) = CHR ''.'' \<and> peek (tl (p_cp p)) = CHR ''*''")
  case True
  define start where "start = (\<lambda>cp'. p\<lparr>p_cp := cp', p_max_precision := (if p_max_precision p < 2 then 2 else p_max_precision p),
    p_dir := (p_dir p)\<lparr>precision_start := Some (p_cp p), precision_end := Some (tl (tl (p_cp p)))\<rparr>\<rparr>)"
  have eq: "parse_precision ok p =
      then_parse (positional (tl (tl (p_cp p)))) (\<lambda>(position, cp').
      then_parse (take_arg ok position TYPE_INT (start cp')) (\<lambda>(n, p).
        Parsed (p\<lparr>p_dir := (p_dir p)\<lparr>precision_arg_index := n\<rparr>\<rparr>)))"
    using True by (simp add: parse_precision_def Let_def start_def)
  have s: "reading_ok (start cp')" "p_args (start cp') = p_args p" "dir_start (p_dir (start cp')) = dir_start (p_dir p)" for cp'
    using assms by (simp_all add: start_def reading_ok_def)
  show ?thesis
    unfolding step_ok_def eq
    using positional_ok(2) [of "tl (tl (p_cp p))"] star_ok(1) [OF s(1)] star_ok(2) [OF s(1)] s
    by (fastforce simp: parsing_simps positional_ok(1) reading_ok_def split: prod.splits)
next
  case False
  then show ?thesis using assms by (auto simp: step_ok_def parse_precision_def Let_def reading_ok_def)
qed

lemma conversion_type_None: "conversion_type flags c' = Some (TYPE_NONE, c) \<longleftrightarrow> c' = CHR ''%'' \<and> c = CHR ''%''"
  by (auto simp: conversion_type_def Let_def split: if_splits)

lemma conversion_type_percent: "conversion_type flags c' = Some (t, CHR ''%'') \<Longrightarrow> t = TYPE_NONE"
  by (auto simp: conversion_type_def Let_def split: if_splits)

lemma parse_conversion_ok:
  assumes "reading_ok p" "position \<noteq> Some ARG_NONE"
  shows "parse_conversion ok position p \<noteq> Out_Of_Block"
    "parse_conversion ok position p = Parsed q \<Longrightarrow>
      args_ok (p_args q) \<and> args_le (p_args p) (p_args q) \<and> directive_ok (p_args q) (p_dir q) \<and>
      dir_start (p_dir q) = dir_start (p_dir p) \<and> dir_end (p_dir q) = p_cp q"
proof -
  obtain flags cp where f: "size_flags (p_cp p) 0 = (flags, cp)" by fastforce
  note t = take_arg_ok [OF _ assms(2)]
  show "parse_conversion ok position p \<noteq> Out_Of_Block"
    using f assms(1) t(1) by (auto simp: parse_conversion_def Let_def parsing_simps reading_ok_def split: option.splits)
  assume q: "parse_conversion ok position p = Parsed q"
  then obtain ty c where c: "conversion_type flags (peek cp) = Some (ty, c)"
    using f by (auto simp: parse_conversion_def split: option.splits)
  show "args_ok (p_args q) \<and> args_le (p_args p) (p_args q) \<and> directive_ok (p_args q) (p_dir q) \<and>
      dir_start (p_dir q) = dir_start (p_dir p) \<and> dir_end (p_dir q) = p_cp q"
  proof (cases "ty = TYPE_NONE")
    case True
    then show ?thesis
      using q f c assms(1)
      by (auto simp: parse_conversion_def Let_def reading_ok_def directive_ok_def conversion_type_None index_ok_def)
  next
    case False
    then obtain n r where r: "take_arg ok position ty p = Parsed (n, r)"
      and q': "q = r\<lparr>p_cp := tl cp, p_dir := (p_dir r)\<lparr>arg_index := n, conversion := c, dir_end := tl cp\<rparr>\<rparr>"
      using q f c by (auto simp: parse_conversion_def Let_def then_parse_Parsed)
    have "c \<noteq> CHR ''%''" using False c conversion_type_percent by blast
    moreover have "fits c ty" using c by (auto simp: fits_def)
    ultimately show ?thesis
      using t(2) [OF _ False r] take_arg_cp [OF r] assms(1) q'
      by (auto simp: reading_ok_def directive_ok_def intro: index_ok_le) (auto simp: index_ok_def)
  qed
qed


lemma parse_directive_ok:
  assumes "reading_ok p"
  shows "parse_directive ok glibc p \<noteq> Out_Of_Block"
    "parse_directive ok glibc p = Parsed q \<Longrightarrow>
      args_ok (p_args q) \<and> args_le (p_args p) (p_args q) \<and> directive_ok (p_args q) (p_dir q) \<and>
      dir_start (p_dir q) = dir_start (p_dir p) \<and> dir_end (p_dir q) = p_cp q \<and> suffix (p_cp q) (p_cp p)"
proof -
  have start: "reading_ok (p\<lparr>p_cp := cp, p_dir := (p_dir p)\<lparr>dir_flags := flags\<rparr>\<rparr>)" for cp flags
    using assms by (simp add: reading_ok_def)
  note w = parse_width_ok [OF start, where ok = ok]
  show "parse_directive ok glibc p \<noteq> Out_Of_Block"
  proof
    assume out: "parse_directive ok glibc p = Out_Of_Block"
    obtain position cp where pos: "positional (p_cp p) = Parsed (position, cp)"
      using out positional_ok(1) [of "p_cp p"] by (auto simp: parse_directive_def parsing_simps)
    obtain flags cp' where f: "read_flags glibc cp 0 = (flags, cp')" by fastforce
    let ?p = "p\<lparr>p_cp := cp', p_dir := (p_dir p)\<lparr>dir_flags := flags\<rparr>\<rparr>"
    obtain q where q: "parse_width ok ?p = Parsed q"
      "then_parse (parse_precision ok q) (\<lambda>p. parse_conversion ok position p) = Out_Of_Block"
      using out pos f w by (auto simp: parse_directive_def parsing_simps step_ok_def)
    have "reading_ok q" using step_okD [OF w q(1)] by simp
    note pr = parse_precision_ok [OF this, where ok = ok]
    obtain r where r: "parse_precision ok q = Parsed r" "parse_conversion ok position r = Out_Of_Block"
      using q(2) pr by (auto simp: parsing_simps step_ok_def)
    then show False
      using parse_conversion_ok(1) [of r position ok] step_okD [OF pr r(1)] positional_ok(2) [OF pos] by simp
  qed
  assume p: "parse_directive ok glibc p = Parsed q"
  then obtain position cp flags cp' r t where *:
    "positional (p_cp p) = Parsed (position, cp)" "read_flags glibc cp 0 = (flags, cp')"
    "parse_width ok (p\<lparr>p_cp := cp', p_dir := (p_dir p)\<lparr>dir_flags := flags\<rparr>\<rparr>) = Parsed r"
    "parse_precision ok r = Parsed t" "parse_conversion ok position t = Parsed q"
    using parse_directive_Parsed by blast
  note r = step_okD [OF w *(3)]
  note t = step_okD [OF parse_precision_ok *(4)]
  show "args_ok (p_args q) \<and> args_le (p_args p) (p_args q) \<and> directive_ok (p_args q) (p_dir q) \<and>
      dir_start (p_dir q) = dir_start (p_dir p) \<and> dir_end (p_dir q) = p_cp q \<and> suffix (p_cp q) (p_cp p)"
    using parse_conversion_ok(2) [OF _ positional_ok(2) [OF *(1)] *(5)] t r parse_directive_suffix [OF p]
    by (auto intro: args_le_trans)
qed

subsection \<open>The table of directives\<close>

definition table_ok :: "arguments \<Rightarrow> char_directives \<Rightarrow> bool" where
  "table_ok a d \<longleftrightarrow> length (d_dir d) = unat (d_allocated d) \<and> d_count d < length (d_dir d) \<and>
     (\<forall>i < d_count d. \<exists>dp. d_dir d ! i = Some dp \<and> directive_ok a dp)"

definition stored :: "char_directives \<Rightarrow> char_directive list" where
  "stored d = map the (take (d_count d) (d_dir d))"

lemma directive_ok_le: "directive_ok a dp \<Longrightarrow> args_le a b \<Longrightarrow> directive_ok b dp"
  by (auto simp: directive_ok_def intro: index_ok_le)

lemma table_ok_le: "table_ok a d \<Longrightarrow> args_le a b \<Longrightarrow> table_ok b d"
  unfolding table_ok_def using directive_ok_le by blast

lemma xtimes_not_MAX: "xtimes n k \<noteq> SIZE_MAX \<Longrightarrow> k \<noteq> 0 \<Longrightarrow> unat (xtimes n k) = unat n * unat k"
proof -
  assume *: "xtimes n k \<noteq> SIZE_MAX" "k \<noteq> 0"
  then have "n \<le> SIZE_MAX div k" by (auto simp: xtimes_def split: if_splits)
  then have "unat n \<le> (2 ^ 64 - 1) div unat k" by (simp add: word_le_nat_alt unat_div unat_SIZE_MAX)
  then have "unat n * unat k \<le> 2 ^ 64 - 1"
    using * by (metis le_trans mult_le_mono1 div_times_less_eq_dividend)
  then show ?thesis using \<open>n \<le> SIZE_MAX div k\<close> by (simp add: xtimes_def unat_word_ariths)
qed

lemma store_directive_ok:
  assumes "table_ok a d" "directive_ok a dp"
  shows "store_directive ok dp d \<noteq> Out_Of_Block"
    "store_directive ok dp d = Parsed d' \<Longrightarrow> table_ok a d' \<and> stored d' = stored d @ [dp]"
proof -
  show "store_directive ok dp d \<noteq> Out_Of_Block" using assms(1) by (auto simp: store_directive_def Let_def table_ok_def)
  assume s: "store_directive ok dp d = Parsed d'"
  let ?d = "d\<lparr>d_dir := (d_dir d)[d_count d := Some dp], d_count := d_count d + 1\<rparr>"
  have lt: "d_count d < length (d_dir d)" using assms(1) by (simp add: table_ok_def)
  have all: "\<exists>dp. d_dir ?d ! i = Some dp \<and> directive_ok a dp" if "i < d_count d + 1" for i
    using assms lt that by (cases "i = d_count d") (auto simp: table_ok_def)
  have st: "map the (take (d_count d + 1) (d_dir ?d)) = stored d @ [dp]"
    using lt by (simp add: stored_def take_Suc_conv_app_nth)
  show "table_ok a d' \<and> stored d' = stored d @ [dp]"
  proof (cases "unat (d_allocated d) \<le> d_count d + 1")
    case True
    let ?al = "xtimes (d_allocated d) 2"
    from s lt True have m: "xtimes ?al 88 \<noteq> SIZE_MAX"
      and d': "d' = ?d\<lparr>d_dir := take (d_count d + 1) (d_dir ?d) @ replicate (unat ?al - (d_count d + 1)) None,
        d_allocated := ?al\<rparr>"
      by (auto simp: store_directive_def Let_def split: if_splits)
    have "?al \<noteq> SIZE_MAX"
    proof
      assume "?al = SIZE_MAX"
      with m xtimes_not_MAX [of ?al 88] have "unat (xtimes ?al 88) = (2 ^ 64 - 1) * 88" by (simp add: unat_SIZE_MAX)
      with unat_bound [of "xtimes ?al 88"] show False by simp
    qed
    then have "unat ?al = unat (d_allocated d) * 2" using xtimes_not_MAX [of "d_allocated d" 2] by simp
    then have al: "d_count d + 1 < unat ?al" using True lt assms(1) by (simp add: table_ok_def)
    have nth: "d_dir d' ! i = d_dir ?d ! i" if "i < d_count d + 1" for i
      using that lt by (simp add: d' nth_append)
    have "table_ok a d'"
      unfolding table_ok_def using al all nth lt by (auto simp: d' min_def)
    moreover have "stored d' = map the (take (d_count d + 1) (d_dir ?d))"
      using lt by (simp add: stored_def d')
    ultimately show ?thesis using st by simp
  next
    case False
    then have "d' = ?d" using s lt by (simp add: store_directive_def Let_def)
    then show ?thesis using False lt assms(1) all st by (simp add: table_ok_def stored_def)
  qed
qed

subsection \<open>The directives are those of the text\<close>

fun pieces :: "string \<Rightarrow> char_directive list \<Rightarrow> bool" where
  "pieces cp [] \<longleftrightarrow> CHR ''%'' \<notin> set cp"
| "pieces cp (dp # ds) \<longleftrightarrow>
     dir_start dp = dropWhile (\<lambda>c. c \<noteq> CHR ''%'') cp \<and> dir_start dp \<noteq> [] \<and>
     suffix (dir_end dp) (tl (dir_start dp)) \<and> pieces (dir_end dp) ds"

lemma pieces_skip: "c \<noteq> CHR ''%'' \<Longrightarrow> pieces (c # cp) ds = pieces cp ds"
  by (cases ds) auto

lemma printf_loop_ok:
  "args_ok (p_args p) \<Longrightarrow> table_ok (p_args p) d \<Longrightarrow>
   printf_loop ok glibc p d \<noteq> Out_Of_Block \<and>
   (\<forall>d' a. printf_loop ok glibc p d = Parsed (d', a) \<longrightarrow>
      args_ok a \<and> table_ok a d' \<and> d_dir d' ! d_count d' = Some (new_directive []) \<and>
      (\<exists>ds. stored d' = stored d @ ds \<and> pieces (p_cp p) ds))"
proof (induction ok glibc p d rule: printf_loop.induct)
  case (1 ok glibc p d)
  show ?case
  proof (cases "p_cp p")
    case Nil
    then show ?thesis
      using 1(3,4)
      by (auto simp: printf_loop.simps [of ok glibc p] finish_directives_def table_ok_def stored_def)
  next
    case (Cons c cp)
    show ?thesis
    proof (cases "c = CHR ''%''")
      case False
      with Cons have "printf_loop ok glibc p d = printf_loop ok glibc (p\<lparr>p_cp := cp\<rparr>) d"
        by (simp add: printf_loop.simps [of ok glibc p])
      then show ?thesis using 1(2) [OF Cons False] 1(3,4) pieces_skip [OF False] Cons by simp
    next
      case True
      let ?p = "p\<lparr>p_cp := cp, p_dir := new_directive (c # cp)\<rparr>"
      have ok: "reading_ok ?p" using 1(3) by (simp add: reading_ok_def new_directive_def index_ok_def)
      note dir = parse_directive_ok(1) [OF ok, of ok glibc] parse_directive_ok(2) [OF ok, of ok glibc]
      show ?thesis
      proof (cases "parse_directive ok glibc ?p")
        case (Parsed q)
        note q = dir(2) [OF Parsed]
        then have "table_ok (p_args q) d" using 1(4) table_ok_le by auto
        then have st: "store_directive ok (p_dir q) d \<noteq> Out_Of_Block"
          "\<And>d'. store_directive ok (p_dir q) d = Parsed d' \<Longrightarrow> table_ok (p_args q) d' \<and> stored d' = stored d @ [p_dir q]"
          using store_directive_ok q by blast+
        show ?thesis
        proof (cases "store_directive ok (p_dir q) d")
          case (Parsed e)
          have eq: "printf_loop ok glibc p d = printf_loop ok glibc q e"
            using Cons True Parsed \<open>parse_directive ok glibc ?p = Parsed q\<close>
            by (simp add: printf_loop.simps [of ok glibc p])
          note IH = 1(1) [OF Cons True \<open>parse_directive ok glibc ?p = Parsed q\<close> Parsed]
          have pc: "pieces (p_cp p) (p_dir q # ds)" if "pieces (p_cp q) ds" for ds
            using that q Cons True by (simp add: new_directive_def)
          moreover have "\<exists>es. stored d' = stored d @ es \<and> pieces (p_cp p) es"
            if ex: "\<exists>ds. stored d' = stored e @ ds \<and> pieces (p_cp q) ds" for d'
          proof -
            obtain ds where "stored d' = stored e @ ds" "pieces (p_cp q) ds" using ex by blast
            then have "stored d' = stored d @ p_dir q # ds" "pieces (p_cp p) (p_dir q # ds)"
              using st(2) [OF Parsed] pc by (simp_all del: pieces.simps)
            then show ?thesis by blast
          qed
          ultimately show ?thesis using IH q st(2) [OF Parsed] unfolding eq by blast
        qed (use Cons True Parsed st in \<open>simp_all add: printf_loop.simps [of ok glibc p]\<close>)
      qed (use Cons True dir in \<open>simp_all add: printf_loop.simps [of ok glibc p]\<close>)
    qed
  qed
qed


lemma stored_ok: "table_ok a d \<Longrightarrow> dp \<in> set (stored d) \<Longrightarrow> directive_ok a dp"
  by (auto simp: table_ok_def stored_def in_set_conv_nth) (metis option.sel)



end
