(* ===== verification/Printf_Args.thy ===== *)
theory Printf_Args
  imports Printf_Parse_Bounds
begin

text \<open>
  \<open>src/gnulib-lib/printf-args.c\<close>, which takes the arguments from the variable argument list, and what the parser and it make of
  formats such as those of the programs, text with plain conversions.  An argument of the list is its type, as the caller
  passed it, with its value; floating-point values are a type parameter.  Reading an argument of another type, or more
  arguments than there are, has no result.
\<close>

subsection \<open>The code\<close>

datatype va_kind =
    VA_Int | VA_UInt | VA_Long | VA_ULong | VA_LongLong | VA_ULongLong | VA_Double | VA_LongDouble | VA_WInt | VA_String
  | VA_WString | VA_Pointer | VA_SChar_Pointer | VA_Short_Pointer | VA_Int_Pointer | VA_Long_Pointer | VA_LongLong_Pointer

datatype 'f va_payload = Integer int | Floating 'f | Bytes "string option" | Wides "int list option" | Address "nat option"

type_synonym 'f va_value = "va_kind \<times> 'f va_payload"

fun va_type :: "arg_type \<Rightarrow> va_kind option" where
  "va_type TYPE_NONE = None"
| "va_type TYPE_SCHAR = Some VA_Int"
| "va_type TYPE_UCHAR = Some VA_Int"
| "va_type TYPE_SHORT = Some VA_Int"
| "va_type TYPE_USHORT = Some VA_Int"
| "va_type TYPE_INT = Some VA_Int"
| "va_type TYPE_UINT = Some VA_UInt"
| "va_type TYPE_LONGINT = Some VA_Long"
| "va_type TYPE_ULONGINT = Some VA_ULong"
| "va_type TYPE_LONGLONGINT = Some VA_LongLong"
| "va_type TYPE_ULONGLONGINT = Some VA_ULongLong"
| "va_type TYPE_DOUBLE = Some VA_Double"
| "va_type TYPE_LONGDOUBLE = Some VA_LongDouble"
| "va_type TYPE_CHAR = Some VA_Int"
| "va_type TYPE_WIDE_CHAR = Some VA_WInt"
| "va_type TYPE_STRING = Some VA_String"
| "va_type TYPE_WIDE_STRING = Some VA_WString"
| "va_type TYPE_POINTER = Some VA_Pointer"
| "va_type TYPE_COUNT_SCHAR_POINTER = Some VA_SChar_Pointer"
| "va_type TYPE_COUNT_SHORT_POINTER = Some VA_Short_Pointer"
| "va_type TYPE_COUNT_INT_POINTER = Some VA_Int_Pointer"
| "va_type TYPE_COUNT_LONGINT_POINTER = Some VA_Long_Pointer"
| "va_type TYPE_COUNT_LONGLONGINT_POINTER = Some VA_LongLong_Pointer"

text \<open>What is stored: small integers lose their higher bits, and NULL is no string.\<close>

definition store_arg :: "arg_type \<Rightarrow> 'f va_payload \<Rightarrow> 'f va_payload" where
  "store_arg t v =
     (case v of
        Integer i \<Rightarrow>
          Integer (if t = TYPE_SCHAR then signed_take_bit 7 i else if t = TYPE_UCHAR then take_bit 8 i
                   else if t = TYPE_SHORT then signed_take_bit 15 i else if t = TYPE_USHORT then take_bit 16 i else i)
      | Bytes None \<Rightarrow> Bytes (Some ''(NULL)'')
      | Wides None \<Rightarrow> Wides (Some [40, 78, 85, 76, 76, 41])
      | v \<Rightarrow> v)"

text \<open>The inner option is the result -1, for an argument no directive uses.\<close>

fun printf_fetchargs :: "arg_type list \<Rightarrow> 'f va_value list \<Rightarrow> 'f va_payload list option option" where
  "printf_fetchargs [] args = Some (Some [])"
| "printf_fetchargs (t # ts) args =
     (case va_type t of
        None \<Rightarrow> Some None
      | Some k \<Rightarrow>
          (case args of
             [] \<Rightarrow> None
           | (k', v) # args \<Rightarrow>
               if k \<noteq> k' then None
               else map_option (map_option ((#) (store_arg t v))) (printf_fetchargs ts args)))"

subsection \<open>Plain formats\<close>

datatype piece = Text string | Conv char

fun format_of :: "piece list \<Rightarrow> string" where
  "format_of [] = []"
| "format_of (Text t # ps) = t @ format_of ps"
| "format_of (Conv c # ps) = CHR ''%'' # c # format_of ps"

fun convs :: "piece list \<Rightarrow> string" where
  "convs [] = []"
| "convs (Text t # ps) = convs ps"
| "convs (Conv c # ps) = c # convs ps"

abbreviation plain :: string where "plain \<equiv> ''diouxXcsp''"

fun piece_ok :: "piece \<Rightarrow> bool" where
  "piece_ok (Text t) \<longleftrightarrow> CHR ''%'' \<notin> set t"
| "piece_ok (Conv c) \<longleftrightarrow> c \<in> set plain"

definition plain_type :: "char \<Rightarrow> arg_type" where
  "plain_type c =
     (if c \<in> set ''di'' then TYPE_INT else if c \<in> set ''ouxX'' then TYPE_UINT
      else if c = CHR ''c'' then TYPE_CHAR else if c = CHR ''s'' then TYPE_STRING else TYPE_POINTER)"

lemma plain_chars:
  assumes "c \<in> set plain"
  shows "\<not> digit c" "conversion_type 0 c = Some (plain_type c, c)" "plain_type c \<noteq> TYPE_NONE"
    "c \<notin> set [CHR 0x27, CHR ''-'', CHR ''+'', CHR '' '', CHR ''#'', CHR ''0'', CHR ''I'', CHR ''*'', CHR ''.'',
      CHR ''h'', CHR ''L'', CHR ''l'', CHR ''j'', CHR ''z'', CHR ''Z'', CHR ''t'', CHR ''%'', CHR ''$'']"
proof -
  have "\<forall>c \<in> set plain. \<not> digit c" by code_simp
  then show "\<not> digit c" using assms by blast
  have "\<forall>c \<in> set plain. conversion_type 0 c = Some (plain_type c, c)" by code_simp
  then show "conversion_type 0 c = Some (plain_type c, c)" using assms by blast
  show "plain_type c \<noteq> TYPE_NONE" by (simp add: plain_type_def)
  have "\<forall>c \<in> set plain. c \<notin> set [CHR 0x27, CHR ''-'', CHR ''+'', CHR '' '', CHR ''#'', CHR ''0'', CHR ''I'', CHR ''*'',
      CHR ''.'', CHR ''h'', CHR ''L'', CHR ''l'', CHR ''j'', CHR ''z'', CHR ''Z'', CHR ''t'', CHR ''%'', CHR ''$'']"
    by code_simp
  then show "c \<notin> set [CHR 0x27, CHR ''-'', CHR ''+'', CHR '' '', CHR ''#'', CHR ''0'', CHR ''I'', CHR ''*'', CHR ''.'',
      CHR ''h'', CHR ''L'', CHR ''l'', CHR ''j'', CHR ''z'', CHR ''Z'', CHR ''t'', CHR ''%'', CHR ''$'']"
    using assms by blast
qed

text \<open>The next argument is the next place in the table.\<close>

lemma xtimes_small: "unat n * unat k < 2 ^ 64 - 1 \<Longrightarrow> k \<noteq> 0 \<Longrightarrow>
   unat (xtimes n k) = unat n * unat k \<and> xtimes n k \<noteq> SIZE_MAX"
proof -
  assume *: "unat n * unat k < 2 ^ 64 - 1" "k \<noteq> 0"
  then have "0 < unat k" by (simp add: unat_gt_0)
  then have "unat n \<le> (2 ^ 64 - 1) div unat k"
    using * by (simp add: less_eq_div_iff_mult_less_eq)
  then have "n \<le> SIZE_MAX div k" by (simp add: word_le_nat_alt unat_div unat_SIZE_MAX)
  then have u: "unat (xtimes n k) = unat n * unat k" using * by (simp add: xtimes_def unat_word_ariths)
  with * unat_SIZE_MAX have "unat (xtimes n k) \<noteq> unat SIZE_MAX" by linarith
  then show ?thesis using u by auto
qed

text \<open>A table of some size with room for what comes: seven places, or twice the number in use.\<close>

definition sized :: "nat \<Rightarrow> size64 \<Rightarrow> bool" where
  "sized k al \<longleftrightarrow> 7 \<le> unat al \<and> unat al \<le> max 7 (2 * k)"

lemma register_next:
  assumes ok: "\<And>n. ok n" and a: "args_ok a" "a_count a = k" "k < 2 ^ 50" "sized k (a_allocated a)"
    and t: "t \<noteq> TYPE_NONE"
  shows "\<exists>b. register_arg ok (of_nat k) t a = Parsed b \<and> args_ok b \<and> a_count b = k + 1 \<and> sized (k + 1) (a_allocated b) \<and>
    take (k + 1) (a_arg b) = take k (a_arg a) @ [Some t]"
proof -
  have n: "unat (of_nat k :: size64) = k" using a(3) by (simp add: unat_of_nat take_bit_nat_eq_self)
  let ?al = "xtimes (a_allocated a) 2"
  have len: "length (a_arg a) = unat (a_allocated a)" "k \<le> unat (a_allocated a)" using a(1,2) by (auto simp: args_ok_def)
  have "\<exists>b. grow_args ok (of_nat k) a = Parsed b \<and> args_ok b \<and> a_count b = k \<and> k < length (a_arg b) \<and>
      sized (k + 1) (a_allocated b) \<and> take k (a_arg b) = take k (a_arg a)"
  proof (cases "a_allocated a \<le> of_nat k")
    case True
    then have k: "unat (a_allocated a) = k" using len(2) n by (simp add: word_le_nat_alt)
    have al: "unat ?al = 2 * k" using xtimes_small [of "a_allocated a" 2] k a(3) by simp
    have pos: "7 \<le> k" using a(4) k by (simp add: sized_def)
    have "\<not> ?al \<le> of_nat k" using al n pos by (simp add: word_le_nat_alt)
    moreover have "xtimes ?al 32 \<noteq> SIZE_MAX" using xtimes_small [of ?al 32] al a(3) by simp
    ultimately have "grow_args ok (of_nat k) a =
        Parsed (a\<lparr>a_arg := take k (a_arg a) @ replicate (2 * k - k) None, a_allocated := ?al\<rparr>)"
      using True ok al a(2) by (simp add: grow_args_def Let_def)
    then show ?thesis
      using a(1,2) len k al pos by (auto simp: args_ok_def sized_def nth_append)
  next
    case False
    then show ?thesis using a len n by (auto simp: grow_args_def word_le_nat_alt sized_def)
  qed
  then obtain b where b: "grow_args ok (of_nat k) a = Parsed b" "args_ok b" "a_count b = k" "k < length (a_arg b)"
    "sized (k + 1) (a_allocated b)" "take k (a_arg b) = take k (a_arg a)" by blast
  let ?c = "b\<lparr>a_arg := (a_arg b)[k := Some t], a_count := k + 1\<rparr>"
  have "register_arg ok (of_nat k) t a = Parsed ?c"
    using b n by (simp add: register_arg_def)
  moreover have "args_ok ?c"
    using b by (auto simp: args_ok_def nth_list_update less_Suc_eq)
  moreover have "take (k + 1) (a_arg ?c) = take k (a_arg a) @ [Some t]"
    using b by (simp add: take_Suc_conv_app_nth)
  ultimately show ?thesis using b(5) by auto
qed

text \<open>A plain conversion is read as such.\<close>

lemma parse_plain:
  assumes ok: "\<And>n. ok n" and p: "args_ok (p_args p)" "a_count (p_args p) = k" "k < 2 ^ 50" "sized k (a_allocated (p_args p))"
    "p_posn p = of_nat k" "p_cp p = c # cp" and c: "c \<in> set plain"
  shows "\<exists>q. parse_directive ok glibc p = Parsed q \<and> p_cp q = cp \<and> p_posn q = of_nat (k + 1) \<and> args_ok (p_args q) \<and>
    a_count (p_args q) = k + 1 \<and> sized (k + 1) (a_allocated (p_args q)) \<and>
    take (k + 1) (a_arg (p_args q)) = take k (a_arg (p_args p)) @ [Some (plain_type c)] \<and>
    conversion (p_dir q) = c \<and> arg_index (p_dir q) = of_nat k"
proof -
  note ch = plain_chars [OF c]
  obtain b where b: "register_arg ok (of_nat k) (plain_type c) (p_args p) = Parsed b" "args_ok b" "a_count b = k + 1"
    "sized (k + 1) (a_allocated b)" "take (k + 1) (a_arg b) = take k (a_arg (p_args p)) @ [Some (plain_type c)]"
    using register_next [where ok = ok, OF ok p(1-4) ch(3)] by blast
  have k: "(of_nat k :: size64) \<noteq> ARG_NONE"
  proof
    assume "(of_nat k :: size64) = ARG_NONE"
    then have "unat (of_nat k :: size64) = 2 ^ 64 - 1" using unat_SIZE_MAX ARG_NONE_SIZE_MAX by simp
    then show False using p(3) by (simp add: unat_of_nat take_bit_nat_eq_self)
  qed
  have "positional (p_cp p) = Parsed (None, c # cp)" using ch(1) p(6) by (simp add: positional_def peek_def)
  moreover have "read_flags glibc (c # cp) 0 = (0, c # cp)" using ch(4) by simp
  moreover have "parse_width ok (p\<lparr>p_cp := c # cp, p_dir := (p_dir p)\<lparr>dir_flags := 0\<rparr>\<rparr>) =
      Parsed (p\<lparr>p_cp := c # cp, p_dir := (p_dir p)\<lparr>dir_flags := 0\<rparr>\<rparr>)"
    using ch(1,4) by (simp add: parse_width_def Let_def peek_def)
  moreover have "parse_precision ok (p\<lparr>p_cp := c # cp, p_dir := (p_dir p)\<lparr>dir_flags := 0\<rparr>\<rparr>) =
      Parsed (p\<lparr>p_cp := c # cp, p_dir := (p_dir p)\<lparr>dir_flags := 0\<rparr>\<rparr>)"
    using ch(4) by (simp add: parse_precision_def Let_def peek_def)
  moreover have "size_flags (c # cp) 0 = (0, c # cp)" using ch(4) by simp
  ultimately show ?thesis
    using ch(2,3) b k p(5)
    by (simp add: parse_directive_def parse_conversion_def Let_def peek_def take_arg_def next_arg_def add.commute)
qed

lemma printf_loop_text: "CHR ''%'' \<notin> set t \<Longrightarrow> p_cp p = t @ cp \<Longrightarrow>
  printf_loop ok glibc p d = printf_loop ok glibc (p\<lparr>p_cp := cp\<rparr>) d"
proof (induction t arbitrary: p)
  case (Cons c t)
  then have "printf_loop ok glibc p d = printf_loop ok glibc (p\<lparr>p_cp := t @ cp\<rparr>) d"
    by (auto simp: printf_loop.simps [of ok glibc p])
  then show ?case using Cons.IH [of "p\<lparr>p_cp := t @ cp\<rparr>"] Cons.prems by simp
next
  case Nil
  then have "p\<lparr>p_cp := cp\<rparr> = p" by (cases p) simp
  then show ?case by simp
qed

lemma store_next:
  assumes ok: "\<And>n. ok n" and d: "length (d_dir d) = unat (d_allocated d)" "d_count d = k" "k < length (d_dir d)"
    "k < 2 ^ 50" "sized k (d_allocated d)"
  shows "\<exists>e. store_directive ok dp d = Parsed e \<and> length (d_dir e) = unat (d_allocated e) \<and> d_count e = k + 1 \<and>
    k + 1 < length (d_dir e) \<and> sized (k + 1) (d_allocated e) \<and> stored e = stored d @ [dp]"
proof -
  let ?d = "d\<lparr>d_dir := (d_dir d)[k := Some dp], d_count := k + 1\<rparr>"
  have st: "map the (take (k + 1) (d_dir ?d)) = stored d @ [dp]"
    using d by (simp add: stored_def take_Suc_conv_app_nth)
  show ?thesis
  proof (cases "unat (d_allocated d) \<le> k + 1")
    case True
    let ?al = "xtimes (d_allocated d) 2"
    have al: "unat (d_allocated d) = k + 1" using True d(1,3) by simp
    have al2: "unat ?al = 2 * (k + 1)" using xtimes_small [of "d_allocated d" 2] al d(4) by simp
    have "xtimes ?al 88 \<noteq> SIZE_MAX" using xtimes_small [of ?al 88] al2 d(4) by simp
    then have "store_directive ok dp d =
        Parsed (?d\<lparr>d_dir := take (k + 1) (d_dir ?d) @ replicate (2 * (k + 1) - (k + 1)) None, d_allocated := ?al\<rparr>)"
      using True ok al2 d(2,3) by (simp add: store_directive_def Let_def)
    then show ?thesis using d al al2 st by (auto simp: sized_def stored_def)
  next
    case False
    then have "store_directive ok dp d = Parsed ?d" using d(2,3) by (simp add: store_directive_def Let_def)
    then show ?thesis using False d st by (auto simp: sized_def stored_def)
  qed
qed

lemma printf_loop_plain:
  assumes ok: "\<And>n. ok n"
  shows "list_all piece_ok ps \<Longrightarrow> p_cp p = format_of ps \<Longrightarrow> k + length ps < 2 ^ 50 \<Longrightarrow>
    args_ok (p_args p) \<Longrightarrow> a_count (p_args p) = k \<Longrightarrow> sized k (a_allocated (p_args p)) \<Longrightarrow> p_posn p = of_nat k \<Longrightarrow>
    length (d_dir d) = unat (d_allocated d) \<Longrightarrow> d_count d = k \<Longrightarrow> k < length (d_dir d) \<Longrightarrow> sized k (d_allocated d) \<Longrightarrow>
    \<exists>e a. printf_loop ok glibc p d = Parsed (e, a) \<and>
      map conversion (stored e) = map conversion (stored d) @ convs ps \<and>
      map arg_index (stored e) = map arg_index (stored d) @ map of_nat [k ..< k + length (convs ps)] \<and>
      a_count a = k + length (convs ps) \<and>
      take (a_count a) (a_arg a) = take k (a_arg (p_args p)) @ map (\<lambda>c. Some (plain_type c)) (convs ps)"
proof (induction ps arbitrary: p d k)
  case Nil
  then show ?case
    by (simp add: printf_loop.simps [of ok glibc p] finish_directives_def stored_def)
next
  case (Cons pc ps)
  show ?case
  proof (cases pc)
    case (Text t)
    have "printf_loop ok glibc p d = printf_loop ok glibc (p\<lparr>p_cp := format_of ps\<rparr>) d"
      using printf_loop_text [of t p "format_of ps"] Cons.prems(1,2) Text by simp
    then show ?thesis using Cons.IH [of "p\<lparr>p_cp := format_of ps\<rparr>" k d] Cons.prems Text by simp
  next
    case (Conv c)
    let ?p = "p\<lparr>p_cp := c # format_of ps, p_dir := new_directive (CHR ''%'' # c # format_of ps)\<rparr>"
    have k: "k < 2 ^ 50" and c: "c \<in> set plain" using Cons.prems(1,3) Conv by simp_all
    have "\<exists>q. parse_directive ok glibc ?p = Parsed q \<and> p_cp q = format_of ps \<and> p_posn q = of_nat (k + 1) \<and>
      args_ok (p_args q) \<and> a_count (p_args q) = k + 1 \<and> sized (k + 1) (a_allocated (p_args q)) \<and>
      take (k + 1) (a_arg (p_args q)) = take k (a_arg (p_args ?p)) @ [Some (plain_type c)] \<and>
      conversion (p_dir q) = c \<and> arg_index (p_dir q) = of_nat k"
      using Cons.prems c k by (intro parse_plain ok) simp_all
    then obtain q where q: "parse_directive ok glibc ?p = Parsed q" "p_cp q = format_of ps" "p_posn q = of_nat (k + 1)"
      "args_ok (p_args q)" "a_count (p_args q) = k + 1" "sized (k + 1) (a_allocated (p_args q))"
      "take (k + 1) (a_arg (p_args q)) = take k (a_arg (p_args p)) @ [Some (plain_type c)]"
      "conversion (p_dir q) = c" "arg_index (p_dir q) = of_nat k" by auto
    obtain e where e: "store_directive ok (p_dir q) d = Parsed e" "length (d_dir e) = unat (d_allocated e)"
      "d_count e = k + 1" "k + 1 < length (d_dir e)" "sized (k + 1) (d_allocated e)" "stored e = stored d @ [p_dir q]"
      using store_next [where ok = ok, OF ok Cons.prems(8-10) k Cons.prems(11)] by blast
    have "printf_loop ok glibc p d = printf_loop ok glibc q e"
      using Cons.prems(2) Conv q(1) e(1) by (simp add: printf_loop.simps [of ok glibc p])
    moreover have "\<exists>e' a. printf_loop ok glibc q e = Parsed (e', a) \<and>
      map conversion (stored e') = map conversion (stored e) @ convs ps \<and>
      map arg_index (stored e') = map arg_index (stored e) @ map of_nat [k + 1 ..< k + 1 + length (convs ps)] \<and>
      a_count a = k + 1 + length (convs ps) \<and>
      take (a_count a) (a_arg a) = take (k + 1) (a_arg (p_args q)) @ map (\<lambda>c. Some (plain_type c)) (convs ps)"
      using Cons.prems(1,3) q e Conv by (intro Cons.IH) simp_all
    ultimately show ?thesis
      using q e Conv by (auto simp: upt_conv_Cons simp del: upt_Suc)
  qed
qed


lemma printf_fetchargs_ok:
  "map (\<lambda>v. Some (fst v)) args = map va_type ts \<Longrightarrow>
   printf_fetchargs ts args = Some (Some (map2 (\<lambda>t v. store_arg t (snd v)) ts args))"
proof (induction ts arbitrary: args)
  case (Cons t ts)
  then obtain k v args' where args: "args = (k, v) # args'" by (cases args) auto
  with Cons.prems have "va_type t = Some k" by (metis fst_conv list.inject list.simps(9))
  then show ?case using Cons args by simp
qed simp

text \<open>
  A format of the programs, text with the conversions \<open>d i o u x X c s p\<close>, is parsed to one directive for each, which take
  the arguments in order; the table of arguments has just their types.  So \<open>printf_fetchargs\<close> reads just the arguments
  that are passed, if the caller passes the types the conversions ask for, and stores them as they are, a NULL string
  excepted.
\<close>

theorem plain_format_takes_its_arguments:
  assumes "\<forall>n. ok n" "list_all piece_ok ps" "length ps < 2 ^ 50"
    "map (\<lambda>v. Some (fst v)) args = map (\<lambda>c. va_type (plain_type c)) (convs ps)"
  shows "\<exists>d a. printf_parse ok glibc (format_of ps) = Parsed (d, a) \<and>
    map conversion (stored d) = convs ps \<and> map arg_index (stored d) = map of_nat [0 ..< length (convs ps)] \<and>
    take (a_count a) (a_arg a) = map (\<lambda>c. Some (plain_type c)) (convs ps) \<and>
    printf_fetchargs (map the (take (a_count a) (a_arg a))) args =
      Some (Some (map2 (\<lambda>c v. store_arg (plain_type c) (snd v)) (convs ps) args))"
proof -
  let ?p = "\<lparr>p_cp = format_of ps, p_posn = 0, p_args = no_arguments, p_max_width = 0, p_max_precision = 0,
        p_dir = new_directive (format_of ps)\<rparr>"
  have "args_ok no_arguments" "sized 0 (a_allocated no_arguments)" "sized 0 (d_allocated no_directives)"
    by (simp_all add: args_ok_def no_arguments_def no_directives_def N_DIRECT_ALLOC_def sized_def)
  then have "\<exists>e a. printf_loop ok glibc ?p no_directives = Parsed (e, a) \<and>
      map conversion (stored e) = map conversion (stored no_directives) @ convs ps \<and>
      map arg_index (stored e) = map arg_index (stored no_directives) @ map of_nat [0 ..< 0 + length (convs ps)] \<and>
      a_count a = 0 + length (convs ps) \<and>
      take (a_count a) (a_arg a) = take 0 (a_arg (p_args ?p)) @ map (\<lambda>c. Some (plain_type c)) (convs ps)"
    using assms(1-3) by (intro printf_loop_plain) (simp_all add: no_arguments_def no_directives_def N_DIRECT_ALLOC_def)
  then obtain e a where e: "printf_parse ok glibc (format_of ps) = Parsed (e, a)"
      "map conversion (stored e) = convs ps" "map arg_index (stored e) = map of_nat [0 ..< length (convs ps)]"
      "take (a_count a) (a_arg a) = map (\<lambda>c. Some (plain_type c)) (convs ps)"
    by (auto simp: printf_parse_def stored_def no_directives_def)
  moreover have "printf_fetchargs (map plain_type (convs ps)) args =
      Some (Some (map2 (\<lambda>t v. store_arg t (snd v)) (map plain_type (convs ps)) args))"
    using assms(4) by (intro printf_fetchargs_ok) (simp add: comp_def)
  ultimately show ?thesis
    by (intro exI [of _ e] exI [of _ a]) (simp add: comp_def zip_map1 split_def)
qed

text \<open>The format of a message with a name and a number.\<close>

lemma plain_format_takes_its_arguments_witness:
  "\<exists>d a. printf_parse (\<lambda>n. True) True ''%s: line %d'' = Parsed (d, a) \<and>
    printf_fetchargs (map the (take (a_count a) (a_arg a))) [(VA_String, Bytes None), (VA_Int, Integer 7)] =
      Some (Some [Bytes (Some ''(NULL)''), Integer 7 :: unit va_payload])"
proof -
  let ?ps = "[Conv CHR ''s'', Text '': line '', Conv CHR ''d'']"
  let ?args = "[(VA_String, Bytes None), (VA_Int, Integer 7)] :: unit va_value list"
  have "format_of ?ps = ''%s: line %d''" "list_all piece_ok ?ps" by simp_all
  moreover have "map (\<lambda>v. Some (fst v)) ?args = map (\<lambda>c. va_type (plain_type c)) (convs ?ps)"
    by (simp add: plain_type_def)
  moreover have "map2 (\<lambda>c v. store_arg (plain_type c) (snd v)) (convs ?ps) ?args =
      [Bytes (Some ''(NULL)''), Integer 7]" by (simp add: plain_type_def store_arg_def)
  ultimately show ?thesis
    using plain_format_takes_its_arguments [of "\<lambda>n. True" ?ps ?args True] by auto
qed

end
