(* ===== verification/Spec2Isabelle.thy ===== *)
theory Spec2Isabelle
  imports Data_Properties Format_Properties Session_Properties Invariant Deurlname Icmd Tmap_Properties
    Errors Hmap_Iterator Io_Files Accessors Command_Lines Quotearg_Messages C_Strings Printf_Args
begin

text \<open>
  This development models the programs of renameutils, the batch renamers \<open>qmv\<close> and \<open>qcp\<close>, which are one
  program, the interactive renamers \<open>imv\<close> and \<open>icp\<close>, and \<open>deurlname\<close>, and proves what they promise.

  \<^bold>\<open>The program.\<close>  \<open>qmv\<close> runs \<open>ls\<close> to get a list of names (\<open>src/src/list.c\<close>), writes the names to a file in
  one of three formats (\<open>src/src/editformats/\<close>), lets the user edit it (\<open>src/src/edit.c\<close>), reads the new names,
  plans the renames (\<open>src/src/plan.c\<close>), shows the plan (\<open>src/src/display.c\<close>) and carries it out by running \<open>mv\<close>
  for each rename (\<open>src/src/apply.c\<close>).  That is all it does without commands; with \<open>--interactive\<close>, or when the
  plan has errors, a loop reads commands for the same steps (\<open>src/src/interactive.c\<close>, \<open>src/src/variables.c\<close>).
  \<open>src/src/qcmd.c\<close> holds the options and \<open>main\<close>; \<open>src/src/common/\<close> holds the data structures.  \<open>src/src/icmd.c\<close>
  asks for the new name of one file and runs \<open>mv\<close> or \<open>cp\<close>; \<open>src/src/deurlname.c\<close> removes URL escapes from names.

  \<^bold>\<open>Theories, from the bottom.\<close>
  \<^item> \<open>Prelude\<close>: C strings, the option monad and lemmas the components share.  \<open>Word32\<close>: words of 32 bits.
  \<^item> \<open>String_Utils\<close>, \<open>Tab_Utils\<close>, \<open>Intutil\<close>, \<open>Strbuf\<close>, \<open>Hmap\<close>, \<open>Io_Utils\<close>: the files of the same names in
    \<open>src/src/common/\<close>.  \<open>Llist\<close> is \<open>llist.c\<close> on a heap of nodes, and \<open>Llist_Spec\<close> relates the nodes to a list.
    Two interfaces are locales: \<open>string_map\<close> in \<open>Hmap\<close>, the laws of a finite map, which the planner and the
    listing rest on, and \<open>queue\<close> in \<open>Llist_Spec\<close>; both are interpreted on the code's operations.
  \<^item> \<open>Quote\<close>: \<open>src/src/quote.c\<close>.  \<open>Suboptions\<close>, \<open>Edit_Common\<close>, \<open>Destination_Only\<close>, \<open>Single_Column\<close> and
    \<open>Dual_Column\<close>: the options, writers and readers of the edit formats.
  \<^item> \<open>File_Spec\<close>: the objects \<open>FileSpec\<close> and the plan of \<open>qcmd.h\<close>.  \<open>Plan\<close> is \<open>plan.c\<close>; \<open>Scans\<close>, \<open>Moves\<close>, \<open>Topo\<close>,
    \<open>Cycles\<close>, \<open>Resolve\<close> and \<open>Planner\<close> prove what \<open>make_plan\<close> computes: the scans, the renames as moves of files,
    the topological sort, the graph of the renames that are left, the breaking of its cycles, and the whole.
    \<open>Apply\<close> is \<open>apply.c\<close>, and \<open>Safety\<close> relates its run to the files.
  \<^item> \<open>Listing\<close> and \<open>List_Files\<close>: \<open>list.c\<close>.  \<open>Session\<close>: the global variables of the program as a record and the
    system calls as a record of functions on a world.  \<open>Display\<close>, \<open>Edit\<close>, \<open>Variables\<close>, \<open>Interactive\<close>, \<open>Qcmd\<close>: the
    files of these names.
  \<^item> \<open>Format_Laws\<close>: the contract between \<open>edit_files\<close> and a format as the locale \<open>edit_format_laws\<close>, interpreted
    on the three formats; its client lemma is in \<open>Composition\<close>, which puts listing, editing, planning and
    applying together.  \<open>Heap_Invariant\<close> and \<open>Invariant\<close>: the command mode as a machine and its invariant.
  \<^item> \<open>Hmap_Iterator\<close>, \<open>Accessors\<close>, \<open>Io_Files\<close> and \<open>Errors\<close>: the rest of the hash table, the lists, the buffers and the
    wrappers of system calls, and \<open>error.c\<close> with its chain of message headers.
  \<^item> \<open>Tmap\<close> is \<open>tmap.c\<close>, a red-black tree with parent pointers on a memory of nodes.  \<open>Tmap_Tree\<close> relates the memory
    to a functional tree, \<open>Tmap_Balance\<close>, \<open>Tmap_Map\<close>, \<open>Tmap_Remove\<close> and \<open>Tmap_Walk\<close> treat the rebalancing, the
    insertion, the removal and the iterators, \<open>Tmap_Strings\<close> the keys that are strings, \<open>Tmap_Properties\<close> the whole.
  \<^item> \<open>Deurlname\<close>, \<open>Dirname\<close> (gnulib's functions on file names) and \<open>Icmd\<close>: the other programs.
  \<^item> \<open>Getopt\<close> is gnulib's \<open>getopt.c\<close>, \<open>Getopt_Spec\<close> its equivalence with a reading from left to right, and
    \<open>Command_Lines\<close> puts it into the programs.
  \<^item> \<open>Quotearg\<close> and \<open>Quotearg_Slots\<close> are gnulib's \<open>quotearg.c\<close>, which quotes every name in a message, with its styles,
    options, buffers and slots.  \<open>Quotearg_Spec\<close> gives what each style writes, \<open>Quotearg_Properties\<close> reads it back as
    the shell and as the listing do, and \<open>Quotearg_Messages\<close> treats the names in one message.
  \<^item> Replacements for the C library: \<open>Memchr\<close>, a search by words, with \<open>strnlen\<close> and \<open>strndup\<close>; \<open>Getdelim\<close>, the reading of
    lines into a growing buffer, which refines the streams of \<open>Io_Utils\<close>; \<open>Allocation\<close>, the checked allocation and the
    joining of strings by \<open>xasprintf\<close>; \<open>C_Strings\<close>, \<open>strcasecmp\<close> and \<open>rpmatch\<close>; \<open>Printf_Parse\<close> and \<open>Printf_Args\<close>, the parser of
    formats and the fetching of arguments, with the bounds of their tables in \<open>Printf_Parse_Bounds\<close>.
  \<^item> \<open>Data_Properties\<close>, \<open>Format_Properties\<close>, \<open>Session_Properties\<close> and this theory: the properties, numbered C1
    on, with \<open>Demo\<close> and \<open>Session_Demo\<close> for their witnesses.

  \<^bold>\<open>State and errors.\<close>  Pointers to \<open>FileSpec\<close> objects and list nodes are addresses on heaps that grow at the
  end; NULL is \<^const>\<open>None\<close>.  A function that would follow a dangling pointer, write outside a buffer or pass NULL
  where the C library forbids it has no result, and in a session the result \<open>Undefined\<close>; a failed assertion,
  \<open>die\<close> and \<open>exit\<close> are values of the type \<open>stop\<close>.  Messages are values, in the order in which they are printed.
  Planning and editing know the lists as HOL lists of addresses; that \<open>llist.c\<close> is such a list is proved apart.

  \<^bold>\<open>What is proved.\<close>  The central theorems say that a run of \<open>qmv\<close> either does all the renames as if at the same
  moment, chains and cycles included, or touches no file (\<open>qmv_session_renames\<close>, \<open>qmv_renames_simultaneously\<close>);
  that no \<open>mv\<close> of a valid plan ever overwrites a file, whichever commands fail (\<open>apply_never_overwrites\<close>); and
  what is planned and refused.  Below them are the round trips of the formats and of quoting, the refinement
  of the hash table, the lists and the buffers to maps, lists and strings, and the behaviour of listing,
  editing and the commands on their error paths.  A few theorems pin down faults of the code, such as the
  freed objects in a plan after \<open>import\<close>.

  \<^bold>\<open>Bounds and fuel.\<close>  The integers of \<open>intutil.c\<close>, of the string buffers, of the list sizes and of the dual-column
  options have their widths; texts are shorter than \<open>2 ^ 31\<close> bytes where a buffer holds them.  \<open>follow_renames\<close> and
  \<open>mark_circular\<close> take fuel, one more than the number of renames: \<open>make_plan_total_and_valid\<close> proves that this
  is enough.  The search for a temporary name is a partial function, and \<open>find_tmp_name_terminates\<close> proves
  that it returns.  The counter in that name is an \<open>int\<close> in the code and unbounded here.

  \<^bold>\<open>Arguments of the model.\<close>  The system calls and the C library beyond strings: \<open>wordexp\<close>, \<open>mbrtowc\<close>,
  \<open>iswprint\<close>, \<open>isprint\<close>, \<open>tolower\<close>, the files and processes.  What the theorems ask of them is a named condition, such as
  \<open>mv_moves\<close>, \<open>directories_behave\<close> and \<open>editor_leaves\<close>, with an example in \<open>Session_Demo\<close>.  In the theorem on a
  session the listed names are in the current directory, and \<open>mv\<close> moves what it can and does not overwrite.

  \<^bold>\<open>Not modelled.\<close>  The signal handler and the terminal setup of the command mode, the usage texts and the debugging
  output; what is disabled in the source; of \<open>src/gnulib-lib/\<close>, which is third-party code, the regular
  expressions, the printing of parsed formats, the version texts and the replacements of whole system headers: what the
  programs rely on of them is an argument.
\<close>

section \<open>A whole session\<close>



section \<open>What a rename does\<close>

text \<open>
  C2. \<open>qmv\<close> carries out all the planned renames as if they happened at the same moment.  Given
  freshly edited renames of different files and an \<open>mv\<close> that succeeds where source and
  destination allow it, \<open>make_plan\<close> followed by \<open>apply_plan\<close> succeeds, empties the plan, and
  every planned destination holds what its source held before; chains and cycles of renames
  included.
\<close>

theorem qmv_renames_simultaneously:
  assumes "fresh_renames h R" "finite (dom fs)" "\<forall>n. fe (cat_files wd n) \<longleftrightarrow> fs n \<noteq> None"
    and "runs_mv opts" "mv_works sys"
  shows "\<exists>h' p out. make_plan ''qmv'' fe wd R h = Some (h', p) \<and>
    apply_plan sys opts h' p R (fs, []) = Some (True, out) \<and> plan_ok (out_plan out) = [] \<and>
    simultaneous (move_of h ` {a \<in> set R. planned h' a}) fs (fst (out_world out))"
proof -
  let ?E = "\<lambda>n. fe (cat_files wd n)"
  have E: "dom fs = {n. ?E n}" "occupied fs = ?E" using assms(3) by auto
  then have "finite {n. ?E n}" using assms(2) by simp
  from make_plan_qmv [OF assms(1) this, of "TYPE('a)"] obtain h' p where
    plan: "make_plan ''qmv'' fe wd R h = Some (h', p)" "qmv_plan TYPE('a) ?E h R h' p" by blast
  from qmv_plan_moves [OF plan(2) E(1)] obtain fs' where
    fs': "do_moves (map (move_of h') (plan_ok p)) fs = Some fs'"
    "simultaneous (move_of h ` {a \<in> set R. planned h' a}) fs fs'" by blast
  have "plan_valid (occupied fs) h' (plan_ok p)" unfolding E(2) by (rule qmv_plan_valid [OF plan(2)])
  from apply_plan_complete [OF assms(4,5) this fs'(1), of R "[]"] plan(1) fs'(2) show ?thesis by auto
qed

theorem qmv_renames_simultaneously_witness:
  "\<exists>h' p out. make_plan ''qmv'' demo_exists ''.'' [0, 1, 2] (heap_of demo_renames) = Some (h', p) \<and>
    apply_plan demo_mv qmv_options h' p [0, 1, 2] (demo_files, []) = Some (True, out) \<and>
    plan_ok (out_plan out) = [] \<and>
    simultaneous (move_of (heap_of demo_renames) ` {a \<in> set [0, 1, 2]. planned h' a}) demo_files
      (fst (out_world out))"
  by (rule qmv_renames_simultaneously [OF demo_fresh demo_finite_dom])
    (simp_all add: demo_exists_files del: not_None_eq add: qmv_options_runs demo_mv_works)

text \<open>
  C3. \<open>make_plan\<close> of \<open>qmv\<close> always returns, touching only live objects, and the plan it makes is
  valid: every rename in it has a free destination, or comes after the rename it is linked to by
  \<open>prev_spec\<close>, whose source is its destination; \<open>prev_spec\<close> and \<open>next_spec\<close> agree; and no two
  renames of the plan, the temporary ones included, have the same destination.
\<close>

theorem make_plan_total_and_valid:
  assumes "fresh_renames h R" "finite {n. fe (cat_files wd n)}"
  shows "\<exists>h' p. make_plan ''qmv'' fe wd R h = Some (h', p) \<and>
    plan_valid (\<lambda>n. fe (cat_files wd n)) h' (plan_ok p)"
  using make_plan_qmv [OF assms, of "TYPE(nat)"] qmv_plan_valid by blast

theorem make_plan_total_and_valid_witness:
  "\<exists>h' p. make_plan ''qmv'' demo_exists ''.'' [0, 1, 2] (heap_of demo_renames) = Some (h', p) \<and>
    plan_valid (\<lambda>n. demo_exists (cat_files ''.'' n)) h' (plan_ok p)"
  by (rule make_plan_total_and_valid [OF demo_fresh demo_finite])

text \<open>
  C4. No command that \<open>apply_plan\<close> runs on a valid plan finds its destination occupied, whichever
  commands fail; the run touches only live objects; and the plan it leaves is valid for the files
  as they are then, so that applying it again is safe as well.
\<close>

theorem apply_never_overwrites:
  assumes "runs_mv opts" "mv_behaves sys" "plan_valid (occupied fs) h (plan_ok plan)"
  shows "\<exists>ok out. apply_plan sys opts h plan work (fs, []) = Some (ok, out) \<and>
    no_overwrite (snd (out_world out)) \<and>
    plan_valid (occupied (fst (out_world out))) (out_heap out) (plan_ok (out_plan out))"
  using apply_plan_safe [OF assms, of "[]" work] by (auto simp: no_overwrite_def)

theorem apply_never_overwrites_witness:
  "\<exists>ok out. apply_plan failing_mv qmv_options one_planned (new_plan\<lparr>plan_ok := [0]\<rparr>) [0]
      (demo_files, []) = Some (ok, out) \<and>
    no_overwrite (snd (out_world out)) \<and>
    plan_valid (occupied (fst (out_world out))) (out_heap out) (plan_ok (out_plan out))"
  by (rule apply_never_overwrites [OF qmv_options_runs failing_mv_behaves])
    (use one_planned_valid in simp)

text \<open>
  C5. A rename is refused with ``destination exists'' only if its destination does exist and no
  planned rename moves it away.
\<close>

theorem refused_only_if_blocked:
  assumes "fresh_renames h R" "finite {n. fe (cat_files wd n)}"
  shows "\<exists>h' p. make_plan ''qmv'' fe wd R h = Some (h', p) \<and>
    (\<forall>a \<in> set R. status (the_spec h' a) = STATUS_NEW_EXISTS \<longrightarrow>
       fe (cat_files wd (newn h a)) \<and> (\<forall>b \<in> set R. oldn h b = newn h a \<longrightarrow> \<not> planned h' b))"
  using make_plan_qmv [OF assms, of "TYPE(nat)"] unfolding qmv_plan_def by blast

theorem refused_only_if_blocked_witness:
  "\<exists>h' p. make_plan ''qmv'' demo_exists ''.'' [0, 1] (heap_of stuck_renames) = Some (h', p) \<and>
    (\<forall>a \<in> set [0, 1]. status (the_spec h' a) = STATUS_NEW_EXISTS \<longrightarrow>
       demo_exists (cat_files ''.'' (newn (heap_of stuck_renames) a)) \<and>
       (\<forall>b \<in> set [0, 1]. oldn (heap_of stuck_renames) b = newn (heap_of stuck_renames) a \<longrightarrow>
          \<not> planned h' b))"
  by (rule refused_only_if_blocked [OF stuck_fresh demo_finite])

text \<open>
  C6. Every rename gets exactly one verdict: unchanged ones are listed as such, in order; those
  with a shared destination, a missing source or an occupied destination are the errors, each
  listed once; every other one is planned.
\<close>

theorem make_plan_partitions:
  assumes "fresh_renames h R" "finite {n. fe (cat_files wd n)}"
    and "E = (\<lambda>n. fe (cat_files wd n))"
  shows "\<exists>h' p. make_plan ''qmv'' fe wd R h = Some (h', p) \<and>
    plan_no_change p = filter (\<lambda>a. verdict E h R a = STATUS_NO_CHANGE) R \<and>
    distinct (plan_error p) \<and>
    set (plan_error p) = {a \<in> set R. verdict E h R a = STATUS_DUPLICATE \<or>
      verdict E h R a = STATUS_OLD_MISSING \<or>
      verdict E h R a = STATUS_UNCHECKED \<and> \<not> planned h' a} \<and>
    (\<forall>a \<in> set R. planned h' a \<longrightarrow> verdict E h R a = STATUS_UNCHECKED)"
proof -
  from make_plan_qmv [OF assms(1,2), of "TYPE(nat)"] obtain h' p where
    plan: "make_plan ''qmv'' fe wd R h = Some (h', p)" "qmv_plan TYPE(nat) E h R h' p"
    unfolding assms(3) by blast
  have st: "if verdict E h R a = STATUS_UNCHECKED
      then status (the_spec h' a) = STATUS_NEW_EXISTS \<or> planned h' a
      else status (the_spec h' a) = verdict E h R a" if "a \<in> set R" for a
    using plan(2) that by (simp add: qmv_plan_def)
  have "status (the_spec h' a) \<in> {STATUS_DUPLICATE, STATUS_OLD_MISSING, STATUS_NEW_EXISTS} \<longleftrightarrow>
      verdict E h R a = STATUS_DUPLICATE \<or> verdict E h R a = STATUS_OLD_MISSING \<or>
      verdict E h R a = STATUS_UNCHECKED \<and> \<not> planned h' a" if "a \<in> set R" for a
    using st [OF that] verdict_cases [of E h R a]
    by (elim disjE) (simp_all add: planned_def, auto)
  then have "set (plan_error p) = {a \<in> set R. verdict E h R a = STATUS_DUPLICATE \<or>
      verdict E h R a = STATUS_OLD_MISSING \<or> verdict E h R a = STATUS_UNCHECKED \<and> \<not> planned h' a}"
    using plan(2) unfolding qmv_plan_def by blast
  moreover have "verdict E h R a = STATUS_UNCHECKED" if "a \<in> set R" "planned h' a" for a
    using st [OF that(1)] that(2) verdict_cases [of E h R a]
    by (elim disjE) (simp_all add: planned_def)
  ultimately show ?thesis using plan by (auto simp: qmv_plan_def)
qed

theorem make_plan_partitions_witness:
  "\<exists>h' p. make_plan ''qmv'' demo_exists ''.'' [0, 1] (heap_of stuck_renames) = Some (h', p) \<and>
    plan_no_change p = filter (\<lambda>a. verdict (\<lambda>n. demo_exists (cat_files ''.'' n))
      (heap_of stuck_renames) [0, 1] a = STATUS_NO_CHANGE) [0, 1]"
  using make_plan_partitions [OF stuck_fresh demo_finite refl] by blast

text \<open>
  C7. \<open>make_plan\<close> of \<open>qcp\<close> plans, in the order of the list, exactly the copies that are safe: those whose
  source exists, whose destination is another name that no other copy has, and where the destination
  does not exist.
\<close>

theorem qcp_plans_safe_copies:
  assumes "fresh_renames h R"
  shows "\<exists>h' p. make_plan ''qcp'' fe wd R h = Some (h', p) \<and>
    plan_ok p = filter (\<lambda>a. fe (cat_files wd (oldn h a)) \<and> \<not> fe (cat_files wd (newn h a)) \<and>
      oldn h a \<noteq> newn h a \<and> (\<forall>b \<in> set R. b \<noteq> a \<longrightarrow> newn h b \<noteq> newn h a)) R"
proof -
  let ?E = "\<lambda>n. fe (cat_files wd n)"
  have "verdict ?E h R a = STATUS_UNCHECKED \<and> \<not> ?E (newn h a) \<longleftrightarrow> ?E (oldn h a) \<and> \<not> ?E (newn h a) \<and>
      oldn h a \<noteq> newn h a \<and> (\<forall>b \<in> set R. b \<noteq> a \<longrightarrow> newn h b \<noteq> newn h a)" for a
    by (auto simp: verdict_def)
  then show ?thesis using make_plan_qcp [OF assms refl, of fe wd] by auto
qed

theorem qcp_plans_safe_copies_witness:
  "\<exists>h' p. make_plan ''qcp'' demo_exists ''.'' [0, 1, 2] (heap_of demo_renames) = Some (h', p) \<and> plan_ok p = [2]"
proof -
  have filter: "filter (\<lambda>a. demo_exists (cat_files ''.'' (oldn (heap_of demo_renames) a)) \<and>
      \<not> demo_exists (cat_files ''.'' (newn (heap_of demo_renames) a)) \<and>
      oldn (heap_of demo_renames) a \<noteq> newn (heap_of demo_renames) a \<and>
      (\<forall>b \<in> set [0, 1, 2]. b \<noteq> a \<longrightarrow> newn (heap_of demo_renames) b \<noteq> newn (heap_of demo_renames) a)) [0, 1, 2] = [2]"
    by (simp add: demo_renames_def demo_exists_def)
  show ?thesis using qcp_plans_safe_copies [OF demo_fresh, of demo_exists "''.''"] unfolding filter .
qed



section \<open>The command mode as a machine\<close>




end
